(* ===== verification/SkPrelude.thy ===== *)
theory SkPrelude
  imports Main "HOL-Library.Word"
begin

text \<open>
  Shared vocabulary of the development: the machine integers of the driver, the
  NTSTATUS values it returns (shim/wdk_shim.h, runtime/runtime.h and the local
  definitions at the top of rules/rule_store.c and control/ioctl.c), the theorem
  collections, the locale of inductive invariants every protocol model uses, and
  generic lemmas on lists and words.

  C integers keep their width: UINT8 to UINT64 are words, LONG is a 32-bit word that
  the signed comparisons read as two's complement. NTSTATUS is a LONG.
\<close>

unbundle bit_operations_syntax

type_synonym u8 = "8 word"
type_synonym u16 = "16 word"
type_synonym u32 = "32 word"
type_synonym u64 = "64 word"
type_synonym ntstatus = "32 word"

section \<open>NTSTATUS\<close>

abbreviation (input) STATUS_SUCCESS :: ntstatus where
  "STATUS_SUCCESS \<equiv> 0"

abbreviation (input) SHINKEN_STATUS_TIMEOUT :: ntstatus where
  "SHINKEN_STATUS_TIMEOUT \<equiv> 0x00000102"

abbreviation (input) STATUS_UNSUCCESSFUL :: ntstatus where
  "STATUS_UNSUCCESSFUL \<equiv> 0xC0000001"

abbreviation (input) STATUS_INVALID_PARAMETER :: ntstatus where
  "STATUS_INVALID_PARAMETER \<equiv> 0xC000000D"

abbreviation (input) STATUS_DEVICE_BUSY :: ntstatus where
  "STATUS_DEVICE_BUSY \<equiv> 0x80000011"

abbreviation (input) STATUS_INSUFFICIENT_RESOURCES :: ntstatus where
  "STATUS_INSUFFICIENT_RESOURCES \<equiv> 0xC000009A"

abbreviation (input) STATUS_INVALID_DEVICE_STATE :: ntstatus where
  "STATUS_INVALID_DEVICE_STATE \<equiv> 0xC0000184"

abbreviation (input) STATUS_RETRY :: ntstatus where
  "STATUS_RETRY \<equiv> 0xC000022D"

abbreviation (input) STATUS_OBJECTID_EXISTS :: ntstatus where
  "STATUS_OBJECTID_EXISTS \<equiv> 0xC00002A8"

abbreviation (input) STATUS_NOT_FOUND :: ntstatus where
  "STATUS_NOT_FOUND \<equiv> 0xC0000225"

abbreviation (input) FWP_E_CALLOUT_NOT_FOUND :: ntstatus where
  "FWP_E_CALLOUT_NOT_FOUND \<equiv> 0x80320001"

abbreviation (input) FWP_E_FILTER_NOT_FOUND :: ntstatus where
  "FWP_E_FILTER_NOT_FOUND \<equiv> 0x80320003"

abbreviation (input) FWP_E_PROVIDER_NOT_FOUND :: ntstatus where
  "FWP_E_PROVIDER_NOT_FOUND \<equiv> 0x80320005"

abbreviation (input) FWP_E_SUBLAYER_NOT_FOUND :: ntstatus where
  "FWP_E_SUBLAYER_NOT_FOUND \<equiv> 0x80320007"

text \<open>The macro \<open>NT_SUCCESS(s)\<close>: a signed comparison with 0.\<close>

definition NT_SUCCESS :: "ntstatus \<Rightarrow> bool" where
  "NT_SUCCESS s \<longleftrightarrow> 0 \<le>s s"

text \<open>
  A timeout is a positive status: it is a success for \<open>NT_SUCCESS\<close>. This is why the
  drain verdicts of the driver are compared with \<open>STATUS_SUCCESS\<close> exactly.
\<close>

lemma NT_SUCCESS_timeout: "NT_SUCCESS SHINKEN_STATUS_TIMEOUT \<and> SHINKEN_STATUS_TIMEOUT \<noteq> STATUS_SUCCESS"
  by (simp add: NT_SUCCESS_def word_sle_eq)

lemma NT_SUCCESS_consts [simp]:
  "NT_SUCCESS STATUS_SUCCESS"
  "\<not> NT_SUCCESS STATUS_INVALID_PARAMETER"
  "\<not> NT_SUCCESS STATUS_DEVICE_BUSY"
  "\<not> NT_SUCCESS STATUS_INSUFFICIENT_RESOURCES"
  "\<not> NT_SUCCESS STATUS_INVALID_DEVICE_STATE"
  "\<not> NT_SUCCESS STATUS_RETRY"
  "\<not> NT_SUCCESS STATUS_OBJECTID_EXISTS"
  "\<not> NT_SUCCESS STATUS_NOT_FOUND"
  by (simp_all add: NT_SUCCESS_def word_sle_eq)

section \<open>Inductive invariants\<close>

text \<open>
  The protocols of the driver (rundown, snapshot publication, event queue) are step
  relations; a safety property is an invariant that every step keeps. The locale
  lifts one-step preservation to every reachable state, once.
\<close>

locale inductive_invariant =
  fixes step :: "'s \<Rightarrow> 's \<Rightarrow> bool"
    and inv :: "'s \<Rightarrow> bool"
  assumes step_inv: "inv s \<Longrightarrow> step s t \<Longrightarrow> inv t"
begin

lemma reach_inv: "step\<^sup>*\<^sup>* s t \<Longrightarrow> inv s \<Longrightarrow> inv t"
  by (induction rule: rtranclp_induct) (auto intro: step_inv)

text \<open>A quantity that no step moves backwards does not move backwards on a run.\<close>

lemma reach_mono:
  fixes f :: "'s \<Rightarrow> 'o::order"
  assumes mono: "\<And>u v. inv u \<Longrightarrow> step u v \<Longrightarrow> f u \<le> f v"
    and run: "step\<^sup>*\<^sup>* s t" and s: "inv s"
  shows "f s \<le> f t"
  using run
proof (induction rule: rtranclp_induct)
  case base
  show ?case by simp
next
  case (step u v)
  then have "inv u" using s reach_inv by blast
  with step mono show ?case by (meson order_trans)
qed

text \<open>A property that the steps keep once it holds (under the invariant) is stable.\<close>

lemma reach_stable:
  assumes stable: "\<And>u v. inv u \<Longrightarrow> step u v \<Longrightarrow> p u \<Longrightarrow> p v"
    and run: "step\<^sup>*\<^sup>* s t" and s: "inv s" "p s"
  shows "p t"
  using run
proof (induction rule: rtranclp_induct)
  case base
  show ?case using s by simp
next
  case (step u v)
  then have "inv u" using s reach_inv by blast
  with step stable show ?case by blast
qed

end

end
