(* ===== verification/RuleTypes.thy ===== *)
theory RuleTypes
  imports SkPrelude
begin

text \<open>
  rules/rule_types.h and the constants of wfp/wfp_callouts.h and control/protocol.h the
  rule engine uses: the rule, the classify tuple, the verdict and the statistics, with
  the fields and widths of the C structures. Enumerations that the code keeps in UINT32
  fields are numerals of that width. Fixed byte arrays are lists of bytes
  (\<open>rule_shape\<close> gives their lengths); \<open>userId\<close>, a pointer, is an option.
\<close>

section \<open>Constants\<close>

abbreviation (input) AF_INET :: u32 where "AF_INET \<equiv> 2"
abbreviation (input) AF_INET6 :: u32 where "AF_INET6 \<equiv> 23"

abbreviation (input) SkRuleActionAllow :: u32 where "SkRuleActionAllow \<equiv> 0"
abbreviation (input) SkRuleActionBlock :: u32 where "SkRuleActionBlock \<equiv> 1"
abbreviation (input) SkRuleActionAudit :: u32 where "SkRuleActionAudit \<equiv> 2"
abbreviation (input) SkRuleActionRateLimit :: u32 where "SkRuleActionRateLimit \<equiv> 3"

abbreviation (input) SK_RULE_M_FAMILY :: u32 where "SK_RULE_M_FAMILY \<equiv> 0x0001"
abbreviation (input) SK_RULE_M_DIRECTION :: u32 where "SK_RULE_M_DIRECTION \<equiv> 0x0002"
abbreviation (input) SK_RULE_M_PROTOCOL :: u32 where "SK_RULE_M_PROTOCOL \<equiv> 0x0004"
abbreviation (input) SK_RULE_M_LOCALADDR :: u32 where "SK_RULE_M_LOCALADDR \<equiv> 0x0008"
abbreviation (input) SK_RULE_M_REMOTEADDR :: u32 where "SK_RULE_M_REMOTEADDR \<equiv> 0x0010"
abbreviation (input) SK_RULE_M_LOCALPORT :: u32 where "SK_RULE_M_LOCALPORT \<equiv> 0x0020"
abbreviation (input) SK_RULE_M_REMOTEPORT :: u32 where "SK_RULE_M_REMOTEPORT \<equiv> 0x0040"
abbreviation (input) SK_RULE_M_PID :: u32 where "SK_RULE_M_PID \<equiv> 0x0080"
abbreviation (input) SK_RULE_M_APPID :: u32 where "SK_RULE_M_APPID \<equiv> 0x0100"
abbreviation (input) SK_RULE_M_LAYER :: u32 where "SK_RULE_M_LAYER \<equiv> 0x0200"
abbreviation (input) SK_RULE_M_IFINDEX :: u32 where "SK_RULE_M_IFINDEX \<equiv> 0x0400"
abbreviation (input) SK_RULE_M_SID :: u32 where "SK_RULE_M_SID \<equiv> 0x0800"
abbreviation (input) SK_RULE_M_TIME :: u32 where "SK_RULE_M_TIME \<equiv> 0x1000"

abbreviation (input) SK_RULE_DIR_ANY :: u32 where "SK_RULE_DIR_ANY \<equiv> 0"
abbreviation (input) SK_RULE_DIR_OUT :: u32 where "SK_RULE_DIR_OUT \<equiv> 1"
abbreviation (input) SK_RULE_DIR_IN :: u32 where "SK_RULE_DIR_IN \<equiv> 2"
abbreviation (input) SK_RULE_PROTO_ANY :: u32 where "SK_RULE_PROTO_ANY \<equiv> 0"

abbreviation (input) SkVerdictPermit :: u32 where "SkVerdictPermit \<equiv> 0"
abbreviation (input) SkVerdictBlock :: u32 where "SkVerdictBlock \<equiv> 1"
abbreviation (input) SkVerdictAudit :: u32 where "SkVerdictAudit \<equiv> 2"

abbreviation (input) SkVerdictReasonRuleMatch :: u32 where "SkVerdictReasonRuleMatch \<equiv> 0"
abbreviation (input) SkVerdictReasonNoMatch :: u32 where "SkVerdictReasonNoMatch \<equiv> 1"
abbreviation (input) SkVerdictReasonSnapshotUnavailable :: u32 where
  "SkVerdictReasonSnapshotUnavailable \<equiv> 2"

abbreviation (input) SK_LAYER_COUNT :: u32 where "SK_LAYER_COUNT \<equiv> 6"
abbreviation (input) SK_RULE_MAX :: u32 where "SK_RULE_MAX \<equiv> 4096"
abbreviation (input) SK_REPLACE_MAX_BYTES :: u32 where "SK_REPLACE_MAX_BYTES \<equiv> 1048576"
abbreviation (input) SK_RULE_PATH_MAX_CHARS :: u32 where "SK_RULE_PATH_MAX_CHARS \<equiv> 260"

text \<open>\<open>sizeof(SK_RULE)\<close> with the natural alignment of its fields.\<close>

abbreviation (input) sizeof_SK_RULE :: u64 where "sizeof_SK_RULE \<equiv> 176"

section \<open>Structures\<close>

record rule =
  r_ruleId :: u64
  r_priority :: u32
  r_mask :: u32
  r_action :: u32
  r_enabled :: u32
  r_family :: u32
  r_direction :: u32
  r_protocol :: u32
  r_layerId :: u32
  r_ifIndex :: u32
  r_processId :: u32
  r_appId :: u64
  r_notBefore :: u64
  r_notAfter :: u64
  r_localPortMin :: u32
  r_localPortMax :: u32
  r_remotePortMin :: u32
  r_remotePortMax :: u32
  r_localAddr :: "u8 list"
  r_remoteAddr :: "u8 list"
  r_localPrefix :: u8
  r_remotePrefix :: u8
  r_sid :: "u8 list"
  r_sidLength :: u32
  r_rateTokens :: u32
  r_rateIntervalMs :: u32
  r_burst :: u32

record tuple =
  t_family :: u32
  t_direction :: u32
  t_protocol :: u32
  t_layerId :: u32
  t_ifIndex :: u32
  t_processId :: u32
  t_appId :: u64
  t_localPort :: u32
  t_remotePort :: u32
  t_localAddr :: "u8 list"
  t_remoteAddr :: "u8 list"
  t_userId :: "u8 list option"
  t_userIdLength :: u32
  t_nowUtc100ns :: u64

record verdict =
  v_action :: u32
  v_ruleId :: u64
  v_rateLimited :: u32
  v_hardBlock :: u32
  v_reason :: u32

record rule_stats =
  classifyCalls :: u64
  verdictPermit :: u64
  verdictBlock :: u64
  verdictAudit :: u64
  rateLimited :: u64
  ruleHits :: u64
  defaultHits :: u64
  matchNsTotal :: u64
  matchNsMax :: u64
  matchNsSamples :: u64

text \<open>A rule of all zeroes (\<open>RtlZeroMemory\<close>), the starting point of concrete rules.\<close>

definition zero_rule :: rule where
  "zero_rule = \<lparr>r_ruleId = 0, r_priority = 0, r_mask = 0, r_action = 0, r_enabled = 0,
     r_family = 0, r_direction = 0, r_protocol = 0, r_layerId = 0, r_ifIndex = 0,
     r_processId = 0, r_appId = 0, r_notBefore = 0, r_notAfter = 0, r_localPortMin = 0,
     r_localPortMax = 0, r_remotePortMin = 0, r_remotePortMax = 0,
     r_localAddr = replicate 16 0, r_remoteAddr = replicate 16 0, r_localPrefix = 0,
     r_remotePrefix = 0, r_sid = replicate 32 0, r_sidLength = 0, r_rateTokens = 0,
     r_rateIntervalMs = 0, r_burst = 0\<rparr>"

definition zero_tuple :: tuple where
  "zero_tuple = \<lparr>t_family = 0, t_direction = 0, t_protocol = 0, t_layerId = 0,
     t_ifIndex = 0, t_processId = 0, t_appId = 0, t_localPort = 0, t_remotePort = 0,
     t_localAddr = replicate 16 0, t_remoteAddr = replicate 16 0, t_userId = None,
     t_userIdLength = 0, t_nowUtc100ns = 0\<rparr>"

text \<open>The lengths the C type gives the arrays of a rule.\<close>

definition rule_shape :: "rule \<Rightarrow> bool" where
  "rule_shape r \<longleftrightarrow> length (r_localAddr r) = 16 \<and> length (r_remoteAddr r) = 16 \<and>
     length (r_sid r) = 32"

lemma zero_rule_sel [simp]:
  "r_ruleId zero_rule = 0" "r_priority zero_rule = 0" "r_mask zero_rule = 0"
  "r_action zero_rule = 0" "r_enabled zero_rule = 0" "r_family zero_rule = 0"
  "r_sidLength zero_rule = 0" "r_localPrefix zero_rule = 0" "r_remotePrefix zero_rule = 0"
  "r_rateTokens zero_rule = 0" "r_rateIntervalMs zero_rule = 0" "r_burst zero_rule = 0"
  "rule_shape zero_rule"
  by (simp_all add: zero_rule_def rule_shape_def)

section \<open>Mask bits\<close>

text \<open>\<open>m & bit\<close> as a condition, and its value for a mask that contains it.\<close>

definition has :: "u32 \<Rightarrow> u32 \<Rightarrow> bool" where
  "has m b \<longleftrightarrow> m AND b \<noteq> 0"

lemma has_0 [simp]: "\<not> has 0 b"
  by (simp add: has_def)

lemma has_or: "has (m OR n) b \<longleftrightarrow> has m b \<or> has n b"
  by (auto simp: has_def bit.conj_disj_distrib2 or_eq_0_iff)

lemma has_mono:
  assumes "m AND n = m" and "has m b"
  shows "has n b"
proof (rule ccontr)
  assume "\<not> has n b"
  then have "n AND b = 0" by (simp add: has_def)
  moreover have "m AND b = m AND (n AND b)"
    using assms(1) by (metis and.assoc)
  ultimately show False using assms(2) by (simp add: has_def)
qed

end
