(* ===== verification/PacketHelpers.thy ===== *)
theory PacketHelpers
  imports RuleTypes
begin

text \<open>
  packet/packet_helpers.c: the address prefix match shared by the matcher and the
  classify path, and the diagnostic address formatter with its bounded output buffer.
\<close>

section \<open>Prefix match\<close>

definition SkPkAddrMatch :: "u8 list \<Rightarrow> u8 list \<Rightarrow> u8 \<Rightarrow> u32 \<Rightarrow> bool" where
  "SkPkAddrMatch addr ruleAddr prefix family =
     (if family \<noteq> AF_INET \<and> family \<noteq> AF_INET6 then False
      else
        let width = (if family = AF_INET then 4 else 16) :: u32;
            prefix = (ucast prefix :: u32)
        in if prefix > width * 8 then False
           else if prefix = 0 then True
           else
             let full = prefix div 8;
                 remBits = prefix mod 8
             in if \<not> list_all (\<lambda>i. addr ! i = ruleAddr ! i) [0..<unat full] then False
                else if remBits = 0 then True
                else
                  let mask = (ucast (push_bit (unat (8 - remBits)) (0xFF :: u32)) :: u8)
                  in (addr ! unat full) AND mask = (ruleAddr ! unat full) AND mask)"

text \<open>Bit \<open>k\<close> of an address in network order: \<open>addr[0]\<close> holds the most significant bits.\<close>

definition addr_bit :: "u8 list \<Rightarrow> nat \<Rightarrow> bool" where
  "addr_bit addr k = bit (addr ! (k div 8)) (7 - k mod 8)"

definition addr_width :: "u32 \<Rightarrow> nat" where
  "addr_width family = (if family = AF_INET then 32 else if family = AF_INET6 then 128 else 0)"

lemma byte_eq_bits: "(a::u8) = b \<longleftrightarrow> (\<forall>j<8. bit a (7 - j) = bit b (7 - j))"
proof
  assume bits: "\<forall>j<8. bit a (7 - j) = bit b (7 - j)"
  show "a = b"
  proof (rule bit_word_eqI)
    fix n assume "n < LENGTH(8)"
    then have "n < 8" by simp
    then show "bit a n = bit b n" using bits [rule_format, of "7 - n"] by simp
  qed
qed simp

lemma bit_high_mask:
  assumes "0 < r" and "r < 8"
  shows "bit (ucast (push_bit (8 - r) (0xFF :: u32)) :: u8) n \<longleftrightarrow> n < 8 \<and> 8 - r \<le> n"
proof -
  have ff: "bit (0xFF :: u32) k \<longleftrightarrow> k < 8" for k
  proof -
    have "(0xFF :: u32) = mask 8" by (simp add: mask_eq_exp_minus_1)
    then show ?thesis by (simp only: bit_mask_iff) auto
  qed
  show ?thesis
    unfolding bit_ucast_iff bit_push_bit_iff ff using assms by auto
qed

lemma byte_mask_eq_bits:
  assumes "0 < r" and "r < 8"
  shows "(a::u8) AND ucast (push_bit (8 - r) (0xFF :: u32))
       = b AND ucast (push_bit (8 - r) (0xFF :: u32)) \<longleftrightarrow>
     (\<forall>j<r. bit a (7 - j) = bit b (7 - j))" (is "?l = ?r")
proof
  assume eq: ?l
  show ?r
  proof (intro allI impI)
    fix j assume "j < r"
    with assms have "8 - r \<le> 7 - j" "7 - j < 8" by auto
    with arg_cong [OF eq, of "\<lambda>w. bit w (7 - j)"]
    show "bit a (7 - j) = bit b (7 - j)"
      by (simp add: bit_and_iff bit_high_mask [OF assms])
  qed
next
  assume bits: ?r
  show ?l
  proof (rule bit_word_eqI)
    fix n assume "n < LENGTH(8)"
    then have n: "n < 8" by simp
    have "bit a n = bit b n" if "8 - r \<le> n"
      using bits [rule_format, of "7 - n"] n that assms by simp
    then show "bit (a AND ucast (push_bit (8 - r) (0xFF :: u32))) n
        = bit (b AND ucast (push_bit (8 - r) (0xFF :: u32))) n"
      by (auto simp: bit_and_iff bit_high_mask [OF assms])
  qed
qed

text \<open>The first \<open>p\<close> bits split into whole bytes and the high bits of the next one.\<close>

lemma prefix_bits_split:
  "(\<forall>k<p. addr_bit a k = addr_bit b k) \<longleftrightarrow>
   (\<forall>i<p div 8. a ! i = b ! i) \<and>
   (\<forall>j<p mod 8. bit (a ! (p div 8)) (7 - j) = bit (b ! (p div 8)) (7 - j))" (is "?l = ?r")
proof
  assume l: ?l
  have "bit (a ! i) (7 - j) = bit (b ! i) (7 - j)" if "i < p div 8" "j < 8" for i j
  proof -
    have "8 * i + j < p" using that by presburger
    with l have "addr_bit a (8 * i + j) = addr_bit b (8 * i + j)" by blast
    with that show ?thesis by (simp add: addr_bit_def)
  qed
  moreover have "bit (a ! (p div 8)) (7 - j) = bit (b ! (p div 8)) (7 - j)" if "j < p mod 8" for j
  proof -
    have "8 * (p div 8) + j < p" using that by presburger
    with l have "addr_bit a (8 * (p div 8) + j) = addr_bit b (8 * (p div 8) + j)" by blast
    moreover have "j < 8" using that by (rule less_trans) simp
    ultimately show ?thesis by (simp add: addr_bit_def)
  qed
  ultimately show ?r by (simp add: byte_eq_bits)
next
  assume r: ?r
  show ?l
  proof (intro allI impI)
    fix k assume "k < p"
    show "addr_bit a k = addr_bit b k"
    proof (cases "k div 8 < p div 8")
      case True
      with r show ?thesis by (simp add: addr_bit_def)
    next
      case False
      have "k div 8 \<le> p div 8" using \<open>k < p\<close> by (intro div_le_mono) simp
      with False have eq: "k div 8 = p div 8" by simp
      have "k mod 8 < p mod 8"
        using \<open>k < p\<close> div_mult_mod_eq [of k 8] div_mult_mod_eq [of p 8] eq by linarith
      with eq show ?thesis using r by (simp add: addr_bit_def)
    qed
  qed
qed

lemma unat_prefix_arith:
  fixes p :: u8
  defines "w \<equiv> (ucast p :: u32)"
  shows "unat w = unat p"
    and "unat (w div 8) = unat p div 8" and "unat (w mod 8) = unat p mod 8"
proof -
  have "unat p < 2 ^ 32" using unsigned_less [where 'a = nat, of p] by simp
  then show w: "unat w = unat p"
    by (simp add: w_def unsigned_ucast_eq take_bit_nat_eq_self)
  show "unat (w div 8) = unat p div 8" "unat (w mod 8) = unat p mod 8"
    by (simp_all add: unat_div unat_mod w)
qed

lemma unat_8_minus: "(r::u32) < 8 \<Longrightarrow> unat (8 - r) = 8 - unat r"
  by (simp add: unat_sub word_less_nat_alt word_le_nat_alt)

text \<open>
  The loop over whole bytes followed by the masked comparison is the comparison of the
  first \<open>prefix\<close> bits, at the width of the family.
\<close>

lemma addr_match_bits:
  "SkPkAddrMatch addr ruleAddr prefix family \<longleftrightarrow>
   (family = AF_INET \<or> family = AF_INET6) \<and> unat prefix \<le> addr_width family \<and>
   (\<forall>k<unat prefix. addr_bit addr k = addr_bit ruleAddr k)"
proof (cases "family = AF_INET \<or> family = AF_INET6")
  case False
  then show ?thesis by (simp add: SkPkAddrMatch_def)
next
  case fam: True
  let ?p = "ucast prefix :: u32"
  let ?width = "(if family = AF_INET then 4 else 16) :: u32"
  have wide: "?p > ?width * 8 \<longleftrightarrow> \<not> unat prefix \<le> addr_width family"
    using fam by (auto simp: word_less_nat_alt addr_width_def unat_prefix_arith)
  have zero: "?p = 0 \<longleftrightarrow> unat prefix = 0"
    unfolding unat_prefix_arith(1) [symmetric] unsigned_eq_0_iff ..
  have rem: "?p mod 8 = 0 \<longleftrightarrow> unat prefix mod 8 = 0"
    unfolding unat_prefix_arith(3) [symmetric] unsigned_eq_0_iff ..
  have rem8: "unat (8 - ?p mod 8) = 8 - unat prefix mod 8"
    by (subst unat_8_minus) (simp_all add: word_less_nat_alt unat_prefix_arith)
  have masked: "addr ! (unat prefix div 8) AND ucast (push_bit (8 - unat prefix mod 8) (0xFF :: u32))
      = ruleAddr ! (unat prefix div 8) AND ucast (push_bit (8 - unat prefix mod 8) (0xFF :: u32))
    \<longleftrightarrow> (\<forall>j<unat prefix mod 8. bit (addr ! (unat prefix div 8)) (7 - j)
          = bit (ruleAddr ! (unat prefix div 8)) (7 - j))"
    if "unat prefix mod 8 \<noteq> 0"
    by (rule byte_mask_eq_bits) (use that in auto)
  show ?thesis
    unfolding SkPkAddrMatch_def Let_def wide zero rem unat_prefix_arith rem8 prefix_bits_split
    using fam masked by (auto simp: list_all_iff)
qed

section \<open>Diagnostic formatting\<close>

text \<open>
  The output buffer: its bytes and the index of the write pointer. \<open>end\<close>, the last
  writable index, is an argument as in the code; the byte at \<open>end\<close> is for the NUL.
\<close>

record outbuf =
  ob_mem :: string
  ob_p :: nat

function skPkDecimalDigits :: "u32 \<Rightarrow> u32" where
  "skPkDecimalDigits v = (if v \<ge> 10 then skPkDecimalDigits (v div 10) + 1 else 1)"
  by auto
termination
  by (relation "measure unat") (auto simp: unat_div word_le_nat_alt)

text \<open>\<open>tmp\<close>: the digits, least significant first; empty for 0.\<close>

function dec_tmp :: "u32 \<Rightarrow> string" where
  "dec_tmp v = (if v \<noteq> 0 then char_of (unat (48 + v mod 10)) # dec_tmp (v div 10) else [])"
  by auto
termination
  by (relation "measure unat") (auto simp: unat_div unat_gt_0)

declare skPkDecimalDigits.simps [simp del] dec_tmp.simps [simp del]

fun put_tmp :: "nat \<Rightarrow> string \<Rightarrow> outbuf \<Rightarrow> outbuf" where
  "put_tmp e [] b = b"
| "put_tmp e (c # cs) b =
     (if ob_p b < e then put_tmp e cs (b\<lparr>ob_mem := (ob_mem b)[ob_p b := c], ob_p := ob_p b + 1\<rparr>)
      else b)"

definition skPkPutDec :: "nat \<Rightarrow> u32 \<Rightarrow> outbuf \<Rightarrow> outbuf" where
  "skPkPutDec e v b =
     (let tmp = dec_tmp v;
          tmp = (if tmp = [] then ''0'' else tmp)
      in put_tmp e (rev tmp) b)"

definition hex_digit :: "u32 \<Rightarrow> char" where
  "hex_digit v = ''0123456789abcdef'' ! unat (v AND 0xF)"

definition skPkPutHex4 :: "nat \<Rightarrow> u32 \<Rightarrow> outbuf \<Rightarrow> outbuf" where
  "skPkPutHex4 e v b = put_tmp e (map (\<lambda>shift. hex_digit (drop_bit shift v)) [12, 8, 4, 0]) b"

text \<open>\<open>if (p < end) *p++ = c;\<close>\<close>

definition put_sep :: "nat \<Rightarrow> char \<Rightarrow> outbuf \<Rightarrow> outbuf" where
  "put_sep e c b = put_tmp e [c] b"

definition format_v4_step :: "u8 list \<Rightarrow> nat \<Rightarrow> outbuf \<times> u32 \<Rightarrow> nat \<Rightarrow> outbuf \<times> u32" where
  "format_v4_step addr e = (\<lambda>(b, need) i.
     let (b, need) = (if i \<noteq> 0 then (put_sep e (CHR ''.'') b, need + 1) else (b, need));
         v = (ucast (addr ! i) :: u32)
     in (skPkPutDec e v b, need + skPkDecimalDigits v))"

definition format_v6_step :: "u8 list \<Rightarrow> nat \<Rightarrow> outbuf \<times> u32 \<Rightarrow> nat \<Rightarrow> outbuf \<times> u32" where
  "format_v6_step addr e = (\<lambda>(b, need) i.
     let (b, need) = (if i \<noteq> 0 then (put_sep e (CHR '':'') b, need + 1) else (b, need));
         v = push_bit 8 (ucast (addr ! i) :: u32) OR ucast (addr ! (i + 1))
     in (skPkPutHex4 e v b, need + 4))"

text \<open>
  \<open>buf\<close> is the caller's buffer; \<open>bufSize\<close> is its length. The result is the returned
  count and the buffer after the call.
\<close>

definition SkPkFormatAddr :: "u8 list \<Rightarrow> u32 \<Rightarrow> string \<Rightarrow> u32 \<times> string" where
  "SkPkFormatAddr addr family buf =
     (if length buf = 0 then (0, buf)
      else
        let e = length buf - 1;
            b = \<lparr>ob_mem = buf, ob_p = 0\<rparr>;
            (b, need) =
              (if family = AF_INET then foldl (format_v4_step addr e) (b, 0) [0, 1, 2, 3]
               else if family = AF_INET6
               then foldl (format_v6_step addr e) (b, 0) [0, 2, 4, 6, 8, 10, 12, 14]
               else (put_sep e (CHR ''?'') b, 1))
        in (need, (ob_mem b)[ob_p b := CHR 0x00]))"

text \<open>The text the formatter means to write, independently of the buffer.\<close>

definition dec_text :: "u32 \<Rightarrow> string" where
  "dec_text v = (if v = 0 then ''0'' else rev (dec_tmp v))"

definition hex_text :: "u32 \<Rightarrow> string" where
  "hex_text v = map (\<lambda>shift. hex_digit (drop_bit shift v)) [12, 8, 4, 0]"

definition group_v6 :: "u8 list \<Rightarrow> nat \<Rightarrow> u32" where
  "group_v6 addr i = push_bit 8 (ucast (addr ! i)) OR ucast (addr ! (i + 1))"

definition addr_text :: "u8 list \<Rightarrow> u32 \<Rightarrow> string" where
  "addr_text addr family =
     (if family = AF_INET
      then foldl (\<lambda>s i. s @ (if i \<noteq> 0 then ''.'' else []) @ dec_text (ucast (addr ! i))) [] [0, 1, 2, 3]
      else if family = AF_INET6
      then foldl (\<lambda>s i. s @ (if i \<noteq> 0 then '':'' else []) @ hex_text (group_v6 addr i)) []
             [0, 2, 4, 6, 8, 10, 12, 14]
      else ''?'')"

text \<open>
  The buffer after writing the characters \<open>s\<close> with truncation at index \<open>e\<close>.
\<close>

definition shows_text :: "string \<Rightarrow> nat \<Rightarrow> string \<Rightarrow> outbuf \<Rightarrow> bool" where
  "shows_text buf e s b \<longleftrightarrow>
     ob_p b = min (length s) e \<and> ob_mem b = take e s @ drop (ob_p b) buf"

lemma put_tmp_shows:
  assumes "shows_text buf e s b" and "e < length buf"
  shows "shows_text buf e (s @ t) (put_tmp e t b)"
  using assms(1)
proof (induction t arbitrary: s b)
  case Nil
  then show ?case by simp
next
  case (Cons c t)
  show ?case
  proof (cases "ob_p b < e")
    case False
    with Cons.prems show ?thesis by (auto simp: shows_text_def)
  next
    case True
    then have len: "length s < e" and p: "ob_p b = length s"
      using Cons.prems by (auto simp: shows_text_def)
    have "drop (length s) buf = buf ! length s # drop (Suc (length s)) buf"
      using len assms(2) by (intro Cons_nth_drop_Suc [symmetric]) simp
    then have "shows_text buf e (s @ [c])
        (b\<lparr>ob_mem := (ob_mem b)[ob_p b := c], ob_p := ob_p b + 1\<rparr>)"
      using Cons.prems len p by (simp add: shows_text_def list_update_append)
    from Cons.IH [OF this] True show ?thesis by simp
  qed
qed

lemma put_dec_text: "skPkPutDec e v b = put_tmp e (dec_text v) b"
  unfolding skPkPutDec_def dec_text_def Let_def by (simp add: dec_tmp.simps [of v])

lemma put_dec_shows:
  "shows_text buf e s b \<Longrightarrow> e < length buf \<Longrightarrow>
   shows_text buf e (s @ dec_text v) (skPkPutDec e v b)"
  using put_tmp_shows [of buf e s b "dec_text v"] by (simp only: put_dec_text)

lemma put_hex_shows:
  "shows_text buf e s b \<Longrightarrow> e < length buf \<Longrightarrow>
   shows_text buf e (s @ hex_text v) (skPkPutHex4 e v b)"
  unfolding skPkPutHex4_def hex_text_def by (rule put_tmp_shows)

lemma put_sep_shows:
  "shows_text buf e s b \<Longrightarrow> e < length buf \<Longrightarrow> shows_text buf e (s @ [c]) (put_sep e c b)"
  unfolding put_sep_def by (rule put_tmp_shows)

text \<open>The digits.\<close>

lemma dec_tmp_step:
  "v \<noteq> 0 \<Longrightarrow> dec_tmp v = char_of (unat (48 + v mod 10)) # dec_tmp (v div 10)"
  by (simp add: dec_tmp.simps [of v])

lemma dec_tmp_0 [simp]: "dec_tmp 0 = []"
  by (simp add: dec_tmp.simps)

lemma unat_digit: "unat (48 + (v::u32) mod 10) = 48 + unat v mod 10"
proof -
  have "unat v mod 10 < 10" by simp
  then have "48 + unat v mod 10 < 2 ^ 32" by simp
  then show ?thesis by (simp add: unat_word_ariths unat_mod)
qed

lemma length_dec_tmp: "unat v < 10 ^ n \<Longrightarrow> length (dec_tmp v) \<le> n"
proof (induction n arbitrary: v)
  case 0
  then have "v = 0" by (simp add: unsigned_eq_0_iff)
  then show ?case by simp
next
  case (Suc n)
  show ?case
  proof (cases "v = 0")
    case False
    have "unat (v div 10) < 10 ^ n"
      using Suc.prems by (simp add: unat_div less_mult_imp_div_less mult.commute)
    from Suc.IH [OF this] show ?thesis by (simp add: dec_tmp_step [OF False])
  qed simp
qed

text \<open>\<open>tmp[10]\<close> is large enough for every UINT32.\<close>

lemma dec_tmp_fits: "length (dec_tmp v) \<le> 10"
proof (rule length_dec_tmp)
  have "unat v < 2 ^ 32" using unsigned_less [where 'a = nat, of v] by simp
  then show "unat v < 10 ^ 10" by simp
qed

lemma decimal_digits: "skPkDecimalDigits v = of_nat (length (dec_text v))"
proof (induction v rule: skPkDecimalDigits.induct)
  case (1 v)
  have len: "length (dec_text v) = (if v \<ge> 10 then length (dec_text (v div 10)) + 1 else 1)"
  proof (cases "v \<ge> 10")
    case True
    then have "v \<noteq> 0" by auto
    moreover have "v div 10 \<noteq> 0"
    proof
      assume "v div 10 = 0"
      then have "unat (v div 10) = 0" by simp
      then have "unat v div 10 = 0" by (simp add: unat_div)
      with True show False by (simp add: word_le_nat_alt)
    qed
    ultimately show ?thesis
      using True by (simp add: dec_text_def dec_tmp_step [of v])
  next
    case False
    then have "unat (v div 10) = 0" by (simp add: word_le_nat_alt unat_div)
    then have "v div 10 = 0" by (simp add: unsigned_eq_0_iff)
    with False show ?thesis by (auto simp: dec_text_def dec_tmp_step [of v])
  qed
  show ?case
    unfolding skPkDecimalDigits.simps [of v] len using 1 by simp
qed

lemma format_v4_step_shows:
  assumes "shows_text buf e s b" and "e < length buf" and "need = of_nat (length s)"
  shows "\<exists>b'. format_v4_step addr e (b, need) i
      = (b', of_nat (length (s @ (if i \<noteq> 0 then ''.'' else []) @ dec_text (ucast (addr ! i))))) \<and>
    shows_text buf e (s @ (if i \<noteq> 0 then ''.'' else []) @ dec_text (ucast (addr ! i))) b'"
  using put_dec_shows [OF assms(1,2)] put_dec_shows [OF put_sep_shows [OF assms(1,2)] assms(2)]
  by (cases "i = 0") (simp_all add: format_v4_step_def decimal_digits assms(3) Let_def ac_simps)

lemma length_hex_text [simp]: "length (hex_text v) = 4"
  by (simp add: hex_text_def)

lemma format_v6_step_group:
  "format_v6_step addr e (b, need) i =
   (skPkPutHex4 e (group_v6 addr i) (if i \<noteq> 0 then put_sep e (CHR '':'') b else b),
    (if i \<noteq> 0 then need + 1 else need) + 4)"
  by (cases "i = 0") (simp_all add: format_v6_step_def group_v6_def)

lemma format_v6_step_shows:
  assumes "shows_text buf e s b" and "e < length buf" and "need = of_nat (length s)"
  shows "\<exists>b'. format_v6_step addr e (b, need) i
      = (b', of_nat (length (s @ (if i \<noteq> 0 then '':'' else []) @ hex_text (group_v6 addr i)))) \<and>
    shows_text buf e (s @ (if i \<noteq> 0 then '':'' else []) @ hex_text (group_v6 addr i)) b'"
  using put_hex_shows [OF assms(1,2)] put_hex_shows [OF put_sep_shows [OF assms(1,2)] assms(2)]
  unfolding format_v6_step_group assms(3)
  by (cases "i = 0") (simp_all add: ac_simps)

lemma foldl_shows:
  assumes step: "\<And>s b need i. shows_text buf e s b \<Longrightarrow> need = of_nat (length s) \<Longrightarrow>
      \<exists>b'. f (b, need) i = (b', of_nat (length (g s i))) \<and> shows_text buf e (g s i) b'"
    and "shows_text buf e s b" and "need = of_nat (length s)"
  shows "\<exists>b'. foldl f (b, need) is = (b', of_nat (length (foldl g s is))) \<and>
    shows_text buf e (foldl g s is) b'"
  using assms(2,3)
proof (induction "is" arbitrary: s b need)
  case Nil
  then show ?case by simp
next
  case (Cons i "is")
  from step [OF Cons.prems, of i] obtain b'
    where "f (b, need) i = (b', of_nat (length (g s i)))" "shows_text buf e (g s i) b'" by blast
  with Cons.IH show ?case by simp
qed

text \<open>
  The returned count is the length of the full text, and the buffer holds the text,
  truncated to leave room for the NUL; bytes after it keep their value.
\<close>

lemma format_addr_result:
  assumes "buf \<noteq> []"
  shows "SkPkFormatAddr addr family buf =
    (of_nat (length (addr_text addr family)),
     (let s = take (length buf - 1) (addr_text addr family)
      in s @ CHR 0x00 # drop (Suc (length s)) buf))"
proof -
  define e where "e = length buf - 1"
  have e: "e < length buf" using assms by (simp add: e_def)
  have init: "shows_text buf e [] \<lparr>ob_mem = buf, ob_p = 0\<rparr>" by (simp add: shows_text_def)
  define r where "r = (if family = AF_INET
      then foldl (format_v4_step addr e) (\<lparr>ob_mem = buf, ob_p = 0\<rparr>, 0) [0, 1, 2, 3]
      else if family = AF_INET6
      then foldl (format_v6_step addr e) (\<lparr>ob_mem = buf, ob_p = 0\<rparr>, 0) [0, 2, 4, 6, 8, 10, 12, 14]
      else (put_sep e (CHR ''?'') \<lparr>ob_mem = buf, ob_p = 0\<rparr>, 1))"
  have "\<exists>b. r = (b, of_nat (length (addr_text addr family))) \<and>
      shows_text buf e (addr_text addr family) b"
  proof -
    note v4 = foldl_shows [where f = "format_v4_step addr e" and
        g = "\<lambda>s i. s @ (if i \<noteq> 0 then ''.'' else []) @ dec_text (ucast (addr ! i))",
        OF format_v4_step_shows [OF _ e] init, of 0 "[0, 1, 2, 3]"]
    note v6 = foldl_shows [where f = "format_v6_step addr e" and
        g = "\<lambda>s i. s @ (if i \<noteq> 0 then '':'' else []) @ hex_text (group_v6 addr i)",
        OF format_v6_step_shows [OF _ e] init, of 0 "[0, 2, 4, 6, 8, 10, 12, 14]"]
    note other = put_sep_shows [OF init e, of "CHR ''?''"]
    consider "family = AF_INET" | "family = AF_INET6" | "family \<noteq> AF_INET" "family \<noteq> AF_INET6"
      by blast
    then show ?thesis
    proof cases
      case 1
      have "r = foldl (format_v4_step addr e) (\<lparr>ob_mem = buf, ob_p = 0\<rparr>, 0) [0, 1, 2, 3]"
        using 1 by (simp add: r_def)
      then show ?thesis using v4 1 unfolding addr_text_def by simp
    next
      case 2
      have "r = foldl (format_v6_step addr e) (\<lparr>ob_mem = buf, ob_p = 0\<rparr>, 0)
          [0, 2, 4, 6, 8, 10, 12, 14]"
        using 2 by (simp add: r_def)
      then show ?thesis using v6 2 unfolding addr_text_def by simp
    next
      case 3
      then show ?thesis using other by (simp add: r_def addr_text_def)
    qed
  qed
  then obtain b where r: "r = (b, of_nat (length (addr_text addr family)))"
    and b: "shows_text buf e (addr_text addr family) b" by blast
  have "SkPkFormatAddr addr family buf =
      (of_nat (length (addr_text addr family)), (ob_mem b)[ob_p b := CHR 0x00])"
  proof -
    have "SkPkFormatAddr addr family buf =
        (case r of (b, need) \<Rightarrow> (need, (ob_mem b)[ob_p b := CHR 0x00]))"
      using assms by (simp only: SkPkFormatAddr_def e_def r_def Let_def if_False length_0_conv)
    then show ?thesis by (simp add: r)
  qed
  moreover have "(ob_mem b)[ob_p b := CHR 0x00]
      = take e (addr_text addr family) @ CHR 0x00 # drop (Suc (ob_p b)) buf"
  proof -
    have "drop (ob_p b) buf = buf ! ob_p b # drop (Suc (ob_p b)) buf"
      using b e by (intro Cons_nth_drop_Suc [symmetric]) (simp add: shows_text_def)
    with b show ?thesis by (simp add: shows_text_def list_update_append min.commute)
  qed
  moreover have "ob_p b = length (take e (addr_text addr family))"
    using b by (simp add: shows_text_def min.commute)
  ultimately show ?thesis by (simp add: Let_def e_def)
qed

section \<open>Reading the text back\<close>

text \<open>A C string: the characters before the first NUL.\<close>

definition c_string :: "string \<Rightarrow> string" where
  "c_string m = takeWhile (\<lambda>c. c \<noteq> CHR 0x00) m"

fun split_on :: "char \<Rightarrow> string \<Rightarrow> string list" where
  "split_on c [] = [[]]"
| "split_on c (x # xs) =
     (if x = c then [] # split_on c xs
      else (case split_on c xs of [] \<Rightarrow> [[x]] | w # ws \<Rightarrow> (x # w) # ws))"

definition dec_value :: "string \<Rightarrow> nat" where
  "dec_value s = foldl (\<lambda>n c. 10 * n + (of_char c - 48)) 0 s"

definition hex_value :: "string \<Rightarrow> nat" where
  "hex_value s = foldl (\<lambda>n c. 16 * n + (if of_char c < (97::nat) then of_char c - 48 else of_char c - 87)) 0 s"

lemma split_on_last: "c \<notin> set s \<Longrightarrow> split_on c s = [s]"
  by (induction s) auto

lemma split_on_sep: "c \<notin> set s \<Longrightarrow> split_on c (s @ c # t) = s # split_on c t"
  by (induction s) auto

text \<open>The text of an address as its groups, joined by the separator.\<close>

lemma addr_text_v4:
  "addr_text addr AF_INET = dec_text (ucast (addr ! 0)) @ CHR ''.'' #
     dec_text (ucast (addr ! 1)) @ CHR ''.'' # dec_text (ucast (addr ! 2)) @ CHR ''.'' #
     dec_text (ucast (addr ! 3))"
  by (simp add: addr_text_def)

lemma addr_text_v6:
  "addr_text addr AF_INET6 = hex_text (group_v6 addr 0) @ CHR '':'' #
     hex_text (group_v6 addr 2) @ CHR '':'' # hex_text (group_v6 addr 4) @ CHR '':'' #
     hex_text (group_v6 addr 6) @ CHR '':'' # hex_text (group_v6 addr 8) @ CHR '':'' #
     hex_text (group_v6 addr 10) @ CHR '':'' # hex_text (group_v6 addr 12) @ CHR '':'' #
     hex_text (group_v6 addr 14)"
  by (simp add: addr_text_def)

lemma dec_tmp_digits: "c \<in> set (dec_tmp v) \<Longrightarrow> of_char c \<in> {48..57::nat}"
proof (induction v rule: dec_tmp.induct)
  case (1 v)
  show ?case
  proof (cases "v = 0")
    case False
    have "unat v mod 10 < 10" by simp
    then have "of_char (char_of (unat (48 + v mod 10)) :: char) \<in> {48..57::nat}"
      unfolding unat_digit by (simp add: of_char_of)
    with 1 False show ?thesis by (auto simp: dec_tmp_step [OF False])
  qed (use 1 in simp)
qed

lemma dec_text_digits: "c \<in> set (dec_text v) \<Longrightarrow> of_char c \<in> {48..57::nat}"
  using dec_tmp_digits [of c v] by (auto simp: dec_text_def split: if_splits)

lemma dec_value_snoc: "dec_value (s @ [c]) = 10 * dec_value s + (of_char c - 48)"
  by (simp add: dec_value_def)

lemma dec_value_tmp: "dec_value (rev (dec_tmp v)) = unat v"
proof (induction v rule: dec_tmp.induct)
  case (1 v)
  show ?case
  proof (cases "v = 0")
    case True
    then show ?thesis by (simp add: dec_value_def)
  next
    case False
    have "unat v mod 10 < 10" by simp
    then have "of_char (char_of (unat (48 + v mod 10)) :: char) = (48 + unat v mod 10 :: nat)"
      unfolding unat_digit by (simp add: of_char_of)
    with 1 [OF False] show ?thesis
      by (simp add: dec_tmp_step [OF False] dec_value_snoc unat_div)
  qed
qed

lemma dec_value_text [simp]: "dec_value (dec_text v) = unat v"
  using dec_value_tmp [of v] by (auto simp: dec_text_def dec_value_def)

lemma hex_digit_values:
  assumes "k < 16"
  shows "(if of_char (''0123456789abcdef'' ! k) < (97::nat)
      then of_char (''0123456789abcdef'' ! k) - 48
      else of_char (''0123456789abcdef'' ! k) - 87) = k"
    and "''0123456789abcdef'' ! k \<noteq> CHR '':''"
    and "''0123456789abcdef'' ! k \<noteq> CHR 0x00"
proof -
  have "list_all (\<lambda>k. (if of_char (''0123456789abcdef'' ! k) < (97::nat)
      then of_char (''0123456789abcdef'' ! k) - 48
      else of_char (''0123456789abcdef'' ! k) - 87) = k \<and>
      ''0123456789abcdef'' ! k \<noteq> CHR '':'' \<and> ''0123456789abcdef'' ! k \<noteq> CHR 0x00) [0..<16]"
    by (simp add: upt_rec)
  with assms show "(if of_char (''0123456789abcdef'' ! k) < (97::nat)
      then of_char (''0123456789abcdef'' ! k) - 48
      else of_char (''0123456789abcdef'' ! k) - 87) = k"
    and "''0123456789abcdef'' ! k \<noteq> CHR '':''" and "''0123456789abcdef'' ! k \<noteq> CHR 0x00"
    by (simp_all add: list_all_iff)
qed

lemma unat_nibble: "unat ((v::u32) AND 0xF) = unat v mod 16"
proof -
  have "(0xF :: u32) = mask 4" by (simp add: mask_eq_exp_minus_1)
  then have "v AND 0xF = take_bit 4 v" by (simp only: take_bit_eq_mask)
  then have "v AND 0xF = v mod 16" by (simp add: take_bit_eq_mod)
  then show ?thesis by (simp add: unat_mod)
qed

lemma hex_text_chars: "c \<in> set (hex_text v) \<Longrightarrow> c \<noteq> CHR '':'' \<and> c \<noteq> CHR 0x00"
  using hex_digit_values(2,3) by (auto simp: hex_text_def hex_digit_def unat_nibble)

lemma nibbles:
  fixes n :: nat
  assumes "n < 2 ^ 16"
  shows "16 * (16 * (16 * (n div 2 ^ 12 mod 16) + n div 2 ^ 8 mod 16) + n div 2 ^ 4 mod 16)
      + n mod 16 = n"
proof -
  define a where "a = n div 16"
  define b where "b = a div 16"
  define c where "c = b div 16"
  have eqs: "n div 2 ^ 4 = a" "n div 2 ^ 8 = b" "n div 2 ^ 12 = c"
    by (simp_all add: a_def b_def c_def flip: div_mult2_eq)
  have "c < 16" using assms by (simp add: c_def b_def a_def flip: div_mult2_eq)
  moreover have "n = 16 * a + n mod 16" "a = 16 * b + a mod 16" "b = 16 * c + b mod 16"
    by (simp_all add: a_def b_def c_def)
  ultimately show ?thesis unfolding eqs by simp
qed

lemma hex_value_text:
  assumes "unat v < 2 ^ 16"
  shows "hex_value (hex_text v) = unat v"
proof -
  have digit: "(if of_char (hex_digit w) < (97::nat) then of_char (hex_digit w) - 48
      else of_char (hex_digit w) - 87) = unat w mod 16" for w
    unfolding hex_digit_def unat_nibble by (rule hex_digit_values) simp
  have shift: "unat (drop_bit n v) = unat v div 2 ^ n" for n
  proof -
    have "unat (drop_bit n v) = drop_bit n (unat v)"
      by (rule bit_eqI) (auto simp: bit_unsigned_iff bit_drop_bit_eq dest: bit_imp_le_length)
    then show ?thesis by (simp only: drop_bit_eq_div)
  qed
  have "hex_value (hex_text v) = 16 * (16 * (16 * (unat v div 2 ^ 12 mod 16)
      + unat v div 2 ^ 8 mod 16) + unat v div 2 ^ 4 mod 16) + unat v mod 16"
    by (simp add: hex_value_def hex_text_def digit shift)
  also have "\<dots> = unat v"
    using assms by (rule nibbles)
  finally show ?thesis .
qed

lemma unat_group_v6: "unat (group_v6 addr i) = 256 * unat (addr ! i) + unat (addr ! (i + 1))"
proof -
  have byte: "unat (b::u8) < 256" for b
    using unsigned_less [where 'a = nat, of b] by simp
  have small: "unat (ucast b :: u32) = unat b" for b :: u8
    using byte [of b] by (simp add: unsigned_ucast_eq take_bit_nat_eq_self)
  have "group_v6 addr i = push_bit 8 (ucast (addr ! i)) + ucast (addr ! (i + 1))"
    unfolding group_v6_def
    by (rule disjunctive_add [symmetric])
      (auto simp: bit_push_bit_iff bit_ucast_iff dest: bit_imp_le_length)
  then show ?thesis
    using byte [of "addr ! i"] byte [of "addr ! (i + 1)"]
    by (simp add: push_bit_eq_mult unat_word_ariths small)
qed

lemma group_v6_small: "unat (group_v6 addr i) < 2 ^ 16"
proof -
  have "unat (b::u8) < 256" for b
    using unsigned_less [where 'a = nat, of b] by simp
  from this [of "addr ! i"] this [of "addr ! (i + 1)"] show ?thesis
    by (simp add: unat_group_v6)
qed

lemma hex_value_group:
  "hex_value (hex_text (group_v6 addr i)) = 256 * unat (addr ! i) + unat (addr ! (i + 1))"
  unfolding hex_value_text [OF group_v6_small] by (rule unat_group_v6)

lemma dec_text_chars: "c \<in> set (dec_text v) \<Longrightarrow> c \<noteq> CHR ''.'' \<and> c \<noteq> CHR 0x00"
  using dec_text_digits [of c v] by auto

lemma unat_ucast_byte: "unat (ucast (b::u8) :: u32) = unat b"
proof -
  have "unat b < 256" using unsigned_less [where 'a = nat, of b] by simp
  then show ?thesis by (simp add: unsigned_ucast_eq take_bit_nat_eq_self)
qed

lemma read_back_v4:
  "map dec_value (split_on (CHR ''.'') (addr_text addr AF_INET)) = map (\<lambda>i. unat (addr ! i)) [0, 1, 2, 3]"
proof -
  have "CHR ''.'' \<notin> set (dec_text v)" for v
    using dec_text_chars [of "CHR ''.''" v] by blast
  then show ?thesis
    by (simp add: addr_text_v4 split_on_sep split_on_last unat_ucast_byte)
qed

lemma read_back_v6:
  "map hex_value (split_on (CHR '':'') (addr_text addr AF_INET6))
   = map (\<lambda>i. 256 * unat (addr ! i) + unat (addr ! (i + 1))) [0, 2, 4, 6, 8, 10, 12, 14]"
proof -
  have "CHR '':'' \<notin> set (hex_text v)" for v
    using hex_text_chars [of "CHR '':''" v] by blast
  then show ?thesis
    by (simp add: addr_text_v6 split_on_sep split_on_last hex_value_group)
qed

text \<open>The longest texts: 15 characters for v4, 39 for v6.\<close>

lemma length_dec_byte: "length (dec_text (ucast (b::u8))) \<le> 3"
proof -
  have "unat b < 256" using unsigned_less [where 'a = nat, of b] by simp
  then have "length (dec_tmp (ucast b)) \<le> 3"
    by (intro length_dec_tmp) (simp add: unat_ucast_byte)
  then show ?thesis by (simp add: dec_text_def)
qed

lemma length_addr_text:
  "length (addr_text addr family) \<le> (if family = AF_INET then 15 else 39)"
proof -
  consider "family = AF_INET" | "family = AF_INET6" | "family \<noteq> AF_INET" "family \<noteq> AF_INET6"
    by blast
  then show ?thesis
  proof cases
    case 1
    show ?thesis
      using length_dec_byte [of "addr ! 0"] length_dec_byte [of "addr ! 1"]
        length_dec_byte [of "addr ! 2"] length_dec_byte [of "addr ! 3"]
      unfolding 1 by (simp add: addr_text_v4)
  next
    case 2
    show ?thesis unfolding 2 by (simp add: addr_text_v6)
  next
    case 3
    then show ?thesis by (simp add: addr_text_def)
  qed
qed

lemma addr_text_no_nul: "c \<in> set (addr_text addr family) \<Longrightarrow> c \<noteq> CHR 0x00"
proof -
  assume c: "c \<in> set (addr_text addr family)"
  consider "family = AF_INET" | "family = AF_INET6" | "family \<noteq> AF_INET" "family \<noteq> AF_INET6"
    by blast
  then show "c \<noteq> CHR 0x00"
  proof cases
    case 1
    with c show ?thesis by (auto simp: addr_text_v4 dest: dec_text_chars)
  next
    case 2
    with c show ?thesis by (auto simp: addr_text_v6 dest: hex_text_chars)
  next
    case 3
    with c show ?thesis by (simp add: addr_text_def)
  qed
qed

text \<open>The C string left in the buffer is the text cut to \<open>bufSize - 1\<close> characters.\<close>

lemma format_c_string:
  assumes "buf \<noteq> []"
  shows "c_string (snd (SkPkFormatAddr addr family buf))
      = take (length buf - 1) (addr_text addr family)"
proof -
  have "CHR 0x00 \<notin> set (take (length buf - 1) (addr_text addr family))"
    using addr_text_no_nul in_set_takeD by fast
  then show ?thesis
    unfolding format_addr_result [OF assms] c_string_def Let_def snd_conv
    by (subst takeWhile_append2) auto
qed

section \<open>Properties\<close>

text \<open>The prefix match of packet_helpers.c, a loop over whole bytes and one masked byte,
  accepts exactly if the family is known, the prefix fits the family's width and the first
  \<open>prefix\<close> bits of the two addresses are equal in network order.\<close>

theorem addr_match_correct:
  "SkPkAddrMatch addr ruleAddr prefix family \<longleftrightarrow>
   (family = AF_INET \<or> family = AF_INET6) \<and> unat prefix \<le> addr_width family \<and>
   (\<forall>k. k < unat prefix \<longrightarrow> addr_bit addr k = addr_bit ruleAddr k)"
  by (rule addr_match_bits)

theorem addr_match_correct_witness:
  "SkPkAddrMatch [10, 1, 192, 7] [10, 1, 128, 0] 17 AF_INET \<and>
   addr_bit [10, 1, 192, 7] 16 = addr_bit [10, 1, 128, 0] 16"
proof -
  have m: "SkPkAddrMatch [10, 1, 192, 7] [10, 1, 128, 0] 17 AF_INET" by code_simp
  with addr_match_correct [of "[10, 1, 192, 7]" "[10, 1, 128, 0]" 17 AF_INET]
  have "\<forall>k. k < unat (17 :: u8) \<longrightarrow>
      addr_bit [10, 1, 192, 7] k = addr_bit [10, 1, 128, 0] k" by blast
  then have "addr_bit [10, 1, 192, 7] 16 = addr_bit [10, 1, 128, 0] 16" by simp
  with m show ?thesis by blast
qed

text \<open>The diagnostic formatter never writes outside its buffer and always terminates it:
  it returns the length of the full text (at most 39), leaves the C string of that text cut
  to the buffer, keeps the length of the buffer and every byte behind the NUL.\<close>

theorem format_addr_bounded:
  assumes "buf \<noteq> []"
  shows "fst (SkPkFormatAddr addr family buf) = of_nat (length (addr_text addr family)) \<and>
    length (addr_text addr family) \<le> 39 \<and>
    c_string (snd (SkPkFormatAddr addr family buf)) = take (length buf - 1) (addr_text addr family) \<and>
    length (snd (SkPkFormatAddr addr family buf)) = length buf \<and>
    drop (Suc (length (addr_text addr family))) (snd (SkPkFormatAddr addr family buf))
      = drop (Suc (length (addr_text addr family))) buf"
proof -
  have "length (addr_text addr family) \<le> 39"
    using length_addr_text [of addr family] by (simp split: if_splits)
  then show ?thesis
    using assms format_c_string [OF assms] unfolding format_addr_result [OF assms]
    by (cases buf) (auto simp: Let_def min_def)
qed

theorem format_addr_bounded_witness:
  "SkPkFormatAddr [10, 0, 255, 1] AF_INET ''#####'' = (10, ''10.0'' @ [CHR 0x00]) \<and>
   fst (SkPkFormatAddr [10, 0, 255, 1] AF_INET ''#####'')
     = of_nat (length (addr_text [10, 0, 255, 1] AF_INET))"
  using format_addr_bounded [of "''#####''" "[10, 0, 255, 1]" AF_INET] by code_simp

text \<open>In a buffer of 16 bytes for v4 and 40 for v6 the text is complete and reading it back
  gives the address: the dotted decimal numbers are the four bytes, the colon-separated hex
  groups are the eight 16-bit groups.\<close>

theorem format_addr_roundtrip:
  assumes "16 \<le> length buf" and "40 \<le> length buf6"
  shows "map dec_value (split_on (CHR ''.'') (c_string (snd (SkPkFormatAddr addr AF_INET buf))))
      = map (\<lambda>i. unat (addr ! i)) [0, 1, 2, 3] \<and>
    map hex_value (split_on (CHR '':'') (c_string (snd (SkPkFormatAddr addr AF_INET6 buf6))))
      = map (\<lambda>i. 256 * unat (addr ! i) + unat (addr ! (i + 1))) [0, 2, 4, 6, 8, 10, 12, 14]"
proof -
  have "length (addr_text addr AF_INET) \<le> length buf - 1"
    "length (addr_text addr AF_INET6) \<le> length buf6 - 1"
    using length_addr_text [of addr AF_INET] length_addr_text [of addr AF_INET6] assms by simp_all
  moreover have "buf \<noteq> []" "buf6 \<noteq> []" using assms by auto
  ultimately show ?thesis
    by (simp only: format_c_string take_all read_back_v4 read_back_v6 not_False_eq_True)
qed

theorem format_addr_roundtrip_witness:
  "map hex_value (split_on (CHR '':'')
     (c_string (snd (SkPkFormatAddr [0x20, 0x01, 0x0d, 0xb8, 0, 0, 0, 0, 0, 0, 0, 0, 0xff, 0, 0, 1]
        AF_INET6 (replicate 40 (CHR ''#'')))))) = [0x2001, 0xdb8, 0, 0, 0, 0, 0xff00, 1]"
  using format_addr_roundtrip [of "replicate 16 (CHR ''#'')" "replicate 40 (CHR ''#'')"
    "[0x20, 0x01, 0x0d, 0xb8, 0, 0, 0, 0, 0, 0, 0, 0, 0xff, 0, 0, 1]"]
  by simp

end
