(* ===== verification/Rundown.thy ===== *)
theory Rundown
  imports SkPrelude
begin

text \<open>
  runtime/rundown.c and runtime/rundown.h: the stop-bit rundown. One LONG carries the
  stop bit (0x80000000) and the number of holders in its low 31 bits. This theory has
  the record, the operations that touch the rundown alone, and the algebra of the
  encoded count; \<open>ShRundownRelease\<close> reports underflows to the runtime and is in
  \<open>RuntimeState\<close>, the interleaving of several threads in \<open>RundownProtocol\<close>.
\<close>

abbreviation (input) SHINKEN_RUNDOWN_STOP_BIT :: u32 where
  "SHINKEN_RUNDOWN_STOP_BIT \<equiv> 0x80000000"

record rundown =
  rd_count :: u32
  rd_name :: string
  rd_underflows :: u32

text \<open>A rundown in zeroed memory.\<close>

definition zero_rundown :: rundown where
  "zero_rundown = \<lparr>rd_count = 0, rd_name = [], rd_underflows = 0\<rparr>"

definition ShRundownInit :: "rundown \<Rightarrow> string \<Rightarrow> rundown" where
  "ShRundownInit r name = r\<lparr>rd_count := 0, rd_name := name, rd_underflows := 0\<rparr>"

text \<open>
  One pass of the acquire loop without interference: the read, the two refusals, the
  CAS. The loop retries only when another thread moved the count between the read and
  the CAS; \<open>RundownProtocol\<close> models that interleaving step by step.
\<close>

definition ShRundownAcquire :: "rundown \<Rightarrow> bool \<times> rundown" where
  "ShRundownAcquire r =
     (let c = rd_count r in
      if c <s 0 then (False, r)
      else if 0x40000000 \<le>s c then (False, r)
      else (True, r\<lparr>rd_count := c + 1\<rparr>))"

definition ShRundownBeginStop :: "rundown \<Rightarrow> rundown" where
  "ShRundownBeginStop r = r\<lparr>rd_count := rd_count r OR SHINKEN_RUNDOWN_STOP_BIT\<rparr>"

definition ShRundownActiveCount :: "rundown \<Rightarrow> u32" where
  "ShRundownActiveCount r =
     (let c = rd_count r in
      if c = SHINKEN_RUNDOWN_STOP_BIT then - 1
      else if c <s 0 then c AND NOT SHINKEN_RUNDOWN_STOP_BIT
      else c)"

text \<open>
  The bounded drain. The rundown sits in some larger state \<open>'w\<close> (a global, a snapshot
  in the pool); \<open>cnt\<close> reads its count there and \<open>slp\<close> is what the other threads do to
  that state while this one sleeps. The argument is the number of retries left.
\<close>

fun ShRundownDrain :: "('w \<Rightarrow> u32) \<Rightarrow> ('w \<Rightarrow> 'w) \<Rightarrow> nat \<Rightarrow> 'w \<Rightarrow> ntstatus \<times> 'w" where
  "ShRundownDrain cnt slp 0 w =
     (if cnt w = SHINKEN_RUNDOWN_STOP_BIT then (STATUS_SUCCESS, w)
      else (SHINKEN_STATUS_TIMEOUT, w))"
| "ShRundownDrain cnt slp (Suc n) w =
     (if cnt w = SHINKEN_RUNDOWN_STOP_BIT then (STATUS_SUCCESS, w)
      else ShRundownDrain cnt slp n (slp w))"

section \<open>The encoded count\<close>

text \<open>
  \<open>rd_rep c stopped n\<close>: the word \<open>c\<close> says "stopped" or not and \<open>n\<close> holders. This is
  the abstract reading of the count that the header describes.
\<close>

definition rd_enc :: "bool \<Rightarrow> nat \<Rightarrow> u32" where
  "rd_enc stopped n = (if stopped then SHINKEN_RUNDOWN_STOP_BIT else 0) + word_of_nat n"

definition rd_rep :: "u32 \<Rightarrow> bool \<Rightarrow> nat \<Rightarrow> bool" where
  "rd_rep c stopped n \<longleftrightarrow> n \<le> 0x40000000 \<and> c = rd_enc stopped n"

lemma unat_small: "n \<le> 0x40000000 \<Longrightarrow> unat (word_of_nat n :: u32) = n"
  by (simp add: unat_of_nat take_bit_nat_eq_self)

lemma unat_rd_enc:
  "n \<le> 0x40000000 \<Longrightarrow> unat (rd_enc s n) = (if s then 0x80000000 else 0) + n"
  by (auto simp: rd_enc_def unat_word_ariths unat_small)

lemma unat_u32_less: "unat (c::u32) < 0x100000000"
  using unsigned_less [where 'a = nat, of c] by simp

text \<open>Signed reading of a LONG.\<close>

lemma sint_u32:
  "sint (c::u32) = (if unat c < 0x80000000 then int (unat c) else int (unat c) - 0x100000000)"
proof -
  have "sint c = (int (unat c) + 0x80000000) mod 0x100000000 - 0x80000000"
    by (simp add: sint_uint signed_take_bit_eq_take_bit_shift take_bit_eq_mod)
  moreover have "(int (unat c) + 0x80000000) mod 0x100000000 = int (unat c) + 0x80000000"
    if "unat c < 0x80000000"
    using that by (intro mod_pos_pos_trivial) (simp_all del: of_nat_unat)
  moreover have "(int (unat c) + 0x80000000) mod 0x100000000 = int (unat c) - 0x80000000"
    if "\<not> unat c < 0x80000000"
  proof -
    have "(int (unat c) + 0x80000000) mod 0x100000000
        = (int (unat c) - 0x80000000 + 0x100000000) mod 0x100000000"
      by (simp add: add.commute del: of_nat_unat)
    also have "\<dots> = (int (unat c) - 0x80000000) mod 0x100000000"
      by (rule mod_add_self2)
    also have "\<dots> = int (unat c) - 0x80000000"
      using that unat_u32_less [of c]
      by (intro mod_pos_pos_trivial) (simp_all del: of_nat_unat)
    finally show ?thesis .
  qed
  ultimately show ?thesis by (simp del: of_nat_unat)
qed

lemma sless0_unat: "(c::u32) <s 0 \<longleftrightarrow> 0x80000000 \<le> unat c"
  using unat_u32_less [of c] by (auto simp: word_sless_alt sint_u32 simp del: of_nat_unat)

lemma sle_cap_unat: "\<not> c <s 0 \<Longrightarrow> (0x40000000::u32) \<le>s c \<longleftrightarrow> 0x40000000 \<le> unat c"
  by (auto simp: word_sle_eq sint_u32 sless0_unat simp del: of_nat_unat)

lemma rd_enc_sless0: "n \<le> 0x40000000 \<Longrightarrow> rd_enc s n <s 0 \<longleftrightarrow> s"
  by (auto simp: sless0_unat unat_rd_enc)

lemma rd_enc_inject:
  "n \<le> 0x40000000 \<Longrightarrow> m \<le> 0x40000000 \<Longrightarrow> rd_enc s n = rd_enc t m \<longleftrightarrow> s = t \<and> n = m"
  by (auto simp: unat_rd_enc split: if_splits dest!: arg_cong [where f = unat])

lemma rd_enc_Suc: "rd_enc s n + 1 = rd_enc s (Suc n)"
  by (simp add: rd_enc_def)

lemma rd_enc_dec: "rd_enc s (Suc n) - 1 = rd_enc s n"
  by (simp add: rd_enc_def)

lemma rd_enc_stop_bit [simp]: "rd_enc True 0 = SHINKEN_RUNDOWN_STOP_BIT"
  by (simp add: rd_enc_def)

lemma rd_enc_zero [simp]: "rd_enc False 0 = 0"
  by (simp add: rd_enc_def)

lemma bit_stop_bit: "bit SHINKEN_RUNDOWN_STOP_BIT k \<longleftrightarrow> k = 31"
proof -
  have "SHINKEN_RUNDOWN_STOP_BIT = 2 ^ 31" by simp
  then show ?thesis by (simp only: bit_exp_iff) auto
qed

lemma stop_plus_or:
  assumes "n \<le> 0x40000000"
  shows "SHINKEN_RUNDOWN_STOP_BIT + word_of_nat n = SHINKEN_RUNDOWN_STOP_BIT OR word_of_nat n"
proof (rule disjunctive_add)
  have "\<not> bit n 31" using assms by (simp add: bit_iff_odd)
  then have "\<not> bit (word_of_nat n :: u32) 31" by (simp add: bit_of_nat_iff)
  then show "\<not> bit SHINKEN_RUNDOWN_STOP_BIT k \<or> \<not> bit (word_of_nat n :: u32) k" for k
    using bit_stop_bit [of k] by auto
qed

lemma rd_enc_or_stop: "n \<le> 0x40000000 \<Longrightarrow> rd_enc s n OR SHINKEN_RUNDOWN_STOP_BIT = rd_enc True n"
  by (cases s) (simp_all add: rd_enc_def stop_plus_or or.assoc or.commute or.left_commute)

lemma rd_enc_and_not_stop:
  assumes "n \<le> 0x40000000"
  shows "rd_enc True n AND NOT SHINKEN_RUNDOWN_STOP_BIT = word_of_nat n"
proof (rule bit_word_eqI)
  fix k assume k: "k < LENGTH(32)"
  have "\<not> bit n 31" using assms by (simp add: bit_iff_odd)
  moreover have "bit (NOT SHINKEN_RUNDOWN_STOP_BIT) k \<longleftrightarrow> k \<noteq> 31"
    using k by (simp only: bit_not_iff bit_stop_bit possible_bit_word) simp
  ultimately show "bit (rd_enc True n AND NOT SHINKEN_RUNDOWN_STOP_BIT) k
      = bit (word_of_nat n :: u32) k"
    unfolding bit_and_iff rd_enc_def
    using k bit_stop_bit [of k] assms by (auto simp: stop_plus_or bit_or_iff bit_of_nat_iff)
qed

section \<open>The operations on the encoded count\<close>

text \<open>
  The contract of the rundown, one equation per operation and state: what the header's
  invariants 1 to 3 and 5 say, stated for the words the code computes with.
\<close>

lemma acquire_open:
  assumes "rd_rep (rd_count r) False n" and "n < 0x40000000"
  shows "ShRundownAcquire r = (True, r\<lparr>rd_count := rd_enc False (Suc n)\<rparr>)"
  using assms rd_enc_sless0 [of n False]
  by (auto simp: ShRundownAcquire_def rd_rep_def sle_cap_unat unat_rd_enc rd_enc_Suc)

lemma acquire_full:
  assumes "rd_rep (rd_count r) False 0x40000000"
  shows "ShRundownAcquire r = (False, r)"
  using assms rd_enc_sless0 [of "0x40000000" False]
  by (auto simp: ShRundownAcquire_def rd_rep_def sle_cap_unat unat_rd_enc)

lemma acquire_stopped:
  assumes "rd_rep (rd_count r) True n"
  shows "ShRundownAcquire r = (False, r)"
  using assms by (auto simp: ShRundownAcquire_def rd_rep_def rd_enc_sless0)

lemma begin_stop_rep:
  assumes "rd_rep (rd_count r) s n"
  shows "rd_rep (rd_count (ShRundownBeginStop r)) True n"
  using assms by (simp add: ShRundownBeginStop_def rd_rep_def rd_enc_or_stop)

lemma begin_stop_idem: "ShRundownBeginStop (ShRundownBeginStop r) = ShRundownBeginStop r"
  by (simp add: ShRundownBeginStop_def or.assoc)

lemma init_rep: "rd_rep (rd_count (ShRundownInit r name)) False 0"
  by (simp add: ShRundownInit_def rd_rep_def)

lemma rd_rep_inject: "rd_rep c s n \<Longrightarrow> rd_rep c t m \<Longrightarrow> s = t \<and> n = m"
  by (auto simp: rd_rep_def rd_enc_inject)

lemma rd_rep_drained: "rd_rep c s n \<Longrightarrow> c = SHINKEN_RUNDOWN_STOP_BIT \<longleftrightarrow> s \<and> n = 0"
  using rd_enc_inject [of n 0 s True] by (auto simp: rd_rep_def)

lemma active_count_rep:
  assumes "rd_rep (rd_count r) s n"
  shows "ShRundownActiveCount r = (if s \<and> n = 0 then - 1 else word_of_nat n)"
proof -
  have n: "n \<le> 0x40000000" and c: "rd_count r = rd_enc s n"
    using assms by (simp_all add: rd_rep_def)
  show ?thesis
    unfolding ShRundownActiveCount_def Let_def rd_rep_drained [OF assms]
    unfolding c rd_enc_sless0 [OF n]
    using rd_enc_and_not_stop [OF n] by (cases s) (simp_all only: rd_enc_def if_True if_False simp_thms add_0_left)
qed

text \<open>\<open>-1\<close> is returned for "stopped and drained" only.\<close>

lemma active_count_drained_iff:
  assumes "rd_rep (rd_count r) s n"
  shows "ShRundownActiveCount r = - 1 \<longleftrightarrow> s \<and> n = 0"
proof -
  have "unat (word_of_nat n :: u32) \<le> 0x40000000"
    using assms by (simp add: rd_rep_def unat_small)
  then have "word_of_nat n \<noteq> (- 1 :: u32)"
    by (auto dest!: arg_cong [where f = unat] simp: unsigned_minus_1_eq_mask mask_eq_exp_minus_1)
  then show ?thesis by (simp add: active_count_rep [OF assms])
qed

section \<open>The bounded drain\<close>

lemma ex_le_Suc_conv: "(\<exists>k\<le>Suc n. P k) \<longleftrightarrow> P 0 \<or> (\<exists>k\<le>n. P (Suc k))"
  by (metis Suc_le_mono le0 not0_implies_Suc)

lemma drain_status:
  "fst (ShRundownDrain cnt slp n w) = STATUS_SUCCESS \<or>
   fst (ShRundownDrain cnt slp n w) = SHINKEN_STATUS_TIMEOUT"
  by (induction n arbitrary: w) auto

lemma drain_success_count:
  "ShRundownDrain cnt slp n w = (STATUS_SUCCESS, w') \<Longrightarrow> cnt w' = SHINKEN_RUNDOWN_STOP_BIT"
  by (induction n arbitrary: w) (auto split: if_splits)

lemma drain_timeout_count:
  "ShRundownDrain cnt slp n w = (SHINKEN_STATUS_TIMEOUT, w') \<Longrightarrow>
   cnt w' \<noteq> SHINKEN_RUNDOWN_STOP_BIT"
  by (induction n arbitrary: w) (auto split: if_splits)

text \<open>Whatever the sleeping thread may rely on is still true when the drain returns.\<close>

lemma drain_keeps:
  assumes "\<And>u. P u \<Longrightarrow> P (slp u)" and "P w"
  shows "P (snd (ShRundownDrain cnt slp n w))"
  using assms(2) by (induction n arbitrary: w) (auto intro: assms(1))

text \<open>The drain succeeds exactly if the count is drained at one of its \<open>n + 1\<close> looks.\<close>

lemma drain_success_iff:
  "fst (ShRundownDrain cnt slp n w) = STATUS_SUCCESS \<longleftrightarrow>
   (\<exists>k\<le>n. cnt ((slp ^^ k) w) = SHINKEN_RUNDOWN_STOP_BIT)"
proof (induction n arbitrary: w)
  case 0
  show ?case by auto
next
  case (Suc n)
  have "(\<exists>k\<le>Suc n. cnt ((slp ^^ k) w) = SHINKEN_RUNDOWN_STOP_BIT) \<longleftrightarrow>
      cnt w = SHINKEN_RUNDOWN_STOP_BIT \<or>
      (\<exists>k\<le>n. cnt ((slp ^^ k) (slp w)) = SHINKEN_RUNDOWN_STOP_BIT)"
    by (subst ex_le_Suc_conv) (simp add: funpow_swap1)
  with Suc.IH show ?case by auto
qed

end
