(* ===== verification/RuntimeState.thy ===== *)
theory RuntimeState
  imports Rundown "HOL-Library.Monad_Syntax"
begin

text \<open>
  runtime/runtime.c: the runtime terminal state machine, the block-reason history, the
  underflow report of rundown.c, the injection gate, the handle counter and the unload
  gate \<open>ShRuntimeRunUnload\<close>.

  The record \<open>runtime\<close> holds the file's globals. It is extended, record by record, by
  the globals of the other modules, so every operation is polymorphic in the extension
  and runs on the state of the whole driver. \<open>ShOps.Diag\<close> only prints and is left out.
\<close>

section \<open>States and reasons\<close>

datatype runtime_state =
    ShinkenUninitialized
  | ShinkenActive
  | ShinkenTeardown
  | ShinkenQuiescent
  | ShinkenUnloadBlocked

datatype block_reason =
    ShinkenBlockNone
  | ShinkenBlockSensorCalloutBusy
  | ShinkenBlockDivertCalloutBusy
  | ShinkenBlockFlowContextDrain
  | ShinkenBlockInjectionDrain
  | ShinkenBlockWorkItemDrain
  | ShinkenBlockEventThreadDrain
  | ShinkenBlockHandleContextsOpen
  | ShinkenBlockBfeCallbackActive
  | ShinkenBlockBfeUnsubscribe
  | ShinkenBlockEngineClose
  | ShinkenBlockRundownStuck
  | ShinkenBlockRundownUnderflow
  | ShinkenBlockWorkerThreadDrain

text \<open>The values of the C enumeration, and the order they give the states.\<close>

fun runtime_state_num :: "runtime_state \<Rightarrow> nat" where
  "runtime_state_num ShinkenUninitialized = 0"
| "runtime_state_num ShinkenActive = 1"
| "runtime_state_num ShinkenTeardown = 2"
| "runtime_state_num ShinkenQuiescent = 3"
| "runtime_state_num ShinkenUnloadBlocked = 4"

lemma runtime_state_num_inject [simp]: "runtime_state_num s = runtime_state_num t \<longleftrightarrow> s = t"
  by (cases s; cases t) auto

instantiation runtime_state :: linorder
begin

definition less_eq_runtime_state :: "runtime_state \<Rightarrow> runtime_state \<Rightarrow> bool" where
  "s \<le> t \<longleftrightarrow> runtime_state_num s \<le> runtime_state_num t"

definition less_runtime_state :: "runtime_state \<Rightarrow> runtime_state \<Rightarrow> bool" where
  "s < t \<longleftrightarrow> runtime_state_num s < runtime_state_num t"

instance
  by standard (auto simp: less_eq_runtime_state_def less_runtime_state_def)

end

record runtime =
  g_State :: runtime_state
  g_BlockReason :: block_reason
  g_BlockHistory :: "block_reason list"
  g_BlockHistoryCount :: u32
  g_InjectionRundown :: rundown
  g_HandlesOpen :: u64
  ShRundownBfe :: rundown
  ShRundownWorkItem :: rundown

abbreviation SHINKEN_BLOCK_HISTORY_CAP :: nat where
  "SHINKEN_BLOCK_HISTORY_CAP \<equiv> 16"

text \<open>The globals of the loaded image.\<close>

definition image_runtime :: runtime where
  "image_runtime = \<lparr>g_State = ShinkenUninitialized, g_BlockReason = ShinkenBlockNone,
     g_BlockHistory = replicate 16 ShinkenBlockNone, g_BlockHistoryCount = 0,
     g_InjectionRundown = zero_rundown, g_HandlesOpen = 0, ShRundownBfe = zero_rundown,
     ShRundownWorkItem = zero_rundown\<rparr>"

section \<open>State machine\<close>

definition ShRuntimeInit :: "'a runtime_scheme \<Rightarrow> 'a runtime_scheme" where
  "ShRuntimeInit w =
     (if g_State w = ShinkenUninitialized
      then w\<lparr>g_BlockReason := ShinkenBlockNone,
             g_BlockHistoryCount := 0,
             ShRundownBfe := ShRundownInit (ShRundownBfe w) ''BfeCallback'',
             ShRundownWorkItem := ShRundownInit (ShRundownWorkItem w) ''IoWorkItem'',
             g_InjectionRundown := ShRundownInit (g_InjectionRundown w) ''Injection''\<rparr>
      else w)"

definition ShRuntimeActivate :: "'a runtime_scheme \<Rightarrow> 'a runtime_scheme" where
  "ShRuntimeActivate w =
     (let w = ShRuntimeInit w in
      if g_State w = ShinkenUninitialized then w\<lparr>g_State := ShinkenActive\<rparr> else w)"

definition ShRuntimeIsActive :: "'a runtime_scheme \<Rightarrow> bool" where
  "ShRuntimeIsActive w \<longleftrightarrow> g_State w = ShinkenActive"

definition ShRuntimeDestroyAllowed :: "'a runtime_scheme \<Rightarrow> bool" where
  "ShRuntimeDestroyAllowed w \<longleftrightarrow>
     g_State w = ShinkenQuiescent \<or> g_State w = ShinkenUninitialized"

definition ShRuntimeBeginTeardown :: "'a runtime_scheme \<Rightarrow> bool \<times> 'a runtime_scheme" where
  "ShRuntimeBeginTeardown w =
     (if g_State w = ShinkenTeardown then (True, w)
      else if g_State w \<noteq> ShinkenActive then (g_State w = ShinkenUninitialized, w)
      else (True, w\<lparr>g_State := ShinkenTeardown\<rparr>))"

text \<open>
  The history array has 16 slots. The index is a LONG: it is negative only after
  \<open>2 ^ 31\<close> records, where the C write would be out of bounds; the update below is then
  outside the list. The properties assume fewer records.
\<close>

definition ShRuntimeRecordBlock :: "block_reason \<Rightarrow> 'a runtime_scheme \<Rightarrow> 'a runtime_scheme" where
  "ShRuntimeRecordBlock why w =
     (let idx = g_BlockHistoryCount w;
          w = w\<lparr>g_BlockHistoryCount := idx + 1\<rparr>;
          w = (if idx <s of_nat SHINKEN_BLOCK_HISTORY_CAP
               then w\<lparr>g_BlockHistory := (g_BlockHistory w)[unat idx := why]\<rparr> else w)
      in if g_BlockReason w = ShinkenBlockNone then w\<lparr>g_BlockReason := why\<rparr> else w)"

definition ShRuntimeBlockHistoryCount :: "'a runtime_scheme \<Rightarrow> u32" where
  "ShRuntimeBlockHistoryCount w = g_BlockHistoryCount w"

definition ShRuntimeBlockHistoryAt :: "'a runtime_scheme \<Rightarrow> u32 \<Rightarrow> block_reason" where
  "ShRuntimeBlockHistoryAt w index =
     (if of_nat SHINKEN_BLOCK_HISTORY_CAP \<le> index \<or> g_BlockHistoryCount w \<le>s index
      then ShinkenBlockNone
      else g_BlockHistory w ! unat index)"

definition ShRuntimeEnterQuiescent :: "'a runtime_scheme \<Rightarrow> 'a runtime_scheme" where
  "ShRuntimeEnterQuiescent w =
     (if g_State w = ShinkenTeardown then w\<lparr>g_State := ShinkenQuiescent\<rparr> else w)"

definition ShRuntimeEnterUnloadBlocked ::
    "block_reason \<Rightarrow> 'a runtime_scheme \<Rightarrow> 'a runtime_scheme" where
  "ShRuntimeEnterUnloadBlocked why w =
     (let w = ShRuntimeRecordBlock why w in
      if g_State w \<noteq> ShinkenUnloadBlocked then w\<lparr>g_State := ShinkenUnloadBlocked\<rparr> else w)"

definition ShRuntimeReportUnderflow ::
    "rundown \<Rightarrow> 'a runtime_scheme \<Rightarrow> rundown \<times> 'a runtime_scheme" where
  "ShRuntimeReportUnderflow r w =
     (let r = r\<lparr>rd_underflows := rd_underflows r + 1\<rparr>;
          w = ShRuntimeRecordBlock ShinkenBlockRundownUnderflow w
      in if g_State w = ShinkenTeardown
         then (r, ShRuntimeEnterUnloadBlocked ShinkenBlockRundownUnderflow w)
         else (r, w))"

text \<open>
  rundown.c, \<open>ShRundownRelease\<close>: the rundown \<open>r\<close> is part of the state; the caller stores
  the new value back where \<open>r\<close> lives.
\<close>

definition ShRundownRelease ::
    "rundown \<Rightarrow> 'a runtime_scheme \<Rightarrow> rundown \<times> 'a runtime_scheme" where
  "ShRundownRelease r w =
     (let before = rd_count r;
          r = r\<lparr>rd_count := before - 1\<rparr>
      in if before = SHINKEN_RUNDOWN_STOP_BIT \<or> before = 0
         then ShRuntimeReportUnderflow (r\<lparr>rd_count := rd_count r + 1\<rparr>) w
         else (r, w))"

section \<open>Injection gate and handle count\<close>

definition ShInjectionBegin :: "'a runtime_scheme \<Rightarrow> bool \<times> 'a runtime_scheme" where
  "ShInjectionBegin w =
     (let (ok, r) = ShRundownAcquire (g_InjectionRundown w)
      in (ok, w\<lparr>g_InjectionRundown := r\<rparr>))"

definition ShInjectionEnd :: "'a runtime_scheme \<Rightarrow> 'a runtime_scheme" where
  "ShInjectionEnd w =
     (let (r, w) = ShRundownRelease (g_InjectionRundown w) w
      in w\<lparr>g_InjectionRundown := r\<rparr>)"

definition ShInjectionInFlight :: "'a runtime_scheme \<Rightarrow> u32" where
  "ShInjectionInFlight w =
     (let c = ShRundownActiveCount (g_InjectionRundown w) in if c <s 0 then 0 else c)"

definition ShInjectionGateStop :: "'a runtime_scheme \<Rightarrow> 'a runtime_scheme" where
  "ShInjectionGateStop w = w\<lparr>g_InjectionRundown := ShRundownBeginStop (g_InjectionRundown w)\<rparr>"

fun ShInjectionDrain ::
    "('a runtime_scheme \<Rightarrow> 'a runtime_scheme) \<Rightarrow> nat \<Rightarrow> 'a runtime_scheme
     \<Rightarrow> ntstatus \<times> 'a runtime_scheme" where
  "ShInjectionDrain slp 0 w =
     (let c = rd_count (g_InjectionRundown w) in
      if c = SHINKEN_RUNDOWN_STOP_BIT \<or> c = 0 then (STATUS_SUCCESS, w)
      else (SHINKEN_STATUS_TIMEOUT, w))"
| "ShInjectionDrain slp (Suc n) w =
     (let c = rd_count (g_InjectionRundown w) in
      if c = SHINKEN_RUNDOWN_STOP_BIT \<or> c = 0 then (STATUS_SUCCESS, w)
      else ShInjectionDrain slp n (slp w))"

definition ShHandleOpen :: "'a runtime_scheme \<Rightarrow> 'a runtime_scheme" where
  "ShHandleOpen w = w\<lparr>g_HandlesOpen := g_HandlesOpen w + 1\<rparr>"

definition ShHandleClose :: "'a runtime_scheme \<Rightarrow> 'a runtime_scheme" where
  "ShHandleClose w = w\<lparr>g_HandlesOpen := g_HandlesOpen w - 1\<rparr>"

definition ShHandlesOpen :: "'a runtime_scheme \<Rightarrow> u64" where
  "ShHandlesOpen w = g_HandlesOpen w"

section \<open>The unload gate\<close>

text \<open>
  The resident wait. \<open>None\<close> is "does not return". \<open>hook\<close> is \<open>ShTestHook\<close> with its
  \<open>AbortBlockedWait\<close>: \<open>None\<close> in every kernel build.
\<close>

partial_function (option) ShRuntimeBlockUnloadForever ::
    "(u32 \<Rightarrow> bool) option \<Rightarrow> u32 \<Rightarrow> unit option" where
  "ShRuntimeBlockUnloadForever hook iter =
     (if (case hook of None \<Rightarrow> False | Some abort \<Rightarrow> abort iter) then Some ()
      else ShRuntimeBlockUnloadForever hook (iter + 1))"

declare ShRuntimeBlockUnloadForever.simps [code]

text \<open>
  \<open>sensorQuiesce\<close> and the other three are function pointers that may be NULL. The result
  is \<open>None\<close> when the function parks for ever, and when one of the four does not return.
\<close>

definition ShRuntimeRunUnload ::
    "(u32 \<Rightarrow> bool) option
     \<Rightarrow> ('a runtime_scheme \<Rightarrow> (bool \<times> 'a runtime_scheme) option) option
     \<Rightarrow> ('a runtime_scheme \<Rightarrow> (bool \<times> 'a runtime_scheme) option) option
     \<Rightarrow> ('a runtime_scheme \<Rightarrow> 'a runtime_scheme option) option
     \<Rightarrow> ('a runtime_scheme \<Rightarrow> 'a runtime_scheme option) option
     \<Rightarrow> 'a runtime_scheme \<Rightarrow> (bool \<times> 'a runtime_scheme) option" where
  "ShRuntimeRunUnload hook sensorQuiesce divertQuiesce sensorCleanup divertCleanup w = do {
     let w = snd (ShRuntimeBeginTeardown w);
     (sensorOk, w) \<leftarrow> (case sensorQuiesce of None \<Rightarrow> Some (True, w) | Some f \<Rightarrow> f w);
     (divertOk, w) \<leftarrow> (case divertQuiesce of None \<Rightarrow> Some (True, w) | Some f \<Rightarrow> f w);
     if \<not> sensorOk \<or> \<not> divertOk \<or> g_State w = ShinkenUnloadBlocked
     then let w = (if g_BlockReason w = ShinkenBlockNone
                   then ShRuntimeRecordBlock ShinkenBlockRundownStuck w else w);
              w = ShRuntimeEnterUnloadBlocked (g_BlockReason w) w
          in map_option (\<lambda>_. (False, w)) (ShRuntimeBlockUnloadForever hook 0)
     else do {
       let w = ShRuntimeEnterQuiescent w;
       w \<leftarrow> (case sensorCleanup of None \<Rightarrow> Some w | Some f \<Rightarrow> f w);
       w \<leftarrow> (case divertCleanup of None \<Rightarrow> Some w | Some f \<Rightarrow> f w);
       if g_State w = ShinkenUnloadBlocked
       then map_option (\<lambda>_. (False, w)) (ShRuntimeBlockUnloadForever hook 0)
       else Some (True, w)
     }
   }"

section \<open>Frame lemmas\<close>

named_theorems runtime_defs

lemmas [runtime_defs] =
  ShRuntimeInit_def ShRuntimeActivate_def ShRuntimeBeginTeardown_def
  ShRuntimeRecordBlock_def ShRuntimeEnterQuiescent_def ShRuntimeEnterUnloadBlocked_def
  ShRuntimeReportUnderflow_def ShRundownRelease_def Let_def

lemma record_block_frame [simp]:
  "g_State (ShRuntimeRecordBlock why w) = g_State w"
  "g_InjectionRundown (ShRuntimeRecordBlock why w) = g_InjectionRundown w"
  "g_HandlesOpen (ShRuntimeRecordBlock why w) = g_HandlesOpen w"
  "ShRundownBfe (ShRuntimeRecordBlock why w) = ShRundownBfe w"
  "ShRundownWorkItem (ShRuntimeRecordBlock why w) = ShRundownWorkItem w"
  "runtime.more (ShRuntimeRecordBlock why w) = runtime.more w"
  "g_BlockHistoryCount (ShRuntimeRecordBlock why w) = g_BlockHistoryCount w + 1"
  "length (g_BlockHistory (ShRuntimeRecordBlock why w)) = length (g_BlockHistory w)"
  by (simp_all add: ShRuntimeRecordBlock_def Let_def)

lemma record_block_reason:
  "g_BlockReason (ShRuntimeRecordBlock why w) =
   (if g_BlockReason w = ShinkenBlockNone then why else g_BlockReason w)"
  by (simp add: ShRuntimeRecordBlock_def Let_def)

lemma record_block_history:
  assumes "unat (g_BlockHistoryCount w) < 0x80000000"
  shows "g_BlockHistory (ShRuntimeRecordBlock why w) =
    (if unat (g_BlockHistoryCount w) < SHINKEN_BLOCK_HISTORY_CAP
     then (g_BlockHistory w)[unat (g_BlockHistoryCount w) := why] else g_BlockHistory w)"
  using assms
  by (auto simp: ShRuntimeRecordBlock_def Let_def word_sless_alt sint_u32 simp del: of_nat_unat)

lemma unload_blocked_frame [simp]:
  "g_State (ShRuntimeEnterUnloadBlocked why w) = ShinkenUnloadBlocked"
  "g_InjectionRundown (ShRuntimeEnterUnloadBlocked why w) = g_InjectionRundown w"
  "g_HandlesOpen (ShRuntimeEnterUnloadBlocked why w) = g_HandlesOpen w"
  "ShRundownBfe (ShRuntimeEnterUnloadBlocked why w) = ShRundownBfe w"
  "ShRundownWorkItem (ShRuntimeEnterUnloadBlocked why w) = ShRundownWorkItem w"
  "runtime.more (ShRuntimeEnterUnloadBlocked why w) = runtime.more w"
  by (simp_all add: ShRuntimeEnterUnloadBlocked_def Let_def)

lemma unload_blocked_reason:
  "g_BlockReason (ShRuntimeEnterUnloadBlocked why w) =
   (if g_BlockReason w = ShinkenBlockNone then why else g_BlockReason w)"
  by (simp add: ShRuntimeEnterUnloadBlocked_def Let_def record_block_reason)

lemma begin_teardown_state:
  "g_State (snd (ShRuntimeBeginTeardown w)) =
   (if g_State w = ShinkenActive then ShinkenTeardown else g_State w)"
  by (auto simp: ShRuntimeBeginTeardown_def)

section \<open>Release\<close>

lemma rd_enc_Suc_nz:
  assumes "Suc n \<le> 0x40000000"
  shows "rd_enc s (Suc n) \<noteq> SHINKEN_RUNDOWN_STOP_BIT" and "rd_enc s (Suc n) \<noteq> 0"
  using rd_enc_inject [of "Suc n" 0 s True] rd_enc_inject [of "Suc n" 0 s False] assms
  by (simp_all only: rd_enc_stop_bit rd_enc_zero) simp_all

lemma release_held:
  assumes "rd_rep (rd_count r) s (Suc n)"
  shows "ShRundownRelease r w = (r\<lparr>rd_count := rd_enc s n\<rparr>, w)"
proof -
  have "rd_count r = rd_enc s (Suc n)" and n: "Suc n \<le> 0x40000000"
    using assms by (simp_all add: rd_rep_def)
  with rd_enc_Suc_nz [OF n, of s] show ?thesis
    by (simp add: ShRundownRelease_def rd_enc_dec)
qed

text \<open>
  A release without a holder is rolled back and reported; the count it leaves is the
  one it found (invariant 3 of rundown.h).
\<close>

lemma release_unheld:
  assumes "rd_rep (rd_count r) s 0"
  shows "ShRundownRelease r w = ShRuntimeReportUnderflow r w"
proof -
  have "rd_count r = SHINKEN_RUNDOWN_STOP_BIT \<or> rd_count r = 0"
    using assms by (cases s) (simp_all add: rd_rep_def)
  then show ?thesis by (simp add: ShRundownRelease_def)
qed

lemma report_underflow_count [simp]: "rd_count (fst (ShRuntimeReportUnderflow r w)) = rd_count r"
  by (simp add: ShRuntimeReportUnderflow_def Let_def)

lemma report_underflow_more [simp]:
  "runtime.more (snd (ShRuntimeReportUnderflow r w)) = runtime.more w"
  by (simp add: ShRuntimeReportUnderflow_def Let_def)

section \<open>The resident wait\<close>

lemma park_returns_hook:
  assumes "ShRuntimeBlockUnloadForever hook iter = Some u"
  shows "hook \<noteq> None"
proof (rule ShRuntimeBlockUnloadForever.raw_induct
    [where P = "\<lambda>hook iter u. hook \<noteq> None", OF _ assms])
  fix f :: "(u32 \<Rightarrow> bool) option \<Rightarrow> u32 \<Rightarrow> unit option" and h i u
  assume IH: "\<And>h i u. f h i = Some u \<Longrightarrow> h \<noteq> None"
    and eq: "(if (case h of None \<Rightarrow> False | Some abort \<Rightarrow> abort i) then Some () else f h (i + 1)) = Some u"
  show "h \<noteq> None"
    using eq IH by (cases h) auto
qed

lemma park_never_returns [simp]: "ShRuntimeBlockUnloadForever None iter = None"
  using park_returns_hook [of None iter] by (cases "ShRuntimeBlockUnloadForever None iter") auto

end
