(* ===== verification/RundownProtocol.thy ===== *)
theory RundownProtocol
  imports RuntimeState
begin

text \<open>
  runtime/rundown.c under concurrency: the loop of \<open>ShRundownAcquire\<close> with its read, its
  refusals and its compare-and-swap as separate steps, \<open>ShRundownRelease\<close> and
  \<open>ShRundownBeginStop\<close> as single interlocked steps, for any number of threads. The last part
  states the sequential contract of the operations.
\<close>

section \<open>The step relation\<close>

datatype rd_pc = AtLoop | Loaded u32 | Holding

record rdsys =
  rs_rundown :: rundown
  rs_pcs :: "rd_pc list"

definition holders :: "rdsys \<Rightarrow> nat" where
  "holders s = length (filter (\<lambda>pc. pc = Holding) (rs_pcs s))"

definition refuses :: "u32 \<Rightarrow> bool" where
  "refuses c \<longleftrightarrow> c <s 0 \<or> 0x40000000 \<le>s c"

inductive rd_step :: "rdsys \<Rightarrow> rdsys \<Rightarrow> bool" where
  load: "i < length (rs_pcs s) \<Longrightarrow> rs_pcs s ! i = AtLoop \<Longrightarrow>
    rd_step s (s\<lparr>rs_pcs := (rs_pcs s)[i := Loaded (rd_count (rs_rundown s))]\<rparr>)"
| refuse: "i < length (rs_pcs s) \<Longrightarrow> rs_pcs s ! i = Loaded c \<Longrightarrow> refuses c \<Longrightarrow>
    rd_step s (s\<lparr>rs_pcs := (rs_pcs s)[i := AtLoop]\<rparr>)"
| cas_taken: "i < length (rs_pcs s) \<Longrightarrow> rs_pcs s ! i = Loaded c \<Longrightarrow> \<not> refuses c \<Longrightarrow>
    rd_count (rs_rundown s) = c \<Longrightarrow>
    rd_step s (s\<lparr>rs_rundown := (rs_rundown s)\<lparr>rd_count := c + 1\<rparr>, rs_pcs := (rs_pcs s)[i := Holding]\<rparr>)"
| cas_failed: "i < length (rs_pcs s) \<Longrightarrow> rs_pcs s ! i = Loaded c \<Longrightarrow> \<not> refuses c \<Longrightarrow>
    rd_count (rs_rundown s) \<noteq> c \<Longrightarrow> rd_step s (s\<lparr>rs_pcs := (rs_pcs s)[i := AtLoop]\<rparr>)"
| release: "i < length (rs_pcs s) \<Longrightarrow> rs_pcs s ! i = Holding \<Longrightarrow>
    ShRundownRelease (rs_rundown s) (w :: runtime) = (r, w') \<Longrightarrow>
    rd_step s (s\<lparr>rs_rundown := r, rs_pcs := (rs_pcs s)[i := AtLoop]\<rparr>)"
| begin_stop: "rd_step s (s\<lparr>rs_rundown := ShRundownBeginStop (rs_rundown s)\<rparr>)"

inductive_cases rd_stepE: "rd_step s t"

section \<open>The invariant\<close>

definition rd_ok :: "rdsys \<Rightarrow> bool" where
  "rd_ok s \<longleftrightarrow> (\<exists>stopped. rd_rep (rd_count (rs_rundown s)) stopped (holders s))"

lemma holders_update:
  assumes "i < length (rs_pcs s)"
  shows "holders (s\<lparr>rs_rundown := r, rs_pcs := (rs_pcs s)[i := pc]\<rparr>) + (if rs_pcs s ! i = Holding then 1 else 0)
    = holders s + (if pc = Holding then 1 else 0)"
proof -
  have "length (filter P (xs[i := x])) + (if P (xs ! i) then 1 else 0) = length (filter P xs) + (if P x then 1 else 0)"
    if "i < length xs" for P and xs :: "rd_pc list" and i x
    using that
  proof (induction xs arbitrary: i)
    case (Cons y xs)
    then show ?case using Cons.IH [of "i - 1"] by (cases i) (simp_all split: if_splits)
  qed simp
  from this [OF assms, of "\<lambda>pc. pc = Holding" pc] show ?thesis by (simp add: holders_def)
qed

lemma holders_pcs:
  "i < length (rs_pcs s) \<Longrightarrow>
   holders (s\<lparr>rs_pcs := (rs_pcs s)[i := pc]\<rparr>) + (if rs_pcs s ! i = Holding then 1 else 0)
    = holders s + (if pc = Holding then 1 else 0)"
  using holders_update [of i s, where r = "rs_rundown s" and pc = pc] by simp

lemma holders_rundown [simp]: "holders (s\<lparr>rs_rundown := r\<rparr>) = holders s"
  by (simp add: holders_def)

text \<open>An accepted read is an open count below the ceiling.\<close>

lemma accepted_rep:
  assumes "rd_rep c stopped n" and "\<not> refuses c"
  shows "\<not> stopped \<and> n < 0x40000000"
proof -
  have n: "n \<le> 0x40000000" and c: "c = rd_enc stopped n" using assms(1) by (simp_all add: rd_rep_def)
  have "\<not> stopped" using assms(2) rd_enc_sless0 [OF n, of stopped] by (simp add: refuses_def c)
  moreover from this have "\<not> c <s 0" using rd_enc_sless0 [OF n, of stopped] by (simp add: c)
  then have "unat c < 0x40000000" using assms(2) by (simp add: refuses_def sle_cap_unat)
  ultimately show ?thesis using n by (simp add: c unat_rd_enc)
qed

text \<open>One step, with the stop flag it leaves: it is set by \<open>BeginStop\<close> and never cleared.\<close>

lemma rd_step_rep:
  assumes step: "rd_step s t" and rep: "rd_rep (rd_count (rs_rundown s)) stopped (holders s)"
  shows "\<exists>stopped'. rd_rep (rd_count (rs_rundown t)) stopped' (holders t) \<and> (stopped \<longrightarrow> stopped') \<and>
    (stopped \<longrightarrow> holders t \<le> holders s)"
  using step
proof cases
  case (load i)
  then show ?thesis using rep holders_pcs [of i s] by (intro exI [of _ stopped]) simp
next
  case (refuse i c)
  then show ?thesis using rep holders_pcs [of i s] by (intro exI [of _ stopped]) simp
next
  case (cas_taken i c)
  have acc: "\<not> stopped" "holders s < 0x40000000"
    using accepted_rep [OF rep] cas_taken(4,5) by simp_all
  have "holders t = Suc (holders s)" using holders_update [OF cas_taken(2)] cas_taken(1,3) by simp
  moreover have "rd_count (rs_rundown t) = rd_enc stopped (Suc (holders s))"
    using rep cas_taken(1,5) by (simp add: rd_rep_def rd_enc_Suc)
  ultimately show ?thesis using acc by (intro exI [of _ stopped]) (simp add: rd_rep_def)
next
  case (cas_failed i c)
  then show ?thesis using rep holders_pcs [of i s] by (intro exI [of _ stopped]) simp
next
  case (release i w r w')
  have h: "holders s = Suc (holders t)" using holders_update [OF release(2)] release(1,3) by simp
  then have rep': "rd_rep (rd_count (rs_rundown s)) stopped (Suc (holders t))" using rep by simp
  have "r = (rs_rundown s)\<lparr>rd_count := rd_enc stopped (holders t)\<rparr>"
    using release(4) release_held [OF rep', of w] by simp
  then have "rd_count r = rd_enc stopped (holders t)" by (rule ssubst) simp
  then have "rd_rep (rd_count (rs_rundown t)) stopped (holders t)"
    using rep' by (simp add: release(1) rd_rep_def)
  then show ?thesis using h by (intro exI [of _ stopped]) simp
next
  case begin_stop
  then show ?thesis using begin_stop_rep [OF rep] by (intro exI [of _ True]) simp
qed

lemma rd_step_ok: "rd_ok s \<Longrightarrow> rd_step s t \<Longrightarrow> rd_ok t"
  using rd_step_rep unfolding rd_ok_def by blast

interpretation rundowns: inductive_invariant rd_step rd_ok
  by unfold_locales (rule rd_step_ok)

lemma stopped_stable:
  assumes "rd_ok s" and "rd_step s t" and "rd_count (rs_rundown s) <s 0"
  shows "rd_count (rs_rundown t) <s 0 \<and> holders t \<le> holders s"
proof -
  from assms(1) obtain st where rep: "rd_rep (rd_count (rs_rundown s)) st (holders s)" by (auto simp: rd_ok_def)
  then have "st" using assms(3) by (auto simp: rd_rep_def rd_enc_sless0)
  with rd_step_rep [OF assms(2) rep] show ?thesis by (auto simp: rd_rep_def rd_enc_sless0)
qed

definition rd_start :: "rundown \<Rightarrow> string \<Rightarrow> nat \<Rightarrow> rdsys" where
  "rd_start r name n = \<lparr>rs_rundown = ShRundownInit r name, rs_pcs = replicate n AtLoop\<rparr>"

lemma rd_start_ok: "rd_ok (rd_start r name n)"
  using init_rep [of r name] by (auto simp: rd_ok_def rd_start_def holders_def)

section \<open>Properties\<close>

text \<open>C17: the rundown counts its holders exactly, and the drain verdict is final: in every interleaving of
  any number of threads, a count equal to the stop bit means that no thread holds a
  reference, and no later step hands one out.\<close>

theorem drained_is_final:
  assumes "rd_step\<^sup>*\<^sup>* (rd_start r name n) s" and "rd_step\<^sup>*\<^sup>* s t"
    and "rd_count (rs_rundown s) = SHINKEN_RUNDOWN_STOP_BIT"
  shows "rd_count (rs_rundown t) = SHINKEN_RUNDOWN_STOP_BIT \<and> Holding \<notin> set (rs_pcs t)"
proof -
  have s: "rd_ok s" using rundowns.reach_inv [OF assms(1) rd_start_ok] .
  then obtain st where rep: "rd_rep (rd_count (rs_rundown s)) st (holders s)" by (auto simp: rd_ok_def)
  then have "holders s = 0" "rd_count (rs_rundown s) <s 0"
    using assms(3) rd_rep_drained [OF rep] by (auto simp: sless0_unat)
  moreover have "holders v = 0 \<and> rd_count (rs_rundown v) <s 0"
    if "rd_ok u" "rd_step u v" "holders u = 0 \<and> rd_count (rs_rundown u) <s 0" for u v
    using stopped_stable [OF that(1,2)] that(3) by auto
  ultimately have t: "holders t = 0 \<and> rd_count (rs_rundown t) <s 0"
    using rundowns.reach_stable [where p = "\<lambda>s. holders s = 0 \<and> rd_count (rs_rundown s) <s 0", OF _ assms(2) s]
    by blast
  have "rd_ok t" using rundowns.reach_inv [OF assms(2) s] .
  then obtain st' where rep': "rd_rep (rd_count (rs_rundown t)) st' (holders t)" by (auto simp: rd_ok_def)
  then have "st'" using t by (auto simp: rd_rep_def rd_enc_sless0)
  with rep' t have "rd_count (rs_rundown t) = SHINKEN_RUNDOWN_STOP_BIT" using rd_rep_drained by blast
  moreover have "Holding \<notin> set (rs_pcs t)" using t by (auto simp: holders_def filter_empty_conv)
  ultimately show ?thesis by simp
qed

theorem drained_is_final_witness:
  "Holding \<notin> set (rs_pcs ((rd_start zero_rundown ''r'' 2)\<lparr>rs_rundown :=
     ShRundownBeginStop (rs_rundown (rd_start zero_rundown ''r'' 2))\<rparr>))"
proof -
  let ?s = "(rd_start zero_rundown ''r'' 2)\<lparr>rs_rundown := ShRundownBeginStop (rs_rundown (rd_start zero_rundown ''r'' 2))\<rparr>"
  have 1: "rd_step\<^sup>*\<^sup>* (rd_start zero_rundown ''r'' 2) ?s" using rd_step.begin_stop [of "rd_start zero_rundown ''r'' 2"] by blast
  have "rd_count (rs_rundown ?s) = SHINKEN_RUNDOWN_STOP_BIT"
    by (simp add: rd_start_def ShRundownInit_def ShRundownBeginStop_def)
  from drained_is_final [OF 1 rtranclp.rtrancl_refl this] show ?thesis by simp
qed

text \<open>C18: the sequential contract: an acquire succeeds exactly if the rundown is open and below its
  ceiling, and then counts one holder more; a matching release takes it back without a
  report; after the stop every acquire is refused and the holders are kept; an unmatched
  release leaves the count, is counted as underflow, recorded, and blocks a running teardown.\<close>

theorem rundown_contract:
  assumes "rd_rep (rd_count r) stopped n"
  shows "fst (ShRundownAcquire r) = (\<not> stopped \<and> n < 0x40000000) \<and>
    (fst (ShRundownAcquire r) \<longrightarrow> rd_rep (rd_count (snd (ShRundownAcquire r))) False (Suc n) \<and>
       ShRundownRelease (snd (ShRundownAcquire r)) w = (r, w)) \<and>
    (\<not> fst (ShRundownAcquire r) \<longrightarrow> snd (ShRundownAcquire r) = r) \<and>
    rd_rep (rd_count (ShRundownBeginStop r)) True n \<and> \<not> fst (ShRundownAcquire (ShRundownBeginStop r)) \<and>
    ShRundownActiveCount r = (if stopped \<and> n = 0 then - 1 else of_nat n) \<and>
    (n = 0 \<longrightarrow> rd_count (fst (ShRundownRelease r w)) = rd_count r \<and>
       rd_underflows (fst (ShRundownRelease r w)) = rd_underflows r + 1 \<and>
       g_BlockReason (snd (ShRundownRelease r w)) \<noteq> ShinkenBlockNone \<and>
       (g_State w = ShinkenTeardown \<longrightarrow> g_State (snd (ShRundownRelease r w)) = ShinkenUnloadBlocked))"
proof -
  have n: "n \<le> 0x40000000" and c: "rd_count r = rd_enc stopped n" using assms by (simp_all add: rd_rep_def)
  have stop: "rd_rep (rd_count (ShRundownBeginStop r)) True n" by (rule begin_stop_rep [OF assms])
  have under: "n = 0 \<longrightarrow> rd_count (fst (ShRundownRelease r w)) = rd_count r \<and>
       rd_underflows (fst (ShRundownRelease r w)) = rd_underflows r + 1 \<and>
       g_BlockReason (snd (ShRundownRelease r w)) \<noteq> ShinkenBlockNone \<and>
       (g_State w = ShinkenTeardown \<longrightarrow> g_State (snd (ShRundownRelease r w)) = ShinkenUnloadBlocked)"
  proof
    assume "n = 0"
    then have "ShRundownRelease r w = ShRuntimeReportUnderflow r w" using release_unheld [of r stopped w] assms by simp
    then show "rd_count (fst (ShRundownRelease r w)) = rd_count r \<and>
       rd_underflows (fst (ShRundownRelease r w)) = rd_underflows r + 1 \<and>
       g_BlockReason (snd (ShRundownRelease r w)) \<noteq> ShinkenBlockNone \<and>
       (g_State w = ShinkenTeardown \<longrightarrow> g_State (snd (ShRundownRelease r w)) = ShinkenUnloadBlocked)"
      by (cases "g_State w = ShinkenTeardown")
        (simp_all add: ShRuntimeReportUnderflow_def Let_def record_block_reason unload_blocked_reason)
  qed
  consider (vacant) "\<not> stopped" "n < 0x40000000" | (full) "\<not> stopped" "n = 0x40000000" | (stopped) "stopped"
    using n by linarith
  then have acq: "fst (ShRundownAcquire r) = (\<not> stopped \<and> n < 0x40000000) \<and>
    (fst (ShRundownAcquire r) \<longrightarrow> rd_rep (rd_count (snd (ShRundownAcquire r))) False (Suc n) \<and>
       ShRundownRelease (snd (ShRundownAcquire r)) w = (r, w)) \<and>
    (\<not> fst (ShRundownAcquire r) \<longrightarrow> snd (ShRundownAcquire r) = r)"
  proof cases
    case vacant
    then have rep: "rd_rep (rd_count r) False n" using assms by simp
    let ?r = "r\<lparr>rd_count := rd_enc False (Suc n)\<rparr>"
    have rep': "rd_rep (rd_count ?r) False (Suc n)" using vacant by (simp add: rd_rep_def)
    have "?r\<lparr>rd_count := rd_enc False n\<rparr> = r" using c vacant by simp
    then show ?thesis
      using acquire_open [OF rep] vacant rep' by (simp add: release_held [OF rep'])
  next
    case full
    then show ?thesis using acquire_full assms by simp
  next
    case stopped
    then show ?thesis using acquire_stopped assms by simp
  qed
  show ?thesis
    using acq under stop acquire_stopped [OF stop] active_count_rep [OF assms] by simp
qed

theorem rundown_contract_witness:
  "fst (ShRundownAcquire (ShRundownInit zero_rundown ''x'')) \<and>
   \<not> fst (ShRundownAcquire (ShRundownBeginStop (ShRundownInit zero_rundown ''x'')))"
  using rundown_contract [OF init_rep [of zero_rundown "''x''"], where w = image_runtime] by simp

end
