(* ===== verification/RuleMatch.thy ===== *)
theory RuleMatch
  imports PacketHelpers
begin

text \<open>
  rules/rule_match.c: the image path hash and the Boolean matcher of the classify hot
  path, and \<open>SkRuleValidate\<close> of rules/rule_store.c, which decides the rules the matcher
  ever sees. The last part states what a validated rule can depend on.
\<close>

section \<open>Path hash\<close>

abbreviation (input) SK_FNV1A64_OFFSET :: u64 where
  "SK_FNV1A64_OFFSET \<equiv> 14695981039346656037"

abbreviation (input) SK_FNV1A64_PRIME :: u64 where
  "SK_FNV1A64_PRIME \<equiv> 1099511628211"

definition fold_case :: "u16 \<Rightarrow> u16" where
  "fold_case c = (if 0x41 \<le> c \<and> c \<le> 0x5A then c + (0x61 - 0x41) else c)"

definition hash_step :: "u64 \<Rightarrow> u16 \<Rightarrow> u64" where
  "hash_step h c =
     (let c = fold_case c; h = h XOR ucast c in h * SK_FNV1A64_PRIME)"

text \<open>\<open>path\<close> is a pointer: \<open>None\<close> is NULL. The caller owns at least \<open>chars\<close> characters.\<close>

definition SkRuleHashAppPath :: "u16 list option \<Rightarrow> u32 \<Rightarrow> u64" where
  "SkRuleHashAppPath path chars =
     (case path of
        None \<Rightarrow> 0
      | Some p \<Rightarrow> if chars = 0 then 0 else foldl hash_step SK_FNV1A64_OFFSET (take (unat chars) p))"

lemma fold_case_idem: "fold_case (fold_case c) = fold_case c"
proof (cases "0x41 \<le> c \<and> c \<le> 0x5A")
  case True
  then have "unat c + 32 < 2 ^ 16" by (simp add: word_le_nat_alt)
  then have "unat (c + 32) = unat c + 32" by (simp add: unat_word_ariths)
  with True have "\<not> (0x41 \<le> c + 32 \<and> c + 32 \<le> 0x5A)" by (simp add: word_le_nat_alt)
  with True show ?thesis by (simp add: fold_case_def)
qed (simp add: fold_case_def)

lemma hash_step_fold_case: "hash_step h (fold_case c) = hash_step h c"
  by (simp add: hash_step_def fold_case_idem)

lemma foldl_hash_fold_case: "foldl hash_step h (map fold_case p) = foldl hash_step h p"
  by (induction p arbitrary: h) (simp_all add: hash_step_fold_case)

lemma hash_fold_case:
  "SkRuleHashAppPath (Some (map fold_case p)) n = SkRuleHashAppPath (Some p) n"
  by (simp add: SkRuleHashAppPath_def take_map foldl_hash_fold_case)

text \<open>
  One step is a bijection on the state: the prime is odd. Two paths that differ in one
  folded character at one position therefore have different hashes.
\<close>

lemma fnv_prime_inverse: "SK_FNV1A64_PRIME * 14886173955864302971 = 1"
  by simp

lemma mult_fnv_cancel: "a * SK_FNV1A64_PRIME = b * SK_FNV1A64_PRIME \<Longrightarrow> a = (b :: u64)"
proof -
  assume "a * SK_FNV1A64_PRIME = b * SK_FNV1A64_PRIME"
  then have "a * (SK_FNV1A64_PRIME * 14886173955864302971)
      = b * (SK_FNV1A64_PRIME * 14886173955864302971)"
    by (simp only: mult.assoc [symmetric])
  then show ?thesis by (simp only: fnv_prime_inverse mult_1_right)
qed

lemma hash_step_inj: "hash_step a c = hash_step b c \<Longrightarrow> a = b"
proof -
  assume "hash_step a c = hash_step b c"
  then have "a XOR ucast (fold_case c) = b XOR ucast (fold_case c)"
    unfolding hash_step_def Let_def by (rule mult_fnv_cancel)
  then have "(a XOR ucast (fold_case c)) XOR ucast (fold_case c)
      = (b XOR ucast (fold_case c)) XOR ucast (fold_case c)" by simp
  then show ?thesis by (simp add: xor.assoc)
qed

lemma ucast_u64_uint: "uint (ucast (c::u16) :: u64) = uint c"
proof -
  have "uint c < 2 ^ 16" using unsigned_less [where 'a = int, of c] by simp
  then show ?thesis by (simp add: unsigned_ucast_eq take_bit_int_eq_self)
qed

lemma hash_step_char_inj: "hash_step a c = hash_step a d \<Longrightarrow> fold_case c = fold_case d"
proof -
  assume "hash_step a c = hash_step a d"
  then have "a XOR ucast (fold_case c) = a XOR ucast (fold_case d)"
    unfolding hash_step_def Let_def by (rule mult_fnv_cancel)
  then have "a XOR (a XOR ucast (fold_case c)) = a XOR (a XOR ucast (fold_case d))" by simp
  then have "(ucast (fold_case c) :: u64) = ucast (fold_case d)"
    by (simp only: xor.assoc [symmetric] xor_self_eq xor.left_neutral)
  then have "uint (ucast (fold_case c) :: u64) = uint (ucast (fold_case d) :: u64)"
    by simp
  then show ?thesis by (simp add: ucast_u64_uint word_uint_eq_iff)
qed

lemma foldl_hash_inj: "foldl hash_step a p = foldl hash_step b p \<Longrightarrow> a = b"
  by (induction p arbitrary: a b) (auto dest: hash_step_inj)

lemma hash_one_difference:
  assumes "fold_case c \<noteq> fold_case d"
  shows "foldl hash_step h (p @ c # q) \<noteq> foldl hash_step h (p @ d # q)"
  using assms by (auto dest!: foldl_hash_inj hash_step_char_inj)

section \<open>The matcher\<close>

definition SkRuleMatch :: "rule \<Rightarrow> tuple \<Rightarrow> bool" where
  "SkRuleMatch rule tuple =
     (if r_enabled rule = 0 then False
      else
        let m = r_mask rule in
        if has m SK_RULE_M_FAMILY \<and> r_family rule \<noteq> t_family tuple then False
        else if has m SK_RULE_M_DIRECTION \<and> r_direction rule \<noteq> SK_RULE_DIR_ANY \<and>
          r_direction rule \<noteq> t_direction tuple then False
        else if has m SK_RULE_M_PROTOCOL \<and> r_protocol rule \<noteq> SK_RULE_PROTO_ANY \<and>
          r_protocol rule \<noteq> t_protocol tuple then False
        else if has m SK_RULE_M_LAYER \<and> r_layerId rule \<noteq> t_layerId tuple then False
        else if has m SK_RULE_M_IFINDEX \<and> r_ifIndex rule \<noteq> 0 \<and>
          r_ifIndex rule \<noteq> t_ifIndex tuple then False
        else if has m SK_RULE_M_PID \<and> r_processId rule \<noteq> 0 \<and>
          r_processId rule \<noteq> t_processId tuple then False
        else if has m SK_RULE_M_APPID \<and> r_appId rule \<noteq> 0 \<and>
          r_appId rule \<noteq> t_appId tuple then False
        else if has m SK_RULE_M_LOCALPORT \<and>
          (t_localPort tuple < r_localPortMin rule \<or> t_localPort tuple > r_localPortMax rule)
          then False
        else if has m SK_RULE_M_REMOTEPORT \<and>
          (t_remotePort tuple < r_remotePortMin rule \<or> t_remotePort tuple > r_remotePortMax rule)
          then False
        else if has m SK_RULE_M_LOCALADDR \<and>
          \<not> SkPkAddrMatch (t_localAddr tuple) (r_localAddr rule) (r_localPrefix rule) (t_family tuple)
          then False
        else if has m SK_RULE_M_REMOTEADDR \<and>
          \<not> SkPkAddrMatch (t_remoteAddr tuple) (r_remoteAddr rule) (r_remotePrefix rule)
              (t_family tuple)
          then False
        else if has m SK_RULE_M_SID \<and>
          (case t_userId tuple of
             None \<Rightarrow> True
           | Some userId \<Rightarrow>
               r_sidLength rule = 0 \<or> t_userIdLength tuple \<noteq> r_sidLength rule \<or>
               take (unat (r_sidLength rule)) (r_sid rule) \<noteq> take (unat (r_sidLength rule)) userId)
          then False
        else if has m SK_RULE_M_TIME \<and> (r_notBefore rule \<noteq> 0 \<or> r_notAfter rule \<noteq> 0) \<and>
          (t_nowUtc100ns tuple < r_notBefore rule \<or> t_nowUtc100ns tuple > r_notAfter rule)
          then False
        else True)"

text \<open>
  The meaning of a rule as a set of conditions: one field, one condition, each of them
  binding only if its mask bit is set.
\<close>

datatype field =
    Family | Direction | Protocol | Layer | IfIndex | Pid | AppId | LocalPort | RemotePort
  | LocalAddr | RemoteAddr | Sid | Time

fun field_bit :: "field \<Rightarrow> u32" where
  "field_bit Family = SK_RULE_M_FAMILY"
| "field_bit Direction = SK_RULE_M_DIRECTION"
| "field_bit Protocol = SK_RULE_M_PROTOCOL"
| "field_bit Layer = SK_RULE_M_LAYER"
| "field_bit IfIndex = SK_RULE_M_IFINDEX"
| "field_bit Pid = SK_RULE_M_PID"
| "field_bit AppId = SK_RULE_M_APPID"
| "field_bit LocalPort = SK_RULE_M_LOCALPORT"
| "field_bit RemotePort = SK_RULE_M_REMOTEPORT"
| "field_bit LocalAddr = SK_RULE_M_LOCALADDR"
| "field_bit RemoteAddr = SK_RULE_M_REMOTEADDR"
| "field_bit Sid = SK_RULE_M_SID"
| "field_bit Time = SK_RULE_M_TIME"

text \<open>Prefix equality of addresses, in terms of their bits.\<close>

definition same_net :: "u32 \<Rightarrow> u8 \<Rightarrow> u8 list \<Rightarrow> u8 list \<Rightarrow> bool" where
  "same_net family prefix a b \<longleftrightarrow>
     (family = AF_INET \<or> family = AF_INET6) \<and> unat prefix \<le> addr_width family \<and>
     (\<forall>k<unat prefix. addr_bit a k = addr_bit b k)"

fun field_ok :: "field \<Rightarrow> rule \<Rightarrow> tuple \<Rightarrow> bool" where
  "field_ok Family r t \<longleftrightarrow> t_family t = r_family r"
| "field_ok Direction r t \<longleftrightarrow> r_direction r \<in> {SK_RULE_DIR_ANY, t_direction t}"
| "field_ok Protocol r t \<longleftrightarrow> r_protocol r \<in> {SK_RULE_PROTO_ANY, t_protocol t}"
| "field_ok Layer r t \<longleftrightarrow> t_layerId t = r_layerId r"
| "field_ok IfIndex r t \<longleftrightarrow> r_ifIndex r \<in> {0, t_ifIndex t}"
| "field_ok Pid r t \<longleftrightarrow> r_processId r \<in> {0, t_processId t}"
| "field_ok AppId r t \<longleftrightarrow> r_appId r \<in> {0, t_appId t}"
| "field_ok LocalPort r t \<longleftrightarrow> t_localPort t \<in> {r_localPortMin r..r_localPortMax r}"
| "field_ok RemotePort r t \<longleftrightarrow> t_remotePort t \<in> {r_remotePortMin r..r_remotePortMax r}"
| "field_ok LocalAddr r t \<longleftrightarrow> same_net (t_family t) (r_localPrefix r) (t_localAddr t) (r_localAddr r)"
| "field_ok RemoteAddr r t \<longleftrightarrow>
     same_net (t_family t) (r_remotePrefix r) (t_remoteAddr t) (r_remoteAddr r)"
| "field_ok Sid r t \<longleftrightarrow>
     (\<exists>u. t_userId t = Some u \<and> r_sidLength r \<noteq> 0 \<and> t_userIdLength t = r_sidLength r \<and>
        take (unat (r_sidLength r)) u = take (unat (r_sidLength r)) (r_sid r))"
| "field_ok Time r t \<longleftrightarrow>
     r_notBefore r = 0 \<and> r_notAfter r = 0 \<or> t_nowUtc100ns t \<in> {r_notBefore r..r_notAfter r}"

lemma all_fields:
  "(\<forall>f. P f) \<longleftrightarrow> P Family \<and> P Direction \<and> P Protocol \<and> P Layer \<and> P IfIndex \<and> P Pid \<and> P AppId \<and>
     P LocalPort \<and> P RemotePort \<and> P LocalAddr \<and> P RemoteAddr \<and> P Sid \<and> P Time"
proof
  assume all: "P Family \<and> P Direction \<and> P Protocol \<and> P Layer \<and> P IfIndex \<and> P Pid \<and> P AppId \<and>
    P LocalPort \<and> P RemotePort \<and> P LocalAddr \<and> P RemoteAddr \<and> P Sid \<and> P Time"
  show "\<forall>f. P f"
  proof
    fix f show "P f" using all by (cases f) simp_all
  qed
qed simp

lemma refuse_chain: "(if c then False else b) \<longleftrightarrow> \<not> c \<and> b"
  by simp

lemma match_fields:
  "SkRuleMatch r t \<longleftrightarrow> r_enabled r \<noteq> 0 \<and> (\<forall>f. has (r_mask r) (field_bit f) \<longrightarrow> field_ok f r t)"
proof -
  have conj: "P = P' \<Longrightarrow> Q = Q' \<Longrightarrow> (P \<and> Q) = (P' \<and> Q')" for P P' Q Q' :: bool
    by simp
  show ?thesis
    unfolding SkRuleMatch_def Let_def refuse_chain all_fields simp_thms
      field_bit.simps field_ok.simps same_net_def addr_match_bits
    by (intro conj refl) (auto split: option.splits)
qed

section \<open>Validation\<close>

abbreviation (input) SK_RULE_M_ALL :: u32 where
  "SK_RULE_M_ALL \<equiv> SK_RULE_M_FAMILY OR SK_RULE_M_DIRECTION OR SK_RULE_M_PROTOCOL OR
     SK_RULE_M_LOCALADDR OR SK_RULE_M_REMOTEADDR OR SK_RULE_M_LOCALPORT OR SK_RULE_M_REMOTEPORT OR
     SK_RULE_M_PID OR SK_RULE_M_APPID OR SK_RULE_M_LAYER OR SK_RULE_M_IFINDEX OR SK_RULE_M_SID OR
     SK_RULE_M_TIME"

text \<open>\<open>SkRuleValidate\<close> takes a pointer: \<open>None\<close> is NULL.\<close>

definition SkRuleValidate :: "rule option \<Rightarrow> ntstatus" where
  "SkRuleValidate rule_ptr =
     (case rule_ptr of
        None \<Rightarrow> STATUS_INVALID_PARAMETER
      | Some rule \<Rightarrow>
        if r_ruleId rule = 0 then STATUS_INVALID_PARAMETER
        else if has (r_mask rule) (NOT SK_RULE_M_ALL) then STATUS_INVALID_PARAMETER
        else if has (r_mask rule) (SK_RULE_M_IFINDEX OR SK_RULE_M_SID) then STATUS_INVALID_PARAMETER
        else if r_enabled rule > 1 then STATUS_INVALID_PARAMETER
        else if r_action rule > SkRuleActionRateLimit then STATUS_INVALID_PARAMETER
        else if r_action rule = SkRuleActionRateLimit \<and>
          (r_rateTokens rule = 0 \<or> r_rateIntervalMs rule = 0 \<or> r_burst rule = 0)
          then STATUS_INVALID_PARAMETER
        else if r_sidLength rule \<noteq> 0 \<and> (r_sidLength rule < 8 \<or> r_sidLength rule > 32)
          then STATUS_INVALID_PARAMETER
        else
          let m = r_mask rule in
          if has m SK_RULE_M_FAMILY \<and> r_family rule \<noteq> AF_INET \<and> r_family rule \<noteq> AF_INET6
            then STATUS_INVALID_PARAMETER
          else if has m SK_RULE_M_DIRECTION \<and> r_direction rule > SK_RULE_DIR_IN
            then STATUS_INVALID_PARAMETER
          else if has m SK_RULE_M_LAYER \<and> r_layerId rule \<ge> SK_LAYER_COUNT
            then STATUS_INVALID_PARAMETER
          else if has m SK_RULE_M_PROTOCOL \<and> r_protocol rule > 255
            then STATUS_INVALID_PARAMETER
          else if has m SK_RULE_M_LOCALADDR \<and>
            (let lim = (if has m SK_RULE_M_FAMILY \<and> r_family rule = AF_INET then 32 else 128) :: u32
             in ucast (r_localPrefix rule) > lim)
            then STATUS_INVALID_PARAMETER
          else if has m SK_RULE_M_REMOTEADDR \<and>
            (let lim = (if has m SK_RULE_M_FAMILY \<and> r_family rule = AF_INET then 32 else 128) :: u32
             in ucast (r_remotePrefix rule) > lim)
            then STATUS_INVALID_PARAMETER
          else if has m SK_RULE_M_LOCALPORT \<and>
            (r_localPortMin rule > r_localPortMax rule \<or> r_localPortMax rule > 65535)
            then STATUS_INVALID_PARAMETER
          else if has m SK_RULE_M_REMOTEPORT \<and>
            (r_remotePortMin rule > r_remotePortMax rule \<or> r_remotePortMax rule > 65535)
            then STATUS_INVALID_PARAMETER
          else if has m SK_RULE_M_TIME \<and> r_notBefore rule > r_notAfter rule
            then STATUS_INVALID_PARAMETER
          else STATUS_SUCCESS)"

text \<open>The same, as one condition per field of the rule.\<close>

definition family_width :: "rule \<Rightarrow> nat" where
  "family_width r = addr_width
     (if has (r_mask r) SK_RULE_M_FAMILY \<and> r_family r = AF_INET then AF_INET else AF_INET6)"

fun field_valid :: "field \<Rightarrow> rule \<Rightarrow> bool" where
  "field_valid Family r \<longleftrightarrow> r_family r \<in> {AF_INET, AF_INET6}"
| "field_valid Direction r \<longleftrightarrow> r_direction r \<in> {SK_RULE_DIR_ANY, SK_RULE_DIR_OUT, SK_RULE_DIR_IN}"
| "field_valid Protocol r \<longleftrightarrow> unat (r_protocol r) < 2 ^ 8"
| "field_valid Layer r \<longleftrightarrow> unat (r_layerId r) < 6"
| "field_valid IfIndex r \<longleftrightarrow> False"
| "field_valid Pid r \<longleftrightarrow> True"
| "field_valid AppId r \<longleftrightarrow> True"
| "field_valid LocalPort r \<longleftrightarrow> r_localPortMin r \<le> r_localPortMax r \<and> unat (r_localPortMax r) < 2 ^ 16"
| "field_valid RemotePort r \<longleftrightarrow>
     r_remotePortMin r \<le> r_remotePortMax r \<and> unat (r_remotePortMax r) < 2 ^ 16"
| "field_valid LocalAddr r \<longleftrightarrow>
     unat (r_localPrefix r) \<le> family_width r"
| "field_valid RemoteAddr r \<longleftrightarrow>
     unat (r_remotePrefix r) \<le> family_width r"
| "field_valid Sid r \<longleftrightarrow> False"
| "field_valid Time r \<longleftrightarrow> r_notBefore r \<le> r_notAfter r"

definition rule_valid :: "rule \<Rightarrow> bool" where
  "rule_valid r \<longleftrightarrow>
     r_ruleId r \<noteq> 0 \<and>
     (\<forall>k. bit (r_mask r) k \<longrightarrow> k < 13) \<and>
     r_enabled r \<in> {0, 1} \<and>
     r_action r \<in> {SkRuleActionAllow, SkRuleActionBlock, SkRuleActionAudit, SkRuleActionRateLimit} \<and>
     (r_action r = SkRuleActionRateLimit \<longrightarrow>
        r_rateTokens r \<noteq> 0 \<and> r_rateIntervalMs r \<noteq> 0 \<and> r_burst r \<noteq> 0) \<and>
     (r_sidLength r = 0 \<or> unat (r_sidLength r) \<in> {8..32}) \<and>
     (\<forall>f. has (r_mask r) (field_bit f) \<longrightarrow> field_valid f r)"

lemma validate_status:
  "SkRuleValidate r = STATUS_SUCCESS \<or> SkRuleValidate r = STATUS_INVALID_PARAMETER"
  by (simp add: SkRuleValidate_def Let_def split: option.split)

lemma has_or2: "has m (b OR c) \<longleftrightarrow> has m b \<or> has m c"
  by (auto simp: has_def bit.conj_disj_distrib or_eq_0_iff)

lemma unknown_bits: "has m (NOT SK_RULE_M_ALL) \<longleftrightarrow> \<not> (\<forall>k. bit m k \<longrightarrow> k < 13)"
proof -
  have all: "SK_RULE_M_ALL = (mask 13 :: u32)" by (simp add: mask_eq_exp_minus_1)
  have "m AND NOT (mask 13) = 0 \<longleftrightarrow> (\<forall>k. bit m k \<longrightarrow> k < 13)"
  proof
    assume eq: "m AND NOT (mask 13) = 0"
    show "\<forall>k. bit m k \<longrightarrow> k < 13"
    proof (intro allI impI, rule ccontr)
      fix k assume "bit m k" "\<not> k < 13"
      then have "bit (m AND NOT (mask 13)) k"
        using bit_imp_le_length [of m k] by (simp add: bit_and_iff bit_not_iff bit_mask_iff)
      with eq show False by simp
    qed
  next
    assume "\<forall>k. bit m k \<longrightarrow> k < 13"
    then show "m AND NOT (mask 13) = 0"
      by (intro bit_word_eqI) (auto simp: bit_and_iff bit_not_iff bit_mask_iff)
  qed
  then show ?thesis by (simp only: has_def all not_not)
qed

lemma small_words:
  "\<not> (e::u32) > 1 \<longleftrightarrow> e \<in> {0, 1}"
  "\<not> (d::u32) > 2 \<longleftrightarrow> d \<in> {0, 1, 2}"
  "\<not> (a::u32) > 3 \<longleftrightarrow> a \<in> {0, 1, 2, 3}"
proof -
  have le: "unat w \<le> n \<longleftrightarrow> w \<in> set (map of_nat [0..<Suc n])" if "n < 4" for w :: u32 and n
  proof
    assume "unat w \<le> n"
    then have "unat w \<in> set [0..<Suc n]" by auto
    then have "of_nat (unat w) \<in> (of_nat :: nat \<Rightarrow> u32) ` set [0..<Suc n]" by (rule imageI)
    then show "w \<in> set (map of_nat [0..<Suc n])" by simp
  next
    assume "w \<in> set (map of_nat [0..<Suc n])"
    then have "w \<in> of_nat ` {..n}" by (simp only: set_map set_upt atLeast0LessThan lessThan_Suc_atMost)
    then obtain k where "k \<le> n" "w = of_nat k" by blast
    with that show "unat w \<le> n" by (simp add: unat_of_nat take_bit_nat_eq_self)
  qed
  show "\<not> (e::u32) > 1 \<longleftrightarrow> e \<in> {0, 1}"
    using le [of 1 e] by (simp add: not_less word_le_nat_alt)
  show "\<not> (d::u32) > 2 \<longleftrightarrow> d \<in> {0, 1, 2}"
    using le [of 2 d] by (simp add: not_less word_le_nat_alt upt_rec)
  show "\<not> (a::u32) > 3 \<longleftrightarrow> a \<in> {0, 1, 2, 3}"
    using le [of 3 a] by (simp add: not_less word_le_nat_alt upt_rec)
qed

lemma refuse_status:
  "(if c then STATUS_INVALID_PARAMETER else s) = STATUS_SUCCESS \<longleftrightarrow> \<not> c \<and> s = STATUS_SUCCESS"
  by simp

lemma prefix_limit:
  "\<not> (let lim = (if c then 32 else 128) :: u32 in ucast (p :: u8) > lim) \<longleftrightarrow>
   unat p \<le> (if c then 32 else 128)"
  by (auto simp: Let_def word_less_nat_alt unat_ucast_byte)

lemma family_width_eq:
  "family_width r = (if has (r_mask r) SK_RULE_M_FAMILY \<and> r_family r = AF_INET then 32 else 128)"
  by (simp add: family_width_def addr_width_def)

lemma port_range:
  "\<not> (lo > hi \<or> (hi :: u32) > 65535) \<longleftrightarrow> lo \<le> hi \<and> unat hi < 2 ^ 16"
  by (auto simp: word_less_nat_alt word_le_nat_alt)

lemma sid_length:
  "\<not> ((n :: u32) \<noteq> 0 \<and> (n < 8 \<or> n > 32)) \<longleftrightarrow> n = 0 \<or> unat n \<in> {8..32}"
  by (auto simp: word_less_nat_alt)

lemma validate_iff: "SkRuleValidate (Some r) = STATUS_SUCCESS \<longleftrightarrow> rule_valid r"
proof -
  have imp: "\<not> (h \<and> c) \<longleftrightarrow> (h \<longrightarrow> \<not> c)" for h c by blast
  have fam: "(r_family r \<noteq> AF_INET \<longrightarrow> \<not> r_family r \<noteq> AF_INET6) \<longleftrightarrow> r_family r \<in> {AF_INET, AF_INET6}"
    by blast
  have layer: "\<not> r_layerId r \<ge> SK_LAYER_COUNT \<longleftrightarrow> unat (r_layerId r) < 6"
    by (auto simp: word_le_nat_alt)
  have proto: "\<not> r_protocol r > 255 \<longleftrightarrow> unat (r_protocol r) < 2 ^ 8"
    by (auto simp: word_less_nat_alt)
  have rate: "\<not> (r_action r = SkRuleActionRateLimit \<and>
      (r_rateTokens r = 0 \<or> r_rateIntervalMs r = 0 \<or> r_burst r = 0)) \<longleftrightarrow>
      (r_action r = SkRuleActionRateLimit \<longrightarrow>
       r_rateTokens r \<noteq> 0 \<and> r_rateIntervalMs r \<noteq> 0 \<and> r_burst r \<noteq> 0)"
    by blast
  have time: "\<not> r_notBefore r > r_notAfter r \<longleftrightarrow> r_notBefore r \<le> r_notAfter r"
    by (simp add: not_less)
  have "SkRuleValidate (Some r) = STATUS_SUCCESS \<longleftrightarrow>
     r_ruleId r \<noteq> 0 \<and> (\<forall>k. bit (r_mask r) k \<longrightarrow> k < 13) \<and>
     (\<not> has (r_mask r) SK_RULE_M_IFINDEX \<and> \<not> has (r_mask r) SK_RULE_M_SID) \<and>
     r_enabled r \<in> {0, 1} \<and>
     r_action r \<in> {SkRuleActionAllow, SkRuleActionBlock, SkRuleActionAudit, SkRuleActionRateLimit} \<and>
     (r_action r = SkRuleActionRateLimit \<longrightarrow>
        r_rateTokens r \<noteq> 0 \<and> r_rateIntervalMs r \<noteq> 0 \<and> r_burst r \<noteq> 0) \<and>
     (r_sidLength r = 0 \<or> unat (r_sidLength r) \<in> {8..32}) \<and>
     (has (r_mask r) SK_RULE_M_FAMILY \<longrightarrow> field_valid Family r) \<and>
     (has (r_mask r) SK_RULE_M_DIRECTION \<longrightarrow> field_valid Direction r) \<and>
     (has (r_mask r) SK_RULE_M_LAYER \<longrightarrow> field_valid Layer r) \<and>
     (has (r_mask r) SK_RULE_M_PROTOCOL \<longrightarrow> field_valid Protocol r) \<and>
     (has (r_mask r) SK_RULE_M_LOCALADDR \<longrightarrow> field_valid LocalAddr r) \<and>
     (has (r_mask r) SK_RULE_M_REMOTEADDR \<longrightarrow> field_valid RemoteAddr r) \<and>
     (has (r_mask r) SK_RULE_M_LOCALPORT \<longrightarrow> field_valid LocalPort r) \<and>
     (has (r_mask r) SK_RULE_M_REMOTEPORT \<longrightarrow> field_valid RemotePort r) \<and>
     (has (r_mask r) SK_RULE_M_TIME \<longrightarrow> field_valid Time r)"
    unfolding SkRuleValidate_def option.case Let_def [of "r_mask r"] refuse_status
      unknown_bits has_or2 de_Morgan_disj [of "has _ _"] not_not small_words rate sid_length
      prefix_limit
    unfolding imp fam layer proto port_range time small_words prefix_limit
      field_valid.simps family_width_eq
    by (simp only: simp_thms)
  then show ?thesis
    unfolding rule_valid_def all_fields field_bit.simps field_valid.simps
    by (simp only: simp_thms conj_ac)
qed

section \<open>Consequences\<close>

lemma valid_no_reserved:
  assumes "rule_valid r"
  shows "\<not> has (r_mask r) (field_bit IfIndex)" and "\<not> has (r_mask r) (field_bit Sid)"
  using assms field_valid.simps(5,12) unfolding rule_valid_def by blast+

lemma valid_rate:
  "rule_valid r \<Longrightarrow> r_action r = SkRuleActionRateLimit \<Longrightarrow>
   r_rateTokens r \<noteq> 0 \<and> r_rateIntervalMs r \<noteq> 0 \<and> r_burst r \<noteq> 0"
  by (simp add: rule_valid_def)

lemma valid_id: "rule_valid r \<Longrightarrow> r_ruleId r \<noteq> 0"
  by (simp add: rule_valid_def)

text \<open>Enabling and disabling keep validity.\<close>

lemma field_valid_enabled [simp]: "field_valid f (r\<lparr>r_enabled := e\<rparr>) = field_valid f r"
  by (cases f) (simp_all add: family_width_def)

lemma valid_enabled: "rule_valid r \<Longrightarrow> e \<in> {0, 1} \<Longrightarrow> rule_valid (r\<lparr>r_enabled := e\<rparr>)"
  by (simp add: rule_valid_def)

lemma field_ok_mask: "field_ok f (r\<lparr>r_mask := m\<rparr>) t = field_ok f r t"
  by (cases f) simp_all

text \<open>What the conditions of a validated rule do not read.\<close>

lemma field_ok_frame:
  assumes "f \<noteq> IfIndex" and "f \<noteq> Sid"
  shows "field_ok f r (t\<lparr>t_ifIndex := i, t_userId := u, t_userIdLength := n\<rparr>) = field_ok f r t"
  using assms by (cases f) simp_all

section \<open>Properties\<close>

text \<open>C15: the matcher's sequence of early returns decides exactly the conjunction of the rule's
  conditions: the rule is enabled and every field whose mask bit is set satisfies its
  condition (0 as a wildcard for direction, protocol, interface, pid and application, closed
  port intervals, network equality bit by bit, the validity window); fields without their bit
  are wildcards.\<close>

theorem match_correct:
  "SkRuleMatch r t = (r_enabled r \<noteq> 0 \<and> (\<forall>f. has (r_mask r) (field_bit f) \<longrightarrow> field_ok f r t))"
  by (rule match_fields)

theorem match_correct_witness:
  "\<not> SkRuleMatch (zero_rule\<lparr>r_enabled := 1, r_mask := SK_RULE_M_PID, r_processId := 4\<rparr>)
      (zero_tuple\<lparr>t_processId := 5\<rparr>)"
proof -
  have "has SK_RULE_M_PID (field_bit Pid)" by (simp add: has_def)
  then show ?thesis
    by (subst match_correct) (auto intro!: exI [of _ Pid] simp: zero_rule_def zero_tuple_def)
qed

text \<open>Clearing mask bits only widens a rule: what a rule matches is also matched by the same
  rule with fewer conditions, and an enabled rule without conditions matches everything.\<close>

theorem match_mask_mono:
  assumes "m AND r_mask r = m" and "SkRuleMatch r t"
  shows "SkRuleMatch (r\<lparr>r_mask := m\<rparr>) t \<and> SkRuleMatch (r\<lparr>r_mask := 0\<rparr>) t'"
proof -
  have "has (r_mask r) b" if "has m b" for b
    using assms(1) that by (rule has_mono)
  with assms(2) show ?thesis by (auto simp: match_fields field_ok_mask)
qed

theorem match_mask_mono_witness:
  "SkRuleMatch (zero_rule\<lparr>r_enabled := 1, r_mask := SK_RULE_M_LOCALPORT\<rparr>) zero_tuple \<and>
   SkRuleMatch (zero_rule\<lparr>r_enabled := 1, r_mask := 0\<rparr>) (zero_tuple\<lparr>t_processId := 7\<rparr>)"
proof -
  have "SkRuleMatch (zero_rule\<lparr>r_enabled := 1, r_mask := SK_RULE_M_LOCALPORT OR SK_RULE_M_PID\<rparr>)
      zero_tuple" by code_simp
  from match_mask_mono [OF _ this, of SK_RULE_M_LOCALPORT "zero_tuple\<lparr>t_processId := 7\<rparr>"]
  show ?thesis by simp
qed

text \<open>A validated rule never depends on tuple fields the data plane does not fill (interface
  index and user id), and it fails closed on missing metadata: with the process or
  application id missing (0 in the tuple), a rule that asks for a definite one does not
  match.\<close>

theorem valid_rule_reads:
  assumes "SkRuleValidate (Some r) = STATUS_SUCCESS"
  shows "SkRuleMatch r (t\<lparr>t_ifIndex := i, t_userId := u, t_userIdLength := n\<rparr>) = SkRuleMatch r t \<and>
    (has (r_mask r) SK_RULE_M_PID \<and> r_processId r \<noteq> 0 \<longrightarrow>
       \<not> SkRuleMatch r (t\<lparr>t_processId := 0\<rparr>)) \<and>
    (has (r_mask r) SK_RULE_M_APPID \<and> r_appId r \<noteq> 0 \<longrightarrow>
       \<not> SkRuleMatch r (t\<lparr>t_appId := 0\<rparr>))"
proof (intro conjI impI)
  have valid: "rule_valid r" using assms by (simp only: validate_iff)
  have "field_ok f r (t\<lparr>t_ifIndex := i, t_userId := u, t_userIdLength := n\<rparr>) = field_ok f r t"
    if "has (r_mask r) (field_bit f)" for f
    by (rule field_ok_frame) (use that valid_no_reserved [OF valid] in auto)
  then show "SkRuleMatch r (t\<lparr>t_ifIndex := i, t_userId := u, t_userIdLength := n\<rparr>) = SkRuleMatch r t"
    unfolding match_fields by blast
next
  assume "has (r_mask r) SK_RULE_M_PID \<and> r_processId r \<noteq> 0"
  then show "\<not> SkRuleMatch r (t\<lparr>t_processId := 0\<rparr>)"
    unfolding match_fields by (auto intro!: exI [of _ Pid])
next
  assume "has (r_mask r) SK_RULE_M_APPID \<and> r_appId r \<noteq> 0"
  then show "\<not> SkRuleMatch r (t\<lparr>t_appId := 0\<rparr>)"
    unfolding match_fields by (auto intro!: exI [of _ AppId])
qed

theorem valid_rule_reads_witness:
  "\<not> SkRuleMatch (zero_rule\<lparr>r_ruleId := 9, r_enabled := 1, r_mask := SK_RULE_M_PID, r_processId := 4\<rparr>)
      zero_tuple"
proof -
  let ?r = "zero_rule\<lparr>r_ruleId := 9, r_enabled := 1, r_mask := SK_RULE_M_PID, r_processId := 4\<rparr>"
  have "SkRuleValidate (Some ?r) = STATUS_SUCCESS" by code_simp
  from valid_rule_reads [OF this, where t = zero_tuple] show ?thesis
    by (simp add: has_def zero_tuple_def)
qed

text \<open>Validation accepts exactly the rules of the declarative predicate \<open>rule_valid\<close> (nonzero
  id, no bit above bit 12, no reserved condition, two-valued enabled flag, known action,
  nonzero rate parameters, per-field ranges) and answers every other rule, and NULL, with
  STATUS_INVALID_PARAMETER.\<close>

theorem validate_correct:
  "SkRuleValidate p =
    (case p of
       None \<Rightarrow> STATUS_INVALID_PARAMETER
     | Some r \<Rightarrow> if rule_valid r then STATUS_SUCCESS else STATUS_INVALID_PARAMETER)"
proof (cases p)
  case None
  then show ?thesis by (simp add: SkRuleValidate_def)
next
  case (Some r)
  then show ?thesis using validate_iff [of r] validate_status [of p] by auto
qed

text \<open>The application hash ignores ASCII case, is 0 for a missing or empty path, and
  separates any two paths of one length that differ in exactly one character beyond case.\<close>

theorem hash_path_correct:
  "SkRuleHashAppPath (Some (map fold_case p)) n = SkRuleHashAppPath (Some p) n \<and>
   SkRuleHashAppPath None n = 0 \<and> SkRuleHashAppPath path 0 = 0 \<and>
   (fold_case c \<noteq> fold_case d \<and> unat n = length (p @ c # q) \<longrightarrow>
      SkRuleHashAppPath (Some (p @ c # q)) n \<noteq> SkRuleHashAppPath (Some (p @ d # q)) n)"
proof (intro conjI impI)
  show "SkRuleHashAppPath (Some (map fold_case p)) n = SkRuleHashAppPath (Some p) n"
    by (rule hash_fold_case)
  show "SkRuleHashAppPath None n = 0" by (simp add: SkRuleHashAppPath_def)
  show "SkRuleHashAppPath path 0 = 0" by (cases path) (simp_all add: SkRuleHashAppPath_def)
  assume neq: "fold_case c \<noteq> fold_case d \<and> unat n = length (p @ c # q)"
  then have "n \<noteq> 0" by auto
  with neq hash_one_difference [of c d SK_FNV1A64_OFFSET p q]
  show "SkRuleHashAppPath (Some (p @ c # q)) n \<noteq> SkRuleHashAppPath (Some (p @ d # q)) n"
    by (simp add: SkRuleHashAppPath_def)
qed

theorem hash_path_correct_witness:
  "SkRuleHashAppPath (Some [0x63, 0x3a, 0x61]) 3 \<noteq> SkRuleHashAppPath (Some [0x63, 0x3a, 0x62]) 3"
  using hash_path_correct [of "[0x63, 0x3a]" 3 None "0x61" "0x62" "[]"]
  by (simp add: fold_case_def)

text \<open>A nonempty path can hash to 0, the value that means "any application": a rule that
  carries the hash of the eight characters below as its application condition is valid and
  matches the connections of every process.\<close>

theorem hash_zero_collision:
  "SkRuleHashAppPath (Some [380, 113, 205, 208, 55, 190, 429, 121]) 8 = 0 \<and>
   (let r = zero_rule\<lparr>r_ruleId := 1, r_enabled := 1, r_mask := SK_RULE_M_APPID,
        r_appId := SkRuleHashAppPath (Some [380, 113, 205, 208, 55, 190, 429, 121]) 8\<rparr>
    in SkRuleValidate (Some r) = STATUS_SUCCESS \<and> SkRuleMatch r t)"
proof -
  have hash: "SkRuleHashAppPath (Some [380, 113, 205, 208, 55, 190, 429, 121]) 8 = 0"
    by code_simp
  have "SkRuleValidate (Some (zero_rule\<lparr>r_ruleId := 1, r_enabled := 1, r_mask := SK_RULE_M_APPID,
      r_appId := 0\<rparr>)) = STATUS_SUCCESS" by code_simp
  moreover have "SkRuleMatch (zero_rule\<lparr>r_ruleId := 1, r_enabled := 1, r_mask := SK_RULE_M_APPID,
      r_appId := 0\<rparr>) t"
    by (simp add: SkRuleMatch_def Let_def has_def)
  ultimately show ?thesis by (simp only: hash Let_def simp_thms)
qed

end
