(* ===== verification/RuleOrder.thy ===== *)
theory RuleOrder
  imports RuleMatch "HOL-Library.Multiset"
begin

text \<open>
  The verdict order of rules/rule_store.c: \<open>SkActionRank\<close>, \<open>SkRulePrecedes\<close> and the
  in-place insertion sort \<open>SkSortRules\<close>. The order is described by a key type with a
  \<open>linorder\<close> instance; the sort is proved equal to the library's stable \<open>sort_key\<close>, and
  the locale \<open>first_match\<close> says why the first match of a sorted array is the verdict.
\<close>

section \<open>The order\<close>

definition SkActionRank :: "u32 \<Rightarrow> u32" where
  "SkActionRank action =
     (if action = SkRuleActionBlock then 3
      else if action = SkRuleActionRateLimit then 2
      else if action = SkRuleActionAudit then 1
      else 0)"

definition SkRulePrecedes :: "rule \<Rightarrow> rule \<Rightarrow> bool" where
  "SkRulePrecedes a b =
     (if r_priority a \<noteq> r_priority b then r_priority a > r_priority b
      else let ra = SkActionRank (r_action a); rb = SkActionRank (r_action b)
           in if ra \<noteq> rb then ra > rb
              else r_ruleId a < r_ruleId b)"

text \<open>The key of a rule: higher priority, stronger action, lower id come first.\<close>

datatype verdict_key = VerdictKey (vk_priority: u32) (vk_rank: u32) (vk_id: u64)

definition verdict_key :: "rule \<Rightarrow> verdict_key" where
  "verdict_key r = VerdictKey (r_priority r) (SkActionRank (r_action r)) (r_ruleId r)"

instantiation verdict_key :: linorder
begin

definition less_verdict_key :: "verdict_key \<Rightarrow> verdict_key \<Rightarrow> bool" where
  "k < l \<longleftrightarrow> vk_priority k > vk_priority l \<or>
     vk_priority k = vk_priority l \<and> (vk_rank k > vk_rank l \<or>
       vk_rank k = vk_rank l \<and> vk_id k < vk_id l)"

definition less_eq_verdict_key :: "verdict_key \<Rightarrow> verdict_key \<Rightarrow> bool" where
  "k \<le> l \<longleftrightarrow> k < l \<or> k = (l :: verdict_key)"

instance
proof
  fix k l m :: verdict_key
  show "k < l \<longleftrightarrow> k \<le> l \<and> \<not> l \<le> k"
    by (cases k; cases l) (auto simp: less_verdict_key_def less_eq_verdict_key_def)
  show "k \<le> k" by (simp add: less_eq_verdict_key_def)
  show "k \<le> l \<Longrightarrow> l \<le> m \<Longrightarrow> k \<le> m"
    by (cases k; cases l; cases m) (auto simp: less_verdict_key_def less_eq_verdict_key_def)
  show "k \<le> l \<Longrightarrow> l \<le> k \<Longrightarrow> k = l"
    by (cases k; cases l) (auto simp: less_verdict_key_def less_eq_verdict_key_def)
  show "k \<le> l \<or> l \<le> k"
    by (cases k; cases l) (auto simp: less_verdict_key_def less_eq_verdict_key_def)
qed

end

lemma precedes_key: "SkRulePrecedes a b \<longleftrightarrow> verdict_key a < verdict_key b"
  by (auto simp: SkRulePrecedes_def verdict_key_def less_verdict_key_def Let_def)

lemma linorder_less_swap: "x \<noteq> y \<Longrightarrow> x < y \<longleftrightarrow> \<not> y < (x :: 'a :: linorder)"
  by auto

lemma key_id: "verdict_key a = verdict_key b \<Longrightarrow> r_ruleId a = r_ruleId b"
  by (simp add: verdict_key_def)

lemma key_enabled [simp]: "verdict_key (r\<lparr>r_enabled := e\<rparr>) = verdict_key r"
  by (simp add: verdict_key_def)

section \<open>The insertion sort\<close>

text \<open>
  The inner loop from index \<open>j\<close> down: shift while the rule precedes its left neighbour,
  then store it. The outer loop runs over \<open>1 \<le> i < n\<close>.
\<close>

fun sort_shift :: "rule \<Rightarrow> nat \<Rightarrow> rule list \<Rightarrow> rule list" where
  "sort_shift t 0 a = a[0 := t]"
| "sort_shift t (Suc j) a =
     (if SkRulePrecedes t (a ! j) then sort_shift t j (a[Suc j := a ! j]) else a[Suc j := t])"

definition SkSortRules :: "rule list \<Rightarrow> nat \<Rightarrow> rule list" where
  "SkSortRules a n = foldl (\<lambda>a i. sort_shift (a ! i) i a) a [1..<n]"

text \<open>Where the inner loop puts the rule in a sorted prefix: behind the keys not above it.\<close>

definition insert_rule :: "rule \<Rightarrow> rule list \<Rightarrow> rule list" where
  "insert_rule t xs = filter (\<lambda>y. verdict_key y \<le> verdict_key t) xs @ t #
     filter (\<lambda>y. verdict_key t < verdict_key y) xs"

lemma sort_shift_insert:
  assumes "sorted (map verdict_key xs)"
  shows "sort_shift t (length xs) (xs @ u # ys) = insert_rule t xs @ ys"
  using assms
proof (induction xs arbitrary: u ys rule: rev_induct)
  case Nil
  show ?case by (simp add: insert_rule_def)
next
  case (snoc y xs)
  have sorted: "sorted (map verdict_key xs)" and
    below: "\<forall>x\<in>set xs. verdict_key x \<le> verdict_key y"
    using snoc.prems by (auto simp: sorted_append)
  show ?case
  proof (cases "SkRulePrecedes t y")
    case True
    have "sort_shift t (length (xs @ [y])) ((xs @ [y]) @ u # ys)
        = sort_shift t (length xs) (xs @ y # y # ys)"
      using True by (simp add: nth_append list_update_append)
    also have "\<dots> = insert_rule t xs @ y # ys"
      using snoc.IH [OF sorted] .
    also have "insert_rule t xs @ y # ys = insert_rule t (xs @ [y]) @ ys"
      using True by (simp add: insert_rule_def precedes_key not_le)
    finally show ?thesis .
  next
    case False
    then have y: "verdict_key y \<le> verdict_key t" by (simp add: precedes_key not_less)
    then have "\<forall>x\<in>set xs. verdict_key x \<le> verdict_key t"
      using below by (meson order_trans)
    then have "insert_rule t (xs @ [y]) = xs @ [y, t]"
      using y by (auto simp: insert_rule_def filter_id_conv filter_empty_conv not_less)
    with False show ?thesis by (simp add: nth_append list_update_append)
  qed
qed

lemma insert_rule_sort_key:
  "insert_rule t (sort_key verdict_key xs) = sort_key verdict_key (xs @ [t])"
proof (rule properties_for_sort_key [symmetric])
  let ?s = "sort_key verdict_key xs"
  have "mset (filter (\<lambda>y. verdict_key y \<le> verdict_key t) ?s)
      + mset (filter (\<lambda>y. verdict_key t < verdict_key y) ?s) = mset xs"
    using multiset_partition [of "mset ?s" "\<lambda>y. verdict_key y \<le> verdict_key t"]
    by (simp add: not_le)
  then show "mset (insert_rule t ?s) = mset (xs @ [t])"
    by (simp add: insert_rule_def add.commute)
  show "sorted (map verdict_key (insert_rule t ?s))"
    by (auto simp: insert_rule_def sorted_append sorted_filter)
  show "filter (\<lambda>x. verdict_key k = verdict_key x) (insert_rule t ?s)
      = filter (\<lambda>x. verdict_key k = verdict_key x) (xs @ [t])" for k
  proof -
    have stable: "filter (\<lambda>x. verdict_key k = verdict_key x) ?s
        = filter (\<lambda>x. verdict_key k = verdict_key x) xs"
      using sort_key_stable [of verdict_key "verdict_key k" xs] by (simp add: eq_commute)
    have lo: "filter (\<lambda>x. verdict_key x \<le> c \<and> l = verdict_key x) ys
        = (if l \<le> c then filter (\<lambda>x. l = verdict_key x) ys else [])" for l c ys
      by (induction ys) auto
    have hi: "filter (\<lambda>x. c < verdict_key x \<and> l = verdict_key x) ys
        = (if c < l then filter (\<lambda>x. l = verdict_key x) ys else [])" for l c ys
      by (induction ys) auto
    have "verdict_key k \<le> verdict_key t \<longleftrightarrow> \<not> verdict_key t < verdict_key k" by auto
    then show ?thesis
      using stable by (auto simp: insert_rule_def lo hi)
  qed
qed

lemma sort_rules_prefix:
  "n \<le> length a \<Longrightarrow> SkSortRules a n = sort_key verdict_key (take n a) @ drop n a"
proof (induction n)
  case 0
  show ?case by (simp add: SkSortRules_def)
next
  case (Suc n)
  show ?case
  proof (cases "n = 0")
    case True
    with Suc.prems show ?thesis by (cases a) (simp_all add: SkSortRules_def)
  next
    case False
    let ?s = "sort_key verdict_key (take n a)"
    have len: "length ?s = n" using Suc.prems by simp
    have IH: "SkSortRules a n = ?s @ a ! n # drop (Suc n) a"
      using Suc by (simp add: Cons_nth_drop_Suc)
    have "SkSortRules a (Suc n) = sort_shift (SkSortRules a n ! n) n (SkSortRules a n)"
      using False by (simp add: SkSortRules_def)
    also have "\<dots> = sort_shift (a ! n) (length ?s) (?s @ a ! n # drop (Suc n) a)"
      unfolding IH using len by (simp add: nth_append)
    also have "\<dots> = insert_rule (a ! n) ?s @ drop (Suc n) a"
      by (rule sort_shift_insert) simp
    also have "\<dots> = sort_key verdict_key (take n a @ [a ! n]) @ drop (Suc n) a"
      by (simp only: insert_rule_sort_key)
    finally show ?thesis using Suc.prems by (simp add: take_Suc_conv_app_nth)
  qed
qed

lemma sort_rules [simp]: "SkSortRules a (length a) = sort_key verdict_key a"
  by (simp add: sort_rules_prefix)

section \<open>First match\<close>

text \<open>
  Any order given by a key, any list sorted by it and any matching predicate: the first
  match is a match with the least key. The classify scan rests on it.
\<close>

locale first_match =
  fixes key :: "'r \<Rightarrow> 'k::linorder"
    and matches :: "'r \<Rightarrow> 't \<Rightarrow> bool"
    and prec :: "'r \<Rightarrow> 'r \<Rightarrow> bool"
  assumes prec_key: "prec a b \<longleftrightarrow> key a < key b"
begin

lemma find_best:
  assumes "sorted (map key rs)" and "find (\<lambda>r. matches r t) rs = Some h"
  shows "h \<in> set rs \<and> matches h t \<and> (\<forall>r\<in>set rs. matches r t \<longrightarrow> \<not> prec r h)"
  using assms
proof (induction rs)
  case (Cons r rs)
  then show ?case by (cases "matches r t") (auto simp: prec_key not_less)
qed simp

lemma find_none: "find (\<lambda>r. matches r t) rs = None \<longleftrightarrow> (\<forall>r\<in>set rs. \<not> matches r t)"
  by (auto simp: find_None_iff)

text \<open>With distinct keys the first match does not depend on the order of insertion.\<close>

lemma find_unique:
  assumes "sorted (map key rs)" and "inj_on key (set rs)"
    and "h \<in> set rs" and "matches h t"
    and best: "\<And>r. r \<in> set rs \<Longrightarrow> matches r t \<Longrightarrow> \<not> prec r h"
  shows "find (\<lambda>r. matches r t) rs = Some h"
proof (cases "find (\<lambda>r. matches r t) rs")
  case None
  with assms show ?thesis by (auto simp: find_none)
next
  case (Some g)
  from find_best [OF assms(1) this]
  have g: "g \<in> set rs" "matches g t" "\<not> prec h g" using assms(3,4) by auto
  with best [of g] have "key g = key h" by (auto simp: prec_key not_less)
  with assms(2,3) g(1) have "g = h" by (simp add: inj_on_eq_iff)
  with Some show ?thesis by simp
qed

end

interpretation verdict: first_match verdict_key SkRuleMatch SkRulePrecedes
  by unfold_locales (rule precedes_key)

lemma distinct_ids_inj_key:
  "distinct (map r_ruleId rs) \<Longrightarrow> inj_on verdict_key (set rs)"
  by (auto simp: inj_on_def distinct_map dest: key_id)

section \<open>Properties\<close>

text \<open>\<open>SkRulePrecedes\<close> is the documented verdict order, a strict total order on rules with
  different ids: priority first, then action strength BLOCK, RATE_LIMIT, AUDIT, ALLOW, then
  the lower id.\<close>

theorem verdict_order_total:
  assumes "r_ruleId a \<noteq> r_ruleId b"
  shows "SkRulePrecedes a b = (\<not> SkRulePrecedes b a) \<and> \<not> SkRulePrecedes a a \<and>
    (SkRulePrecedes a b \<and> SkRulePrecedes b c \<longrightarrow> SkRulePrecedes a c) \<and>
    (r_priority b < r_priority a \<longrightarrow> SkRulePrecedes a b) \<and>
    (r_priority a = r_priority b \<and> r_action a = SkRuleActionBlock \<and> r_action b \<noteq> SkRuleActionBlock
       \<longrightarrow> SkRulePrecedes a b)"
proof (intro conjI impI)
  have "verdict_key a \<noteq> verdict_key b" using assms key_id by blast
  then show "SkRulePrecedes a b = (\<not> SkRulePrecedes b a)"
    unfolding precedes_key by (rule linorder_less_swap)
  show "\<not> SkRulePrecedes a a" by (simp add: precedes_key)
  show "SkRulePrecedes a c" if "SkRulePrecedes a b \<and> SkRulePrecedes b c"
    using that less_trans unfolding precedes_key by blast
  show "SkRulePrecedes a b" if "r_priority b < r_priority a"
    using that by (auto simp: SkRulePrecedes_def)
  show "SkRulePrecedes a b" if "r_priority a = r_priority b \<and> r_action a = SkRuleActionBlock \<and>
      r_action b \<noteq> SkRuleActionBlock"
    using that by (simp add: SkRulePrecedes_def Let_def SkActionRank_def)
qed

theorem verdict_order_total_witness:
  "SkRulePrecedes (zero_rule\<lparr>r_ruleId := 2, r_action := SkRuleActionBlock\<rparr>)
     (zero_rule\<lparr>r_ruleId := 1, r_action := SkRuleActionRateLimit\<rparr>)"
proof -
  let ?a = "zero_rule\<lparr>r_ruleId := 2, r_action := SkRuleActionBlock\<rparr>"
  let ?b = "zero_rule\<lparr>r_ruleId := 1, r_action := SkRuleActionRateLimit\<rparr>"
  have "r_ruleId ?a \<noteq> r_ruleId ?b" by simp
  moreover have "r_priority ?a = r_priority ?b \<and> r_action ?a = SkRuleActionBlock \<and>
      r_action ?b \<noteq> SkRuleActionBlock" by simp
  ultimately show ?thesis using verdict_order_total [of ?a ?b] by blast
qed

text \<open>C19: the in-place insertion sort is the library's stable sort by the verdict key; it sorts the
  first \<open>n\<close> rules and leaves the rest of the array alone.\<close>

theorem sort_rules_correct:
  assumes "n \<le> length a"
  shows "SkSortRules a n = sort_key verdict_key (take n a) @ drop n a"
  by (rule sort_rules_prefix [OF assms])

theorem sort_rules_correct_witness:
  "map r_ruleId (SkSortRules [zero_rule\<lparr>r_ruleId := 5\<rparr>, zero_rule\<lparr>r_ruleId := 4, r_action := SkRuleActionBlock\<rparr>,
      zero_rule\<lparr>r_ruleId := 3\<rparr>, zero_rule\<lparr>r_ruleId := 9, r_priority := 8\<rparr>] 4) = [9, 4, 3, 5]"
proof -
  let ?a = "[zero_rule\<lparr>r_ruleId := 5\<rparr>, zero_rule\<lparr>r_ruleId := 4, r_action := SkRuleActionBlock\<rparr>,
      zero_rule\<lparr>r_ruleId := 3\<rparr>, zero_rule\<lparr>r_ruleId := 9, r_priority := 8\<rparr>]"
  have "SkSortRules ?a 4 = sort_key verdict_key (take 4 ?a) @ drop 4 ?a"
    by (rule sort_rules_correct) simp
  then show ?thesis
    by (simp add: less_eq_verdict_key_def less_verdict_key_def verdict_key_def SkActionRank_def)
qed

end
