(* ===== verification/RateLimit.thy ===== *)
theory RateLimit
  imports RuleMatch RuntimeState "HOL-Library.Multiset"
begin

text \<open>
  rules/rule_engine.c, first half: the QPC time base and the RATE_LIMIT token buckets, a
  table of 64 slots keyed by rule id. A spin lock makes each operation atomic.

  \<open>KeQueryPerformanceCounter\<close> belongs to the kernel: its readings (\<open>now\<close>, in ticks) and
  the frequency (\<open>freq\<close>) are arguments. An integer division by zero traps; the operations
  that divide return \<open>None\<close> for it.
\<close>

abbreviation SK_RATE_TABLE_SIZE :: nat where
  "SK_RATE_TABLE_SIZE \<equiv> 64"

record rate_entry =
  e_ruleId :: u64
  e_tokens :: u64
  e_lastRefillMs :: u64
  e_inUse :: u32

record engine = runtime +
  g_QpcFreq :: u64
  g_RateTable :: "rate_entry list"
  g_SkRuleStats :: rule_stats

section \<open>Time base\<close>

definition SkQpcFreq :: "u64 \<Rightarrow> 'a engine_scheme \<Rightarrow> u64 \<times> 'a engine_scheme" where
  "SkQpcFreq freq w =
     (let f = g_QpcFreq w in
      if f = 0
      then let f = freq; f = (if f = 0 then 1 else f) in (f, w\<lparr>g_QpcFreq := f\<rparr>)
      else (f, w))"

definition SkQpcMs :: "u64 \<Rightarrow> u64 \<Rightarrow> 'a engine_scheme \<Rightarrow> u64 \<times> 'a engine_scheme" where
  "SkQpcMs freq now w = (let (f, w) = SkQpcFreq freq w in (now * 1000 div f, w))"

definition SkTicksToNs :: "u64 \<Rightarrow> u64 \<Rightarrow> 'a engine_scheme \<Rightarrow> u64 \<times> 'a engine_scheme" where
  "SkTicksToNs freq ticks w = (let (f, w) = SkQpcFreq freq w in (ticks * 1000000000 div f, w))"

lemma qpc_freq_nonzero: "fst (SkQpcFreq freq w) \<noteq> 0"
  by (simp add: SkQpcFreq_def Let_def)

lemma qpc_freq_frame [simp]:
  "g_RateTable (snd (SkQpcFreq freq w)) = g_RateTable w"
  "g_SkRuleStats (snd (SkQpcFreq freq w)) = g_SkRuleStats w"
  "engine.more (snd (SkQpcFreq freq w)) = engine.more w"
  "runtime.truncate (snd (SkQpcFreq freq w)) = runtime.truncate w"
  by (simp_all add: SkQpcFreq_def Let_def runtime.truncate_def)

lemma qpc_ms_world: "SkQpcMs freq ticks w = (now, w1) \<Longrightarrow> w1 = snd (SkQpcFreq freq w)"
  by (simp add: SkQpcMs_def split_beta)

lemma qpc_ms_table: "SkQpcMs freq ticks w = (now, w1) \<Longrightarrow> g_RateTable w1 = g_RateTable w"
  by (drule qpc_ms_world) simp

section \<open>The table\<close>

text \<open>
  The scan of \<open>SkRateAllow\<close>: \<open>i\<close> is the loop index, \<open>slot\<close> the remembered first free
  slot, 64 while there is none.
\<close>

fun rate_scan :: "u64 \<Rightarrow> rate_entry list \<Rightarrow> nat \<Rightarrow> nat \<Rightarrow> nat" where
  "rate_scan rid [] i slot = slot"
| "rate_scan rid (e # es) i slot =
     (if e_inUse e \<noteq> 0 \<and> e_ruleId e = rid then i
      else if e_inUse e = 0 \<and> slot = SK_RATE_TABLE_SIZE then rate_scan rid es (Suc i) i
      else rate_scan rid es (Suc i) slot)"

definition rate_open :: "rule \<Rightarrow> u64 \<Rightarrow> rate_entry \<Rightarrow> rate_entry" where
  "rate_open rule now e =
     (if e_inUse e = 0
      then e\<lparr>e_inUse := 1, e_ruleId := r_ruleId rule, e_tokens := ucast (r_burst rule),
             e_lastRefillMs := now\<rparr>
      else e)"

definition rate_refill :: "rule \<Rightarrow> u64 \<Rightarrow> rate_entry \<Rightarrow> rate_entry option" where
  "rate_refill rule now e =
     (if now > e_lastRefillMs e
      then if r_rateIntervalMs rule = 0 then None
           else
             let intervals = (now - e_lastRefillMs e) div ucast (r_rateIntervalMs rule) in
             if intervals \<noteq> 0
             then let add = intervals * ucast (r_rateTokens rule);
                      e = e\<lparr>e_tokens := (if e_tokens e + add > ucast (r_burst rule)
                                        then ucast (r_burst rule) else e_tokens e + add)\<rparr>
                  in Some (e\<lparr>e_lastRefillMs := e_lastRefillMs e
                            + intervals * ucast (r_rateIntervalMs rule)\<rparr>)
             else Some e
      else Some e)"

definition rate_take :: "rate_entry \<Rightarrow> bool \<times> rate_entry" where
  "rate_take e =
     (if e_tokens e > 0 then (True, e\<lparr>e_tokens := e_tokens e - 1\<rparr>) else (False, e))"

definition rate_entry_step :: "rule \<Rightarrow> u64 \<Rightarrow> rate_entry \<Rightarrow> (bool \<times> rate_entry) option" where
  "rate_entry_step rule now e = map_option rate_take (rate_refill rule now (rate_open rule now e))"

definition SkRateAllow ::
    "u64 \<Rightarrow> u64 \<Rightarrow> rule \<Rightarrow> 'a engine_scheme \<Rightarrow> (bool \<times> 'a engine_scheme) option" where
  "SkRateAllow freq ticks rule w =
     (let (now, w) = SkQpcMs freq ticks w;
          slot = rate_scan (r_ruleId rule) (g_RateTable w) 0 SK_RATE_TABLE_SIZE
      in if slot = SK_RATE_TABLE_SIZE then Some (True, w)
         else case rate_entry_step rule now (g_RateTable w ! slot) of
                None \<Rightarrow> None
              | Some (allowed, e) \<Rightarrow> Some (allowed, w\<lparr>g_RateTable := (g_RateTable w)[slot := e]\<rparr>))"

definition zero_entry :: rate_entry where
  "zero_entry = \<lparr>e_ruleId = 0, e_tokens = 0, e_lastRefillMs = 0, e_inUse = 0\<rparr>"

fun rate_reset :: "u64 \<Rightarrow> rate_entry list \<Rightarrow> rate_entry list" where
  "rate_reset rid [] = []"
| "rate_reset rid (e # es) =
     (if e_inUse e \<noteq> 0 \<and> e_ruleId e = rid
      then e\<lparr>e_inUse := 0, e_ruleId := 0, e_tokens := 0, e_lastRefillMs := 0\<rparr> # es
      else e # rate_reset rid es)"

definition SkRuleRateReset :: "u64 \<Rightarrow> 'a engine_scheme \<Rightarrow> 'a engine_scheme" where
  "SkRuleRateReset ruleId w = w\<lparr>g_RateTable := rate_reset ruleId (g_RateTable w)\<rparr>"

section \<open>Slots\<close>

text \<open>The ids that hold a bucket, and the invariant: 64 slots, one bucket per id.\<close>

definition in_use :: "rate_entry \<Rightarrow> bool" where
  "in_use e \<longleftrightarrow> e_inUse e \<noteq> 0"

lemma zero_entry_free [simp]: "\<not> in_use zero_entry"
  by (simp add: in_use_def zero_entry_def)

definition bucket_ids :: "rate_entry list \<Rightarrow> u64 list" where
  "bucket_ids es = map e_ruleId (filter in_use es)"

definition rate_ok :: "rate_entry list \<Rightarrow> bool" where
  "rate_ok es \<longleftrightarrow> length es = SK_RATE_TABLE_SIZE \<and> distinct (bucket_ids es)"

lemma bucket_ids_simps [simp]:
  "bucket_ids [] = []"
  "bucket_ids (e # es) = (if in_use e then e_ruleId e # bucket_ids es else bucket_ids es)"
  "bucket_ids (xs @ ys) = bucket_ids xs @ bucket_ids ys"
  by (simp_all add: bucket_ids_def)

lemma rate_scan_hit:
  assumes "rid \<in> set (bucket_ids es)"
  shows "\<exists>j<length es. rate_scan rid es i slot = i + j \<and> in_use (es ! j) \<and> e_ruleId (es ! j) = rid"
  using assms
proof (induction es arbitrary: i slot)
  case (Cons e es)
  show ?case
  proof (cases "in_use e \<and> e_ruleId e = rid")
    case True
    then show ?thesis by (auto simp: in_use_def intro!: exI [of _ 0])
  next
    case False
    then have "rid \<in> set (bucket_ids es)" using Cons.prems by (auto split: if_splits)
    from Cons.IH [OF this] have IH: "\<exists>j<length es. rate_scan rid es (Suc i) s = Suc i + j \<and>
        in_use (es ! j) \<and> e_ruleId (es ! j) = rid" for s .
    have "\<exists>s. rate_scan rid (e # es) i slot = rate_scan rid es (Suc i) s"
      using False by (auto simp: in_use_def)
    then obtain s where s: "rate_scan rid (e # es) i slot = rate_scan rid es (Suc i) s" ..
    from IH [of s] obtain j where "j < length es" "rate_scan rid es (Suc i) s = Suc i + j"
      "in_use (es ! j)" "e_ruleId (es ! j) = rid" by blast
    then show ?thesis unfolding s by (intro exI [of _ "Suc j"]) simp
  qed
qed simp

lemma rate_scan_kept:
  "rid \<notin> set (bucket_ids es) \<Longrightarrow> slot \<noteq> SK_RATE_TABLE_SIZE \<Longrightarrow> rate_scan rid es i slot = slot"
  by (induction es arbitrary: i) (auto simp: in_use_def split: if_splits)

lemma rate_scan_free:
  assumes "rid \<notin> set (bucket_ids es)" and "i + length es = SK_RATE_TABLE_SIZE"
  shows "rate_scan rid es i SK_RATE_TABLE_SIZE = SK_RATE_TABLE_SIZE \<and> (\<forall>e\<in>set es. in_use e) \<or>
    (\<exists>j<length es. rate_scan rid es i SK_RATE_TABLE_SIZE = i + j \<and> \<not> in_use (es ! j))"
  using assms
proof (induction es arbitrary: i)
  case (Cons e es)
  show ?case
  proof (cases "in_use e")
    case True
    then have "rid \<notin> set (bucket_ids es)" "e_ruleId e \<noteq> rid" using Cons.prems by auto
    with Cons.IH [of "Suc i"] Cons.prems True show ?thesis
      by (fastforce simp: in_use_def)
  next
    case False
    then have "rate_scan rid (e # es) i SK_RATE_TABLE_SIZE = i"
      using Cons.prems rate_scan_kept [of rid es i "Suc i"] by (auto simp: in_use_def)
    with False show ?thesis by (auto intro!: exI [of _ 0])
  qed
qed simp

text \<open>Storing an in-use entry in a slot: the ids gained and lost.\<close>

lemma bucket_ids_update:
  assumes "j < length es"
  shows "mset (bucket_ids (es[j := e])) + (if in_use (es ! j) then {#e_ruleId (es ! j)#} else {#})
    = mset (bucket_ids es) + (if in_use e then {#e_ruleId e#} else {#})"
  using assms
proof (induction es arbitrary: j)
  case (Cons a es)
  show ?case
  proof (cases j)
    case 0
    then show ?thesis by simp
  next
    case (Suc k)
    with Cons.IH [of k] Cons.prems show ?thesis
      by (cases "in_use a"; cases "in_use e"; cases "in_use (es ! k)") auto
  qed
qed simp

lemma bucket_index_unique:
  assumes "distinct (bucket_ids es)" and "i < length es" and "j < length es"
    and "in_use (es ! i)" and "in_use (es ! j)" and "e_ruleId (es ! i) = e_ruleId (es ! j)"
  shows "i = j"
  using assms
proof (induction es arbitrary: i j)
  case (Cons e es)
  have mem: "e_ruleId (es ! k) \<in> set (bucket_ids es)" if "k < length es" "in_use (es ! k)" for k
    using that by (auto simp: bucket_ids_def)
  have new: "e_ruleId (es ! k) \<noteq> e_ruleId e"
    if "e_ruleId e \<notin> set (bucket_ids es)" "k < length es" "in_use (es ! k)" for k
    using mem [OF that(2,3)] that(1) by metis
  show ?case
    using Cons.prems Cons.IH new new [symmetric]
    by (cases i; cases j) (auto split: if_splits)
qed simp

definition rate_bucket :: "u64 \<Rightarrow> rate_entry list \<Rightarrow> rate_entry option" where
  "rate_bucket rid es = find (\<lambda>e. in_use e \<and> e_ruleId e = rid) es"

lemma bucket_at:
  assumes "rate_ok es" and "j < length es" and "in_use (es ! j)" and "e_ruleId (es ! j) = rid"
  shows "rate_bucket rid es = Some (es ! j)"
proof -
  have "\<exists>i<length es. rate_bucket rid es = Some (es ! i) \<and> in_use (es ! i) \<and> e_ruleId (es ! i) = rid"
  proof (cases "rate_bucket rid es")
    case None
    with assms show ?thesis by (auto simp: rate_bucket_def find_None_iff)
  next
    case (Some e)
    then show ?thesis by (auto simp: rate_bucket_def find_Some_iff)
  qed
  then show ?thesis
    using assms bucket_index_unique [of es] by (auto simp: rate_ok_def)
qed

lemma bucket_in_ids: "rate_bucket rid es \<noteq> None \<longleftrightarrow> rid \<in> set (bucket_ids es)"
  by (auto simp: rate_bucket_def find_None_iff bucket_ids_def)

lemma bucket_update_other:
  assumes "\<not> (in_use (es ! j) \<and> e_ruleId (es ! j) = rid)" and "\<not> (in_use e \<and> e_ruleId e = rid)"
  shows "rate_bucket rid (es[j := e]) = rate_bucket rid es"
  using assms
proof (induction es arbitrary: j)
  case (Cons a es)
  then show ?case by (cases j) (auto simp: rate_bucket_def)
qed simp

lemma rate_ok_update:
  assumes "rate_ok es" and "j < length es" and "in_use e"
    and "in_use (es ! j) \<Longrightarrow> e_ruleId (es ! j) = e_ruleId e"
    and "\<not> in_use (es ! j) \<Longrightarrow> e_ruleId e \<notin> set (bucket_ids es)"
  shows "rate_ok (es[j := e]) \<and> set (bucket_ids (es[j := e])) = insert (e_ruleId e) (set (bucket_ids es))"
proof -
  have upd: "mset (bucket_ids (es[j := e])) + (if in_use (es ! j) then {#e_ruleId (es ! j)#} else {#})
      = mset (bucket_ids es) + {#e_ruleId e#}"
    using bucket_ids_update [OF assms(2), of e] assms(3) by simp
  have mem: "in_use (es ! j) \<Longrightarrow> e_ruleId (es ! j) \<in> set (bucket_ids es)"
    using assms(2) by (auto simp: bucket_ids_def)
  show ?thesis
  proof (cases "in_use (es ! j)")
    case True
    then have eq: "mset (bucket_ids (es[j := e])) = mset (bucket_ids es)"
      using upd assms(4) by simp
    then have "set (bucket_ids (es[j := e])) = set (bucket_ids es)" by (rule mset_eq_setD)
    moreover have "distinct (bucket_ids (es[j := e]))"
      using mset_eq_imp_distinct_iff [OF eq] assms(1) by (simp add: rate_ok_def)
    moreover have "e_ruleId e \<in> set (bucket_ids es)" using mem [OF True] assms(4) [OF True] by simp
    ultimately show ?thesis using assms(1) by (simp add: rate_ok_def insert_absorb)
  next
    case False
    then have eq: "mset (bucket_ids (es[j := e])) = mset (e_ruleId e # bucket_ids es)"
      using upd by simp
    then have "set (bucket_ids (es[j := e])) = insert (e_ruleId e) (set (bucket_ids es))"
      using mset_eq_setD [OF eq] by simp
    moreover have "distinct (bucket_ids (es[j := e]))"
      using eq assms(1) assms(5) [OF False] mset_eq_imp_distinct_iff [OF eq]
      by (simp add: rate_ok_def)
    ultimately show ?thesis using assms(1) by (simp add: rate_ok_def)
  qed
qed

section \<open>Reset\<close>

lemma reset_ids: "distinct (bucket_ids es) \<Longrightarrow>
    bucket_ids (rate_reset rid es) = removeAll rid (bucket_ids es)"
proof (induction es)
  case (Cons e es)
  show ?case
  proof (cases "in_use e \<and> e_ruleId e = rid")
    case True
    with Cons.prems show ?thesis by (auto simp: in_use_def)
  next
    case False
    with Cons show ?thesis by (auto simp: in_use_def)
  qed
qed simp

lemma reset_length [simp]: "length (rate_reset rid es) = length es"
  by (induction es) auto

lemma reset_ok:
  "rate_ok es \<Longrightarrow> rate_ok (rate_reset rid es) \<and>
   set (bucket_ids (rate_reset rid es)) = set (bucket_ids es) - {rid}"
  by (auto simp: rate_ok_def reset_ids distinct_removeAll)

lemma reset_bucket:
  assumes "rid' \<noteq> rid"
  shows "rate_bucket rid' (rate_reset rid es) = rate_bucket rid' es"
  using assms by (induction es) (auto simp: rate_bucket_def in_use_def)

text \<open>The law of a reset that the rule store relies on, and what a sequence of resets does.\<close>

locale bucket_table =
  fixes ok :: "'w \<Rightarrow> bool"
    and buckets :: "'w \<Rightarrow> 'k set"
    and reset :: "'k \<Rightarrow> 'w \<Rightarrow> 'w"
  assumes reset_keeps: "ok w \<Longrightarrow> ok (reset k w)"
    and reset_buckets: "ok w \<Longrightarrow> buckets (reset k w) = buckets w - {k}"
begin

lemma reset_where:
  "ok w \<Longrightarrow> ok (foldl (\<lambda>w k. if P k then reset k w else w) w ks) \<and>
   buckets (foldl (\<lambda>w k. if P k then reset k w else w) w ks) = buckets w - {k \<in> set ks. P k}"
proof (induction ks arbitrary: w)
  case (Cons k ks)
  show ?case
  proof (cases "P k")
    case True
    with Cons.IH [of "reset k w"] Cons.prems show ?thesis
      by (auto simp: reset_keeps reset_buckets)
  next
    case False
    with Cons.IH [of w] Cons.prems show ?thesis by auto
  qed
qed simp

end

interpretation rate: bucket_table "\<lambda>w. rate_ok (g_RateTable w)"
    "\<lambda>w. set (bucket_ids (g_RateTable w))" SkRuleRateReset
  by unfold_locales (use reset_ok in \<open>simp_all add: SkRuleRateReset_def\<close>)

lemma reset_where_frame:
  "\<exists>es. foldl (\<lambda>w k. if P k then SkRuleRateReset k w else w) w ks = w\<lparr>g_RateTable := es\<rparr>"
proof (induction ks arbitrary: w)
  case Nil
  show ?case by (intro exI [of _ "g_RateTable w"]) simp
next
  case (Cons k ks)
  have "\<exists>es. (if P k then SkRuleRateReset k w else w) = w\<lparr>g_RateTable := es\<rparr>"
  proof (cases "P k")
    case True
    then show ?thesis by (auto simp: SkRuleRateReset_def)
  next
    case False
    then show ?thesis by (intro exI [of _ "g_RateTable w"]) simp
  qed
  then obtain es where es: "(if P k then SkRuleRateReset k w else w) = w\<lparr>g_RateTable := es\<rparr>" ..
  from Cons.IH [of "w\<lparr>g_RateTable := es\<rparr>"] obtain es' where
    "foldl (\<lambda>w k. if P k then SkRuleRateReset k w else w) (w\<lparr>g_RateTable := es\<rparr>) ks
      = w\<lparr>g_RateTable := es, g_RateTable := es'\<rparr>" ..
  then show ?case by (intro exI [of _ es']) (simp only: foldl_Cons es, simp)
qed

section \<open>One call\<close>

lemma unat_ucast_u32: "unat (ucast (x :: u32) :: u64) = unat x"
proof -
  have "unat x < 2 ^ 64" using unsigned_less [where 'a = nat, of x] by simp
  then show ?thesis by (simp add: unsigned_ucast_eq take_bit_nat_eq_self)
qed

lemma ucast_u32_pos: "0 < (ucast (x :: u32) :: u64) \<longleftrightarrow> 0 < x"
  by (simp add: word_less_nat_alt unat_ucast_u32)

lemma open_in_use: "in_use (rate_open rule now e)"
  by (simp add: rate_open_def in_use_def)

lemma refill_id:
  "rate_refill rule now e = Some e' \<Longrightarrow> e_ruleId e' = e_ruleId e \<and> e_inUse e' = e_inUse e"
  by (auto simp: rate_refill_def Let_def split: if_splits)

lemma take_id: "rate_take e = (a, e') \<Longrightarrow> e_ruleId e' = e_ruleId e \<and> e_inUse e' = e_inUse e"
  by (auto simp: rate_take_def split: if_splits)

lemma entry_step_id:
  assumes "rate_entry_step rule now e = Some (a, e')"
  shows "in_use e' \<and> e_ruleId e' = (if in_use e then e_ruleId e else r_ruleId rule)"
  using assms open_in_use [of rule now e]
  by (auto simp: rate_entry_step_def rate_open_def in_use_def dest!: refill_id take_id)

text \<open>The three outcomes of a call: an existing bucket, a new one, a full table.\<close>

lemma allow_existing:
  assumes ok: "rate_ok (g_RateTable w)" and e: "rate_bucket (r_ruleId rule) (g_RateTable w) = Some e"
    and now: "SkQpcMs freq ticks w = (now, w1)"
    and step: "rate_entry_step rule now e = Some (a, e')"
  shows "\<exists>es'. SkRateAllow freq ticks rule w = Some (a, w1\<lparr>g_RateTable := es'\<rparr>) \<and> rate_ok es' \<and>
    rate_bucket (r_ruleId rule) es' = Some e' \<and> set (bucket_ids es') = set (bucket_ids (g_RateTable w)) \<and>
    (\<forall>rid. rid \<noteq> r_ruleId rule \<longrightarrow> rate_bucket rid es' = rate_bucket rid (g_RateTable w))"
proof -
  let ?es = "g_RateTable w"
  have w1: "g_RateTable w1 = ?es"
    using now by (rule qpc_ms_table)
  have "r_ruleId rule \<in> set (bucket_ids ?es)" using e bucket_in_ids by force
  from rate_scan_hit [OF this, of 0 SK_RATE_TABLE_SIZE] obtain j
    where j: "j < length ?es" "rate_scan (r_ruleId rule) ?es 0 SK_RATE_TABLE_SIZE = j"
      "in_use (?es ! j)" "e_ruleId (?es ! j) = r_ruleId rule" by auto
  from bucket_at [OF ok j(1,3,4)] e have ej: "?es ! j = e" by simp
  have e': "in_use e'" "e_ruleId e' = r_ruleId rule"
    using entry_step_id [OF step] j(3,4) ej by auto
  have "j \<noteq> SK_RATE_TABLE_SIZE" using j(1) ok by (simp add: rate_ok_def)
  then have "SkRateAllow freq ticks rule w = Some (a, w1\<lparr>g_RateTable := ?es[j := e']\<rparr>)"
    by (simp add: SkRateAllow_def now w1 j(2) ej step)
  moreover have upd: "rate_ok (?es[j := e'])"
    "set (bucket_ids (?es[j := e'])) = insert (e_ruleId e') (set (bucket_ids ?es))"
    using rate_ok_update [OF ok j(1) e'(1)] j(3,4) e'(2) by auto
  moreover have "rate_bucket (r_ruleId rule) (?es[j := e']) = Some e'"
    using bucket_at [OF upd(1), of j "r_ruleId rule"] j(1) e' by simp
  moreover have "rate_bucket rid (?es[j := e']) = rate_bucket rid ?es" if "rid \<noteq> r_ruleId rule" for rid
    using that j(4) e'(2) by (intro bucket_update_other) auto
  ultimately show ?thesis
    using e'(2) e bucket_in_ids [of "r_ruleId rule" ?es] by auto
qed

lemma allow_new:
  assumes ok: "rate_ok (g_RateTable w)" and none: "rate_bucket (r_ruleId rule) (g_RateTable w) = None"
    and now: "SkQpcMs freq ticks w = (now, w1)"
  shows "SkRateAllow freq ticks rule w = Some (True, w1) \<and> (\<forall>e\<in>set (g_RateTable w). in_use e) \<or>
    (\<exists>es' e'. rate_entry_step rule now (rate_open rule now zero_entry) = Some (0 < r_burst rule, e') \<and>
       SkRateAllow freq ticks rule w = Some (0 < r_burst rule, w1\<lparr>g_RateTable := es'\<rparr>) \<and> rate_ok es' \<and>
       rate_bucket (r_ruleId rule) es' = Some e' \<and>
       set (bucket_ids es') = insert (r_ruleId rule) (set (bucket_ids (g_RateTable w))) \<and>
       (\<forall>rid. rid \<noteq> r_ruleId rule \<longrightarrow> rate_bucket rid es' = rate_bucket rid (g_RateTable w)))"
proof -
  let ?es = "g_RateTable w"
  have w1: "g_RateTable w1 = ?es"
    using now by (rule qpc_ms_table)
  have notin: "r_ruleId rule \<notin> set (bucket_ids ?es)" using none bucket_in_ids by force
  have "0 + length ?es = SK_RATE_TABLE_SIZE" using ok by (simp add: rate_ok_def)
  from rate_scan_free [OF notin this] consider
      (full) "rate_scan (r_ruleId rule) ?es 0 SK_RATE_TABLE_SIZE = SK_RATE_TABLE_SIZE" "\<forall>e\<in>set ?es. in_use e"
    | (free) j where "j < length ?es" "rate_scan (r_ruleId rule) ?es 0 SK_RATE_TABLE_SIZE = j"
        "\<not> in_use (?es ! j)" by auto
  then show ?thesis
  proof cases
    case full
    then show ?thesis by (simp add: SkRateAllow_def now w1)
  next
    case free
    let ?e0 = "rate_open rule now (?es ! j)"
    have "?e0 = rate_open rule now zero_entry"
      using free(3) by (simp add: rate_open_def in_use_def zero_entry_def)
    moreover have "rate_open rule now ?e0 = ?e0" by (simp add: rate_open_def)
    moreover have refill: "rate_refill rule now ?e0 = Some ?e0"
      using free(3) by (simp add: rate_open_def in_use_def rate_refill_def)
    moreover obtain e' where e': "rate_take ?e0 = (0 < r_burst rule, e')"
    proof -
      have "0 < e_tokens ?e0 \<longleftrightarrow> 0 < r_burst rule"
        using free(3) by (simp add: rate_open_def in_use_def ucast_u32_pos)
      then show ?thesis using that by (auto simp: rate_take_def split: if_splits)
    qed
    ultimately have step: "rate_entry_step rule now (?es ! j) = Some (0 < r_burst rule, e')"
      and step0: "rate_entry_step rule now (rate_open rule now zero_entry) = Some (0 < r_burst rule, e')"
      by (simp_all add: rate_entry_step_def)
    have id': "in_use e'" "e_ruleId e' = r_ruleId rule"
      using entry_step_id [OF step] free(3) by auto
    have "j \<noteq> SK_RATE_TABLE_SIZE" using free(1) ok by (simp add: rate_ok_def)
    then have "SkRateAllow freq ticks rule w = Some (0 < r_burst rule, w1\<lparr>g_RateTable := ?es[j := e']\<rparr>)"
      by (simp add: SkRateAllow_def now w1 free(2) step)
    moreover have upd: "rate_ok (?es[j := e'])"
      "set (bucket_ids (?es[j := e'])) = insert (r_ruleId rule) (set (bucket_ids ?es))"
      using rate_ok_update [OF ok free(1) id'(1)] free(3) id'(2) notin by auto
    moreover have "rate_bucket (r_ruleId rule) (?es[j := e']) = Some e'"
      using bucket_at [OF upd(1), of j "r_ruleId rule"] free(1) id' by simp
    moreover have "rate_bucket rid (?es[j := e']) = rate_bucket rid ?es" if "rid \<noteq> r_ruleId rule" for rid
      using that free(3) id'(2) by (intro bucket_update_other) auto
    ultimately show ?thesis using step0 by blast
  qed
qed

section \<open>Token bound\<close>

text \<open>
  The refill in natural numbers, when the multiplication does not wrap: the number of
  whole intervals since the last refill, capped tokens, and a refill time on the grid.
\<close>

definition refill_count :: "rule \<Rightarrow> u64 \<Rightarrow> rate_entry \<Rightarrow> nat" where
  "refill_count rule now e = (unat now - unat (e_lastRefillMs e)) div unat (r_rateIntervalMs rule)"

lemma refill_total:
  "r_rateIntervalMs rule \<noteq> 0 \<Longrightarrow> \<exists>e'. rate_refill rule now e = Some e'"
  by (simp add: rate_refill_def Let_def)

lemma unat_mult_u64: "unat ((a :: u64) * b) = unat a * unat b mod 2 ^ LENGTH(64)"
  by (simp only: unat_word_ariths)

lemma refill_nat:
  assumes iv: "r_rateIntervalMs rule \<noteq> 0"
    and cap: "unat (e_tokens e) \<le> unat (r_burst rule)"
    and wrap: "unat now * unat (r_rateTokens rule) + unat (r_burst rule) < 2 ^ 64"
  shows "\<exists>e'. rate_refill rule now e = Some e' \<and>
    unat (e_tokens e') = min (unat (r_burst rule))
      (unat (e_tokens e) + refill_count rule now e * unat (r_rateTokens rule)) \<and>
    unat (e_lastRefillMs e') = unat (e_lastRefillMs e)
      + refill_count rule now e * unat (r_rateIntervalMs rule)"
proof (cases "now > e_lastRefillMs e")
  case False
  then have "refill_count rule now e = 0"
    by (simp add: refill_count_def word_less_nat_alt)
  with False cap show ?thesis by (simp add: rate_refill_def)
next
  case True
  let ?k = "refill_count rule now e"
  let ?iv = "(now - e_lastRefillMs e) div ucast (r_rateIntervalMs rule)"
  have k: "unat ?iv = ?k"
    using True by (simp add: refill_count_def unat_div unat_sub unat_ucast_u32 less_imp_le)
  have kle: "?k * unat (r_rateIntervalMs rule) \<le> unat now - unat (e_lastRefillMs e)"
    by (simp add: refill_count_def div_times_less_eq_dividend)
  have "?k \<le> unat now"
    unfolding refill_count_def by (meson diff_le_self div_le_dividend order_trans)
  then have kr: "?k * unat (r_rateTokens rule) \<le> unat now * unat (r_rateTokens rule)"
    by (rule mult_le_mono1)
  have add: "unat (?iv * ucast (r_rateTokens rule)) = ?k * unat (r_rateTokens rule)"
  proof -
    have "unat (?iv * ucast (r_rateTokens rule))
        = ?k * unat (r_rateTokens rule) mod 2 ^ LENGTH(64)"
      by (simp only: unat_mult_u64 k unat_ucast_u32)
    moreover have "?k * unat (r_rateTokens rule) < 2 ^ 64"
      using kr wrap by linarith
    ultimately show ?thesis by simp
  qed
  have sum: "unat (e_tokens e + ?iv * ucast (r_rateTokens rule))
      = unat (e_tokens e) + ?k * unat (r_rateTokens rule)"
  proof -
    have "unat (e_tokens e) + ?k * unat (r_rateTokens rule) < 2 ^ 64"
      using kr wrap cap by linarith
    then show ?thesis by (subst unat_word_ariths) (simp add: add)
  qed
  have last: "unat (e_lastRefillMs e + ?iv * ucast (r_rateIntervalMs rule))
      = unat (e_lastRefillMs e) + ?k * unat (r_rateIntervalMs rule)"
  proof -
    have "unat (e_lastRefillMs e) + ?k * unat (r_rateIntervalMs rule) \<le> unat now"
      using kle True by (simp add: word_less_nat_alt)
    moreover have "unat now < 2 ^ 64" using unsigned_less [where 'a = nat, of now] by simp
    ultimately have fits: "unat (e_lastRefillMs e) + ?k * unat (r_rateIntervalMs rule) < 2 ^ 64"
      by linarith
    then have "?k * unat (r_rateIntervalMs rule) < 2 ^ 64" by linarith
    then have "unat (?iv * ucast (r_rateIntervalMs rule)) = ?k * unat (r_rateIntervalMs rule)"
      unfolding unat_mult_u64 k unat_ucast_u32 by simp
    with fits show ?thesis by (subst unat_word_ariths) simp
  qed
  show ?thesis
  proof (cases "?iv = 0")
    case True
    then have "?k = 0" using k by simp
    with True \<open>now > e_lastRefillMs e\<close> iv cap show ?thesis by (simp add: rate_refill_def Let_def)
  next
    case False
    with \<open>now > e_lastRefillMs e\<close> iv show ?thesis
      by (simp add: rate_refill_def Let_def sum last word_less_nat_alt unat_ucast_u32 min_def)
  qed
qed

lemma take_nat:
  "rate_take e = (a, e') \<Longrightarrow> unat (e_tokens e') + (if a then 1 else 0) = unat (e_tokens e) \<and>
   e_lastRefillMs e' = e_lastRefillMs e"
proof -
  assume take: "rate_take e = (a, e')"
  show ?thesis
  proof (cases "e_tokens e > 0")
    case True
    then have "unat (e_tokens e - 1) = unat (e_tokens e) - 1" "0 < unat (e_tokens e)"
      by (simp_all add: unat_sub word_le_nat_alt word_less_nat_alt)
    with True take show ?thesis by (auto simp: rate_take_def)
  next
    case False
    with take show ?thesis by (auto simp: rate_take_def)
  qed
qed

text \<open>What one call does to the allowance left until the horizon \<open>N\<close>.\<close>

definition allowance :: "rule \<Rightarrow> nat \<Rightarrow> rate_entry \<Rightarrow> nat" where
  "allowance rule N e = unat (e_tokens e) +
     unat (r_rateTokens rule) * ((N - unat (e_lastRefillMs e)) div unat (r_rateIntervalMs rule))"

definition entry_ok :: "rule \<Rightarrow> nat \<Rightarrow> rate_entry \<Rightarrow> bool" where
  "entry_ok rule N e \<longleftrightarrow> in_use e \<and> unat (e_tokens e) \<le> unat (r_burst rule) \<and>
     unat (e_lastRefillMs e) \<le> N"

lemma entry_step_allowance:
  assumes iv: "r_rateIntervalMs rule \<noteq> 0"
    and e: "entry_ok rule N e" and now: "unat now \<le> N"
    and wrap: "N * unat (r_rateTokens rule) + unat (r_burst rule) < 2 ^ 64"
  shows "\<exists>a e'. rate_entry_step rule now e = Some (a, e') \<and> entry_ok rule N e' \<and>
    allowance rule N e' + (if a then 1 else 0) \<le> allowance rule N e"
proof -
  let ?k = "refill_count rule now e" and ?I = "unat (r_rateIntervalMs rule)"
    and ?R = "unat (r_rateTokens rule)" and ?L = "unat (e_lastRefillMs e)"
  have I: "0 < ?I" using iv by (simp add: unat_gt_0)
  have "unat now * ?R + unat (r_burst rule) < 2 ^ 64"
    using mult_le_mono1 [OF now, of ?R] wrap by linarith
  from refill_nat [OF iv _ this, of e] e obtain e1 where e1: "rate_refill rule now e = Some e1"
    "unat (e_tokens e1) = min (unat (r_burst rule)) (unat (e_tokens e) + ?k * ?R)"
    "unat (e_lastRefillMs e1) = ?L + ?k * ?I"
    by (auto simp: entry_ok_def)
  obtain a e' where t: "rate_take e1 = (a, e')" by (cases "rate_take e1")
  have open_id: "rate_open rule now e = e" using e by (simp add: rate_open_def entry_ok_def in_use_def)
  have step: "rate_entry_step rule now e = Some (a, e')"
    by (simp add: rate_entry_step_def open_id e1 t)
  have "?k * ?I \<le> unat now - ?L"
    by (simp add: refill_count_def div_times_less_eq_dividend)
  then have kN: "?k * ?I \<le> N - ?L" and LN: "?L + ?k * ?I \<le> N"
    using now e by (auto simp: entry_ok_def)
  have ks: "(N - (?L + ?k * ?I)) div ?I + ?k = (N - ?L) div ?I"
  proof -
    have "N - ?L = N - (?L + ?k * ?I) + ?k * ?I" using kN LN by linarith
    then have "(N - ?L) div ?I = (N - (?L + ?k * ?I) + ?k * ?I) div ?I"
      by (rule arg_cong [where f = "\<lambda>x. x div ?I"])
    also have "\<dots> = (N - (?L + ?k * ?I)) div ?I + ?k" using I by simp
    finally show ?thesis by simp
  qed
  have "?R * ((N - (?L + ?k * ?I)) div ?I) + ?k * ?R = ?R * ((N - ?L) div ?I)"
    unfolding ks [symmetric] by (simp add: algebra_simps)
  moreover have "unat (e_tokens e') + (if a then 1 else 0) \<le> unat (e_tokens e) + ?k * ?R"
    using take_nat [OF t] e1(2) by simp
  ultimately have "allowance rule N e' + (if a then 1 else 0) \<le> allowance rule N e"
    using take_nat [OF t] e1(3) by (simp add: allowance_def)
  moreover have "entry_ok rule N e'"
    using take_nat [OF t] e1(2,3) LN entry_step_id [OF step] by (auto simp: entry_ok_def)
  ultimately show ?thesis using step by blast
qed

section \<open>Runs\<close>

text \<open>
  A sequence of calls, each with its rule and clock reading; the result counts the calls
  for \<open>rid\<close> that were permitted, \<open>None\<close> is a trap.
\<close>

fun rate_run :: "u64 \<Rightarrow> u64 \<Rightarrow> (rule \<times> u64) list \<Rightarrow> 'a engine_scheme \<Rightarrow> (nat \<times> 'a engine_scheme) option" where
  "rate_run freq rid [] w = Some (0, w)"
| "rate_run freq rid ((r, t) # cs) w =
     (case SkRateAllow freq t r w of
        None \<Rightarrow> None
      | Some (a, w') \<Rightarrow>
          map_option (\<lambda>(n, w''). ((if a \<and> r_ruleId r = rid then 1 else 0) + n, w''))
            (rate_run freq rid cs w'))"

definition clock_ms :: "u64 \<Rightarrow> 'a engine_scheme \<Rightarrow> u64 \<Rightarrow> u64" where
  "clock_ms freq w t = t * 1000 div fst (SkQpcFreq freq w)"

lemma qpc_ms_clock: "SkQpcMs freq t w = (clock_ms freq w t, snd (SkQpcFreq freq w))"
  by (simp add: SkQpcMs_def clock_ms_def split_beta)

lemma clock_stable:
  "clock_ms freq (snd (SkQpcFreq freq w)) = clock_ms freq w"
  "clock_ms freq (w\<lparr>g_RateTable := es\<rparr>) = clock_ms freq w"
  by (auto simp: clock_ms_def SkQpcFreq_def Let_def)

text \<open>Every call with a nonzero interval returns, and touches the bucket of its own id only.\<close>

lemma allow_total:
  assumes ok: "rate_ok (g_RateTable w)" and iv: "r_rateIntervalMs rule \<noteq> 0"
  shows "\<exists>a w'. SkRateAllow freq t rule w = Some (a, w') \<and> rate_ok (g_RateTable w') \<and>
    clock_ms freq w' = clock_ms freq w \<and>
    set (bucket_ids (g_RateTable w')) \<subseteq> insert (r_ruleId rule) (set (bucket_ids (g_RateTable w))) \<and>
    (\<forall>rid. rid \<noteq> r_ruleId rule \<longrightarrow> rate_bucket rid (g_RateTable w') = rate_bucket rid (g_RateTable w)) \<and>
    (\<forall>e. rate_bucket (r_ruleId rule) (g_RateTable w) = Some e \<longrightarrow>
       (\<exists>e'. rate_entry_step rule (clock_ms freq w t) e = Some (a, e') \<and>
          rate_bucket (r_ruleId rule) (g_RateTable w') = Some e'))"
proof (cases "rate_bucket (r_ruleId rule) (g_RateTable w)")
  case None
  from allow_new [OF ok None qpc_ms_clock, of freq t] None show ?thesis
    by (auto simp: clock_stable ok)
next
  case (Some e)
  from refill_total [OF iv] obtain e1
    where e1: "rate_refill rule (clock_ms freq w t) (rate_open rule (clock_ms freq w t) e) = Some e1" ..
  obtain a e' where "rate_take e1 = (a, e')" by (cases "rate_take e1")
  with e1 have step: "rate_entry_step rule (clock_ms freq w t) e = Some (a, e')"
    by (simp add: rate_entry_step_def)
  from allow_existing [OF ok Some qpc_ms_clock step] Some step show ?thesis
    by (auto simp: clock_stable)
qed

lemma rate_run_bound:
  assumes "rate_ok (g_RateTable w)" and "rate_bucket (r_ruleId rule) (g_RateTable w) = Some e"
    and "entry_ok rule N e"
    and "N * unat (r_rateTokens rule) + unat (r_burst rule) < 2 ^ 64"
    and "r_rateIntervalMs rule \<noteq> 0"
    and "\<forall>(r, t) \<in> set cs. r_rateIntervalMs r \<noteq> 0 \<and> unat (clock_ms freq w t) \<le> N \<and>
      (r_ruleId r = r_ruleId rule \<longrightarrow> r = rule)"
  shows "\<exists>n w'. rate_run freq (r_ruleId rule) cs w = Some (n, w') \<and> n \<le> allowance rule N e"
  using assms
proof (induction cs arbitrary: w e)
  case (Cons c cs)
  obtain r t where c: "c = (r, t)" by (cases c)
  have r: "r_rateIntervalMs r \<noteq> 0" "unat (clock_ms freq w t) \<le> N"
    "r_ruleId r = r_ruleId rule \<Longrightarrow> r = rule"
    using Cons.prems(6) by (auto simp: c)
  from allow_total [OF Cons.prems(1) r(1), of freq t] obtain a w1
    where w1: "SkRateAllow freq t r w = Some (a, w1)" "rate_ok (g_RateTable w1)"
      "clock_ms freq w1 = clock_ms freq w"
      "\<And>rid. rid \<noteq> r_ruleId r \<Longrightarrow> rate_bucket rid (g_RateTable w1) = rate_bucket rid (g_RateTable w)"
      "\<And>e. rate_bucket (r_ruleId r) (g_RateTable w) = Some e \<Longrightarrow>
        \<exists>e'. rate_entry_step r (clock_ms freq w t) e = Some (a, e') \<and>
          rate_bucket (r_ruleId r) (g_RateTable w1) = Some e'"
    by blast
  have rest: "\<forall>(r, t) \<in> set cs. r_rateIntervalMs r \<noteq> 0 \<and> unat (clock_ms freq w1 t) \<le> N \<and>
      (r_ruleId r = r_ruleId rule \<longrightarrow> r = rule)"
    using Cons.prems(6) by (simp add: w1(3))
  show ?case
  proof (cases "r_ruleId r = r_ruleId rule")
    case False
    then have "rate_bucket (r_ruleId rule) (g_RateTable w1) = Some e"
      using w1(4) Cons.prems(2) by simp
    from Cons.IH [OF w1(2) this Cons.prems(3,4,5) rest] False show ?thesis
      by (auto simp: c w1(1))
  next
    case True
    then have eq: "r = rule" by (rule r(3))
    from entry_step_allowance [OF Cons.prems(5,3) r(2) Cons.prems(4)] obtain a' e'
      where e': "rate_entry_step rule (clock_ms freq w t) e = Some (a', e')" "entry_ok rule N e'"
        "allowance rule N e' + (if a' then 1 else 0) \<le> allowance rule N e" by blast
    from w1(5) [of e] Cons.prems(2) e'(1) eq
    have a: "a' = a" and b: "rate_bucket (r_ruleId rule) (g_RateTable w1) = Some e'" by auto
    from Cons.IH [OF w1(2) b e'(2) Cons.prems(4,5) rest] obtain n w'
      where "rate_run freq (r_ruleId rule) cs w1 = Some (n, w')" "n \<le> allowance rule N e'" by blast
    with e'(3) True a show ?thesis by (auto simp: c w1(1))
  qed
qed simp

text \<open>A fresh bucket: the first call for a rule id that has no slot yet.\<close>

lemma fresh_step:
  assumes iv: "r_rateIntervalMs rule \<noteq> 0" and now: "unat now \<le> N"
    and wrap: "N * unat (r_rateTokens rule) + unat (r_burst rule) < 2 ^ 64"
  shows "\<exists>a e'. rate_entry_step rule now (rate_open rule now zero_entry) = Some (a, e') \<and>
    entry_ok rule N e' \<and> allowance rule N e' + (if a then 1 else 0) \<le>
      unat (r_burst rule) + unat (r_rateTokens rule) * ((N - unat now) div unat (r_rateIntervalMs rule))"
proof -
  let ?e = "rate_open rule now zero_entry"
  have "entry_ok rule N ?e"
    using now by (simp add: entry_ok_def rate_open_def zero_entry_def in_use_def unat_ucast_u32)
  from entry_step_allowance [OF iv this now wrap] show ?thesis
    by (simp add: allowance_def rate_open_def zero_entry_def unat_ucast_u32)
qed

text \<open>The image's initial data: everything zero.\<close>

definition zero_stats :: rule_stats where
  "zero_stats = \<lparr>classifyCalls = 0, verdictPermit = 0, verdictBlock = 0, verdictAudit = 0,
     rateLimited = 0, ruleHits = 0, defaultHits = 0, matchNsTotal = 0, matchNsMax = 0,
     matchNsSamples = 0\<rparr>"

definition image_engine :: engine where
  "image_engine = \<lparr>g_State = ShinkenUninitialized, g_BlockReason = ShinkenBlockNone,
     g_BlockHistory = replicate 16 ShinkenBlockNone, g_BlockHistoryCount = 0,
     g_InjectionRundown = zero_rundown, g_HandlesOpen = 0, ShRundownBfe = zero_rundown,
     ShRundownWorkItem = zero_rundown, g_QpcFreq = 0,
     g_RateTable = replicate SK_RATE_TABLE_SIZE zero_entry, g_SkRuleStats = zero_stats\<rparr>"

lemma zero_table_ok: "rate_ok (replicate SK_RATE_TABLE_SIZE zero_entry)"
proof -
  have "bucket_ids (replicate n zero_entry) = []" for n
    by (induction n) (simp_all add: zero_entry_def in_use_def)
  then show ?thesis by (simp add: rate_ok_def)
qed

lemma image_table [simp]: "g_RateTable image_engine = replicate SK_RATE_TABLE_SIZE zero_entry"
  by (simp add: image_engine_def)

lemma zero_bucket: "rate_bucket rid (replicate n zero_entry) = None"
  by (induction n) (simp_all add: rate_bucket_def zero_entry_def in_use_def)

section \<open>Properties\<close>



text \<open>For a validated RATE_LIMIT rule the rate limiter never traps, keeps the table well formed
  (64 slots, at most one bucket per rule id), touches no bucket of another rule, and permits
  when the rule has no bucket and the table is full.\<close>

theorem rate_allow_safe:
  assumes "SkRuleValidate (Some rule) = STATUS_SUCCESS" and "r_action rule = SkRuleActionRateLimit"
    and "rate_ok (g_RateTable w)"
  shows "\<exists>a w'. SkRateAllow freq t rule w = Some (a, w') \<and> rate_ok (g_RateTable w') \<and>
    (\<forall>rid. rid \<noteq> r_ruleId rule \<longrightarrow> rate_bucket rid (g_RateTable w') = rate_bucket rid (g_RateTable w)) \<and>
    (rate_bucket (r_ruleId rule) (g_RateTable w) = None \<and> (\<forall>e\<in>set (g_RateTable w). in_use e) \<longrightarrow>
       a \<and> g_RateTable w' = g_RateTable w)"
proof -
  have iv: "r_rateIntervalMs rule \<noteq> 0"
    using assms(1,2) valid_rate by (simp add: validate_iff)
  from allow_total [OF assms(3) iv, of freq t] obtain a w' where w':
    "SkRateAllow freq t rule w = Some (a, w')" "rate_ok (g_RateTable w')"
    "\<forall>rid. rid \<noteq> r_ruleId rule \<longrightarrow> rate_bucket rid (g_RateTable w') = rate_bucket rid (g_RateTable w)"
    by blast
  have "a \<and> g_RateTable w' = g_RateTable w"
    if none: "rate_bucket (r_ruleId rule) (g_RateTable w) = None" and full: "\<forall>e\<in>set (g_RateTable w). in_use e"
  proof -
    have "r_ruleId rule \<notin> set (bucket_ids (g_RateTable w))" using none bucket_in_ids by force
    from rate_scan_free [OF this, of 0] full assms(3)
    have "rate_scan (r_ruleId rule) (g_RateTable w) 0 SK_RATE_TABLE_SIZE = SK_RATE_TABLE_SIZE"
      by (auto simp: rate_ok_def)
    with w'(1) show ?thesis by (auto simp: SkRateAllow_def qpc_ms_clock)
  qed
  with w' show ?thesis by (intro exI [of _ a] exI [of _ w']) blast
qed

theorem rate_allow_safe_witness:
  "\<exists>a w'. SkRateAllow 1000 9 (zero_rule\<lparr>r_ruleId := 7, r_action := SkRuleActionRateLimit,
      r_rateTokens := 1, r_rateIntervalMs := 100, r_burst := 2\<rparr>) image_engine = Some (a, w') \<and>
    rate_bucket 8 (g_RateTable w') = None"
proof -
  let ?r = "zero_rule\<lparr>r_ruleId := 7, r_action := SkRuleActionRateLimit,
      r_rateTokens := 1, r_rateIntervalMs := 100, r_burst := 2\<rparr>"
  have "SkRuleValidate (Some ?r) = STATUS_SUCCESS" by code_simp
  moreover have "r_action ?r = SkRuleActionRateLimit" by simp
  moreover have "rate_ok (g_RateTable image_engine)" by (simp add: zero_table_ok)
  ultimately obtain a w' where "SkRateAllow 1000 9 ?r image_engine = Some (a, w')"
    "\<forall>rid. rid \<noteq> r_ruleId ?r \<longrightarrow> rate_bucket rid (g_RateTable w') = rate_bucket rid (g_RateTable image_engine)"
    using rate_allow_safe [of ?r image_engine 1000 9] by blast
  then show ?thesis by (intro exI [of _ a] exI [of _ w']) (simp add: zero_bucket)
qed

text \<open>The reset zeroes exactly the bucket of the given rule id: afterwards the id has no bucket,
  every other bucket is as before, the table stays well formed.\<close>

theorem rate_reset_correct:
  assumes "rate_ok (g_RateTable w)"
  shows "rate_ok (g_RateTable (SkRuleRateReset rid w)) \<and>
    rate_bucket rid (g_RateTable (SkRuleRateReset rid w)) = None \<and>
    (rid' \<noteq> rid \<longrightarrow>
      rate_bucket rid' (g_RateTable (SkRuleRateReset rid w)) = rate_bucket rid' (g_RateTable w))"
proof (intro conjI impI)
  show "rate_ok (g_RateTable (SkRuleRateReset rid w))"
    using reset_ok [OF assms] by (simp add: SkRuleRateReset_def)
  have "rid \<notin> set (bucket_ids (rate_reset rid (g_RateTable w)))" using reset_ok [OF assms] by simp
  then show "rate_bucket rid (g_RateTable (SkRuleRateReset rid w)) = None"
    using bucket_in_ids by (fastforce simp: SkRuleRateReset_def)
  show "rate_bucket rid' (g_RateTable (SkRuleRateReset rid w)) = rate_bucket rid' (g_RateTable w)"
    if "rid' \<noteq> rid"
    using that by (simp add: SkRuleRateReset_def reset_bucket)
qed

theorem rate_reset_correct_witness:
  "let w = image_engine\<lparr>g_RateTable := (zero_entry\<lparr>e_ruleId := 5, e_tokens := 3, e_inUse := 1\<rparr>)
      # replicate 63 zero_entry\<rparr>
   in rate_bucket 5 (g_RateTable w) \<noteq> None \<and> rate_bucket 5 (g_RateTable (SkRuleRateReset 5 w)) = None"
proof -
  let ?w = "image_engine\<lparr>g_RateTable := (zero_entry\<lparr>e_ruleId := 5, e_tokens := 3, e_inUse := 1\<rparr>)
      # replicate 63 zero_entry\<rparr>"
  have "bucket_ids (replicate n zero_entry) = []" for n
    by (induction n) (simp_all add: zero_entry_def in_use_def)
  then have "rate_ok (g_RateTable ?w)" by (simp add: rate_ok_def)
  from rate_reset_correct [OF this, of 5] have "rate_bucket 5 (g_RateTable (SkRuleRateReset 5 ?w)) = None"
    by blast
  moreover have "rate_bucket 5 (g_RateTable ?w) \<noteq> None"
    by (simp add: rate_bucket_def in_use_def)
  ultimately show ?thesis by (simp only: Let_def simp_thms)
qed

text \<open>The refill product wraps at 64 bits: a validated rule with \<open>2 ^ 31\<close> tokens per
  millisecond whose bucket is empty stays blocked after \<open>2 ^ 33\<close> ms of silence.\<close>

theorem refill_wraps:
  "let r = zero_rule\<lparr>r_ruleId := 7, r_action := SkRuleActionRateLimit, r_rateTokens := 0x80000000,
       r_rateIntervalMs := 1, r_burst := 5\<rparr>;
       e = zero_entry\<lparr>e_ruleId := 7, e_inUse := 1\<rparr>
   in SkRuleValidate (Some r) = STATUS_SUCCESS \<and>
      map_option fst (rate_entry_step r 0x200000000 e) = Some False"
  by code_simp

end
