(* ===== verification/RuleStore.thy ===== *)
theory RuleStore
  imports RuleOrder RateLimit "HOL-Library.Monad_Syntax"
begin

text \<open>
  rules/rule_store.c: the rule store. Snapshots and rule arrays are blocks of the non-paged
  pool under the store's tag: two maps from addresses to contents. Addresses are handed out
  by a counter and never reused, so a stale pointer is never valid again by accident.

  Every operation returns an option: \<open>None\<close> is an invalid access (a dereference or a free
  of an address that holds no block, a dereference of NULL) or a loop that does not end.
  The parameters are the kernel's: \<open>ok k\<close> says whether the \<open>k\<close>-th pool allocation
  succeeds, \<open>slp\<close> is what the other threads do to the state while this one sleeps in
  \<open>SleepMs\<close>. Spin-lock sections are atomic; the sections named below (\<open>publish_section\<close>,
  \<open>rollback_section\<close>, \<open>close_section\<close>, \<open>retire_scan\<close>, \<open>SkRuleStoreAcquire\<close>) are the
  ones the interleaving model of \<open>SnapshotProtocol\<close> takes its steps from.
\<close>

record snapshot =
  s_rules :: "nat option"
  s_count :: u32
  s_version :: u64
  s_defaultPolicy :: u32
  s_readers :: rundown
  s_retired :: u32

record store = engine +
  p_next :: nat
  p_snaps :: "nat \<Rightarrow> snapshot option"
  p_arrays :: "nat \<Rightarrow> rule list option"
  g_Current :: "nat option"
  g_RollbackSlot :: "nat option"
  g_RetireList :: "nat list"
  g_WriterBusy :: u32
  g_StoreInited :: bool
  g_StoreClosed :: bool

abbreviation SK_RETIRE_DRAIN_RETRIES :: nat where
  "SK_RETIRE_DRAIN_RETRIES \<equiv> 50"

abbreviation SK_SHUTDOWN_DRAIN_RETRIES :: nat where
  "SK_SHUTDOWN_DRAIN_RETRIES \<equiv> 1000"

section \<open>Pool\<close>

text \<open>
  \<open>AllocPool\<close> for a rule array, with the contents the caller copies into the block before
  its address goes anywhere; and the two frees.
\<close>

definition AllocArray ::
    "(nat \<Rightarrow> bool) \<Rightarrow> rule list \<Rightarrow> 'a store_scheme \<Rightarrow> nat option \<times> 'a store_scheme" where
  "AllocArray ok rs w =
     (let k = p_next w; w = w\<lparr>p_next := Suc k\<rparr>
      in if ok k then (Some k, w\<lparr>p_arrays := (p_arrays w)(k \<mapsto> rs)\<rparr>) else (None, w))"

definition FreeArray :: "nat \<Rightarrow> 'a store_scheme \<Rightarrow> 'a store_scheme option" where
  "FreeArray a w =
     (if p_arrays w a = None then None else Some (w\<lparr>p_arrays := (p_arrays w)(a := None)\<rparr>))"

definition FreeSnap :: "nat \<Rightarrow> 'a store_scheme \<Rightarrow> 'a store_scheme option" where
  "FreeSnap p w =
     (if p_snaps w p = None then None else Some (w\<lparr>p_snaps := (p_snaps w)(p := None)\<rparr>))"

definition new_snapshot :: snapshot where
  "new_snapshot = \<lparr>s_rules = None, s_count = 0, s_version = 0, s_defaultPolicy = 0,
     s_readers = ShRundownInit zero_rundown ''SkRuleSnap'', s_retired = 0\<rparr>"

definition SkSnapAlloc :: "(nat \<Rightarrow> bool) \<Rightarrow> 'a store_scheme \<Rightarrow> nat option \<times> 'a store_scheme" where
  "SkSnapAlloc ok w =
     (let k = p_next w; w = w\<lparr>p_next := Suc k\<rparr>
      in if ok k then (Some k, w\<lparr>p_snaps := (p_snaps w)(k \<mapsto> new_snapshot)\<rparr>) else (None, w))"

definition free_array_opt :: "nat option \<Rightarrow> 'a store_scheme \<Rightarrow> 'a store_scheme option" where
  "free_array_opt rules w = (case rules of None \<Rightarrow> Some w | Some a \<Rightarrow> FreeArray a w)"

definition SkSnapFree :: "nat \<Rightarrow> 'a store_scheme \<Rightarrow> 'a store_scheme option" where
  "SkSnapFree p w = do {
     s \<leftarrow> p_snaps w p;
     w \<leftarrow> free_array_opt (s_rules s) w;
     FreeSnap p w
   }"

text \<open>A write through a snapshot pointer.\<close>

definition upd_snap :: "nat \<Rightarrow> (snapshot \<Rightarrow> snapshot) \<Rightarrow> 'a store_scheme \<Rightarrow> 'a store_scheme option" where
  "upd_snap p f w = do {
     s \<leftarrow> p_snaps w p;
     Some (w\<lparr>p_snaps := (p_snaps w)(p \<mapsto> f s)\<rparr>)
   }"

text \<open>The rules a loop over \<open>s->count\<close> reads through \<open>s->rules\<close>.\<close>

definition snap_rules :: "'a store_scheme \<Rightarrow> snapshot \<Rightarrow> rule list option" where
  "snap_rules w s =
     (case s_rules s of
        None \<Rightarrow> if s_count s = 0 then Some [] else None
      | Some a \<Rightarrow>
          (case p_arrays w a of
             None \<Rightarrow> None
           | Some rs \<Rightarrow> if unat (s_count s) \<le> length rs then Some (take (unat (s_count s)) rs) else None))"

section \<open>Locks and gate\<close>

partial_function (option) SkStoreLock ::
    "('a store_scheme \<Rightarrow> 'a store_scheme) \<Rightarrow> 'a store_scheme \<Rightarrow> 'a store_scheme option" where
  "SkStoreLock slp w =
     (if g_WriterBusy w = 0 then Some (w\<lparr>g_WriterBusy := 1\<rparr>) else SkStoreLock slp (slp w))"

declare SkStoreLock.simps [code]

definition SkStoreUnlock :: "'a store_scheme \<Rightarrow> 'a store_scheme" where
  "SkStoreUnlock w = w\<lparr>g_WriterBusy := 0\<rparr>"

definition SkStoreWritableNoLock :: "'a store_scheme \<Rightarrow> bool" where
  "SkStoreWritableNoLock w \<longleftrightarrow> g_StoreInited w \<and> \<not> g_StoreClosed w \<and> ShRuntimeIsActive w"

definition SkRuleStoreWritable :: "'a store_scheme \<Rightarrow> bool" where
  "SkRuleStoreWritable w = SkStoreWritableNoLock w"

section \<open>Retiring and reclaiming\<close>

text \<open>\<open>ShRundownBeginStop\<close>, \<open>retired = 1\<close>, \<open>InsertTailList\<close>: the three writes of every retirement.\<close>

definition retire_snap :: "nat \<Rightarrow> 'a store_scheme \<Rightarrow> 'a store_scheme option" where
  "retire_snap p w = do {
     w \<leftarrow> upd_snap p (\<lambda>s. s\<lparr>s_readers := ShRundownBeginStop (s_readers s), s_retired := 1\<rparr>) w;
     Some (w\<lparr>g_RetireList := g_RetireList w @ [p]\<rparr>)
   }"

text \<open>One locked pass over the retire list: the drained snapshots and the others, in order.\<close>

fun retire_scan :: "'a store_scheme \<Rightarrow> nat list \<Rightarrow> (nat list \<times> nat list) option" where
  "retire_scan w [] = Some ([], [])"
| "retire_scan w (p # ps) = do {
     s \<leftarrow> p_snaps w p;
     (drained, rest) \<leftarrow> retire_scan w ps;
     if ShRundownActiveCount (s_readers s) = - 1 then Some (p # drained, rest)
     else Some (drained, p # rest)
   }"

fun free_all :: "nat list \<Rightarrow> 'a store_scheme \<Rightarrow> 'a store_scheme option" where
  "free_all [] w = Some w"
| "free_all (p # ps) w = do { w \<leftarrow> SkSnapFree p w; free_all ps w }"

definition retire_round :: "'a store_scheme \<Rightarrow> 'a store_scheme option" where
  "retire_round w = do {
     (drained, rest) \<leftarrow> retire_scan w (g_RetireList w);
     free_all drained (w\<lparr>g_RetireList := rest\<rparr>)
   }"

text \<open>The argument counts the retries left.\<close>

fun SkRetireDrain ::
    "('a store_scheme \<Rightarrow> 'a store_scheme) \<Rightarrow> nat \<Rightarrow> 'a store_scheme \<Rightarrow> 'a store_scheme option" where
  "SkRetireDrain slp 0 w = retire_round w"
| "SkRetireDrain slp (Suc n) w = do {
     w \<leftarrow> retire_round w;
     if g_RetireList w = [] then Some w else SkRetireDrain slp n (slp w)
   }"

text \<open>Both arguments are pointers; the new snapshot may be NULL in the C code, too.\<close>

definition snap_ids :: "'a store_scheme \<Rightarrow> nat option \<Rightarrow> u64 list option" where
  "snap_ids w snap =
     (case snap of
        None \<Rightarrow> Some []
      | Some p \<Rightarrow> do { s \<leftarrow> p_snaps w p; rs \<leftarrow> snap_rules w s; Some (map r_ruleId rs) })"

definition SkRateResetRemoved ::
    "nat option \<Rightarrow> nat option \<Rightarrow> 'a store_scheme \<Rightarrow> 'a store_scheme option" where
  "SkRateResetRemoved oldSnap newSnap w = do {
     old \<leftarrow> snap_ids w oldSnap;
     new \<leftarrow> snap_ids w newSnap;
     Some (foldl (\<lambda>w i. if \<not> list_ex (\<lambda>j. j = i) new then SkRuleRateReset i w else w) w old)
   }"

section \<open>Publication\<close>

text \<open>
  The writer section W of \<open>SkPublish\<close>. \<open>Inl w\<close>: the store was closed meanwhile.
\<close>

definition publish_section :: "nat \<Rightarrow> 'a store_scheme \<Rightarrow> ('a store_scheme + nat \<times> 'a store_scheme) option" where
  "publish_section snap w =
     (if \<not> SkStoreWritableNoLock w then Some (Inl w)
      else do {
        old \<leftarrow> g_Current w;
        cur \<leftarrow> p_snaps w old;
        w \<leftarrow> upd_snap snap (\<lambda>s. s\<lparr>s_version := s_version cur + 1\<rparr>) w;
        let rb = g_RollbackSlot w;
        let w = w\<lparr>g_RollbackSlot := Some old\<rparr>;
        w \<leftarrow> (case rb of None \<Rightarrow> Some w | Some p \<Rightarrow> retire_snap p w);
        Some (Inr (old, w\<lparr>g_Current := Some snap\<rparr>))
      })"

definition SkPublish ::
    "(nat \<Rightarrow> bool) \<Rightarrow> ('a store_scheme \<Rightarrow> 'a store_scheme) \<Rightarrow> nat option \<Rightarrow> u32 \<Rightarrow> u32
     \<Rightarrow> 'a store_scheme \<Rightarrow> (ntstatus \<times> 'a store_scheme) option" where
  "SkPublish ok slp rules n defaultPolicy w =
     (case SkSnapAlloc ok w of
        (None, w) \<Rightarrow> do {
          w \<leftarrow> free_array_opt rules w;
          Some (STATUS_INSUFFICIENT_RESOURCES, w)
        }
      | (Some snap, w) \<Rightarrow> do {
          w \<leftarrow> upd_snap snap
            (\<lambda>s. s\<lparr>s_rules := rules, s_count := n, s_defaultPolicy := defaultPolicy\<rparr>) w;
          w \<leftarrow> SkRetireDrain slp SK_RETIRE_DRAIN_RETRIES w;
          r \<leftarrow> publish_section snap w;
          (case r of
             Inl w \<Rightarrow> do {
               w \<leftarrow> SkSnapFree snap w;
               Some (STATUS_INVALID_DEVICE_STATE, w)
             }
           | Inr (old, w) \<Rightarrow> do {
               w \<leftarrow> SkRateResetRemoved (Some old) (Some snap) w;
               Some (STATUS_SUCCESS, w)
             })
        })"

section \<open>Shutdown and initialisation\<close>

text \<open>The writer section of the shutdown: close the gate, detach both pointers.\<close>

definition close_section :: "'a store_scheme \<Rightarrow> 'a store_scheme option" where
  "close_section w =
     (let w = w\<lparr>g_StoreClosed := True\<rparr>;
          cur = g_Current w;
          w = w\<lparr>g_Current := None\<rparr>;
          rb = g_RollbackSlot w;
          w = w\<lparr>g_RollbackSlot := None\<rparr>
      in do {
        w \<leftarrow> (case cur of None \<Rightarrow> Some w | Some p \<Rightarrow> retire_snap p w);
        (case rb of None \<Rightarrow> Some w | Some p \<Rightarrow> retire_snap p w)
      })"

definition readers_count :: "nat \<Rightarrow> 'a store_scheme \<Rightarrow> u32" where
  "readers_count p w = (case p_snaps w p of None \<Rightarrow> 0 | Some s \<Rightarrow> rd_count (s_readers s))"

text \<open>
  The forced drain: take the head of the retire list, drain it, free it or set it aside on
  \<open>stuck\<close>; the accumulated \<open>stuck\<close> list goes back to the retire list at the end.
\<close>

partial_function (option) shutdown_loop ::
    "('a store_scheme \<Rightarrow> 'a store_scheme) \<Rightarrow> nat list \<Rightarrow> 'a store_scheme
     \<Rightarrow> (nat list \<times> 'a store_scheme) option" where
  "shutdown_loop slp stuck w =
     (case g_RetireList w of
        [] \<Rightarrow> Some (stuck, w)
      | p # ps \<Rightarrow>
          (case ShRundownDrain (readers_count p) slp SK_SHUTDOWN_DRAIN_RETRIES
                  (w\<lparr>g_RetireList := ps\<rparr>) of
             (st, w) \<Rightarrow>
               if st = STATUS_SUCCESS
               then do { w \<leftarrow> SkSnapFree p w; shutdown_loop slp stuck w }
               else
                 shutdown_loop slp (stuck @ [p])
                   (ShRuntimeEnterUnloadBlocked ShinkenBlockRundownStuck
                     (ShRuntimeRecordBlock ShinkenBlockRundownStuck w))))"

declare shutdown_loop.simps [code]

definition SkRuleStoreShutdown ::
    "('a store_scheme \<Rightarrow> 'a store_scheme) \<Rightarrow> 'a store_scheme \<Rightarrow> (bool \<times> 'a store_scheme) option" where
  "SkRuleStoreShutdown slp w = do {
     w \<leftarrow> SkStoreLock slp w;
     if \<not> g_StoreInited w then Some (True, SkStoreUnlock w)
     else if g_State w = ShinkenUnloadBlocked then Some (False, SkStoreUnlock w)
     else do {
       w \<leftarrow> close_section w;
       (stuck, w) \<leftarrow> shutdown_loop slp [] w;
       let w = w\<lparr>g_RetireList := g_RetireList w @ stuck\<rparr>;
       if stuck \<noteq> [] then Some (False, SkStoreUnlock w)
       else Some (True, SkStoreUnlock (w\<lparr>g_StoreInited := False\<rparr>))
     }
   }"

definition SkRuleStoreInit ::
    "(nat \<Rightarrow> bool) \<Rightarrow> ('a store_scheme \<Rightarrow> 'a store_scheme) \<Rightarrow> 'a store_scheme
     \<Rightarrow> (ntstatus \<times> 'a store_scheme) option" where
  "SkRuleStoreInit ok slp w =
     (if g_State w = ShinkenUnloadBlocked then Some (STATUS_DEVICE_BUSY, w)
      else do {
        (closed, w) \<leftarrow> (if g_StoreInited w then SkRuleStoreShutdown slp w else Some (True, w));
        if \<not> closed then Some (STATUS_DEVICE_BUSY, w)
        else
          (case SkSnapAlloc ok w of
             (None, w) \<Rightarrow> Some (STATUS_INSUFFICIENT_RESOURCES, w)
           | (Some snap, w) \<Rightarrow> do {
               w \<leftarrow> upd_snap snap
                 (\<lambda>s. s\<lparr>s_rules := None, s_count := 0, s_version := 0,
                       s_defaultPolicy := SkVerdictPermit\<rparr>) w;
               Some (STATUS_SUCCESS,
                 w\<lparr>g_RetireList := [], g_RollbackSlot := None, g_Current := Some snap,
                   g_StoreClosed := False, g_StoreInited := True\<rparr>)
             })
      })"

section \<open>Readers\<close>

text \<open>The reader section R.\<close>

definition SkRuleStoreAcquire :: "'a store_scheme \<Rightarrow> (nat option \<times> 'a store_scheme) option" where
  "SkRuleStoreAcquire w =
     (case g_Current w of
        None \<Rightarrow> Some (None, w)
      | Some p \<Rightarrow>
          if g_StoreClosed w then Some (None, w)
          else do {
            s \<leftarrow> p_snaps w p;
            let (acq, r) = ShRundownAcquire (s_readers s);
            w \<leftarrow> upd_snap p (\<lambda>s. s\<lparr>s_readers := r\<rparr>) w;
            Some (if acq then Some p else None, w)
          })"

definition SkRuleStoreRelease :: "nat option \<Rightarrow> 'a store_scheme \<Rightarrow> 'a store_scheme option" where
  "SkRuleStoreRelease snap w =
     (case snap of
        None \<Rightarrow> Some w
      | Some p \<Rightarrow> do {
          s \<leftarrow> p_snaps w p;
          let (r, w) = ShRundownRelease (s_readers s) w;
          upd_snap p (\<lambda>s. s\<lparr>s_readers := r\<rparr>) w
        })"

definition SkRuleStoreVersion :: "'a store_scheme \<Rightarrow> u64 option" where
  "SkRuleStoreVersion w =
     (case g_Current w of None \<Rightarrow> Some 0 | Some p \<Rightarrow> do { s \<leftarrow> p_snaps w p; Some (s_version s) })"

definition SkRuleStoreDefaultPolicy :: "'a store_scheme \<Rightarrow> u32 option" where
  "SkRuleStoreDefaultPolicy w =
     (case g_Current w of
        None \<Rightarrow> Some SkVerdictPermit
      | Some p \<Rightarrow> do { s \<leftarrow> p_snaps w p; Some (s_defaultPolicy s) })"

section \<open>Writers\<close>

text \<open>
  Each writer has the shape of the code: checks before the lock, lock, gate, checks under
  the lock, allocation of the new array, publication, unlock. A nonzero count with
  \<open>rules == NULL\<close> cannot be read, hence the binds on \<open>snap_rules\<close>.
\<close>

definition SkRuleStoreAdd ::
    "(nat \<Rightarrow> bool) \<Rightarrow> ('a store_scheme \<Rightarrow> 'a store_scheme) \<Rightarrow> rule option \<Rightarrow> 'a store_scheme
     \<Rightarrow> (ntstatus \<times> 'a store_scheme) option" where
  "SkRuleStoreAdd ok slp rule_ptr w =
     (let st = SkRuleValidate rule_ptr in
      if \<not> NT_SUCCESS st then Some (st, w)
      else do {
        rule \<leftarrow> rule_ptr;
        w \<leftarrow> SkStoreLock slp w;
        if \<not> SkStoreWritableNoLock w then Some (STATUS_INVALID_DEVICE_STATE, SkStoreUnlock w)
        else do {
          p \<leftarrow> g_Current w;
          cur \<leftarrow> p_snaps w p;
          let n = s_count cur;
          if n \<ge> SK_RULE_MAX then Some (STATUS_INSUFFICIENT_RESOURCES, SkStoreUnlock w)
          else do {
            rs \<leftarrow> snap_rules w cur;
            if list_ex (\<lambda>r. r_ruleId r = r_ruleId rule) rs
            then Some (STATUS_OBJECTID_EXISTS, SkStoreUnlock w)
            else
              (case AllocArray ok (SkSortRules (rs @ [rule]) (unat (n + 1))) w of
                 (None, w) \<Rightarrow> Some (STATUS_INSUFFICIENT_RESOURCES, SkStoreUnlock w)
               | (Some arr, w) \<Rightarrow> do {
                   (st, w) \<leftarrow> SkPublish ok slp (Some arr) (n + 1) (s_defaultPolicy cur) w;
                   let w = (if NT_SUCCESS st then SkRuleRateReset (r_ruleId rule) w else w);
                   Some (st, SkStoreUnlock w)
                 })
          }
        }
      })"

text \<open>The index loop of Update, Delete and SetEnabled: the length if the id is missing.\<close>

fun rule_index :: "u64 \<Rightarrow> rule list \<Rightarrow> nat" where
  "rule_index rid [] = 0"
| "rule_index rid (r # rs) = (if r_ruleId r = rid then 0 else Suc (rule_index rid rs))"

definition SkRuleStoreUpdate ::
    "(nat \<Rightarrow> bool) \<Rightarrow> ('a store_scheme \<Rightarrow> 'a store_scheme) \<Rightarrow> rule option \<Rightarrow> 'a store_scheme
     \<Rightarrow> (ntstatus \<times> 'a store_scheme) option" where
  "SkRuleStoreUpdate ok slp rule_ptr w =
     (let st = SkRuleValidate rule_ptr in
      if \<not> NT_SUCCESS st then Some (st, w)
      else do {
        rule \<leftarrow> rule_ptr;
        w \<leftarrow> SkStoreLock slp w;
        if \<not> SkStoreWritableNoLock w then Some (STATUS_INVALID_DEVICE_STATE, SkStoreUnlock w)
        else do {
          p \<leftarrow> g_Current w;
          cur \<leftarrow> p_snaps w p;
          let n = s_count cur;
          rs \<leftarrow> snap_rules w cur;
          let i = rule_index (r_ruleId rule) rs;
          if i = unat n then Some (STATUS_NOT_FOUND, SkStoreUnlock w)
          else
            (case AllocArray ok (SkSortRules (rs[i := rule]) (unat n)) w of
               (None, w) \<Rightarrow> Some (STATUS_INSUFFICIENT_RESOURCES, SkStoreUnlock w)
             | (Some arr, w) \<Rightarrow> do {
                 (st, w) \<leftarrow> SkPublish ok slp (Some arr) n (s_defaultPolicy cur) w;
                 Some (st, SkStoreUnlock w)
               })
        }
      })"

definition SkRuleStoreDelete ::
    "(nat \<Rightarrow> bool) \<Rightarrow> ('a store_scheme \<Rightarrow> 'a store_scheme) \<Rightarrow> u64 \<Rightarrow> 'a store_scheme
     \<Rightarrow> (ntstatus \<times> 'a store_scheme) option" where
  "SkRuleStoreDelete ok slp ruleId w = do {
     w \<leftarrow> SkStoreLock slp w;
     if \<not> SkStoreWritableNoLock w then Some (STATUS_INVALID_DEVICE_STATE, SkStoreUnlock w)
     else do {
       p \<leftarrow> g_Current w;
       cur \<leftarrow> p_snaps w p;
       let n = s_count cur;
       rs \<leftarrow> snap_rules w cur;
       let i = rule_index ruleId rs;
       if i = unat n then Some (STATUS_NOT_FOUND, SkStoreUnlock w)
       else if n = 1 then do {
         (st, w) \<leftarrow> SkPublish ok slp None 0 (s_defaultPolicy cur) w;
         Some (st, SkStoreUnlock w)
       }
       else
         (case AllocArray ok (take i rs @ drop (i + 1) rs) w of
            (None, w) \<Rightarrow> Some (STATUS_INSUFFICIENT_RESOURCES, SkStoreUnlock w)
          | (Some arr, w) \<Rightarrow> do {
              (st, w) \<leftarrow> SkPublish ok slp (Some arr) (n - 1) (s_defaultPolicy cur) w;
              Some (st, SkStoreUnlock w)
            })
     }
   }"

definition SkRuleStoreSetEnabled ::
    "(nat \<Rightarrow> bool) \<Rightarrow> ('a store_scheme \<Rightarrow> 'a store_scheme) \<Rightarrow> u64 \<Rightarrow> bool \<Rightarrow> 'a store_scheme
     \<Rightarrow> (ntstatus \<times> 'a store_scheme) option" where
  "SkRuleStoreSetEnabled ok slp ruleId enabled w = do {
     w \<leftarrow> SkStoreLock slp w;
     if \<not> SkStoreWritableNoLock w then Some (STATUS_INVALID_DEVICE_STATE, SkStoreUnlock w)
     else do {
       p \<leftarrow> g_Current w;
       cur \<leftarrow> p_snaps w p;
       let n = s_count cur;
       rs \<leftarrow> snap_rules w cur;
       let i = rule_index ruleId rs;
       if i = unat n then Some (STATUS_NOT_FOUND, SkStoreUnlock w)
       else
         (case AllocArray ok (rs[i := (rs ! i)\<lparr>r_enabled := (if enabled then 1 else 0)\<rparr>]) w of
            (None, w) \<Rightarrow> Some (STATUS_INSUFFICIENT_RESOURCES, SkStoreUnlock w)
          | (Some arr, w) \<Rightarrow> do {
              (st, w) \<leftarrow> SkPublish ok slp (Some arr) n (s_defaultPolicy cur) w;
              let w = (if NT_SUCCESS st \<and> \<not> enabled then SkRuleRateReset ruleId w else w);
              Some (st, SkStoreUnlock w)
            })
     }
   }"

text \<open>The validation loop of Replace: the first failing status, and the nested duplicate loops.\<close>

fun validate_all :: "rule list \<Rightarrow> ntstatus" where
  "validate_all [] = STATUS_SUCCESS"
| "validate_all (r # rs) =
     (let st = SkRuleValidate (Some r) in if \<not> NT_SUCCESS st then st else validate_all rs)"

fun has_dup :: "rule list \<Rightarrow> bool" where
  "has_dup [] = False"
| "has_dup (r # rs) = (list_ex (\<lambda>q. r_ruleId r = r_ruleId q) rs \<or> has_dup rs)"

text \<open>\<open>rules\<close> is a pointer to the caller's rules, or NULL; fewer than \<open>n\<close> are read out of bounds.\<close>

definition SkRuleStoreReplace ::
    "(nat \<Rightarrow> bool) \<Rightarrow> ('a store_scheme \<Rightarrow> 'a store_scheme) \<Rightarrow> rule list option \<Rightarrow> u32 \<Rightarrow> u64
     \<Rightarrow> 'a store_scheme \<Rightarrow> (ntstatus \<times> 'a store_scheme) option" where
  "SkRuleStoreReplace ok slp rules n expectedVersion w =
     (if n > SK_RULE_MAX then Some (STATUS_INVALID_PARAMETER, w)
      else if ucast n * sizeof_SK_RULE > ucast SK_REPLACE_MAX_BYTES
        then Some (STATUS_INVALID_PARAMETER, w)
      else if n \<noteq> 0 \<and> rules = None then Some (STATUS_INVALID_PARAMETER, w)
      else do {
        rs \<leftarrow> (case rules of
                None \<Rightarrow> Some []
              | Some rs \<Rightarrow> if unat n \<le> length rs then Some (take (unat n) rs) else None);
        let st = validate_all rs;
        if \<not> NT_SUCCESS st then Some (st, w)
        else if has_dup rs then Some (STATUS_OBJECTID_EXISTS, w)
        else do {
          w \<leftarrow> SkStoreLock slp w;
          if \<not> SkStoreWritableNoLock w then Some (STATUS_INVALID_DEVICE_STATE, SkStoreUnlock w)
          else do {
            p \<leftarrow> g_Current w;
            cur \<leftarrow> p_snaps w p;
            if expectedVersion \<noteq> 0 \<and> s_version cur \<noteq> expectedVersion
            then Some (STATUS_RETRY, SkStoreUnlock w)
            else if n \<noteq> 0 then
              (case AllocArray ok (SkSortRules rs (unat n)) w of
                 (None, w) \<Rightarrow> Some (STATUS_INSUFFICIENT_RESOURCES, SkStoreUnlock w)
               | (Some arr, w) \<Rightarrow> do {
                   (st, w) \<leftarrow> SkPublish ok slp (Some arr) n (s_defaultPolicy cur) w;
                   Some (st, SkStoreUnlock w)
                 })
            else do {
              (st, w) \<leftarrow> SkPublish ok slp None n (s_defaultPolicy cur) w;
              Some (st, SkStoreUnlock w)
            }
          }
        }
      })"

definition SkRuleStoreClear ::
    "(nat \<Rightarrow> bool) \<Rightarrow> ('a store_scheme \<Rightarrow> 'a store_scheme) \<Rightarrow> 'a store_scheme
     \<Rightarrow> (ntstatus \<times> 'a store_scheme) option" where
  "SkRuleStoreClear ok slp w = do {
     w \<leftarrow> SkStoreLock slp w;
     if \<not> SkStoreWritableNoLock w then Some (STATUS_INVALID_DEVICE_STATE, SkStoreUnlock w)
     else do {
       p \<leftarrow> g_Current w;
       cur \<leftarrow> p_snaps w p;
       (st, w) \<leftarrow> SkPublish ok slp None 0 (s_defaultPolicy cur) w;
       Some (st, SkStoreUnlock w)
     }
   }"

text \<open>The writer section of the rollback: publish the copy, retire the old current and the slot.\<close>

definition rollback_section ::
    "nat \<Rightarrow> nat \<Rightarrow> 'a store_scheme \<Rightarrow> ('a store_scheme + nat \<times> 'a store_scheme) option" where
  "rollback_section snap rb w =
     (if \<not> SkStoreWritableNoLock w then Some (Inl w)
      else do {
        old \<leftarrow> g_Current w;
        cur \<leftarrow> p_snaps w old;
        w \<leftarrow> upd_snap snap (\<lambda>s. s\<lparr>s_version := s_version cur + 1\<rparr>) w;
        let w = w\<lparr>g_RollbackSlot := None\<rparr>;
        let w = w\<lparr>g_Current := Some snap\<rparr>;
        w \<leftarrow> retire_snap old w;
        w \<leftarrow> retire_snap rb w;
        Some (Inr (old, w))
      })"

definition rollback_publish ::
    "(nat \<Rightarrow> bool) \<Rightarrow> ('a store_scheme \<Rightarrow> 'a store_scheme) \<Rightarrow> nat \<Rightarrow> snapshot \<Rightarrow> nat option
     \<Rightarrow> 'a store_scheme \<Rightarrow> (ntstatus \<times> 'a store_scheme) option" where
  "rollback_publish ok slp rb slot arr w =
     (case SkSnapAlloc ok w of
        (None, w) \<Rightarrow> do {
          w \<leftarrow> free_array_opt arr w;
          Some (STATUS_INSUFFICIENT_RESOURCES, SkStoreUnlock w)
        }
      | (Some snap, w) \<Rightarrow> do {
          w \<leftarrow> upd_snap snap (\<lambda>s. s\<lparr>s_rules := arr, s_count := s_count slot,
                 s_defaultPolicy := s_defaultPolicy slot\<rparr>) w;
          w \<leftarrow> SkRetireDrain slp SK_RETIRE_DRAIN_RETRIES w;
          r \<leftarrow> rollback_section snap rb w;
          (case r of
             Inl w \<Rightarrow> do {
               w \<leftarrow> SkSnapFree snap w;
               Some (STATUS_INVALID_DEVICE_STATE, SkStoreUnlock w)
             }
           | Inr (old, w) \<Rightarrow> do {
               w \<leftarrow> SkRateResetRemoved (Some old) (Some snap) w;
               Some (STATUS_SUCCESS, SkStoreUnlock w)
             })
        })"

definition SkRuleStoreRollback ::
    "(nat \<Rightarrow> bool) \<Rightarrow> ('a store_scheme \<Rightarrow> 'a store_scheme) \<Rightarrow> 'a store_scheme
     \<Rightarrow> (ntstatus \<times> 'a store_scheme) option" where
  "SkRuleStoreRollback ok slp w = do {
     w \<leftarrow> SkStoreLock slp w;
     if \<not> SkStoreWritableNoLock w then Some (STATUS_INVALID_DEVICE_STATE, SkStoreUnlock w)
     else
       (case g_RollbackSlot w of
          None \<Rightarrow> Some (STATUS_NOT_FOUND, SkStoreUnlock w)
        | Some rb \<Rightarrow> do {
            slot \<leftarrow> p_snaps w rb;
            if s_count slot \<noteq> 0 then do {
              rs \<leftarrow> snap_rules w slot;
              (case AllocArray ok rs w of
                 (None, w) \<Rightarrow> Some (STATUS_INSUFFICIENT_RESOURCES, SkStoreUnlock w)
               | (Some arr, w) \<Rightarrow> rollback_publish ok slp rb slot (Some arr) w)
            }
            else rollback_publish ok slp rb slot None w
          })
   }"

definition SkRuleStoreSetDefaultPolicy ::
    "(nat \<Rightarrow> bool) \<Rightarrow> ('a store_scheme \<Rightarrow> 'a store_scheme) \<Rightarrow> u32 \<Rightarrow> 'a store_scheme
     \<Rightarrow> (ntstatus \<times> 'a store_scheme) option" where
  "SkRuleStoreSetDefaultPolicy ok slp policy w =
     (if policy \<noteq> SkVerdictPermit \<and> policy \<noteq> SkVerdictBlock then Some (STATUS_INVALID_PARAMETER, w)
      else do {
        w \<leftarrow> SkStoreLock slp w;
        if \<not> SkStoreWritableNoLock w then Some (STATUS_INVALID_DEVICE_STATE, SkStoreUnlock w)
        else do {
          p \<leftarrow> g_Current w;
          cur \<leftarrow> p_snaps w p;
          let n = s_count cur;
          if n \<noteq> 0 then do {
            rs \<leftarrow> snap_rules w cur;
            (case AllocArray ok rs w of
               (None, w) \<Rightarrow> Some (STATUS_INSUFFICIENT_RESOURCES, SkStoreUnlock w)
             | (Some arr, w) \<Rightarrow> do {
                 (st, w) \<leftarrow> SkPublish ok slp (Some arr) n policy w;
                 Some (st, SkStoreUnlock w)
               })
          }
          else do {
            (st, w) \<leftarrow> SkPublish ok slp None n policy w;
            Some (st, SkStoreUnlock w)
          }
        }
      })"

section \<open>Enumeration\<close>

text \<open>The callback threads its own context \<open>c\<close>; it stops the walk with \<open>False\<close>.\<close>

fun enum_loop :: "(rule \<Rightarrow> 'c \<Rightarrow> bool \<times> 'c) \<Rightarrow> rule list \<Rightarrow> 'c \<Rightarrow> 'c" where
  "enum_loop f [] c = c"
| "enum_loop f (r # rs) c = (let (go, c) = f r c in if go then enum_loop f rs c else c)"

definition SkRuleStoreEnum ::
    "('a store_scheme \<Rightarrow> 'a store_scheme) \<Rightarrow> (rule \<Rightarrow> 'c \<Rightarrow> bool \<times> 'c) option \<Rightarrow> 'c \<Rightarrow> 'a store_scheme
     \<Rightarrow> (ntstatus \<times> 'c \<times> 'a store_scheme) option" where
  "SkRuleStoreEnum slp onRule c w =
     (case onRule of
        None \<Rightarrow> Some (STATUS_INVALID_PARAMETER, c, w)
      | Some f \<Rightarrow> do {
          w \<leftarrow> SkStoreLock slp w;
          if \<not> g_StoreInited w \<or> g_Current w = None
          then Some (STATUS_INVALID_DEVICE_STATE, c, SkStoreUnlock w)
          else do {
            p \<leftarrow> g_Current w;
            cur \<leftarrow> p_snaps w p;
            rs \<leftarrow> snap_rules w cur;
            Some (STATUS_SUCCESS, enum_loop f rs c, SkStoreUnlock w)
          }
        })"

text \<open>\<open>out\<close> is the caller's rule, \<open>None\<close> for NULL; the found rule is copied into it.\<close>

definition SkRuleStoreFind ::
    "('a store_scheme \<Rightarrow> 'a store_scheme) \<Rightarrow> u64 \<Rightarrow> rule option \<Rightarrow> 'a store_scheme
     \<Rightarrow> (ntstatus \<times> rule option \<times> 'a store_scheme) option" where
  "SkRuleStoreFind slp ruleId out w =
     (if out = None then Some (STATUS_INVALID_PARAMETER, out, w)
      else do {
        w \<leftarrow> SkStoreLock slp w;
        if \<not> g_StoreInited w \<or> g_Current w = None
        then Some (STATUS_INVALID_DEVICE_STATE, out, SkStoreUnlock w)
        else do {
          p \<leftarrow> g_Current w;
          cur \<leftarrow> p_snaps w p;
          rs \<leftarrow> snap_rules w cur;
          (case find (\<lambda>r. r_ruleId r = ruleId) rs of
             None \<Rightarrow> Some (STATUS_NOT_FOUND, out, SkStoreUnlock w)
           | Some r \<Rightarrow> Some (STATUS_SUCCESS, Some r, SkStoreUnlock w))
        }
      })"

end
