(* ===== verification/StoreInvariant.thy ===== *)
theory StoreInvariant
  imports RuleStore
begin

text \<open>
  The invariant of the rule store and its preservation by the steps the operations are
  composed of. \<open>Xs\<close> and \<open>Xa\<close> are the snapshots and arrays the running writer owns but has
  not yet published or has already detached; \<open>H p\<close> is the number of references readers
  hold on the snapshot at \<open>p\<close>. No operation step faults under the invariant.
\<close>

section \<open>The invariant\<close>

definition opt_list :: "'b option \<Rightarrow> 'b list" where
  "opt_list x = (case x of None \<Rightarrow> [] | Some p \<Rightarrow> [p])"

lemma opt_list_simps [simp]: "opt_list None = []" "opt_list (Some p) = [p]"
  by (simp_all add: opt_list_def)

definition tracked :: "'a store_scheme \<Rightarrow> nat list" where
  "tracked w = opt_list (g_Current w) @ opt_list (g_RollbackSlot w) @ g_RetireList w"

text \<open>The contents every published snapshot has.\<close>

definition content_ok :: "rule list \<Rightarrow> bool" where
  "content_ok rs \<longleftrightarrow> sorted (map verdict_key rs) \<and> distinct (map r_ruleId rs) \<and>
     (\<forall>r\<in>set rs. rule_valid r) \<and> length rs \<le> 4096"

definition policy_ok :: "u32 \<Rightarrow> bool" where
  "policy_ok p \<longleftrightarrow> p = SkVerdictPermit \<or> p = SkVerdictBlock"

definition heap_ok :: "nat set \<Rightarrow> nat set \<Rightarrow> 'a store_scheme \<Rightarrow> bool" where
  "heap_ok Xs Xa w \<longleftrightarrow>
     dom (p_snaps w) = set (tracked w) \<union> Xs \<and>
     distinct (tracked w) \<and> set (tracked w) \<inter> Xs = {} \<and>
     (\<forall>p s a. p_snaps w p = Some s \<and> s_rules s = Some a \<longrightarrow>
        a \<notin> Xa \<and> (\<exists>rs. p_arrays w a = Some rs \<and> length rs = unat (s_count s))) \<and>
     (\<forall>p s. p_snaps w p = Some s \<and> s_rules s = None \<longrightarrow> s_count s = 0) \<and>
     (\<forall>p q s t a. p_snaps w p = Some s \<and> p_snaps w q = Some t \<and>
        s_rules s = Some a \<and> s_rules t = Some a \<longrightarrow> p = q) \<and>
     dom (p_arrays w) = Xa \<union> {a. \<exists>p s. p_snaps w p = Some s \<and> s_rules s = Some a} \<and>
     (\<forall>p\<in>dom (p_snaps w) \<union> dom (p_arrays w). p < p_next w)"

definition snaps_ok :: "'a store_scheme \<Rightarrow> bool" where
  "snaps_ok w \<longleftrightarrow> (\<forall>p\<in>set (tracked w). \<forall>s. p_snaps w p = Some s \<longrightarrow>
     (\<forall>rs. snap_rules w s = Some rs \<longrightarrow> content_ok rs) \<and> policy_ok (s_defaultPolicy s))"

definition readers_ok :: "(nat \<Rightarrow> nat) \<Rightarrow> 'a store_scheme \<Rightarrow> bool" where
  "readers_ok H w \<longleftrightarrow>
     (\<forall>p s. p_snaps w p = Some s \<longrightarrow> rd_rep (rd_count (s_readers s)) (s_retired s = 1) (H p)) \<and>
     (\<forall>p. p_snaps w p = None \<longrightarrow> H p = 0) \<and>
     (\<forall>p\<in>set (opt_list (g_Current w) @ opt_list (g_RollbackSlot w)). \<forall>s.
        p_snaps w p = Some s \<longrightarrow> s_retired s = 0) \<and>
     (\<forall>p\<in>set (g_RetireList w). \<forall>s. p_snaps w p = Some s \<longrightarrow> s_retired s = 1)"

definition flags_ok :: "'a store_scheme \<Rightarrow> bool" where
  "flags_ok w \<longleftrightarrow>
     (g_StoreInited w \<and> \<not> g_StoreClosed w \<longleftrightarrow> g_Current w \<noteq> None) \<and>
     (g_RollbackSlot w \<noteq> None \<longrightarrow> g_Current w \<noteq> None) \<and>
     (\<not> g_StoreInited w \<longrightarrow> g_RetireList w = [])"

definition store_inv :: "nat set \<Rightarrow> nat set \<Rightarrow> (nat \<Rightarrow> nat) \<Rightarrow> 'a store_scheme \<Rightarrow> bool" where
  "store_inv Xs Xa H w \<longleftrightarrow>
     heap_ok Xs Xa w \<and> snaps_ok w \<and> readers_ok H w \<and> flags_ok w \<and> rate_ok (g_RateTable w)"

lemma store_invD:
  assumes "store_inv Xs Xa H w"
  shows "heap_ok Xs Xa w" "snaps_ok w" "readers_ok H w" "flags_ok w" "rate_ok (g_RateTable w)"
  using assms by (simp_all add: store_inv_def)

text \<open>The clauses of \<open>heap_ok\<close> as rules.\<close>

lemma heap_dom: "heap_ok Xs Xa w \<Longrightarrow> dom (p_snaps w) = set (tracked w) \<union> Xs"
  and heap_distinct: "heap_ok Xs Xa w \<Longrightarrow> distinct (tracked w)"
  and heap_disjoint: "heap_ok Xs Xa w \<Longrightarrow> set (tracked w) \<inter> Xs = {}"
  and heap_array: "heap_ok Xs Xa w \<Longrightarrow> p_snaps w p = Some s \<Longrightarrow> s_rules s = Some a \<Longrightarrow>
    a \<notin> Xa \<and> (\<exists>rs. p_arrays w a = Some rs \<and> length rs = unat (s_count s))"
  and heap_empty: "heap_ok Xs Xa w \<Longrightarrow> p_snaps w p = Some s \<Longrightarrow> s_rules s = None \<Longrightarrow> s_count s = 0"
  and heap_inj: "heap_ok Xs Xa w \<Longrightarrow> p_snaps w p = Some s \<Longrightarrow> p_snaps w q = Some t \<Longrightarrow>
    s_rules s = Some a \<Longrightarrow> s_rules t = Some a \<Longrightarrow> p = q"
  and heap_arrays: "heap_ok Xs Xa w \<Longrightarrow>
    dom (p_arrays w) = Xa \<union> {a. \<exists>p s. p_snaps w p = Some s \<and> s_rules s = Some a}"
  and heap_fresh: "heap_ok Xs Xa w \<Longrightarrow> p \<in> dom (p_snaps w) \<union> dom (p_arrays w) \<Longrightarrow> p < p_next w"
  unfolding heap_ok_def by blast+

lemma heap_okI:
  assumes "dom (p_snaps w) = set (tracked w) \<union> Xs" and "distinct (tracked w)"
    and "set (tracked w) \<inter> Xs = {}"
    and "\<And>p s a. p_snaps w p = Some s \<Longrightarrow> s_rules s = Some a \<Longrightarrow>
      a \<notin> Xa \<and> (\<exists>rs. p_arrays w a = Some rs \<and> length rs = unat (s_count s))"
    and "\<And>p s. p_snaps w p = Some s \<Longrightarrow> s_rules s = None \<Longrightarrow> s_count s = 0"
    and "\<And>p q s t a. p_snaps w p = Some s \<Longrightarrow> p_snaps w q = Some t \<Longrightarrow>
      s_rules s = Some a \<Longrightarrow> s_rules t = Some a \<Longrightarrow> p = q"
    and "dom (p_arrays w) = Xa \<union> {a. \<exists>p s. p_snaps w p = Some s \<and> s_rules s = Some a}"
    and "\<And>p. p \<in> dom (p_snaps w) \<union> dom (p_arrays w) \<Longrightarrow> p < p_next w"
  shows "heap_ok Xs Xa w"
  unfolding heap_ok_def
proof (intro conjI)
  show "\<forall>p s a. p_snaps w p = Some s \<and> s_rules s = Some a \<longrightarrow>
      a \<notin> Xa \<and> (\<exists>rs. p_arrays w a = Some rs \<and> length rs = unat (s_count s))"
    by (intro allI impI, elim conjE) (rule assms(4))
  show "\<forall>p s. p_snaps w p = Some s \<and> s_rules s = None \<longrightarrow> s_count s = 0"
    by (intro allI impI, elim conjE) (rule assms(5))
  show "\<forall>p q s t a. p_snaps w p = Some s \<and> p_snaps w q = Some t \<and>
      s_rules s = Some a \<and> s_rules t = Some a \<longrightarrow> p = q"
    by (intro allI impI, elim conjE) (rule assms(6))
  show "\<forall>p\<in>dom (p_snaps w) \<union> dom (p_arrays w). p < p_next w"
    by (intro ballI) (rule assms(8))
qed (rule assms)+

text \<open>Every snapshot can be read.\<close>

lemma heap_snap_rules:
  assumes "heap_ok Xs Xa w" and "p_snaps w p = Some s"
  shows "\<exists>rs. snap_rules w s = Some rs \<and> length rs = unat (s_count s) \<and>
    (s_rules s = None \<longrightarrow> rs = []) \<and> (\<forall>a. s_rules s = Some a \<longrightarrow> p_arrays w a = Some rs)"
proof (cases "s_rules s")
  case None
  then have "s_count s = 0" by (rule heap_empty [OF assms])
  with None show ?thesis by (simp add: snap_rules_def)
next
  case (Some a)
  then obtain rs where "p_arrays w a = Some rs" "length rs = unat (s_count s)"
    using heap_array [OF assms] by blast
  with Some show ?thesis by (simp add: snap_rules_def)
qed

lemma tracked_snap: "heap_ok Xs Xa w \<Longrightarrow> p \<in> set (tracked w) \<Longrightarrow> \<exists>s. p_snaps w p = Some s"
  by (auto simp: heap_ok_def)

lemma current_tracked: "g_Current w = Some p \<Longrightarrow> p \<in> set (tracked w)"
  by (simp add: tracked_def)

lemma slot_tracked: "g_RollbackSlot w = Some p \<Longrightarrow> p \<in> set (tracked w)"
  by (simp add: tracked_def)

lemma retire_tracked: "p \<in> set (g_RetireList w) \<Longrightarrow> p \<in> set (tracked w)"
  by (simp add: tracked_def)

section \<open>The published view\<close>

definition snap_view :: "'a store_scheme \<Rightarrow> nat \<Rightarrow> (rule list \<times> u64 \<times> u32) option" where
  "snap_view w p = do {
     s \<leftarrow> p_snaps w p;
     rs \<leftarrow> snap_rules w s;
     Some (rs, s_version s, s_defaultPolicy s)
   }"

lemma snap_view_cong:
  assumes "p_snaps w' p = p_snaps w p"
    and "\<And>s. p_snaps w p = Some s \<Longrightarrow> snap_rules w' s = snap_rules w s"
  shows "snap_view w' p = snap_view w p"
  using assms by (cases "p_snaps w p") (simp_all add: snap_view_def)

record astore =
  a_rules :: "rule list"
  a_version :: u64
  a_policy :: u32
  a_prev :: "(rule list \<times> u32) option"

definition abs_store :: "'a store_scheme \<Rightarrow> astore option" where
  "abs_store w =
     (case g_Current w of
        None \<Rightarrow> None
      | Some p \<Rightarrow>
          map_option (\<lambda>(rs, v, pol). \<lparr>a_rules = rs, a_version = v, a_policy = pol,
              a_prev = (case g_RollbackSlot w of None \<Rightarrow> None
                | Some q \<Rightarrow> map_option (\<lambda>(rs, v, pol). (rs, pol)) (snap_view w q))\<rparr>)
            (snap_view w p))"

text \<open>
  What a step keeps if it publishes nothing: the two published pointers with their
  contents, the flags, the writer lock; the runtime state only moves forward.
\<close>

definition keeps :: "'a store_scheme \<Rightarrow> 'a store_scheme \<Rightarrow> bool" where
  "keeps w w' \<longleftrightarrow>
     g_Current w' = g_Current w \<and> g_RollbackSlot w' = g_RollbackSlot w \<and>
     g_WriterBusy w' = g_WriterBusy w \<and> g_StoreInited w' = g_StoreInited w \<and>
     g_StoreClosed w' = g_StoreClosed w \<and> g_State w \<le> g_State w' \<and>
     (\<forall>p\<in>set (opt_list (g_Current w) @ opt_list (g_RollbackSlot w)). snap_view w' p = snap_view w p)"

lemma keeps_refl [simp]: "keeps w w"
  by (simp add: keeps_def)

lemma keeps_trans: "keeps u v \<Longrightarrow> keeps v w \<Longrightarrow> keeps u w"
  by (auto simp: keeps_def)

lemma keeps_abs: "keeps w w' \<Longrightarrow> abs_store w' = abs_store w"
  by (auto simp: keeps_def abs_store_def split: option.split)

lemma keepsD:
  assumes "keeps w w'"
  shows "g_Current w' = g_Current w" "g_RollbackSlot w' = g_RollbackSlot w"
    "g_WriterBusy w' = g_WriterBusy w" "g_StoreInited w' = g_StoreInited w"
    "g_StoreClosed w' = g_StoreClosed w" "g_State w \<le> g_State w'"
  using assms by (simp_all add: keeps_def)

lemma snap_rules_cong: "p_arrays w' = p_arrays w \<Longrightarrow> snap_rules w' = snap_rules w"
  by (rule ext) (simp only: snap_rules_def)

lemma snap_rules_frame [simp]:
  "snap_rules (w\<lparr>p_snaps := x\<rparr>) = snap_rules w"
  "snap_rules (w\<lparr>p_next := k\<rparr>) = snap_rules w"
  "snap_rules (w\<lparr>g_Current := c\<rparr>) = snap_rules w"
  "snap_rules (w\<lparr>g_RollbackSlot := c\<rparr>) = snap_rules w"
  "snap_rules (w\<lparr>g_RetireList := l\<rparr>) = snap_rules w"
  "snap_rules (w\<lparr>g_WriterBusy := n\<rparr>) = snap_rules w"
  "snap_rules (w\<lparr>g_StoreInited := b\<rparr>) = snap_rules w"
  "snap_rules (w\<lparr>g_StoreClosed := b\<rparr>) = snap_rules w"
  "snap_rules (w\<lparr>g_RateTable := es\<rparr>) = snap_rules w"
  by (rule snap_rules_cong, simp)+

text \<open>A change of fields outside the store.\<close>

lemma store_inv_cong:
  assumes inv: "store_inv Xs Xa H w"
    and next_le: "p_next w \<le> p_next w'"
    and eqs: "p_snaps w' = p_snaps w" "p_arrays w' = p_arrays w"
      "g_Current w' = g_Current w" "g_RollbackSlot w' = g_RollbackSlot w"
      "g_RetireList w' = g_RetireList w" "g_StoreInited w' = g_StoreInited w"
      "g_StoreClosed w' = g_StoreClosed w" and rate: "rate_ok (g_RateTable w')"
  shows "store_inv Xs Xa H w'"
proof -
  have rules: "snap_rules w' = snap_rules w" by (rule snap_rules_cong) (rule eqs)
  have tr: "tracked w' = tracked w" by (simp add: tracked_def eqs)
  note heap = store_invD(1) [OF inv]
  have "heap_ok Xs Xa w'"
  proof (rule heap_okI)
    show "p < p_next w'" if "p \<in> dom (p_snaps w') \<union> dom (p_arrays w')" for p
      using heap_fresh [OF heap, of p] that next_le by (simp add: eqs)
  qed (use heap in \<open>simp_all only: eqs tr heap_dom heap_distinct heap_disjoint heap_array heap_empty
      heap_inj heap_arrays simp_thms\<close>)
  moreover have "snaps_ok w'" using store_invD(2) [OF inv] by (simp only: snaps_ok_def rules tr eqs)
  moreover have "readers_ok H w'" using store_invD(3) [OF inv] by (simp only: readers_ok_def eqs)
  moreover have "flags_ok w'" using store_invD(4) [OF inv] unfolding flags_ok_def eqs .
  ultimately show ?thesis using rate by (simp add: store_inv_def)
qed

lemma keeps_cong:
  assumes "p_snaps w' = p_snaps w" "p_arrays w' = p_arrays w"
    "g_Current w' = g_Current w" "g_RollbackSlot w' = g_RollbackSlot w"
    "g_WriterBusy w' = g_WriterBusy w" "g_StoreInited w' = g_StoreInited w"
    "g_StoreClosed w' = g_StoreClosed w" "g_State w \<le> g_State w'"
  shows "keeps w w'"
proof -
  have "snap_rules w' = snap_rules w" by (rule snap_rules_cong) (rule assms)
  then have "snap_view w' = snap_view w"
    by (intro ext snap_view_cong) (simp_all add: assms(1))
  then show ?thesis using assms by (simp add: keeps_def)
qed

lemma keepsI:
  assumes "g_Current w' = g_Current w" "g_RollbackSlot w' = g_RollbackSlot w"
    "g_WriterBusy w' = g_WriterBusy w" "g_StoreInited w' = g_StoreInited w"
    "g_StoreClosed w' = g_StoreClosed w" "g_State w \<le> g_State w'"
    and "\<And>q. q \<in> set (tracked w) \<Longrightarrow> snap_view w' q = snap_view w q"
  shows "keeps w w'"
  using assms by (auto simp: keeps_def tracked_def)

text \<open>Changes of the pointers alone.\<close>

lemma heap_relist:
  assumes heap: "heap_ok Xs Xa w"
    and eqs: "p_snaps w' = p_snaps w" "p_arrays w' = p_arrays w" "p_next w' = p_next w"
    and dom: "dom (p_snaps w) = set (tracked w') \<union> Ys"
    and dist: "distinct (tracked w')" "set (tracked w') \<inter> Ys = {}"
  shows "heap_ok Ys Xa w'"
proof (rule heap_okI)
  show "dom (p_snaps w') = set (tracked w') \<union> Ys" unfolding eqs by (rule dom)
  show "distinct (tracked w')" "set (tracked w') \<inter> Ys = {}" by (rule dist)+
  show "a \<notin> Xa \<and> (\<exists>rs. p_arrays w' a = Some rs \<and> length rs = unat (s_count s))"
    if "p_snaps w' p = Some s" "s_rules s = Some a" for p s a
    using heap_array [OF heap] that unfolding eqs by blast
  show "s_count s = 0" if "p_snaps w' p = Some s" "s_rules s = None" for p s
    using heap_empty [OF heap] that unfolding eqs by blast
  show "p = q" if "p_snaps w' p = Some s" "p_snaps w' q = Some t" "s_rules s = Some a"
    "s_rules t = Some a" for p q s t a
    using heap_inj [OF heap] that unfolding eqs by blast
  show "dom (p_arrays w') = Xa \<union> {a. \<exists>p s. p_snaps w' p = Some s \<and> s_rules s = Some a}"
    unfolding eqs by (rule heap_arrays [OF heap])
  show "p < p_next w'" if "p \<in> dom (p_snaps w') \<union> dom (p_arrays w')" for p
    using heap_fresh [OF heap] that unfolding eqs by blast
qed

section \<open>Allocation\<close>

lemma fresh_address:
  assumes "heap_ok Xs Xa w" and "p_next w \<le> k"
  shows "p_snaps w k = None" "p_arrays w k = None" "k \<notin> set (tracked w)" "k \<notin> Xs" "k \<notin> Xa"
proof -
  have "k \<notin> dom (p_snaps w) \<union> dom (p_arrays w)"
    using heap_fresh [OF assms(1), of k] assms(2) by auto
  with heap_dom [OF assms(1)] heap_arrays [OF assms(1)]
  show "p_snaps w k = None" "p_arrays w k = None" "k \<notin> set (tracked w)" "k \<notin> Xs" "k \<notin> Xa"
    by auto
qed

text \<open>A new array extends the pool and disturbs no snapshot.\<close>

lemma snap_rules_new_array:
  assumes "heap_ok Xs Xa w" and "p_snaps w p = Some s" and "p_next w \<le> k"
  shows "snap_rules (w\<lparr>p_next := n, p_arrays := (p_arrays w)(k \<mapsto> rs)\<rparr>) s = snap_rules w s"
proof (cases "s_rules s")
  case (Some a)
  then have "p_arrays w a \<noteq> None" using heap_array [OF assms(1,2)] by auto
  then have "a \<noteq> k" using fresh_address(2) [OF assms(1,3)] by auto
  with Some show ?thesis by (simp add: snap_rules_def)
qed (simp add: snap_rules_def)

lemma alloc_array_inv:
  assumes inv: "store_inv Xs Xa H w" and alloc: "AllocArray ok rs w = (r, w')"
  shows "(case r of
      None \<Rightarrow> \<not> ok (p_next w) \<and> store_inv Xs Xa H w'
    | Some a \<Rightarrow> ok (p_next w) \<and> store_inv Xs (insert a Xa) H w' \<and> p_arrays w' a = Some rs \<and> a \<notin> Xa) \<and>
    keeps w w' \<and> p_next w' = Suc (p_next w) \<and> p_snaps w' = p_snaps w \<and>
    g_RateTable w' = g_RateTable w \<and> g_RetireList w' = g_RetireList w \<and> g_State w' = g_State w"
proof (cases "ok (p_next w)")
  case False
  then have w': "r = None" "w' = w\<lparr>p_next := Suc (p_next w)\<rparr>"
    using alloc by (simp_all add: AllocArray_def Let_def)
  have "store_inv Xs Xa H w'" "keeps w w'"
    by (rule store_inv_cong [OF inv], simp_all add: w' store_invD(5) [OF inv])
      (rule keeps_cong, simp_all)
  then show ?thesis using False by (simp add: w')
next
  case True
  let ?k = "p_next w"
  have w': "r = Some ?k" "w' = w\<lparr>p_next := Suc ?k, p_arrays := (p_arrays w)(?k \<mapsto> rs)\<rparr>"
    using alloc True by (simp_all add: AllocArray_def Let_def)
  note heap = store_invD(1) [OF inv]
  note fresh = fresh_address [OF heap order_refl]
  have rules: "snap_rules w' s = snap_rules w s" if "p_snaps w p = Some s" for p s
    unfolding w' by (rule snap_rules_new_array [OF heap that order_refl])
  have tr: "tracked w' = tracked w" by (simp add: w' tracked_def)
  have "heap_ok Xs (insert ?k Xa) w'"
  proof (rule heap_okI)
    show "dom (p_snaps w') = set (tracked w') \<union> Xs" using heap_dom [OF heap] by (simp add: tr) (simp add: w')
    show "distinct (tracked w')" "set (tracked w') \<inter> Xs = {}"
      using heap_distinct [OF heap] heap_disjoint [OF heap] by (simp_all add: tr)
    show "a \<notin> insert ?k Xa \<and> (\<exists>rs. p_arrays w' a = Some rs \<and> length rs = unat (s_count s))"
      if "p_snaps w' p = Some s" "s_rules s = Some a" for p s a
      using heap_array [OF heap, of p s a] that fresh(2) by (auto simp: w')
    show "s_count s = 0" if "p_snaps w' p = Some s" "s_rules s = None" for p s
      using heap_empty [OF heap, of p s] that by (simp add: w')
    show "p = q" if "p_snaps w' p = Some s" "p_snaps w' q = Some t" "s_rules s = Some a"
      "s_rules t = Some a" for p q s t a
      using heap_inj [OF heap, of p s q t a] that by (simp add: w')
    show "dom (p_arrays w') = insert ?k Xa \<union> {a. \<exists>p s. p_snaps w' p = Some s \<and> s_rules s = Some a}"
      using heap_arrays [OF heap] by (auto simp: w')
    show "p < p_next w'" if "p \<in> dom (p_snaps w') \<union> dom (p_arrays w')" for p
    proof (cases "p = ?k")
      case False
      then have "p \<in> dom (p_snaps w) \<union> dom (p_arrays w)" using that by (auto simp: w')
      then show ?thesis using heap_fresh [OF heap] by (auto simp: w' intro: less_SucI)
    qed (simp add: w')
  qed
  moreover have "p_snaps w' = p_snaps w" by (simp add: w')
  then have "snaps_ok w'"
    using store_invD(2) [OF inv] rules by (simp add: snaps_ok_def tr)
  moreover have "readers_ok H w'" "flags_ok w'"
    using store_invD(3,4) [OF inv] by (simp_all add: w' readers_ok_def flags_ok_def)
  moreover have "keeps w w'"
    using rules snap_view_cong [of w' _ w] by (simp add: keeps_def w')
  ultimately show ?thesis
    using store_invD(5) [OF inv] True fresh(5) by (simp add: store_inv_def w')
qed

lemma snap_alloc_inv:
  assumes inv: "store_inv Xs Xa H w" and alloc: "SkSnapAlloc ok w = (r, w')"
  shows "(case r of
      None \<Rightarrow> \<not> ok (p_next w) \<and> store_inv Xs Xa H w' \<and> p_snaps w' = p_snaps w
    | Some p \<Rightarrow> ok (p_next w) \<and> store_inv (insert p Xs) Xa H w' \<and> p_snaps w' p = Some new_snapshot \<and>
        p \<notin> Xs \<and> p \<notin> set (tracked w) \<and> H p = 0 \<and> p_snaps w' = (p_snaps w)(p \<mapsto> new_snapshot)) \<and>
    keeps w w' \<and> p_next w' = Suc (p_next w) \<and> p_arrays w' = p_arrays w \<and>
    g_RateTable w' = g_RateTable w \<and> g_RetireList w' = g_RetireList w \<and> g_State w' = g_State w"
proof (cases "ok (p_next w)")
  case False
  then have w': "r = None" "w' = w\<lparr>p_next := Suc (p_next w)\<rparr>"
    using alloc by (simp_all add: SkSnapAlloc_def Let_def)
  have "store_inv Xs Xa H w'" "keeps w w'"
    by (rule store_inv_cong [OF inv], simp_all add: w' store_invD(5) [OF inv])
      (rule keeps_cong, simp_all)
  then show ?thesis using False by (simp add: w')
next
  case True
  let ?k = "p_next w"
  have w': "r = Some ?k" "w' = w\<lparr>p_next := Suc ?k, p_snaps := (p_snaps w)(?k \<mapsto> new_snapshot)\<rparr>"
    using alloc True by (simp_all add: SkSnapAlloc_def Let_def)
  note heap = store_invD(1) [OF inv]
  note fresh = fresh_address [OF heap order_refl]
  have rules: "snap_rules w' = snap_rules w" by (rule snap_rules_cong) (simp add: w')
  have tr: "tracked w' = tracked w" by (simp add: w' tracked_def)
  have new: "s_rules new_snapshot = None" "s_count new_snapshot = 0" "s_retired new_snapshot = 0"
    "rd_rep (rd_count (s_readers new_snapshot)) False 0"
    by (simp_all add: new_snapshot_def init_rep)
  have "heap_ok (insert ?k Xs) Xa w'"
  proof (rule heap_okI)
    show "dom (p_snaps w') = set (tracked w') \<union> insert ?k Xs"
      unfolding tr using heap_dom [OF heap] by (auto simp: w')
    show "distinct (tracked w')" "set (tracked w') \<inter> insert ?k Xs = {}"
      unfolding tr using heap_distinct [OF heap] heap_disjoint [OF heap] fresh(3) by auto
    show "a \<notin> Xa \<and> (\<exists>rs. p_arrays w' a = Some rs \<and> length rs = unat (s_count s))"
      if "p_snaps w' p = Some s" "s_rules s = Some a" for p s a
      using heap_array [OF heap, of p s a] that new(1) by (auto simp: w' split: if_splits)
    show "s_count s = 0" if "p_snaps w' p = Some s" "s_rules s = None" for p s
      using heap_empty [OF heap, of p s] that new(2) by (auto simp: w' split: if_splits)
    show "p = q" if "p_snaps w' p = Some s" "p_snaps w' q = Some t" "s_rules s = Some a"
      "s_rules t = Some a" for p q s t a
      using heap_inj [OF heap, of p s q t a] that new(1) by (auto simp: w' split: if_splits)
    show "dom (p_arrays w') = Xa \<union> {a. \<exists>p s. p_snaps w' p = Some s \<and> s_rules s = Some a}"
    proof -
      have "(\<exists>p s. p_snaps w' p = Some s \<and> s_rules s = Some a) \<longleftrightarrow>
          (\<exists>p s. p_snaps w p = Some s \<and> s_rules s = Some a)" for a
        unfolding w' using new(1) fresh(1) by (auto split: if_splits) (metis option.distinct(1))
      then show ?thesis using heap_arrays [OF heap] by (simp add: w')
    qed
    show "p < p_next w'" if "p \<in> dom (p_snaps w') \<union> dom (p_arrays w')" for p
    proof (cases "p = ?k")
      case False
      then have "p \<in> dom (p_snaps w) \<union> dom (p_arrays w)" using that by (auto simp: w')
      then show ?thesis using heap_fresh [OF heap] by (auto simp: w' intro: less_SucI)
    qed (simp add: w')
  qed
  moreover have "snaps_ok w'"
    using store_invD(2) [OF inv] fresh(3) unfolding snaps_ok_def tr rules
    by (auto simp: w' split: if_splits)
  moreover have H0: "H ?k = 0"
    using store_invD(3) [OF inv] fresh(1) by (simp add: readers_ok_def)
  then have "readers_ok H w'"
    using store_invD(3) [OF inv] fresh(1,3) new(3,4) unfolding readers_ok_def tracked_def
    by (auto simp: w' split: if_splits)
  moreover have "flags_ok w'" using store_invD(4) [OF inv] by (simp add: w' flags_ok_def)
  moreover have "keeps w w'"
  proof -
    have "snap_view w' p = snap_view w p" if "p \<in> set (tracked w)" for p
      by (rule snap_view_cong) (use that fresh(3) in \<open>auto simp: w'\<close>)
    then show ?thesis by (auto simp: keeps_def tracked_def w')
  qed
  ultimately show ?thesis
    using store_invD(5) [OF inv] True fresh H0 by (simp add: store_inv_def w')
qed

section \<open>Updates of a snapshot header\<close>

lemma snap_rules_meta:
  "s_rules s' = s_rules s \<Longrightarrow> s_count s' = s_count s \<Longrightarrow> snap_rules w s' = snap_rules w s"
  by (simp only: snap_rules_def)

lemma heap_meta:
  assumes heap: "heap_ok Xs Xa w" and p: "p_snaps w p = Some s"
    and meta: "s_rules s' = s_rules s" "s_count s' = s_count s"
  shows "heap_ok Xs Xa (w\<lparr>p_snaps := (p_snaps w)(p \<mapsto> s')\<rparr>)" (is "heap_ok Xs Xa ?w")
proof (rule heap_okI)
  have tr: "tracked ?w = tracked w" by (simp add: tracked_def)
  have orig: "\<exists>t0. p_snaps w q = Some t0 \<and> s_rules t0 = s_rules t \<and> s_count t0 = s_count t"
    if "p_snaps ?w q = Some t" for q t
    using that p meta by (auto split: if_splits)
  show "dom (p_snaps ?w) = set (tracked ?w) \<union> Xs"
    unfolding tr using heap_dom [OF heap] p by auto
  show "distinct (tracked ?w)" "set (tracked ?w) \<inter> Xs = {}"
    unfolding tr by (rule heap_distinct [OF heap], rule heap_disjoint [OF heap])
  show "a \<notin> Xa \<and> (\<exists>rs. p_arrays ?w a = Some rs \<and> length rs = unat (s_count t))"
    if "p_snaps ?w q = Some t" "s_rules t = Some a" for q t a
    using orig [OF that(1)] that(2) heap_array [OF heap, of q _ a] by auto
  show "s_count t = 0" if "p_snaps ?w q = Some t" "s_rules t = None" for q t
    using orig [OF that(1)] that(2) heap_empty [OF heap, of q] by auto
  show "q1 = q2" if "p_snaps ?w q1 = Some t1" "p_snaps ?w q2 = Some t2" "s_rules t1 = Some a"
    "s_rules t2 = Some a" for q1 q2 t1 t2 a
    using orig [OF that(1)] orig [OF that(2)] that(3,4) heap_inj [OF heap, of q1 _ q2 _ a] by auto
  show "dom (p_arrays ?w) = Xa \<union> {a. \<exists>q t. p_snaps ?w q = Some t \<and> s_rules t = Some a}"
  proof -
    have "(\<exists>q t. p_snaps ?w q = Some t \<and> s_rules t = Some a) \<longleftrightarrow>
        (\<exists>q t. p_snaps w q = Some t \<and> s_rules t = Some a)" for a
    proof
      assume "\<exists>q t. p_snaps ?w q = Some t \<and> s_rules t = Some a"
      then show "\<exists>q t. p_snaps w q = Some t \<and> s_rules t = Some a" using orig by fastforce
    next
      assume "\<exists>q t. p_snaps w q = Some t \<and> s_rules t = Some a"
      then obtain q t where "p_snaps w q = Some t" "s_rules t = Some a" by blast
      then have "p_snaps ?w q = Some (if q = p then s' else t)"
        "s_rules (if q = p then s' else t) = Some a"
        using p meta by auto
      then show "\<exists>q t. p_snaps ?w q = Some t \<and> s_rules t = Some a" by blast
    qed
    then show ?thesis using heap_arrays [OF heap] by simp
  qed
  show "q < p_next ?w" if "q \<in> dom (p_snaps ?w) \<union> dom (p_arrays ?w)" for q
    using heap_fresh [OF heap, of q] that p by (auto split: if_splits)
qed

text \<open>
  A header write that keeps the rules: on an owned snapshot anything else may change, on a
  published one the version, the policy and the retired mark stay.
\<close>

lemma meta_inv:
  assumes inv: "store_inv Xs Xa H w" and p: "p_snaps w p = Some s"
    and meta: "s_rules s' = s_rules s" "s_count s' = s_count s" "s_retired s' = s_retired s"
    and pub: "p \<in> set (tracked w) \<Longrightarrow> s_defaultPolicy s' = s_defaultPolicy s"
    and rep: "rd_rep (rd_count (s_readers s')) (s_retired s = 1) (H' p)"
    and H': "\<And>q. q \<noteq> p \<Longrightarrow> H' q = H q"
  shows "store_inv Xs Xa H' (w\<lparr>p_snaps := (p_snaps w)(p \<mapsto> s')\<rparr>)" (is "store_inv Xs Xa H' ?w")
proof -
  have rules: "snap_rules ?w t = snap_rules w t" for t by simp
  have tr: "tracked ?w = tracked w" by (simp add: tracked_def)
  have "snaps_ok ?w"
    unfolding snaps_ok_def tr rules
  proof (intro ballI allI impI)
    fix q t assume q: "q \<in> set (tracked w)" "p_snaps ?w q = Some t"
    show "(\<forall>rs. snap_rules w t = Some rs \<longrightarrow> content_ok rs) \<and> policy_ok (s_defaultPolicy t)"
    proof (cases "q = p")
      case True
      with q have "t = s'" by simp
      with q True p pub store_invD(2) [OF inv] show ?thesis
        by (simp add: snaps_ok_def snap_rules_meta [OF meta(1,2)])
    next
      case False
      with q store_invD(2) [OF inv] show ?thesis by (simp add: snaps_ok_def)
    qed
  qed
  moreover have "readers_ok H' ?w"
    using store_invD(3) [OF inv] p meta(3) rep H' unfolding readers_ok_def
    by (auto split: if_splits)
  moreover have "flags_ok ?w" using store_invD(4) [OF inv] by (simp add: flags_ok_def)
  ultimately show ?thesis
    using heap_meta [OF store_invD(1) [OF inv] p meta(1,2)] store_invD(5) [OF inv]
    by (simp add: store_inv_def)
qed

lemma meta_view:
  assumes "p_snaps w p = Some s" "s_rules s' = s_rules s" "s_count s' = s_count s"
    and "p \<in> set (opt_list (g_Current w) @ opt_list (g_RollbackSlot w)) \<Longrightarrow>
      s_version s' = s_version s \<and> s_defaultPolicy s' = s_defaultPolicy s"
  shows "keeps w (w\<lparr>p_snaps := (p_snaps w)(p \<mapsto> s')\<rparr>)" (is "keeps w ?w")
proof -
  have rules: "snap_rules ?w t = snap_rules w t" for t by simp
  show ?thesis
    using assms snap_rules_meta [OF assms(2,3), of w] by (auto simp: keeps_def snap_view_def rules)
qed

text \<open>Handing an owned array to an owned fresh snapshot.\<close>

lemma fill_inv:
  assumes inv: "store_inv Xs Xa H w" and X: "p \<in> Xs" and p: "p_snaps w p = Some s"
    and empty: "s_rules s = None" and a: "a \<in> Xa" "p_arrays w a = Some rs"
    and n: "unat n = length rs"
    and s': "s_rules s' = Some a" "s_count s' = n" "s_retired s' = s_retired s"
      "s_readers s' = s_readers s"
  shows "store_inv Xs (Xa - {a}) H (w\<lparr>p_snaps := (p_snaps w)(p \<mapsto> s')\<rparr>)" (is "store_inv _ _ _ ?w")
proof -
  note heap = store_invD(1) [OF inv]
  have tr: "tracked ?w = tracked w" by (simp add: tracked_def)
  have pt: "p \<notin> set (tracked w)" using heap_disjoint [OF heap] X by auto
  have unused: "s_rules t \<noteq> Some a" if "p_snaps w q = Some t" for q t
    using heap_array [OF heap that, of a] a(1) by auto
  have "heap_ok Xs (Xa - {a}) ?w"
  proof (rule heap_okI)
    show "dom (p_snaps ?w) = set (tracked ?w) \<union> Xs" unfolding tr using heap_dom [OF heap] p by auto
    show "distinct (tracked ?w)" "set (tracked ?w) \<inter> Xs = {}"
      unfolding tr by (rule heap_distinct [OF heap], rule heap_disjoint [OF heap])
    show "b \<notin> Xa - {a} \<and> (\<exists>rs. p_arrays ?w b = Some rs \<and> length rs = unat (s_count t))"
      if "p_snaps ?w q = Some t" "s_rules t = Some b" for q t b
      using that s' a n heap_array [OF heap, of q t b] by (auto split: if_splits)
    show "s_count t = 0" if "p_snaps ?w q = Some t" "s_rules t = None" for q t
      using that s' heap_empty [OF heap, of q t] by (auto split: if_splits)
    show "q1 = q2" if "p_snaps ?w q1 = Some t1" "p_snaps ?w q2 = Some t2" "s_rules t1 = Some b"
      "s_rules t2 = Some b" for q1 q2 t1 t2 b
      using that s'(1) unused heap_inj [OF heap, of q1 t1 q2 t2 b] by (auto split: if_splits)
    show "dom (p_arrays ?w) = (Xa - {a}) \<union> {b. \<exists>q t. p_snaps ?w q = Some t \<and> s_rules t = Some b}"
    proof -
      have "(\<exists>q t. p_snaps ?w q = Some t \<and> s_rules t = Some b) \<longleftrightarrow>
          b = a \<or> (\<exists>q t. p_snaps w q = Some t \<and> s_rules t = Some b)" for b
        using s'(1) p empty by (auto split: if_splits) (metis option.distinct(1) option.inject)
      then show ?thesis using heap_arrays [OF heap] a(1) unused by auto
    qed
    show "q < p_next ?w" if "q \<in> dom (p_snaps ?w) \<union> dom (p_arrays ?w)" for q
      using heap_fresh [OF heap, of q] that p by (auto split: if_splits)
  qed
  moreover have "snaps_ok ?w"
    using store_invD(2) [OF inv] pt unfolding snaps_ok_def tr by (auto split: if_splits)
  moreover have "readers_ok H ?w"
    using store_invD(3) [OF inv] p s'(3,4) unfolding readers_ok_def by (auto split: if_splits)
  moreover have "flags_ok ?w" using store_invD(4) [OF inv] by (simp add: flags_ok_def)
  ultimately show ?thesis using store_invD(5) [OF inv] by (simp add: store_inv_def)
qed

section \<open>Freeing\<close>

lemma free_array_inv:
  assumes inv: "store_inv Xs Xa H w" and a: "a \<in> Xa"
  shows "\<exists>w'. FreeArray a w = Some w' \<and> store_inv Xs (Xa - {a}) H w' \<and> keeps w w'"
proof -
  note heap = store_invD(1) [OF inv]
  let ?w = "w\<lparr>p_arrays := (p_arrays w)(a := None)\<rparr>"
  have tr: "tracked ?w = tracked w" by (simp add: tracked_def)
  have "p_arrays w a \<noteq> None" using heap_arrays [OF heap] a by auto
  then have eq: "FreeArray a w = Some ?w" by (simp add: FreeArray_def)
  have unused: "s_rules t \<noteq> Some a" if "p_snaps w q = Some t" for q t
    using heap_array [OF heap that, of a] a(1) by auto
  have rules: "snap_rules ?w t = snap_rules w t" if "p_snaps w q = Some t" for q t
    using unused [OF that] by (cases "s_rules t") (auto simp: snap_rules_def)
  have "heap_ok Xs (Xa - {a}) ?w"
  proof (rule heap_okI)
    show "dom (p_snaps ?w) = set (tracked ?w) \<union> Xs" unfolding tr using heap_dom [OF heap] by simp
    show "distinct (tracked ?w)" "set (tracked ?w) \<inter> Xs = {}"
      unfolding tr by (rule heap_distinct [OF heap], rule heap_disjoint [OF heap])
    show "b \<notin> Xa - {a} \<and> (\<exists>rs. p_arrays ?w b = Some rs \<and> length rs = unat (s_count t))"
      if "p_snaps ?w q = Some t" "s_rules t = Some b" for q t b
      using that heap_array [OF heap, of q t b] unused [of q t] by auto
    show "s_count t = 0" if "p_snaps ?w q = Some t" "s_rules t = None" for q t
      using that heap_empty [OF heap, of q t] by simp
    show "q1 = q2" if "p_snaps ?w q1 = Some t1" "p_snaps ?w q2 = Some t2" "s_rules t1 = Some b"
      "s_rules t2 = Some b" for q1 q2 t1 t2 b
      using that heap_inj [OF heap, of q1 t1 q2 t2 b] by simp
    show "dom (p_arrays ?w) = (Xa - {a}) \<union> {b. \<exists>q t. p_snaps ?w q = Some t \<and> s_rules t = Some b}"
      using heap_arrays [OF heap] unused by auto
    show "q < p_next ?w" if "q \<in> dom (p_snaps ?w) \<union> dom (p_arrays ?w)" for q
      using heap_fresh [OF heap, of q] that by (auto split: if_splits)
  qed
  moreover have "snaps_ok ?w"
    using store_invD(2) [OF inv] rules unfolding snaps_ok_def tr by simp
  moreover have "readers_ok H ?w" "flags_ok ?w"
    using store_invD(3,4) [OF inv] by (simp_all add: readers_ok_def flags_ok_def)
  moreover have "keeps w ?w"
    using rules snap_view_cong [of ?w _ w] by (simp add: keeps_def)
  ultimately show ?thesis using eq store_invD(5) [OF inv] by (simp add: store_inv_def)
qed

lemma snap_free_inv:
  assumes inv: "store_inv Xs Xa H w" and X: "p \<in> Xs" and H: "H p = 0"
  shows "\<exists>w'. SkSnapFree p w = Some w' \<and> store_inv (Xs - {p}) Xa H w' \<and> keeps w w' \<and>
    p_snaps w' = (p_snaps w)(p := None) \<and> g_RetireList w' = g_RetireList w \<and>
    g_State w' = g_State w \<and> g_RateTable w' = g_RateTable w \<and> p_next w' = p_next w \<and>
    (\<forall>q. q \<noteq> p \<longrightarrow> snap_view w' q = snap_view w q)"
proof -
  note heap = store_invD(1) [OF inv]
  obtain s where s: "p_snaps w p = Some s" using heap_dom [OF heap] X by blast
  have pt: "p \<notin> set (tracked w)" using heap_disjoint [OF heap] X by auto
  let ?arr = "case s_rules s of None \<Rightarrow> p_arrays w | Some a \<Rightarrow> (p_arrays w)(a := None)"
  let ?w = "w\<lparr>p_arrays := ?arr, p_snaps := (p_snaps w)(p := None)\<rparr>"
  have eq: "SkSnapFree p w = Some ?w"
  proof (cases "s_rules s")
    case None
    then show ?thesis by (simp add: SkSnapFree_def s free_array_opt_def FreeSnap_def)
  next
    case (Some a)
    then have "p_arrays w a \<noteq> None" using heap_array [OF heap s Some] by auto
    with Some show ?thesis
      by (simp add: SkSnapFree_def s free_array_opt_def FreeSnap_def FreeArray_def)
  qed
  have tr: "tracked ?w = tracked w" by (simp add: tracked_def)
  have other: "s_rules s \<noteq> Some b" if "p_snaps w q = Some t" "q \<noteq> p" "s_rules t = Some b" for q t b
    using heap_inj [OF heap s that(1), of b] that(2,3) by auto
  have arr: "?arr b = p_arrays w b" if "p_snaps w q = Some t" "q \<noteq> p" "s_rules t = Some b" for q t b
    using other [OF that] by (cases "s_rules s") auto
  have rules: "snap_rules ?w t = snap_rules w t" if "p_snaps w q = Some t" "q \<noteq> p" for q t
  proof (cases "s_rules t")
    case (Some b)
    show ?thesis using arr [OF that Some] Some by (simp add: snap_rules_def)
  qed (simp add: snap_rules_def)
  have "heap_ok (Xs - {p}) Xa ?w"
  proof (rule heap_okI)
    show "dom (p_snaps ?w) = set (tracked ?w) \<union> (Xs - {p})"
      unfolding tr using heap_dom [OF heap] pt by auto
    show "distinct (tracked ?w)" "set (tracked ?w) \<inter> (Xs - {p}) = {}"
      unfolding tr using heap_distinct [OF heap] heap_disjoint [OF heap] by auto
    show "b \<notin> Xa \<and> (\<exists>rs. p_arrays ?w b = Some rs \<and> length rs = unat (s_count t))"
      if "p_snaps ?w q = Some t" "s_rules t = Some b" for q t b
      using that heap_array [OF heap, of q t b] arr [of q t b] by (auto split: if_splits)
    show "s_count t = 0" if "p_snaps ?w q = Some t" "s_rules t = None" for q t
      using that heap_empty [OF heap, of q t] by (auto split: if_splits)
    show "q1 = q2" if "p_snaps ?w q1 = Some t1" "p_snaps ?w q2 = Some t2" "s_rules t1 = Some b"
      "s_rules t2 = Some b" for q1 q2 t1 t2 b
      using that heap_inj [OF heap, of q1 t1 q2 t2 b] by (auto split: if_splits)
    show "dom (p_arrays ?w) = Xa \<union> {b. \<exists>q t. p_snaps ?w q = Some t \<and> s_rules t = Some b}"
    proof -
      have ref: "(\<exists>q t. p_snaps ?w q = Some t \<and> s_rules t = Some b) \<longleftrightarrow>
          s_rules s \<noteq> Some b \<and> (\<exists>q t. p_snaps w q = Some t \<and> s_rules t = Some b)" for b
        using s other by (auto split: if_splits) (metis option.inject)
      have "s_rules s = Some b \<Longrightarrow> b \<notin> Xa" for b using heap_array [OF heap s, of b] by auto
      then have "dom ?arr = Xa \<union> {b. s_rules s \<noteq> Some b \<and>
          (\<exists>q t. p_snaps w q = Some t \<and> s_rules t = Some b)}"
        using heap_arrays [OF heap] by (cases "s_rules s") auto
      then show ?thesis unfolding ref by simp
    qed
    show "q < p_next ?w" if "q \<in> dom (p_snaps ?w) \<union> dom (p_arrays ?w)" for q
    proof -
      have "q \<in> dom (p_snaps w) \<union> dom (p_arrays w)"
        using that by (cases "s_rules s") (auto split: if_splits)
      then show ?thesis using heap_fresh [OF heap] by simp
    qed
  qed
  moreover have "snaps_ok ?w"
    using store_invD(2) [OF inv] pt rules unfolding snaps_ok_def tr
    by (auto split: if_splits)
  moreover have "readers_ok H ?w"
    using store_invD(3) [OF inv] H unfolding readers_ok_def by (auto split: if_splits)
  moreover have "flags_ok ?w" using store_invD(4) [OF inv] by (simp add: flags_ok_def)
  moreover have view: "snap_view ?w q = snap_view w q" if "q \<noteq> p" for q
  proof (rule snap_view_cong)
    show "p_snaps ?w q = p_snaps w q" using that by simp
    show "snap_rules ?w t = snap_rules w t" if "p_snaps w q = Some t" for t
      using rules that \<open>q \<noteq> p\<close> by blast
  qed
  moreover have "keeps w ?w"
  proof (rule keepsI)
    show "snap_view ?w q = snap_view w q" if "q \<in> set (tracked w)" for q
      by (rule view) (use that pt in auto)
  qed simp_all
  ultimately have "store_inv (Xs - {p}) Xa H ?w" "keeps w ?w"
    using store_invD(5) [OF inv] by (simp_all add: store_inv_def)
  with eq view show ?thesis by (intro exI [of _ ?w] conjI allI impI) simp_all
qed

section \<open>Retiring\<close>

text \<open>Detaching snapshots from the retire list, for freeing or for the forced drain.\<close>

lemma detach_inv:
  assumes inv: "store_inv Xs Xa H w" and mset: "mset (g_RetireList w) = mset (D @ rest)"
  shows "store_inv (Xs \<union> set D) Xa H (w\<lparr>g_RetireList := rest\<rparr>)" (is "store_inv _ _ _ ?w")
    and "keeps w (w\<lparr>g_RetireList := rest\<rparr>)" and "set D \<inter> Xs = {}" and "distinct D"
proof -
  note heap = store_invD(1) [OF inv]
  have set_eq: "set (g_RetireList w) = set D \<union> set rest" using mset_eq_setD [OF mset] by auto
  have "distinct (g_RetireList w)" using heap_distinct [OF heap] by (simp add: tracked_def)
  then have dist: "distinct (D @ rest)" using mset_eq_imp_distinct_iff [OF mset] by simp
  then show "distinct D" by simp
  show "set D \<inter> Xs = {}" using heap_disjoint [OF heap] set_eq by (auto simp: tracked_def)
  have sub: "set (tracked ?w) \<subseteq> set (tracked w)" using set_eq by (auto simp: tracked_def)
  have "heap_ok (Xs \<union> set D) Xa ?w"
    by (rule heap_relist [OF heap])
      (use heap_dom [OF heap] heap_distinct [OF heap] heap_disjoint [OF heap] set_eq dist
        in \<open>auto simp: tracked_def\<close>)
  moreover have "snaps_ok ?w"
    using store_invD(2) [OF inv] sub unfolding snaps_ok_def by auto
  moreover have "readers_ok H ?w"
    using store_invD(3) [OF inv] set_eq unfolding readers_ok_def by auto
  moreover have "flags_ok ?w"
    using store_invD(4) [OF inv] set_eq unfolding flags_ok_def by auto
  ultimately show "store_inv (Xs \<union> set D) Xa H ?w"
    using store_invD(5) [OF inv] by (simp add: store_inv_def)
  show "keeps w ?w" by (rule keeps_cong) simp_all
qed

text \<open>Retiring an owned snapshot: it becomes tracked on the retire list.\<close>

lemma retire_snap_inv:
  assumes inv: "store_inv Xs Xa H w" and X: "p \<in> Xs" and p: "p_snaps w p = Some s"
    and content: "\<And>rs. snap_rules w s = Some rs \<Longrightarrow> content_ok rs" "policy_ok (s_defaultPolicy s)"
    and open_store: "g_StoreInited w"
  shows "\<exists>w' s'. retire_snap p w = Some w' \<and> store_inv (Xs - {p}) Xa H w' \<and> keeps w w' \<and>
    g_RetireList w' = g_RetireList w @ [p] \<and> g_State w' = g_State w \<and>
    g_RateTable w' = g_RateTable w \<and> p_snaps w' = (p_snaps w)(p \<mapsto> s') \<and>
    s_rules s' = s_rules s \<and> s_count s' = s_count s \<and> s_version s' = s_version s \<and>
    s_defaultPolicy s' = s_defaultPolicy s \<and> p_arrays w' = p_arrays w \<and> p_next w' = p_next w"
proof -
  note heap = store_invD(1) [OF inv]
  let ?s = "s\<lparr>s_readers := ShRundownBeginStop (s_readers s), s_retired := 1\<rparr>"
  let ?v = "w\<lparr>p_snaps := (p_snaps w)(p \<mapsto> ?s)\<rparr>"
  let ?w = "?v\<lparr>g_RetireList := g_RetireList w @ [p]\<rparr>"
  have eq: "retire_snap p w = Some ?w" by (simp add: retire_snap_def upd_snap_def p)
  have pt: "p \<notin> set (tracked w)" using heap_disjoint [OF heap] X by auto
  have heap_v: "heap_ok Xs Xa ?v" by (rule heap_meta [OF heap p]) simp_all
  have tv: "tracked ?v = tracked w" by (simp add: tracked_def)
  have rules: "snap_rules w ?s = snap_rules w s" by (rule snap_rules_meta) simp_all
  have "rd_rep (rd_count (s_readers s)) (s_retired s = 1) (H p)"
    using store_invD(3) [OF inv] p by (simp add: readers_ok_def)
  then have rep: "rd_rep (rd_count (ShRundownBeginStop (s_readers s))) True (H p)"
    by (rule begin_stop_rep)
  have "heap_ok (Xs - {p}) Xa ?w"
    by (rule heap_relist [OF heap_v])
      (use heap_dom [OF heap] heap_distinct [OF heap] heap_disjoint [OF heap] X p pt
        in \<open>auto simp: tracked_def\<close>)
  moreover have "snaps_ok ?w"
    using store_invD(2) [OF inv] content pt unfolding snaps_ok_def tracked_def
    by (auto simp: rules split: if_splits)
  moreover have "readers_ok H ?w"
    using store_invD(3) [OF inv] p pt rep unfolding readers_ok_def tracked_def
    by (auto split: if_splits)
  moreover have "flags_ok ?w" using store_invD(4) [OF inv] open_store by (simp add: flags_ok_def)
  moreover have "keeps w ?w"
  proof (rule keepsI)
    show "snap_view ?w q = snap_view w q" if "q \<in> set (tracked w)" for q
      by (rule snap_view_cong) (use that pt in auto)
  qed simp_all
  ultimately show ?thesis
    using eq store_invD(5) [OF inv] by (intro exI [of _ ?w] exI [of _ ?s]) (simp add: store_inv_def)
qed

section \<open>The retire list drain\<close>

lemma retire_scan_total:
  assumes "\<forall>p\<in>set ps. \<exists>s. p_snaps w p = Some s"
  shows "\<exists>D rest. retire_scan w ps = Some (D, rest) \<and> mset ps = mset (D @ rest) \<and>
    (\<forall>p\<in>set D. \<exists>s. p_snaps w p = Some s \<and> ShRundownActiveCount (s_readers s) = - 1) \<and>
    rest = filter (\<lambda>p. \<forall>s. p_snaps w p = Some s \<longrightarrow> ShRundownActiveCount (s_readers s) \<noteq> - 1) ps"
  using assms
proof (induction ps)
  case (Cons p ps)
  then obtain s D rest where s: "p_snaps w p = Some s"
    and IH: "retire_scan w ps = Some (D, rest)" "mset ps = mset (D @ rest)"
      "\<forall>p\<in>set D. \<exists>s. p_snaps w p = Some s \<and> ShRundownActiveCount (s_readers s) = - 1"
      "rest = filter (\<lambda>p. \<forall>s. p_snaps w p = Some s \<longrightarrow> ShRundownActiveCount (s_readers s) \<noteq> - 1) ps"
    by auto
  show ?case
    using s IH by (cases "ShRundownActiveCount (s_readers s) = - 1") auto
qed simp

lemma free_all_inv:
  assumes "store_inv Xs Xa H w" and "set D \<subseteq> Xs" and "distinct D" and "\<forall>p\<in>set D. H p = 0"
  shows "\<exists>w'. free_all D w = Some w' \<and> store_inv (Xs - set D) Xa H w' \<and> keeps w w' \<and>
    p_snaps w' = (\<lambda>p. if p \<in> set D then None else p_snaps w p) \<and> g_RetireList w' = g_RetireList w \<and>
    g_State w' = g_State w \<and> g_RateTable w' = g_RateTable w \<and> p_next w' = p_next w \<and>
    (\<forall>q. q \<notin> set D \<longrightarrow> snap_view w' q = snap_view w q)"
  using assms
proof (induction D arbitrary: Xs w)
  case (Cons p D)
  then have X: "p \<in> Xs" "H p = 0" "p \<notin> set D" by auto
  from snap_free_inv [OF Cons.prems(1) X(1,2)] obtain v where v:
    "SkSnapFree p w = Some v" "store_inv (Xs - {p}) Xa H v" "keeps w v"
    "p_snaps v = (p_snaps w)(p := None)" "g_RetireList v = g_RetireList w" "g_State v = g_State w"
    "g_RateTable v = g_RateTable w" "p_next v = p_next w"
    "\<forall>q. q \<noteq> p \<longrightarrow> snap_view v q = snap_view w q" by blast
  have "set D \<subseteq> Xs - {p}" "distinct D" "\<forall>p\<in>set D. H p = 0" using Cons.prems X(3) by auto
  from Cons.IH [OF v(2) this] obtain w' where w': "free_all D v = Some w'"
    "store_inv (Xs - {p} - set D) Xa H w'" "keeps v w'"
    "p_snaps w' = (\<lambda>q. if q \<in> set D then None else p_snaps v q)" "g_RetireList w' = g_RetireList v"
    "g_State w' = g_State v" "g_RateTable w' = g_RateTable v" "p_next w' = p_next v"
    "\<forall>q. q \<notin> set D \<longrightarrow> snap_view w' q = snap_view v q" by blast
  have "Xs - {p} - set D = Xs - set (p # D)" by auto
  moreover have "p_snaps w' = (\<lambda>q. if q \<in> set (p # D) then None else p_snaps w q)"
    by (rule ext) (simp add: w'(4) v(4))
  ultimately show ?case using v w' keeps_trans [OF v(3) w'(3)] by auto
qed auto

lemma retire_round_inv:
  assumes inv: "store_inv Xs Xa H w"
  shows "\<exists>w' D. retire_round w = Some w' \<and> store_inv Xs Xa H w' \<and> keeps w w' \<and>
    (\<forall>p\<in>set D. H p = 0) \<and> set D \<subseteq> set (g_RetireList w) \<and>
    p_snaps w' = (\<lambda>p. if p \<in> set D then None else p_snaps w p) \<and>
    set (g_RetireList w') = {p \<in> set (g_RetireList w). 0 < H p} \<and>
    g_State w' = g_State w \<and> g_RateTable w' = g_RateTable w \<and> p_next w' = p_next w \<and>
    (\<forall>q. q \<notin> set D \<longrightarrow> snap_view w' q = snap_view w q)"
proof -
  note heap = store_invD(1) [OF inv]
  have ex: "\<forall>p\<in>set (g_RetireList w). \<exists>s. p_snaps w p = Some s"
    using tracked_snap [OF heap] retire_tracked by blast
  from retire_scan_total [OF this] obtain D rest where D:
    "retire_scan w (g_RetireList w) = Some (D, rest)" "mset (g_RetireList w) = mset (D @ rest)"
    "\<forall>p\<in>set D. \<exists>s. p_snaps w p = Some s \<and> ShRundownActiveCount (s_readers s) = - 1"
    "rest = filter (\<lambda>p. \<forall>s. p_snaps w p = Some s \<longrightarrow> ShRundownActiveCount (s_readers s) \<noteq> - 1)
       (g_RetireList w)"
    by blast
  have drained: "ShRundownActiveCount (s_readers s) = - 1 \<longleftrightarrow> H p = 0"
    if "p \<in> set (g_RetireList w)" "p_snaps w p = Some s" for p s
  proof -
    have "rd_rep (rd_count (s_readers s)) True (H p)"
      using store_invD(3) [OF inv] that unfolding readers_ok_def by fastforce
    then show ?thesis using active_count_drained_iff by blast
  qed
  have sub: "set D \<subseteq> set (g_RetireList w)" using mset_eq_setD [OF D(2)] by auto
  have H0: "\<forall>p\<in>set D. H p = 0" using D(3) drained sub by blast
  have rest: "set rest = {p \<in> set (g_RetireList w). 0 < H p}"
    unfolding D(4) using ex drained by fastforce
  define v where "v = w\<lparr>g_RetireList := rest\<rparr>"
  have v: "p_snaps v = p_snaps w" "g_RetireList v = rest" "g_State v = g_State w"
    "g_RateTable v = g_RateTable w" "p_next v = p_next w"
    by (simp_all add: v_def)
  note det = detach_inv [OF inv D(2), folded v_def]
  have "set D \<subseteq> Xs \<union> set D" by simp
  from free_all_inv [OF det(1) this det(4) H0] obtain w' where w':
    "free_all D v = Some w'" "store_inv (Xs \<union> set D - set D) Xa H w'" "keeps v w'"
    "p_snaps w' = (\<lambda>p. if p \<in> set D then None else p_snaps w p)"
    "g_RetireList w' = rest" "g_State w' = g_State w" "g_RateTable w' = g_RateTable w"
    "p_next w' = p_next w" "\<forall>q. q \<notin> set D \<longrightarrow> snap_view w' q = snap_view v q"
    unfolding v by blast
  have "snap_view v = snap_view w" by (intro ext snap_view_cong) (simp_all add: v_def)
  with w'(9) have view: "\<forall>q. q \<notin> set D \<longrightarrow> snap_view w' q = snap_view w q" by simp
  have "Xs \<union> set D - set D = Xs" using det(3) by auto
  with w'(2) have "store_inv Xs Xa H w'" by simp
  moreover have "retire_round w = Some w'" using w'(1) by (simp add: retire_round_def D(1) v_def)
  moreover note keeps_trans [OF det(2) w'(3)] H0 sub w'(4,6,7,8) view
  moreover have "set (g_RetireList w') = {p \<in> set (g_RetireList w). 0 < H p}"
    using rest by (simp only: w'(5))
  ultimately show ?thesis by blast
qed

section \<open>The other threads\<close>

text \<open>
  What a sleeping writer may rely on: the other threads leave pointers, flags, blocks and
  the writer lock alone, keep the invariant, take new references on the current snapshot
  only, and move the runtime state forward only. Readers, classify calls and a teardown
  behave like this, and so does any sequence of them (\<open>StoreReaders\<close>).
\<close>

definition snap_core :: "snapshot \<Rightarrow> nat option \<times> u32 \<times> u64 \<times> u32 \<times> u32" where
  "snap_core s = (s_rules s, s_count s, s_version s, s_defaultPolicy s, s_retired s)"

definition same_core :: "'a store_scheme \<Rightarrow> 'a store_scheme \<Rightarrow> bool" where
  "same_core w w' \<longleftrightarrow>
     p_next w' = p_next w \<and> p_arrays w' = p_arrays w \<and> g_Current w' = g_Current w \<and>
     g_RollbackSlot w' = g_RollbackSlot w \<and> g_RetireList w' = g_RetireList w \<and>
     g_WriterBusy w' = g_WriterBusy w \<and> g_StoreInited w' = g_StoreInited w \<and>
     g_StoreClosed w' = g_StoreClosed w \<and> g_State w \<le> g_State w' \<and>
     (\<forall>p. map_option snap_core (p_snaps w' p) = map_option snap_core (p_snaps w p))"

lemma same_core_refl [simp]: "same_core w w"
  by (simp add: same_core_def)

lemma same_core_trans: "same_core u v \<Longrightarrow> same_core v w \<Longrightarrow> same_core u w"
  by (auto simp: same_core_def)

lemma same_core_view: "same_core w w' \<Longrightarrow> snap_view w' p = snap_view w p"
proof -
  assume core: "same_core w w'"
  then have rules: "snap_rules w' = snap_rules w" by (intro snap_rules_cong) (simp add: same_core_def)
  have maps: "map_option snap_core (p_snaps w' p) = map_option snap_core (p_snaps w p)"
    using core by (simp add: same_core_def)
  show ?thesis
  proof (cases "p_snaps w p")
    case None
    with maps show ?thesis by (simp add: snap_view_def)
  next
    case (Some s)
    with maps obtain t where t: "p_snaps w' p = Some t" "snap_core t = snap_core s" by auto
    have "snap_rules w t = snap_rules w s"
      by (rule snap_rules_meta) (use t(2) in \<open>simp_all add: snap_core_def\<close>)
    with Some t show ?thesis by (simp add: snap_view_def rules snap_core_def)
  qed
qed

lemma same_core_keeps: "same_core w w' \<Longrightarrow> keeps w w'"
  by (rule keepsI) (simp_all add: same_core_view, simp_all add: same_core_def)

text \<open>The contents of owned snapshots, and whether they are retired.\<close>

definition owned_same :: "nat set \<Rightarrow> 'a store_scheme \<Rightarrow> 'a store_scheme \<Rightarrow> bool" where
  "owned_same Xs w w' \<longleftrightarrow> p_next w' = p_next w \<and>
     (\<forall>p\<in>Xs. snap_view w' p = snap_view w p \<and>
        map_option s_retired (p_snaps w' p) = map_option s_retired (p_snaps w p))"

lemma owned_same_trans: "owned_same Xs u v \<Longrightarrow> owned_same Xs v w \<Longrightarrow> owned_same Xs u w"
  by (simp add: owned_same_def)

lemma same_core_owned: "same_core w w' \<Longrightarrow> owned_same Xs w w'"
proof -
  assume core: "same_core w w'"
  have "map_option s_retired (p_snaps w' p) = map_option s_retired (p_snaps w p)" for p
  proof -
    have "map_option snap_core (p_snaps w' p) = map_option snap_core (p_snaps w p)"
      using core by (simp add: same_core_def)
    then show ?thesis
      by (cases "p_snaps w' p"; cases "p_snaps w p") (auto simp: snap_core_def)
  qed
  with core show ?thesis by (simp add: owned_same_def same_core_view) (simp add: same_core_def)
qed

locale store_env =
  fixes slp :: "'a store_scheme \<Rightarrow> 'a store_scheme"
  assumes env: "store_inv Xs Xa H w \<Longrightarrow>
    \<exists>H'. store_inv Xs Xa H' (slp w) \<and> same_core w (slp w) \<and>
      (\<forall>p. g_Current w \<noteq> Some p \<longrightarrow> H' p \<le> H p)"
begin

lemma env_owned:
  assumes "store_inv Xs Xa H w"
  shows "\<exists>H'. store_inv Xs Xa H' (slp w) \<and> keeps w (slp w) \<and> owned_same Xs w (slp w) \<and>
    (\<forall>p\<in>Xs. H' p \<le> H p) \<and> g_RetireList (slp w) = g_RetireList w"
proof -
  from env [OF assms] obtain H' where H': "store_inv Xs Xa H' (slp w)" "same_core w (slp w)"
    "\<forall>p. g_Current w \<noteq> Some p \<longrightarrow> H' p \<le> H p" by blast
  have "\<forall>p\<in>Xs. g_Current w \<noteq> Some p"
    using heap_disjoint [OF store_invD(1) [OF assms]] current_tracked by blast
  with H'(3) have "\<forall>p\<in>Xs. H' p \<le> H p" by blast
  moreover have "g_RetireList (slp w) = g_RetireList w" using H'(2) by (simp add: same_core_def)
  ultimately show ?thesis
    using H'(1) same_core_keeps [OF H'(2)] same_core_owned [OF H'(2)] by blast
qed

text \<open>The pre-publish drain terminates without a fault and keeps what is published.\<close>

lemma retire_drain_inv:
  assumes "store_inv Xs Xa H w"
  shows "\<exists>w' H'. SkRetireDrain slp n w = Some w' \<and> store_inv Xs Xa H' w' \<and> keeps w w' \<and>
    owned_same Xs w w' \<and> (\<forall>p\<in>Xs. H' p \<le> H p)"
  using assms
proof (induction n arbitrary: w H)
  case (0 w H)
  from retire_round_inv [OF this] obtain v D where v: "retire_round w = Some v" "store_inv Xs Xa H v"
    "keeps w v" "set D \<subseteq> set (g_RetireList w)" "p_next v = p_next w"
    "p_snaps v = (\<lambda>p. if p \<in> set D then None else p_snaps w p)"
    "\<forall>q. q \<notin> set D \<longrightarrow> snap_view v q = snap_view w q" by blast
  have "\<forall>p\<in>Xs. p \<notin> set D"
    using heap_disjoint [OF store_invD(1) [OF 0]] v(4) retire_tracked by blast
  with v show ?case by (auto simp: owned_same_def)
next
  case (Suc n w H)
  from retire_round_inv [OF Suc.prems] obtain v D where v: "retire_round w = Some v"
    "store_inv Xs Xa H v" "keeps w v" "set D \<subseteq> set (g_RetireList w)" "p_next v = p_next w"
    "p_snaps v = (\<lambda>p. if p \<in> set D then None else p_snaps w p)"
    "\<forall>q. q \<notin> set D \<longrightarrow> snap_view v q = snap_view w q" by blast
  have "\<forall>p\<in>Xs. p \<notin> set D"
    using heap_disjoint [OF store_invD(1) [OF Suc.prems]] v(4) retire_tracked by blast
  with v have own: "owned_same Xs w v" by (auto simp: owned_same_def)
  show ?case
  proof (cases "g_RetireList v = []")
    case True
    with v own show ?thesis by auto
  next
    case False
    from env_owned [OF v(2)] obtain H1 where H1: "store_inv Xs Xa H1 (slp v)" "keeps v (slp v)"
      "owned_same Xs v (slp v)" "\<forall>p\<in>Xs. H1 p \<le> H p" by blast
    from Suc.IH [OF H1(1)] obtain w' H' where w': "SkRetireDrain slp n (slp v) = Some w'"
      "store_inv Xs Xa H' w'" "keeps (slp v) w'" "owned_same Xs (slp v) w'" "\<forall>p\<in>Xs. H' p \<le> H1 p"
      by blast
    have "keeps w w'" using v(3) H1(2) w'(3) keeps_trans by blast
    moreover have "owned_same Xs w w'" using own H1(3) w'(4) owned_same_trans by blast
    moreover have "\<forall>p\<in>Xs. H' p \<le> H p" using H1(4) w'(5) order_trans by blast
    moreover have "SkRetireDrain slp (Suc n) w = Some w'" using v(1) False w'(1) by simp
    ultimately show ?thesis using w'(2) by blast
  qed
qed

end

end
