(* ===== verification/StorePublish.thy ===== *)
theory StorePublish
  imports StoreInvariant
begin

text \<open>
  Publication, rollback publication and shutdown of the rule store: the writer sections and
  the functions \<open>SkPublish\<close>, \<open>rollback_publish\<close> and \<open>SkRuleStoreShutdown\<close> under the
  invariant, for any behaviour of the other threads that \<open>store_env\<close> allows.
\<close>

section \<open>Buckets of removed rules\<close>

lemma rate_table_inv:
  assumes "store_inv Xs Xa H w" and "rate_ok es"
  shows "store_inv Xs Xa H (w\<lparr>g_RateTable := es\<rparr>)" and "keeps w (w\<lparr>g_RateTable := es\<rparr>)"
proof -
  show "store_inv Xs Xa H (w\<lparr>g_RateTable := es\<rparr>)"
    by (rule store_inv_cong [OF assms(1)]) (simp_all add: assms(2))
  show "keeps w (w\<lparr>g_RateTable := es\<rparr>)" by (rule keeps_cong) simp_all
qed

lemma rate_reset_inv:
  assumes "store_inv Xs Xa H w"
  shows "store_inv Xs Xa H (SkRuleRateReset rid w) \<and> keeps w (SkRuleRateReset rid w) \<and>
    rate_bucket rid (g_RateTable (SkRuleRateReset rid w)) = None \<and>
    set (bucket_ids (g_RateTable (SkRuleRateReset rid w))) \<subseteq> set (bucket_ids (g_RateTable w))"
  using rate_table_inv [OF assms, of "rate_reset rid (g_RateTable w)"]
    reset_ok [OF store_invD(5) [OF assms], of rid]
    bucket_in_ids [of rid "rate_reset rid (g_RateTable w)"]
  by (auto simp: SkRuleRateReset_def)

lemma snap_ids_view:
  "snap_view w p = Some (rs, v, pol) \<Longrightarrow> snap_ids w (Some p) = Some (map r_ruleId rs)"
  by (auto simp: snap_view_def snap_ids_def bind_eq_Some_conv)

lemma reset_removed_inv:
  assumes inv: "store_inv Xs Xa H w"
    and old: "snap_view w old = Some (rs, v, pol)" and new: "snap_view w new = Some (rs', v', pol')"
  shows "\<exists>es. SkRateResetRemoved (Some old) (Some new) w = Some (w\<lparr>g_RateTable := es\<rparr>) \<and>
    store_inv Xs Xa H (w\<lparr>g_RateTable := es\<rparr>) \<and> keeps w (w\<lparr>g_RateTable := es\<rparr>) \<and>
    (\<forall>r\<in>set rs. r_ruleId r \<notin> set (map r_ruleId rs') \<longrightarrow> rate_bucket (r_ruleId r) es = None)"
proof -
  let ?P = "\<lambda>i. \<not> list_ex (\<lambda>j. j = i) (map r_ruleId rs')"
  let ?f = "foldl (\<lambda>w i. if ?P i then SkRuleRateReset i w else w) w (map r_ruleId rs)"
  obtain es where es: "?f = w\<lparr>g_RateTable := es\<rparr>" using reset_where_frame [where P = ?P and w = w and ks = "map r_ruleId rs"] by blast
  have ok: "rate_ok es" and ids: "set (bucket_ids es)
      = set (bucket_ids (g_RateTable w)) - {i \<in> set (map r_ruleId rs). ?P i}"
    using rate.reset_where [OF store_invD(5) [OF inv], of ?P "map r_ruleId rs"]
    unfolding es by simp_all
  have "rate_bucket (r_ruleId r) es = None"
    if "r \<in> set rs" "r_ruleId r \<notin> set (map r_ruleId rs')" for r
  proof -
    have "r_ruleId r \<notin> set (bucket_ids es)" using that unfolding ids by (auto simp: list_ex_iff)
    then show ?thesis using bucket_in_ids by blast
  qed
  moreover have "SkRateResetRemoved (Some old) (Some new) w = Some (w\<lparr>g_RateTable := es\<rparr>)"
    using es by (simp add: SkRateResetRemoved_def snap_ids_view [OF old] snap_ids_view [OF new])
  ultimately show ?thesis using rate_table_inv [OF inv ok] by blast
qed

section \<open>Moving the pointers\<close>

text \<open>
  Installing an owned live snapshot as current and moving the old current to the slot; the
  old slot becomes owned.
\<close>

lemma install_inv:
  assumes inv: "store_inv Xs Xa H w" and X: "snap \<in> Xs" and snap: "p_snaps w snap = Some s"
    and live: "s_retired s = 0"
    and content: "\<And>rs. snap_rules w s = Some rs \<Longrightarrow> content_ok rs" "policy_ok (s_defaultPolicy s)"
    and ptrs: "set (opt_list slot @ rl) \<union> Ys = set (opt_list (g_Current w) @ opt_list (g_RollbackSlot w))
        \<union> set (g_RetireList w) \<union> (Xs - {snap})"
      "distinct (opt_list slot @ rl)" "set (opt_list slot @ rl) \<inter> Ys = {}"
      "snap \<notin> Ys" "snap \<notin> set (opt_list slot @ rl)"
      "set (opt_list slot) \<subseteq> set (opt_list (g_Current w))" "set rl \<subseteq> set (g_RetireList w)"
    and op: "g_StoreInited w" "\<not> g_StoreClosed w"
  shows "store_inv Ys Xa H (w\<lparr>g_Current := Some snap, g_RollbackSlot := slot, g_RetireList := rl\<rparr>)"
    (is "store_inv Ys Xa H ?w")
proof -
  note heap = store_invD(1) [OF inv]
  have tr: "set (tracked ?w) = insert snap (set (opt_list slot) \<union> set rl)"
    by (auto simp: tracked_def)
  have sub: "set (opt_list slot) \<subseteq> set (tracked w)" "set rl \<subseteq> set (tracked w)"
    using ptrs(6,7) by (auto simp: tracked_def)
  have "heap_ok Ys Xa ?w"
  proof (rule heap_relist [OF heap])
    have "set (tracked w) \<union> Xs = set (tracked ?w) \<union> Ys"
      using ptrs(1) X unfolding tr by (auto simp: tracked_def)
    then show "dom (p_snaps w) = set (tracked ?w) \<union> Ys" using heap_dom [OF heap] by simp
    show "distinct (tracked ?w)" using ptrs(2,5) by (simp add: tracked_def)
    show "set (tracked ?w) \<inter> Ys = {}" unfolding tr using ptrs(3,4) by auto
  qed simp_all
  moreover have "snaps_ok ?w"
    unfolding snaps_ok_def
  proof (intro ballI allI impI)
    fix q t assume q: "q \<in> set (tracked ?w)" "p_snaps ?w q = Some t"
    show "(\<forall>rs. snap_rules ?w t = Some rs \<longrightarrow> content_ok rs) \<and> policy_ok (s_defaultPolicy t)"
    proof (cases "q = snap")
      case True
      with q snap content show ?thesis by simp
    next
      case False
      with q(1) sub have "q \<in> set (tracked w)" unfolding tr by auto
      with q(2) store_invD(2) [OF inv] show ?thesis by (simp add: snaps_ok_def)
    qed
  qed
  moreover have "readers_ok H ?w"
    using store_invD(3) [OF inv] snap live ptrs(6,7) unfolding readers_ok_def by auto
  moreover have "flags_ok ?w" using op by (simp add: flags_ok_def)
  ultimately show ?thesis using store_invD(5) [OF inv] by (simp add: store_inv_def)
qed

lemma retire_snap_set_current:
  "retire_snap p (w\<lparr>g_Current := c\<rparr>) = map_option (\<lambda>w. w\<lparr>g_Current := c\<rparr>) (retire_snap p w)"
  by (cases "p_snaps w p") (simp_all add: retire_snap_def upd_snap_def)

section \<open>The writer section of a publication\<close>

lemma owned_view:
  assumes "store_inv Xs Xa H w" and "snap_view w p = Some (rs, v, pol)"
  obtains s where "p_snaps w p = Some s" "snap_rules w s = Some rs" "s_version s = v"
    "s_defaultPolicy s = pol"
  using assms(2) by (auto simp: snap_view_def bind_eq_Some_conv)

lemma version_inv:
  assumes inv: "store_inv Xs Xa H w" and X: "snap \<in> Xs"
    and view: "snap_view w snap = Some (rs, v, pol)"
  shows "\<exists>s w'. p_snaps w snap = Some s \<and>
    upd_snap snap (\<lambda>s. s\<lparr>s_version := ver\<rparr>) w = Some w' \<and> store_inv Xs Xa H w' \<and>
    w' = w\<lparr>p_snaps := (p_snaps w)(snap \<mapsto> s\<lparr>s_version := ver\<rparr>)\<rparr> \<and>
    snap_view w' snap = Some (rs, ver, pol) \<and> (\<forall>q. q \<noteq> snap \<longrightarrow> snap_view w' q = snap_view w q)"
proof -
  obtain s where s: "p_snaps w snap = Some s" "snap_rules w s = Some rs" "s_defaultPolicy s = pol"
    using owned_view [OF inv view] by metis
  let ?w = "w\<lparr>p_snaps := (p_snaps w)(snap \<mapsto> s\<lparr>s_version := ver\<rparr>)\<rparr>"
  have rules: "snap_rules w (s\<lparr>s_version := ver\<rparr>) = snap_rules w s" by (rule snap_rules_meta) simp_all
  have "store_inv Xs Xa H ?w"
    by (rule meta_inv [OF inv s(1)]) (use store_invD(3) [OF inv] s(1) in \<open>simp_all add: readers_ok_def\<close>)
  moreover have "snap_view ?w snap = Some (rs, ver, pol)"
    using s rules by (simp add: snap_view_def)
  moreover have "snap_view ?w q = snap_view w q" if "q \<noteq> snap" for q
    by (rule snap_view_cong) (use that in simp_all)
  ultimately show ?thesis using s(1) by (intro exI [of _ s] exI [of _ ?w]) (simp add: upd_snap_def)
qed

text \<open>
  A closed gate leaves everything as it is; an open one publishes the snapshot with the
  next version, moves the old current to the slot and retires the old slot.
\<close>

lemma publish_section_inv:
  assumes inv: "store_inv Xs Xa H w" and X: "snap \<in> Xs" "g_Current w \<noteq> Some snap"
    and view: "snap_view w snap = Some (rs, v, pol)"
    and live: "map_option s_retired (p_snaps w snap) = Some 0"
    and content: "content_ok rs" "policy_ok pol"
    and writable: "SkStoreWritableNoLock w"
  shows "\<exists>old cur w'. g_Current w = Some old \<and> p_snaps w old = Some cur \<and>
    publish_section snap w = Some (Inr (old, w')) \<and> store_inv (Xs - {snap}) Xa H w' \<and>
    g_Current w' = Some snap \<and> g_RollbackSlot w' = Some old \<and>
    g_WriterBusy w' = g_WriterBusy w \<and> g_StoreInited w' = g_StoreInited w \<and>
    g_StoreClosed w' = g_StoreClosed w \<and> g_State w' = g_State w \<and>
    snap_view w' snap = Some (rs, s_version cur + 1, pol) \<and> snap_view w' old = snap_view w old"
proof -
  note heap = store_invD(1) [OF inv]
  have op: "g_StoreInited w" "\<not> g_StoreClosed w" using writable by (simp_all add: SkStoreWritableNoLock_def)
  then obtain old where old: "g_Current w = Some old"
    using store_invD(4) [OF inv] by (auto simp: flags_ok_def)
  then obtain cur where cur: "p_snaps w old = Some cur"
    using tracked_snap [OF heap current_tracked] by blast
  have neq: "old \<noteq> snap" using old X(2) by auto
  let ?ver = "s_version cur + 1"
  from version_inv [OF inv X(1) view, of ?ver] obtain s w1 where w1:
    "p_snaps w snap = Some s" "upd_snap snap (\<lambda>s. s\<lparr>s_version := ?ver\<rparr>) w = Some w1"
    "store_inv Xs Xa H w1" "w1 = w\<lparr>p_snaps := (p_snaps w)(snap \<mapsto> s\<lparr>s_version := ?ver\<rparr>)\<rparr>"
    "snap_view w1 snap = Some (rs, ?ver, pol)" "\<forall>q. q \<noteq> snap \<longrightarrow> snap_view w1 q = snap_view w q"
    by blast
  obtain s1 where s1: "p_snaps w1 snap = Some s1" "snap_rules w1 s1 = Some rs" "s_defaultPolicy s1 = pol"
    using owned_view [OF w1(3,5)] by metis
  have live1: "s_retired s1 = 0" using live w1(1) s1(1) by (simp add: w1(4)) auto
  define Ys where "Ys = Xs - {snap} \<union> set (opt_list (g_RollbackSlot w))"
  let ?w2 = "w1\<lparr>g_Current := Some snap, g_RollbackSlot := Some old, g_RetireList := g_RetireList w\<rparr>"
  have fields: "g_Current w1 = Some old" "g_RollbackSlot w1 = g_RollbackSlot w"
    "g_RetireList w1 = g_RetireList w" "g_StoreInited w1" "\<not> g_StoreClosed w1"
    using op old by (simp_all add: w1(4))
  have dist: "distinct (tracked w)" "set (tracked w) \<inter> Xs = {}"
    using heap_distinct [OF heap] heap_disjoint [OF heap] by simp_all
  have snapt: "snap \<notin> set (tracked w)" using dist(2) X(1) by auto
  have "store_inv Ys Xa H ?w2"
    by (rule install_inv [OF w1(3) X(1) s1(1) live1])
      (use s1(2,3) content dist snapt old in \<open>auto simp: fields Ys_def tracked_def\<close>)
  then have inv2: "store_inv Ys Xa H ?w2" .
  have view2: "snap_view ?w2 q = snap_view w1 q" for q
    by (rule snap_view_cong) (simp_all add: fields)
  show ?thesis
  proof (cases "g_RollbackSlot w")
    case None
    have "publish_section snap w = Some (Inr (old, ?w2))"
      using writable old cur w1(2) None fields(2,3)
      by (simp add: publish_section_def)
    moreover have "Ys = Xs - {snap}" using None by (simp add: Ys_def)
    ultimately show ?thesis
      using inv2 old cur w1(4,5,6) neq view2 by auto
  next
    case (Some rb)
    have rbY: "rb \<in> Ys" by (simp add: Ys_def Some)
    have rbt: "rb \<in> set (tracked w)" by (simp add: tracked_def Some)
    have rbn: "rb \<noteq> snap" "rb \<noteq> old"
      using rbt snapt dist(1) old by (auto simp: tracked_def Some)
    obtain rbs where rbs: "p_snaps w rb = Some rbs" using tracked_snap [OF heap rbt] by blast
    have rbs2: "p_snaps ?w2 rb = Some rbs" using rbs rbn(1) by (simp add: w1(4))
    have rcont: "\<And>rs. snap_rules ?w2 rbs = Some rs \<Longrightarrow> content_ok rs" "policy_ok (s_defaultPolicy rbs)"
      using store_invD(2) [OF inv] rbt rbs by (auto simp: snaps_ok_def w1(4))
    have "g_StoreInited ?w2" using op by (simp add: w1(4))
    from retire_snap_inv [OF inv2 rbY rbs2 rcont this] obtain w3 where w3:
      "retire_snap rb ?w2 = Some w3" "store_inv (Ys - {rb}) Xa H w3" "keeps ?w2 w3"
      "g_State w3 = g_State ?w2" by blast
    have "Ys - {rb} = Xs - {snap}"
      using dist(2) rbt by (auto simp: Ys_def Some)
    moreover have "publish_section snap w = Some (Inr (old, w3))"
    proof -
      have "?w2 = (w1\<lparr>g_RollbackSlot := Some old\<rparr>)\<lparr>g_Current := Some snap\<rparr>"
        using fields(3) by simp
      then have "map_option (\<lambda>w. w\<lparr>g_Current := Some snap\<rparr>)
          (retire_snap rb (w1\<lparr>g_RollbackSlot := Some old\<rparr>)) = Some w3"
        using w3(1) by (simp only: retire_snap_set_current)
      then show ?thesis
        using writable old cur w1(2) Some fields(2) by (auto simp: publish_section_def)
    qed
    ultimately show ?thesis
      using w3 old cur w1(4,5,6) neq view2 by (auto simp: keeps_def)
  qed
qed

section \<open>SkPublish\<close>

text \<open>
  The outcome of a writer: success with the new abstract store, or one of the two late
  failures with the abstract store unchanged. Each late failure has its cause.
\<close>

definition commits ::
    "(nat \<Rightarrow> bool) \<Rightarrow> 'a store_scheme \<Rightarrow> ntstatus \<Rightarrow> 'a store_scheme \<Rightarrow> astore \<Rightarrow> bool" where
  "commits ok w st w' A' \<longleftrightarrow>
     (st = STATUS_SUCCESS \<and> abs_store w' = Some A') \<or>
     (st = STATUS_INSUFFICIENT_RESOURCES \<and> (\<exists>k\<ge>p_next w. \<not> ok k) \<and> abs_store w' = abs_store w) \<or>
     (st = STATUS_INVALID_DEVICE_STATE \<and> \<not> ShRuntimeIsActive w' \<and> abs_store w' = abs_store w)"

text \<open>The buckets of rules that a publication removed are gone.\<close>

definition buckets_cleared :: "rule list \<Rightarrow> rule list \<Rightarrow> 'a store_scheme \<Rightarrow> bool" where
  "buckets_cleared old new w \<longleftrightarrow>
     (\<forall>r\<in>set old. r_ruleId r \<notin> set (map r_ruleId new) \<longrightarrow> rate_bucket (r_ruleId r) (g_RateTable w) = None)"

lemma abs_store_view:
  "g_Current w = Some p \<Longrightarrow> snap_view w p = Some (rs, v, pol) \<Longrightarrow>
   abs_store w = Some \<lparr>a_rules = rs, a_version = v, a_policy = pol,
     a_prev = (case g_RollbackSlot w of None \<Rightarrow> None
       | Some q \<Rightarrow> map_option (\<lambda>(rs, v, pol). (rs, pol)) (snap_view w q))\<rparr>"
  by (simp add: abs_store_def)

text \<open>An open store has an abstract value, read off its current snapshot.\<close>

lemma abs_store_open:
  assumes inv: "store_inv Xs Xa H w" and cur: "g_Current w = Some p"
  shows "\<exists>s rs A. p_snaps w p = Some s \<and> snap_rules w s = Some rs \<and> abs_store w = Some A \<and>
    a_rules A = rs \<and> a_version A = s_version s \<and> a_policy A = s_defaultPolicy s \<and>
    snap_view w p = Some (rs, s_version s, s_defaultPolicy s) \<and>
    length rs = unat (s_count s) \<and> content_ok rs \<and> policy_ok (s_defaultPolicy s)"
proof -
  note heap = store_invD(1) [OF inv]
  have t: "p \<in> set (tracked w)" using cur by (rule current_tracked)
  obtain s where s: "p_snaps w p = Some s" using tracked_snap [OF heap t] by blast
  obtain rs where rs: "snap_rules w s = Some rs" "length rs = unat (s_count s)"
    using heap_snap_rules [OF heap s] by blast
  have view: "snap_view w p = Some (rs, s_version s, s_defaultPolicy s)"
    by (simp add: snap_view_def s rs(1))
  show ?thesis
    using s rs view abs_store_view [OF cur view] store_invD(2) [OF inv] t by (auto simp: snaps_ok_def)
qed

lemma keeps_gate: "keeps w w' \<Longrightarrow> ShRuntimeIsActive w' \<Longrightarrow> g_State w \<noteq> ShinkenUninitialized \<Longrightarrow> ShRuntimeIsActive w"
  by (cases "g_State w"; cases "g_State w'")
    (auto simp: keeps_def ShRuntimeIsActive_def less_eq_runtime_state_def)

text \<open>The array a caller hands over: owned, with the announced length.\<close>

definition hands :: "'a store_scheme \<Rightarrow> nat option \<Rightarrow> u32 \<Rightarrow> rule list \<Rightarrow> bool" where
  "hands w rules n rs \<longleftrightarrow> length rs = unat n \<and>
     (case rules of None \<Rightarrow> rs = [] | Some a \<Rightarrow> p_arrays w a = Some rs)"

lemma free_array_opt_inv:
  assumes "store_inv Xs (set_option rules) H w"
  shows "\<exists>w'. free_array_opt rules w = Some w' \<and> store_inv Xs {} H w' \<and> keeps w w'"
proof (cases rules)
  case None
  with assms show ?thesis by (simp add: free_array_opt_def)
next
  case (Some a)
  with free_array_inv [OF assms, of a] show ?thesis by (simp add: free_array_opt_def)
qed

text \<open>A new snapshot with the array in it.\<close>

lemma new_snap_inv:
  assumes inv: "store_inv {} (set_option rules) H w" and hands: "hands w rules n rs"
    and alloc: "SkSnapAlloc ok w = (Some snap, w1)"
  shows "\<exists>w2. upd_snap snap (\<lambda>s. s\<lparr>s_rules := rules, s_count := n, s_defaultPolicy := pol\<rparr>) w1 = Some w2 \<and>
    store_inv {snap} {} H w2 \<and> keeps w w2 \<and> snap_view w2 snap = Some (rs, 0, pol) \<and>
    map_option s_retired (p_snaps w2 snap) = Some 0 \<and> H snap = 0 \<and> g_RateTable w2 = g_RateTable w \<and>
    g_State w2 = g_State w"
proof -
  from snap_alloc_inv [OF inv alloc] have w1: "store_inv {snap} (set_option rules) H w1"
    "p_snaps w1 snap = Some new_snapshot" "H snap = 0" "keeps w w1" "p_arrays w1 = p_arrays w"
    "g_RateTable w1 = g_RateTable w" "g_State w1 = g_State w"
    by simp_all
  have nt: "snap \<notin> set (tracked w1)" using heap_disjoint [OF store_invD(1) [OF w1(1)]] by auto
  let ?s = "new_snapshot\<lparr>s_rules := rules, s_count := n, s_defaultPolicy := pol\<rparr>"
  let ?w2 = "w1\<lparr>p_snaps := (p_snaps w1)(snap \<mapsto> ?s)\<rparr>"
  have new: "s_rules new_snapshot = None" "s_count new_snapshot = 0" "s_version new_snapshot = 0"
    "s_retired new_snapshot = 0"
    by (simp_all add: new_snapshot_def)
  have rep: "rd_rep (rd_count (s_readers new_snapshot)) False (H snap)"
    by (simp add: new_snapshot_def init_rep w1(3))
  have "store_inv {snap} {} H ?w2"
  proof (cases rules)
    case None
    then have "unat n = 0" using hands by (auto simp: hands_def)
    then have "n = 0" by (simp only: unsigned_eq_0_iff)
    have "store_inv {snap} (set_option rules) H ?w2"
      by (rule meta_inv [OF w1(1,2)])
        (use None \<open>n = 0\<close> new nt rep in auto)
    with None show ?thesis by simp
  next
    case (Some a)
    have "store_inv {snap} (set_option rules - {a}) H ?w2"
      by (rule fill_inv [OF w1(1) _ w1(2) new(1), where rs = rs and n = n])
        (use Some hands w1(5) in \<open>simp_all add: hands_def\<close>)
    with Some show ?thesis by simp
  qed
  moreover have "snap_rules w1 ?s = Some rs"
    using hands w1(5) by (cases rules) (auto simp: hands_def snap_rules_def unsigned_eq_0_iff)
  then have "snap_view ?w2 snap = Some (rs, 0, pol)" using new(3) by (simp add: snap_view_def)
  moreover have "keeps w1 ?w2"
  proof (rule keepsI)
    show "snap_view ?w2 q = snap_view w1 q" if "q \<in> set (tracked w1)" for q
      by (rule snap_view_cong) (use that nt in auto)
  qed simp_all
  then have "keeps w ?w2" using w1(4) keeps_trans by blast
  ultimately show ?thesis using w1 new(4) by (intro exI [of _ ?w2]) (simp add: upd_snap_def)
qed

context store_env
begin

lemma publish_inv:
  assumes inv: "store_inv {} (set_option rules) H w" and hands: "hands w rules n rs"
    and content: "content_ok rs" "policy_ok pol"
    and cur: "g_Current w = Some c" and abs: "abs_store w = Some A"
  shows "\<exists>st w' H'. SkPublish ok slp rules n pol w = Some (st, w') \<and> store_inv {} {} H' w' \<and>
    commits ok w st w' \<lparr>a_rules = rs, a_version = a_version A + 1, a_policy = pol,
      a_prev = Some (a_rules A, a_policy A)\<rparr> \<and>
    g_WriterBusy w' = g_WriterBusy w \<and> g_State w \<le> g_State w' \<and>
    (st = STATUS_SUCCESS \<longrightarrow> buckets_cleared (a_rules A) rs w')"
proof -
  obtain r w1 where alloc: "SkSnapAlloc ok w = (r, w1)" by (cases "SkSnapAlloc ok w")
  show ?thesis
  proof (cases r)
    case None
    from snap_alloc_inv [OF inv alloc] None have w1: "store_inv {} (set_option rules) H w1"
      "\<not> ok (p_next w)" "keeps w w1" by simp_all
    from free_array_opt_inv [OF w1(1)] obtain w2 where w2: "free_array_opt rules w1 = Some w2"
      "store_inv {} {} H w2" "keeps w1 w2" by blast
    have "keeps w w2" using w1(3) w2(3) by (rule keeps_trans)
    then show ?thesis
      using None alloc w2 w1(2) keeps_abs [of w w2] keepsD [of w w2]
      by (intro exI [of _ STATUS_INSUFFICIENT_RESOURCES] exI [of _ w2] exI [of _ H])
        (auto simp: SkPublish_def commits_def)
  next
    case (Some snap)
    from new_snap_inv [OF inv hands alloc [unfolded Some], of pol] obtain w2 where w2:
      "upd_snap snap (\<lambda>s. s\<lparr>s_rules := rules, s_count := n, s_defaultPolicy := pol\<rparr>) w1 = Some w2"
      "store_inv {snap} {} H w2" "keeps w w2" "snap_view w2 snap = Some (rs, 0, pol)"
      "map_option s_retired (p_snaps w2 snap) = Some 0" "H snap = 0" by blast
    from retire_drain_inv [OF w2(2)] obtain w3 H3 where w3:
      "SkRetireDrain slp SK_RETIRE_DRAIN_RETRIES w2 = Some w3" "store_inv {snap} {} H3 w3"
      "keeps w2 w3" "owned_same {snap} w2 w3" "H3 snap \<le> H snap" by blast
    have view3: "snap_view w3 snap = Some (rs, 0, pol)"
      "map_option s_retired (p_snaps w3 snap) = Some 0"
      using w3(4) w2(4,5) by (simp_all add: owned_same_def)
    have k3: "keeps w w3" using w2(3) w3(3) by (rule keeps_trans)
    show ?thesis
    proof (cases "SkStoreWritableNoLock w3")
      case False
      have "publish_section snap w3 = Some (Inl w3)" using False by (simp add: publish_section_def)
      moreover have "H3 snap = 0" using w3(5) w2(6) by simp
      with snap_free_inv [OF w3(2), of snap] obtain w4 where w4: "SkSnapFree snap w3 = Some w4"
        "store_inv {} {} H3 w4" "keeps w3 w4" "g_State w4 = g_State w3" by auto
      moreover have "keeps w w4" using k3 w4(3) by (rule keeps_trans)
      moreover have "\<not> ShRuntimeIsActive w4"
      proof -
        have "g_StoreInited w3 \<and> \<not> g_StoreClosed w3"
          using store_invD(4) [OF w3(2)] cur keepsD(1) [OF k3] by (simp add: flags_ok_def)
        with False w4(4) show ?thesis by (simp add: SkStoreWritableNoLock_def ShRuntimeIsActive_def)
      qed
      ultimately show ?thesis
        using alloc Some w2(1) w3(1) keeps_abs [of w w4] keepsD [of w w4]
        by (intro exI [of _ STATUS_INVALID_DEVICE_STATE] exI [of _ w4] exI [of _ H3])
          (simp add: SkPublish_def commits_def)
    next
      case True
      have cur3: "g_Current w3 = Some c" using cur keepsD(1) [OF k3] by simp
      have "g_Current w3 \<noteq> Some snap"
        using heap_disjoint [OF store_invD(1) [OF w3(2)]] current_tracked by blast
      from publish_section_inv [OF w3(2) _ this view3 content True] cur3 obtain cs w4 where w4:
        "p_snaps w3 c = Some cs" "publish_section snap w3 = Some (Inr (c, w4))"
        "store_inv {} {} H3 w4" "g_Current w4 = Some snap" "g_RollbackSlot w4 = Some c"
        "g_WriterBusy w4 = g_WriterBusy w3" "g_State w4 = g_State w3"
        "snap_view w4 snap = Some (rs, s_version cs + 1, pol)" "snap_view w4 c = snap_view w3 c"
        by auto
      obtain ors where ors: "snap_view w3 c = Some (ors, s_version cs, s_defaultPolicy cs)"
        "abs_store w3 = Some A" "a_rules A = ors" "a_version A = s_version cs"
        "a_policy A = s_defaultPolicy cs"
        using abs_store_open [OF w3(2) cur3] w4(1) abs keeps_abs [OF k3] by auto
      from reset_removed_inv [OF w4(3) w4(9) [unfolded ors(1)] w4(8)] obtain es where es:
        "SkRateResetRemoved (Some c) (Some snap) w4 = Some (w4\<lparr>g_RateTable := es\<rparr>)"
        "store_inv {} {} H3 (w4\<lparr>g_RateTable := es\<rparr>)" "keeps w4 (w4\<lparr>g_RateTable := es\<rparr>)"
        "\<forall>r\<in>set ors. r_ruleId r \<notin> set (map r_ruleId rs) \<longrightarrow> rate_bucket (r_ruleId r) es = None"
        by blast
      let ?w5 = "w4\<lparr>g_RateTable := es\<rparr>"
      have "SkPublish ok slp rules n pol w = Some (STATUS_SUCCESS, ?w5)"
        using alloc Some w2(1) w3(1) w4(2) es(1) by (simp add: SkPublish_def)
      moreover have "abs_store ?w5 = Some \<lparr>a_rules = rs, a_version = a_version A + 1, a_policy = pol,
          a_prev = Some (a_rules A, a_policy A)\<rparr>"
        unfolding keeps_abs [OF es(3)]
        using abs_store_view [OF w4(4,8)] w4(5,9) ors by simp
      moreover have "g_WriterBusy ?w5 = g_WriterBusy w" "g_State w \<le> g_State ?w5"
        using keepsD [OF k3] w4(6,7) by simp_all
      moreover have "buckets_cleared (a_rules A) rs ?w5"
        using es(4) ors(3) by (simp add: buckets_cleared_def)
      ultimately show ?thesis
        using es(2) by (intro exI [of _ STATUS_SUCCESS] exI [of _ ?w5] exI [of _ H3])
          (simp add: commits_def)
    qed
  qed
qed

end

section \<open>Rollback\<close>

lemma rollback_section_inv:
  assumes inv: "store_inv {snap} {} H w" and slot: "g_RollbackSlot w = Some rb"
    and view: "snap_view w snap = Some (rs, v, pol)"
    and live: "map_option s_retired (p_snaps w snap) = Some 0"
    and content: "content_ok rs" "policy_ok pol"
    and writable: "SkStoreWritableNoLock w"
  shows "\<exists>old cur w'. g_Current w = Some old \<and> p_snaps w old = Some cur \<and>
    rollback_section snap rb w = Some (Inr (old, w')) \<and> store_inv {} {} H w' \<and>
    g_Current w' = Some snap \<and> g_RollbackSlot w' = None \<and>
    g_WriterBusy w' = g_WriterBusy w \<and> g_State w' = g_State w \<and>
    snap_view w' snap = Some (rs, s_version cur + 1, pol) \<and> snap_view w' old = snap_view w old"
proof -
  note heap = store_invD(1) [OF inv]
  have op: "g_StoreInited w" "\<not> g_StoreClosed w" using writable by (simp_all add: SkStoreWritableNoLock_def)
  then obtain old where old: "g_Current w = Some old"
    using store_invD(4) [OF inv] by (auto simp: flags_ok_def)
  have dist: "distinct (tracked w)" "snap \<notin> set (tracked w)"
    using heap_distinct [OF heap] heap_disjoint [OF heap] by auto
  have ot: "old \<in> set (tracked w)" "rb \<in> set (tracked w)"
    using current_tracked [OF old] slot_tracked [OF slot] by simp_all
  obtain cur where cur: "p_snaps w old = Some cur" using tracked_snap [OF heap ot(1)] by blast
  obtain rbs where rbs: "p_snaps w rb = Some rbs" using tracked_snap [OF heap ot(2)] by blast
  have neq: "old \<noteq> snap" "rb \<noteq> snap" "old \<noteq> rb"
    using dist ot old slot by (auto simp: tracked_def)
  let ?ver = "s_version cur + 1"
  from version_inv [OF inv _ view, of ?ver] obtain s w1 where w1:
    "p_snaps w snap = Some s" "upd_snap snap (\<lambda>s. s\<lparr>s_version := ?ver\<rparr>) w = Some w1"
    "store_inv {snap} {} H w1" "w1 = w\<lparr>p_snaps := (p_snaps w)(snap \<mapsto> s\<lparr>s_version := ?ver\<rparr>)\<rparr>"
    "snap_view w1 snap = Some (rs, ?ver, pol)" "\<forall>q. q \<noteq> snap \<longrightarrow> snap_view w1 q = snap_view w q"
    by blast
  obtain s1 where s1: "p_snaps w1 snap = Some s1" "snap_rules w1 s1 = Some rs" "s_defaultPolicy s1 = pol"
    using owned_view [OF w1(3,5)] by metis
  have live1: "s_retired s1 = 0" using live w1(1) s1(1) by (simp add: w1(4)) auto
  define w2 where "w2 = w1\<lparr>g_Current := Some snap, g_RollbackSlot := None, g_RetireList := g_RetireList w\<rparr>"
  have fields: "g_Current w1 = Some old" "g_RollbackSlot w1 = Some rb"
    "g_RetireList w1 = g_RetireList w" "g_StoreInited w1" "\<not> g_StoreClosed w1"
    using op old slot by (simp_all add: w1(4))
  have w2f: "p_snaps w2 old = Some cur" "p_snaps w2 rb = Some rbs" "g_StoreInited w2"
    "g_WriterBusy w2 = g_WriterBusy w" "g_State w2 = g_State w" "g_Current w2 = Some snap"
    "g_RollbackSlot w2 = None" "snap_rules w2 = snap_rules w"
    using neq cur rbs op by (simp_all add: w2_def w1(4))
  have inv2: "store_inv {old, rb} {} H w2"
    unfolding w2_def by (rule install_inv [OF w1(3) _ s1(1) live1])
      (use s1(2,3) content dist neq old slot in \<open>auto simp: fields tracked_def\<close>)
  have view2: "snap_view w2 q = snap_view w1 q" for q
    by (rule snap_view_cong) (simp_all add: w2_def)
  have cont: "\<And>rs. snap_rules w cur = Some rs \<Longrightarrow> content_ok rs" "policy_ok (s_defaultPolicy cur)"
    "\<And>rs. snap_rules w rbs = Some rs \<Longrightarrow> content_ok rs" "policy_ok (s_defaultPolicy rbs)"
    using store_invD(2) [OF inv] ot cur rbs by (auto simp: snaps_ok_def)
  from retire_snap_inv [OF inv2 _ w2f(1), unfolded w2f(8), OF _ cont(1,2) w2f(3)] obtain w3 s3 where w3:
    "retire_snap old w2 = Some w3" "store_inv ({old, rb} - {old}) {} H w3" "keeps w2 w3"
    "g_State w3 = g_State w2" "p_snaps w3 = (p_snaps w2)(old \<mapsto> s3)" "p_arrays w3 = p_arrays w2"
    "s_rules s3 = s_rules cur" "s_count s3 = s_count cur" "s_version s3 = s_version cur"
    "s_defaultPolicy s3 = s_defaultPolicy cur"
    by (metis insertI1)
  have rules3: "snap_rules w3 = snap_rules w"
    using snap_rules_cong [OF w3(6)] w2f(8) by simp
  have "p_snaps w3 rb = Some rbs" using w3(5) w2f(2) neq(3) by simp
  moreover have "{old, rb} - {old} = {rb}" using neq(3) by auto
  moreover have "g_StoreInited w3" using keepsD(4) [OF w3(3)] w2f(3) by simp
  moreover have "\<And>rs. snap_rules w3 rbs = Some rs \<Longrightarrow> content_ok rs" using cont(3) rules3 by simp
  ultimately obtain w4 s4 where w4: "retire_snap rb w3 = Some w4" "store_inv {} {} H w4" "keeps w3 w4"
    "g_State w4 = g_State w3" "p_snaps w4 = (p_snaps w3)(rb \<mapsto> s4)" "p_arrays w4 = p_arrays w3"
    using retire_snap_inv [of "{rb}" "{}" H w3 rb rbs] w3(2) cont(4) by auto
  have "rollback_section snap rb w = Some (Inr (old, w4))"
  proof -
    have "w2 = w1\<lparr>g_RollbackSlot := None, g_Current := Some snap\<rparr>" using fields(3) by (simp add: w2_def)
    then show ?thesis
      using writable old cur w1(2) w3(1) w4(1) by (simp add: rollback_section_def)
  qed
  moreover have k: "keeps w2 w4" using w3(3) w4(3) by (rule keeps_trans)
  moreover have "snap_view w4 snap = snap_view w2 snap"
    using k w2f(6) by (simp add: keeps_def)
  moreover have "snap_view w4 old = snap_view w old"
  proof -
    have "snap_view w4 old = snap_view w3 old"
      using neq(3) snap_rules_cong [OF w4(6)] w4(5) by (intro snap_view_cong) auto
    also have "\<dots> = snap_view w2 old"
      using w3(5,7-10) w2f(1,8) rules3 snap_rules_meta [of s3 cur w] by (simp add: snap_view_def)
    also have "\<dots> = snap_view w old" using view2 w1(6) neq(1) by simp
    finally show ?thesis .
  qed
  ultimately show ?thesis
    using old cur w4(2,4) w3(4) w2f(4-7) view2 w1(5) keepsD [OF k] by auto
qed

lemma unlock_inv [simp]:
  "store_inv Xs Xa H (SkStoreUnlock w) = store_inv Xs Xa H w"
  "abs_store (SkStoreUnlock w) = abs_store w"
  "g_WriterBusy (SkStoreUnlock w) = 0"
  "g_State (SkStoreUnlock w) = g_State w"
  "g_RateTable (SkStoreUnlock w) = g_RateTable w"
  "g_Current (SkStoreUnlock w) = g_Current w"
  "snap_view (SkStoreUnlock w) = snap_view w"
  "ShRuntimeIsActive (SkStoreUnlock w) = ShRuntimeIsActive w"
proof -
  let ?w = "SkStoreUnlock w"
  have "store_inv Xs Xa H w" if "store_inv Xs Xa H ?w"
    by (rule store_inv_cong [OF that]) (use store_invD(5) [OF that] in \<open>simp_all add: SkStoreUnlock_def\<close>)
  moreover have "store_inv Xs Xa H ?w" if "store_inv Xs Xa H w"
    by (rule store_inv_cong [OF that]) (use store_invD(5) [OF that] in \<open>simp_all add: SkStoreUnlock_def\<close>)
  ultimately show "store_inv Xs Xa H ?w = store_inv Xs Xa H w" by blast
  show view: "snap_view ?w = snap_view w"
    by (intro ext snap_view_cong) (simp_all add: SkStoreUnlock_def)
  have "g_Current ?w = g_Current w" "g_RollbackSlot ?w = g_RollbackSlot w"
    by (simp_all add: SkStoreUnlock_def)
  then show "abs_store ?w = abs_store w" by (simp only: abs_store_def view)
qed (simp_all add: SkStoreUnlock_def ShRuntimeIsActive_def)

lemma commits_unlock [simp]: "commits ok w st (SkStoreUnlock w') A = commits ok w st w' A"
  by (simp add: commits_def)

lemma cleared_unlock [simp]: "buckets_cleared old new (SkStoreUnlock w) = buckets_cleared old new w"
  by (simp add: buckets_cleared_def)

text \<open>The slot content is published again with the next version; the slot is consumed.\<close>

context store_env
begin

lemma rollback_publish_inv:
  assumes inv: "store_inv {} (set_option arr) H w" and hands: "hands w arr (s_count slot) rs"
    and cur: "g_Current w = Some c" and rb: "g_RollbackSlot w = Some rb"
    and slot: "snap_view w rb = Some (rs, v, s_defaultPolicy slot)" and abs: "abs_store w = Some A"
    and content: "content_ok rs" "policy_ok (s_defaultPolicy slot)"
  shows "\<exists>st w' H'. rollback_publish ok slp rb slot arr w = Some (st, w') \<and> store_inv {} {} H' w' \<and>
    commits ok w st w' \<lparr>a_rules = rs, a_version = a_version A + 1, a_policy = s_defaultPolicy slot,
      a_prev = None\<rparr> \<and> g_WriterBusy w' = 0 \<and> g_State w \<le> g_State w' \<and>
    (st = STATUS_SUCCESS \<longrightarrow> buckets_cleared (a_rules A) rs w')"
proof -
  obtain r w1 where alloc: "SkSnapAlloc ok w = (r, w1)" by (cases "SkSnapAlloc ok w")
  show ?thesis
  proof (cases r)
    case None
    from snap_alloc_inv [OF inv alloc] None have w1: "store_inv {} (set_option arr) H w1"
      "\<not> ok (p_next w)" "keeps w w1" by simp_all
    from free_array_opt_inv [OF w1(1)] obtain w2 where w2: "free_array_opt arr w1 = Some w2"
      "store_inv {} {} H w2" "keeps w1 w2" by blast
    have "keeps w w2" using w1(3) w2(3) by (rule keeps_trans)
    then show ?thesis
      using None alloc w2 w1(2) keeps_abs [of w w2] keepsD [of w w2]
      by (intro exI [of _ STATUS_INSUFFICIENT_RESOURCES] exI [of _ "SkStoreUnlock w2"] exI [of _ H])
        (auto simp: rollback_publish_def commits_def)
  next
    case (Some snap)
    from new_snap_inv [OF inv hands alloc [unfolded Some], of "s_defaultPolicy slot"] obtain w2 where w2:
      "upd_snap snap (\<lambda>s. s\<lparr>s_rules := arr, s_count := s_count slot,
          s_defaultPolicy := s_defaultPolicy slot\<rparr>) w1 = Some w2"
      "store_inv {snap} {} H w2" "keeps w w2" "snap_view w2 snap = Some (rs, 0, s_defaultPolicy slot)"
      "map_option s_retired (p_snaps w2 snap) = Some 0" "H snap = 0" by blast
    from retire_drain_inv [OF w2(2)] obtain w3 H3 where w3:
      "SkRetireDrain slp SK_RETIRE_DRAIN_RETRIES w2 = Some w3" "store_inv {snap} {} H3 w3"
      "keeps w2 w3" "owned_same {snap} w2 w3" "H3 snap \<le> H snap" by blast
    have view3: "snap_view w3 snap = Some (rs, 0, s_defaultPolicy slot)"
      "map_option s_retired (p_snaps w3 snap) = Some 0"
      using w3(4) w2(4,5) by (simp_all add: owned_same_def)
    have k3: "keeps w w3" using w2(3) w3(3) by (rule keeps_trans)
    show ?thesis
    proof (cases "SkStoreWritableNoLock w3")
      case False
      have "rollback_section snap rb w3 = Some (Inl w3)" using False by (simp add: rollback_section_def)
      moreover have "H3 snap = 0" using w3(5) w2(6) by simp
      with snap_free_inv [OF w3(2), of snap] obtain w4 where w4: "SkSnapFree snap w3 = Some w4"
        "store_inv {} {} H3 w4" "keeps w3 w4" "g_State w4 = g_State w3" by auto
      moreover have "keeps w w4" using k3 w4(3) by (rule keeps_trans)
      moreover have "\<not> ShRuntimeIsActive w4"
      proof -
        have "g_StoreInited w3 \<and> \<not> g_StoreClosed w3"
          using store_invD(4) [OF w3(2)] cur keepsD(1) [OF k3] by (simp add: flags_ok_def)
        with False w4(4) show ?thesis by (simp add: SkStoreWritableNoLock_def ShRuntimeIsActive_def)
      qed
      ultimately show ?thesis
        using alloc Some w2(1) w3(1) keeps_abs [of w w4] keepsD [of w w4]
        by (intro exI [of _ STATUS_INVALID_DEVICE_STATE] exI [of _ "SkStoreUnlock w4"] exI [of _ H3])
          (simp add: rollback_publish_def commits_def)
    next
      case True
      have cur3: "g_Current w3 = Some c" and rb3: "g_RollbackSlot w3 = Some rb"
        using cur rb keepsD(1,2) [OF k3] by simp_all
      from rollback_section_inv [OF w3(2) rb3 view3 content True] cur3 obtain cs w4 where w4:
        "p_snaps w3 c = Some cs" "rollback_section snap rb w3 = Some (Inr (c, w4))"
        "store_inv {} {} H3 w4" "g_Current w4 = Some snap" "g_RollbackSlot w4 = None"
        "g_WriterBusy w4 = g_WriterBusy w3" "g_State w4 = g_State w3"
        "snap_view w4 snap = Some (rs, s_version cs + 1, s_defaultPolicy slot)"
        "snap_view w4 c = snap_view w3 c"
        by auto
      obtain ors where ors: "snap_view w3 c = Some (ors, s_version cs, s_defaultPolicy cs)"
        "a_rules A = ors" "a_version A = s_version cs"
        using abs_store_open [OF w3(2) cur3] w4(1) abs keeps_abs [OF k3] by auto
      from reset_removed_inv [OF w4(3) w4(9) [unfolded ors(1)] w4(8)] obtain es where es:
        "SkRateResetRemoved (Some c) (Some snap) w4 = Some (w4\<lparr>g_RateTable := es\<rparr>)"
        "store_inv {} {} H3 (w4\<lparr>g_RateTable := es\<rparr>)" "keeps w4 (w4\<lparr>g_RateTable := es\<rparr>)"
        "\<forall>r\<in>set ors. r_ruleId r \<notin> set (map r_ruleId rs) \<longrightarrow> rate_bucket (r_ruleId r) es = None"
        by blast
      let ?w5 = "w4\<lparr>g_RateTable := es\<rparr>"
      have "rollback_publish ok slp rb slot arr w = Some (STATUS_SUCCESS, SkStoreUnlock ?w5)"
        using alloc Some w2(1) w3(1) w4(2) es(1) by (simp add: rollback_publish_def)
      moreover have "abs_store ?w5 = Some \<lparr>a_rules = rs, a_version = a_version A + 1,
          a_policy = s_defaultPolicy slot, a_prev = None\<rparr>"
        unfolding keeps_abs [OF es(3)]
        using abs_store_view [OF w4(4,8)] w4(5,9) ors by simp
      moreover have "g_State w \<le> g_State ?w5"
        using keepsD [OF k3] w4(6,7) by simp_all
      moreover have "buckets_cleared (a_rules A) rs ?w5"
        using es(4) ors(2) by (simp add: buckets_cleared_def)
      ultimately show ?thesis
        using es(2) by (intro exI [of _ STATUS_SUCCESS] exI [of _ "SkStoreUnlock ?w5"] exI [of _ H3])
          (simp add: commits_def)
    qed
  qed
qed

end

section \<open>Shutdown\<close>

lemma close_section_inv:
  assumes inv: "store_inv {} {} H w" and ini: "g_StoreInited w"
  shows "\<exists>w'. close_section w = Some w' \<and> store_inv {} {} H w' \<and> g_StoreClosed w' \<and>
    g_StoreInited w' \<and> g_Current w' = None \<and> g_RollbackSlot w' = None \<and>
    g_WriterBusy w' = g_WriterBusy w \<and> g_State w' = g_State w \<and>
    g_RetireList w' = g_RetireList w @ opt_list (g_Current w) @ opt_list (g_RollbackSlot w)"
proof -
  note heap = store_invD(1) [OF inv]
  have dist: "distinct (tracked w)" using heap_distinct [OF heap] .
  let ?c = "opt_list (g_Current w)" and ?r = "opt_list (g_RollbackSlot w)"
  define v where "v = w\<lparr>g_StoreClosed := True, g_Current := None, g_RollbackSlot := None\<rparr>"
  have vf: "p_snaps v = p_snaps w" "p_arrays v = p_arrays w" "g_StoreInited v" "g_StoreClosed v"
    "g_Current v = None" "g_RollbackSlot v = None" "g_RetireList v = g_RetireList w"
    "g_WriterBusy v = g_WriterBusy w" "g_State v = g_State w" "p_next v = p_next w"
    "g_RateTable v = g_RateTable w" using ini by (simp_all add: v_def)
  have rules: "snap_rules v = snap_rules w" by (rule snap_rules_cong) (rule vf)
  have "heap_ok (set ?c \<union> set ?r) {} v"
    by (rule heap_relist [OF heap])
      (use heap_dom [OF heap] dist in \<open>auto simp: tracked_def vf\<close>)
  moreover have "snaps_ok v"
    using store_invD(2) [OF inv] unfolding snaps_ok_def by (auto simp: tracked_def vf rules)
  moreover have "readers_ok H v"
    using store_invD(3) [OF inv] unfolding readers_ok_def by (simp add: vf)
  moreover have "flags_ok v" by (simp add: flags_ok_def vf)
  ultimately have invv: "store_inv (set ?c \<union> set ?r) {} H v"
    using store_invD(5) [OF inv] by (simp add: store_inv_def vf)
  have content: "(\<forall>rs. snap_rules w s = Some rs \<longrightarrow> content_ok rs) \<and> policy_ok (s_defaultPolicy s)"
    if "p \<in> set (tracked w)" "p_snaps w p = Some s" for p s
    using store_invD(2) [OF inv] that by (simp add: snaps_ok_def)
  have step: "\<exists>u'. (case x of None \<Rightarrow> Some u | Some p \<Rightarrow> retire_snap p u) = Some u' \<and>
      store_inv (Ys - set (opt_list x)) {} H u' \<and> keeps u u' \<and> g_State u' = g_State u \<and>
      g_RetireList u' = g_RetireList u @ opt_list x \<and> snap_rules u' = snap_rules u \<and>
      (\<forall>q. q \<notin> set (opt_list x) \<longrightarrow> p_snaps u' q = p_snaps u q)"
    if u: "store_inv Ys {} H u" "set (opt_list x) \<subseteq> Ys" "set (opt_list x) \<subseteq> set (tracked w)"
      "snap_rules u = snap_rules w" "\<forall>q\<in>set (opt_list x). p_snaps u q = p_snaps w q"
      "g_StoreInited u" for x u Ys
  proof (cases x)
    case None
    then show ?thesis using u(1) by auto
  next
    case (Some p)
    then obtain s where s: "p_snaps w p = Some s" using u(3) tracked_snap [OF heap] by auto
    from content [OF _ s] u(3) Some
    have c: "\<And>rs. snap_rules u s = Some rs \<Longrightarrow> content_ok rs" "policy_ok (s_defaultPolicy s)"
      using u(4) by auto
    have "p \<in> Ys" "p_snaps u p = Some s" using u(2,5) Some s by auto
    from retire_snap_inv [OF u(1) this c u(6)] obtain u' s' where
      "retire_snap p u = Some u'" "store_inv (Ys - {p}) {} H u'" "keeps u u'" "g_State u' = g_State u"
      "g_RetireList u' = g_RetireList u @ [p]" "p_snaps u' = (p_snaps u)(p \<mapsto> s')" "p_arrays u' = p_arrays u"
      by blast
    then show ?thesis using Some snap_rules_cong [of u' u] by auto
  qed
  have sub: "set ?c \<subseteq> set (tracked w)" "set ?r \<subseteq> set (tracked w)" by (auto simp: tracked_def)
  from step [OF invv, of "g_Current w"] sub rules vf obtain v1 where v1:
    "(case g_Current w of None \<Rightarrow> Some v | Some p \<Rightarrow> retire_snap p v) = Some v1"
    "store_inv (set ?c \<union> set ?r - set ?c) {} H v1" "keeps v v1" "g_State v1 = g_State v"
    "g_RetireList v1 = g_RetireList v @ ?c" "snap_rules v1 = snap_rules v"
    "\<forall>q. q \<notin> set ?c \<longrightarrow> p_snaps v1 q = p_snaps v q"
    by auto
  have cr: "set ?c \<inter> set ?r = {}" using dist by (auto simp: tracked_def)
  then have "set ?c \<union> set ?r - set ?c = set ?r" by auto
  with v1(2) have inv1: "store_inv (set ?r) {} H v1" by simp
  have "g_StoreInited v1" using keepsD(4) [OF v1(3)] vf(3) by simp
  moreover have "\<forall>q\<in>set ?r. p_snaps v1 q = p_snaps w q" using v1(7) vf(1) cr by auto
  ultimately obtain v2 where v2:
    "(case g_RollbackSlot w of None \<Rightarrow> Some v1 | Some p \<Rightarrow> retire_snap p v1) = Some v2"
    "store_inv (set ?r - set ?r) {} H v2" "keeps v1 v2" "g_State v2 = g_State v1"
    "g_RetireList v2 = g_RetireList v1 @ ?r"
    using step [OF inv1, of "g_RollbackSlot w"] sub rules v1(6) by auto
  have "keeps v v2" using v1(3) v2(3) by (rule keeps_trans)
  moreover have "close_section w = Some v2"
  proof -
    have "close_section w = (case g_Current w of None \<Rightarrow> Some v | Some p \<Rightarrow> retire_snap p v) \<bind>
        (\<lambda>u. case g_RollbackSlot w of None \<Rightarrow> Some u | Some p \<Rightarrow> retire_snap p u)"
      unfolding close_section_def Let_def v_def by simp
    then show ?thesis by (simp add: v1(1) v2(1))
  qed
  ultimately show ?thesis
    using v2 v1(4,5) vf keepsD [of v v2] by auto
qed

text \<open>A snapshot set aside by the forced drain: still there, retired, with valid contents.\<close>

definition stuck_ok :: "'a store_scheme \<Rightarrow> nat \<Rightarrow> bool" where
  "stuck_ok w p \<longleftrightarrow> map_option s_retired (p_snaps w p) = Some 1 \<and>
     (\<exists>rs v pol. snap_view w p = Some (rs, v, pol) \<and> content_ok rs \<and> policy_ok pol)"

lemma stuck_ok_owned: "owned_same Xs w w' \<Longrightarrow> p \<in> Xs \<Longrightarrow> stuck_ok w p \<Longrightarrow> stuck_ok w' p"
  by (simp add: owned_same_def stuck_ok_def)

lemma retired_stuck_ok:
  assumes inv: "store_inv Xs Xa H w" and p: "p \<in> set (g_RetireList w)"
  shows "stuck_ok w p"
proof -
  obtain s where s: "p_snaps w p = Some s"
    using tracked_snap [OF store_invD(1) [OF inv] retire_tracked [OF p]] by blast
  obtain rs where rs: "snap_rules w s = Some rs"
    using heap_snap_rules [OF store_invD(1) [OF inv] s] by blast
  have "content_ok rs" "policy_ok (s_defaultPolicy s)"
    using store_invD(2) [OF inv] retire_tracked [OF p] s rs by (auto simp: snaps_ok_def)
  moreover have "s_retired s = 1" using store_invD(3) [OF inv] p s by (simp add: readers_ok_def)
  ultimately show ?thesis using s rs by (simp add: stuck_ok_def snap_view_def)
qed

text \<open>Reporting the stuck rundown touches the runtime only.\<close>

lemma block_frame [simp]:
  fixes w :: "'a store_scheme"
  shows "p_next (ShRuntimeRecordBlock why w) = p_next w" "p_snaps (ShRuntimeRecordBlock why w) = p_snaps w"
    "p_arrays (ShRuntimeRecordBlock why w) = p_arrays w" "g_Current (ShRuntimeRecordBlock why w) = g_Current w"
    "g_RollbackSlot (ShRuntimeRecordBlock why w) = g_RollbackSlot w"
    "g_RetireList (ShRuntimeRecordBlock why w) = g_RetireList w"
    "g_WriterBusy (ShRuntimeRecordBlock why w) = g_WriterBusy w"
    "g_StoreInited (ShRuntimeRecordBlock why w) = g_StoreInited w"
    "g_StoreClosed (ShRuntimeRecordBlock why w) = g_StoreClosed w"
    "g_RateTable (ShRuntimeRecordBlock why w) = g_RateTable w"
  by (simp_all add: ShRuntimeRecordBlock_def Let_def)

lemma unload_frame [simp]:
  fixes w :: "'a store_scheme"
  shows "p_next (ShRuntimeEnterUnloadBlocked why w) = p_next w"
    "p_snaps (ShRuntimeEnterUnloadBlocked why w) = p_snaps w"
    "p_arrays (ShRuntimeEnterUnloadBlocked why w) = p_arrays w"
    "g_Current (ShRuntimeEnterUnloadBlocked why w) = g_Current w"
    "g_RollbackSlot (ShRuntimeEnterUnloadBlocked why w) = g_RollbackSlot w"
    "g_RetireList (ShRuntimeEnterUnloadBlocked why w) = g_RetireList w"
    "g_WriterBusy (ShRuntimeEnterUnloadBlocked why w) = g_WriterBusy w"
    "g_StoreInited (ShRuntimeEnterUnloadBlocked why w) = g_StoreInited w"
    "g_StoreClosed (ShRuntimeEnterUnloadBlocked why w) = g_StoreClosed w"
    "g_RateTable (ShRuntimeEnterUnloadBlocked why w) = g_RateTable w"
  by (simp_all add: ShRuntimeEnterUnloadBlocked_def Let_def)

lemma blocked_top: "s \<le> ShinkenUnloadBlocked"
  by (cases s) (simp_all add: less_eq_runtime_state_def)

lemma top_blocked: "ShinkenUnloadBlocked \<le> s \<Longrightarrow> s = ShinkenUnloadBlocked"
  by (cases s) (simp_all add: less_eq_runtime_state_def)

lemma report_stuck:
  assumes inv: "store_inv Xs Xa H w"
  defines "w' \<equiv> ShRuntimeEnterUnloadBlocked ShinkenBlockRundownStuck
      (ShRuntimeRecordBlock ShinkenBlockRundownStuck w)"
  shows "store_inv Xs Xa H w'" and "keeps w w'" and "owned_same Ys w w'"
    and "g_RetireList w' = g_RetireList w" and "g_State w' = ShinkenUnloadBlocked"
proof -
  show "store_inv Xs Xa H w'"
    by (rule store_inv_cong [OF inv]) (use store_invD(5) [OF inv] in \<open>simp_all add: w'_def\<close>)
  show "keeps w w'" by (rule keeps_cong) (simp_all add: w'_def blocked_top)
  have "snap_view w' = snap_view w"
    using snap_rules_cong [of w' w] by (intro ext snap_view_cong) (simp_all add: w'_def)
  then show "owned_same Ys w w'" by (simp add: owned_same_def) (simp add: w'_def)
  show "g_RetireList w' = g_RetireList w" "g_State w' = ShinkenUnloadBlocked"
    by (simp_all add: w'_def)
qed

context store_env
begin

text \<open>The drain of one owned, retired snapshot.\<close>

lemma forced_drain_inv:
  assumes inv: "store_inv Xs Xa H w" and X: "p \<in> Xs" and ok: "stuck_ok w p"
  shows "\<exists>st w' H'. ShRundownDrain (readers_count p) slp n w = (st, w') \<and> store_inv Xs Xa H' w' \<and>
    keeps w w' \<and> owned_same Xs w w' \<and> g_RetireList w' = g_RetireList w \<and>
    (\<forall>q\<in>Xs. H' q \<le> H q) \<and> (st = STATUS_SUCCESS \<longleftrightarrow> H' p = 0)"
proof -
  let ?P = "\<lambda>u. \<exists>H'. store_inv Xs Xa H' u \<and> keeps w u \<and> owned_same Xs w u \<and>
      g_RetireList u = g_RetireList w \<and> (\<forall>q\<in>Xs. H' q \<le> H q)"
  have step: "?P (slp u)" if P: "?P u" for u
  proof -
    from P obtain H1 where H1: "store_inv Xs Xa H1 u" "keeps w u" "owned_same Xs w u"
      "g_RetireList u = g_RetireList w" "\<forall>q\<in>Xs. H1 q \<le> H q" by blast
    from env_owned [OF H1(1)] obtain H2 where H2: "store_inv Xs Xa H2 (slp u)" "keeps u (slp u)"
      "owned_same Xs u (slp u)" "\<forall>q\<in>Xs. H2 q \<le> H1 q" "g_RetireList (slp u) = g_RetireList u" by blast
    have "keeps w (slp u)" using H1(2) H2(2) by (rule keeps_trans)
    moreover have "owned_same Xs w (slp u)" using H1(3) H2(3) by (rule owned_same_trans)
    moreover have "\<forall>q\<in>Xs. H2 q \<le> H q" using H1(5) H2(4) order_trans by blast
    ultimately show ?thesis using H2(1,5) H1(4) by auto
  qed
  obtain st w' where d: "ShRundownDrain (readers_count p) slp n w = (st, w')"
    by (cases "ShRundownDrain (readers_count p) slp n w")
  have "?P w" using inv by (intro exI [of _ H]) (simp add: owned_same_def)
  then have "?P (snd (ShRundownDrain (readers_count p) slp n w))"
    by (rule drain_keeps [where P = ?P, rotated]) (rule step)
  with d obtain H' where H': "store_inv Xs Xa H' w'" "keeps w w'" "owned_same Xs w w'"
    "g_RetireList w' = g_RetireList w" "\<forall>q\<in>Xs. H' q \<le> H q" by auto
  obtain s where s: "p_snaps w' p = Some s" "s_retired s = 1"
    using stuck_ok_owned [OF H'(3) X ok] by (auto simp: stuck_ok_def)
  then have "rd_rep (rd_count (s_readers s)) True (H' p)"
    using store_invD(3) [OF H'(1)] unfolding readers_ok_def by fastforce
  moreover have "readers_count p w' = rd_count (s_readers s)" by (simp add: readers_count_def s(1))
  ultimately have "readers_count p w' = SHINKEN_RUNDOWN_STOP_BIT \<longleftrightarrow> H' p = 0"
    using rd_rep_drained by auto
  moreover have "st = STATUS_SUCCESS \<longleftrightarrow> readers_count p w' = SHINKEN_RUNDOWN_STOP_BIT"
    using drain_success_count [of "readers_count p" slp n w w']
      drain_timeout_count [of "readers_count p" slp n w w']
      drain_status [of "readers_count p" slp n w] d by auto
  ultimately have "st = STATUS_SUCCESS \<longleftrightarrow> H' p = 0" by simp
  then show ?thesis using d H' by (intro exI [of _ st] exI [of _ w'] exI [of _ H']) simp
qed

lemma shutdown_loop_inv:
  assumes "store_inv (set stuck) {} H w" and "distinct stuck" and "\<forall>p\<in>set stuck. stuck_ok w p"
    and "stuck \<noteq> [] \<longrightarrow> g_State w = ShinkenUnloadBlocked"
  shows "\<exists>stuck' w' H'. shutdown_loop slp stuck w = Some (stuck', w') \<and>
    store_inv (set stuck') {} H' w' \<and> distinct stuck' \<and> (\<forall>p\<in>set stuck'. stuck_ok w' p) \<and>
    (stuck' \<noteq> [] \<longrightarrow> g_State w' = ShinkenUnloadBlocked) \<and> g_RetireList w' = [] \<and> keeps w w'"
  using assms
proof (induction "length (g_RetireList w)" arbitrary: stuck w H)
  case 0
  then have "g_RetireList w = []" by simp
  then show ?case
    using 0 by (intro exI [of _ stuck] exI [of _ w] exI [of _ H]) (simp add: shutdown_loop.simps)
next
  case (Suc n)
  obtain p ps where ps: "g_RetireList w = p # ps" using Suc.hyps(2) by (cases "g_RetireList w") auto
  note heap = store_invD(1) [OF Suc.prems(1)]
  have okp: "stuck_ok w p" by (rule retired_stuck_ok [OF Suc.prems(1)]) (simp add: ps)
  have pn: "p \<notin> set stuck" "p \<notin> set ps"
    using heap_disjoint [OF heap] heap_distinct [OF heap] by (auto simp: tracked_def ps)
  define v where "v = w\<lparr>g_RetireList := ps\<rparr>"
  have "mset (g_RetireList w) = mset ([p] @ ps)" by (simp add: ps)
  note det = detach_inv [OF Suc.prems(1) this, folded v_def]
  have view: "snap_view v = snap_view w" by (intro ext snap_view_cong) (simp_all add: v_def)
  have okv: "stuck_ok v q" if "q \<in> insert p (set stuck)" for q
    using that okp Suc.prems(3) by (auto simp: stuck_ok_def view) (auto simp: v_def)
  have vf: "g_RetireList v = ps" "p_snaps v = p_snaps w" "g_State v = g_State w" by (simp_all add: v_def)
  have "p \<in> set stuck \<union> set [p]" by simp
  from forced_drain_inv [OF det(1) this okv [OF insertI1], of SK_SHUTDOWN_DRAIN_RETRIES] obtain st v1 H1 where v1:
    "ShRundownDrain (readers_count p) slp SK_SHUTDOWN_DRAIN_RETRIES v = (st, v1)"
    "store_inv (set stuck \<union> set [p]) {} H1 v1" "keeps v v1" "owned_same (set stuck \<union> set [p]) v v1"
    "g_RetireList v1 = ps" "st = STATUS_SUCCESS \<longleftrightarrow> H1 p = 0"
    unfolding vf(1) by (elim exE conjE) (rule that)
  have ok1: "stuck_ok v1 q" if "q \<in> insert p (set stuck)" for q
    using stuck_ok_owned [OF v1(4) _ okv [OF that]] that by auto
  have kw: "keeps w v1" using det(2) v1(3) by (rule keeps_trans)
  have n: "n = length (g_RetireList v1)" using Suc.hyps(2) v1(5) ps by simp
  show ?case
  proof (cases "st = STATUS_SUCCESS")
    case True
    with v1(6) have H0: "H1 p = 0" by simp
    have "p \<in> set stuck \<union> set [p]" by simp
    from snap_free_inv [OF v1(2) this H0] obtain v2 where v2: "SkSnapFree p v1 = Some v2"
      "store_inv (set stuck \<union> set [p] - {p}) {} H1 v2" "keeps v1 v2" "p_snaps v2 = (p_snaps v1)(p := None)"
      "g_RetireList v2 = g_RetireList v1" "\<forall>q. q \<noteq> p \<longrightarrow> snap_view v2 q = snap_view v1 q"
      "g_State v2 = g_State v1"
      by blast
    have "set stuck \<union> set [p] - {p} = set stuck" using pn(1) by auto
    with v2(2) have inv2: "store_inv (set stuck) {} H1 v2" by simp
    have ok2: "\<forall>q\<in>set stuck. stuck_ok v2 q"
      using ok1 pn(1) v2(4,6) by (auto simp: stuck_ok_def)
    have blk: "stuck \<noteq> [] \<longrightarrow> g_State v2 = ShinkenUnloadBlocked"
      using Suc.prems(4) keepsD(6) [OF kw] v2(7) top_blocked by auto
    have "n = length (g_RetireList v2)" using n v2(5) by simp
    from Suc.hyps(1) [OF this inv2 Suc.prems(2) ok2 blk] obtain stuck' w' H' where w':
      "shutdown_loop slp stuck v2 = Some (stuck', w')" "store_inv (set stuck') {} H' w'"
      "distinct stuck'" "\<forall>p\<in>set stuck'. stuck_ok w' p"
      "stuck' \<noteq> [] \<longrightarrow> g_State w' = ShinkenUnloadBlocked" "g_RetireList w' = []" "keeps v2 w'"
      by blast
    have "shutdown_loop slp stuck w = Some (stuck', w')"
      using True v1(1) v2(1) w'(1) by (subst shutdown_loop.simps) (simp add: ps v_def)
    moreover have "keeps w w'" using kw v2(3) w'(7) keeps_trans by blast
    ultimately show ?thesis using w' by blast
  next
    case False
    let ?u = "ShRuntimeEnterUnloadBlocked ShinkenBlockRundownStuck
        (ShRuntimeRecordBlock ShinkenBlockRundownStuck v1)"
    note rep = report_stuck(1-2) [OF v1(2)] report_stuck(3) [OF v1(2), of "set stuck \<union> set [p]"]
      report_stuck(4-5) [OF v1(2)]
    have inv2: "store_inv (set (stuck @ [p])) {} H1 ?u" using rep(1) by simp
    have ok2: "\<forall>q\<in>set (stuck @ [p]). stuck_ok ?u q"
      using stuck_ok_owned [OF rep(3)] ok1 by auto
    have dist: "distinct (stuck @ [p])" using Suc.prems(2) pn(1) by simp
    have n2: "n = length (g_RetireList ?u)" using n rep(4) by simp
    have blk: "stuck @ [p] \<noteq> [] \<longrightarrow> g_State ?u = ShinkenUnloadBlocked" using rep(5) by simp
    from Suc.hyps(1) [OF n2 inv2 dist ok2 blk] obtain stuck' w' H' where w':
      "shutdown_loop slp (stuck @ [p]) ?u = Some (stuck', w')" "store_inv (set stuck') {} H' w'"
      "distinct stuck'" "\<forall>p\<in>set stuck'. stuck_ok w' p"
      "stuck' \<noteq> [] \<longrightarrow> g_State w' = ShinkenUnloadBlocked" "g_RetireList w' = []" "keeps ?u w'"
      by blast
    have "shutdown_loop slp stuck w = Some (stuck', w')"
      using False v1(1) w'(1) by (subst shutdown_loop.simps) (simp add: ps v_def)
    moreover have "keeps w w'" using kw rep(2) w'(7) keeps_trans by blast
    ultimately show ?thesis using w' by blast
  qed
qed

end

end
