(* ===== verification/StoreSpec.thy ===== *)
theory StoreSpec
  imports StorePublish
begin

text \<open>
  What the writers of the rule store promise, over the abstract store: the checks made
  before the lock (\<open>op_check\<close>) and the effect on rules, version, policy and rollback slot
  (\<open>op_step\<close>), with list functions instead of arrays, indices and the insertion sort.
  \<open>run_op\<close> dispatches an operation to the code's function; \<open>StoreOps\<close> shows that each one
  implements its specification.
\<close>

datatype store_op =
    OpAdd "rule option"
  | OpUpdate "rule option"
  | OpDelete u64
  | OpSetEnabled u64 bool
  | OpReplace "rule list option" u32 u64
  | OpClear
  | OpRollback
  | OpSetDefaultPolicy u32

fun run_op ::
    "(nat \<Rightarrow> bool) \<Rightarrow> ('a store_scheme \<Rightarrow> 'a store_scheme) \<Rightarrow> store_op \<Rightarrow> 'a store_scheme
     \<Rightarrow> (ntstatus \<times> 'a store_scheme) option" where
  "run_op ok slp (OpAdd r) = SkRuleStoreAdd ok slp r"
| "run_op ok slp (OpUpdate r) = SkRuleStoreUpdate ok slp r"
| "run_op ok slp (OpDelete i) = SkRuleStoreDelete ok slp i"
| "run_op ok slp (OpSetEnabled i b) = SkRuleStoreSetEnabled ok slp i b"
| "run_op ok slp (OpReplace rs n v) = SkRuleStoreReplace ok slp rs n v"
| "run_op ok slp OpClear = SkRuleStoreClear ok slp"
| "run_op ok slp OpRollback = SkRuleStoreRollback ok slp"
| "run_op ok slp (OpSetDefaultPolicy p) = SkRuleStoreSetDefaultPolicy ok slp p"

section \<open>The specification\<close>

text \<open>The list a caller of Replace passes.\<close>

definition replace_list :: "rule list option \<Rightarrow> u32 \<Rightarrow> rule list" where
  "replace_list rules n = (case rules of None \<Rightarrow> [] | Some rs \<Rightarrow> take (unat n) rs)"

fun op_check :: "store_op \<Rightarrow> ntstatus" where
  "op_check (OpAdd r) = SkRuleValidate r"
| "op_check (OpUpdate r) = SkRuleValidate r"
| "op_check (OpReplace rules n v) =
     (if unat n > 4096 \<or> n \<noteq> 0 \<and> rules = None then STATUS_INVALID_PARAMETER
      else if \<not> list_all rule_valid (replace_list rules n) then STATUS_INVALID_PARAMETER
      else if \<not> distinct (map r_ruleId (replace_list rules n)) then STATUS_OBJECTID_EXISTS
      else STATUS_SUCCESS)"
| "op_check (OpSetDefaultPolicy p) =
     (if p = SkVerdictPermit \<or> p = SkVerdictBlock then STATUS_SUCCESS else STATUS_INVALID_PARAMETER)"
| "op_check _ = STATUS_SUCCESS"

text \<open>A publication: new rules and policy, the next version, the old content in the slot.\<close>

definition published :: "rule list \<Rightarrow> u32 \<Rightarrow> astore \<Rightarrow> astore" where
  "published rs pol A = \<lparr>a_rules = rs, a_version = a_version A + 1, a_policy = pol,
     a_prev = Some (a_rules A, a_policy A)\<rparr>"

definition stored_ids :: "astore \<Rightarrow> u64 set" where
  "stored_ids A = r_ruleId ` set (a_rules A)"

definition with_rule :: "u64 \<Rightarrow> (rule \<Rightarrow> rule) \<Rightarrow> rule list \<Rightarrow> rule list" where
  "with_rule i f rs = map (\<lambda>r. if r_ruleId r = i then f r else r) rs"

fun op_step :: "store_op \<Rightarrow> astore \<Rightarrow> ntstatus + astore" where
  "op_step (OpAdd r) A =
     (let r = the r in
      if length (a_rules A) \<ge> 4096 then Inl STATUS_INSUFFICIENT_RESOURCES
      else if r_ruleId r \<in> stored_ids A then Inl STATUS_OBJECTID_EXISTS
      else Inr (published (sort_key verdict_key (a_rules A @ [r])) (a_policy A) A))"
| "op_step (OpUpdate r) A =
     (let r = the r in
      if r_ruleId r \<notin> stored_ids A then Inl STATUS_NOT_FOUND
      else Inr (published (sort_key verdict_key (with_rule (r_ruleId r) (\<lambda>_. r) (a_rules A)))
        (a_policy A) A))"
| "op_step (OpDelete i) A =
     (if i \<notin> stored_ids A then Inl STATUS_NOT_FOUND
      else Inr (published (filter (\<lambda>r. r_ruleId r \<noteq> i) (a_rules A)) (a_policy A) A))"
| "op_step (OpSetEnabled i b) A =
     (if i \<notin> stored_ids A then Inl STATUS_NOT_FOUND
      else Inr (published (with_rule i (\<lambda>r. r\<lparr>r_enabled := (if b then 1 else 0)\<rparr>) (a_rules A))
        (a_policy A) A))"
| "op_step (OpReplace rules n v) A =
     (if v \<noteq> 0 \<and> a_version A \<noteq> v then Inl STATUS_RETRY
      else Inr (published (sort_key verdict_key (replace_list rules n)) (a_policy A) A))"
| "op_step OpClear A = Inr (published [] (a_policy A) A)"
| "op_step OpRollback A =
     (case a_prev A of
        None \<Rightarrow> Inl STATUS_NOT_FOUND
      | Some (rs, pol) \<Rightarrow>
          Inr \<lparr>a_rules = rs, a_version = a_version A + 1, a_policy = pol, a_prev = None\<rparr>)"
| "op_step (OpSetDefaultPolicy p) A = Inr (published (a_rules A) p A)"

text \<open>The rules whose buckets the operation resets beyond those it removes.\<close>

fun op_resets :: "store_op \<Rightarrow> u64 list" where
  "op_resets (OpAdd r) = [r_ruleId (the r)]"
| "op_resets (OpSetEnabled i False) = [i]"
| "op_resets _ = []"

text \<open>
  The whole contract of a writer. A failed check changes nothing; a closed gate or a failed
  check under the lock leaves the abstract store; a passed one publishes, up to a failed
  allocation or a teardown that began meanwhile. The lock is free again, the runtime state
  has not moved back.
\<close>

definition implements ::
    "(nat \<Rightarrow> bool) \<Rightarrow> store_op \<Rightarrow> 'a store_scheme \<Rightarrow> ntstatus \<Rightarrow> 'a store_scheme \<Rightarrow> bool" where
  "implements ok opn w st w' \<longleftrightarrow>
     (if op_check opn \<noteq> STATUS_SUCCESS then st = op_check opn \<and> w' = w
      else g_WriterBusy w' = 0 \<and> g_State w \<le> g_State w' \<and>
        (if \<not> SkRuleStoreWritable w then st = STATUS_INVALID_DEVICE_STATE \<and> abs_store w' = abs_store w
         else \<exists>A. abs_store w = Some A \<and>
           (case op_step opn A of
              Inl e \<Rightarrow> st = e \<and> abs_store w' = abs_store w
            | Inr A' \<Rightarrow> commits ok w st w' A' \<and>
                (st = STATUS_SUCCESS \<longrightarrow> buckets_cleared (a_rules A) (a_rules A') w' \<and>
                   (\<forall>i\<in>set (op_resets opn). rate_bucket i (g_RateTable w') = None)))))"

section \<open>The contents a step produces\<close>

lemma validate_success: "SkRuleValidate p = STATUS_SUCCESS \<longleftrightarrow> (\<exists>r. p = Some r \<and> rule_valid r)"
proof (cases p)
  case None
  then show ?thesis by (simp add: SkRuleValidate_def)
next
  case (Some r)
  then show ?thesis by (simp add: validate_iff)
qed

lemma distinct_sort_ids [simp]:
  "distinct (map r_ruleId (sort_key verdict_key rs)) = distinct (map r_ruleId rs)"
  by (intro mset_eq_imp_distinct_iff) simp

lemma content_sort:
  assumes "distinct (map r_ruleId rs)" "\<forall>r\<in>set rs. rule_valid r" "length rs \<le> 4096"
  shows "content_ok (sort_key verdict_key rs)"
  using assms by (simp add: content_ok_def)

lemma content_nil [simp]: "content_ok []"
  by (simp add: content_ok_def)

lemma ids_with_rule [simp]:
  "(\<And>r. r_ruleId r = i \<Longrightarrow> r_ruleId (f r) = i) \<Longrightarrow> map r_ruleId (with_rule i f rs) = map r_ruleId rs"
  by (simp add: with_rule_def)

lemma length_with_rule [simp]: "length (with_rule i f rs) = length rs"
  by (simp add: with_rule_def)

lemma set_with_rule: "set (with_rule i f rs) \<subseteq> set rs \<union> f ` {r \<in> set rs. r_ruleId r = i}"
  by (auto simp: with_rule_def)

lemma content_enabled:
  assumes "content_ok rs" and "e \<in> {0, 1}"
  shows "content_ok (with_rule i (\<lambda>r. r\<lparr>r_enabled := e\<rparr>) rs)"
proof -
  have "map verdict_key (with_rule i (\<lambda>r. r\<lparr>r_enabled := e\<rparr>) rs) = map verdict_key rs"
    by (simp add: with_rule_def)
  moreover have "\<forall>r\<in>set (with_rule i (\<lambda>r. r\<lparr>r_enabled := e\<rparr>) rs). rule_valid r"
    using assms set_with_rule [of i "\<lambda>r. r\<lparr>r_enabled := e\<rparr>" rs] valid_enabled
    by (fastforce simp: content_ok_def)
  ultimately show ?thesis using assms(1) by (simp add: content_ok_def)
qed

lemma content_filter: "content_ok rs \<Longrightarrow> content_ok (filter P rs)"
  unfolding content_ok_def
  by (auto simp: sorted_filter distinct_map_filter intro: le_trans [OF length_filter_le])

text \<open>What holds of every abstract store, the rollback slot included.\<close>

definition astore_ok :: "astore \<Rightarrow> bool" where
  "astore_ok A \<longleftrightarrow> content_ok (a_rules A) \<and> policy_ok (a_policy A) \<and>
     (case a_prev A of None \<Rightarrow> True | Some (rs, pol) \<Rightarrow> content_ok rs \<and> policy_ok pol)"

lemma snap_view_ok:
  assumes inv: "store_inv Xs Xa H w" and p: "p \<in> set (tracked w)"
  shows "\<exists>rs v pol. snap_view w p = Some (rs, v, pol) \<and> content_ok rs \<and> policy_ok pol"
proof -
  note heap = store_invD(1) [OF inv]
  from tracked_snap [OF heap p] obtain s where s: "p_snaps w p = Some s" by blast
  from heap_snap_rules [OF heap s] obtain rs where rs: "snap_rules w s = Some rs" by blast
  with s p store_invD(2) [OF inv] show ?thesis by (auto simp: snap_view_def snaps_ok_def)
qed

lemma abs_store_ok:
  assumes inv: "store_inv Xs Xa H w" and abs: "abs_store w = Some A"
  shows "astore_ok A"
proof -
  from abs obtain p where p: "g_Current w = Some p" by (auto simp: abs_store_def split: option.splits)
  from snap_view_ok [OF inv current_tracked [OF p]] obtain rs v pol where
    c: "snap_view w p = Some (rs, v, pol)" "content_ok rs" "policy_ok pol" by blast
  show ?thesis
  proof (cases "g_RollbackSlot w")
    case None
    then show ?thesis using abs c by (auto simp: abs_store_view [OF p c(1)] astore_ok_def)
  next
    case (Some q)
    from snap_view_ok [OF inv slot_tracked [OF Some]] obtain rs' v' pol' where
      "snap_view w q = Some (rs', v', pol')" "content_ok rs'" "policy_ok pol'" by blast
    then show ?thesis using abs c Some by (auto simp: abs_store_view [OF p c(1)] astore_ok_def)
  qed
qed

lemma content_step:
  assumes ok: "astore_ok A"
    and check: "op_check opn = STATUS_SUCCESS" and step: "op_step opn A = Inr A'"
  shows "astore_ok A'"
proof -
  have A: "content_ok (a_rules A)" "policy_ok (a_policy A)"
    and prev: "case a_prev A of None \<Rightarrow> True | Some (rs, pol) \<Rightarrow> content_ok rs \<and> policy_ok pol"
    using ok by (simp_all add: astore_ok_def)
  have pub: "astore_ok (published rs pol A)" if "content_ok rs" "policy_ok pol" for rs pol
    using that A by (simp add: astore_ok_def published_def)
  show ?thesis
  proof (cases opn)
    case (OpAdd p)
    with check obtain r where r: "p = Some r" "rule_valid r"
      using validate_success [of p] by auto
    with OpAdd step have "length (a_rules A) < 4096" "r_ruleId r \<notin> set (map r_ruleId (a_rules A))"
      "A' = published (sort_key verdict_key (a_rules A @ [r])) (a_policy A) A"
      by (auto simp: stored_ids_def split: if_splits)
    then show ?thesis
      using A r by (auto simp: content_ok_def intro!: pub content_sort)
  next
    case (OpUpdate p)
    with check obtain r where r: "p = Some r" "rule_valid r"
      using validate_success [of p] by auto
    with OpUpdate step have
      "A' = published (sort_key verdict_key (with_rule (r_ruleId r) (\<lambda>_. r) (a_rules A))) (a_policy A) A"
      by (auto split: if_splits)
    then show ?thesis
      using A r set_with_rule [of "r_ruleId r" "\<lambda>_. r" "a_rules A"]
      by (auto simp: content_ok_def intro!: pub content_sort)
  next
    case (OpReplace rules n v)
    have "length (replace_list rules n) \<le> unat n"
      by (simp add: replace_list_def split: option.split)
    with OpReplace check step show ?thesis
      using A(2) by (auto simp: list_all_iff intro!: pub content_sort split: if_splits)
  next
    case OpRollback
    with step prev show ?thesis by (auto simp: astore_ok_def split: option.splits)
  qed (use A check step in \<open>auto simp: policy_ok_def
      intro!: pub content_filter content_enabled split: if_splits\<close>)
qed

end
