(* ===== verification/StoreOps.thy ===== *)
theory StoreOps
  imports StoreSpec
begin

text \<open>
  Every writer of the rule store implements its specification: under the invariant and with
  the writer lock free it returns (no fault, no endless loop), keeps the invariant, frees
  the lock and has the effect of \<open>op_step\<close>, for any behaviour of the other threads that
  \<open>store_env\<close> allows and any pattern of failing allocations.
\<close>

section \<open>The lock\<close>

lemma lock_free: "g_WriterBusy w = 0 \<Longrightarrow> SkStoreLock slp w = Some (w\<lparr>g_WriterBusy := 1\<rparr>)"
  by (simp add: SkStoreLock.simps)

lemma lock_inv [simp]:
  "store_inv Xs Xa H (w\<lparr>g_WriterBusy := n\<rparr>) = store_inv Xs Xa H w"
  "abs_store (w\<lparr>g_WriterBusy := n\<rparr>) = abs_store w"
  "snap_view (w\<lparr>g_WriterBusy := n\<rparr>) = snap_view w"
  "SkStoreWritableNoLock (w\<lparr>g_WriterBusy := n\<rparr>) = SkStoreWritableNoLock w"
  "commits ok (w\<lparr>g_WriterBusy := n\<rparr>) st w' A = commits ok w st w' A"
proof -
  let ?w = "w\<lparr>g_WriterBusy := n\<rparr>"
  have unlock: "SkStoreUnlock ?w = SkStoreUnlock w" by (simp add: SkStoreUnlock_def)
  show "store_inv Xs Xa H ?w = store_inv Xs Xa H w"
    using unlock_inv(1) [of Xs Xa H ?w] unfolding unlock by simp
  show abs: "abs_store ?w = abs_store w" using unlock_inv(2) [of ?w] unfolding unlock by simp
  show "snap_view ?w = snap_view w" using unlock_inv(7) [of ?w] unfolding unlock by simp
  show "SkStoreWritableNoLock ?w = SkStoreWritableNoLock w"
    by (simp add: SkStoreWritableNoLock_def ShRuntimeIsActive_def)
  show "commits ok ?w st w' A = commits ok w st w' A" by (simp add: commits_def abs)
qed

lemma writable_current: "store_inv Xs Xa H w \<Longrightarrow> SkStoreWritableNoLock w \<Longrightarrow> \<exists>p. g_Current w = Some p"
  using store_invD(4) [of Xs Xa H w] by (auto simp: flags_ok_def SkStoreWritableNoLock_def)

section \<open>The branches of a writer\<close>

definition outcome ::
    "(nat \<Rightarrow> bool) \<Rightarrow> 'a store_scheme \<Rightarrow> astore \<Rightarrow> astore \<Rightarrow> ntstatus \<Rightarrow> 'a store_scheme \<Rightarrow> bool" where
  "outcome ok w A A' st w' \<longleftrightarrow> (\<exists>H'. store_inv {} {} H' w') \<and> commits ok w st w' A' \<and>
     g_State w \<le> g_State w' \<and> (st = STATUS_SUCCESS \<longrightarrow> buckets_cleared (a_rules A) (a_rules A') w')"

lemma commits_success: "commits ok w st w' A \<Longrightarrow> NT_SUCCESS st \<longleftrightarrow> st = STATUS_SUCCESS"
  by (auto simp: commits_def)

lemma implements_check: "op_check opn \<noteq> STATUS_SUCCESS \<Longrightarrow> implements ok opn w (op_check opn) w"
  by (simp add: implements_def)

lemma implements_closed:
  "op_check opn = STATUS_SUCCESS \<Longrightarrow> \<not> SkStoreWritableNoLock w \<Longrightarrow>
   implements ok opn w STATUS_INVALID_DEVICE_STATE (SkStoreUnlock (w\<lparr>g_WriterBusy := 1\<rparr>))"
  by (simp add: implements_def SkRuleStoreWritable_def)

lemma implements_refused:
  "op_check opn = STATUS_SUCCESS \<Longrightarrow> SkStoreWritableNoLock w \<Longrightarrow> abs_store w = Some A \<Longrightarrow>
   op_step opn A = Inl e \<Longrightarrow> implements ok opn w e (SkStoreUnlock (w\<lparr>g_WriterBusy := 1\<rparr>))"
  by (simp add: implements_def SkRuleStoreWritable_def)

lemma implements_commit:
  "op_check opn = STATUS_SUCCESS \<Longrightarrow> SkStoreWritableNoLock w \<Longrightarrow> abs_store w = Some A \<Longrightarrow>
   op_step opn A = Inr A' \<Longrightarrow> outcome ok w A A' st w' \<Longrightarrow>
   (st = STATUS_SUCCESS \<Longrightarrow> \<forall>i\<in>set (op_resets opn). rate_bucket i (g_RateTable w') = None) \<Longrightarrow>
   implements ok opn w st (SkStoreUnlock w')"
  by (simp add: implements_def SkRuleStoreWritable_def outcome_def)

text \<open>The reset of a bucket after a publication.\<close>

lemma outcome_reset:
  assumes "outcome ok w A A' st w'"
  shows "outcome ok w A A' st (SkRuleRateReset i w') \<and>
    rate_bucket i (g_RateTable (SkRuleRateReset i w')) = None"
proof -
  let ?w = "SkRuleRateReset i w'"
  obtain H where inv: "store_inv {} {} H w'" using assms by (auto simp: outcome_def)
  from rate_reset_inv [OF inv, of i] have r: "store_inv {} {} H ?w" "keeps w' ?w"
    "rate_bucket i (g_RateTable ?w) = None"
    "set (bucket_ids (g_RateTable ?w)) \<subseteq> set (bucket_ids (g_RateTable w'))" by simp_all
  have state: "g_State ?w = g_State w'" by (simp add: SkRuleRateReset_def)
  then have act: "ShRuntimeIsActive ?w = ShRuntimeIsActive w'" by (simp add: ShRuntimeIsActive_def)
  have none: "rate_bucket j (g_RateTable ?w) = None" if "rate_bucket j (g_RateTable w') = None" for j
    using that r(4) bucket_in_ids [of j "g_RateTable ?w"] bucket_in_ids [of j "g_RateTable w'"] by blast
  have "commits ok w st ?w A'"
    using assms keeps_abs [OF r(2)] by (simp add: outcome_def commits_def act)
  moreover have "st = STATUS_SUCCESS \<longrightarrow> buckets_cleared (a_rules A) (a_rules A') ?w"
    using assms none by (simp add: outcome_def buckets_cleared_def)
  moreover have "g_State w \<le> g_State ?w" using assms by (simp add: outcome_def state)
  ultimately have "outcome ok w A A' st ?w" using r(1) by (auto simp: outcome_def)
  with r(3) show ?thesis by simp
qed

lemmas outcome_reset_intros = outcome_reset [THEN conjunct1] outcome_reset [THEN conjunct2]

text \<open>The early and the late failures of the publication of an array.\<close>

lemma hands_none [simp]: "hands w None 0 []"
  by (simp add: hands_def)

context store_env
begin

lemma publish_outcome:
  assumes "store_inv {} (set_option rules) H w" and "hands w rules n rs"
    and "content_ok rs" "policy_ok pol" and "g_Current w = Some c" and abs: "abs_store w = Some A"
  shows "\<exists>st w'. SkPublish ok slp rules n pol w = Some (st, w') \<and> outcome ok w A (published rs pol A) st w'"
  using publish_inv [OF assms, of ok] unfolding outcome_def published_def by force

lemma array_publish:
  assumes inv: "store_inv {} {} H w" and cur: "g_Current w = Some c" and abs: "abs_store w = Some A"
    and content: "content_ok rs" "policy_ok pol" and n: "length rs = unat n"
  obtains (fail) w1 where "AllocArray ok rs w = (None, w1)"
      "outcome ok w A (published rs pol A) STATUS_INSUFFICIENT_RESOURCES w1"
    | (publish) arr w1 st w2 where "AllocArray ok rs w = (Some arr, w1)"
      "SkPublish ok slp (Some arr) n pol w1 = Some (st, w2)"
      "outcome ok w A (published rs pol A) st w2"
proof -
  obtain r w1 where alloc: "AllocArray ok rs w = (r, w1)" by (cases "AllocArray ok rs w")
  note a = alloc_array_inv [OF inv alloc]
  show thesis
  proof (cases r)
    case None
    with a have f: "\<not> ok (p_next w)" "store_inv {} {} H w1" "keeps w w1" by simp_all
    then have "outcome ok w A (published rs pol A) STATUS_INSUFFICIENT_RESOURCES w1"
      using keeps_abs [OF f(3)] keepsD(6) [OF f(3)] by (auto simp: outcome_def commits_def)
    with alloc None show thesis by (intro fail [of w1]) simp_all
  next
    case (Some arr)
    with a have f: "store_inv {} {arr} H w1" "p_arrays w1 arr = Some rs" "keeps w w1"
      "p_next w1 = Suc (p_next w)" by simp_all
    have hands: "hands w1 (Some arr) n rs" using f(2) n by (simp add: hands_def)
    have cur1: "g_Current w1 = Some c" using keepsD(1) [OF f(3)] cur by simp
    have abs1: "abs_store w1 = Some A" using keeps_abs [OF f(3)] abs by simp
    have inv1: "store_inv {} (set_option (Some arr)) H w1" using f(1) by simp
    from publish_outcome [OF inv1 hands content cur1 abs1, of ok] obtain st w2 where
      p: "SkPublish ok slp (Some arr) n pol w1 = Some (st, w2)"
        "outcome ok w1 A (published rs pol A) st w2"
      by (elim exE conjE) (rule that)
    have "\<exists>k\<ge>p_next w. \<not> ok k" if "k \<ge> p_next w1" "\<not> ok k" for k
      using that f(4) by (intro exI [of _ k]) simp
    then have "outcome ok w A (published rs pol A) st w2"
      using p(2) keepsD(6) [OF f(3)] keeps_abs [OF f(3)]
      by (auto simp: outcome_def commits_def)
    with alloc Some p show thesis by (intro publish [of arr w1 st w2]) simp_all
  qed
qed

text \<open>A closed gate.\<close>

lemma closed_writer:
  assumes inv: "store_inv {} {} H w" and gate: "\<not> SkStoreWritableNoLock w"
    and check: "op_check opn = STATUS_SUCCESS"
  shows "\<exists>st w' H'. Some (STATUS_INVALID_DEVICE_STATE, SkStoreUnlock (w\<lparr>g_WriterBusy := 1\<rparr>)) = Some (st, w') \<and>
    store_inv {} {} H' w' \<and> implements ok opn w st w'"
  using inv implements_closed [OF check gate, of ok] by auto

text \<open>A refused check under the lock.\<close>

lemma refused_writer:
  assumes inv: "store_inv {} {} H w" and gate: "SkStoreWritableNoLock w"
    and check: "op_check opn = STATUS_SUCCESS" and abs: "abs_store w = Some A"
    and step: "op_step opn A = Inl e"
  shows "\<exists>st w' H'. Some (e, SkStoreUnlock (w\<lparr>g_WriterBusy := 1\<rparr>)) = Some (st, w') \<and>
    store_inv {} {} H' w' \<and> implements ok opn w st w'"
  using inv implements_refused [OF check gate abs step, of ok] by auto

text \<open>What a writer reads behind an open gate.\<close>

lemma open_store:
  assumes inv: "store_inv {} {} H w" and gate: "SkStoreWritableNoLock w"
  obtains p cur A where "g_Current w = Some p" "p_snaps w p = Some cur"
    "snap_rules w cur = Some (a_rules A)" "abs_store w = Some A" "a_version A = s_version cur"
    "a_policy A = s_defaultPolicy cur" "length (a_rules A) = unat (s_count cur)"
    "content_ok (a_rules A)" "policy_ok (s_defaultPolicy cur)"
  using writable_current [OF inv gate] abs_store_open [OF inv] by blast

text \<open>
  The last part shared by the writers that publish an array: allocation failure and the two
  outcomes of the publication, with what the writer does after it (\<open>f\<close>).
\<close>

lemma array_writer:
  assumes inv: "store_inv {} {} H w" and gate: "SkStoreWritableNoLock w"
    and cur: "g_Current w = Some c" and abs: "abs_store w = Some A"
    and content: "content_ok rs" "policy_ok pol" and n: "length rs = unat n"
    and check: "op_check opn = STATUS_SUCCESS" and step: "op_step opn A = Inr (published rs pol A)"
    and f: "\<And>st w'. outcome ok w A (published rs pol A) st w' \<Longrightarrow>
      outcome ok w A (published rs pol A) st (f st w') \<and>
      (st = STATUS_SUCCESS \<longrightarrow> (\<forall>i\<in>set (op_resets opn). rate_bucket i (g_RateTable (f st w')) = None))"
  shows "\<exists>st w' H'. (case AllocArray ok rs (w\<lparr>g_WriterBusy := 1\<rparr>) of
       (None, w) \<Rightarrow> Some (STATUS_INSUFFICIENT_RESOURCES, SkStoreUnlock w)
     | (Some arr, w) \<Rightarrow>
         Option.bind (SkPublish ok slp (Some arr) n pol w) (\<lambda>(st, w). Some (st, SkStoreUnlock (f st w))))
     = Some (st, w') \<and> store_inv {} {} H' w' \<and> implements ok opn w st w'"
proof -
  let ?l = "w\<lparr>g_WriterBusy := 1\<rparr>"
  have out: "outcome ok ?l = outcome ok w" by (intro ext) (simp add: outcome_def)
  have inv': "store_inv {} {} H ?l" and cur': "g_Current ?l = Some c" and abs': "abs_store ?l = Some A"
    using inv cur abs by simp_all
  show ?thesis
  proof (rule array_publish [OF inv' cur' abs' content n, of ok], unfold out)
    fix w1
    assume *: "AllocArray ok rs ?l = (None, w1)"
      and o: "outcome ok w A (published rs pol A) STATUS_INSUFFICIENT_RESOURCES w1"
    have "implements ok opn w STATUS_INSUFFICIENT_RESOURCES (SkStoreUnlock w1)"
      by (rule implements_commit [OF check gate abs step o]) simp
    moreover obtain H' where "store_inv {} {} H' w1" using o by (auto simp: outcome_def)
    ultimately show ?thesis by (auto simp: *)
  next
    fix arr w1 st w2
    assume *: "AllocArray ok rs ?l = (Some arr, w1)" "SkPublish ok slp (Some arr) n pol w1 = Some (st, w2)"
      and o: "outcome ok w A (published rs pol A) st w2"
    have "implements ok opn w st (SkStoreUnlock (f st w2))"
      by (rule implements_commit [OF check gate abs step]) (use f [OF o] in auto)
    moreover obtain H' where "store_inv {} {} H' (f st w2)" using f [OF o] by (auto simp: outcome_def)
    ultimately show ?thesis by (auto simp: *)
  qed
qed

text \<open>The same for the publication of an empty rule list.\<close>

lemma empty_writer:
  assumes inv: "store_inv {} {} H w" and gate: "SkStoreWritableNoLock w"
    and cur: "g_Current w = Some c" and abs: "abs_store w = Some A" and pol: "policy_ok pol"
    and check: "op_check opn = STATUS_SUCCESS" and step: "op_step opn A = Inr (published [] pol A)"
    and resets: "op_resets opn = []"
  shows "\<exists>st w' H'. Option.bind (SkPublish ok slp None 0 pol (w\<lparr>g_WriterBusy := 1\<rparr>))
       (\<lambda>(st, w). Some (st, SkStoreUnlock w)) = Some (st, w') \<and>
     store_inv {} {} H' w' \<and> implements ok opn w st w'"
proof -
  let ?l = "w\<lparr>g_WriterBusy := 1\<rparr>"
  have "store_inv {} (set_option None) H ?l" "hands ?l None 0 []" "g_Current ?l = Some c" "abs_store ?l = Some A"
    using inv cur abs by simp_all
  from publish_outcome [OF this(1,2) content_nil pol this(3,4), of ok] obtain st w' where
    p: "SkPublish ok slp None 0 pol ?l = Some (st, w')" and o: "outcome ok w A (published [] pol A) st w'"
    by (auto simp: outcome_def)
  have "implements ok opn w st (SkStoreUnlock w')"
    by (rule implements_commit [OF check gate abs step o]) (simp add: resets)
  moreover obtain H' where "store_inv {} {} H' w'" using o by (auto simp: outcome_def)
  ultimately show ?thesis by (auto simp: p)
qed

section \<open>Add\<close>

lemma add_implements:
  assumes inv: "store_inv {} {} H w" and free: "g_WriterBusy w = 0"
  shows "\<exists>st w' H'. SkRuleStoreAdd ok slp p w = Some (st, w') \<and> store_inv {} {} H' w' \<and>
    implements ok (OpAdd p) w st w'"
proof (cases "op_check (OpAdd p) = STATUS_SUCCESS")
  case False
  then have "\<not> NT_SUCCESS (SkRuleValidate p)" using validate_status [of p] by auto
  then show ?thesis
    using inv implements_check [OF False, of ok w] by (auto simp: SkRuleStoreAdd_def)
next
  case check: True
  then obtain r where r: "p = Some r" "rule_valid r" by (auto simp: validate_success)
  have start: "SkRuleStoreAdd ok slp p w = (if \<not> SkStoreWritableNoLock w
      then Some (STATUS_INVALID_DEVICE_STATE, SkStoreUnlock (w\<lparr>g_WriterBusy := 1\<rparr>))
      else SkRuleStoreAdd ok slp p w)"
    using check r(1) lock_free [OF free] by (simp add: SkRuleStoreAdd_def)
  show ?thesis
  proof (cases "SkStoreWritableNoLock w")
    case False
    then show ?thesis
      using start inv implements_closed [OF check False, of ok] by auto
  next
    case gate: True
    from open_store [OF inv gate] obtain q cur A where st: "g_Current w = Some q" "p_snaps w q = Some cur"
      "snap_rules w cur = Some (a_rules A)" "abs_store w = Some A"
      "a_policy A = s_defaultPolicy cur" "length (a_rules A) = unat (s_count cur)"
      "content_ok (a_rules A)" "policy_ok (s_defaultPolicy cur)" by metis
    have full: "s_count cur \<ge> SK_RULE_MAX \<longleftrightarrow> length (a_rules A) \<ge> 4096"
      by (simp add: st(6) word_le_nat_alt)
    have dup: "list_ex (\<lambda>q. r_ruleId q = r_ruleId r) (a_rules A) \<longleftrightarrow> r_ruleId r \<in> stored_ids A"
      by (simp add: list_ex_iff stored_ids_def image_iff) metis
    have eq: "SkRuleStoreAdd ok slp p w =
      (if length (a_rules A) \<ge> 4096
       then Some (STATUS_INSUFFICIENT_RESOURCES, SkStoreUnlock (w\<lparr>g_WriterBusy := 1\<rparr>))
       else if r_ruleId r \<in> stored_ids A
       then Some (STATUS_OBJECTID_EXISTS, SkStoreUnlock (w\<lparr>g_WriterBusy := 1\<rparr>))
       else (case AllocArray ok (SkSortRules (a_rules A @ [r]) (unat (s_count cur + 1)))
           (w\<lparr>g_WriterBusy := 1\<rparr>) of
         (None, w) \<Rightarrow> Some (STATUS_INSUFFICIENT_RESOURCES, SkStoreUnlock w)
       | (Some arr, w) \<Rightarrow>
           Option.bind (SkPublish ok slp (Some arr) (s_count cur + 1) (s_defaultPolicy cur) w)
             (\<lambda>(st, w). Some (st, SkStoreUnlock (if NT_SUCCESS st then SkRuleRateReset (r_ruleId r) w else w)))))"
      unfolding SkRuleStoreAdd_def Let_def using check r gate
      by (simp add: lock_free [OF free] st(1-4) full [symmetric] dup [symmetric])
    consider (full) "length (a_rules A) \<ge> 4096"
      | (dup) "length (a_rules A) < 4096" "r_ruleId r \<in> stored_ids A"
      | (new) "length (a_rules A) < 4096" "r_ruleId r \<notin> stored_ids A" by linarith
    then show ?thesis
    proof cases
      case full
      then have "op_step (OpAdd p) A = Inl STATUS_INSUFFICIENT_RESOURCES" by simp
      from implements_refused [OF check gate st(4) this] show ?thesis
        using inv full by (auto simp: eq)
    next
      case dup
      then have "op_step (OpAdd p) A = Inl STATUS_OBJECTID_EXISTS" by (simp add: r)
      from implements_refused [OF check gate st(4) this] show ?thesis
        using inv dup by (auto simp: eq)
    next
      case new
      let ?rs = "sort_key verdict_key (a_rules A @ [r])"
      have step: "op_step (OpAdd p) A = Inr (published ?rs (s_defaultPolicy cur) A)"
        using new by (simp add: r st(5))
      have n: "unat (s_count cur + 1) = length (a_rules A @ [r])"
        using new(1) st(6) by (simp add: unat_word_ariths)
      have content: "content_ok ?rs"
        using new r by (intro content_sort) (use st(7) in \<open>auto simp: content_ok_def stored_ids_def\<close>)
      have sort: "SkSortRules (a_rules A @ [r]) (unat (s_count cur + 1)) = ?rs"
        unfolding n by (rule sort_rules)
      have len: "length ?rs = unat (s_count cur + 1)" by (simp add: n)
      have run: "SkRuleStoreAdd ok slp p w = (case AllocArray ok ?rs (w\<lparr>g_WriterBusy := 1\<rparr>) of
          (None, w) \<Rightarrow> Some (STATUS_INSUFFICIENT_RESOURCES, SkStoreUnlock w)
        | (Some arr, w) \<Rightarrow>
            Option.bind (SkPublish ok slp (Some arr) (s_count cur + 1) (s_defaultPolicy cur) w)
              (\<lambda>(st, w). Some (st, SkStoreUnlock (if NT_SUCCESS st then SkRuleRateReset (r_ruleId r) w else w))))"
        using new unfolding eq sort by simp
      show ?thesis
        unfolding run
        by (rule array_writer [OF inv gate st(1,4) content st(8) len check step])
          (auto simp: r intro: outcome_reset_intros)
    qed
  qed
qed

end

section \<open>Update, Delete, SetEnabled\<close>

lemma rule_index_le: "rule_index i rs \<le> length rs"
  by (induction rs) auto

lemma rule_index_missing: "rule_index i rs = length rs \<longleftrightarrow> i \<notin> r_ruleId ` set rs"
  by (induction rs) auto

lemma rule_index_found:
  assumes "rule_index i rs \<noteq> length rs"
  shows "rule_index i rs < length rs" and "r_ruleId (rs ! rule_index i rs) = i"
proof -
  show "rule_index i rs < length rs" using assms rule_index_le [of i rs] by simp
  then show "r_ruleId (rs ! rule_index i rs) = i" by (induction rs) auto
qed

text \<open>With distinct ids the indexed writes are the id-wise ones of the specification.\<close>

lemma index_update:
  "distinct (map r_ruleId rs) \<Longrightarrow> rule_index i rs \<noteq> length rs \<Longrightarrow>
   rs[rule_index i rs := f (rs ! rule_index i rs)] = with_rule i f rs"
proof (induction rs)
  case (Cons r rs)
  have same: "with_rule i f rs = rs" if "i \<notin> r_ruleId ` set rs"
    using that by (auto simp: with_rule_def intro!: map_idI)
  show ?case
  proof (cases "r_ruleId r = i")
    case True
    then have "i \<notin> r_ruleId ` set rs" using Cons.prems(1) by auto
    with True same show ?thesis by (simp add: with_rule_def)
  next
    case False
    with Cons show ?thesis by (simp add: with_rule_def)
  qed
qed simp

lemma index_delete:
  "distinct (map r_ruleId rs) \<Longrightarrow> rule_index i rs \<noteq> length rs \<Longrightarrow>
   take (rule_index i rs) rs @ drop (rule_index i rs + 1) rs = filter (\<lambda>r. r_ruleId r \<noteq> i) rs"
proof (induction rs)
  case (Cons r rs)
  show ?case
  proof (cases "r_ruleId r = i")
    case True
    then have "i \<notin> r_ruleId ` set rs" using Cons.prems(1) by auto
    then have "filter (\<lambda>r. r_ruleId r \<noteq> i) rs = rs" by (auto simp: filter_id_conv)
    with True show ?thesis by simp
  next
    case False
    with Cons show ?thesis by simp
  qed
qed simp

lemma filter_length:
  assumes "distinct (map r_ruleId rs)" and "rule_index i rs \<noteq> length rs"
  shows "length (filter (\<lambda>r. r_ruleId r \<noteq> i) rs) = length rs - 1"
proof -
  have "length (take (rule_index i rs) rs @ drop (rule_index i rs + 1) rs) = length rs - 1"
    using rule_index_found(1) [OF assms(2)] by simp
  then show ?thesis by (simp only: index_delete [OF assms])
qed

context store_env
begin

lemma update_implements:
  assumes inv: "store_inv {} {} H w" and free: "g_WriterBusy w = 0"
  shows "\<exists>st w' H'. SkRuleStoreUpdate ok slp p w = Some (st, w') \<and> store_inv {} {} H' w' \<and>
    implements ok (OpUpdate p) w st w'"
proof (cases "op_check (OpUpdate p) = STATUS_SUCCESS")
  case False
  then have "\<not> NT_SUCCESS (SkRuleValidate p)" using validate_status [of p] by auto
  then show ?thesis
    using inv implements_check [OF False, of ok w] by (auto simp: SkRuleStoreUpdate_def)
next
  case check: True
  then obtain r where r: "p = Some r" "rule_valid r" by (auto simp: validate_success)
  note start = SkRuleStoreUpdate_def Let_def r(1)
  have val: "SkRuleValidate (Some r) = STATUS_SUCCESS" using check r by simp
  show ?thesis
  proof (cases "SkStoreWritableNoLock w")
    case False
    then have "SkRuleStoreUpdate ok slp p w =
        Some (STATUS_INVALID_DEVICE_STATE, SkStoreUnlock (w\<lparr>g_WriterBusy := 1\<rparr>))"
      unfolding start by (simp add: val lock_free [OF free])
    then show ?thesis using closed_writer [OF inv False check, of ok] by simp
  next
    case gate: True
    from open_store [OF inv gate] obtain q cur A where st: "g_Current w = Some q" "p_snaps w q = Some cur"
      "snap_rules w cur = Some (a_rules A)" "abs_store w = Some A"
      "a_policy A = s_defaultPolicy cur" "length (a_rules A) = unat (s_count cur)"
      "content_ok (a_rules A)" "policy_ok (s_defaultPolicy cur)" by metis
    let ?i = "rule_index (r_ruleId r) (a_rules A)"
    show ?thesis
    proof (cases "?i = length (a_rules A)")
      case True
      then have step: "op_step (OpUpdate p) A = Inl STATUS_NOT_FOUND"
        by (simp add: r rule_index_missing stored_ids_def)
      have "SkRuleStoreUpdate ok slp p w = Some (STATUS_NOT_FOUND, SkStoreUnlock (w\<lparr>g_WriterBusy := 1\<rparr>))"
        unfolding start using True gate by (simp add: val lock_free [OF free] st(1-3) st(6) [symmetric])
      then show ?thesis using refused_writer [OF inv gate check st(4) step, of ok] by simp
    next
      case found: False
      let ?rs = "sort_key verdict_key (with_rule (r_ruleId r) (\<lambda>_. r) (a_rules A))"
      have dist: "distinct (map r_ruleId (a_rules A))" using st(7) by (simp add: content_ok_def)
      have step: "op_step (OpUpdate p) A = Inr (published ?rs (s_defaultPolicy cur) A)"
        using found by (simp add: r st(5) rule_index_missing stored_ids_def)
      have sort: "SkSortRules ((a_rules A)[?i := r]) (unat (s_count cur)) = ?rs"
        using sort_rules [of "(a_rules A)[?i := r]"] index_update [OF dist found, of "\<lambda>_. r"]
        by (simp add: st(6))
      have content: "content_ok ?rs"
        using content_step [OF abs_store_ok [OF inv st(4)] check step] by (simp add: astore_ok_def published_def)
      have len: "length ?rs = unat (s_count cur)" by (simp add: st(6))
      have run: "SkRuleStoreUpdate ok slp p w = (case AllocArray ok ?rs (w\<lparr>g_WriterBusy := 1\<rparr>) of
          (None, w) \<Rightarrow> Some (STATUS_INSUFFICIENT_RESOURCES, SkStoreUnlock w)
        | (Some arr, w) \<Rightarrow>
            Option.bind (SkPublish ok slp (Some arr) (s_count cur) (s_defaultPolicy cur) w)
              (\<lambda>(st, w). Some (st, SkStoreUnlock w)))"
        unfolding start using found gate
        by (simp add: val lock_free [OF free] st(1-3) st(6) [symmetric] sort [unfolded st(6) [symmetric]])
      show ?thesis
        unfolding run by (rule array_writer [OF inv gate st(1,4) content st(8) len check step]) auto
    qed
  qed
qed

lemma delete_implements:
  assumes inv: "store_inv {} {} H w" and free: "g_WriterBusy w = 0"
  shows "\<exists>st w' H'. SkRuleStoreDelete ok slp i w = Some (st, w') \<and> store_inv {} {} H' w' \<and>
    implements ok (OpDelete i) w st w'"
proof -
  have check: "op_check (OpDelete i) = STATUS_SUCCESS" by simp
  note start = SkRuleStoreDelete_def Let_def
  show ?thesis
  proof (cases "SkStoreWritableNoLock w")
    case False
    then have "SkRuleStoreDelete ok slp i w =
        Some (STATUS_INVALID_DEVICE_STATE, SkStoreUnlock (w\<lparr>g_WriterBusy := 1\<rparr>))"
      unfolding start by (simp add: lock_free [OF free])
    then show ?thesis using closed_writer [OF inv False check, of ok] by simp
  next
    case gate: True
    from open_store [OF inv gate] obtain q cur A where st: "g_Current w = Some q" "p_snaps w q = Some cur"
      "snap_rules w cur = Some (a_rules A)" "abs_store w = Some A"
      "a_policy A = s_defaultPolicy cur" "length (a_rules A) = unat (s_count cur)"
      "content_ok (a_rules A)" "policy_ok (s_defaultPolicy cur)" by metis
    let ?i = "rule_index i (a_rules A)"
    show ?thesis
    proof (cases "?i = length (a_rules A)")
      case True
      then have step: "op_step (OpDelete i) A = Inl STATUS_NOT_FOUND"
        by (simp add: rule_index_missing stored_ids_def)
      have "SkRuleStoreDelete ok slp i w = Some (STATUS_NOT_FOUND, SkStoreUnlock (w\<lparr>g_WriterBusy := 1\<rparr>))"
        unfolding start using True gate by (simp add: lock_free [OF free] st(1-3) st(6) [symmetric])
      then show ?thesis using refused_writer [OF inv gate check st(4) step, of ok] by simp
    next
      case found: False
      let ?rs = "filter (\<lambda>r. r_ruleId r \<noteq> i) (a_rules A)"
      have dist: "distinct (map r_ruleId (a_rules A))" using st(7) by (simp add: content_ok_def)
      have step: "op_step (OpDelete i) A = Inr (published ?rs (s_defaultPolicy cur) A)"
        using found by (simp add: st(5) rule_index_missing stored_ids_def)
      have content: "content_ok ?rs" using st(7) by (rule content_filter)
      have pos: "0 < length (a_rules A)" using rule_index_found(1) [OF found] by linarith
      have rest: "length ?rs = unat (s_count cur) - 1" using filter_length [OF dist found] st(6) by simp
      show ?thesis
      proof (cases "s_count cur = 1")
        case True
        with rest have nil: "?rs = []" by simp
        have i0: "?i = 0" using rule_index_found(1) [OF found] True st(6) by simp
        have "SkRuleStoreDelete ok slp i w =
            Option.bind (SkPublish ok slp None 0 (s_defaultPolicy cur) (w\<lparr>g_WriterBusy := 1\<rparr>))
              (\<lambda>(st, w). Some (st, SkStoreUnlock w))"
          unfolding start using gate True i0
          by (simp add: lock_free [OF free] st(1-3))
        then show ?thesis
          using empty_writer [OF inv gate st(1,4,8) check step [unfolded nil], of ok] by simp
      next
        case False
        have pos': "1 \<le> unat (s_count cur)" using pos st(6) by simp
        then have len: "length ?rs = unat (s_count cur - 1)"
          using rest by (simp add: unat_sub word_le_nat_alt)
        have run: "SkRuleStoreDelete ok slp i w = (case AllocArray ok ?rs (w\<lparr>g_WriterBusy := 1\<rparr>) of
            (None, w) \<Rightarrow> Some (STATUS_INSUFFICIENT_RESOURCES, SkStoreUnlock w)
          | (Some arr, w) \<Rightarrow>
              Option.bind (SkPublish ok slp (Some arr) (s_count cur - 1) (s_defaultPolicy cur) w)
                (\<lambda>(st, w). Some (st, SkStoreUnlock w)))"
          unfolding start using found gate False
          by (simp add: lock_free [OF free] st(1-3) st(6) [symmetric]
              index_delete [OF dist found, unfolded Suc_eq_plus1 [symmetric]])
        show ?thesis
          unfolding run by (rule array_writer [OF inv gate st(1,4) content st(8) len check step]) auto
      qed
    qed
  qed
qed

lemma set_enabled_implements:
  assumes inv: "store_inv {} {} H w" and free: "g_WriterBusy w = 0"
  shows "\<exists>st w' H'. SkRuleStoreSetEnabled ok slp i b w = Some (st, w') \<and> store_inv {} {} H' w' \<and>
    implements ok (OpSetEnabled i b) w st w'"
proof -
  have check: "op_check (OpSetEnabled i b) = STATUS_SUCCESS" by simp
  note start = SkRuleStoreSetEnabled_def Let_def
  show ?thesis
  proof (cases "SkStoreWritableNoLock w")
    case False
    then have "SkRuleStoreSetEnabled ok slp i b w =
        Some (STATUS_INVALID_DEVICE_STATE, SkStoreUnlock (w\<lparr>g_WriterBusy := 1\<rparr>))"
      unfolding start by (simp add: lock_free [OF free])
    then show ?thesis using closed_writer [OF inv False check, of ok] by simp
  next
    case gate: True
    from open_store [OF inv gate] obtain q cur A where st: "g_Current w = Some q" "p_snaps w q = Some cur"
      "snap_rules w cur = Some (a_rules A)" "abs_store w = Some A"
      "a_policy A = s_defaultPolicy cur" "length (a_rules A) = unat (s_count cur)"
      "content_ok (a_rules A)" "policy_ok (s_defaultPolicy cur)" by metis
    let ?i = "rule_index i (a_rules A)"
    show ?thesis
    proof (cases "?i = length (a_rules A)")
      case True
      then have step: "op_step (OpSetEnabled i b) A = Inl STATUS_NOT_FOUND"
        by (simp add: rule_index_missing stored_ids_def)
      have "SkRuleStoreSetEnabled ok slp i b w =
          Some (STATUS_NOT_FOUND, SkStoreUnlock (w\<lparr>g_WriterBusy := 1\<rparr>))"
        unfolding start using True gate by (simp add: lock_free [OF free] st(1-3) st(6) [symmetric])
      then show ?thesis using refused_writer [OF inv gate check st(4) step, of ok] by simp
    next
      case found: False
      let ?f = "\<lambda>r. r\<lparr>r_enabled := (if b then 1 else 0)\<rparr>"
      let ?rs = "with_rule i ?f (a_rules A)"
      have dist: "distinct (map r_ruleId (a_rules A))" using st(7) by (simp add: content_ok_def)
      have step: "op_step (OpSetEnabled i b) A = Inr (published ?rs (s_defaultPolicy cur) A)"
        using found by (simp add: st(5) rule_index_missing stored_ids_def)
      have content: "content_ok ?rs" by (rule content_enabled [OF st(7)]) simp
      have len: "length ?rs = unat (s_count cur)" by (simp add: st(6))
      have run: "SkRuleStoreSetEnabled ok slp i b w = (case AllocArray ok ?rs (w\<lparr>g_WriterBusy := 1\<rparr>) of
          (None, w) \<Rightarrow> Some (STATUS_INSUFFICIENT_RESOURCES, SkStoreUnlock w)
        | (Some arr, w) \<Rightarrow>
            Option.bind (SkPublish ok slp (Some arr) (s_count cur) (s_defaultPolicy cur) w)
              (\<lambda>(st, w). Some (st, SkStoreUnlock
                (if NT_SUCCESS st \<and> \<not> b then SkRuleRateReset i w else w))))"
        unfolding start using found gate
        by (simp add: lock_free [OF free] st(1-3) st(6) [symmetric] index_update [OF dist found, of ?f])
      show ?thesis
        unfolding run
        by (rule array_writer [OF inv gate st(1,4) content st(8) len check step])
          (cases b; auto intro: outcome_reset_intros)
    qed
  qed
qed

end

section \<open>Replace\<close>

text \<open>The size check of the code is implied by the check of the count.\<close>

lemma replace_size_check:
  assumes "\<not> n > SK_RULE_MAX"
  shows "\<not> ucast (n :: u32) * sizeof_SK_RULE > (ucast SK_REPLACE_MAX_BYTES :: u64)"
proof -
  have n: "unat n \<le> 4096" using assms by (simp add: word_less_nat_alt)
  then have u: "unat (ucast n :: u64) = unat n" by (simp add: unsigned_ucast_eq take_bit_nat_eq_self)
  have "unat (ucast n * sizeof_SK_RULE :: u64) = unat n * 176"
    using n u by (simp add: unat_word_ariths)
  then show ?thesis using n by (simp add: word_less_nat_alt)
qed

lemma validate_all_iff:
  "validate_all rs = (if list_all rule_valid rs then STATUS_SUCCESS else STATUS_INVALID_PARAMETER)"
proof (induction rs)
  case (Cons r rs)
  consider "rule_valid r" | "\<not> rule_valid r" "SkRuleValidate (Some r) = STATUS_INVALID_PARAMETER"
    using validate_status [of "Some r"] validate_iff [of r] by auto
  then show ?case
  proof cases
    case 1
    then have "SkRuleValidate (Some r) = STATUS_SUCCESS" by (simp add: validate_iff)
    with 1 Cons show ?thesis by simp
  qed simp
qed simp

lemma has_dup_iff: "has_dup rs \<longleftrightarrow> \<not> distinct (map r_ruleId rs)"
proof (induction rs)
  case (Cons r rs)
  have "list_ex (\<lambda>q. r_ruleId r = r_ruleId q) rs \<longleftrightarrow> r_ruleId r \<in> set (map r_ruleId rs)"
    by (auto simp: list_ex_iff)
  with Cons show ?case by auto
qed simp

text \<open>The array the caller passes is readable as far as the code reads it.\<close>

fun readable :: "store_op \<Rightarrow> bool" where
  "readable (OpReplace (Some rs) n v) = (unat n \<le> length rs \<or> unat n > 4096)"
| "readable _ = True"

context store_env
begin

lemma replace_implements:
  assumes inv: "store_inv {} {} H w" and free: "g_WriterBusy w = 0"
    and readable: "readable (OpReplace rules n v)"
  shows "\<exists>st w' H'. SkRuleStoreReplace ok slp rules n v w = Some (st, w') \<and> store_inv {} {} H' w' \<and>
    implements ok (OpReplace rules n v) w st w'"
proof -
  let ?rs = "replace_list rules n"
  have bound: "n > SK_RULE_MAX \<longleftrightarrow> unat n > 4096" by (simp add: word_less_nat_alt)
  have early: ?thesis
    if "op_check (OpReplace rules n v) \<noteq> STATUS_SUCCESS"
      and "SkRuleStoreReplace ok slp rules n v w = Some (op_check (OpReplace rules n v), w)"
    using inv that(2) implements_check [OF that(1), of ok w] by auto
  show ?thesis
  proof (cases "unat n > 4096 \<or> n \<noteq> 0 \<and> rules = None")
    case True
    show ?thesis
      by (rule early) (use True bound in \<open>auto simp: SkRuleStoreReplace_def\<close>)
  next
    case args: False
    have read: "(case rules of None \<Rightarrow> Some []
        | Some rs \<Rightarrow> if unat n \<le> length rs then Some (take (unat n) rs) else None) = Some ?rs"
      using args readable by (cases rules) (auto simp: replace_list_def)
    have len: "length ?rs = unat n"
      using args readable by (cases rules) (auto simp: replace_list_def)
    have small: "\<not> n > SK_RULE_MAX" using args bound by simp
    have null: "(n \<noteq> 0 \<and> rules = None) = False" using args by simp
    have run: "SkRuleStoreReplace ok slp rules n v w =
        (if \<not> list_all rule_valid ?rs then Some (STATUS_INVALID_PARAMETER, w)
         else if \<not> distinct (map r_ruleId ?rs) then Some (STATUS_OBJECTID_EXISTS, w)
         else SkRuleStoreReplace ok slp rules n v w)"
      unfolding SkRuleStoreReplace_def read Let_def
      by (simp only: small replace_size_check [OF small] null if_False)
        (simp add: validate_all_iff has_dup_iff)
    show ?thesis
    proof (cases "list_all rule_valid ?rs \<and> distinct (map r_ruleId ?rs)")
      case False
      show ?thesis
      proof (rule early)
        show "op_check (OpReplace rules n v) \<noteq> STATUS_SUCCESS" using False by auto
        show "SkRuleStoreReplace ok slp rules n v w = Some (op_check (OpReplace rules n v), w)"
          by (subst run) (use False args in auto)
      qed
    next
      case valid: True
      then have check: "op_check (OpReplace rules n v) = STATUS_SUCCESS" using args by auto
      have sort: "SkSortRules ?rs (unat n) = sort_key verdict_key ?rs"
        using sort_rules [of ?rs] by (simp only: len)
      have lock: "SkRuleStoreReplace ok slp rules n v w =
        (let l = w\<lparr>g_WriterBusy := 1\<rparr> in
          if \<not> SkStoreWritableNoLock w then Some (STATUS_INVALID_DEVICE_STATE, SkStoreUnlock l)
          else do {
            p \<leftarrow> g_Current w;
            cur \<leftarrow> p_snaps w p;
            if v \<noteq> 0 \<and> s_version cur \<noteq> v then Some (STATUS_RETRY, SkStoreUnlock l)
            else if n \<noteq> 0 then
              (case AllocArray ok (sort_key verdict_key ?rs) l of
                 (None, w) \<Rightarrow> Some (STATUS_INSUFFICIENT_RESOURCES, SkStoreUnlock w)
               | (Some arr, w) \<Rightarrow>
                   Option.bind (SkPublish ok slp (Some arr) n (s_defaultPolicy cur) w)
                     (\<lambda>(st, w). Some (st, SkStoreUnlock w)))
            else
              Option.bind (SkPublish ok slp None n (s_defaultPolicy cur) l)
                (\<lambda>(st, w). Some (st, SkStoreUnlock w))
          })"
        using valid unfolding SkRuleStoreReplace_def read Let_def
        by (simp only: small replace_size_check [OF small] null if_False bind.bind_lunit sort)
          (simp add: validate_all_iff has_dup_iff lock_free [OF free])
      show ?thesis
      proof (cases "SkStoreWritableNoLock w")
        case False
        then show ?thesis using closed_writer [OF inv False check, of ok] by (simp add: lock Let_def)
      next
        case gate: True
        from open_store [OF inv gate] obtain q cur A where st: "g_Current w = Some q"
          "p_snaps w q = Some cur" "abs_store w = Some A" "a_version A = s_version cur"
          "a_policy A = s_defaultPolicy cur" "policy_ok (s_defaultPolicy cur)" by metis
        show ?thesis
        proof (cases "v \<noteq> 0 \<and> s_version cur \<noteq> v")
          case True
          then have step: "op_step (OpReplace rules n v) A = Inl STATUS_RETRY" by (simp add: st(4))
          show ?thesis
            using refused_writer [OF inv gate check st(3) step, of ok] True gate
            by (simp add: lock Let_def st(1,2))
        next
          case False
          then have step: "op_step (OpReplace rules n v) A =
              Inr (published (sort_key verdict_key ?rs) (s_defaultPolicy cur) A)"
            by (auto simp: st(4,5))
          have content: "content_ok (sort_key verdict_key ?rs)"
            using content_step [OF abs_store_ok [OF inv st(3)] check step]
            by (simp add: astore_ok_def published_def)
          show ?thesis
          proof (cases "n = 0")
            case True
            then have nil: "sort_key verdict_key ?rs = []" using len by simp
            from True False gate have run: "SkRuleStoreReplace ok slp rules n v w =
                Option.bind (SkPublish ok slp None 0 (s_defaultPolicy cur) (w\<lparr>g_WriterBusy := 1\<rparr>))
                  (\<lambda>(st, w). Some (st, SkStoreUnlock w))"
              unfolding lock Let_def by (auto simp: st(1,2))
            show ?thesis
              unfolding run by (rule empty_writer [OF inv gate st(1,3,6) check step [unfolded nil]]) simp
          next
            case n: False
            with False gate have run: "SkRuleStoreReplace ok slp rules n v w =
                (case AllocArray ok (sort_key verdict_key ?rs) (w\<lparr>g_WriterBusy := 1\<rparr>) of
                   (None, w) \<Rightarrow> Some (STATUS_INSUFFICIENT_RESOURCES, SkStoreUnlock w)
                 | (Some arr, w) \<Rightarrow>
                     Option.bind (SkPublish ok slp (Some arr) n (s_defaultPolicy cur) w)
                       (\<lambda>(st, w). Some (st, SkStoreUnlock w)))"
              unfolding lock Let_def by (auto simp: st(1,2))
            have len': "length (sort_key verdict_key ?rs) = unat n" by (simp add: len)
            show ?thesis
              unfolding run by (rule array_writer [OF inv gate st(1,3) content st(6) len' check step]) auto
          qed
        qed
      qed
    qed
  qed
qed

section \<open>Clear, SetDefaultPolicy, Rollback\<close>

lemma clear_implements:
  assumes inv: "store_inv {} {} H w" and free: "g_WriterBusy w = 0"
  shows "\<exists>st w' H'. SkRuleStoreClear ok slp w = Some (st, w') \<and> store_inv {} {} H' w' \<and>
    implements ok OpClear w st w'"
proof (cases "SkStoreWritableNoLock w")
  case False
  then have "SkRuleStoreClear ok slp w =
      Some (STATUS_INVALID_DEVICE_STATE, SkStoreUnlock (w\<lparr>g_WriterBusy := 1\<rparr>))"
    by (simp add: SkRuleStoreClear_def lock_free [OF free])
  then show ?thesis using closed_writer [OF inv False, of OpClear ok] by simp
next
  case gate: True
  from open_store [OF inv gate] obtain q cur A where st: "g_Current w = Some q"
    "p_snaps w q = Some cur" "abs_store w = Some A"
    "a_policy A = s_defaultPolicy cur" "policy_ok (s_defaultPolicy cur)" by metis
  have step: "op_step OpClear A = Inr (published [] (s_defaultPolicy cur) A)" by (simp add: st(4))
  have run: "SkRuleStoreClear ok slp w =
      Option.bind (SkPublish ok slp None 0 (s_defaultPolicy cur) (w\<lparr>g_WriterBusy := 1\<rparr>))
        (\<lambda>(st, w). Some (st, SkStoreUnlock w))"
    using gate by (simp add: SkRuleStoreClear_def lock_free [OF free] st(1,2))
  show ?thesis
    unfolding run by (rule empty_writer [OF inv gate st(1,3,5) _ step]) simp_all
qed

lemma set_policy_implements:
  assumes inv: "store_inv {} {} H w" and free: "g_WriterBusy w = 0"
  shows "\<exists>st w' H'. SkRuleStoreSetDefaultPolicy ok slp pol w = Some (st, w') \<and> store_inv {} {} H' w' \<and>
    implements ok (OpSetDefaultPolicy pol) w st w'"
proof (cases "op_check (OpSetDefaultPolicy pol) = STATUS_SUCCESS")
  case False
  then have "SkRuleStoreSetDefaultPolicy ok slp pol w = Some (op_check (OpSetDefaultPolicy pol), w)"
    by (auto simp: SkRuleStoreSetDefaultPolicy_def split: if_splits)
  then show ?thesis using inv implements_check [OF False, of ok w] by auto
next
  case check: True
  then have pol: "policy_ok pol" by (auto simp: policy_ok_def split: if_splits)
  have ok: "(pol \<noteq> SkVerdictPermit \<and> pol \<noteq> SkVerdictBlock) = False" using pol by (auto simp: policy_ok_def)
  note start = SkRuleStoreSetDefaultPolicy_def ok if_False lock_free [OF free] bind.bind_lunit Let_def
  show ?thesis
  proof (cases "SkStoreWritableNoLock w")
    case False
    then have "SkRuleStoreSetDefaultPolicy ok slp pol w =
        Some (STATUS_INVALID_DEVICE_STATE, SkStoreUnlock (w\<lparr>g_WriterBusy := 1\<rparr>))"
      unfolding start by simp
    then show ?thesis using closed_writer [OF inv False check, of ok] by simp
  next
    case gate: True
    from open_store [OF inv gate] obtain q cur A where st: "g_Current w = Some q" "p_snaps w q = Some cur"
      "snap_rules w cur = Some (a_rules A)" "abs_store w = Some A"
      "length (a_rules A) = unat (s_count cur)" "content_ok (a_rules A)" by metis
    have step: "op_step (OpSetDefaultPolicy pol) A = Inr (published (a_rules A) pol A)" by simp
    show ?thesis
    proof (cases "s_count cur = 0")
      case True
      then have nil: "a_rules A = []" using st(5) by simp
      have run: "SkRuleStoreSetDefaultPolicy ok slp pol w =
          Option.bind (SkPublish ok slp None 0 pol (w\<lparr>g_WriterBusy := 1\<rparr>))
            (\<lambda>(st, w). Some (st, SkStoreUnlock w))"
        unfolding start using gate True by (simp add: st(1,2))
      show ?thesis
        unfolding run by (rule empty_writer [OF inv gate st(1,4) pol check step [unfolded nil]]) simp
    next
      case False
      have run: "SkRuleStoreSetDefaultPolicy ok slp pol w =
          (case AllocArray ok (a_rules A) (w\<lparr>g_WriterBusy := 1\<rparr>) of
             (None, w) \<Rightarrow> Some (STATUS_INSUFFICIENT_RESOURCES, SkStoreUnlock w)
           | (Some arr, w) \<Rightarrow>
               Option.bind (SkPublish ok slp (Some arr) (s_count cur) pol w)
                 (\<lambda>(st, w). Some (st, SkStoreUnlock w)))"
        unfolding start using gate False by (simp add: st(1-3))
      show ?thesis
        unfolding run by (rule array_writer [OF inv gate st(1,4,6) pol st(5) check step]) auto
    qed
  qed
qed

text \<open>A rollback publishes a copy of the slot, with or without an array.\<close>

lemma rollback_outcome:
  assumes inv: "store_inv {} (set_option arr) H w" and hands: "hands w arr (s_count slot) rs"
    and cur: "g_Current w = Some c" and rb: "g_RollbackSlot w = Some rb"
    and slot: "snap_view w rb = Some (rs, v, s_defaultPolicy slot)" and abs: "abs_store w = Some A"
    and content: "content_ok rs" "policy_ok (s_defaultPolicy slot)"
    and w0: "\<And>st w' A'. commits ok w st w' A' \<Longrightarrow> commits ok w0 st w' A'" "g_State w = g_State w0"
    and gate: "SkStoreWritableNoLock w0" and abs0: "abs_store w0 = Some A"
    and step: "op_step OpRollback A = Inr \<lparr>a_rules = rs, a_version = a_version A + 1,
        a_policy = s_defaultPolicy slot, a_prev = None\<rparr>"
  shows "\<exists>st w' H'. rollback_publish ok slp rb slot arr w = Some (st, w') \<and> store_inv {} {} H' w' \<and>
    implements ok OpRollback w0 st w'"
proof -
  from rollback_publish_inv [OF inv hands cur rb slot abs content, of ok] obtain st w' H' where
    r: "rollback_publish ok slp rb slot arr w = Some (st, w')" "store_inv {} {} H' w'"
      "commits ok w st w' \<lparr>a_rules = rs, a_version = a_version A + 1,
        a_policy = s_defaultPolicy slot, a_prev = None\<rparr>" "g_WriterBusy w' = 0" "g_State w \<le> g_State w'"
      "st = STATUS_SUCCESS \<longrightarrow> buckets_cleared (a_rules A) rs w'"
    by (elim exE conjE) (rule that)
  have "implements ok OpRollback w0 st w'"
    unfolding implements_def using r(4-6) w0(1) [OF r(3)] gate step
    by (simp add: SkRuleStoreWritable_def abs0 w0(2) [symmetric] del: op_step.simps)
  with r show ?thesis by blast
qed

lemma rollback_implements:
  assumes inv: "store_inv {} {} H w" and free: "g_WriterBusy w = 0"
  shows "\<exists>st w' H'. SkRuleStoreRollback ok slp w = Some (st, w') \<and> store_inv {} {} H' w' \<and>
    implements ok OpRollback w st w'"
proof (cases "SkStoreWritableNoLock w")
  case False
  then have "SkRuleStoreRollback ok slp w =
      Some (STATUS_INVALID_DEVICE_STATE, SkStoreUnlock (w\<lparr>g_WriterBusy := 1\<rparr>))"
    by (simp add: SkRuleStoreRollback_def lock_free [OF free])
  then show ?thesis using closed_writer [OF inv False, of OpRollback ok] by simp
next
  case gate: True
  let ?l = "w\<lparr>g_WriterBusy := 1\<rparr>"
  have check: "op_check OpRollback = STATUS_SUCCESS" by simp
  from open_store [OF inv gate] obtain q A where st: "g_Current w = Some q" "abs_store w = Some A"
    by metis
  obtain rs v pol where view: "snap_view w q = Some (rs, v, pol)"
    using snap_view_ok [OF inv current_tracked [OF st(1)]] by blast
  show ?thesis
  proof (cases "g_RollbackSlot w")
    case None
    then have "a_prev A = None" using st(2) by (auto simp: abs_store_view [OF st(1) view])
    then have step: "op_step OpRollback A = Inl STATUS_NOT_FOUND" by simp
    show ?thesis
      using refused_writer [OF inv gate check st(2) step, of ok] None gate
      by (simp add: SkRuleStoreRollback_def lock_free [OF free])
  next
    case (Some rb)
    note heap = store_invD(1) [OF inv]
    from tracked_snap [OF heap slot_tracked [OF Some]] obtain slot where slot: "p_snaps w rb = Some slot" by blast
    from heap_snap_rules [OF heap slot] obtain rbs where
      rbs: "snap_rules w slot = Some rbs" "length rbs = unat (s_count slot)" by blast
    have sv: "snap_view w rb = Some (rbs, s_version slot, s_defaultPolicy slot)"
      by (simp add: snap_view_def slot rbs)
    have content: "content_ok rbs" "policy_ok (s_defaultPolicy slot)"
      using snap_view_ok [OF inv slot_tracked [OF Some]] sv by auto
    have "a_prev A = Some (rbs, s_defaultPolicy slot)"
      using st(2) Some sv by (auto simp: abs_store_view [OF st(1) view])
    then have step: "op_step OpRollback A = Inr \<lparr>a_rules = rbs, a_version = a_version A + 1,
        a_policy = s_defaultPolicy slot, a_prev = None\<rparr>" by simp
    have l: "store_inv {} {} H ?l" "g_Current ?l = Some q" "abs_store ?l = Some A"
      "g_RollbackSlot ?l = Some rb" "snap_view ?l rb = Some (rbs, s_version slot, s_defaultPolicy slot)"
      using inv st Some sv by simp_all
    show ?thesis
    proof (cases "s_count slot = 0")
      case True
      then have nil: "rbs = []" using rbs(2) by simp
      have run: "SkRuleStoreRollback ok slp w = rollback_publish ok slp rb slot None ?l"
        using gate Some slot True by (simp add: SkRuleStoreRollback_def lock_free [OF free])
      have "store_inv {} (set_option None) H ?l" "hands ?l None (s_count slot) rbs"
        using l(1) True nil by simp_all
      from rollback_outcome [OF this l(2,4,5,3) content _ _ gate st(2) step, of ok]
      show ?thesis unfolding run by simp
    next
      case False
      obtain r w1 where alloc: "AllocArray ok rbs ?l = (r, w1)" by (cases "AllocArray ok rbs ?l")
      note a = alloc_array_inv [OF l(1) alloc]
      have run: "SkRuleStoreRollback ok slp w = (case r of
          None \<Rightarrow> Some (STATUS_INSUFFICIENT_RESOURCES, SkStoreUnlock w1)
        | Some arr \<Rightarrow> rollback_publish ok slp rb slot (Some arr) w1)"
        using gate Some slot False rbs(1) alloc by (simp add: SkRuleStoreRollback_def lock_free [OF free])
      have kept: "keeps ?l w1" "g_State w1 = g_State w" using a by (auto split: option.splits)
      have absw: "abs_store w1 = Some A" using keeps_abs [OF kept(1)] l(3) by simp
      show ?thesis
      proof (cases r)
        case None
        with a have f: "\<not> ok (p_next w)" "store_inv {} {} H w1" by simp_all
        have "commits ok w STATUS_INSUFFICIENT_RESOURCES (SkStoreUnlock w1)
            \<lparr>a_rules = rbs, a_version = a_version A + 1, a_policy = s_defaultPolicy slot, a_prev = None\<rparr>"
          using f(1) absw st(2) by (auto simp: commits_def)
        then have "implements ok OpRollback w STATUS_INSUFFICIENT_RESOURCES (SkStoreUnlock w1)"
          unfolding implements_def using gate step kept(2) absw
          by (simp add: SkRuleStoreWritable_def st(2) del: op_step.simps)
        with f(2) show ?thesis by (auto simp: run None)
      next
        case arr: (Some arr)
        with a have f: "store_inv {} (set_option (Some arr)) H w1" "p_arrays w1 arr = Some rbs"
          "p_next w1 = Suc (p_next w)" by simp_all
        have hands: "hands w1 (Some arr) (s_count slot) rbs" using f(2) rbs(2) by (simp add: hands_def)
        have ptr: "g_Current w1 = Some q" "g_RollbackSlot w1 = Some rb"
          using keepsD(1,2) [OF kept(1)] l(2,4) by simp_all
        have view1: "snap_view w1 rb = Some (rbs, s_version slot, s_defaultPolicy slot)"
          using kept(1) l(4,5) by (simp add: keeps_def)
        have "\<exists>k\<ge>p_next w. \<not> ok k" if "k \<ge> p_next w1" "\<not> ok k" for k
          using that f(3) by (intro exI [of _ k]) simp
        then have "commits ok w st w' A'" if "commits ok w1 st w' A'" for st w' A'
          using that absw st(2) by (auto simp: commits_def)
        from rollback_outcome [OF f(1) hands ptr view1 absw content this kept(2) gate st(2) step]
        show ?thesis by (simp add: run arr)
      qed
    qed
  qed
qed

text \<open>All writers.\<close>

lemma run_op_implements:
  assumes "store_inv {} {} H w" and "g_WriterBusy w = 0" and "readable opn"
  shows "\<exists>st w' H'. run_op ok slp opn w = Some (st, w') \<and> store_inv {} {} H' w' \<and>
    g_WriterBusy w' = 0 \<and> implements ok opn w st w'"
proof -
  have "\<exists>st w' H'. run_op ok slp opn w = Some (st, w') \<and> store_inv {} {} H' w' \<and> implements ok opn w st w'"
    using assms
    by (cases opn) (simp_all only: run_op.simps add_implements update_implements delete_implements
        set_enabled_implements replace_implements clear_implements rollback_implements set_policy_implements)
  then show ?thesis using assms(2) by (auto simp: implements_def split: if_splits)
qed

end

end
