(* ===== verification/RuleEngine.thy ===== *)
theory RuleEngine
  imports StoreInvariant
begin

text \<open>
  rules/rule_engine.c: \<open>SkRuleEvaluate\<close>, its counters and \<open>SkRuleStatsReset\<close>. A snapshot is
  read through its pointer, so an evaluation against freed memory is \<open>None\<close>. \<open>freq\<close> is the
  frequency the performance counter reports, \<open>t0\<close>, \<open>t1\<close>, \<open>t2\<close> its readings at the start,
  in the token bucket and at the end.
\<close>

section \<open>Counters\<close>

text \<open>\<open>SkAtAdd64(&g_SkRuleStats.field, n)\<close>\<close>

definition bump ::
    "((u64 \<Rightarrow> u64) \<Rightarrow> rule_stats \<Rightarrow> rule_stats) \<Rightarrow> u64 \<Rightarrow> 'a engine_scheme \<Rightarrow> 'a engine_scheme" where
  "bump field n w = w\<lparr>g_SkRuleStats := field (\<lambda>c. c + n) (g_SkRuleStats w)\<rparr>"

definition count_verdict :: "verdict \<Rightarrow> 'a engine_scheme \<Rightarrow> 'a engine_scheme" where
  "count_verdict out w =
     (if v_action out = SkVerdictBlock then bump verdictBlock_update 1 w
      else if v_action out = SkVerdictAudit then bump verdictAudit_update 1 w
      else bump verdictPermit_update 1 w)"

text \<open>The worst-case loop raises the maximum to \<open>ns\<close> unless it is there already.\<close>

definition record_time :: "u64 \<Rightarrow> u64 \<Rightarrow> u64 \<Rightarrow> 'a engine_scheme \<Rightarrow> 'a engine_scheme" where
  "record_time freq t0 t2 w =
     (let (ns, w) = SkTicksToNs freq (t2 - t0) w;
          w = bump matchNsTotal_update ns w;
          w = bump matchNsSamples_update 1 w
      in if ns \<le> matchNsMax (g_SkRuleStats w) then w
         else w\<lparr>g_SkRuleStats := (g_SkRuleStats w)\<lparr>matchNsMax := ns\<rparr>\<rparr>)"

definition SkRuleStatsReset :: "'a engine_scheme \<Rightarrow> 'a engine_scheme" where
  "SkRuleStatsReset w = w\<lparr>g_SkRuleStats := zero_stats\<rparr>"

section \<open>Evaluation\<close>

definition eval_hit ::
    "u64 \<Rightarrow> u64 \<Rightarrow> rule \<Rightarrow> verdict \<Rightarrow> 'a engine_scheme \<Rightarrow> (verdict \<times> 'a engine_scheme) option" where
  "eval_hit freq t1 hit out w =
     (let out = out\<lparr>v_reason := SkVerdictReasonRuleMatch\<rparr>;
          w = bump ruleHits_update 1 w;
          out = out\<lparr>v_ruleId := r_ruleId hit\<rparr>
      in if r_action hit = SkRuleActionBlock
         then Some (out\<lparr>v_action := SkVerdictBlock, v_hardBlock := 1\<rparr>, w)
         else if r_action hit = SkRuleActionAudit
         then Some (out\<lparr>v_action := SkVerdictAudit\<rparr>, w)
         else if r_action hit = SkRuleActionRateLimit
         then do {
           (allowed, w) \<leftarrow> SkRateAllow freq t1 hit w;
           if allowed then Some (out\<lparr>v_action := SkVerdictAudit\<rparr>, w)
           else Some (out\<lparr>v_action := SkVerdictBlock, v_rateLimited := 1, v_hardBlock := 1\<rparr>,
             bump rateLimited_update 1 w)
         }
         else Some (out\<lparr>v_action := SkVerdictPermit\<rparr>, w))"

definition eval_default :: "u32 \<Rightarrow> verdict \<Rightarrow> 'a engine_scheme \<Rightarrow> verdict \<times> 'a engine_scheme" where
  "eval_default pol out w =
     (let w = bump defaultHits_update 1 w
      in if pol = SkVerdictBlock
         then (out\<lparr>v_action := SkVerdictBlock, v_hardBlock := 1\<rparr>, w)
         else (out, w))"

definition SkRuleEvaluate ::
    "u64 \<Rightarrow> u64 \<Rightarrow> u64 \<Rightarrow> u64 \<Rightarrow> nat option \<Rightarrow> tuple \<Rightarrow> 'a store_scheme
     \<Rightarrow> (verdict \<times> 'a store_scheme) option" where
  "SkRuleEvaluate freq t0 t1 t2 snap t w = do {
     let w = bump classifyCalls_update 1 w;
     let out = \<lparr>v_action = SkVerdictPermit, v_ruleId = 0, v_rateLimited = 0, v_hardBlock = 0,
                v_reason = SkVerdictReasonNoMatch\<rparr>;
     (hit, pol, out) \<leftarrow>
       (case snap of
          None \<Rightarrow> Some (None, SkVerdictPermit, out\<lparr>v_reason := SkVerdictReasonSnapshotUnavailable\<rparr>)
        | Some p \<Rightarrow> do {
            s \<leftarrow> p_snaps w p;
            rs \<leftarrow> snap_rules w s;
            Some (find (\<lambda>r. SkRuleMatch r t) rs, s_defaultPolicy s, out)
          });
     (out, w) \<leftarrow>
       (case hit of
          Some h \<Rightarrow> eval_hit freq t1 h out w
        | None \<Rightarrow> Some (eval_default pol out w));
     Some (out, record_time freq t0 t2 (count_verdict out w))
   }"

section \<open>Frames\<close>

text \<open>An evaluation writes the three engine globals and nothing else.\<close>

definition engine_only :: "'a engine_scheme \<Rightarrow> 'a engine_scheme \<Rightarrow> bool" where
  "engine_only w w' \<longleftrightarrow> (\<exists>q es st. w' = w\<lparr>g_QpcFreq := q, g_RateTable := es, g_SkRuleStats := st\<rparr>)"

lemma engine_onlyI:
  "w' = w\<lparr>g_QpcFreq := q, g_RateTable := es, g_SkRuleStats := st\<rparr> \<Longrightarrow> engine_only w w'"
  unfolding engine_only_def by blast

lemma engine_only_refl: "engine_only w w"
  by (rule engine_onlyI [where q = "g_QpcFreq w" and es = "g_RateTable w" and st = "g_SkRuleStats w"]) simp

lemma engine_only_trans: "engine_only u v \<Longrightarrow> engine_only v w \<Longrightarrow> engine_only u w"
  unfolding engine_only_def by (elim exE) (rule exI, rule exI, rule exI, simp)

lemma engine_only_stats: "engine_only w (w\<lparr>g_SkRuleStats := st\<rparr>)"
  by (rule engine_onlyI [where q = "g_QpcFreq w" and es = "g_RateTable w" and st = st]) simp

lemma engine_only_table: "engine_only w (w\<lparr>g_RateTable := es\<rparr>)"
  by (rule engine_onlyI [where q = "g_QpcFreq w" and es = es and st = "g_SkRuleStats w"]) simp

lemma engine_only_freq: "engine_only w (snd (SkQpcFreq freq w))"
proof -
  have "engine_only w (w\<lparr>g_QpcFreq := f\<rparr>)" for f
    by (rule engine_onlyI [where q = f and es = "g_RateTable w" and st = "g_SkRuleStats w"]) simp
  then show ?thesis by (simp add: SkQpcFreq_def Let_def engine_only_refl)
qed

lemma bump_only: "engine_only w (bump f n w)"
  unfolding bump_def by (rule engine_only_stats)

lemma count_only: "engine_only w (count_verdict out w)"
  by (simp add: count_verdict_def bump_only)

lemma time_only: "engine_only w (record_time freq t0 t2 w)"
proof -
  have "engine_only w (snd (SkTicksToNs freq (t2 - t0) w))"
    using engine_only_freq [of w freq] by (simp add: SkTicksToNs_def split_beta)
  then show ?thesis
    unfolding record_time_def Let_def split_beta
    by (cases "SkTicksToNs freq (t2 - t0) w")
      (simp add: engine_only_trans [OF _ engine_only_trans [OF bump_only bump_only]]
        engine_only_trans [OF _ engine_only_trans [OF engine_only_trans [OF bump_only bump_only] engine_only_stats]])
qed

lemma allow_only: "SkRateAllow freq t r w = Some (a, w') \<Longrightarrow> engine_only w w'"
proof -
  assume run: "SkRateAllow freq t r w = Some (a, w')"
  have "\<exists>es. w' = (snd (SkQpcFreq freq w))\<lparr>g_RateTable := es\<rparr> \<or> w' = snd (SkQpcFreq freq w)"
    using run by (auto simp: SkRateAllow_def qpc_ms_clock Let_def split: if_splits option.splits)
  then show ?thesis
    using engine_only_freq engine_only_trans [OF engine_only_freq engine_only_table] by blast
qed

lemma engine_only_store:
  fixes w w' :: "'a store_scheme"
  assumes "engine_only w w'"
  shows "p_next w' = p_next w" "p_snaps w' = p_snaps w" "p_arrays w' = p_arrays w"
    "g_Current w' = g_Current w" "g_RollbackSlot w' = g_RollbackSlot w"
    "g_RetireList w' = g_RetireList w" "g_WriterBusy w' = g_WriterBusy w"
    "g_StoreInited w' = g_StoreInited w" "g_StoreClosed w' = g_StoreClosed w"
    "g_State w' = g_State w"
  using assms by (auto simp: engine_only_def)

section \<open>The verdict\<close>

text \<open>The verdict for the best matching rule, and the one without a match.\<close>

definition decide :: "rule \<Rightarrow> bool \<Rightarrow> verdict" where
  "decide h allowed =
     (let limited = r_action h = SkRuleActionRateLimit \<and> \<not> allowed;
          blocks = r_action h = SkRuleActionBlock \<or> limited
      in \<lparr>v_action = (if blocks then SkVerdictBlock
            else if r_action h = SkRuleActionAudit \<or> r_action h = SkRuleActionRateLimit
            then SkVerdictAudit else SkVerdictPermit),
          v_ruleId = r_ruleId h, v_rateLimited = (if limited then 1 else 0),
          v_hardBlock = (if blocks then 1 else 0), v_reason = SkVerdictReasonRuleMatch\<rparr>)"

definition fallback :: "u32 \<Rightarrow> u32 \<Rightarrow> verdict" where
  "fallback reason pol = \<lparr>v_action = (if pol = SkVerdictBlock then SkVerdictBlock else SkVerdictPermit),
     v_ruleId = 0, v_rateLimited = 0, v_hardBlock = (if pol = SkVerdictBlock then 1 else 0),
     v_reason = reason\<rparr>"

text \<open>The counters an evaluation moves, each by one in total.\<close>

definition verdict_total :: "rule_stats \<Rightarrow> u64" where
  "verdict_total s = verdictPermit s + verdictBlock s + verdictAudit s"

lemma verdict_total_updates [simp]:
  "verdict_total (classifyCalls_update f s) = verdict_total s"
  "verdict_total (ruleHits_update f s) = verdict_total s"
  "verdict_total (defaultHits_update f s) = verdict_total s"
  "verdict_total (rateLimited_update f s) = verdict_total s"
  by (simp_all add: verdict_total_def)

definition counted :: "rule_stats \<Rightarrow> rule_stats \<Rightarrow> bool" where
  "counted s t \<longleftrightarrow> classifyCalls t = classifyCalls s + 1 \<and>
     ruleHits t + defaultHits t = ruleHits s + defaultHits s + 1 \<and>
     verdict_total t = verdict_total s + 1 \<and>
     matchNsSamples t = matchNsSamples s + 1 \<and> matchNsMax s \<le> matchNsMax t"

lemma allow_stats: "SkRateAllow freq t r w = Some (a, w') \<Longrightarrow> g_SkRuleStats w' = g_SkRuleStats w"
  by (auto simp: SkRateAllow_def qpc_ms_clock Let_def split: if_splits option.splits)

lemma bump_simps [simp]:
  "g_SkRuleStats (bump f n w) = f (\<lambda>c. c + n) (g_SkRuleStats w)"
  "g_RateTable (bump f n w) = g_RateTable w"
  by (simp_all add: bump_def)

lemma time_simps [simp]:
  "g_RateTable (record_time freq t0 t2 w) = g_RateTable w"
  "classifyCalls (g_SkRuleStats (record_time freq t0 t2 w)) = classifyCalls (g_SkRuleStats w)"
  "ruleHits (g_SkRuleStats (record_time freq t0 t2 w)) = ruleHits (g_SkRuleStats w)"
  "defaultHits (g_SkRuleStats (record_time freq t0 t2 w)) = defaultHits (g_SkRuleStats w)"
  "verdict_total (g_SkRuleStats (record_time freq t0 t2 w)) = verdict_total (g_SkRuleStats w)"
  "matchNsSamples (g_SkRuleStats (record_time freq t0 t2 w)) = matchNsSamples (g_SkRuleStats w) + 1"
  by (simp_all add: record_time_def SkTicksToNs_def split_beta Let_def verdict_total_def)

lemma time_max: "matchNsMax (g_SkRuleStats w) \<le> matchNsMax (g_SkRuleStats (record_time freq t0 t2 w))"
  by (auto simp: record_time_def SkTicksToNs_def split_beta Let_def)

lemma count_simps [simp]:
  "g_RateTable (count_verdict out w) = g_RateTable w"
  "classifyCalls (g_SkRuleStats (count_verdict out w)) = classifyCalls (g_SkRuleStats w)"
  "ruleHits (g_SkRuleStats (count_verdict out w)) = ruleHits (g_SkRuleStats w)"
  "defaultHits (g_SkRuleStats (count_verdict out w)) = defaultHits (g_SkRuleStats w)"
  "matchNsSamples (g_SkRuleStats (count_verdict out w)) = matchNsSamples (g_SkRuleStats w)"
  "matchNsMax (g_SkRuleStats (count_verdict out w)) = matchNsMax (g_SkRuleStats w)"
  "verdict_total (g_SkRuleStats (count_verdict out w)) = verdict_total (g_SkRuleStats w) + 1"
  by (simp_all add: count_verdict_def verdict_total_def)

abbreviation fresh_verdict :: verdict where
  "fresh_verdict \<equiv> \<lparr>v_action = SkVerdictPermit, v_ruleId = 0, v_rateLimited = 0, v_hardBlock = 0,
     v_reason = SkVerdictReasonNoMatch\<rparr>"

text \<open>Only a rate-limit hit touches the table, and only its own bucket.\<close>

definition buckets_kept :: "rule \<Rightarrow> 'a engine_scheme \<Rightarrow> 'a engine_scheme \<Rightarrow> bool" where
  "buckets_kept h w w' \<longleftrightarrow> (\<forall>i. (r_action h = SkRuleActionRateLimit \<longrightarrow> i \<noteq> r_ruleId h) \<longrightarrow>
     rate_bucket i (g_RateTable w') = rate_bucket i (g_RateTable w))"

lemma eval_hit_run:
  fixes w :: "'a engine_scheme"
  assumes ok: "rate_ok (g_RateTable w)" and valid: "rule_valid h"
  shows "\<exists>a w'. eval_hit freq t1 h fresh_verdict w = Some (decide h a, w') \<and> engine_only w w' \<and>
    rate_ok (g_RateTable w') \<and> buckets_kept h w w' \<and>
    (r_action h = SkRuleActionRateLimit \<longrightarrow>
       (\<exists>w''. SkRateAllow freq t1 h (bump ruleHits_update 1 w) = Some (a, w''))) \<and>
    (\<exists>n. g_SkRuleStats w' = rateLimited_update n (ruleHits_update (\<lambda>c. c + 1) (g_SkRuleStats w)))"
proof (cases "r_action h = SkRuleActionRateLimit")
  case False
  have id: "\<exists>n. s = rateLimited_update n s" for s :: rule_stats by (rule exI [of _ id]) simp
  show ?thesis
    using False ok bump_only id
    by (intro exI [of _ True] exI [of _ "bump ruleHits_update 1 w"])
      (auto simp: eval_hit_def decide_def Let_def buckets_kept_def)
next
  case True
  let ?w = "bump ruleHits_update 1 w"
  have ok': "rate_ok (g_RateTable ?w)" using ok by simp
  have "r_rateIntervalMs h \<noteq> 0" using valid_rate [OF valid True] by simp
  from allow_total [OF ok' this, of freq t1] obtain a v where
    v: "SkRateAllow freq t1 h ?w = Some (a, v)" "rate_ok (g_RateTable v)"
      "\<forall>i. i \<noteq> r_ruleId h \<longrightarrow> rate_bucket i (g_RateTable v) = rate_bucket i (g_RateTable w)"
    by auto
  note stats = allow_stats [OF v(1)]
  have only: "engine_only w v" using bump_only allow_only [OF v(1)] by (rule engine_only_trans)
  have kept: "buckets_kept h w u" if "g_RateTable u = g_RateTable v" for u :: "'a engine_scheme"
    using v(3) True by (simp add: buckets_kept_def that)
  define u where "u = (if a then v else bump rateLimited_update 1 v)"
  have run: "eval_hit freq t1 h fresh_verdict w = Some (decide h a, u)"
    using True v(1) by (simp add: eval_hit_def decide_def Let_def u_def)
  have tab: "g_RateTable u = g_RateTable v" by (simp add: u_def)
  have "engine_only w u" using only engine_only_trans [OF only bump_only] by (simp add: u_def)
  moreover have "g_SkRuleStats u = rateLimited_update (if a then id else (\<lambda>c. c + 1))
      (ruleHits_update (\<lambda>c. c + 1) (g_SkRuleStats w))"
    by (simp add: u_def stats)
  then have "\<exists>n. g_SkRuleStats u = rateLimited_update n (ruleHits_update (\<lambda>c. c + 1) (g_SkRuleStats w))"
    by (rule exI [of _ "if a then id else (\<lambda>c. c + 1)"])
  ultimately show ?thesis
    using run tab v(1,2) kept by (intro exI [of _ a] exI [of _ u]) auto
qed

text \<open>
  The evaluation against a readable snapshot: the first match decides, and it is the best
  one of the published order.
\<close>

lemma evaluate_snapshot:
  fixes w :: "'a store_scheme"
  assumes inv: "store_inv Xs Xa H w" and view: "snap_view w p = Some (rs, v, pol)"
    and content: "content_ok rs"
  shows "\<exists>out w'. SkRuleEvaluate freq t0 t1 t2 (Some p) t w = Some (out, w') \<and>
    engine_only w w' \<and> rate_ok (g_RateTable w') \<and> counted (g_SkRuleStats w) (g_SkRuleStats w') \<and>
    (case find (\<lambda>r. SkRuleMatch r t) rs of
       None \<Rightarrow> out = fallback SkVerdictReasonNoMatch pol \<and> g_RateTable w' = g_RateTable w
     | Some h \<Rightarrow> (\<exists>a. out = decide h a \<and> (r_action h = SkRuleActionRateLimit \<longrightarrow>
         (\<exists>w1 w2. engine_only w w1 \<and> g_RateTable w1 = g_RateTable w \<and>
            SkRateAllow freq t1 h w1 = Some (a, w2)))) \<and> buckets_kept h w w')"
proof -
  obtain s where s: "p_snaps w p = Some s" "snap_rules w s = Some rs" "s_defaultPolicy s = pol"
    using view by (auto simp: snap_view_def bind_eq_Some_conv)
  let ?w = "bump classifyCalls_update 1 w"
  have w: "p_snaps ?w = p_snaps w" "snap_rules ?w = snap_rules w"
    using engine_only_store(2) [OF bump_only] snap_rules_cong [OF engine_only_store(3) [OF bump_only]] by auto
  let ?f = "\<lambda>out u. record_time freq t0 t2 (count_verdict out u)"
  have only: "engine_only u (?f out u)" for out and u :: "'a store_scheme"
    by (rule engine_only_trans [OF count_only time_only])
  have max: "matchNsMax (g_SkRuleStats u) \<le> matchNsMax (g_SkRuleStats (?f out u))" for out and u :: "'a store_scheme"
    using time_max [of "count_verdict out u"] by simp
  note ok = store_invD(5) [OF inv]
  show ?thesis
  proof (cases "find (\<lambda>r. SkRuleMatch r t) rs")
    case None
    let ?d = "eval_default pol fresh_verdict ?w"
    have d: "?d = (fallback SkVerdictReasonNoMatch pol, bump defaultHits_update 1 ?w)"
      by (simp add: eval_default_def fallback_def Let_def)
    have run: "SkRuleEvaluate freq t0 t1 t2 (Some p) t w =
        Some (fst ?d, ?f (fst ?d) (snd ?d))"
      using None s w by (simp add: SkRuleEvaluate_def split_beta Let_def)
    have "engine_only w (?f (fst ?d) (snd ?d))"
      unfolding d snd_conv fst_conv by (rule engine_only_trans [OF bump_only engine_only_trans [OF bump_only only]])
    moreover have "counted (g_SkRuleStats w) (g_SkRuleStats (?f (fst ?d) (snd ?d)))"
      using max [of "snd ?d" "fst ?d"] by (simp add: counted_def d algebra_simps)
    ultimately show ?thesis
      using None run ok by (intro exI [of _ "fst ?d"] exI [of _ "?f (fst ?d) (snd ?d)"]) (simp add: d)
  next
    case (Some h)
    then have "h \<in> set rs" by (auto simp: find_Some_iff)
    then have valid: "rule_valid h" using content by (simp add: content_ok_def)
    have okw: "rate_ok (g_RateTable ?w)" using ok by simp
    from eval_hit_run [OF okw valid, of freq t1] obtain a u n where
      u: "eval_hit freq t1 h fresh_verdict ?w = Some (decide h a, u)" "engine_only ?w u"
        "rate_ok (g_RateTable u)" "buckets_kept h ?w u"
        "r_action h = SkRuleActionRateLimit \<longrightarrow>
          (\<exists>w''. SkRateAllow freq t1 h (bump ruleHits_update 1 ?w) = Some (a, w''))"
        "g_SkRuleStats u = rateLimited_update n (ruleHits_update (\<lambda>c. c + 1) (g_SkRuleStats ?w))"
      by (elim exE conjE) (rule that)
    let ?o = "decide h a"
    have run: "SkRuleEvaluate freq t0 t1 t2 (Some p) t w = Some (?o, ?f ?o u)"
      using Some s w u(1) by (simp add: SkRuleEvaluate_def)
    have "engine_only w (?f ?o u)"
      by (rule engine_only_trans [OF bump_only engine_only_trans [OF u(2) only]])
    moreover have "counted (g_SkRuleStats w) (g_SkRuleStats (?f ?o u))"
      using u(6) max [of u ?o] by (auto simp: counted_def algebra_simps)
    moreover have "buckets_kept h w (?f ?o u)" using u(4) by (simp add: buckets_kept_def)
    moreover have "engine_only w (bump ruleHits_update 1 ?w)"
      by (rule engine_only_trans [OF bump_only bump_only])
    ultimately show ?thesis
      using Some run u(3,5) by (intro exI [of _ ?o] exI [of _ "?f ?o u"]) force
  qed
qed

lemma evaluate_closed:
  fixes w :: "'a store_scheme"
  shows "\<exists>w'. SkRuleEvaluate freq t0 t1 t2 None t w =
      Some (fallback SkVerdictReasonSnapshotUnavailable SkVerdictPermit, w') \<and>
    engine_only w w' \<and> g_RateTable w' = g_RateTable w \<and> counted (g_SkRuleStats w) (g_SkRuleStats w')"
proof -
  let ?w = "bump classifyCalls_update 1 w"
  let ?o = "fallback SkVerdictReasonSnapshotUnavailable SkVerdictPermit"
  let ?u = "record_time freq t0 t2 (count_verdict ?o (bump defaultHits_update 1 ?w))"
  have "SkRuleEvaluate freq t0 t1 t2 None t w = Some (?o, ?u)"
    by (simp add: SkRuleEvaluate_def eval_default_def fallback_def Let_def)
  moreover have "engine_only w ?u"
    by (rule engine_only_trans [OF bump_only engine_only_trans [OF bump_only
            engine_only_trans [OF count_only time_only]]])
  moreover have "counted (g_SkRuleStats w) (g_SkRuleStats ?u)"
    using time_max [of "count_verdict ?o (bump defaultHits_update 1 ?w)" freq t0 t2]
    by (simp add: counted_def algebra_simps)
  ultimately show ?thesis by (intro exI [of _ ?u]) simp
qed

text \<open>What an evaluation does to the store invariant.\<close>

lemma engine_only_inv:
  fixes w w' :: "'a store_scheme"
  assumes only: "engine_only w w'" and inv: "store_inv Xs Xa H w" and rate: "rate_ok (g_RateTable w')"
  shows "store_inv Xs Xa H w'" and "same_core w w'"
proof -
  note e = engine_only_store [OF only]
  show "store_inv Xs Xa H w'" by (rule store_inv_cong [OF inv]) (simp_all add: e rate)
  show "same_core w w'" by (simp add: same_core_def e)
qed

end
