(* ===== verification/StoreThreads.thy ===== *)
theory StoreThreads
  imports StoreOps RuleEngine
begin

text \<open>
  The other users of the store: the reader operations under the invariant, and the threads
  that run while a writer sleeps. \<open>others sched\<close> performs, at every sleep, the list of
  actions the scheduler picks for the state: readers acquire, evaluate and release, a
  teardown begins, another module blocks the unload. It satisfies \<open>store_env\<close>, so all that
  was proved for writers holds under every schedule.
\<close>

section \<open>Readers\<close>

lemma readers_rep:
  assumes "store_inv Xs Xa H w" and "p_snaps w p = Some s"
  shows "rd_rep (rd_count (s_readers s)) (s_retired s = 1) (H p)"
  using store_invD(3) [OF assms(1)] assms(2) by (auto simp: readers_ok_def)

lemma set_readers_inv:
  assumes inv: "store_inv Xs Xa H w" and p: "p_snaps w p = Some s"
    and rep: "rd_rep (rd_count r) (s_retired s = 1) n"
  shows "upd_snap p (\<lambda>s. s\<lparr>s_readers := r\<rparr>) w = Some (w\<lparr>p_snaps := (p_snaps w)(p \<mapsto> s\<lparr>s_readers := r\<rparr>)\<rparr>)"
    and "store_inv Xs Xa (H(p := n)) (w\<lparr>p_snaps := (p_snaps w)(p \<mapsto> s\<lparr>s_readers := r\<rparr>)\<rparr>)"
    and "same_core w (w\<lparr>p_snaps := (p_snaps w)(p \<mapsto> s\<lparr>s_readers := r\<rparr>)\<rparr>)"
proof -
  show "upd_snap p (\<lambda>s. s\<lparr>s_readers := r\<rparr>) w = Some (w\<lparr>p_snaps := (p_snaps w)(p \<mapsto> s\<lparr>s_readers := r\<rparr>)\<rparr>)"
    by (simp add: upd_snap_def p)
  show "store_inv Xs Xa (H(p := n)) (w\<lparr>p_snaps := (p_snaps w)(p \<mapsto> s\<lparr>s_readers := r\<rparr>)\<rparr>)"
    by (rule meta_inv [OF inv p]) (use rep in simp_all)
  show "same_core w (w\<lparr>p_snaps := (p_snaps w)(p \<mapsto> s\<lparr>s_readers := r\<rparr>)\<rparr>)"
    by (simp add: same_core_def p snap_core_def)
qed

text \<open>
  The reader section hands out the current snapshot of an open store, with a new reference
  on it, unless 2^30 references are out.
\<close>

lemma acquire_inv:
  assumes inv: "store_inv Xs Xa H w"
  shows "\<exists>r w' H'. SkRuleStoreAcquire w = Some (r, w') \<and> store_inv Xs Xa H' w' \<and> same_core w w' \<and>
    (case r of
       None \<Rightarrow> H' = H \<and> (g_Current w = None \<or> (\<exists>p. g_Current w = Some p \<and> H p = 0x40000000))
     | Some p \<Rightarrow> g_Current w = Some p \<and> H' = H(p := Suc (H p)))"
proof (cases "g_Current w")
  case None
  then show ?thesis using inv by (auto simp: SkRuleStoreAcquire_def)
next
  case (Some p)
  then have op: "\<not> g_StoreClosed w" using store_invD(4) [OF inv] by (auto simp: flags_ok_def)
  obtain s where s: "p_snaps w p = Some s"
    using tracked_snap [OF store_invD(1) [OF inv] current_tracked [OF Some]] by blast
  have live: "s_retired s = 0" using store_invD(3) [OF inv] Some s by (simp add: readers_ok_def)
  have rep: "rd_rep (rd_count (s_readers s)) False (H p)" using readers_rep [OF inv s] live by simp
  show ?thesis
  proof (cases "H p < 0x40000000")
    case True
    let ?r = "(s_readers s)\<lparr>rd_count := rd_enc False (Suc (H p))\<rparr>"
    have "rd_rep (rd_count ?r) (s_retired s = 1) (Suc (H p))" using True live by (simp add: rd_rep_def)
    note u = set_readers_inv [OF inv s this]
    have "SkRuleStoreAcquire w = Some (Some p, w\<lparr>p_snaps := (p_snaps w)(p \<mapsto> s\<lparr>s_readers := ?r\<rparr>)\<rparr>)"
      using Some op s u(1) acquire_open [OF rep True] by (simp add: SkRuleStoreAcquire_def)
    with u(2,3) Some show ?thesis by auto
  next
    case False
    with rep have full: "H p = 0x40000000" by (simp add: rd_rep_def)
    have "rd_rep (rd_count (s_readers s)) (s_retired s = 1) (H p)" by (rule readers_rep [OF inv s])
    note u = set_readers_inv [OF inv s this]
    have "SkRuleStoreAcquire w = Some (None, w\<lparr>p_snaps := (p_snaps w)(p \<mapsto> s\<lparr>s_readers := s_readers s\<rparr>)\<rparr>)"
      using Some op s u(1) acquire_full [OF rep [unfolded full]] by (simp add: SkRuleStoreAcquire_def)
    moreover have "store_inv Xs Xa H (w\<lparr>p_snaps := (p_snaps w)(p \<mapsto> s\<lparr>s_readers := s_readers s\<rparr>)\<rparr>)"
      using u(2) unfolding fun_upd_triv .
    ultimately show ?thesis using u(3) Some full
      by (intro exI [of _ None] exI [of _ "w\<lparr>p_snaps := (p_snaps w)(p \<mapsto> s\<lparr>s_readers := s_readers s\<rparr>)\<rparr>"]
          exI [of _ H]) simp
  qed
qed

lemma release_inv:
  assumes inv: "store_inv Xs Xa H w" and held: "0 < H p"
  shows "\<exists>w'. SkRuleStoreRelease (Some p) w = Some w' \<and> store_inv Xs Xa (H(p := H p - 1)) w' \<and> same_core w w'"
proof -
  obtain s where s: "p_snaps w p = Some s"
    using store_invD(3) [OF inv] held by (cases "p_snaps w p") (auto simp: readers_ok_def)
  from held obtain n where n: "H p = Suc n" by (cases "H p") auto
  have rep: "rd_rep (rd_count (s_readers s)) (s_retired s = 1) (Suc n)" using readers_rep [OF inv s] n by simp
  let ?r = "(s_readers s)\<lparr>rd_count := rd_enc (s_retired s = 1) n\<rparr>"
  have "rd_rep (rd_count ?r) (s_retired s = 1) n" using rep by (simp add: rd_rep_def)
  note u = set_readers_inv [OF inv s this]
  have "SkRuleStoreRelease (Some p) w = Some (w\<lparr>p_snaps := (p_snaps w)(p \<mapsto> s\<lparr>s_readers := ?r\<rparr>)\<rparr>)"
    using s u(1) by (simp add: SkRuleStoreRelease_def release_held [OF rep])
  with u(2,3) n show ?thesis by simp
qed

text \<open>A reader that holds a reference can be recognised by the count.\<close>

definition held :: "nat \<Rightarrow> 'a store_scheme \<Rightarrow> bool" where
  "held p w \<longleftrightarrow> (case p_snaps w p of None \<Rightarrow> False
     | Some s \<Rightarrow> ShRundownActiveCount (s_readers s) \<noteq> 0 \<and> ShRundownActiveCount (s_readers s) \<noteq> - 1)"

lemma held_iff:
  assumes inv: "store_inv Xs Xa H w"
  shows "held p w \<longleftrightarrow> 0 < H p"
proof (cases "p_snaps w p")
  case None
  then show ?thesis using store_invD(3) [OF inv] by (simp add: held_def readers_ok_def)
next
  case (Some s)
  note rep = readers_rep [OF inv Some]
  have small: "H p \<le> 0x40000000" using rep by (simp add: rd_rep_def)
  have "word_of_nat (H p) = (0 :: u32) \<longleftrightarrow> H p = 0"
    by (auto dest!: arg_cong [where f = unat] simp: unat_small [OF small])
  then show ?thesis
    using Some active_count_rep [OF rep] active_count_drained_iff [OF rep] by (auto simp: held_def)
qed

text \<open>A held snapshot is readable, whether it is still published or not.\<close>

lemma held_view:
  assumes inv: "store_inv {} Xa H w" and h: "0 < H p"
  shows "\<exists>rs v pol. snap_view w p = Some (rs, v, pol) \<and> content_ok rs \<and> policy_ok pol"
proof (rule snap_view_ok [OF inv])
  have "p_snaps w p \<noteq> None" using store_invD(3) [OF inv] h by (auto simp: readers_ok_def)
  then show "p \<in> set (tracked w)" using heap_dom [OF store_invD(1) [OF inv]] by auto
qed

section \<open>Schedules\<close>

datatype env_act =
    EnvAcquire
  | EnvRelease nat
  | EnvEvaluate "nat option" u64 u64 u64 u64 tuple
  | EnvStatsReset
  | EnvTeardown
  | EnvBlocked block_reason

text \<open>An action of another thread; releases and evaluations need a held snapshot.\<close>

fun env_step :: "env_act \<Rightarrow> 'a store_scheme \<Rightarrow> 'a store_scheme" where
  "env_step EnvAcquire w = (case SkRuleStoreAcquire w of None \<Rightarrow> w | Some (r, w) \<Rightarrow> w)"
| "env_step (EnvRelease p) w =
     (if held p w then (case SkRuleStoreRelease (Some p) w of None \<Rightarrow> w | Some w \<Rightarrow> w) else w)"
| "env_step (EnvEvaluate snap freq t0 t1 t2 t) w =
     (if (case snap of None \<Rightarrow> True | Some p \<Rightarrow> held p w)
      then (case SkRuleEvaluate freq t0 t1 t2 snap t w of None \<Rightarrow> w | Some (out, w) \<Rightarrow> w) else w)"
| "env_step EnvStatsReset w = SkRuleStatsReset w"
| "env_step EnvTeardown w = snd (ShRuntimeBeginTeardown w)"
| "env_step (EnvBlocked why) w = ShRuntimeEnterUnloadBlocked why w"

definition env_run :: "env_act list \<Rightarrow> 'a store_scheme \<Rightarrow> 'a store_scheme" where
  "env_run acts w = foldl (\<lambda>w act. env_step act w) w acts"

definition others :: "('a store_scheme \<Rightarrow> env_act list) \<Rightarrow> 'a store_scheme \<Rightarrow> 'a store_scheme" where
  "others sched w = env_run (sched w) w"

definition env_ok :: "nat set \<Rightarrow> nat set \<Rightarrow> (nat \<Rightarrow> nat) \<Rightarrow> 'a store_scheme \<Rightarrow> 'a store_scheme \<Rightarrow> bool" where
  "env_ok Xs Xa H w w' \<longleftrightarrow> (\<exists>H'. store_inv Xs Xa H' w' \<and> same_core w w' \<and>
     (\<forall>p. g_Current w \<noteq> Some p \<longrightarrow> H' p \<le> H p))"

lemma allow_some_ok:
  assumes ok: "rate_ok (g_RateTable w)" and run: "SkRateAllow freq t r w = Some (a, w')"
  shows "rate_ok (g_RateTable w')"
proof (cases "rate_bucket (r_ruleId r) (g_RateTable w)")
  case None
  from allow_new [OF ok None qpc_ms_clock [of freq t w]] run ok show ?thesis by auto
next
  case (Some e)
  let ?es = "g_RateTable w"
  have "r_ruleId r \<in> set (bucket_ids ?es)" using Some bucket_in_ids by force
  from rate_scan_hit [OF this, of 0 SK_RATE_TABLE_SIZE] obtain j
    where j: "j < length ?es" "rate_scan (r_ruleId r) ?es 0 SK_RATE_TABLE_SIZE = j"
      "in_use (?es ! j)" "e_ruleId (?es ! j) = r_ruleId r" by auto
  from bucket_at [OF ok j(1,3,4)] Some have ej: "?es ! j = e" by simp
  have "j \<noteq> SK_RATE_TABLE_SIZE" using j(1) ok by (simp add: rate_ok_def)
  then have "rate_entry_step r (clock_ms freq w t) e \<noteq> None"
    using run by (auto simp: SkRateAllow_def qpc_ms_clock j(2) ej split: option.splits)
  then obtain b e' where "rate_entry_step r (clock_ms freq w t) e = Some (b, e')" by auto
  from allow_existing [OF ok Some qpc_ms_clock [of freq t w] this] run show ?thesis by auto
qed

lemma evaluate_any:
  fixes w w' :: "'a store_scheme"
  assumes ok: "rate_ok (g_RateTable w)" and run: "SkRuleEvaluate freq t0 t1 t2 snap t w = Some (out, w')"
  shows "engine_only w w' \<and> rate_ok (g_RateTable w')"
proof -
  let ?w = "bump classifyCalls_update 1 w"
  have hit: "engine_only u u' \<and> rate_ok (g_RateTable u')"
    if "eval_hit freq t1 h o1 u = Some (o2, u')" "rate_ok (g_RateTable u)"
    for h o1 o2 and u u' :: "'a store_scheme"
  proof -
    let ?u = "bump ruleHits_update 1 u"
    have "engine_only u (bump rateLimited_update 1 v) \<and> engine_only u v \<and> rate_ok (g_RateTable v)"
      if "SkRateAllow freq t1 h ?u = Some (a, v)" for a v
      using allow_only [OF that] allow_some_ok [OF _ that] \<open>rate_ok (g_RateTable u)\<close>
        engine_only_trans [OF bump_only] engine_only_trans [OF _ bump_only] by (metis bump_simps(2))
    with that show ?thesis
      by (auto simp: eval_hit_def Let_def bump_only bind_eq_Some_conv split: if_splits)
  qed
  have dflt: "engine_only u (snd (eval_default pol o1 u)) \<and> g_RateTable (snd (eval_default pol o1 u)) = g_RateTable u"
    for pol o1 and u :: "'a store_scheme"
    by (simp add: eval_default_def Let_def bump_only)
  have "\<exists>u. w' = record_time freq t0 t2 (count_verdict out u) \<and>
      ((\<exists>h o0. eval_hit freq t1 h o0 ?w = Some (out, u)) \<or> (\<exists>pol o0. eval_default pol o0 ?w = (out, u)))"
    using run unfolding SkRuleEvaluate_def Let_def
    by (auto simp: bind_eq_Some_conv split: option.splits prod.splits) blast+
  then obtain u where u: "w' = record_time freq t0 t2 (count_verdict out u)"
    and step: "(\<exists>h o0. eval_hit freq t1 h o0 ?w = Some (out, u)) \<or> (\<exists>pol o0. eval_default pol o0 ?w = (out, u))"
    by blast
  have ok': "rate_ok (g_RateTable ?w)" using ok by simp
  from step have "engine_only ?w u \<and> rate_ok (g_RateTable u)"
    using hit [OF _ ok'] dflt [where u = ?w] ok' by (metis snd_conv)
  then have "engine_only w u" "rate_ok (g_RateTable u)" using engine_only_trans [OF bump_only] by blast+
  then show ?thesis
    unfolding u using engine_only_trans [OF _ engine_only_trans [OF count_only time_only]] by simp
qed

lemma env_step_ok:
  fixes w :: "'a store_scheme"
  assumes inv: "store_inv Xs Xa H w"
  shows "env_ok Xs Xa H w (env_step act w)"
proof -
  have refl: "env_ok Xs Xa H w w" using inv by (auto simp: env_ok_def)
  have engine: "env_ok Xs Xa H w w'" if "engine_only w w'" "rate_ok (g_RateTable w')" for w' :: "'a store_scheme"
    using engine_only_inv [OF that(1) inv that(2)] by (auto simp: env_ok_def)
  have state: "env_ok Xs Xa H w w'"
    if "p_next w' = p_next w" "p_snaps w' = p_snaps w"
      "p_arrays w' = p_arrays w" "g_Current w' = g_Current w" "g_RollbackSlot w' = g_RollbackSlot w"
      "g_RetireList w' = g_RetireList w" "g_StoreInited w' = g_StoreInited w"
      "g_StoreClosed w' = g_StoreClosed w" "g_WriterBusy w' = g_WriterBusy w"
      "g_RateTable w' = g_RateTable w" "g_State w \<le> g_State w'" for w' :: "'a store_scheme"
  proof -
    have "store_inv Xs Xa H w'"
      by (rule store_inv_cong [OF inv]) (use that store_invD(5) [OF inv] in simp_all)
    moreover have "same_core w w'" using that by (simp add: same_core_def)
    ultimately show ?thesis by (auto simp: env_ok_def)
  qed
  show ?thesis
  proof (cases act)
    case EnvAcquire
    from acquire_inv [OF inv] obtain r w' H' where a: "SkRuleStoreAcquire w = Some (r, w')"
      "store_inv Xs Xa H' w'" "same_core w w'"
      "case r of None \<Rightarrow> H' = H \<and> (g_Current w = None \<or> (\<exists>p. g_Current w = Some p \<and> H p = 0x40000000))
       | Some p \<Rightarrow> g_Current w = Some p \<and> H' = H(p := Suc (H p))" by blast
    have "\<forall>p. g_Current w \<noteq> Some p \<longrightarrow> H' p \<le> H p" using a(4) by (auto split: option.splits)
    with a EnvAcquire show ?thesis by (auto simp: env_ok_def)
  next
    case (EnvRelease p)
    show ?thesis
    proof (cases "held p w")
      case True
      then have "0 < H p" by (simp add: held_iff [OF inv])
      from release_inv [OF inv this] obtain w' where "SkRuleStoreRelease (Some p) w = Some w'"
        "store_inv Xs Xa (H(p := H p - 1)) w'" "same_core w w'" by blast
      with True EnvRelease show ?thesis
        by (auto simp: env_ok_def intro!: exI [of _ "H(p := H p - 1)"])
    qed (use refl EnvRelease in simp)
  next
    case (EnvEvaluate snap freq t0 t1 t2 t)
    show ?thesis
    proof (cases "SkRuleEvaluate freq t0 t1 t2 snap t w")
      case (Some r)
      obtain out w' where r: "r = (out, w')" by (cases r)
      from evaluate_any [OF store_invD(5) [OF inv] Some [unfolded r]] engine [of w'] refl
      show ?thesis by (simp add: EnvEvaluate Some r)
    qed (use refl EnvEvaluate in simp)
  next
    case EnvStatsReset
    show ?thesis
      using engine [OF engine_only_stats] store_invD(5) [OF inv] by (simp add: EnvStatsReset SkRuleStatsReset_def)
  next
    case EnvTeardown
    show ?thesis
      unfolding EnvTeardown env_step.simps
      by (rule state) (simp_all add: ShRuntimeBeginTeardown_def less_eq_runtime_state_def)
  next
    case (EnvBlocked why)
    show ?thesis
      unfolding EnvBlocked env_step.simps by (rule state) (simp_all add: blocked_top)
  qed
qed

lemma env_ok_trans:
  assumes "env_ok Xs Xa H u v" and "\<And>H. store_inv Xs Xa H v \<Longrightarrow> env_ok Xs Xa H v w"
  shows "env_ok Xs Xa H u w"
proof -
  from assms(1) obtain H1 where H1: "store_inv Xs Xa H1 v" "same_core u v"
    "\<forall>p. g_Current u \<noteq> Some p \<longrightarrow> H1 p \<le> H p" by (auto simp: env_ok_def)
  from assms(2) [OF H1(1)] obtain H2 where H2: "store_inv Xs Xa H2 w" "same_core v w"
    "\<forall>p. g_Current v \<noteq> Some p \<longrightarrow> H2 p \<le> H1 p" by (auto simp: env_ok_def)
  have "g_Current v = g_Current u" using H1(2) by (simp add: same_core_def)
  with H1(3) H2(3) have "\<forall>p. g_Current u \<noteq> Some p \<longrightarrow> H2 p \<le> H p" using order_trans by metis
  with H2(1) same_core_trans [OF H1(2) H2(2)] show ?thesis by (auto simp: env_ok_def)
qed

lemma env_run_ok: "store_inv Xs Xa H w \<Longrightarrow> env_ok Xs Xa H w (env_run acts w)"
proof (induction acts arbitrary: w H)
  case Nil
  then show ?case by (auto simp: env_run_def env_ok_def)
next
  case (Cons act acts)
  have run: "env_run (act # acts) w = env_run acts (env_step act w)" by (simp add: env_run_def)
  show ?case
    unfolding run by (rule env_ok_trans [OF env_step_ok [OF Cons.prems]]) (rule Cons.IH)
qed

interpretation threads: store_env "others sched" for sched :: "'a store_scheme \<Rightarrow> env_act list"
proof
  fix Xs Xa H and w :: "'a store_scheme"
  assume "store_inv Xs Xa H w"
  from env_run_ok [OF this, of "sched w"]
  show "\<exists>H'. store_inv Xs Xa H' (others sched w) \<and> same_core w (others sched w) \<and>
      (\<forall>p. g_Current w \<noteq> Some p \<longrightarrow> H' p \<le> H p)"
    by (simp add: env_ok_def others_def)
qed

end
