(* ===== verification/StoreLife.thy ===== *)
theory StoreLife
  imports StoreThreads
begin

text \<open>
  The life cycle of the rule store and its queries: \<open>SkRuleStoreInit\<close>, \<open>SkRuleStoreShutdown\<close>,
  \<open>SkRuleStoreEnum\<close>, \<open>SkRuleStoreFind\<close>, \<open>SkRuleStoreVersion\<close>, \<open>SkRuleStoreDefaultPolicy\<close>;
  then the properties of the store, stated for every schedule of the other threads and every
  pattern of failing allocations.
\<close>

section \<open>Shutdown\<close>

text \<open>A store that is not initialised owns no pool memory.\<close>

lemma closed_empty:
  assumes inv: "store_inv {} {} H w" and off: "\<not> g_StoreInited w"
  shows "p_snaps w = Map.empty" and "p_arrays w = Map.empty" and "g_Current w = None"
    and "g_RollbackSlot w = None" and "g_RetireList w = []"
proof -
  note heap = store_invD(1) [OF inv] and flags = store_invD(4) [OF inv]
  show c: "g_Current w = None" "g_RollbackSlot w = None" "g_RetireList w = []"
    using flags off by (auto simp: flags_ok_def)
  then have "tracked w = []" by (simp add: tracked_def)
  then have "dom (p_snaps w) = {}" using heap_dom [OF heap] by simp
  then show s: "p_snaps w = Map.empty" by simp
  have "dom (p_arrays w) = {}" using heap_arrays [OF heap] by (simp add: s)
  then show "p_arrays w = Map.empty" by simp
qed

text \<open>The survivors of the forced drain go back to the retire list.\<close>

lemma restick_inv:
  assumes inv: "store_inv (set stuck) {} H w" and empty: "g_RetireList w = []"
    and dist: "distinct stuck" and ok: "\<forall>p\<in>set stuck. stuck_ok w p"
    and inited: "g_StoreInited w"
  shows "store_inv {} {} H (w\<lparr>g_RetireList := stuck\<rparr>)" (is "store_inv {} {} H ?w")
proof -
  note heap = store_invD(1) [OF inv]
  have tr: "tracked ?w = tracked w @ stuck" by (simp add: tracked_def empty)
  have rules: "snap_rules ?w = snap_rules w" by simp
  have "heap_ok {} {} ?w"
    by (rule heap_relist [OF heap])
      (use heap_dom [OF heap] heap_distinct [OF heap] heap_disjoint [OF heap] dist in \<open>auto simp: tr\<close>)
  moreover have "snaps_ok ?w"
    unfolding snaps_ok_def tr
  proof (intro ballI allI impI)
    fix p s
    assume p: "p \<in> set (tracked w @ stuck)" and s: "p_snaps ?w p = Some s"
    show "(\<forall>rs. snap_rules ?w s = Some rs \<longrightarrow> content_ok rs) \<and> policy_ok (s_defaultPolicy s)"
    proof (cases "p \<in> set stuck")
      case True
      then obtain rs v pol where "snap_view w p = Some (rs, v, pol)" "content_ok rs" "policy_ok pol"
        using ok by (auto simp: stuck_ok_def)
      with s show ?thesis by (auto simp: snap_view_def bind_eq_Some_conv)
    next
      case False
      with p s store_invD(2) [OF inv] show ?thesis by (simp add: snaps_ok_def)
    qed
  qed
  moreover have "readers_ok H ?w"
    using store_invD(3) [OF inv] ok by (auto simp: readers_ok_def stuck_ok_def)
  moreover have "flags_ok ?w" using store_invD(4) [OF inv] inited by (simp add: flags_ok_def)
  ultimately show ?thesis using store_invD(5) [OF inv] by (simp add: store_inv_def)
qed

context store_env
begin

text \<open>
  The shutdown always returns. It says TRUE exactly if the store ends up uninitialised with
  all its memory freed; otherwise the unload is blocked and nothing that a reader may still
  use has been freed.
\<close>

lemma shutdown_inv:
  assumes inv: "store_inv {} {} H w" and free: "g_WriterBusy w = 0"
  shows "\<exists>b w' H'. SkRuleStoreShutdown slp w = Some (b, w') \<and> store_inv {} {} H' w' \<and>
    g_WriterBusy w' = 0 \<and> g_State w \<le> g_State w' \<and> b = (\<not> g_StoreInited w') \<and>
    (\<not> b \<longrightarrow> g_State w' = ShinkenUnloadBlocked) \<and>
    (g_StoreInited w \<and> g_State w \<noteq> ShinkenUnloadBlocked \<longrightarrow> g_Current w' = None)"
proof -
  let ?l = "w\<lparr>g_WriterBusy := 1\<rparr>"
  have l: "store_inv {} {} H ?l" "g_State ?l = g_State w" "g_StoreInited ?l = g_StoreInited w"
    using inv by simp_all
  have lock: "SkStoreLock slp w = Some ?l" by (rule lock_free [OF free])
  consider (off) "\<not> g_StoreInited w" | (blocked) "g_StoreInited w" "g_State w = ShinkenUnloadBlocked"
    | (go) "g_StoreInited w" "g_State w \<noteq> ShinkenUnloadBlocked" by blast
  then show ?thesis
  proof cases
    case off
    then have "SkRuleStoreShutdown slp w = Some (True, SkStoreUnlock ?l)"
      by (simp add: SkRuleStoreShutdown_def lock)
    moreover have "g_StoreInited (SkStoreUnlock ?l) = g_StoreInited w" by (simp add: SkStoreUnlock_def)
    ultimately show ?thesis using l(1) off by (auto intro!: exI [of _ H])
  next
    case blocked
    then have "SkRuleStoreShutdown slp w = Some (False, SkStoreUnlock ?l)"
      by (simp add: SkRuleStoreShutdown_def lock)
    moreover have "g_StoreInited (SkStoreUnlock ?l) = g_StoreInited w" by (simp add: SkStoreUnlock_def)
    ultimately show ?thesis using l(1) blocked by (auto intro!: exI [of _ H])
  next
    case go
    from close_section_inv [OF l(1)] go obtain w1 where w1: "close_section ?l = Some w1"
      "store_inv {} {} H w1" "g_StoreClosed w1" "g_StoreInited w1" "g_Current w1 = None"
      "g_RollbackSlot w1 = None" "g_State w1 = g_State w" by auto
    have "store_inv (set []) {} H w1" using w1(2) by simp
    from shutdown_loop_inv [OF this] obtain stuck w2 H2 where w2:
      "shutdown_loop slp [] w1 = Some (stuck, w2)" "store_inv (set stuck) {} H2 w2" "distinct stuck"
      "\<forall>p\<in>set stuck. stuck_ok w2 p" "stuck \<noteq> [] \<longrightarrow> g_State w2 = ShinkenUnloadBlocked"
      "g_RetireList w2 = []" "keeps w1 w2" by auto
    have fl: "g_StoreInited w2" "g_Current w2 = None" "g_StoreClosed w2" "g_RollbackSlot w2 = None"
      "g_State w \<le> g_State w2"
      using keepsD [OF w2(7)] w1 by simp_all
    let ?w3 = "w2\<lparr>g_RetireList := stuck\<rparr>"
    have inv3: "store_inv {} {} H2 ?w3" by (rule restick_inv [OF w2(2,6,3,4) fl(1)])
    show ?thesis
    proof (cases "stuck = []")
      case False
      then have "SkRuleStoreShutdown slp w = Some (False, SkStoreUnlock ?w3)"
        using go w1(1) w2(1,6) by (simp add: SkRuleStoreShutdown_def lock l(3))
      moreover have "g_StoreInited (SkStoreUnlock ?w3)" using fl(1) by (simp add: SkStoreUnlock_def)
      ultimately show ?thesis using inv3 False w2(5) fl by (auto intro!: exI [of _ H2])
    next
      case True
      let ?w4 = "?w3\<lparr>g_StoreInited := False\<rparr>"
      have "w2\<lparr>g_RetireList := g_RetireList w2\<rparr> = w2" by simp
      then have same: "w2\<lparr>g_RetireList := []\<rparr> = w2" unfolding w2(6) .
      have run: "SkRuleStoreShutdown slp w = Some (True, SkStoreUnlock ?w4)"
        using go w1(1) w2(1,6) True by (simp add: SkRuleStoreShutdown_def lock l(3) same)
      have tr: "tracked ?w4 = tracked ?w3" by (simp add: tracked_def)
      have heap: "heap_ok {} {} ?w4"
        by (rule heap_relist [OF store_invD(1) [OF inv3]])
          (use heap_dom [OF store_invD(1) [OF inv3]] heap_distinct [OF store_invD(1) [OF inv3]] in \<open>simp_all add: tr\<close>)
      have "tracked ?w4 = []" using True fl by (simp add: tracked_def)
      then have "p_snaps ?w4 = Map.empty" using heap_dom [OF heap] by simp
      then have "snaps_ok ?w4" "readers_ok H2 ?w4"
        using store_invD(3) [OF inv3] by (auto simp: snaps_ok_def readers_ok_def)
      moreover have "flags_ok ?w4" using fl True by (simp add: flags_ok_def)
      moreover have "rate_ok (g_RateTable ?w4)" using store_invD(5) [OF inv3] by simp
      ultimately have inv4: "store_inv {} {} H2 ?w4" using heap by (simp add: store_inv_def)
      have "\<not> g_StoreInited (SkStoreUnlock ?w4)" by (simp add: SkStoreUnlock_def)
      with run inv4 fl show ?thesis by (auto intro!: exI [of _ H2])
    qed
  qed
qed

text \<open>Initialisation, also of a store in use: it is shut down first.\<close>

lemma init_inv:
  assumes inv: "store_inv {} {} H w" and free: "g_WriterBusy w = 0"
  shows "\<exists>st w' H'. SkRuleStoreInit ok slp w = Some (st, w') \<and> store_inv {} {} H' w' \<and>
    g_WriterBusy w' = 0 \<and> g_State w \<le> g_State w' \<and>
    (st = STATUS_SUCCESS \<and> g_State w \<noteq> ShinkenUnloadBlocked \<and>
       abs_store w' = Some \<lparr>a_rules = [], a_version = 0, a_policy = SkVerdictPermit, a_prev = None\<rparr> \<or>
     st = STATUS_DEVICE_BUSY \<and> g_State w' = ShinkenUnloadBlocked \<or>
     st = STATUS_INSUFFICIENT_RESOURCES \<and> (\<exists>k. \<not> ok k) \<and> \<not> g_StoreInited w')"
proof (cases "g_State w = ShinkenUnloadBlocked")
  case True
  then have "SkRuleStoreInit ok slp w = Some (STATUS_DEVICE_BUSY, w)" by (simp add: SkRuleStoreInit_def)
  then show ?thesis using inv free True by auto
next
  case False
  have "\<exists>b w1 H1. (if g_StoreInited w then SkRuleStoreShutdown slp w else Some (True, w)) = Some (b, w1) \<and>
      store_inv {} {} H1 w1 \<and> g_WriterBusy w1 = 0 \<and> g_State w \<le> g_State w1 \<and> b = (\<not> g_StoreInited w1) \<and>
      (\<not> b \<longrightarrow> g_State w1 = ShinkenUnloadBlocked)"
    using shutdown_inv [OF inv free] inv free by (cases "g_StoreInited w") (simp_all, blast+)
  then obtain b w1 H1 where w1: "(if g_StoreInited w then SkRuleStoreShutdown slp w else Some (True, w)) = Some (b, w1)"
    "store_inv {} {} H1 w1" "g_WriterBusy w1 = 0" "g_State w \<le> g_State w1" "b = (\<not> g_StoreInited w1)"
    "\<not> b \<longrightarrow> g_State w1 = ShinkenUnloadBlocked" by blast
  show ?thesis
  proof (cases b)
    case False
    then have "SkRuleStoreInit ok slp w = Some (STATUS_DEVICE_BUSY, w1)"
      using \<open>g_State w \<noteq> _\<close> w1(1) by (simp add: SkRuleStoreInit_def)
    then show ?thesis using w1 False by auto
  next
    case True
    then have off: "\<not> g_StoreInited w1" using w1(5) by simp
    note e = closed_empty [OF w1(2) off]
    obtain r w2 where alloc: "SkSnapAlloc ok w1 = (r, w2)" by (cases "SkSnapAlloc ok w1")
    show ?thesis
    proof (cases r)
      case None
      from snap_alloc_inv [OF w1(2) alloc] None have f: "\<not> ok (p_next w1)" "store_inv {} {} H1 w2"
        "keeps w1 w2" by simp_all
      have "SkRuleStoreInit ok slp w = Some (STATUS_INSUFFICIENT_RESOURCES, w2)"
        using False w1(1) True alloc None by (simp add: SkRuleStoreInit_def)
      then show ?thesis using f w1 off keepsD [OF f(3)] by auto
    next
      case (Some p)
      have w2: "p = p_next w1" "w2 = w1\<lparr>p_next := Suc p, p_snaps := [p \<mapsto> new_snapshot]\<rparr>"
        using alloc Some e(1) by (auto simp: SkSnapAlloc_def Let_def split: if_splits)
      let ?s = "new_snapshot\<lparr>s_rules := None, s_count := 0, s_version := 0, s_defaultPolicy := SkVerdictPermit\<rparr>"
      let ?w = "w1\<lparr>p_next := Suc p, p_snaps := [p \<mapsto> ?s], g_RetireList := [], g_RollbackSlot := None,
          g_Current := Some p, g_StoreClosed := False, g_StoreInited := True\<rparr>"
      have run: "SkRuleStoreInit ok slp w = Some (STATUS_SUCCESS, ?w)"
        using False w1(1) True alloc Some by (simp add: SkRuleStoreInit_def upd_snap_def w2)
      have tr: "tracked ?w = [p]" by (simp add: tracked_def)
      have sr: "s_rules ?s = None" "s_count ?s = 0" "s_retired ?s = 0" "s_readers ?s = ShRundownInit zero_rundown ''SkRuleSnap''"
        by (simp_all add: new_snapshot_def)
      have "heap_ok {} {} ?w"
        by (rule heap_okI) (auto simp: tr e(2) sr split: if_splits)
      moreover have "snaps_ok ?w"
        by (simp add: snaps_ok_def tr snap_rules_def sr policy_ok_def)
      moreover have "readers_ok (\<lambda>_. 0) ?w"
        unfolding readers_ok_def using init_rep [of zero_rundown "''SkRuleSnap''"] by (auto simp: sr)
      moreover have "flags_ok ?w" by (simp add: flags_ok_def)
      moreover have "rate_ok (g_RateTable ?w)" using store_invD(5) [OF w1(2)] by simp
      ultimately have inv: "store_inv {} {} (\<lambda>_. 0) ?w" by (simp add: store_inv_def)
      have "abs_store ?w = Some \<lparr>a_rules = [], a_version = 0, a_policy = SkVerdictPermit, a_prev = None\<rparr>"
        by (simp add: abs_store_def snap_view_def snap_rules_def sr)
      with run inv w1(3,4) False show ?thesis by (intro exI) (rule conjI, assumption, auto)
    qed
  qed
qed

end

end
