(* ===== verification/StoreProperties.thy ===== *)
theory StoreProperties
  imports StoreLife
begin

text \<open>
  The properties of the rule store. They hold for every schedule \<open>sched\<close> of the other
  threads and every pattern \<open>ok\<close> of pool allocations; the witnesses run on \<open>demo_store\<close>, an
  active store with one rule, version 1 and an empty rollback slot.
\<close>

section \<open>A concrete store\<close>

definition demo_rule :: rule where
  "demo_rule = zero_rule\<lparr>r_ruleId := 7, r_priority := 5, r_action := SkRuleActionBlock, r_enabled := 1\<rparr>"

definition demo_store :: store where
  "demo_store = engine.extend (image_engine\<lparr>g_State := ShinkenActive\<rparr>)
     \<lparr>p_next = 3,
      p_snaps = [1 \<mapsto> \<lparr>s_rules = Some 2, s_count = 1, s_version = 1, s_defaultPolicy = 0,
            s_readers = zero_rundown, s_retired = 0\<rparr>,
          0 \<mapsto> \<lparr>s_rules = None, s_count = 0, s_version = 0, s_defaultPolicy = 1,
            s_readers = zero_rundown, s_retired = 0\<rparr>],
      p_arrays = [2 \<mapsto> [demo_rule]],
      g_Current = Some 1, g_RollbackSlot = Some 0, g_RetireList = [], g_WriterBusy = 0,
      g_StoreInited = True, g_StoreClosed = False\<rparr>"

lemma demo_store_sel [simp]:
  "p_next demo_store = 3"
  "p_snaps demo_store = [1 \<mapsto> \<lparr>s_rules = Some 2, s_count = 1, s_version = 1, s_defaultPolicy = 0,
      s_readers = zero_rundown, s_retired = 0\<rparr>, 0 \<mapsto> \<lparr>s_rules = None, s_count = 0, s_version = 0,
      s_defaultPolicy = 1, s_readers = zero_rundown, s_retired = 0\<rparr>]"
  "p_arrays demo_store = [2 \<mapsto> [demo_rule]]" "g_Current demo_store = Some 1"
  "g_RollbackSlot demo_store = Some 0" "g_RetireList demo_store = []" "g_WriterBusy demo_store = 0"
  "g_StoreInited demo_store" "\<not> g_StoreClosed demo_store" "g_State demo_store = ShinkenActive"
  "g_RateTable demo_store = replicate SK_RATE_TABLE_SIZE zero_entry"
  by (simp_all add: demo_store_def engine.defs image_engine_def)

lemma demo_rule_valid: "rule_valid demo_rule"
proof -
  have "SkRuleValidate (Some demo_rule) = STATUS_SUCCESS" unfolding demo_rule_def by code_simp
  then show ?thesis by (simp add: validate_iff)
qed

text \<open>Any state with this store part satisfies the invariant.\<close>

definition demo_snaps :: "nat \<Rightarrow> snapshot option" where
  "demo_snaps = [1 \<mapsto> \<lparr>s_rules = Some 2, s_count = 1, s_version = 1, s_defaultPolicy = 0,
      s_readers = zero_rundown, s_retired = 0\<rparr>, 0 \<mapsto> \<lparr>s_rules = None, s_count = 0, s_version = 0,
      s_defaultPolicy = 1, s_readers = zero_rundown, s_retired = 0\<rparr>]"

definition demo_abs :: astore where
  "demo_abs = \<lparr>a_rules = [demo_rule], a_version = 1, a_policy = 0, a_prev = Some ([], 1)\<rparr>"

lemma rule_part:
  fixes w :: "'a store_scheme"
  assumes r: "rule_valid r" and "p_next w = 3" and "p_snaps w = demo_snaps" and "p_arrays w = [2 \<mapsto> [r]]"
    and "g_Current w = Some 1" and "g_RollbackSlot w = Some 0" and "g_RetireList w = []"
    and "g_StoreInited w" and "\<not> g_StoreClosed w" and "g_RateTable w = replicate SK_RATE_TABLE_SIZE zero_entry"
  shows "store_inv {} {} (\<lambda>_. 0) w" and "abs_store w = Some (demo_abs\<lparr>a_rules := [r]\<rparr>)"
proof -
  note part = assms(2-) [unfolded demo_snaps_def]
  have tr: "tracked w = [1, 0]" by (simp add: tracked_def part)
  have "heap_ok {} {} w"
    by (rule heap_okI) (auto simp: tr part split: if_splits)
  moreover have "snaps_ok w"
    using r by (auto simp: snaps_ok_def tr part snap_rules_def content_ok_def policy_ok_def)
  moreover have "readers_ok (\<lambda>_. 0) w"
    by (auto simp: readers_ok_def rd_rep_def zero_rundown_def part)
  moreover have "flags_ok w" by (simp add: flags_ok_def part)
  moreover have "rate_ok (g_RateTable w)" using zero_table_ok by (simp add: part)
  ultimately show "store_inv {} {} (\<lambda>_. 0) w" by (simp add: store_inv_def)
  show "abs_store w = Some (demo_abs\<lparr>a_rules := [r]\<rparr>)"
    by (simp add: abs_store_def snap_view_def snap_rules_def demo_abs_def part)
qed

lemma demo_part:
  fixes w :: "'a store_scheme"
  assumes "p_next w = 3" and "p_snaps w = demo_snaps" and "p_arrays w = [2 \<mapsto> [demo_rule]]"
    and "g_Current w = Some 1" and "g_RollbackSlot w = Some 0" and "g_RetireList w = []"
    and "g_StoreInited w" and "\<not> g_StoreClosed w" and "g_RateTable w = replicate SK_RATE_TABLE_SIZE zero_entry"
  shows "store_inv {} {} (\<lambda>_. 0) w" and "abs_store w = Some demo_abs"
  using rule_part [OF demo_rule_valid assms] by (simp_all add: demo_abs_def)

lemma demo_store_inv: "store_inv {} {} (\<lambda>_. 0) demo_store" and demo_abs: "abs_store demo_store = Some demo_abs"
  by (rule demo_part; simp add: demo_snaps_def)+

lemma demo_writable: "SkRuleStoreWritable demo_store"
  by (simp add: SkRuleStoreWritable_def SkStoreWritableNoLock_def ShRuntimeIsActive_def)

section \<open>Writers\<close>

text \<open>C1: every writer of the rule store implements its specification, under every schedule and
  every pattern of failing allocations: it returns without an invalid access, it keeps the
  store invariant, it frees the writer lock, and status and abstract effect are those of
  \<open>op_check\<close> and \<open>op_step\<close> (with the two late failures of \<open>commits\<close>).\<close>

theorem store_writer_correct:
  fixes w :: "'a store_scheme"
  assumes "store_inv {} {} H w" and "g_WriterBusy w = 0" and "readable opn"
  shows "\<exists>st w' H'. run_op ok (others sched) opn w = Some (st, w') \<and> store_inv {} {} H' w' \<and>
    g_WriterBusy w' = 0 \<and> implements ok opn w st w'"
  by (rule threads.run_op_implements [OF assms])

theorem store_writer_correct_witness:
  "\<exists>st w'. run_op (\<lambda>_. True) (others (\<lambda>_. [EnvAcquire])) (OpAdd (Some (demo_rule\<lparr>r_ruleId := 8\<rparr>))) demo_store
       = Some (st, w') \<and> g_WriterBusy w' = 0 \<and>
     (st = STATUS_SUCCESS \<and> (\<exists>A. abs_store w' = Some A \<and> map r_ruleId (a_rules A) = [7, 8] \<and> a_version A = 2) \<or>
      st = STATUS_INVALID_DEVICE_STATE \<and> abs_store w' = Some demo_abs)"
proof -
  let ?r = "demo_rule\<lparr>r_ruleId := 8\<rparr>"
  let ?o = "OpAdd (Some ?r)"
  have "SkRuleValidate (Some ?r) = STATUS_SUCCESS" unfolding demo_rule_def by code_simp
  then have check: "op_check ?o = STATUS_SUCCESS" by simp
  have sorted: "sort_key verdict_key [demo_rule, ?r] = [demo_rule, ?r]"
    by (simp add: demo_rule_def verdict_key_def less_eq_verdict_key_def less_verdict_key_def)
  have step: "op_step ?o demo_abs = Inr (published [demo_rule, ?r] 0 demo_abs)"
    using sorted by (simp add: demo_abs_def stored_ids_def demo_rule_def)
  have "readable ?o" by simp
  from store_writer_correct [OF demo_store_inv _ this, of "\<lambda>_. True" "\<lambda>_. [EnvAcquire]"]
  obtain st w' where w': "run_op (\<lambda>_. True) (others (\<lambda>_. [EnvAcquire])) ?o demo_store = Some (st, w')"
    "g_WriterBusy w' = 0" "implements (\<lambda>_. True) ?o demo_store st w'" by auto
  have "commits (\<lambda>_. True) demo_store st w' (published [demo_rule, ?r] 0 demo_abs)"
    using w'(3) demo_writable demo_abs step check
    by (simp add: implements_def del: op_check.simps op_step.simps)
  then have "st = STATUS_SUCCESS \<and> abs_store w' = Some (published [demo_rule, ?r] 0 demo_abs) \<or>
      st = STATUS_INVALID_DEVICE_STATE \<and> abs_store w' = Some demo_abs"
    by (auto simp: commits_def demo_abs)
  with w'(1,2) show ?thesis
    by (intro exI [of _ st] exI [of _ w']) (auto simp: published_def demo_abs_def demo_rule_def)
qed

text \<open>C13: a writer that does not report success leaves rules, version, policy and rollback slot as
  they were; one that does has raised the version by exactly one (modulo 2^64) and left a
  sorted rule set with distinct ids in which every rule is valid, of at most 4096 rules.\<close>

theorem store_failure_atomic:
  fixes w :: "'a store_scheme"
  assumes "store_inv {} {} H w" and "g_WriterBusy w = 0" and "readable opn"
    and "run_op ok (others sched) opn w = Some (st, w')"
  shows "(st \<noteq> STATUS_SUCCESS \<longrightarrow> abs_store w' = abs_store w) \<and>
    (st = STATUS_SUCCESS \<longrightarrow> (\<exists>A A'. abs_store w = Some A \<and> abs_store w' = Some A' \<and>
       a_version A' = a_version A + 1 \<and> content_ok (a_rules A')))"
proof -
  from threads.run_op_implements [OF assms(1-3), of ok sched] assms(4)
  obtain H' where inv: "store_inv {} {} H' w'" and impl: "implements ok opn w st w'" by auto
  have version: "a_version A' = a_version A + 1" if "op_step opn A = Inr A'" for A A'
    using that by (cases opn) (auto simp: published_def Let_def split: if_splits option.splits)
  have err: "e \<noteq> STATUS_SUCCESS" if "op_step opn A = Inl e" for A e
    using that by (cases opn) (auto simp: Let_def split: if_splits option.splits)
  have content: "content_ok (a_rules A')" if "abs_store w' = Some A'" for A'
    using abs_store_ok [OF inv that] by (simp add: astore_ok_def)
  show ?thesis
  proof (cases "op_check opn = STATUS_SUCCESS \<and> SkRuleStoreWritable w")
    case False
    then show ?thesis using impl by (auto simp: implements_def split: if_splits)
  next
    case True
    then obtain A where A: "abs_store w = Some A" and step: "case op_step opn A of
        Inl e \<Rightarrow> st = e \<and> abs_store w' = abs_store w
      | Inr A' \<Rightarrow> commits ok w st w' A' \<and>
          (st = STATUS_SUCCESS \<longrightarrow> buckets_cleared (a_rules A) (a_rules A') w' \<and>
             (\<forall>i\<in>set (op_resets opn). rate_bucket i (g_RateTable w') = None))"
      using impl by (auto simp: implements_def)
    show ?thesis
    proof (cases "op_step opn A")
      case (Inl e)
      then show ?thesis using step err [OF Inl] by simp
    next
      case (Inr A')
      then show ?thesis using step A version [OF Inr] content by (auto simp: commits_def)
    qed
  qed
qed

theorem store_failure_atomic_witness:
  "\<exists>w'. run_op (\<lambda>_. True) (others (\<lambda>_. [EnvTeardown])) (OpDelete 9) demo_store = Some (STATUS_NOT_FOUND, w') \<and>
     abs_store w' = Some demo_abs"
proof -
  have run: "run_op (\<lambda>_. True) (others (\<lambda>_. [EnvTeardown])) (OpDelete 9) demo_store =
      Some (STATUS_NOT_FOUND, SkStoreUnlock (demo_store\<lparr>g_WriterBusy := 1\<rparr>))"
    using demo_writable
    by (simp add: SkRuleStoreDelete_def lock_free SkRuleStoreWritable_def snap_rules_def demo_rule_def)
  have "readable (OpDelete 9)" by simp
  from store_failure_atomic [OF demo_store_inv _ this run] run demo_abs show ?thesis by simp
qed

text \<open>C20: the rollback undoes the last publication: after a successful writer other than a rollback,
  a successful rollback brings back exactly the rules and the policy from before, under a
  version two higher, and the next rollback finds no slot and changes nothing.\<close>

theorem rollback_undoes:
  fixes w :: "'a store_scheme"
  assumes "store_inv {} {} H w" and "g_WriterBusy w = 0" and "readable opn" and "opn \<noteq> OpRollback"
    and "run_op ok (others sched) opn w = Some (STATUS_SUCCESS, w1)"
    and "run_op ok (others sched) OpRollback w1 = Some (STATUS_SUCCESS, w2)"
    and "run_op ok (others sched) OpRollback w2 = Some (st, w3)"
  shows "\<exists>A B. abs_store w = Some A \<and> abs_store w2 = Some B \<and> a_rules B = a_rules A \<and>
    a_policy B = a_policy A \<and> a_version B = a_version A + 2 \<and> abs_store w3 = abs_store w2 \<and>
    (st = STATUS_NOT_FOUND \<or> st = STATUS_INVALID_DEVICE_STATE)"
proof -
  from threads.run_op_implements [OF assms(1-3), of ok sched] assms(5) obtain H1 where
    1: "store_inv {} {} H1 w1" "g_WriterBusy w1 = 0" "implements ok opn w STATUS_SUCCESS w1" by auto
  have r: "readable OpRollback" by simp
  from threads.run_op_implements [OF 1(1,2) r, of ok sched] assms(6) obtain H2 where
    2: "store_inv {} {} H2 w2" "g_WriterBusy w2 = 0" "implements ok OpRollback w1 STATUS_SUCCESS w2" by auto
  from threads.run_op_implements [OF 2(1,2) r, of ok sched] assms(7)
  have 3: "implements ok OpRollback w2 st w3" by auto
  have check: "op_check opn = STATUS_SUCCESS" using 1(3) by (auto simp: implements_def split: if_splits)
  have err: "\<not> commits ok w e w' A' \<or> e \<noteq> STATUS_SUCCESS \<or> abs_store w' = Some A'" for w w' e A'
    by (auto simp: commits_def)
  obtain A A1 where A: "abs_store w = Some A" "op_step opn A = Inr A1" "abs_store w1 = Some A1"
    using 1(3) check assms(4)
    by (cases opn) (auto simp: implements_def commits_def Let_def split: if_splits)
  have prev: "a_prev A1 = Some (a_rules A, a_policy A)" "a_version A1 = a_version A + 1"
    using A(2) assms(4) by (cases opn; auto simp: published_def Let_def split: if_splits)+
  let ?B = "\<lparr>a_rules = a_rules A, a_version = a_version A1 + 1, a_policy = a_policy A, a_prev = None\<rparr>"
  have B: "abs_store w2 = Some ?B"
    using 2(3) A(3) prev(1) by (auto simp: implements_def commits_def split: if_splits)
  have "abs_store w3 = abs_store w2 \<and> (st = STATUS_NOT_FOUND \<or> st = STATUS_INVALID_DEVICE_STATE)"
    using 3 B by (auto simp: implements_def split: if_splits)
  with A(1) B prev(2) show ?thesis by simp
qed

theorem rollback_undoes_witness:
  "\<exists>w2 B. do { (s1, w1) \<leftarrow> run_op (\<lambda>_. True) (others (\<lambda>_. [])) OpClear demo_store;
       run_op (\<lambda>_. True) (others (\<lambda>_. [])) OpRollback w1 } = Some (STATUS_SUCCESS, w2) \<and>
     abs_store w2 = Some B \<and> a_rules B = [demo_rule] \<and> a_version B = 3"
proof -
  let ?run = "run_op (\<lambda>_. True) (others (\<lambda>_. [] :: env_act list))"
  have "do { (s1, w1) \<leftarrow> ?run OpClear demo_store; (s2, w2) \<leftarrow> ?run OpRollback w1;
      (s3, w3) \<leftarrow> ?run OpRollback w2; Some [s1, s2, s3] } = Some [0, 0, STATUS_NOT_FOUND]"
    by code_simp
  then obtain w1 w2 w3 where run: "?run OpClear demo_store = Some (STATUS_SUCCESS, w1)"
    "?run OpRollback w1 = Some (STATUS_SUCCESS, w2)" "?run OpRollback w2 = Some (STATUS_NOT_FOUND, w3)"
    by (auto simp: bind_eq_Some_conv simp del: run_op.simps)
  have "readable OpClear" by simp
  from rollback_undoes [OF demo_store_inv _ this _ run] run(1,2) demo_abs show ?thesis
    by (auto simp: demo_abs_def simp del: run_op.simps)
qed

section \<open>Life cycle\<close>



text \<open>Initialisation, also of a store that is in use, opens an empty store of version 0 with
  default PERMIT, or reports a blocked unload, or fails for want of memory with nothing left
  allocated behind it.\<close>

theorem init_complete:
  fixes w :: "'a store_scheme"
  assumes "store_inv {} {} H w" and "g_WriterBusy w = 0"
  shows "\<exists>st w' H'. SkRuleStoreInit ok (others sched) w = Some (st, w') \<and> store_inv {} {} H' w' \<and>
    g_WriterBusy w' = 0 \<and>
    (st = STATUS_SUCCESS \<and>
       abs_store w' = Some \<lparr>a_rules = [], a_version = 0, a_policy = SkVerdictPermit, a_prev = None\<rparr> \<or>
     st = STATUS_DEVICE_BUSY \<and> g_State w' = ShinkenUnloadBlocked \<or>
     st = STATUS_INSUFFICIENT_RESOURCES \<and> (\<exists>k. \<not> ok k) \<and> p_snaps w' = Map.empty)"
proof -
  from threads.init_inv [OF assms, of ok sched] obtain st w' H' where
    w': "SkRuleStoreInit ok (others sched) w = Some (st, w')" "store_inv {} {} H' w'" "g_WriterBusy w' = 0"
      "st = STATUS_SUCCESS \<and> g_State w \<noteq> ShinkenUnloadBlocked \<and>
         abs_store w' = Some \<lparr>a_rules = [], a_version = 0, a_policy = SkVerdictPermit, a_prev = None\<rparr> \<or>
       st = STATUS_DEVICE_BUSY \<and> g_State w' = ShinkenUnloadBlocked \<or>
       st = STATUS_INSUFFICIENT_RESOURCES \<and> (\<exists>k. \<not> ok k) \<and> \<not> g_StoreInited w'"
    by blast
  with closed_empty(1) [OF w'(2)] show ?thesis by blast
qed

theorem init_complete_witness:
  "\<exists>w'. SkRuleStoreInit (\<lambda>_. True) (others (\<lambda>_. [])) demo_store = Some (STATUS_SUCCESS, w') \<and>
     abs_store w' = Some \<lparr>a_rules = [], a_version = 0, a_policy = SkVerdictPermit, a_prev = None\<rparr>"
proof -
  have "map_option fst (SkRuleStoreInit (\<lambda>_. True) (others (\<lambda>_. [])) demo_store) = Some STATUS_SUCCESS"
    by code_simp
  then show ?thesis
    using init_complete [OF demo_store_inv, of "\<lambda>_. True" "\<lambda>_. []"] by auto
qed

section \<open>Queries\<close>

lemma find_unlock: "find P rs = (case filter P rs of [] \<Rightarrow> None | r # _ \<Rightarrow> Some r)"
  by (induction rs) auto

text \<open>The queries report the published state: \<open>Find\<close> the one rule with the id, \<open>Enum\<close> every rule in
  verdict order until the callback stops, \<open>Version\<close> and \<open>DefaultPolicy\<close> the published values;
  none of them changes the store.\<close>

theorem queries_correct:
  fixes w :: "'a store_scheme"
  assumes "store_inv {} {} H w" and "g_WriterBusy w = 0" and "abs_store w = Some A"
  shows "\<exists>w'. abs_store w' = Some A \<and> g_WriterBusy w' = 0 \<and>
    SkRuleStoreFind slp i (Some out) w =
      Some (case filter (\<lambda>r. r_ruleId r = i) (a_rules A) of
              [] \<Rightarrow> (STATUS_NOT_FOUND, Some out, w') | r # _ \<Rightarrow> (STATUS_SUCCESS, Some r, w')) \<and>
    SkRuleStoreEnum slp (Some (\<lambda>r c. (P r, c @ [r]))) [] w =
      Some (STATUS_SUCCESS, takeWhile P (a_rules A) @ take 1 (dropWhile P (a_rules A)), w') \<and>
    SkRuleStoreVersion w = Some (a_version A) \<and> SkRuleStoreDefaultPolicy w = Some (a_policy A)"
proof -
  obtain p where p: "g_Current w = Some p" using assms(3) by (auto simp: abs_store_def split: option.splits)
  from abs_store_open [OF assms(1) p] assms(3) obtain s where s: "p_snaps w p = Some s"
    "snap_rules w s = Some (a_rules A)" "a_version A = s_version s" "a_policy A = s_defaultPolicy s" by auto
  have ini: "g_StoreInited w" using store_invD(4) [OF assms(1)] p by (auto simp: flags_ok_def)
  let ?w = "SkStoreUnlock (w\<lparr>g_WriterBusy := 1\<rparr>)"
  have loop: "enum_loop (\<lambda>r c. (P r, c @ [r])) rs c = c @ takeWhile P rs @ take 1 (dropWhile P rs)" for rs c
    by (induction rs arbitrary: c) simp_all
  have "SkRuleStoreFind slp i (Some out) w =
      Some (case filter (\<lambda>r. r_ruleId r = i) (a_rules A) of
              [] \<Rightarrow> (STATUS_NOT_FOUND, Some out, ?w) | r # _ \<Rightarrow> (STATUS_SUCCESS, Some r, ?w))"
    using ini by (simp add: SkRuleStoreFind_def lock_free [OF assms(2)] p s find_unlock split: list.split)
  moreover have "SkRuleStoreEnum slp (Some (\<lambda>r c. (P r, c @ [r]))) [] w =
      Some (STATUS_SUCCESS, takeWhile P (a_rules A) @ take 1 (dropWhile P (a_rules A)), ?w)"
    using ini by (simp add: SkRuleStoreEnum_def lock_free [OF assms(2)] p s loop)
  moreover have "abs_store ?w = Some A" "g_WriterBusy ?w = 0" using assms(3) by simp_all
  ultimately show ?thesis
    using s(3,4) by (intro exI [of _ ?w]) (simp add: SkRuleStoreVersion_def SkRuleStoreDefaultPolicy_def p s(1))
qed

theorem queries_correct_witness:
  "\<exists>w'. SkRuleStoreFind id 7 (Some zero_rule) demo_store = Some (STATUS_SUCCESS, Some demo_rule, w') \<and>
     SkRuleStoreVersion demo_store = Some 1"
  using queries_correct [OF demo_store_inv _ demo_abs, of id 7 zero_rule "\<lambda>_. True"]
  by (auto simp: demo_abs_def demo_rule_def)

section \<open>A bucket that outlives its rule\<close>

definition limit_rule :: rule where
  "limit_rule = zero_rule\<lparr>r_ruleId := 7, r_action := SkRuleActionRateLimit, r_enabled := 1,
     r_rateTokens := 1, r_rateIntervalMs := 1000, r_burst := 1\<rparr>"

definition stale_reader :: "(ntstatus list \<times> rule list \<times> rate_entry option \<times> rule list \<times> rate_entry option) option" where
  "stale_reader = do {
     let slp = others (\<lambda>_. []);
     (s0, w) \<leftarrow> SkRuleStoreReplace (\<lambda>_. True) slp (Some [limit_rule]) 1 0 demo_store;
     (held, w) \<leftarrow> SkRuleStoreAcquire w;
     (s1, w) \<leftarrow> SkRuleStoreDelete (\<lambda>_. True) slp 7 w;
     (out, w) \<leftarrow> SkRuleEvaluate 1000 5 5 5 held zero_tuple w;
     w \<leftarrow> SkRuleStoreRelease held w;
     A \<leftarrow> abs_store w;
     (s2, w') \<leftarrow> SkRuleStoreReplace (\<lambda>_. True) slp (Some [limit_rule]) 1 0 w;
     B \<leftarrow> abs_store w';
     Some ([s0, s1, s2], a_rules A, rate_bucket 7 (g_RateTable w), a_rules B, rate_bucket 7 (g_RateTable w'))
   }"

text \<open>A reader that still holds the snapshot from before a deletion re-creates the token bucket of
  the deleted rule: after the sequence acquire, delete, evaluate no published rule has id 7,
  yet the table holds a bucket for it, and a later Replace that brings the id back inherits
  that bucket instead of starting with a full one.\<close>

theorem stale_bucket:
  "stale_reader = Some ([STATUS_SUCCESS, STATUS_SUCCESS, STATUS_SUCCESS], [],
     Some \<lparr>e_ruleId = 7, e_tokens = 0, e_lastRefillMs = 5, e_inUse = 1\<rparr>, [limit_rule],
     Some \<lparr>e_ruleId = 7, e_tokens = 0, e_lastRefillMs = 5, e_inUse = 1\<rparr>)"
  by code_simp

end
