(* ===== verification/SnapshotProtocol.thy ===== *)
theory SnapshotProtocol
  imports StoreProperties
begin

text \<open>
  The publication protocol of the rule store as a step relation: any number of readers
  acquire, evaluate and release while one writer (the lock holder) allocates, reclaims,
  publishes, rolls back, closes and drains, and the runtime tears down. The steps are the
  atomic sections of rules/rule_store.c; between any two of them any other step may run.

  A state carries, besides the store, the writer's unpublished snapshot and the references
  the readers hold, each with the contents the reader saw when it acquired (ghost).
\<close>

type_synonym contents = "rule list \<times> u64 \<times> u32"

record proto =
  pr_store :: store
  pr_new :: "nat option"
  pr_refs :: "(nat \<times> contents) list"

definition refcount :: "(nat \<times> contents) list \<Rightarrow> nat \<Rightarrow> nat" where
  "refcount refs p = length (filter (\<lambda>x. fst x = p) refs)"

text \<open>The allocations of a writer: the array with its contents and the filled snapshot.\<close>

definition prepare_snapshot :: "rule list \<Rightarrow> u32 \<Rightarrow> 'a store_scheme \<Rightarrow> (nat \<times> 'a store_scheme) option" where
  "prepare_snapshot rs pol w =
     (case AllocArray (\<lambda>_. True) rs w of
        (None, w) \<Rightarrow> None
      | (Some arr, w) \<Rightarrow>
          (case SkSnapAlloc (\<lambda>_. True) w of
             (None, w) \<Rightarrow> None
           | (Some snap, w) \<Rightarrow> do {
               w \<leftarrow> upd_snap snap (\<lambda>s. s\<lparr>s_rules := Some arr, s_count := of_nat (length rs),
                      s_defaultPolicy := pol\<rparr>) w;
               Some (snap, w)
             }))"

inductive pstep :: "proto \<Rightarrow> proto \<Rightarrow> bool" where
  acquire: "SkRuleStoreAcquire (pr_store s) = Some (Some p, w) \<Longrightarrow> snap_view (pr_store s) p = Some c \<Longrightarrow>
    pstep s (s\<lparr>pr_store := w, pr_refs := (p, c) # pr_refs s\<rparr>)"
| refused: "SkRuleStoreAcquire (pr_store s) = Some (None, w) \<Longrightarrow> pstep s (s\<lparr>pr_store := w\<rparr>)"
| release: "pr_refs s = xs @ (p, c) # ys \<Longrightarrow> SkRuleStoreRelease (Some p) (pr_store s) = Some w \<Longrightarrow>
    pstep s (s\<lparr>pr_store := w, pr_refs := xs @ ys\<rparr>)"
| evaluate: "(p, c) \<in> set (pr_refs s) \<Longrightarrow>
    SkRuleEvaluate freq t0 t1 t2 (Some p) t (pr_store s) = Some (out, w) \<Longrightarrow> pstep s (s\<lparr>pr_store := w\<rparr>)"
| prepare: "pr_new s = None \<Longrightarrow> content_ok rs \<Longrightarrow> policy_ok pol \<Longrightarrow>
    prepare_snapshot rs pol (pr_store s) = Some (p, w) \<Longrightarrow> pstep s (s\<lparr>pr_store := w, pr_new := Some p\<rparr>)"
| reclaim: "retire_round (pr_store s) = Some w \<Longrightarrow> pstep s (s\<lparr>pr_store := w\<rparr>)"
| publish: "pr_new s = Some p \<Longrightarrow> publish_section p (pr_store s) = Some (Inr (old, w)) \<Longrightarrow>
    pstep s (s\<lparr>pr_store := w, pr_new := None\<rparr>)"
| rollback: "pr_new s = Some p \<Longrightarrow> g_RollbackSlot (pr_store s) = Some rb \<Longrightarrow>
    rollback_section p rb (pr_store s) = Some (Inr (old, w)) \<Longrightarrow> pstep s (s\<lparr>pr_store := w, pr_new := None\<rparr>)"
| discard: "pr_new s = Some p \<Longrightarrow> SkSnapFree p (pr_store s) = Some w \<Longrightarrow>
    pstep s (s\<lparr>pr_store := w, pr_new := None\<rparr>)"
| close: "pr_new s = None \<Longrightarrow> g_StoreInited (pr_store s) \<Longrightarrow> close_section (pr_store s) = Some w \<Longrightarrow>
    pstep s (s\<lparr>pr_store := w\<rparr>)"
| drained: "pr_new s = None \<Longrightarrow> g_RetireList (pr_store s) = p # ps \<Longrightarrow>
    readers_count p (pr_store s) = SHINKEN_RUNDOWN_STOP_BIT \<Longrightarrow>
    SkSnapFree p ((pr_store s)\<lparr>g_RetireList := ps\<rparr>) = Some w \<Longrightarrow> pstep s (s\<lparr>pr_store := w\<rparr>)"
| stuck: "g_RetireList (pr_store s) = p # ps \<Longrightarrow>
    pstep s (s\<lparr>pr_store := ShRuntimeEnterUnloadBlocked ShinkenBlockRundownStuck
      (ShRuntimeRecordBlock ShinkenBlockRundownStuck ((pr_store s)\<lparr>g_RetireList := ps @ [p]\<rparr>))\<rparr>)"
| teardown: "pstep s (s\<lparr>pr_store := snd (ShRuntimeBeginTeardown (pr_store s))\<rparr>)"

inductive_cases pstepE: "pstep s s'"

section \<open>Frames\<close>

text \<open>What keeps the contents of a snapshot.\<close>

lemma view_frame:
  assumes heap: "heap_ok Xs Xa w" and p: "p_snaps w p = Some s"
    and s: "p_snaps w' p = Some s'" "s_rules s' = s_rules s" "s_count s' = s_count s"
      "s_version s' = s_version s" "s_defaultPolicy s' = s_defaultPolicy s"
    and arr: "\<And>a. p_arrays w a \<noteq> None \<Longrightarrow> p_arrays w' a = p_arrays w a"
  shows "snap_view w' p = snap_view w p"
proof -
  have "snap_rules w' s' = snap_rules w s"
  proof (cases "s_rules s")
    case None
    then show ?thesis using s by (simp add: snap_rules_def)
  next
    case (Some a)
    then have "p_arrays w a \<noteq> None" using heap_array [OF heap p] by auto
    then have "p_arrays w' a = p_arrays w a" by (rule arr)
    then show ?thesis unfolding snap_rules_def s(2,3) by (simp add: Some)
  qed
  then show ?thesis using p s by (simp add: snap_view_def)
qed

lemma retire_snap_frame:
  assumes "retire_snap p w = Some w'"
  shows "\<exists>s. p_snaps w p = Some s \<and> w' = w\<lparr>p_snaps := (p_snaps w)(p \<mapsto>
      s\<lparr>s_readers := ShRundownBeginStop (s_readers s), s_retired := 1\<rparr>), g_RetireList := g_RetireList w @ [p]\<rparr>"
  using assms by (auto simp: retire_snap_def upd_snap_def bind_eq_Some_conv)

lemma view_meta:
  assumes "p_snaps w p = Some s" "s_rules s' = s_rules s" "s_count s' = s_count s"
    "s_version s' = s_version s" "s_defaultPolicy s' = s_defaultPolicy s"
  shows "snap_view (w\<lparr>p_snaps := (p_snaps w)(p \<mapsto> s')\<rparr>) q = snap_view w q"
proof -
  have "snap_rules w s' = snap_rules w s" by (rule snap_rules_meta) (use assms in simp_all)
  then show ?thesis using assms by (auto simp: snap_view_def)
qed

lemma view_pointers [simp]:
  "snap_view (w\<lparr>g_Current := c\<rparr>) = snap_view w"
  "snap_view (w\<lparr>g_RollbackSlot := c\<rparr>) = snap_view w"
  "snap_view (w\<lparr>g_RetireList := l\<rparr>) = snap_view w"
  "snap_view (w\<lparr>g_StoreClosed := b\<rparr>) = snap_view w"
  by (intro ext snap_view_cong; simp)+

lemma retire_snap_view: "retire_snap p w = Some w' \<Longrightarrow> snap_view w' q = snap_view w q"
proof (drule retire_snap_frame, elim exE conjE)
  fix s
  assume s: "p_snaps w p = Some s" and w': "w' = w\<lparr>p_snaps := (p_snaps w)(p \<mapsto>
      s\<lparr>s_readers := ShRundownBeginStop (s_readers s), s_retired := 1\<rparr>), g_RetireList := g_RetireList w @ [p]\<rparr>"
  show "snap_view w' q = snap_view w q"
    unfolding w' view_pointers by (rule view_meta [OF s]) simp_all
qed

lemma upd_version_view:
  "upd_snap p (\<lambda>s. s\<lparr>s_version := v\<rparr>) w = Some w' \<Longrightarrow> q \<noteq> p \<Longrightarrow> snap_view w' q = snap_view w q"
  by (auto simp: upd_snap_def bind_eq_Some_conv snap_view_def)

lemma publish_section_view:
  "publish_section p w = Some (Inr (old, w')) \<Longrightarrow> q \<noteq> p \<Longrightarrow> snap_view w' q = snap_view w q"
  by (auto simp: publish_section_def Let_def bind_eq_Some_conv retire_snap_view
      intro: upd_version_view split: if_splits option.splits) (erule (1) upd_version_view)

lemma rollback_section_view:
  "rollback_section p rb w = Some (Inr (old, w')) \<Longrightarrow> q \<noteq> p \<Longrightarrow> snap_view w' q = snap_view w q"
  by (auto simp: rollback_section_def Let_def bind_eq_Some_conv retire_snap_view
      intro: upd_version_view split: if_splits)

lemma close_section_view: "close_section w = Some w' \<Longrightarrow> snap_view w' q = snap_view w q"
  by (auto simp: close_section_def Let_def bind_eq_Some_conv retire_snap_view split: option.splits)

lemma relist_perm_inv:
  assumes inv: "store_inv Xs Xa H w" and perm: "mset l = mset (g_RetireList w)"
  shows "store_inv Xs Xa H (w\<lparr>g_RetireList := l\<rparr>)" (is "store_inv _ _ _ ?w")
proof -
  have set: "set l = set (g_RetireList w)" using perm by (rule mset_eq_setD)
  have "mset (tracked ?w) = mset (tracked w)" using perm by (simp add: tracked_def)
  then have tr: "set (tracked ?w) = set (tracked w)" "distinct (tracked ?w) = distinct (tracked w)"
    by (rule mset_eq_setD, rule mset_eq_imp_distinct_iff)
  note heap = store_invD(1) [OF inv]
  have "heap_ok Xs Xa ?w"
    by (rule heap_relist [OF heap])
      (use heap_dom [OF heap] heap_distinct [OF heap] heap_disjoint [OF heap] in \<open>simp_all add: tr\<close>)
  moreover have "snaps_ok ?w" using store_invD(2) [OF inv] by (simp add: snaps_ok_def tr)
  moreover have "readers_ok H ?w" using store_invD(3) [OF inv] by (simp add: readers_ok_def set)
  moreover have "flags_ok ?w"
    using store_invD(4) [OF inv] perm by (auto simp: flags_ok_def)
  ultimately show ?thesis using store_invD(5) [OF inv] by (simp add: store_inv_def)
qed

section \<open>The invariant\<close>

lemma refcount_simps [simp]:
  "refcount [] p = 0"
  "refcount ((q, c) # refs) p = (if q = p then Suc (refcount refs p) else refcount refs p)"
  "refcount (xs @ ys) p = refcount xs p + refcount ys p"
  by (simp_all add: refcount_def)

lemma refcount_pos: "(p, c) \<in> set refs \<Longrightarrow> 0 < refcount refs p"
  by (force simp: refcount_def filter_empty_conv)

text \<open>The unpublished snapshot: complete, live, and unknown to every reader.\<close>

definition new_ok :: "proto \<Rightarrow> bool" where
  "new_ok s \<longleftrightarrow> (\<forall>n. pr_new s = Some n \<longrightarrow> refcount (pr_refs s) n = 0 \<and>
     map_option s_retired (p_snaps (pr_store s) n) = Some 0 \<and>
     (\<exists>rs v pol. snap_view (pr_store s) n = Some (rs, v, pol) \<and> content_ok rs \<and> policy_ok pol))"

definition refs_ok :: "proto \<Rightarrow> bool" where
  "refs_ok s \<longleftrightarrow> (\<forall>(p, c)\<in>set (pr_refs s). snap_view (pr_store s) p = Some c \<and> content_ok (fst c))"

definition proto_inv :: "proto \<Rightarrow> bool" where
  "proto_inv s \<longleftrightarrow> store_inv (set_option (pr_new s)) {} (refcount (pr_refs s)) (pr_store s) \<and>
     new_ok s \<and> refs_ok s"

lemma proto_invD:
  assumes "proto_inv s"
  shows "store_inv (set_option (pr_new s)) {} (refcount (pr_refs s)) (pr_store s)" "new_ok s" "refs_ok s"
  using assms by (simp_all add: proto_inv_def)

text \<open>A step that leaves references and unpublished snapshot alone and their contents, too.\<close>

lemma proto_inv_keep:
  assumes inv: "proto_inv s" and st: "store_inv (set_option (pr_new s)) {} (refcount (pr_refs s)) w"
    and ref: "\<And>p. 0 < refcount (pr_refs s) p \<Longrightarrow> snap_view w p = snap_view (pr_store s) p"
    and new: "\<And>n. pr_new s = Some n \<Longrightarrow> snap_view w n = snap_view (pr_store s) n \<and>
      map_option s_retired (p_snaps w n) = map_option s_retired (p_snaps (pr_store s) n)"
  shows "proto_inv (s\<lparr>pr_store := w\<rparr>)"
proof -
  have "new_ok (s\<lparr>pr_store := w\<rparr>)"
    using proto_invD(2) [OF inv] new by (auto simp: new_ok_def)
  moreover have "refs_ok (s\<lparr>pr_store := w\<rparr>)"
    using proto_invD(3) [OF inv] ref refcount_pos by (fastforce simp: refs_ok_def)
  ultimately show ?thesis using st by (simp add: proto_inv_def)
qed

text \<open>A step that publishes or frees the unpublished snapshot.\<close>

lemma proto_inv_done:
  assumes inv: "proto_inv s" and new: "pr_new s = Some n"
    and st: "store_inv {} {} (refcount (pr_refs s)) w"
    and ref: "\<And>p. p \<noteq> n \<Longrightarrow> snap_view w p = snap_view (pr_store s) p"
  shows "proto_inv (s\<lparr>pr_store := w, pr_new := None\<rparr>)"
proof -
  have "refcount (pr_refs s) n = 0" using proto_invD(2) [OF inv] new by (simp add: new_ok_def)
  then have "p \<noteq> n" if "(p, c) \<in> set (pr_refs s)" for p c using refcount_pos [OF that] by auto
  then have "refs_ok (s\<lparr>pr_store := w, pr_new := None\<rparr>)"
    using proto_invD(3) [OF inv] ref by (fastforce simp: refs_ok_def)
  then show ?thesis using st by (simp add: proto_inv_def new_ok_def)
qed

lemma core_keep:
  assumes inv: "proto_inv s" and st: "store_inv (set_option (pr_new s)) {} (refcount (pr_refs s)) w"
    and core: "same_core (pr_store s) w"
  shows "proto_inv (s\<lparr>pr_store := w\<rparr>)"
  by (rule proto_inv_keep [OF inv st])
    (use same_core_view [OF core] same_core_owned [OF core] in \<open>auto simp: owned_same_def\<close>)

lemma new_not_current:
  assumes "proto_inv s" and "pr_new s = Some n"
  shows "n \<notin> set (tracked (pr_store s))"
  using heap_disjoint [OF store_invD(1) [OF proto_invD(1) [OF assms(1)]]] assms(2) by auto

text \<open>Reader steps.\<close>

lemma acquire_keep:
  assumes inv: "proto_inv s" and run: "SkRuleStoreAcquire (pr_store s) = Some (Some p, w)"
    and view: "snap_view (pr_store s) p = Some c"
  shows "proto_inv (s\<lparr>pr_store := w, pr_refs := (p, c) # pr_refs s\<rparr>)"
proof -
  let ?s = "s\<lparr>pr_store := w, pr_refs := (p, c) # pr_refs s\<rparr>"
  from acquire_inv [OF proto_invD(1) [OF inv]] run obtain H' where
    a: "store_inv (set_option (pr_new s)) {} H' w" "same_core (pr_store s) w" "g_Current (pr_store s) = Some p"
      "H' = (refcount (pr_refs s))(p := Suc (refcount (pr_refs s) p))" by auto
  have H': "H' = refcount ((p, c) # pr_refs s)" using a(4) by (auto simp: fun_eq_iff)
  note v = same_core_view [OF a(2)]
  have tr: "p \<in> set (tracked (pr_store s))" using a(3) by (rule current_tracked)
  have "content_ok (fst c)" using snap_view_ok [OF proto_invD(1) [OF inv] tr] view by auto
  then have "refs_ok ?s" using proto_invD(3) [OF inv] view v by (auto simp: refs_ok_def)
  moreover have "new_ok ?s"
    using proto_invD(2) [OF inv] new_not_current [OF inv] tr v same_core_owned [OF a(2), of "set_option (pr_new s)"]
    by (auto simp: new_ok_def owned_same_def)
  ultimately show ?thesis using a(1) by (simp add: proto_inv_def H' del: refcount_simps)
qed

lemma release_keep:
  assumes inv: "proto_inv s" and refs: "pr_refs s = xs @ (p, c) # ys"
    and run: "SkRuleStoreRelease (Some p) (pr_store s) = Some w"
  shows "proto_inv (s\<lparr>pr_store := w, pr_refs := xs @ ys\<rparr>)"
proof -
  let ?H = "refcount (pr_refs s)"
  have "0 < ?H p" by (simp add: refs)
  from release_inv [OF proto_invD(1) [OF inv] this] run have
    a: "store_inv (set_option (pr_new s)) {} (?H(p := ?H p - 1)) w" "same_core (pr_store s) w" by auto
  have H': "?H(p := ?H p - 1) = refcount (xs @ ys)" by (auto simp: fun_eq_iff refs)
  note v = same_core_view [OF a(2)]
  have "refs_ok (s\<lparr>pr_store := w, pr_refs := xs @ ys\<rparr>)"
    using proto_invD(3) [OF inv] v by (auto simp: refs_ok_def refs)
  moreover have "new_ok (s\<lparr>pr_store := w, pr_refs := xs @ ys\<rparr>)"
    using proto_invD(2) [OF inv] v same_core_owned [OF a(2), of "set_option (pr_new s)"]
    by (auto simp: new_ok_def owned_same_def refs split: if_splits)
  ultimately show ?thesis using a(1) unfolding H' by (simp add: proto_inv_def del: refcount_simps)
qed

text \<open>Writer steps.\<close>

lemma prepare_run:
  assumes inv: "store_inv {} {} H w" and content: "content_ok rs"
  shows "\<exists>p w'. prepare_snapshot rs pol w = Some (p, w') \<and> store_inv {p} {} H w' \<and> H p = 0 \<and>
    snap_view w' p = Some (rs, 0, pol) \<and> map_option s_retired (p_snaps w' p) = Some 0 \<and>
    (\<forall>q. p_snaps w q \<noteq> None \<longrightarrow> snap_view w' q = snap_view w q)"
proof -
  obtain r w1 where alloc: "AllocArray (\<lambda>_. True) rs w = (r, w1)" by (cases "AllocArray (\<lambda>_. True) rs w")
  from alloc_array_inv [OF inv alloc] obtain a where a: "r = Some a" "store_inv {} {a} H w1"
    "p_arrays w1 a = Some rs" "p_snaps w1 = p_snaps w" by (auto split: option.splits)
  have a_new: "a = p_next w" "p_arrays w1 = (p_arrays w)(a \<mapsto> rs)"
    using alloc a(1) by (auto simp: AllocArray_def Let_def)
  let ?n = "of_nat (length rs) :: u32"
  have "length rs \<le> 4096" using content by (simp add: content_ok_def)
  then have hands: "hands w1 (Some a) ?n rs"
    using a(3) by (simp add: hands_def unat_of_nat take_bit_nat_eq_self)
  have inv1: "store_inv {} (set_option (Some a)) H w1" using a(2) by simp
  obtain p where sa: "SkSnapAlloc (\<lambda>_. True) w1 =
      (Some p, w1\<lparr>p_next := Suc p, p_snaps := (p_snaps w1)(p \<mapsto> new_snapshot)\<rparr>)" "p = p_next w1"
    by (auto simp: SkSnapAlloc_def Let_def)
  from new_snap_inv [OF inv1 hands sa(1), of pol] obtain w2 where w2:
    "upd_snap p (\<lambda>s. s\<lparr>s_rules := Some a, s_count := ?n, s_defaultPolicy := pol\<rparr>)
      (w1\<lparr>p_next := Suc p, p_snaps := (p_snaps w1)(p \<mapsto> new_snapshot)\<rparr>) = Some w2"
    "store_inv {p} {} H w2" "snap_view w2 p = Some (rs, 0, pol)"
    "map_option s_retired (p_snaps w2 p) = Some 0" "H p = 0" by auto
  have run: "prepare_snapshot rs pol w = Some (p, w2)"
    using alloc a(1) sa(1) w2(1) by (simp add: prepare_snapshot_def)
  have other: "p_snaps w2 q = p_snaps w q" if "q \<noteq> p" for q
    using w2(1) that a(4) by (auto simp: upd_snap_def)
  have arr: "p_arrays w2 = p_arrays w1" using w2(1) by (auto simp: upd_snap_def)
  note heap = store_invD(1) [OF inv]
  have fresh: "p_snaps w p = None" using fresh_address(1) [OF store_invD(1) [OF a(2)], of p] a(4) sa(2) by simp
  have "snap_view w2 q = snap_view w q" if q: "p_snaps w q = Some s" for q s
  proof (rule view_frame [OF heap q])
    show "p_snaps w2 q = Some s" using other [of q] q fresh by (cases "q = p") simp_all
    show "p_arrays w2 b = p_arrays w b" if "p_arrays w b \<noteq> None" for b
      using that fresh_address(2) [OF heap, of a] a_new by (auto simp: arr)
  qed simp_all
  then have "\<forall>q. p_snaps w q \<noteq> None \<longrightarrow> snap_view w2 q = snap_view w q" by auto
  with run w2(2-5) show ?thesis by blast
qed

lemma prepare_keep:
  assumes inv: "proto_inv s" and none: "pr_new s = None" and content: "content_ok rs" "policy_ok pol"
    and run: "prepare_snapshot rs pol (pr_store s) = Some (p, w)"
  shows "proto_inv (s\<lparr>pr_store := w, pr_new := Some p\<rparr>)"
proof -
  have st: "store_inv {} {} (refcount (pr_refs s)) (pr_store s)" using proto_invD(1) [OF inv] none by simp
  from prepare_run [OF st content(1), of pol] run have w: "store_inv {p} {} (refcount (pr_refs s)) w"
    "refcount (pr_refs s) p = 0" "snap_view w p = Some (rs, 0, pol)"
    "map_option s_retired (p_snaps w p) = Some 0"
    "\<forall>q. p_snaps (pr_store s) q \<noteq> None \<longrightarrow> snap_view w q = snap_view (pr_store s) q" by auto
  have "snap_view w q = Some c \<and> content_ok (fst c)" if "(q, c) \<in> set (pr_refs s)" for q c
  proof -
    have c: "snap_view (pr_store s) q = Some c" "content_ok (fst c)"
      using proto_invD(3) [OF inv] that by (auto simp: refs_ok_def)
    then have "p_snaps (pr_store s) q \<noteq> None"
      by (cases "p_snaps (pr_store s) q") (simp_all add: snap_view_def)
    with c w(5) show ?thesis by simp
  qed
  then have "refs_ok (s\<lparr>pr_store := w, pr_new := Some p\<rparr>)" by (auto simp: refs_ok_def)
  moreover have "new_ok (s\<lparr>pr_store := w, pr_new := Some p\<rparr>)" using w(2-4) content by (simp add: new_ok_def)
  ultimately show ?thesis using w(1) by (simp add: proto_inv_def)
qed

lemma publish_keep:
  assumes inv: "proto_inv s" and new: "pr_new s = Some p"
    and run: "publish_section p (pr_store s) = Some (Inr (old, w))"
  shows "proto_inv (s\<lparr>pr_store := w, pr_new := None\<rparr>)"
proof (rule proto_inv_done [OF inv new])
  have st: "store_inv {p} {} (refcount (pr_refs s)) (pr_store s)" using proto_invD(1) [OF inv] new by simp
  have gate: "SkStoreWritableNoLock (pr_store s)" using run by (auto simp: publish_section_def split: if_splits)
  from proto_invD(2) [OF inv] new obtain rs v pol where n: "map_option s_retired (p_snaps (pr_store s) p) = Some 0"
    "snap_view (pr_store s) p = Some (rs, v, pol)" "content_ok rs" "policy_ok pol" by (auto simp: new_ok_def)
  have "g_Current (pr_store s) \<noteq> Some p" using new_not_current [OF inv new] current_tracked by auto
  from publish_section_inv [OF st _ this n(2,1,3,4) gate] run
  show "store_inv {} {} (refcount (pr_refs s)) w" by auto
qed (rule publish_section_view [OF run])

lemma rollback_keep:
  assumes inv: "proto_inv s" and new: "pr_new s = Some p" and rb: "g_RollbackSlot (pr_store s) = Some rb"
    and run: "rollback_section p rb (pr_store s) = Some (Inr (old, w))"
  shows "proto_inv (s\<lparr>pr_store := w, pr_new := None\<rparr>)"
proof (rule proto_inv_done [OF inv new])
  have st: "store_inv {p} {} (refcount (pr_refs s)) (pr_store s)" using proto_invD(1) [OF inv] new by simp
  have gate: "SkStoreWritableNoLock (pr_store s)" using run by (auto simp: rollback_section_def split: if_splits)
  from proto_invD(2) [OF inv] new obtain rs v pol where n: "map_option s_retired (p_snaps (pr_store s) p) = Some 0"
    "snap_view (pr_store s) p = Some (rs, v, pol)" "content_ok rs" "policy_ok pol" by (auto simp: new_ok_def)
  from rollback_section_inv [OF st rb n(2,1,3,4) gate] run
  show "store_inv {} {} (refcount (pr_refs s)) w" by auto
qed (rule rollback_section_view [OF run])

lemma discard_keep:
  assumes inv: "proto_inv s" and new: "pr_new s = Some p" and run: "SkSnapFree p (pr_store s) = Some w"
  shows "proto_inv (s\<lparr>pr_store := w, pr_new := None\<rparr>)"
proof -
  have st: "store_inv {p} {} (refcount (pr_refs s)) (pr_store s)" using proto_invD(1) [OF inv] new by simp
  have zero: "refcount (pr_refs s) p = 0" using proto_invD(2) [OF inv] new by (simp add: new_ok_def)
  have "p \<in> {p}" by simp
  from snap_free_inv [OF st this zero] run have "store_inv {} {} (refcount (pr_refs s)) w"
    "\<forall>q. q \<noteq> p \<longrightarrow> snap_view w q = snap_view (pr_store s) q" by auto
  then show ?thesis by (intro proto_inv_done [OF inv new]) auto
qed

lemma reclaim_keep:
  assumes inv: "proto_inv s" and run: "retire_round (pr_store s) = Some w"
  shows "proto_inv (s\<lparr>pr_store := w\<rparr>)"
proof -
  from retire_round_inv [OF proto_invD(1) [OF inv]] run obtain D where
    w: "store_inv (set_option (pr_new s)) {} (refcount (pr_refs s)) w" "\<forall>p\<in>set D. refcount (pr_refs s) p = 0"
      "set D \<subseteq> set (g_RetireList (pr_store s))"
      "p_snaps w = (\<lambda>p. if p \<in> set D then None else p_snaps (pr_store s) p)"
      "\<forall>q. q \<notin> set D \<longrightarrow> snap_view w q = snap_view (pr_store s) q" by auto
  have "n \<notin> set D" if "pr_new s = Some n" for n
    using new_not_current [OF inv that] w(3) retire_tracked by blast
  moreover have "p \<notin> set D" if "0 < refcount (pr_refs s) p" for p using w(2) that by auto
  ultimately show ?thesis using w(4,5) by (intro proto_inv_keep [OF inv w(1)]) simp_all
qed

lemma close_keep:
  assumes inv: "proto_inv s" and new: "pr_new s = None" and ini: "g_StoreInited (pr_store s)"
    and run: "close_section (pr_store s) = Some w"
  shows "proto_inv (s\<lparr>pr_store := w\<rparr>)"
proof -
  have st: "store_inv {} {} (refcount (pr_refs s)) (pr_store s)" using proto_invD(1) [OF inv] new by simp
  from close_section_inv [OF st ini] run have "store_inv {} {} (refcount (pr_refs s)) w" by auto
  then show ?thesis
    by (intro proto_inv_keep [OF inv]) (simp_all add: new close_section_view [OF run])
qed

lemma drained_keep:
  assumes inv: "proto_inv s" and new: "pr_new s = None" and ps: "g_RetireList (pr_store s) = p # ps"
    and cnt: "readers_count p (pr_store s) = SHINKEN_RUNDOWN_STOP_BIT"
    and run: "SkSnapFree p ((pr_store s)\<lparr>g_RetireList := ps\<rparr>) = Some w"
  shows "proto_inv (s\<lparr>pr_store := w\<rparr>)"
proof -
  let ?H = "refcount (pr_refs s)"
  have st: "store_inv {} {} ?H (pr_store s)" using proto_invD(1) [OF inv] new by simp
  obtain t where t: "p_snaps (pr_store s) p = Some t"
    using tracked_snap [OF store_invD(1) [OF st] retire_tracked, of p] by (auto simp: ps)
  have zero: "?H p = 0"
    using rd_rep_drained [OF readers_rep [OF st t]] cnt t by (simp add: readers_count_def)
  have "mset (g_RetireList (pr_store s)) = mset ([p] @ ps)" by (simp add: ps)
  from detach_inv(1) [OF st this] have det: "store_inv {p} {} ?H ((pr_store s)\<lparr>g_RetireList := ps\<rparr>)" by simp
  have "p \<in> {p}" by simp
  from snap_free_inv [OF det this zero] run have w: "store_inv {} {} ?H w"
    "\<forall>q. q \<noteq> p \<longrightarrow> snap_view w q = snap_view (pr_store s) q" by auto
  show ?thesis
  proof (rule proto_inv_keep [OF inv])
    show "snap_view w q = snap_view (pr_store s) q" if "0 < ?H q" for q
      using that zero w(2) by (cases "q = p") simp_all
  qed (simp_all add: new w(1))
qed

lemma stuck_keep:
  assumes inv: "proto_inv s" and ps: "g_RetireList (pr_store s) = p # ps"
  shows "proto_inv (s\<lparr>pr_store := ShRuntimeEnterUnloadBlocked ShinkenBlockRundownStuck
    (ShRuntimeRecordBlock ShinkenBlockRundownStuck ((pr_store s)\<lparr>g_RetireList := ps @ [p]\<rparr>))\<rparr>)"
proof -
  let ?v = "(pr_store s)\<lparr>g_RetireList := ps @ [p]\<rparr>"
  let ?w = "ShRuntimeEnterUnloadBlocked ShinkenBlockRundownStuck (ShRuntimeRecordBlock ShinkenBlockRundownStuck ?v)"
  have perm: "mset (ps @ [p]) = mset (g_RetireList (pr_store s))" by (simp add: ps)
  have v: "store_inv (set_option (pr_new s)) {} (refcount (pr_refs s)) ?v"
    by (rule relist_perm_inv [OF proto_invD(1) [OF inv] perm])
  have "snap_view ?w q = snap_view (pr_store s) q" for q
    using report_stuck(3) [OF v, of "{q}"] by (simp add: owned_same_def)
  moreover have "p_snaps ?w = p_snaps (pr_store s)" by simp
  ultimately show ?thesis
    by (intro proto_inv_keep [OF inv report_stuck(1) [OF v]]) simp_all
qed

lemma teardown_core: "same_core w (snd (ShRuntimeBeginTeardown w))"
  by (simp add: same_core_def ShRuntimeBeginTeardown_def less_eq_runtime_state_def)

lemma teardown_keep:
  assumes inv: "proto_inv s"
  shows "proto_inv (s\<lparr>pr_store := snd (ShRuntimeBeginTeardown (pr_store s))\<rparr>)"
proof (rule core_keep [OF inv _ teardown_core])
  show "store_inv (set_option (pr_new s)) {} (refcount (pr_refs s)) (snd (ShRuntimeBeginTeardown (pr_store s)))"
    by (rule store_inv_cong [OF proto_invD(1) [OF inv]])
      (use store_invD(5) [OF proto_invD(1) [OF inv]] in \<open>simp_all add: ShRuntimeBeginTeardown_def\<close>)
qed

lemma engine_keep:
  assumes inv: "proto_inv s" and only: "engine_only (pr_store s) w" and ok: "rate_ok (g_RateTable w)"
  shows "proto_inv (s\<lparr>pr_store := w\<rparr>)"
  using engine_only_inv [OF only proto_invD(1) [OF inv] ok] by (intro core_keep [OF inv])

lemma pstep_inv: "proto_inv s \<Longrightarrow> pstep s s' \<Longrightarrow> proto_inv s'"
proof (erule pstepE)
  fix w p c freq t0 t1 t2 t out
  assume inv: "proto_inv s" and s': "s' = s\<lparr>pr_store := w\<rparr>"
    and run: "SkRuleEvaluate freq t0 t1 t2 (Some p) t (pr_store s) = Some (out, w)"
  from evaluate_any [OF store_invD(5) [OF proto_invD(1) [OF inv]] run] show "proto_inv s'"
    unfolding s' using engine_keep [OF inv] by blast
next
  fix w
  assume inv: "proto_inv s" and s': "s' = s\<lparr>pr_store := w\<rparr>"
    and run: "SkRuleStoreAcquire (pr_store s) = Some (None, w)"
  from acquire_inv [OF proto_invD(1) [OF inv]] run have
    "store_inv (set_option (pr_new s)) {} (refcount (pr_refs s)) w" "same_core (pr_store s) w" by auto
  then show "proto_inv s'" unfolding s' by (rule core_keep [OF inv])
qed (auto intro: acquire_keep release_keep prepare_keep publish_keep rollback_keep discard_keep
    reclaim_keep close_keep drained_keep stuck_keep teardown_keep)

interpretation snapshots: inductive_invariant pstep proto_inv
  by unfold_locales (rule pstep_inv)

section \<open>Properties\<close>

definition proto_start :: "store \<Rightarrow> proto" where
  "proto_start w = \<lparr>pr_store = w, pr_new = None, pr_refs = []\<rparr>"

lemma proto_start_inv: "store_inv {} {} (\<lambda>_. 0) w \<Longrightarrow> proto_inv (proto_start w)"
proof -
  have "refcount [] = (\<lambda>_. 0)" by (rule ext) simp
  then show "store_inv {} {} (\<lambda>_. 0) w \<Longrightarrow> proto_inv (proto_start w)"
    by (simp add: proto_inv_def proto_start_def new_ok_def refs_ok_def del: refcount_simps)
qed

lemma proto_reach:
  "store_inv {} {} (\<lambda>_. 0) w \<Longrightarrow> pstep\<^sup>*\<^sup>* (proto_start w) s \<Longrightarrow> proto_inv s"
  using snapshots.reach_inv proto_start_inv by blast

text \<open>C3: no use after free, and immutability: in every interleaving of readers, writer and teardown, a
  snapshot that a reader holds is still allocated and has exactly the rules, version and
  policy it had when the reader acquired it; its rules are valid, sorted and unique.\<close>

theorem snapshot_safety:
  assumes "store_inv {} {} (\<lambda>_. 0) w" and "pstep\<^sup>*\<^sup>* (proto_start w) s"
    and "(p, c) \<in> set (pr_refs s)"
  shows "snap_view (pr_store s) p = Some c \<and> content_ok (fst c)"
  using proto_invD(3) [OF proto_reach [OF assms(1,2)]] assms(3) by (auto simp: refs_ok_def)

lemma demo_acquired:
  "\<exists>w. pstep (proto_start demo_store) (\<lparr>pr_store = w, pr_new = None, pr_refs = [(1, [demo_rule], 1, 0)]\<rparr>) \<and>
     same_core demo_store w"
proof -
  from acquire_inv [OF demo_store_inv] obtain r w where a: "SkRuleStoreAcquire demo_store = Some (r, w)"
    "case r of None \<Rightarrow> False | Some p \<Rightarrow> p = 1" "same_core demo_store w" by (auto split: option.splits)
  then have a1: "SkRuleStoreAcquire demo_store = Some (Some 1, w)" by (cases r) auto
  have v: "snap_view demo_store 1 = Some ([demo_rule], 1, 0)" by (simp add: snap_view_def snap_rules_def)
  have "SkRuleStoreAcquire (pr_store (proto_start demo_store)) = Some (Some 1, w)"
    "snap_view (pr_store (proto_start demo_store)) 1 = Some ([demo_rule], 1, 0)"
    using a1 v by (simp_all add: proto_start_def)
  from pstep.acquire [OF this] a(3) show ?thesis by (auto simp: proto_start_def)
qed

text \<open>A reader acquires, then the store is closed under it.\<close>

lemma demo_closed:
  "\<exists>s. pstep\<^sup>*\<^sup>* (proto_start demo_store) s \<and> (1, [demo_rule], 1, 0) \<in> set (pr_refs s) \<and>
     g_Current (pr_store s) = None \<and> pr_new s = None"
proof -
  obtain w where 1: "pstep (proto_start demo_store)
      (\<lparr>pr_store = w, pr_new = None, pr_refs = [(1, [demo_rule], 1, 0)]\<rparr>)" (is "pstep _ ?s")
    and core: "same_core demo_store w" using demo_acquired by blast
  have inv: "proto_inv ?s" by (rule pstep_inv [OF proto_start_inv [OF demo_store_inv] 1])
  have ini: "g_StoreInited w" using core by (simp add: same_core_def)
  from proto_invD(1) [OF inv] have "store_inv {} {} (refcount (pr_refs ?s)) w" by simp
  from close_section_inv [OF this ini] obtain w' where w': "close_section w = Some w'" "g_Current w' = None"
    by blast
  have "pstep ?s (?s\<lparr>pr_store := w'\<rparr>)" by (rule pstep.close) (simp_all add: ini w')
  then have "pstep\<^sup>*\<^sup>* (proto_start demo_store) (?s\<lparr>pr_store := w'\<rparr>)"
    by (rule rtranclp.rtrancl_into_rtrancl [OF r_into_rtranclp [of pstep, OF 1]])
  with w'(2) show ?thesis by (intro exI [of _ "?s\<lparr>pr_store := w'\<rparr>"]) simp
qed

theorem snapshot_safety_witness:
  "\<exists>s. pstep\<^sup>*\<^sup>* (proto_start demo_store) s \<and> g_Current (pr_store s) = None \<and>
     snap_view (pr_store s) 1 = Some ([demo_rule], 1, 0)"
proof -
  obtain s where s: "pstep\<^sup>*\<^sup>* (proto_start demo_store) s" "(1, [demo_rule], 1, 0) \<in> set (pr_refs s)"
    "g_Current (pr_store s) = None" using demo_closed by blast
  from snapshot_safety [OF demo_store_inv s(1,2)] s show ?thesis by blast
qed

text \<open>No reachable state lets an operation fault: an acquire returns, a held reference can be released
  and evaluated, a reclaim pass and the closing of an initialised store run to their end.\<close>

theorem snapshot_no_fault:
  assumes "store_inv {} {} (\<lambda>_. 0) w" and "pstep\<^sup>*\<^sup>* (proto_start w) s"
  shows "SkRuleStoreAcquire (pr_store s) \<noteq> None \<and> retire_round (pr_store s) \<noteq> None \<and>
    (pr_new s = None \<and> g_StoreInited (pr_store s) \<longrightarrow> close_section (pr_store s) \<noteq> None) \<and>
    (\<forall>(p, c)\<in>set (pr_refs s). SkRuleStoreRelease (Some p) (pr_store s) \<noteq> None \<and>
       SkRuleEvaluate freq t0 t1 t2 (Some p) t (pr_store s) \<noteq> None)"
proof -
  have inv: "proto_inv s" by (rule proto_reach [OF assms])
  note st = proto_invD(1) [OF inv]
  have "SkRuleStoreAcquire (pr_store s) \<noteq> None" using acquire_inv [OF st] by auto
  moreover have "retire_round (pr_store s) \<noteq> None" using retire_round_inv [OF st] by auto
  moreover have "close_section (pr_store s) \<noteq> None" if "pr_new s = None" "g_StoreInited (pr_store s)"
    using close_section_inv [of "refcount (pr_refs s)" "pr_store s"] st that by auto
  moreover have "SkRuleStoreRelease (Some p) (pr_store s) \<noteq> None" if "(p, c) \<in> set (pr_refs s)" for p c
    using release_inv [OF st refcount_pos [OF that]] by auto
  moreover have "SkRuleEvaluate freq t0 t1 t2 (Some p) t (pr_store s) \<noteq> None" if "(p, c) \<in> set (pr_refs s)" for p c
  proof -
    obtain rs v pol where c: "c = (rs, v, pol)" by (cases c)
    then have "snap_view (pr_store s) p = Some (rs, v, pol)" "content_ok rs"
      using proto_invD(3) [OF inv] that by (auto simp: refs_ok_def)
    from evaluate_snapshot [OF st this] show ?thesis by blast
  qed
  ultimately show ?thesis by auto
qed

theorem snapshot_no_fault_witness:
  "\<exists>s. pstep\<^sup>*\<^sup>* (proto_start demo_store) s \<and> g_Current (pr_store s) = None \<and>
     SkRuleEvaluate 1000 5 5 5 (Some 1) zero_tuple (pr_store s) \<noteq> None"
proof -
  obtain s where s: "pstep\<^sup>*\<^sup>* (proto_start demo_store) s" "(1, [demo_rule], 1, 0) \<in> set (pr_refs s)"
    "g_Current (pr_store s) = None" using demo_closed by blast
  from snapshot_no_fault [OF demo_store_inv s(1), of 1000 5 5 5 zero_tuple] s show ?thesis by blast
qed

text \<open>C21: nothing leaks: once no reader holds a retired snapshot, one reclaim pass empties the retire
  list, and what is left in the pool is the current snapshot, the rollback slot and the
  snapshot a writer is preparing.\<close>

theorem reclaim_complete:
  assumes "store_inv {} {} (\<lambda>_. 0) w" and "pstep\<^sup>*\<^sup>* (proto_start w) s"
    and "\<forall>p\<in>set (g_RetireList (pr_store s)). p \<notin> fst ` set (pr_refs s)"
  shows "\<exists>w'. retire_round (pr_store s) = Some w' \<and> g_RetireList w' = [] \<and>
    dom (p_snaps w') = set_option (g_Current w') \<union> set_option (g_RollbackSlot w') \<union> set_option (pr_new s)"
proof -
  note st = proto_invD(1) [OF proto_reach [OF assms(1,2)]]
  from retire_round_inv [OF st] obtain w' where w': "retire_round (pr_store s) = Some w'"
    "store_inv (set_option (pr_new s)) {} (refcount (pr_refs s)) w'"
    "set (g_RetireList w') = {p \<in> set (g_RetireList (pr_store s)). 0 < refcount (pr_refs s) p}"
    by blast
  have "refcount (pr_refs s) p = 0" if "p \<in> set (g_RetireList (pr_store s))" for p
    using assms(3) that by (force simp: refcount_def filter_empty_conv)
  then have "set (g_RetireList w') = {}" unfolding w'(3) by auto
  then have nil: "g_RetireList w' = []" by simp
  have "set (opt_list x) = set_option x" for x :: "nat option" by (cases x) simp_all
  then have "dom (p_snaps w') = set_option (g_Current w') \<union> set_option (g_RollbackSlot w') \<union> set_option (pr_new s)"
    using heap_dom [OF store_invD(1) [OF w'(2)]] nil by (auto simp: tracked_def)
  with w'(1) nil show ?thesis by blast
qed

theorem reclaim_complete_witness:
  "\<exists>w'. retire_round demo_store = Some w' \<and> g_RetireList w' = []"
  using reclaim_complete [OF demo_store_inv rtranclp.rtrancl_refl] by (simp add: proto_start_def) blast

text \<open>In sorted content the first match is the match that precedes every other.\<close>

lemma find_winner:
  assumes "content_ok rs" and "find (\<lambda>r. SkRuleMatch r t) rs = Some h"
  shows "h \<in> set rs" and "SkRuleMatch h t"
    and "\<forall>r\<in>set rs. SkRuleMatch r t \<and> r \<noteq> h \<longrightarrow> SkRulePrecedes h r"
proof -
  have sorted: "sorted (map verdict_key rs)" and inj: "inj_on verdict_key (set rs)"
    using assms(1) distinct_ids_inj_key by (auto simp: content_ok_def)
  from verdict.find_best [OF sorted assms(2)] have h: "h \<in> set rs" "SkRuleMatch h t"
    "\<forall>r\<in>set rs. SkRuleMatch r t \<longrightarrow> \<not> SkRulePrecedes r h" by auto
  then show "h \<in> set rs" and "SkRuleMatch h t" by blast+
  have "SkRulePrecedes h r" if "r \<in> set rs" "SkRuleMatch r t" "r \<noteq> h" for r
  proof -
    have "verdict_key r \<noteq> verdict_key h" using inj h(1) that by (auto simp: inj_on_def)
    moreover have "\<not> verdict_key r < verdict_key h" using h(3) that by (simp add: precedes_key)
    ultimately show ?thesis unfolding precedes_key by (metis neqE)
  qed
  then show "\<forall>r\<in>set rs. SkRuleMatch r t \<and> r \<noteq> h \<longrightarrow> SkRulePrecedes h r" by blast
qed

text \<open>C2: the verdict of a reader is that of the store as published when it acquired: whatever happened
  since, an evaluation against a held reference returns the best matching rule of those rules
  in the documented order (or the default policy without a match), moves every counter by
  exactly one and touches no bucket but that of a rate-limit rule it hit.\<close>

theorem verdict_correct:
  assumes "store_inv {} {} (\<lambda>_. 0) w" and "pstep\<^sup>*\<^sup>* (proto_start w) s"
    and "(p, (rs, v, pol)) \<in> set (pr_refs s)"
  shows "\<exists>out w'. SkRuleEvaluate freq t0 t1 t2 (Some p) t (pr_store s) = Some (out, w') \<and>
    counted (g_SkRuleStats (pr_store s)) (g_SkRuleStats w') \<and>
    ((\<forall>r\<in>set rs. \<not> SkRuleMatch r t) \<and> out = fallback SkVerdictReasonNoMatch pol \<and>
       g_RateTable w' = g_RateTable (pr_store s) \<or>
     (\<exists>h\<in>set rs. \<exists>allowed. SkRuleMatch h t \<and> (\<forall>r\<in>set rs. SkRuleMatch r t \<and> r \<noteq> h \<longrightarrow> SkRulePrecedes h r) \<and>
        out = decide h allowed \<and> buckets_kept h (pr_store s) w'))"
proof -
  have inv: "proto_inv s" by (rule proto_reach [OF assms(1,2)])
  have view: "snap_view (pr_store s) p = Some (rs, v, pol)" and content: "content_ok rs"
    using proto_invD(3) [OF inv] assms(3) by (auto simp: refs_ok_def)
  from evaluate_snapshot [OF proto_invD(1) [OF inv] view content, of freq t0 t1 t2 t] obtain out w' where
    w': "SkRuleEvaluate freq t0 t1 t2 (Some p) t (pr_store s) = Some (out, w')"
      "counted (g_SkRuleStats (pr_store s)) (g_SkRuleStats w')"
    and res: "case find (\<lambda>r. SkRuleMatch r t) rs of
       None \<Rightarrow> out = fallback SkVerdictReasonNoMatch pol \<and> g_RateTable w' = g_RateTable (pr_store s)
     | Some h \<Rightarrow> (\<exists>a. out = decide h a \<and> (r_action h = SkRuleActionRateLimit \<longrightarrow>
         (\<exists>w1 w2. engine_only (pr_store s) w1 \<and> g_RateTable w1 = g_RateTable (pr_store s) \<and>
            SkRateAllow freq t1 h w1 = Some (a, w2)))) \<and> buckets_kept h (pr_store s) w'"
    by blast
  show ?thesis
  proof (cases "find (\<lambda>r. SkRuleMatch r t) rs")
    case None
    then have "\<forall>r\<in>set rs. \<not> SkRuleMatch r t" by (simp add: verdict.find_none)
    with w' res None show ?thesis by auto
  next
    case (Some h)
    with w' res find_winner [OF content Some] show ?thesis by auto
  qed
qed

theorem verdict_correct_witness:
  "\<exists>s out w'. pstep\<^sup>*\<^sup>* (proto_start demo_store) s \<and> g_Current (pr_store s) = None \<and>
     SkRuleEvaluate 1000 5 5 5 (Some 1) zero_tuple (pr_store s) = Some (out, w') \<and>
     v_action out = SkVerdictBlock \<and> v_ruleId out = 7"
proof -
  obtain s where s: "pstep\<^sup>*\<^sup>* (proto_start demo_store) s" "(1, [demo_rule], 1, 0) \<in> set (pr_refs s)"
    "g_Current (pr_store s) = None" using demo_closed by blast
  have hit: "SkRuleMatch demo_rule zero_tuple" unfolding demo_rule_def by code_simp
  have dec: "v_action (decide demo_rule a) = SkVerdictBlock \<and> v_ruleId (decide demo_rule a) = 7" for a
    by (simp add: decide_def demo_rule_def Let_def)
  from verdict_correct [OF demo_store_inv s(1,2), of 1000 5 5 5 zero_tuple] obtain out w' where
    ev: "SkRuleEvaluate 1000 5 5 5 (Some 1) zero_tuple (pr_store s) = Some (out, w')"
    and or: "(\<forall>r\<in>set [demo_rule]. \<not> SkRuleMatch r zero_tuple) \<and>
        out = fallback SkVerdictReasonNoMatch 0 \<and> g_RateTable w' = g_RateTable (pr_store s) \<or>
      (\<exists>h\<in>set [demo_rule]. \<exists>allowed. SkRuleMatch h zero_tuple \<and>
        (\<forall>r\<in>set [demo_rule]. SkRuleMatch r zero_tuple \<and> r \<noteq> h \<longrightarrow> SkRulePrecedes h r) \<and>
        out = decide h allowed \<and> buckets_kept h (pr_store s) w')" by (elim exE conjE) (rule that)
  from or hit obtain a where "out = decide demo_rule a" by auto
  note ev this
  with s(1,3) dec show ?thesis by (intro exI [of _ s] exI [of _ out] exI [of _ w']) simp
qed

end
