(* ===== verification/EventQueue.thy ===== *)
theory EventQueue
  imports RuleStore
begin

text \<open>
  telemetry/event_queue.c and event_queue.h: the telemetry queue, its consumer thread, the
  stop protocol, and the driver's one queue with its ring of consumed records.

  The driver has a single queue; its fields extend the record of the driver's globals, so
  that a queue operation runs on the state of the whole driver. The operations of this
  theory run without interference except where a parameter says what the other threads do:
  \<open>barrier\<close> between the producer gate and the second lock section of a post, \<open>slp\<close> while the
  stopper sleeps. The interleaving of the steps is the subject of \<open>EventProtocol\<close>.
\<close>

section \<open>State\<close>

abbreviation (input) SK_EVENT_PAYLOAD_SIZE :: u32 where "SK_EVENT_PAYLOAD_SIZE \<equiv> 80"

text \<open>\<open>n_counter\<close> is the address of the optional counter.\<close>

record event_node =
  n_type :: u32
  n_payloadSize :: u32
  n_ctx :: u64
  n_counter :: "nat option"
  n_payload :: "u8 list"

text \<open>
  \<open>q_head\<close> is the list behind \<open>q->head\<close>, \<open>None\<close> while the pointer is NULL. \<open>p_counters\<close> holds
  the LONG counters that events point to, \<open>q_doorbell\<close> whether the event is signalled.
\<close>

record evq = store +
  q_head :: "event_node list option"
  q_pending :: u32
  q_capacity :: u32
  q_overflowDropped :: u64
  q_doorbell :: bool
  q_threadObject :: "nat option"
  q_stopping :: u32
  q_producers :: u32
  q_startLock :: u32
  q_posted :: u64
  q_consumed :: u64
  q_dropped :: u64
  p_counters :: "nat \<Rightarrow> u32"

type_synonym 'a sink = "event_node \<Rightarrow> 'a evq_scheme \<Rightarrow> 'a evq_scheme"

definition dec_counter :: "nat option \<Rightarrow> 'a evq_scheme \<Rightarrow> 'a evq_scheme" where
  "dec_counter c w =
     (case c of None \<Rightarrow> w | Some k \<Rightarrow> w\<lparr>p_counters := (p_counters w)(k := p_counters w k - 1)\<rparr>)"

definition call_sink :: "'a sink option \<Rightarrow> 'a sink" where
  "call_sink onEvent n w = (case onEvent of None \<Rightarrow> w | Some f \<Rightarrow> f n w)"

section \<open>Consuming and dropping\<close>

definition shEventNodeConsume :: "'a sink option \<Rightarrow> event_node \<Rightarrow> 'a evq_scheme \<Rightarrow> 'a evq_scheme" where
  "shEventNodeConsume onEvent n w =
     (let w = dec_counter (n_counter n) w;
          w = call_sink onEvent n w
      in w\<lparr>q_consumed := q_consumed w + 1\<rparr>)"

definition shEventDropInPlace ::
    "'a sink option \<Rightarrow> u32 \<Rightarrow> u64 \<Rightarrow> nat option \<Rightarrow> 'a evq_scheme \<Rightarrow> 'a evq_scheme" where
  "shEventDropInPlace onEvent ty ctx counter w =
     (let drop = \<lparr>n_type = ty, n_payloadSize = 0, n_ctx = ctx, n_counter = None, n_payload = []\<rparr>;
          w = dec_counter counter w;
          w = call_sink onEvent drop w
      in w\<lparr>q_dropped := q_dropped w + 1\<rparr>)"

definition shEventPopLocked :: "'a evq_scheme \<Rightarrow> event_node option \<times> 'a evq_scheme" where
  "shEventPopLocked w =
     (case q_head w of
        Some (n # ns) \<Rightarrow> (Some n, w\<lparr>q_head := Some ns, q_pending := q_pending w - 1\<rparr>)
      | _ \<Rightarrow> (None, w))"

section \<open>The producer gate\<close>

definition shEventStoppingRead :: "'a evq_scheme \<Rightarrow> u32" where
  "shEventStoppingRead w = q_stopping w"

definition shEventProducerEnter :: "'a evq_scheme \<Rightarrow> bool \<times> 'a evq_scheme" where
  "shEventProducerEnter w =
     (if q_stopping w \<noteq> 0 then (False, w) else (True, w\<lparr>q_producers := q_producers w + 1\<rparr>))"

definition shEventProducerLeave :: "'a evq_scheme \<Rightarrow> 'a evq_scheme" where
  "shEventProducerLeave w = w\<lparr>q_producers := q_producers w - 1\<rparr>"

definition ShEventQueueInit :: "'a evq_scheme \<Rightarrow> 'a evq_scheme" where
  "ShEventQueueInit w =
     w\<lparr>q_threadObject := None, q_stopping := 0, q_producers := 0, q_startLock := 0,
       q_posted := 0, q_consumed := 0, q_dropped := 0, q_head := Some [], q_pending := 0,
       q_capacity := 0, q_overflowDropped := 0, q_doorbell := False\<rparr>"

section \<open>Posting\<close>

definition queue_full :: "'a evq_scheme \<Rightarrow> bool" where
  "queue_full w \<longleftrightarrow> 0 <s q_capacity w \<and> q_capacity w \<le>s q_pending w"

text \<open>\<open>InsertTailList\<close> and the count, both under the queue lock.\<close>

definition insert_node :: "event_node \<Rightarrow> 'a evq_scheme \<Rightarrow> 'a evq_scheme" where
  "insert_node n w =
     w\<lparr>q_head := map_option (\<lambda>ns. ns @ [n]) (q_head w), q_pending := q_pending w + 1\<rparr>"

text \<open>\<open>alloc\<close> is whether \<open>AllocPool\<close> succeeds.\<close>

definition ShEventPost ::
    "'a sink option \<Rightarrow> bool \<Rightarrow> ('a evq_scheme \<Rightarrow> 'a evq_scheme) \<Rightarrow> u32 \<Rightarrow> u64 \<Rightarrow> nat option
     \<Rightarrow> 'a evq_scheme \<Rightarrow> bool \<times> 'a evq_scheme" where
  "ShEventPost onEvent alloc barrier ty ctx counter w =
     (if q_head w = None then (False, dec_counter counter w)
      else
        let (entered, w) = shEventProducerEnter w in
        if \<not> entered then (False, shEventDropInPlace onEvent ty ctx counter w)
        else
          let w = barrier w in
          if \<not> alloc then (False, shEventDropInPlace onEvent ty ctx counter (shEventProducerLeave w))
          else
            let n = \<lparr>n_type = ty, n_payloadSize = 0, n_ctx = ctx, n_counter = counter, n_payload = []\<rparr> in
            if q_stopping w \<noteq> 0
            then (False, shEventDropInPlace onEvent ty ctx counter (shEventProducerLeave w))
            else if queue_full w
            then let w = shEventDropInPlace onEvent ty ctx counter (shEventProducerLeave w)
                 in (False, w\<lparr>q_overflowDropped := q_overflowDropped w + 1\<rparr>)
            else let w = shEventProducerLeave (insert_node n w)
                 in (True, w\<lparr>q_posted := q_posted w + 1, q_doorbell := True\<rparr>))"

text \<open>
  \<open>record\<close> is \<open>None\<close> for NULL. After the unlock the code reads \<open>stopping\<close> again to classify
  the drop; without interference it is the value the lock section read.
\<close>

definition ShEventPostRecord ::
    "bool \<Rightarrow> ('a evq_scheme \<Rightarrow> 'a evq_scheme) \<Rightarrow> u32 \<Rightarrow> u8 list option \<Rightarrow> u32
     \<Rightarrow> 'a evq_scheme \<Rightarrow> bool \<times> 'a evq_scheme" where
  "ShEventPostRecord alloc barrier ty rcd sz w =
     (case rcd of
        None \<Rightarrow> (False, w)
      | Some bytes \<Rightarrow>
          if q_head w = None \<or> sz > SK_EVENT_PAYLOAD_SIZE then (False, w)
          else
            let (entered, w) = shEventProducerEnter w in
            if \<not> entered then (False, w\<lparr>q_dropped := q_dropped w + 1\<rparr>)
            else
              let w = barrier w in
              if \<not> alloc
              then let w = shEventProducerLeave w in (False, w\<lparr>q_dropped := q_dropped w + 1\<rparr>)
              else
                let n = \<lparr>n_type = ty, n_payloadSize = sz, n_ctx = 0, n_counter = None,
                         n_payload = take (unat sz) bytes\<rparr> in
                if q_stopping w \<noteq> 0 \<or> queue_full w
                then let w = shEventProducerLeave w;
                         w = w\<lparr>q_dropped := q_dropped w + 1\<rparr>
                     in if q_stopping w = 0
                        then (False, w\<lparr>q_overflowDropped := q_overflowDropped w + 1\<rparr>)
                        else (False, w)
                else let w = shEventProducerLeave (insert_node n w)
                     in (True, w\<lparr>q_posted := q_posted w + 1, q_doorbell := True\<rparr>))"

section \<open>Consumer thread, start, drain, stop\<close>

text \<open>
  Pop and consume until the list is empty: the inner loop of the thread, and the body of
  \<open>ShEventDrain\<close>. A sink that posts keeps the loop going; \<open>None\<close> is a loop that does not end.
\<close>

partial_function (option) drain_loop :: "'a sink option \<Rightarrow> 'a evq_scheme \<Rightarrow> 'a evq_scheme option" where
  "drain_loop onEvent w =
     (case shEventPopLocked w of
        (None, w) \<Rightarrow> Some w
      | (Some n, w) \<Rightarrow> drain_loop onEvent (shEventNodeConsume onEvent n w))"

declare drain_loop.simps [code]

definition ShEventDrain :: "'a sink option \<Rightarrow> 'a evq_scheme \<Rightarrow> 'a evq_scheme option" where
  "ShEventDrain onEvent w = (if q_head w = None then Some w else drain_loop onEvent w)"

text \<open>
  \<open>wait\<close> is what the other threads do until \<open>EventWait\<close> returns; the event is auto-reset.
\<close>

partial_function (option) ShEventThreadBody ::
    "'a sink option \<Rightarrow> ('a evq_scheme \<Rightarrow> 'a evq_scheme) \<Rightarrow> 'a evq_scheme \<Rightarrow> 'a evq_scheme option" where
  "ShEventThreadBody onEvent wait w =
     (let w = wait w;
          signaled = q_doorbell w;
          w = w\<lparr>q_doorbell := False\<rparr>
      in if \<not> signaled \<and> shEventStoppingRead w \<noteq> 0 \<and> q_pending w = 0 then Some w
         else do {
           w \<leftarrow> drain_loop onEvent w;
           ShEventThreadBody onEvent wait w
         })"

declare ShEventThreadBody.simps [code]

partial_function (option) start_lock ::
    "('a evq_scheme \<Rightarrow> 'a evq_scheme) \<Rightarrow> 'a evq_scheme \<Rightarrow> 'a evq_scheme option" where
  "start_lock slp w =
     (if q_startLock w = 0 then Some (w\<lparr>q_startLock := 1\<rparr>) else start_lock slp (slp w))"

declare start_lock.simps [code]

text \<open>\<open>create\<close> is \<open>ThreadCreate\<close>: a status, and the thread object on success.\<close>

definition ShEventThreadStart ::
    "('a evq_scheme \<Rightarrow> 'a evq_scheme) \<Rightarrow> ('a evq_scheme \<Rightarrow> ntstatus \<times> nat option \<times> 'a evq_scheme)
     \<Rightarrow> 'a evq_scheme \<Rightarrow> (ntstatus \<times> 'a evq_scheme) option" where
  "ShEventThreadStart slp create w =
     (if q_head w = None then Some (STATUS_INVALID_DEVICE_STATE, w)
      else do {
        w \<leftarrow> start_lock slp w;
        if q_stopping w \<noteq> 0 then Some (STATUS_INVALID_DEVICE_STATE, w\<lparr>q_startLock := 0\<rparr>)
        else if q_threadObject w \<noteq> None then Some (STATUS_SUCCESS, w\<lparr>q_startLock := 0\<rparr>)
        else
          let (st, thr, w) = create w;
              w = (if NT_SUCCESS st then w\<lparr>q_threadObject := thr\<rparr> else w)
          in Some (st, w\<lparr>q_startLock := 0\<rparr>)
      })"

abbreviation SH_EVENT_PRODUCER_WAIT_RETRIES :: nat where
  "SH_EVENT_PRODUCER_WAIT_RETRIES \<equiv> 100"

text \<open>The bounded wait for the producers; the counter is the number of retries left.\<close>

fun wait_producers ::
    "('a evq_scheme \<Rightarrow> 'a evq_scheme) \<Rightarrow> nat \<Rightarrow> 'a evq_scheme \<Rightarrow> bool \<times> 'a evq_scheme" where
  "wait_producers slp 0 w = (q_producers w = 0, w)"
| "wait_producers slp (Suc n) w =
     (if q_producers w = 0 then (True, w) else wait_producers slp n (slp w))"

text \<open>\<open>join\<close> is \<open>ThreadJoin\<close>: the consumer runs to its end, or the join fails.\<close>

definition ShEventThreadStop ::
    "'a sink option \<Rightarrow> ('a evq_scheme \<Rightarrow> 'a evq_scheme) \<Rightarrow> (nat \<Rightarrow> 'a evq_scheme \<Rightarrow> ntstatus \<times> 'a evq_scheme)
     \<Rightarrow> 'a evq_scheme \<Rightarrow> (ntstatus \<times> 'a evq_scheme) option" where
  "ShEventThreadStop onEvent slp join w =
     (if q_head w = None then Some (STATUS_SUCCESS, w)
      else do {
        w \<leftarrow> start_lock slp w;
        let w = w\<lparr>q_stopping := 1\<rparr>;
        let thr = q_threadObject w;
        let w = w\<lparr>q_threadObject := None, q_startLock := 0\<rparr>;
        let (gone, w) = wait_producers slp SH_EVENT_PRODUCER_WAIT_RETRIES w;
        if \<not> gone then Some (SHINKEN_STATUS_TIMEOUT, w)
        else do {
          let w = w\<lparr>q_doorbell := True\<rparr>;
          let (st, w) = (case thr of None \<Rightarrow> (STATUS_SUCCESS, w) | Some t \<Rightarrow> join t w);
          if st \<noteq> STATUS_SUCCESS then Some (st, w)
          else do {
            w \<leftarrow> ShEventDrain onEvent w;
            if q_pending w \<noteq> 0 then Some (SHINKEN_STATUS_TIMEOUT, w) else Some (st, w)
          }
        }
      })"

definition ShEventPending :: "'a evq_scheme \<Rightarrow> u32" where
  "ShEventPending w = q_pending w"

definition ShEventThreadRunning :: "'a evq_scheme \<Rightarrow> bool" where
  "ShEventThreadRunning w \<longleftrightarrow> q_threadObject w \<noteq> None"

section \<open>The driver's telemetry\<close>

abbreviation (input) SK_TELEMETRY_CAPACITY :: u32 where "SK_TELEMETRY_CAPACITY \<equiv> 4096"

abbreviation (input) SK_TELEMETRY_RING :: u32 where "SK_TELEMETRY_RING \<equiv> 1024"

text \<open>The ring: 1024 slots of 80 bytes, the bytes each was last written with, the write position.\<close>

record telemetry = evq +
  g_SkRing :: "u8 list list"
  g_SkRingSize :: "u32 list"
  g_SkRingHead :: u32
  g_SkRingTotal :: u64

definition shTelemetrySink :: "event_node \<Rightarrow> 'a telemetry_scheme \<Rightarrow> 'a telemetry_scheme" where
  "shTelemetrySink n w =
     (if n_payloadSize n = 0 \<or> n_payloadSize n > SK_EVENT_PAYLOAD_SIZE then w
      else
        let h = unat (g_SkRingHead w); k = unat (n_payloadSize n)
        in w\<lparr>g_SkRing := (g_SkRing w)[h := take k (n_payload n) @ drop k (g_SkRing w ! h)],
             g_SkRingSize := (g_SkRingSize w)[h := n_payloadSize n],
             g_SkRingHead := (g_SkRingHead w + 1) mod SK_TELEMETRY_RING,
             g_SkRingTotal := g_SkRingTotal w + 1\<rparr>)"

definition SkTelemetryInit :: "'a telemetry_scheme \<Rightarrow> 'a telemetry_scheme" where
  "SkTelemetryInit w = (ShEventQueueInit w)\<lparr>q_capacity := SK_TELEMETRY_CAPACITY\<rparr>"

definition SkTelemetryStart ::
    "('a telemetry_scheme \<Rightarrow> 'a telemetry_scheme)
     \<Rightarrow> ('a telemetry_scheme \<Rightarrow> ntstatus \<times> nat option \<times> 'a telemetry_scheme)
     \<Rightarrow> 'a telemetry_scheme \<Rightarrow> (ntstatus \<times> 'a telemetry_scheme) option" where
  "SkTelemetryStart slp create w = ShEventThreadStart slp create w"

definition SkTelemetryStop ::
    "('a telemetry_scheme \<Rightarrow> 'a telemetry_scheme)
     \<Rightarrow> (nat \<Rightarrow> 'a telemetry_scheme \<Rightarrow> ntstatus \<times> 'a telemetry_scheme)
     \<Rightarrow> 'a telemetry_scheme \<Rightarrow> 'a telemetry_scheme option" where
  "SkTelemetryStop slp join w = map_option snd (ShEventThreadStop (Some shTelemetrySink) slp join w)"

definition SkTelemetryPost ::
    "bool \<Rightarrow> ('a telemetry_scheme \<Rightarrow> 'a telemetry_scheme) \<Rightarrow> u32 \<Rightarrow> u64 \<Rightarrow> nat option
     \<Rightarrow> 'a telemetry_scheme \<Rightarrow> bool \<times> 'a telemetry_scheme" where
  "SkTelemetryPost alloc barrier ty ctx counter w =
     ShEventPost (Some shTelemetrySink) alloc barrier ty ctx counter w"

definition SkTelemetryPostRecord ::
    "bool \<Rightarrow> ('a telemetry_scheme \<Rightarrow> 'a telemetry_scheme) \<Rightarrow> u32 \<Rightarrow> u8 list option \<Rightarrow> u32
     \<Rightarrow> 'a telemetry_scheme \<Rightarrow> bool \<times> 'a telemetry_scheme" where
  "SkTelemetryPostRecord alloc barrier ty rcd sz w = ShEventPostRecord alloc barrier ty rcd sz w"

definition SkTelemetryStats :: "'a telemetry_scheme \<Rightarrow> u64 \<times> u64 \<times> u64 \<times> u64" where
  "SkTelemetryStats w = (q_posted w, q_consumed w, q_dropped w, q_overflowDropped w)"

text \<open>
  The result is the count and the bytes written to \<open>out\<close>, one entry per record; \<open>out_ok\<close> is
  \<open>out != NULL\<close>.
\<close>

definition SkTelemetryFlush ::
    "bool \<Rightarrow> u32 \<Rightarrow> u32 \<Rightarrow> 'a telemetry_scheme \<Rightarrow> u32 \<times> u8 list list" where
  "SkTelemetryFlush out_ok maxRecords recordSize w =
     (if \<not> out_ok \<or> recordSize > SK_EVENT_PAYLOAD_SIZE \<or> recordSize = 0 then (0, [])
      else
        let avail = (if g_SkRingTotal w < 1024 then ucast (g_SkRingTotal w) else SK_TELEMETRY_RING);
            n = (if avail < maxRecords then avail else maxRecords);
            start = (g_SkRingHead w + SK_TELEMETRY_RING - n) mod SK_TELEMETRY_RING
        in (n, map (\<lambda>i. take (unat recordSize) (g_SkRing w ! unat ((start + of_nat i) mod SK_TELEMETRY_RING)))
                 [0..<unat n]))"


section \<open>Draining ends and empties the queue\<close>

text \<open>A sink that leaves the list alone; the driver's sink is one.\<close>

definition sink_quiet :: "'a sink option \<Rightarrow> bool" where
  "sink_quiet onEvent \<longleftrightarrow> (\<forall>n w. q_head (call_sink onEvent n w) = q_head w \<and>
     q_pending (call_sink onEvent n w) = q_pending w \<and>
     q_stopping (call_sink onEvent n w) = q_stopping w)"

lemma consume_quiet:
  assumes "sink_quiet onEvent"
  shows "q_head (shEventNodeConsume onEvent n w) = q_head w"
    and "q_pending (shEventNodeConsume onEvent n w) = q_pending w"
    and "q_stopping (shEventNodeConsume onEvent n w) = q_stopping w"
  using assms by (simp_all add: shEventNodeConsume_def sink_quiet_def dec_counter_def Let_def split: option.split)

definition pop_consume :: "'a sink option \<Rightarrow> event_node \<Rightarrow> 'a evq_scheme \<Rightarrow> 'a evq_scheme" where
  "pop_consume onEvent n w =
     shEventNodeConsume onEvent n (w\<lparr>q_head := map_option tl (q_head w), q_pending := q_pending w - 1\<rparr>)"

lemma drain_loop_fold:
  assumes "sink_quiet onEvent" and "q_head w = Some ns"
  shows "drain_loop onEvent w = Some (fold (pop_consume onEvent) ns w)"
  using assms(2)
proof (induction ns arbitrary: w)
  case Nil
  then show ?case by (simp add: drain_loop.simps shEventPopLocked_def)
next
  case (Cons n ns)
  have "q_head (pop_consume onEvent n w) = Some ns"
    using Cons.prems by (simp add: pop_consume_def consume_quiet(1) [OF assms(1)])
  note IH = Cons.IH [OF this]
  have "pop_consume onEvent n w = shEventNodeConsume onEvent n (w\<lparr>q_head := Some ns, q_pending := q_pending w - 1\<rparr>)"
    using Cons.prems by (simp add: pop_consume_def)
  with IH Cons.prems show ?case
    by (subst drain_loop.simps) (simp add: shEventPopLocked_def)
qed

lemma fold_pop_consume:
  assumes "sink_quiet onEvent" and "q_head w = Some ns"
  shows "q_head (fold (pop_consume onEvent) ns w) = Some []"
    and "q_pending (fold (pop_consume onEvent) ns w) = q_pending w - of_nat (length ns)"
    and "q_stopping (fold (pop_consume onEvent) ns w) = q_stopping w"
  using assms(2)
proof (induction ns arbitrary: w)
  case (Cons n ns)
  {
    case 1
    with Cons.IH(1) show ?case by (simp add: pop_consume_def consume_quiet [OF assms(1)])
  next
    case 2
    with Cons.IH(2) show ?case
      by (simp add: pop_consume_def consume_quiet [OF assms(1)] algebra_simps)
  next
    case 3
    with Cons.IH(3) show ?case by (simp add: pop_consume_def consume_quiet [OF assms(1)])
  }
qed simp_all

section \<open>The ring\<close>

lemma telemetry_sink_quiet: "sink_quiet (Some shTelemetrySink)"
  by (simp add: sink_quiet_def call_sink_def shTelemetrySink_def Let_def)

text \<open>
  The ring against the list of all records ever consumed: the newest 1024 are in their
  slots.
\<close>

definition ring_rep :: "'a telemetry_scheme \<Rightarrow> u8 list list \<Rightarrow> bool" where
  "ring_rep w hist \<longleftrightarrow>
     length (g_SkRing w) = 1024 \<and> (\<forall>b \<in> set (g_SkRing w). length b = 80) \<and>
     unat (g_SkRingHead w) = length hist mod 1024 \<and> unat (g_SkRingTotal w) = length hist \<and>
     (\<forall>b \<in> set hist. length b = 80) \<and>
     (\<forall>j < length hist. length hist \<le> j + 1024 \<longrightarrow> g_SkRing w ! (j mod 1024) = hist ! j)"

lemma ring_sink:
  assumes "ring_rep w hist" and "n_payloadSize n = SK_EVENT_PAYLOAD_SIZE" and "length (n_payload n) = 80"
    and "length hist + 1 < 2 ^ 64"
  shows "ring_rep (shTelemetrySink n w) (hist @ [n_payload n])"
proof -
  let ?h = "length hist mod 1024"
  have h: "unat (g_SkRingHead w) = ?h" and total: "unat (g_SkRingTotal w) = length hist"
    and len: "length (g_SkRing w) = 1024" using assms(1) by (auto simp: ring_rep_def)
  have "length (g_SkRing w ! ?h) = 80" using assms(1) len by (simp add: ring_rep_def)
  then have eq: "shTelemetrySink n w =
      w\<lparr>g_SkRing := (g_SkRing w)[?h := n_payload n], g_SkRingSize := (g_SkRingSize w)[?h := 80],
        g_SkRingHead := (g_SkRingHead w + 1) mod 1024, g_SkRingTotal := g_SkRingTotal w + 1\<rparr>"
    using assms(2,3) by (simp add: shTelemetrySink_def h Let_def)
  have head: "unat ((g_SkRingHead w + 1) mod 1024) = (length hist + 1) mod 1024"
    using h by (simp add: unat_mod unat_word_ariths mod_simps)
  have tot: "unat (g_SkRingTotal w + 1) = length hist + 1"
    using total assms(4) by (simp add: unat_word_ariths)
  have "(g_SkRing w)[?h := n_payload n] ! (j mod 1024) = (hist @ [n_payload n]) ! j"
    if "j < length hist + 1" "length hist + 1 \<le> j + 1024" for j
  proof (cases "j = length hist")
    case True
    then show ?thesis by (simp add: len)
  next
    case False
    with that have j: "j < length hist" "length hist < j + 1024" by simp_all
    then have "j mod 1024 \<noteq> ?h"
      by (metis add_diff_inverse_nat dvd_imp_le less_or_eq_imp_le linorder_not_less mod_eq_dvd_iff_nat
          nat_add_left_cancel_less zero_less_diff)
    with j assms(1) show ?thesis by (simp add: ring_rep_def nth_append)
  qed
  moreover have "\<forall>b \<in> set ((g_SkRing w)[?h := n_payload n]). length b = 80"
    using assms(1,3) by (auto simp: ring_rep_def dest!: set_update_subset_insert [THEN subsetD])
  ultimately show ?thesis
    using assms(1,3) head tot by (simp add: ring_rep_def eq len)
qed

lemma ring_slot:
  assumes "ring_rep w hist" and "n \<le> min (length hist) 1024" and "i < n"
  shows "g_SkRing w ! ((length hist - n + i) mod 1024) = hist ! (length hist - n + i)"
    and "length (hist ! (length hist - n + i)) = 80"
  using assms by (auto simp: ring_rep_def)

lemma ring_index:
  fixes head :: u32
  assumes "unat head = len mod 1024" and "n \<le> min len 1024" and "i < n"
  shows "unat (((head + 1024 - of_nat n) mod 1024 + of_nat i) mod 1024) = (len - n + i) mod 1024"
proof -
  have n: "unat (of_nat n :: u32) = n" "unat (of_nat i :: u32) = i"
    using assms(2,3) by (simp_all add: unat_of_nat take_bit_nat_eq_self)
  have le: "of_nat n \<le> head + 1024" and h: "unat (head + 1024) = len mod 1024 + 1024"
    using assms(1,2) n(1) by (auto simp: word_le_nat_alt unat_word_ariths)
  have a: "unat ((head + 1024 - of_nat n) mod 1024) = (len mod 1024 + 1024 - n) mod 1024"
    using n(1) h le by (simp add: unat_mod unat_sub)
  have "(len mod 1024 + 1024 - n) mod 1024 < 1024" by simp
  then have "unat (((head + 1024 - of_nat n) mod 1024 + of_nat i) mod 1024) =
      ((len mod 1024 + 1024 - n) mod 1024 + i) mod 1024"
  proof -
    let ?m = "(len mod 1024 + 1024 - n) mod 1024"
    have "?m + i < 1024 + 1024" using \<open>?m < 1024\<close> assms(2,3) by (intro add_strict_mono) simp_all
    then show ?thesis using a n(2) by (simp add: unat_mod unat_word_ariths)
  qed
  also have "\<dots> = (len mod 1024 + (1024 - n) + i) mod 1024"
    using assms(2) by (simp add: mod_simps)
  also have "\<dots> = (len mod 1024 + (1024 - n + i)) mod 1024" by (simp add: add.assoc)
  also have "\<dots> = (len + (1024 - n) + i) mod 1024" by (simp only: mod_add_left_eq add.assoc)
  also have "len + (1024 - n) + i = (len - n + i) + 1024" using assms(2) by simp
  finally show ?thesis by simp
qed

lemma ring_flush:
  assumes "ring_rep w hist" and "length hist < 2 ^ 64"
    and "n = min (min (length hist) 1024) (unat maxRecords)"
  shows "SkTelemetryFlush True maxRecords SK_EVENT_PAYLOAD_SIZE w =
    (of_nat n, drop (length hist - n) hist)"
proof -
  have head: "unat (g_SkRingHead w) = length hist mod 1024" and total: "unat (g_SkRingTotal w) = length hist"
    using assms(1) by (auto simp: ring_rep_def)
  let ?avail = "if g_SkRingTotal w < 1024 then ucast (g_SkRingTotal w) else SK_TELEMETRY_RING"
  have avail: "unat ?avail = min (length hist) 1024"
    using total by (auto simp: word_less_nat_alt unsigned_ucast_eq take_bit_word_eq_self unsigned_take_bit_eq take_bit_nat_eq_self)
  have nat: "unat (if ?avail < maxRecords then ?avail else maxRecords) = n"
    using avail assms(3) by (simp add: word_less_nat_alt min_def split: if_splits)
  have nw: "x = of_nat n" if "unat x = n" for x :: u32
    using that by auto
  have "map (\<lambda>i. take 80 (g_SkRing w !
        unat (((g_SkRingHead w + SK_TELEMETRY_RING - of_nat n) mod SK_TELEMETRY_RING + of_nat i)
          mod SK_TELEMETRY_RING))) [0..<n] =
      map (\<lambda>i. hist ! (length hist - n + i)) [0..<n]"
  proof (rule map_cong [OF refl])
    fix i
    assume "i \<in> set [0..<n]"
    then have i: "i < n" and n: "n \<le> min (length hist) 1024"
      by (simp, simp only: assms(3) min.cobounded1)
    show "take 80 (g_SkRing w !
        unat (((g_SkRingHead w + SK_TELEMETRY_RING - of_nat n) mod SK_TELEMETRY_RING + of_nat i)
          mod SK_TELEMETRY_RING)) = hist ! (length hist - n + i)"
      unfolding ring_index [OF head n i] ring_slot(1) [OF assms(1) n i]
      using ring_slot(2) [OF assms(1) n i] by simp
  qed
  also have "\<dots> = drop (length hist - n) hist"
    using assms(3) by (intro nth_equalityI) simp_all
  finally show ?thesis
    unfolding SkTelemetryFlush_def Let_def nw [OF nat] using nat nw [OF nat] by simp
qed


section \<open>From post to flush\<close>

definition record_node :: "u32 \<Rightarrow> u8 list \<Rightarrow> event_node" where
  "record_node ty r = \<lparr>n_type = ty, n_payloadSize = SK_EVENT_PAYLOAD_SIZE, n_ctx = 0, n_counter = None, n_payload = r\<rparr>"

definition post_record :: "u32 \<Rightarrow> u8 list \<Rightarrow> 'a telemetry_scheme \<Rightarrow> 'a telemetry_scheme" where
  "post_record ty r w = snd (SkTelemetryPostRecord True id ty (Some r) SK_EVENT_PAYLOAD_SIZE w)"

text \<open>A running queue that holds \<open>ns\<close>.\<close>

definition running :: "event_node list \<Rightarrow> 'a telemetry_scheme \<Rightarrow> bool" where
  "running ns w \<longleftrightarrow> q_head w = Some ns \<and> q_pending w = of_nat (length ns) \<and> length ns \<le> 4096 \<and>
     q_stopping w = 0 \<and> q_capacity w = SK_TELEMETRY_CAPACITY"

lemma running_full:
  assumes "running ns w"
  shows "queue_full w \<longleftrightarrow> length ns = 4096"
proof -
  have "unat (of_nat (length ns) :: u32) = length ns"
    using assms by (simp add: running_def unat_of_nat take_bit_nat_eq_self)
  then have "sint (of_nat (length ns) :: u32) = int (length ns)"
    using assms by (simp add: running_def sint_u32 del: of_nat_unat)
  then show ?thesis
    using assms by (auto simp: queue_full_def running_def word_sle_eq word_sless_alt)
qed

lemma queue_full_producers [simp]: "queue_full (w\<lparr>q_producers := p\<rparr>) = queue_full w"
  by (simp add: queue_full_def)

lemma post_record_free:
  assumes "running ns w" and "length ns < 4096"
  shows "post_record ty r w =
    w\<lparr>q_head := Some (ns @ [record_node ty (take 80 r)]), q_pending := q_pending w + 1,
      q_posted := q_posted w + 1, q_doorbell := True\<rparr>"
  using assms running_full [OF assms(1)]
  by (simp add: post_record_def SkTelemetryPostRecord_def ShEventPostRecord_def running_def
      shEventProducerEnter_def shEventProducerLeave_def insert_node_def record_node_def)

lemma post_record_full:
  assumes "running ns w" and "length ns = 4096"
  shows "post_record ty r w =
    w\<lparr>q_dropped := q_dropped w + 1, q_overflowDropped := q_overflowDropped w + 1\<rparr>"
  using assms running_full [OF assms(1)]
  by (simp add: post_record_def SkTelemetryPostRecord_def ShEventPostRecord_def running_def
      shEventProducerEnter_def shEventProducerLeave_def)

text \<open>What a burst of posts leaves: the records that fit are queued, the newest others dropped.\<close>

lemma post_records:
  assumes "running ns w" and "length ns + length rs < 2 ^ 64"
  defines "kept \<equiv> take (4096 - length ns) rs"
  shows "running (ns @ map (\<lambda>r. record_node ty (take 80 r)) kept) (fold (post_record ty) rs w) \<and>
    g_SkRing (fold (post_record ty) rs w) = g_SkRing w \<and>
    g_SkRingHead (fold (post_record ty) rs w) = g_SkRingHead w \<and>
    g_SkRingTotal (fold (post_record ty) rs w) = g_SkRingTotal w \<and>
    q_posted (fold (post_record ty) rs w) = q_posted w + of_nat (length kept) \<and>
    q_consumed (fold (post_record ty) rs w) = q_consumed w \<and>
    q_overflowDropped (fold (post_record ty) rs w) = q_overflowDropped w + of_nat (length rs - length kept)"
  using assms(1) unfolding kept_def
proof (induction rs arbitrary: ns w)
  case (Cons r rs)
  have le: "length ns \<le> 4096" using Cons.prems by (simp add: running_def)
  show ?case
  proof (cases "length ns = 4096")
    case True
    let ?w = "post_record ty r w"
    have "running ns ?w" using Cons.prems post_record_full [OF Cons.prems True] by (simp add: running_def)
    from Cons.IH [OF this] show ?thesis
      by (simp add: True post_record_full [OF Cons.prems True] algebra_simps)
  next
    case False
    with le have lt: "length ns < 4096" by simp
    let ?w = "post_record ty r w" and ?n = "record_node ty (take 80 r)"
    have "running (ns @ [?n]) ?w"
      using Cons.prems lt by (simp add: running_def post_record_free [OF Cons.prems lt])
    have m: "4096 - length ns = Suc (4095 - length ns)" using lt by simp
    from Cons.IH [OF \<open>running (ns @ [?n]) ?w\<close>] show ?thesis
      by (simp add: m post_record_free [OF Cons.prems lt] algebra_simps)
  qed
qed simp

text \<open>What draining a queue of records leaves.\<close>

lemma drain_records:
  assumes "q_head w = Some (map (record_node ty) rs)" and "ring_rep w hist"
    and "\<forall>r \<in> set rs. length r = 80" and "length hist + length rs < 2 ^ 64"
  shows "ring_rep (fold (pop_consume (Some shTelemetrySink)) (map (record_node ty) rs) w) (hist @ rs) \<and>
    q_consumed (fold (pop_consume (Some shTelemetrySink)) (map (record_node ty) rs) w) =
      q_consumed w + of_nat (length rs)"
  using assms
proof (induction rs arbitrary: w hist)
  case (Cons r rs)
  let ?w = "pop_consume (Some shTelemetrySink) (record_node ty r) w"
  let ?v = "w\<lparr>q_head := map_option tl (q_head w), q_pending := q_pending w - 1\<rparr>"
  have eq: "?w = (shTelemetrySink (record_node ty r) ?v)\<lparr>q_consumed := q_consumed w + 1\<rparr>"
    by (simp add: pop_consume_def shEventNodeConsume_def call_sink_def dec_counter_def record_node_def
        shTelemetrySink_def Let_def)
  have "ring_rep ?v hist" using Cons.prems(2) by (simp add: ring_rep_def)
  then have "ring_rep (shTelemetrySink (record_node ty r) ?v) (hist @ [r])"
    using ring_sink [of ?v hist "record_node ty r"] Cons.prems(3,4) by (simp add: record_node_def)
  then have rep: "ring_rep ?w (hist @ [r])" by (simp add: eq ring_rep_def)
  have head: "q_head ?w = Some (map (record_node ty) rs)"
    using Cons.prems(1) by (simp add: eq shTelemetrySink_def Let_def)
  have "q_consumed ?w = q_consumed w + 1" by (simp add: eq)
  with Cons.IH [OF head rep] Cons.prems(3,4) show ?case by (simp add: algebra_simps)
qed simp


section \<open>The image\<close>

text \<open>The static data of the loaded image: zeros.\<close>

definition image_store :: store where
  "image_store = engine.extend image_engine
     \<lparr>p_next = 0, p_snaps = (\<lambda>_. None), p_arrays = (\<lambda>_. None), g_Current = None,
      g_RollbackSlot = None, g_RetireList = [], g_WriterBusy = 0, g_StoreInited = False,
      g_StoreClosed = False\<rparr>"

definition image_evq :: evq where
  "image_evq = store.extend image_store
     \<lparr>q_head = None, q_pending = 0, q_capacity = 0, q_overflowDropped = 0, q_doorbell = False,
      q_threadObject = None, q_stopping = 0, q_producers = 0, q_startLock = 0, q_posted = 0,
      q_consumed = 0, q_dropped = 0, p_counters = (\<lambda>_. 0)\<rparr>"

definition image_telemetry :: telemetry where
  "image_telemetry = evq.extend image_evq
     \<lparr>g_SkRing = replicate 1024 (replicate 80 0), g_SkRingSize = replicate 1024 0,
      g_SkRingHead = 0, g_SkRingTotal = 0\<rparr>"

lemma image_ring: "ring_rep (SkTelemetryInit image_telemetry) []"
  by (simp add: ring_rep_def SkTelemetryInit_def ShEventQueueInit_def image_telemetry_def evq.defs)

lemma image_running: "running [] (SkTelemetryInit image_telemetry)"
  by (simp add: running_def SkTelemetryInit_def ShEventQueueInit_def)

text \<open>C29: from post to flush. A running queue takes the posted records in order up to its
  capacity of 4096 and drops the newest beyond it, counting them; the consumer then empties the
  queue, and a flush returns, oldest first, the newest records consumed in the life of the ring:
  at most 1024 and at most as many as asked for, none lost, none duplicated.\<close>

theorem telemetry_recent:
  assumes "running [] w" and "ring_rep w hist" and "\<forall>r \<in> set rs. length r = 80"
    and "length hist + length rs < 2 ^ 64"
    and n: "n = min (min (length (hist @ take 4096 rs)) 1024) (unat maxRecords)"
  shows "\<exists>w'. drain_loop (Some shTelemetrySink) (fold (post_record ty) rs w) = Some w' \<and>
    running [] w' \<and>
    SkTelemetryFlush True maxRecords SK_EVENT_PAYLOAD_SIZE w' =
      (of_nat n, drop (length (hist @ take 4096 rs) - n) (hist @ take 4096 rs)) \<and>
    q_posted w' = q_posted w + of_nat (min (length rs) 4096) \<and>
    q_consumed w' = q_consumed w + of_nat (min (length rs) 4096) \<and>
    q_overflowDropped w' = q_overflowDropped w + of_nat (length rs - 4096)"
proof -
  let ?kept = "take 4096 rs" and ?w = "fold (post_record ty) rs w" and ?S = "Some shTelemetrySink"
  let ?w' = "fold (pop_consume ?S) (map (record_node ty) ?kept) ?w"
  have same: "map (\<lambda>r. record_node ty (take 80 r)) ?kept = map (record_node ty) ?kept"
    using assms(3) by (auto dest: in_set_takeD)
  note posted = post_records [OF assms(1), of rs ty, simplified, unfolded same]
  have posts: "running (map (record_node ty) ?kept) ?w" "ring_rep ?w hist"
    using posted assms(2,4) by (simp_all add: ring_rep_def)
  then have head: "q_head ?w = Some (map (record_node ty) ?kept)" by (simp add: running_def)
  have "ring_rep ?w' (hist @ ?kept) \<and> q_consumed ?w' = q_consumed ?w + of_nat (length ?kept)"
    using assms(3,4) by (intro drain_records head posts(2)) (auto dest: in_set_takeD)
  moreover have "q_posted ?w' = q_posted ?w \<and> q_overflowDropped ?w' = q_overflowDropped ?w \<and>
      q_capacity ?w' = q_capacity ?w" for ns
    by (rule fold_invariant [of _ "\<lambda>_. True" "\<lambda>v. q_posted v = q_posted ?w \<and>
          q_overflowDropped v = q_overflowDropped ?w \<and> q_capacity v = q_capacity ?w"])
      (auto simp: pop_consume_def shEventNodeConsume_def call_sink_def dec_counter_def
        shTelemetrySink_def Let_def split: option.split)
  moreover note fold_pop_consume [OF telemetry_sink_quiet head]
  moreover note drain_loop_fold [OF telemetry_sink_quiet head]
  moreover have "(of_nat (length rs) - of_nat (min (length rs) 4096) :: u64) = of_nat (length rs - 4096)"
    by (cases "length rs \<le> 4096") (simp_all add: of_nat_diff min_def)
  ultimately show ?thesis
    using posts(1) posted assms(4)
    by (intro exI [of _ ?w'] conjI ring_flush [OF _ _ n]) (simp_all add: running_def min.commute)
qed

theorem telemetry_recent_witness:
  "\<exists>w'. drain_loop (Some shTelemetrySink)
       (fold (post_record 1) [replicate 80 5, replicate 80 6, replicate 80 7] (SkTelemetryInit image_telemetry)) = Some w' \<and>
     SkTelemetryFlush True 2 SK_EVENT_PAYLOAD_SIZE w' = (2, [replicate 80 6, replicate 80 7])"
proof -
  have "2 = min (min (length ([] @ take 4096 [replicate 80 5, replicate 80 6, replicate 80 7])) 1024) (unat (2 :: u32))"
    by simp
  from telemetry_recent [OF image_running image_ring _ _ this, of 1] show ?thesis by auto
qed


section \<open>The stop protocol\<close>

definition queue_ok :: "'a evq_scheme \<Rightarrow> bool" where
  "queue_ok w \<longleftrightarrow> (\<exists>ns. q_head w = Some ns \<and> q_pending w = of_nat (length ns)) \<and> q_stopping w \<noteq> 0"

lemma wait_producers_ok:
  assumes "\<And>w. queue_ok w \<Longrightarrow> queue_ok (slp w)" and "queue_ok w"
  shows "queue_ok (snd (wait_producers slp n w))"
  using assms(2) by (induction n arbitrary: w) (simp_all add: assms(1))

lemma drain_ok:
  assumes "sink_quiet onEvent" and "queue_ok w"
  shows "\<exists>w'. ShEventDrain onEvent w = Some w' \<and> q_head w' = Some [] \<and> q_pending w' = 0 \<and> q_stopping w' \<noteq> 0"
proof -
  obtain ns where ns: "q_head w = Some ns" "q_pending w = of_nat (length ns)" "q_stopping w \<noteq> 0"
    using assms(2) by (auto simp: queue_ok_def)
  then show ?thesis
    using drain_loop_fold [OF assms(1) ns(1)] fold_pop_consume [OF assms(1) ns(1)]
    by (simp add: ShEventDrain_def)
qed

lemma queue_ok_update [simp]:
  "queue_ok (w\<lparr>q_doorbell := d\<rparr>) = queue_ok w"
  "queue_ok (w\<lparr>q_threadObject := t, q_startLock := l\<rparr>) = queue_ok w"
  by (simp_all add: queue_ok_def)

text \<open>C30: the stop protocol ends, whatever the other threads do while it sleeps and whatever the join
  answers, as long as they keep the queue well-formed and never clear the stop flag; the flag is
  set when it returns, and if it reports success the queue is empty. From then on a post is
  refused: the event is released in place and nothing is queued.\<close>

theorem stop_complete:
  fixes w :: "'a evq_scheme"
  assumes "sink_quiet onEvent"
    and "\<And>w. queue_ok w \<Longrightarrow> queue_ok (slp w)"
    and "\<And>t w. queue_ok w \<Longrightarrow> queue_ok (snd (join t w))"
    and "q_head w = Some ns" and "q_pending w = of_nat (length ns)" and "q_startLock w = 0"
  shows "\<exists>st w'. ShEventThreadStop onEvent slp join w = Some (st, w') \<and> q_stopping w' \<noteq> 0 \<and>
    (st = STATUS_SUCCESS \<longrightarrow> q_head w' = Some [] \<and> q_pending w' = 0) \<and>
    (\<forall>alloc barrier ty ctx counter. ShEventPost onEvent alloc barrier ty ctx counter w' =
       (False, shEventDropInPlace onEvent ty ctx counter w'))"
proof -
  let ?w0 = "w\<lparr>q_stopping := 1, q_threadObject := None, q_startLock := 0\<rparr>"
  have ok0: "queue_ok ?w0" using assms(4,5) by (simp add: queue_ok_def)
  obtain gone w1 where wp: "wait_producers slp SH_EVENT_PRODUCER_WAIT_RETRIES ?w0 = (gone, w1)"
    by fastforce
  with wait_producers_ok [of slp, OF assms(2) ok0, of SH_EVENT_PRODUCER_WAIT_RETRIES]
  have ok1: "queue_ok w1" by simp
  have refused: "ShEventPost onEvent alloc barrier ty ctx counter v =
      (False, shEventDropInPlace onEvent ty ctx counter v)" if "queue_ok v" for alloc barrier ty ctx counter v
    using that by (auto simp: ShEventPost_def queue_ok_def shEventProducerEnter_def)
  define r where "r = (case q_threadObject w of None \<Rightarrow> (STATUS_SUCCESS, w1\<lparr>q_doorbell := True\<rparr>)
    | Some t \<Rightarrow> join t (w1\<lparr>q_doorbell := True\<rparr>))"
  have ok2: "queue_ok (snd r)" using ok1 assms(3) by (auto simp: r_def split: option.split)
  obtain w3 where drain: "ShEventDrain onEvent (snd r) = Some w3" and w3: "q_head w3 = Some []"
      "q_pending w3 = 0" "q_stopping w3 \<noteq> 0"
    using drain_ok [OF assms(1) ok2] by (elim exE conjE) (rule that)
  have ok3: "queue_ok w3" using w3 by (simp add: queue_ok_def)
  have lock: "start_lock slp w = Some (w\<lparr>q_startLock := 1\<rparr>)"
    using assms(6) by (subst start_lock.simps) simp
  have "ShEventThreadStop onEvent slp join w =
      (if \<not> gone then Some (SHINKEN_STATUS_TIMEOUT, w1)
       else if fst r \<noteq> STATUS_SUCCESS then Some r else Some (fst r, w3))"
    using wp drain w3(2) assms(4)
    by (cases "q_threadObject w") (simp_all add: ShEventThreadStop_def lock r_def case_prod_unfold)
  then show ?thesis
    using ok1 ok2 ok3 w3 refused by (cases r) (auto simp: queue_ok_def split: if_splits)
qed

theorem stop_complete_witness:
  "\<exists>st w'. ShEventThreadStop (Some shTelemetrySink) id (\<lambda>_ w. (STATUS_SUCCESS, w))
      (post_record 1 (replicate 80 5) (SkTelemetryInit image_telemetry)) = Some (st, w') \<and> q_stopping w' \<noteq> 0"
proof -
  let ?w = "post_record 1 (replicate 80 5) (SkTelemetryInit image_telemetry)"
  have "q_head ?w = Some [record_node 1 (replicate 80 5)]" "q_pending ?w = of_nat 1" "q_startLock ?w = 0"
    by (simp_all add: post_record_free [OF image_running])
      (simp_all add: SkTelemetryInit_def ShEventQueueInit_def)
  with stop_complete [OF telemetry_sink_quiet, of id "\<lambda>_ w. (STATUS_SUCCESS, w)" ?w]
  show ?thesis by fastforce
qed

end
