(* ===== verification/EventProtocol.thy ===== *)
theory EventProtocol
  imports EventQueue
begin

text \<open>
  The stop protocol of telemetry/event_queue.c with any number of producers, the consumer
  thread and the stopper interleaved step by step. A step is one atomic access or one queue
  lock section; where Stop's write of \<open>stopping\<close> can fall inside a lock section (it is not
  made under the queue lock) the section is two steps and \<open>ev_lock\<close> is held between them.

  The producers are anonymous: \<open>ev_pcs\<close> is the multiset of their program counters, a post
  adds one and its end removes it. \<open>ev_sent\<close> and \<open>ev_released\<close> are ghosts: the events whose
  post began, and those whose reference was released by a consume or a drop.
\<close>

datatype producer_pc =
    Gate event_node      \<comment> \<open>in Enter, lock held, has read stopping = 0\<close>
  | Inside event_node    \<comment> \<open>counted in producers, before the second lock section\<close>
  | Checked event_node   \<comment> \<open>in the second section, lock held, has read stopping = 0\<close>
  | Queued               \<comment> \<open>has enqueued and unlocked, before Leave\<close>
  | Leaving event_node   \<comment> \<open>gave up after Enter, before Leave\<close>
  | Dropping event_node  \<comment> \<open>about to release in place\<close>

datatype stop_pc = StopIdle | StopSet | StopGone | StopJoined | StopConsuming event_node | StopDone

record evproto =
  ev_w :: evq
  ev_lock :: bool
  ev_pcs :: "producer_pc multiset"
  ev_stop :: stop_pc
  ev_alive :: bool
  ev_cons :: "event_node option"
  ev_sent :: "event_node multiset"
  ev_released :: "event_node multiset"

inductive ev_step :: "evproto \<Rightarrow> evproto \<Rightarrow> bool" where
  enter_stopped: "\<not> ev_lock s \<Longrightarrow> q_stopping (ev_w s) \<noteq> 0 \<Longrightarrow>
    ev_step s (s\<lparr>ev_pcs := add_mset (Dropping e) (ev_pcs s), ev_sent := add_mset e (ev_sent s)\<rparr>)"
| enter_open: "\<not> ev_lock s \<Longrightarrow> q_stopping (ev_w s) = 0 \<Longrightarrow> size (ev_pcs s) < 0x7FFFFFFF \<Longrightarrow>
    ev_step s (s\<lparr>ev_lock := True, ev_pcs := add_mset (Gate e) (ev_pcs s), ev_sent := add_mset e (ev_sent s)\<rparr>)"
| enter_count: "ev_pcs s = add_mset (Gate e) M \<Longrightarrow>
    ev_step s (s\<lparr>ev_w := (ev_w s)\<lparr>q_producers := q_producers (ev_w s) + 1\<rparr>,
                 ev_lock := False, ev_pcs := add_mset (Inside e) M\<rparr>)"
| alloc_fails: "ev_pcs s = add_mset (Inside e) M \<Longrightarrow> ev_step s (s\<lparr>ev_pcs := add_mset (Leaving e) M\<rparr>)"
| recheck_refuses: "\<not> ev_lock s \<Longrightarrow> ev_pcs s = add_mset (Inside e) M \<Longrightarrow>
    q_stopping (ev_w s) \<noteq> 0 \<or> queue_full (ev_w s) \<Longrightarrow>
    ev_step s (s\<lparr>ev_pcs := add_mset (Leaving e) M\<rparr>)"
| recheck_passes: "\<not> ev_lock s \<Longrightarrow> ev_pcs s = add_mset (Inside e) M \<Longrightarrow>
    q_stopping (ev_w s) = 0 \<Longrightarrow> \<not> queue_full (ev_w s) \<Longrightarrow>
    ev_step s (s\<lparr>ev_lock := True, ev_pcs := add_mset (Checked e) M\<rparr>)"
| enqueue: "ev_pcs s = add_mset (Checked e) M \<Longrightarrow>
    ev_step s (s\<lparr>ev_w := insert_node e (ev_w s), ev_lock := False, ev_pcs := add_mset Queued M\<rparr>)"
| leave_queued: "ev_pcs s = add_mset Queued M \<Longrightarrow>
    ev_step s (s\<lparr>ev_w := (shEventProducerLeave (ev_w s))\<lparr>q_posted := q_posted (ev_w s) + 1, q_doorbell := True\<rparr>,
                 ev_pcs := M\<rparr>)"
| leave_drop: "ev_pcs s = add_mset (Leaving e) M \<Longrightarrow>
    ev_step s (s\<lparr>ev_w := shEventProducerLeave (ev_w s), ev_pcs := add_mset (Dropping e) M\<rparr>)"
| drop_event: "ev_pcs s = add_mset (Dropping e) M \<Longrightarrow>
    ev_step s (s\<lparr>ev_w := (ev_w s)\<lparr>q_dropped := q_dropped (ev_w s) + 1\<rparr>, ev_pcs := M,
                 ev_released := add_mset e (ev_released s)\<rparr>)"
| consumer_pop: "ev_alive s \<Longrightarrow> ev_cons s = None \<Longrightarrow> \<not> ev_lock s \<Longrightarrow>
    shEventPopLocked (ev_w s) = (Some e, w) \<Longrightarrow> ev_step s (s\<lparr>ev_w := w, ev_cons := Some e\<rparr>)"
| consumer_release: "ev_cons s = Some e \<Longrightarrow>
    ev_step s (s\<lparr>ev_w := (ev_w s)\<lparr>q_consumed := q_consumed (ev_w s) + 1\<rparr>, ev_cons := None,
                 ev_released := add_mset e (ev_released s)\<rparr>)"
| consumer_exit: "ev_alive s \<Longrightarrow> ev_cons s = None \<Longrightarrow> q_stopping (ev_w s) \<noteq> 0 \<Longrightarrow>
    q_pending (ev_w s) = 0 \<Longrightarrow> ev_step s (s\<lparr>ev_alive := False\<rparr>)"
| stop_set: "ev_stop s = StopIdle \<Longrightarrow>
    ev_step s (s\<lparr>ev_w := (ev_w s)\<lparr>q_stopping := 1\<rparr>, ev_stop := StopSet\<rparr>)"
| stop_gone: "ev_stop s = StopSet \<Longrightarrow> q_producers (ev_w s) = 0 \<Longrightarrow>
    ev_step s (s\<lparr>ev_w := (ev_w s)\<lparr>q_doorbell := True\<rparr>, ev_stop := StopGone\<rparr>)"
| stop_joined: "ev_stop s = StopGone \<Longrightarrow> \<not> ev_alive s \<Longrightarrow> ev_step s (s\<lparr>ev_stop := StopJoined\<rparr>)"
| stop_pop: "ev_stop s = StopJoined \<Longrightarrow> \<not> ev_lock s \<Longrightarrow> shEventPopLocked (ev_w s) = (Some e, w) \<Longrightarrow>
    ev_step s (s\<lparr>ev_w := w, ev_stop := StopConsuming e\<rparr>)"
| stop_release: "ev_stop s = StopConsuming e \<Longrightarrow>
    ev_step s (s\<lparr>ev_w := (ev_w s)\<lparr>q_consumed := q_consumed (ev_w s) + 1\<rparr>, ev_stop := StopJoined,
                 ev_released := add_mset e (ev_released s)\<rparr>)"
| stop_drained: "ev_stop s = StopJoined \<Longrightarrow> \<not> ev_lock s \<Longrightarrow>
    shEventPopLocked (ev_w s) = (None, w) \<Longrightarrow> q_pending (ev_w s) = 0 \<Longrightarrow>
    ev_step s (s\<lparr>ev_stop := StopDone\<rparr>)"

inductive_cases ev_stepE: "ev_step s t"

section \<open>The invariant\<close>

fun pc_event :: "producer_pc \<Rightarrow> event_node multiset" where
  "pc_event (Gate e) = {#e#}" | "pc_event (Inside e) = {#e#}" | "pc_event (Checked e) = {#e#}"
| "pc_event Queued = {#}" | "pc_event (Leaving e) = {#e#}" | "pc_event (Dropping e) = {#e#}"

fun pc_counted :: "producer_pc \<Rightarrow> bool" where
  "pc_counted (Gate e) = False" | "pc_counted (Inside e) = True" | "pc_counted (Checked e) = True"
| "pc_counted Queued = True" | "pc_counted (Leaving e) = True" | "pc_counted (Dropping e) = False"

fun pc_locked :: "producer_pc \<Rightarrow> bool" where
  "pc_locked (Gate e) = True" | "pc_locked (Checked e) = True" | "pc_locked _ = False"

fun pc_committed :: "producer_pc \<Rightarrow> bool" where
  "pc_committed (Checked e) = True" | "pc_committed Queued = True" | "pc_committed _ = False"

definition in_flight :: "producer_pc multiset \<Rightarrow> event_node multiset" where
  "in_flight M = \<Sum>\<^sub># (image_mset pc_event M)"

fun stop_event :: "stop_pc \<Rightarrow> event_node multiset" where
  "stop_event (StopConsuming e) = {#e#}" | "stop_event _ = {#}"

definition queue_list :: "evproto \<Rightarrow> event_node list" where
  "queue_list s = (case q_head (ev_w s) of None \<Rightarrow> [] | Some ns \<Rightarrow> ns)"

definition ev_inv :: "evproto \<Rightarrow> bool" where
  "ev_inv s \<longleftrightarrow>
     q_head (ev_w s) \<noteq> None \<and> q_pending (ev_w s) = of_nat (length (queue_list s)) \<and>
     size (filter_mset pc_locked (ev_pcs s)) = (if ev_lock s then 1 else 0) \<and>
     q_producers (ev_w s) = of_nat (size (filter_mset pc_counted (ev_pcs s))) \<and>
     size (filter_mset (\<lambda>pc. pc_counted pc \<or> pc_locked pc) (ev_pcs s)) \<le> 0x7FFFFFFF \<and>
     (q_stopping (ev_w s) = 0 \<longleftrightarrow> ev_stop s = StopIdle) \<and>
     (ev_stop s \<notin> {StopIdle, StopSet} \<longrightarrow> filter_mset pc_committed (ev_pcs s) = {#}) \<and>
     (ev_stop s \<notin> {StopIdle, StopSet, StopGone} \<longrightarrow> \<not> ev_alive s) \<and>
     (\<not> ev_alive s \<longrightarrow> ev_cons s = None) \<and>
     (ev_stop s = StopDone \<longrightarrow> queue_list s = []) \<and>
     ev_sent s = ev_released s + mset (queue_list s) + in_flight (ev_pcs s) +
       (case ev_cons s of None \<Rightarrow> {#} | Some e \<Rightarrow> {#e#}) + stop_event (ev_stop s)"

lemma in_flight_simps [simp]:
  "in_flight {#} = {#}" "in_flight (add_mset pc M) = pc_event pc + in_flight M"
  by (simp_all add: in_flight_def)

lemma pop_locked_Some:
  assumes "shEventPopLocked w = (Some e, w')"
  obtains ns where "q_head w = Some (e # ns)" "w' = w\<lparr>q_head := Some ns, q_pending := q_pending w - 1\<rparr>"
  using assms by (auto simp: shEventPopLocked_def split: option.splits list.splits)

lemma pop_locked_None:
  assumes "shEventPopLocked w = (None, w')"
  shows "q_head w = None \<or> q_head w = Some []"
  using assms by (auto simp: shEventPopLocked_def split: option.splits list.splits)

lemma ev_locked_only:
  assumes "ev_inv s" and "ev_pcs s = add_mset pc M" and "pc_locked pc"
  shows "filter_mset pc_locked M = {#}" and "ev_lock s"
  using assms by (cases "ev_lock s"; simp add: ev_inv_def)+

text \<open>No producer has passed the second check once the stopper saw the producers gone.\<close>

lemma ev_none_committed:
  assumes "ev_inv s" and "q_producers (ev_w s) = 0"
  shows "filter_mset pc_committed (ev_pcs s) = {#}"
proof -
  have "filter_mset pc_counted (ev_pcs s) \<subseteq># filter_mset (\<lambda>pc. pc_counted pc \<or> pc_locked pc) (ev_pcs s)"
    by (rule filter_mset_mono_strong) simp_all
  then have le: "size (filter_mset pc_counted (ev_pcs s)) \<le> 0x7FFFFFFF"
    using assms(1) size_mset_mono by (fastforce simp: ev_inv_def)
  have "(of_nat (size (filter_mset pc_counted (ev_pcs s))) :: u32) = 0"
    using assms by (simp add: ev_inv_def)
  then have "unat (of_nat (size (filter_mset pc_counted (ev_pcs s))) :: u32) = 0" by simp
  then have "size (filter_mset pc_counted (ev_pcs s)) = 0"
    using le by (simp add: unat_of_nat take_bit_nat_eq_self)
  then show ?thesis by (auto elim!: pc_committed.elims)
qed

lemma ev_inv_step:
  assumes inv: "ev_inv s" and "ev_step s t"
  shows "ev_inv t"
proof -
  note d = ev_inv_def queue_list_def
  obtain ns where ns: "q_head (ev_w s) = Some ns" using inv by (auto simp: ev_inv_def)
  from assms(2) show ?thesis
  proof (cases rule: ev_step.cases)
    case (enter_open e)
    have "size (filter_mset (\<lambda>pc. pc_counted pc \<or> pc_locked pc) (ev_pcs s)) < 0x7FFFFFFF"
      using size_filter_mset_lesseq enter_open(4) by (rule le_less_trans)
    with enter_open inv ns show ?thesis by (simp add: d)
  next
    case (enter_count e M)
    with inv ns ev_locked_only [OF inv enter_count(2)] show ?thesis by (simp add: d)
  next
    case (enqueue e M)
    with inv ns ev_locked_only [OF inv enqueue(2)] show ?thesis by (auto simp: d insert_node_def)
  next
    case (leave_queued M)
    with inv ns show ?thesis by (simp add: d shEventProducerLeave_def)
  next
    case (leave_drop e M)
    with inv ns show ?thesis by (simp add: d shEventProducerLeave_def)
  next
    case (consumer_pop e w)
    with inv ns show ?thesis by (auto simp: d elim!: pop_locked_Some)
  next
    case stop_gone
    with inv ns ev_none_committed [OF inv stop_gone(3)] show ?thesis by (simp add: d)
  next
    case (stop_pop e w)
    with inv ns show ?thesis by (auto simp: d elim!: pop_locked_Some)
  next
    case (stop_drained w)
    with inv ns show ?thesis using pop_locked_None [OF stop_drained(4)] by (simp add: d)
  qed (use inv ns in \<open>simp add: d\<close>)+
qed


interpretation events: inductive_invariant ev_step ev_inv
  by unfold_locales (rule ev_inv_step)

section \<open>Properties of the protocol\<close>

text \<open>The queue after \<open>SkTelemetryInit\<close>, the consumer thread started, nobody posting yet.\<close>

definition ev_start :: "evq \<Rightarrow> evproto" where
  "ev_start w = \<lparr>ev_w = ShEventQueueInit w, ev_lock = False, ev_pcs = {#}, ev_stop = StopIdle,
     ev_alive = True, ev_cons = None, ev_sent = {#}, ev_released = {#}\<rparr>"

lemma ev_start_inv: "ev_inv (ev_start w)"
  by (simp add: ev_inv_def ev_start_def queue_list_def ShEventQueueInit_def)

text \<open>Once the stopper is done no step enqueues: nobody is left that passed the second check.\<close>

lemma stop_done_stable:
  assumes "ev_inv u" and "ev_step u v" and "ev_stop u = StopDone"
  shows "ev_stop v = StopDone"
  using assms(2,3) by (cases rule: ev_step.cases) auto

text \<open>C27: exactly-once release and a final stop, for every interleaving of posts, consumer and stopper.
  No reference is released twice: what was released is at most what was sent. When the stopper
  has returned success, the queue is empty, the consumer has exited, and every event ever posted
  is released or still in the hands of a producer that will drop it; this stays so on every
  continuation, so no event is queued after the stop.\<close>

theorem event_stop_final:
  assumes "ev_step\<^sup>*\<^sup>* (ev_start w) s"
  shows "ev_released s \<subseteq># ev_sent s \<and>
    (ev_stop s = StopDone \<longrightarrow> (\<forall>t. ev_step\<^sup>*\<^sup>* s t \<longrightarrow>
       ev_stop t = StopDone \<and> q_head (ev_w t) = Some [] \<and> q_pending (ev_w t) = 0 \<and> \<not> ev_alive t \<and>
       ev_sent t = ev_released t + in_flight (ev_pcs t) \<and>
       (\<forall>pc. pc \<in># ev_pcs t \<longrightarrow> (\<forall>e. pc \<noteq> Checked e) \<and> pc \<noteq> Queued)))"
proof -
  have inv: "ev_inv s" using events.reach_inv [OF assms ev_start_inv] .
  moreover have "ev_stop t = StopDone \<and> q_head (ev_w t) = Some [] \<and> q_pending (ev_w t) = 0 \<and> \<not> ev_alive t \<and>
       ev_sent t = ev_released t + in_flight (ev_pcs t) \<and>
       (\<forall>pc. pc \<in># ev_pcs t \<longrightarrow> (\<forall>e. pc \<noteq> Checked e) \<and> pc \<noteq> Queued)"
    if "ev_stop s = StopDone" "ev_step\<^sup>*\<^sup>* s t" for t
  proof -
    have t: "ev_inv t" using events.reach_inv [OF that(2) inv] .
    moreover have stop: "ev_stop t = StopDone"
      using events.reach_stable [of "\<lambda>s. ev_stop s = StopDone", OF stop_done_stable that(2) inv that(1)] .
    moreover have "(\<forall>e. pc \<noteq> Checked e) \<and> pc \<noteq> Queued" if "pc \<in># ev_pcs t" for pc
      using t stop that by (auto simp: ev_inv_def)
    ultimately show ?thesis by (auto simp: ev_inv_def queue_list_def)
  qed
  ultimately show ?thesis by (auto simp: ev_inv_def)
qed


text \<open>A run that stops an idle queue, and then a late post.\<close>

definition stopped_evq :: evq where
  "stopped_evq = (ShEventQueueInit image_evq)\<lparr>q_stopping := 1, q_doorbell := True\<rparr>"

definition stopped_run :: "event_node \<Rightarrow> evproto" where
  "stopped_run e = \<lparr>ev_w = stopped_evq, ev_lock = False, ev_pcs = {#Dropping e#}, ev_stop = StopDone,
     ev_alive = False, ev_cons = None, ev_sent = {#e#}, ev_released = {#}\<rparr>"

lemma stopped_run_reachable: "ev_step\<^sup>*\<^sup>* (ev_start image_evq) (stopped_run e)"
proof -
  let ?s0 = "ev_start image_evq"
  let ?s1 = "?s0\<lparr>ev_w := (ev_w ?s0)\<lparr>q_stopping := 1\<rparr>, ev_stop := StopSet\<rparr>"
  let ?s2 = "?s1\<lparr>ev_w := (ev_w ?s1)\<lparr>q_doorbell := True\<rparr>, ev_stop := StopGone\<rparr>"
  let ?s3 = "?s2\<lparr>ev_alive := False\<rparr>" and ?s4 = "?s2\<lparr>ev_alive := False, ev_stop := StopJoined\<rparr>"
  let ?s5 = "?s2\<lparr>ev_alive := False, ev_stop := StopDone\<rparr>"
  note d = ev_start_def ShEventQueueInit_def shEventPopLocked_def
  have "ev_step ?s0 ?s1" by (rule stop_set) (simp add: d)
  moreover have "ev_step ?s1 ?s2" by (rule stop_gone) (simp_all add: d)
  moreover have "ev_step ?s2 ?s3" by (rule consumer_exit) (simp_all add: d)
  moreover have "ev_step ?s3 ?s4" using stop_joined [of ?s3] by (simp add: d)
  moreover have "ev_step ?s4 ?s5" using stop_drained [of ?s4] by (simp add: d)
  moreover have "ev_step ?s5 (stopped_run e)"
    using enter_stopped [of ?s5 e] by (simp add: d stopped_run_def stopped_evq_def)
  ultimately show ?thesis by (meson converse_rtranclp_into_rtranclp rtranclp.rtrancl_refl)
qed

theorem event_stop_final_witness:
  "let s = stopped_run (record_node 1 []) in
   ev_released s \<subseteq># ev_sent s \<and> q_head (ev_w s) = Some [] \<and> q_pending (ev_w s) = 0 \<and> \<not> ev_alive s \<and>
   ev_sent s = {#record_node 1 []#} \<and> ev_sent s = ev_released s + in_flight (ev_pcs s)"
proof -
  let ?s = "stopped_run (record_node 1 [])"
  have stop: "ev_stop ?s = StopDone" by (simp add: stopped_run_def)
  have *: "ev_released ?s \<subseteq># ev_sent ?s \<and> q_head (ev_w ?s) = Some [] \<and> q_pending (ev_w ?s) = 0 \<and>
      \<not> ev_alive ?s \<and> ev_sent ?s = ev_released ?s + in_flight (ev_pcs ?s)"
    using event_stop_final [OF stopped_run_reachable [of "record_node 1 []"]] stop by blast
  moreover have "ev_sent ?s = {#record_node 1 []#}" by (simp add: stopped_run_def)
  ultimately show ?thesis unfolding Let_def by blast
qed

end
