(* ===== verification/WfpTracking.thy ===== *)
theory WfpTracking
  imports RuntimeState
begin

text \<open>
  The WFP object tracking of runtime/runtime.c (\<open>ShWfp*\<close> and \<open>ShInjectionDestroyTracked\<close>)
  and the table of kernel entry points of runtime/runtime.h that it calls through.

  The kernel is code outside the repository. An entry point is a function of the state
  \<open>'w\<close> it runs in: it takes its arguments and returns a status and the new state. What
  \<open>'w\<close> is, is left to the callers; a tracked object is passed and returned by value.
\<close>

type_synonym handle = u64

abbreviation (input) NULL :: handle where "NULL \<equiv> 0"

datatype guid = GUID u32 u16 u16 "u8 list"

text \<open>The members of \<open>SHINKEN_OPS\<close> that delete, unregister, close or flush something.\<close>

record 'w ops =
  op_UnregisterCalloutById :: "u32 \<Rightarrow> 'w \<Rightarrow> ntstatus \<times> 'w"
  op_UnregisterCalloutByKey :: "guid option \<Rightarrow> 'w \<Rightarrow> ntstatus \<times> 'w"
  op_FilterDeleteById :: "handle \<Rightarrow> u64 \<Rightarrow> 'w \<Rightarrow> ntstatus \<times> 'w"
  op_FilterDeleteByKey :: "handle \<Rightarrow> guid \<Rightarrow> 'w \<Rightarrow> ntstatus \<times> 'w"
  op_CalloutDeleteById :: "handle \<Rightarrow> u32 \<Rightarrow> 'w \<Rightarrow> ntstatus \<times> 'w"
  op_CalloutDeleteByKey :: "handle \<Rightarrow> guid \<Rightarrow> 'w \<Rightarrow> ntstatus \<times> 'w"
  op_ProviderDeleteByKey :: "handle \<Rightarrow> guid \<Rightarrow> 'w \<Rightarrow> ntstatus \<times> 'w"
  op_SubLayerDeleteByKey :: "handle \<Rightarrow> guid \<Rightarrow> 'w \<Rightarrow> ntstatus \<times> 'w"
  op_EngineClose :: "handle \<Rightarrow> 'w \<Rightarrow> ntstatus \<times> 'w"
  op_InjectionHandleDestroy :: "handle \<Rightarrow> 'w \<Rightarrow> ntstatus \<times> 'w"
  op_FlowRemoveContext :: "u64 \<Rightarrow> u16 \<Rightarrow> u32 \<Rightarrow> 'w \<Rightarrow> ntstatus \<times> 'w"
  op_BfeUnsubscribe :: "handle \<Rightarrow> 'w \<Rightarrow> ntstatus \<times> 'w"

section \<open>Tracked objects\<close>

datatype wfp_object_state =
    ShWfpUnregistered
  | ShWfpRegistered
  | ShWfpDeletePending
  | ShWfpDeleted
  | ShWfpLeaked

record wfp_object =
  wo_name :: string
  wo_id :: u32
  wo_filterId :: u64
  wo_key :: "guid option"
  wo_state :: wfp_object_state
  wo_busyRetries :: u32
  wo_lastStatus :: ntstatus

definition ShWfpObjectInit ::
    "string \<Rightarrow> u32 \<Rightarrow> u64 \<Rightarrow> guid option \<Rightarrow> wfp_object" where
  "ShWfpObjectInit name calloutId filterId key =
     \<lparr>wo_name = name, wo_id = calloutId, wo_filterId = filterId, wo_key = key,
      wo_state = ShWfpUnregistered, wo_busyRetries = 0, wo_lastStatus = STATUS_SUCCESS\<rparr>"

definition ShWfpObjectMark :: "wfp_object_state \<Rightarrow> wfp_object \<Rightarrow> wfp_object" where
  "ShWfpObjectMark st o' = o'\<lparr>wo_state := st\<rparr>"

section \<open>The bounded BUSY retry\<close>

text \<open>
  The loop the four unregister and destroy functions share. \<open>call\<close> is one API call, \<open>gone\<close>
  the statuses that confirm the removal, \<open>between\<close> what happens between two rounds (the
  cleanup callback and the sleep). The first counter is \<open>maxBusyRetries - attempt\<close>, the
  second is \<open>attempt\<close>. The result is the last status, whether the removal is confirmed,
  and the value the code writes to \<open>busyRetries\<close>.
\<close>

fun busy_retry ::
    "('w \<Rightarrow> ntstatus \<times> 'w) \<Rightarrow> (ntstatus \<Rightarrow> bool) \<Rightarrow> ('w \<Rightarrow> 'w) \<Rightarrow> nat \<Rightarrow> u32 \<Rightarrow> 'w
     \<Rightarrow> ntstatus \<times> bool \<times> u32 \<times> 'w" where
  "busy_retry call gone between 0 attempt w =
     (let (st, w) = call w in
      if gone st then (st, True, attempt, w)
      else if st \<noteq> STATUS_DEVICE_BUSY then (st, False, attempt, w)
      else (st, False, attempt + 1, w))"
| "busy_retry call gone between (Suc n) attempt w =
     (let (st, w) = call w in
      if gone st then (st, True, attempt, w)
      else if st \<noteq> STATUS_DEVICE_BUSY then (st, False, attempt, w)
      else busy_retry call gone between n (attempt + 1) (between w))"

definition callout_gone :: "ntstatus \<Rightarrow> bool" where
  "callout_gone st \<longleftrightarrow> st = STATUS_SUCCESS \<or> st = FWP_E_CALLOUT_NOT_FOUND"

definition retry_outcome :: "ntstatus \<times> bool \<times> u32 \<times> 'w \<Rightarrow> wfp_object \<Rightarrow> ntstatus \<times> wfp_object \<times> 'w" where
  "retry_outcome r o' =
     (let (st, confirmed, busy, w) = r
      in (st, o'\<lparr>wo_lastStatus := st, wo_busyRetries := busy,
                wo_state := (if confirmed then ShWfpDeleted else ShWfpLeaked)\<rparr>, w))"

definition ShWfpUnregisterCalloutById ::
    "'w ops \<Rightarrow> ('w \<Rightarrow> 'w) \<Rightarrow> ('w \<Rightarrow> 'w) option \<Rightarrow> u32 \<Rightarrow> wfp_object \<Rightarrow> 'w
     \<Rightarrow> ntstatus \<times> wfp_object \<times> 'w" where
  "ShWfpUnregisterCalloutById ShOps slp busyCleanup maxBusyRetries o' w =
     (if wo_state o' = ShWfpDeleted \<or> wo_state o' = ShWfpUnregistered then (STATUS_SUCCESS, o', w)
      else if wo_state o' = ShWfpLeaked then (STATUS_DEVICE_BUSY, o', w)
      else retry_outcome
             (busy_retry (op_UnregisterCalloutById ShOps (wo_id o')) callout_gone
                (\<lambda>w. slp (case busyCleanup of None \<Rightarrow> w | Some f \<Rightarrow> f w))
                (unat maxBusyRetries) 0 w) o')"

definition ShWfpUnregisterCalloutByKey ::
    "'w ops \<Rightarrow> ('w \<Rightarrow> 'w) \<Rightarrow> u32 \<Rightarrow> wfp_object \<Rightarrow> 'w \<Rightarrow> ntstatus \<times> wfp_object \<times> 'w" where
  "ShWfpUnregisterCalloutByKey ShOps slp maxBusyRetries o' w =
     (if wo_state o' = ShWfpDeleted \<or> wo_state o' = ShWfpUnregistered then (STATUS_SUCCESS, o', w)
      else if wo_state o' = ShWfpLeaked then (STATUS_DEVICE_BUSY, o', w)
      else retry_outcome
             (busy_retry (op_UnregisterCalloutByKey ShOps (wo_key o')) callout_gone slp
                (unat maxBusyRetries) 0 w) o')"

definition ShInjectionDestroyTracked ::
    "'w ops \<Rightarrow> ('w \<Rightarrow> 'w) \<Rightarrow> handle \<Rightarrow> u32 \<Rightarrow> wfp_object \<Rightarrow> 'w \<Rightarrow> ntstatus \<times> wfp_object \<times> 'w" where
  "ShInjectionDestroyTracked ShOps slp handle maxBusyRetries o' w =
     (if handle = NULL \<or> wo_state o' = ShWfpDeleted then (STATUS_SUCCESS, o', w)
      else if wo_state o' = ShWfpLeaked then (STATUS_DEVICE_BUSY, o', w)
      else retry_outcome
             (busy_retry (op_InjectionHandleDestroy ShOps handle) (\<lambda>st. st = STATUS_SUCCESS) slp
                (unat maxBusyRetries) 0 w) o')"

section \<open>Engine-side deletes\<close>

text \<open>The shape of the six deletes after their guards: one call, then Deleted or Leaked.\<close>

definition delete_outcome :: "ntstatus \<Rightarrow> (ntstatus \<times> 'w) \<Rightarrow> wfp_object \<Rightarrow> ntstatus \<times> wfp_object \<times> 'w" where
  "delete_outcome notFound r o' =
     (let o' = o'\<lparr>wo_state := ShWfpDeletePending\<rparr>;
          (st, w) = r;
          o' = o'\<lparr>wo_lastStatus := st\<rparr>
      in if st = STATUS_SUCCESS \<or> st = notFound then (st, o'\<lparr>wo_state := ShWfpDeleted\<rparr>, w)
         else (st, o'\<lparr>wo_state := ShWfpLeaked\<rparr>, w))"

definition ShWfpDeleteFilterById ::
    "'w ops \<Rightarrow> handle \<Rightarrow> wfp_object \<Rightarrow> 'w \<Rightarrow> ntstatus \<times> wfp_object \<times> 'w" where
  "ShWfpDeleteFilterById ShOps engine o' w =
     (if wo_state o' = ShWfpLeaked then (STATUS_DEVICE_BUSY, o', w)
      else if wo_filterId o' = 0 \<or> wo_state o' = ShWfpDeleted then (STATUS_SUCCESS, o', w)
      else let (st, o', w) = delete_outcome FWP_E_FILTER_NOT_FOUND
                 (op_FilterDeleteById ShOps engine (wo_filterId o') w) o'
           in (st, if wo_state o' = ShWfpDeleted then o'\<lparr>wo_filterId := 0\<rparr> else o', w))"

definition ShWfpDeleteFilterByKey ::
    "'w ops \<Rightarrow> handle \<Rightarrow> wfp_object \<Rightarrow> 'w \<Rightarrow> ntstatus \<times> wfp_object \<times> 'w" where
  "ShWfpDeleteFilterByKey ShOps engine o' w =
     (if wo_state o' = ShWfpLeaked then (STATUS_DEVICE_BUSY, o', w)
      else case wo_key o' of
        None \<Rightarrow> (STATUS_SUCCESS, o', w)
      | Some key \<Rightarrow>
          if wo_state o' = ShWfpDeleted then (STATUS_SUCCESS, o', w)
          else delete_outcome FWP_E_FILTER_NOT_FOUND (op_FilterDeleteByKey ShOps engine key w) o')"

definition ShWfpDeleteCalloutById ::
    "'w ops \<Rightarrow> handle \<Rightarrow> wfp_object \<Rightarrow> 'w \<Rightarrow> ntstatus \<times> wfp_object \<times> 'w" where
  "ShWfpDeleteCalloutById ShOps engine o' w =
     (if wo_state o' = ShWfpLeaked then (STATUS_DEVICE_BUSY, o', w)
      else if wo_id o' = 0 \<or> wo_state o' = ShWfpDeleted then (STATUS_SUCCESS, o', w)
      else let (st, o', w) = delete_outcome FWP_E_CALLOUT_NOT_FOUND
                 (op_CalloutDeleteById ShOps engine (wo_id o') w) o'
           in (st, if wo_state o' = ShWfpDeleted then o'\<lparr>wo_id := 0\<rparr> else o', w))"

definition ShWfpDeleteCalloutByKey ::
    "'w ops \<Rightarrow> handle \<Rightarrow> wfp_object \<Rightarrow> 'w \<Rightarrow> ntstatus \<times> wfp_object \<times> 'w" where
  "ShWfpDeleteCalloutByKey ShOps engine o' w =
     (if wo_state o' = ShWfpLeaked then (STATUS_DEVICE_BUSY, o', w)
      else case wo_key o' of
        None \<Rightarrow> (STATUS_SUCCESS, o', w)
      | Some key \<Rightarrow>
          if wo_state o' = ShWfpDeleted then (STATUS_SUCCESS, o', w)
          else delete_outcome FWP_E_CALLOUT_NOT_FOUND (op_CalloutDeleteByKey ShOps engine key w) o')"

definition ShWfpDeleteProviderByKey ::
    "'w ops \<Rightarrow> handle \<Rightarrow> wfp_object \<Rightarrow> 'w \<Rightarrow> ntstatus \<times> wfp_object \<times> 'w" where
  "ShWfpDeleteProviderByKey ShOps engine o' w =
     (if wo_state o' = ShWfpLeaked then (STATUS_DEVICE_BUSY, o', w)
      else case wo_key o' of
        None \<Rightarrow> (STATUS_SUCCESS, o', w)
      | Some key \<Rightarrow>
          if wo_state o' = ShWfpDeleted then (STATUS_SUCCESS, o', w)
          else delete_outcome FWP_E_PROVIDER_NOT_FOUND (op_ProviderDeleteByKey ShOps engine key w) o')"

definition ShWfpDeleteSubLayerByKey ::
    "'w ops \<Rightarrow> handle \<Rightarrow> wfp_object \<Rightarrow> 'w \<Rightarrow> ntstatus \<times> wfp_object \<times> 'w" where
  "ShWfpDeleteSubLayerByKey ShOps engine o' w =
     (if wo_state o' = ShWfpLeaked then (STATUS_DEVICE_BUSY, o', w)
      else case wo_key o' of
        None \<Rightarrow> (STATUS_SUCCESS, o', w)
      | Some key \<Rightarrow>
          if wo_state o' = ShWfpDeleted then (STATUS_SUCCESS, o', w)
          else delete_outcome FWP_E_SUBLAYER_NOT_FOUND (op_SubLayerDeleteByKey ShOps engine key w) o')"

definition ShWfpEngineClose ::
    "'w ops \<Rightarrow> handle \<Rightarrow> wfp_object \<Rightarrow> 'w \<Rightarrow> ntstatus \<times> wfp_object \<times> 'w" where
  "ShWfpEngineClose ShOps engine o' w =
     (if wo_state o' = ShWfpLeaked then (STATUS_DEVICE_BUSY, o', w)
      else
        let (st, w) = op_EngineClose ShOps engine w;
            o' = o'\<lparr>wo_lastStatus := st\<rparr>
        in if st = STATUS_SUCCESS then (STATUS_SUCCESS, o'\<lparr>wo_state := ShWfpDeleted\<rparr>, w)
           else (st, o'\<lparr>wo_state := ShWfpLeaked\<rparr>, w))"


section \<open>What the retry loop does\<close>

text \<open>The state in which the \<open>k\<close>-th call of the loop is made.\<close>

fun round_state :: "('w \<Rightarrow> ntstatus \<times> 'w) \<Rightarrow> ('w \<Rightarrow> 'w) \<Rightarrow> nat \<Rightarrow> 'w \<Rightarrow> 'w" where
  "round_state call between 0 w = w"
| "round_state call between (Suc k) w = round_state call between k (between (snd (call w)))"

definition busy_at :: "('w \<Rightarrow> ntstatus \<times> 'w) \<Rightarrow> ('w \<Rightarrow> 'w) \<Rightarrow> 'w \<Rightarrow> nat \<Rightarrow> bool" where
  "busy_at call between w k \<longleftrightarrow> fst (call (round_state call between k w)) = STATUS_DEVICE_BUSY"

lemma busy_at_Suc: "busy_at call between w (Suc k) = busy_at call between (between (snd (call w))) k"
  by (simp add: busy_at_def)

lemma busy_retry_stops:
  assumes "\<not> gone STATUS_DEVICE_BUSY" and "k \<le> n"
    and "\<And>i. i < k \<Longrightarrow> busy_at call between w i" and "\<not> busy_at call between w k"
  shows "busy_retry call gone between n attempt w =
    (let (st, w') = call (round_state call between k w) in (st, gone st, attempt + of_nat k, w'))"
  using assms(2-4)
proof (induction k arbitrary: n attempt w)
  case 0
  then show ?case by (cases n) (auto simp: busy_at_def split: prod.split)
next
  case (Suc k)
  then obtain m where n: "n = Suc m" by (cases n) auto
  let ?w = "between (snd (call w))"
  have busy: "fst (call w) = STATUS_DEVICE_BUSY"
    using Suc.prems(2) [of 0] by (simp add: busy_at_def)
  have "busy_retry call gone between m (attempt + 1) ?w =
    (let (st, w') = call (round_state call between k ?w)
     in (st, gone st, attempt + 1 + of_nat k, w'))"
    using Suc.prems by (intro Suc.IH) (auto simp: n busy_at_Suc [symmetric])
  then show ?case
    using busy assms(1) by (simp add: n case_prod_unfold algebra_simps)
qed

lemma busy_retry_exhausts:
  assumes "\<not> gone STATUS_DEVICE_BUSY" and "\<And>i. i \<le> n \<Longrightarrow> busy_at call between w i"
  shows "busy_retry call gone between n attempt w =
    (STATUS_DEVICE_BUSY, False, attempt + of_nat (Suc n), snd (call (round_state call between n w)))"
  using assms(2)
proof (induction n arbitrary: attempt w)
  case 0
  with 0 [of 0] assms(1) show ?case by (simp add: busy_at_def case_prod_unfold)
next
  case (Suc n)
  let ?w = "between (snd (call w))"
  have busy: "fst (call w) = STATUS_DEVICE_BUSY"
    using Suc.prems [of 0] by (simp add: busy_at_def)
  have "busy_retry call gone between n (attempt + 1) ?w =
    (STATUS_DEVICE_BUSY, False, attempt + 1 + of_nat (Suc n),
     snd (call (round_state call between n ?w)))"
    using Suc.prems by (intro Suc.IH) (auto simp: busy_at_Suc [symmetric])
  then show ?case
    using busy assms(1) by (simp add: case_prod_unfold algebra_simps)
qed

text \<open>The loop confirms exactly when its last status confirms; a confirmed status is never BUSY.\<close>

lemma busy_retry_confirmed:
  assumes "busy_retry call gone between n attempt w = (st, c, b, w')" and "\<not> gone STATUS_DEVICE_BUSY"
  shows "c = gone st"
  using assms(1)
  by (induction n arbitrary: attempt w) (auto simp: Let_def assms(2) split: prod.splits if_splits)

lemma callout_gone_busy [simp]: "\<not> callout_gone STATUS_DEVICE_BUSY"
  by (simp add: callout_gone_def)

text \<open>
  What the loop keeps: a state invariant that the call and the pause between two rounds keep.
\<close>

lemma busy_retry_keeps:
  assumes "\<And>w. P w \<Longrightarrow> P (snd (call w))" and "\<And>w. P w \<Longrightarrow> P (between w)" and "P w"
  shows "P (snd (snd (snd (busy_retry call gone between n attempt w))))"
  using assms(3)
proof (induction n arbitrary: attempt w)
  case 0
  then show ?case using assms(1) [of w] by (auto simp: Let_def split: prod.split)
next
  case (Suc n)
  have "P (snd (call w))" using assms(1) Suc.prems .
  with assms(2) Suc.IH show ?case by (auto simp: Let_def split: prod.split)
qed

text \<open>The bounded BUSY retry of \<open>ShWfpUnregisterCalloutById\<close>. If the first call that does
  not answer BUSY is among the first \<open>maxBusyRetries + 1\<close>, exactly that many calls are made,
  its status is returned and the object is Deleted when the status is success or
  callout-not-found and Leaked otherwise; if all \<open>maxBusyRetries + 1\<close> calls answer BUSY, the
  loop ends with DEVICE_BUSY and a Leaked object. \<open>busyRetries\<close> counts the BUSY answers.\<close>

theorem unregister_bounded:
  fixes ShOps :: "'w ops" and slp :: "'w \<Rightarrow> 'w"
  assumes reg: "wo_state o' = ShWfpRegistered"
    and call: "call = op_UnregisterCalloutById ShOps (wo_id o')"
    and between: "between = (\<lambda>w. slp (case busyCleanup of None \<Rightarrow> w | Some f \<Rightarrow> f w))"
  shows "(\<forall>k \<le> unat maxBusyRetries. (\<forall>i<k. busy_at call between w i) \<and> \<not> busy_at call between w k \<longrightarrow>
      ShWfpUnregisterCalloutById ShOps slp busyCleanup maxBusyRetries o' w =
        (let (st, w') = call (round_state call between k w)
         in (st, o'\<lparr>wo_lastStatus := st, wo_busyRetries := of_nat k,
               wo_state := (if st = STATUS_SUCCESS \<or> st = FWP_E_CALLOUT_NOT_FOUND
                            then ShWfpDeleted else ShWfpLeaked)\<rparr>, w'))) \<and>
    ((\<forall>i \<le> unat maxBusyRetries. busy_at call between w i) \<longrightarrow>
      ShWfpUnregisterCalloutById ShOps slp busyCleanup maxBusyRetries o' w =
        (STATUS_DEVICE_BUSY,
         o'\<lparr>wo_lastStatus := STATUS_DEVICE_BUSY, wo_busyRetries := maxBusyRetries + 1,
            wo_state := ShWfpLeaked\<rparr>,
         snd (call (round_state call between (unat maxBusyRetries) w))))"
proof -
  let ?r = "busy_retry call callout_gone between (unat maxBusyRetries) 0 w"
  have eq: "ShWfpUnregisterCalloutById ShOps slp busyCleanup maxBusyRetries o' w = retry_outcome ?r o'"
    using reg by (simp add: ShWfpUnregisterCalloutById_def call between)
  have "?r = (let (st, w') = call (round_state call between k w)
              in (st, callout_gone st, of_nat k, w'))"
    if "k \<le> unat maxBusyRetries" "\<forall>i<k. busy_at call between w i" "\<not> busy_at call between w k" for k
    using busy_retry_stops [of callout_gone k "unat maxBusyRetries" call between w 0] that by simp
  moreover have "?r = (STATUS_DEVICE_BUSY, False, maxBusyRetries + 1,
      snd (call (round_state call between (unat maxBusyRetries) w)))"
    if "\<forall>i \<le> unat maxBusyRetries. busy_at call between w i"
    using busy_retry_exhausts [of callout_gone "unat maxBusyRetries" call between w 0] that
    by (simp add: add.commute)
  ultimately show ?thesis
    by (simp add: eq retry_outcome_def case_prod_unfold callout_gone_def Let_def)
qed

text \<open>A kernel that answers from a list: BUSY twice, then success.\<close>

fun script_answer :: "ntstatus list \<Rightarrow> ntstatus \<times> ntstatus list" where
  "script_answer [] = (STATUS_SUCCESS, [])"
| "script_answer (st # w) = (st, w)"

definition script_ops :: "ntstatus list ops" where
  "script_ops =
     \<lparr>op_UnregisterCalloutById = (\<lambda>_. script_answer), op_UnregisterCalloutByKey = (\<lambda>_. script_answer),
      op_FilterDeleteById = (\<lambda>_ _. script_answer), op_FilterDeleteByKey = (\<lambda>_ _. script_answer),
      op_CalloutDeleteById = (\<lambda>_ _. script_answer), op_CalloutDeleteByKey = (\<lambda>_ _. script_answer),
      op_ProviderDeleteByKey = (\<lambda>_ _. script_answer), op_SubLayerDeleteByKey = (\<lambda>_ _. script_answer),
      op_EngineClose = (\<lambda>_. script_answer), op_InjectionHandleDestroy = (\<lambda>_. script_answer),
      op_FlowRemoveContext = (\<lambda>_ _ _. script_answer), op_BfeUnsubscribe = (\<lambda>_. script_answer)\<rparr>"

lemma script_ops_simps [simp]:
  "op_UnregisterCalloutById script_ops i = script_answer"
  "op_FilterDeleteById script_ops h f = script_answer"
  by (simp_all add: script_ops_def)

theorem unregister_bounded_witness:
  "ShWfpUnregisterCalloutById script_ops id None 8
     (ShWfpObjectMark ShWfpRegistered (ShWfpObjectInit ''c'' 7 0 None))
     [STATUS_DEVICE_BUSY, STATUS_DEVICE_BUSY, STATUS_SUCCESS] =
   (STATUS_SUCCESS, (ShWfpObjectInit ''c'' 7 0 None)\<lparr>wo_busyRetries := 2, wo_state := ShWfpDeleted\<rparr>, [])"
proof -
  let ?call = "op_UnregisterCalloutById script_ops 7" and ?w = "[STATUS_DEVICE_BUSY, STATUS_DEVICE_BUSY, STATUS_SUCCESS]"
  have "busy_at ?call id ?w 0" "busy_at ?call id ?w (Suc 0)" "\<not> busy_at ?call id ?w (Suc (Suc 0))"
    by (simp_all add: busy_at_def)
  then have *: "(\<forall>i<Suc (Suc 0). busy_at ?call id ?w i) \<and> \<not> busy_at ?call id ?w (Suc (Suc 0))"
    by (simp add: All_less_Suc)
  have "Suc (Suc 0) \<le> unat (8 :: u32)" by simp
  note unregister_bounded [of "ShWfpObjectMark ShWfpRegistered (ShWfpObjectInit ''c'' 7 0 None)"
      ?call script_ops id id None 8 ?w, THEN conjunct1, THEN spec [of _ "Suc (Suc 0)"]]
  with * show ?thesis
    by (simp add: ShWfpObjectMark_def ShWfpObjectInit_def id_def)
qed

section \<open>Sequences of tracking calls\<close>

datatype 'w tracking_call =
    UnregisterById "('w \<Rightarrow> 'w) option" u32
  | UnregisterByKey u32
  | DestroyTracked handle u32
  | DeleteFilterById handle
  | DeleteFilterByKey handle
  | DeleteCalloutById handle
  | DeleteCalloutByKey handle
  | DeleteProviderByKey handle
  | DeleteSubLayerByKey handle
  | EngineClose handle

fun tracking_step ::
    "'w ops \<Rightarrow> ('w \<Rightarrow> 'w) \<Rightarrow> 'w tracking_call \<Rightarrow> wfp_object \<Rightarrow> 'w \<Rightarrow> ntstatus \<times> wfp_object \<times> 'w" where
  "tracking_step ShOps slp (UnregisterById cleanup n) o' w = ShWfpUnregisterCalloutById ShOps slp cleanup n o' w"
| "tracking_step ShOps slp (UnregisterByKey n) o' w = ShWfpUnregisterCalloutByKey ShOps slp n o' w"
| "tracking_step ShOps slp (DestroyTracked h n) o' w = ShInjectionDestroyTracked ShOps slp h n o' w"
| "tracking_step ShOps slp (DeleteFilterById h) o' w = ShWfpDeleteFilterById ShOps h o' w"
| "tracking_step ShOps slp (DeleteFilterByKey h) o' w = ShWfpDeleteFilterByKey ShOps h o' w"
| "tracking_step ShOps slp (DeleteCalloutById h) o' w = ShWfpDeleteCalloutById ShOps h o' w"
| "tracking_step ShOps slp (DeleteCalloutByKey h) o' w = ShWfpDeleteCalloutByKey ShOps h o' w"
| "tracking_step ShOps slp (DeleteProviderByKey h) o' w = ShWfpDeleteProviderByKey ShOps h o' w"
| "tracking_step ShOps slp (DeleteSubLayerByKey h) o' w = ShWfpDeleteSubLayerByKey ShOps h o' w"
| "tracking_step ShOps slp (EngineClose h) o' w = ShWfpEngineClose ShOps h o' w"

fun tracking_run ::
    "'w ops \<Rightarrow> ('w \<Rightarrow> 'w) \<Rightarrow> 'w tracking_call list \<Rightarrow> wfp_object \<Rightarrow> 'w \<Rightarrow> wfp_object \<times> 'w" where
  "tracking_run ShOps slp [] o' w = (o', w)"
| "tracking_run ShOps slp (c # cs) o' w =
     (let (st, o', w) = tracking_step ShOps slp c o' w in tracking_run ShOps slp cs o' w)"

definition confirms :: "ntstatus \<Rightarrow> bool" where
  "confirms st \<longleftrightarrow> st \<in> {STATUS_SUCCESS, FWP_E_CALLOUT_NOT_FOUND, FWP_E_FILTER_NOT_FOUND,
     FWP_E_PROVIDER_NOT_FOUND, FWP_E_SUBLAYER_NOT_FOUND}"

text \<open>The relation one call establishes between an object before and after it.\<close>

definition tracked_change :: "wfp_object \<Rightarrow> wfp_object \<Rightarrow> bool" where
  "tracked_change o1 o2 \<longleftrightarrow> o2 = o1 \<or>
     wo_state o1 \<noteq> ShWfpLeaked \<and>
       (wo_state o2 = ShWfpDeleted \<and> confirms (wo_lastStatus o2) \<or>
        wo_state o2 = ShWfpLeaked \<and> wo_lastStatus o2 \<noteq> STATUS_SUCCESS \<and>
          wo_id o2 = wo_id o1 \<and> wo_filterId o2 = wo_filterId o1) \<and>
       wo_key o2 = wo_key o1 \<and> wo_name o2 = wo_name o1"

lemma tracked_change_intro:
  assumes "wo_state o1 \<noteq> ShWfpLeaked" and "wo_state o2 = (if c then ShWfpDeleted else ShWfpLeaked)"
    and "if c then confirms (wo_lastStatus o2) else wo_lastStatus o2 \<noteq> STATUS_SUCCESS"
    and "c \<or> wo_id o2 = wo_id o1 \<and> wo_filterId o2 = wo_filterId o1"
    and "wo_key o2 = wo_key o1" and "wo_name o2 = wo_name o1"
  shows "tracked_change o1 o2"
  using assms unfolding tracked_change_def by (intro disjI2) (simp split: if_splits)

lemma retry_outcome_change:
  assumes "retry_outcome (busy_retry call gone between n a w) o1 = (st, o2, w')"
    and "wo_state o1 \<noteq> ShWfpLeaked" and "\<not> gone STATUS_DEVICE_BUSY"
    and "\<And>st. gone st \<Longrightarrow> confirms st" and "gone STATUS_SUCCESS"
  shows "tracked_change o1 o2"
proof -
  obtain st' c b w'' where r: "busy_retry call gone between n a w = (st', c, b, w'')"
    by (cases "busy_retry call gone between n a w") auto
  have c: "c = gone st'" by (rule busy_retry_confirmed [OF r assms(3)])
  have "o2 = o1\<lparr>wo_lastStatus := st', wo_busyRetries := b,
      wo_state := (if c then ShWfpDeleted else ShWfpLeaked)\<rparr>"
    using assms(1) by (auto simp: r retry_outcome_def)
  moreover have "if c then confirms st' else st' \<noteq> STATUS_SUCCESS"
  proof (cases "gone st'")
    case True
    with assms(4) show ?thesis by (simp only: c if_True)
  next
    case False
    with assms(5) have "st' \<noteq> STATUS_SUCCESS" by metis
    with False show ?thesis by (simp only: c if_False not_False_eq_True)
  qed
  ultimately show ?thesis
    using assms(2) by (intro tracked_change_intro [of _ _ c]) (simp_all split: if_splits)
qed

lemma delete_outcome_change:
  assumes "delete_outcome nf r o1 = (st, o2, w')" and "wo_state o1 \<noteq> ShWfpLeaked"
    and "confirms nf" and "confirms STATUS_SUCCESS"
  shows "tracked_change o1 o2" and "wo_state o2 = ShWfpDeleted \<Longrightarrow> tracked_change o1 (o2\<lparr>wo_filterId := 0\<rparr>)"
    and "wo_state o2 = ShWfpDeleted \<Longrightarrow> tracked_change o1 (o2\<lparr>wo_id := 0\<rparr>)"
proof -
  define c where "c = (fst r = STATUS_SUCCESS \<or> fst r = nf)"
  have "o2 = o1\<lparr>wo_lastStatus := fst r, wo_state := (if c then ShWfpDeleted else ShWfpLeaked)\<rparr>"
    using assms(1) by (auto simp: delete_outcome_def c_def Let_def split: prod.splits if_splits)
  with assms(2-) show "tracked_change o1 o2"
      "wo_state o2 = ShWfpDeleted \<Longrightarrow> tracked_change o1 (o2\<lparr>wo_filterId := 0\<rparr>)"
      "wo_state o2 = ShWfpDeleted \<Longrightarrow> tracked_change o1 (o2\<lparr>wo_id := 0\<rparr>)"
    by (auto simp: c_def intro!: tracked_change_intro [of _ _ c] split: if_splits)
qed

lemma tracked_change_refl [simp]: "tracked_change o1 o1"
  by (simp add: tracked_change_def)

lemma confirms_simps [simp]:
  "confirms STATUS_SUCCESS" "confirms FWP_E_CALLOUT_NOT_FOUND" "confirms FWP_E_FILTER_NOT_FOUND"
  "confirms FWP_E_PROVIDER_NOT_FOUND" "confirms FWP_E_SUBLAYER_NOT_FOUND"
  "callout_gone st \<Longrightarrow> confirms st" "callout_gone STATUS_SUCCESS"
  by (auto simp: confirms_def callout_gone_def)

lemma retry_change:
  "retry_outcome (busy_retry call callout_gone between n a w) o1 = (st, o2, w') \<Longrightarrow>
     wo_state o1 \<noteq> ShWfpLeaked \<Longrightarrow> tracked_change o1 o2"
  "retry_outcome (busy_retry call (\<lambda>st. st = STATUS_SUCCESS) between n a w) o1 = (st, o2, w') \<Longrightarrow>
     wo_state o1 \<noteq> ShWfpLeaked \<Longrightarrow> tracked_change o1 o2"
  by (erule retry_outcome_change; simp)+

lemma tracking_step_change:
  assumes "tracking_step ShOps slp c o1 w = (st, o2, w')"
  shows "tracked_change o1 o2"
proof (cases c)
  case (UnregisterById f n)
  with assms show ?thesis
    by (auto simp: ShWfpUnregisterCalloutById_def split: if_splits dest: retry_change(1))
next
  case (UnregisterByKey n)
  with assms show ?thesis
    by (auto simp: ShWfpUnregisterCalloutByKey_def split: if_splits dest: retry_change(1))
next
  case (DestroyTracked h n)
  with assms show ?thesis
    by (auto simp: ShInjectionDestroyTracked_def split: if_splits dest: retry_change(2))
next
  case (EngineClose h)
  with assms show ?thesis
    by (auto simp: ShWfpEngineClose_def tracked_change_def Let_def split: if_splits prod.splits)
qed (use assms in \<open>auto simp: ShWfpDeleteFilterById_def ShWfpDeleteFilterByKey_def
      ShWfpDeleteCalloutById_def ShWfpDeleteCalloutByKey_def ShWfpDeleteProviderByKey_def
      ShWfpDeleteSubLayerByKey_def split: if_splits option.splits prod.splits
      intro: delete_outcome_change\<close>)

lemma tracking_step_leaked:
  assumes "wo_state o1 = ShWfpLeaked"
  shows "\<exists>st. tracking_step ShOps slp c o1 w = (st, o1, w)"
  using assms
  by (cases c)
    (auto simp: ShWfpUnregisterCalloutById_def ShWfpUnregisterCalloutByKey_def
      ShInjectionDestroyTracked_def ShWfpDeleteFilterById_def ShWfpDeleteFilterByKey_def
      ShWfpDeleteCalloutById_def ShWfpDeleteCalloutByKey_def ShWfpDeleteProviderByKey_def
      ShWfpDeleteSubLayerByKey_def ShWfpEngineClose_def)

lemma tracking_run_leaked:
  assumes "wo_state o1 = ShWfpLeaked"
  shows "tracking_run ShOps slp cs o1 w = (o1, w)"
proof (induction cs)
  case (Cons c cs)
  have "\<exists>st. tracking_step ShOps slp c o1 w = (st, o1, w)" by (rule tracking_step_leaked [OF assms])
  with Cons show ?case by auto
qed simp

text \<open>What a whole run establishes between the first and the last state of the object.\<close>

definition tracked_run :: "wfp_object \<Rightarrow> wfp_object \<Rightarrow> bool" where
  "tracked_run o1 o2 \<longleftrightarrow>
     wo_key o2 = wo_key o1 \<and> wo_name o2 = wo_name o1 \<and>
     (wo_state o2 = ShWfpDeleted \<longrightarrow> o2 = o1 \<or> confirms (wo_lastStatus o2)) \<and>
     (wo_state o2 = ShWfpLeaked \<longrightarrow> o2 = o1 \<or> wo_lastStatus o2 \<noteq> STATUS_SUCCESS) \<and>
     wo_state o2 \<in> {wo_state o1, ShWfpDeleted, ShWfpLeaked}"

lemma tracking_run_tracked:
  "tracking_run ShOps slp cs o1 w = (o2, w') \<Longrightarrow> tracked_run o1 o2"
proof (induction cs arbitrary: o1 w)
  case Nil
  then show ?case by (simp add: tracked_run_def)
next
  case (Cons c cs)
  obtain st o3 w3 where step: "tracking_step ShOps slp c o1 w = (st, o3, w3)" by (metis prod_cases3)
  with Cons have run: "tracked_run o3 o2" by simp
  from tracking_step_change [OF step] consider "o3 = o1"
    | "wo_state o3 = ShWfpDeleted" "confirms (wo_lastStatus o3)" "wo_key o3 = wo_key o1" "wo_name o3 = wo_name o1"
    | "wo_state o3 = ShWfpLeaked" "wo_lastStatus o3 \<noteq> STATUS_SUCCESS" "wo_key o3 = wo_key o1" "wo_name o3 = wo_name o1"
    by (auto simp: tracked_change_def)
  then show ?case
  proof cases
    case 3
    have "tracking_run ShOps slp cs o3 w3 = (o3, w3)" by (rule tracking_run_leaked [OF 3(1)])
    with Cons.prems step have "o2 = o3" by simp
    with 3 show ?thesis by (simp add: tracked_run_def)
  qed (use run in \<open>auto simp: tracked_run_def\<close>)
qed


text \<open>Whatever tracking calls are made on an object, with whatever answers of the kernel: a
  Leaked object is terminal, no call reaches the kernel for it and all its fields are kept; an
  object becomes Deleted only after a status that confirms the removal (success or a documented
  not-found); it becomes Leaked only after a status other than success; its key and name never
  change.\<close>

theorem tracking_sound:
  assumes "tracking_run ShOps slp cs o1 w = (o2, w')"
  shows "(wo_state o1 = ShWfpLeaked \<longrightarrow> o2 = o1 \<and> w' = w) \<and>
    (wo_state o2 = ShWfpDeleted \<and> wo_state o1 \<noteq> ShWfpDeleted \<longrightarrow>
       wo_lastStatus o2 \<in> {STATUS_SUCCESS, FWP_E_CALLOUT_NOT_FOUND, FWP_E_FILTER_NOT_FOUND,
         FWP_E_PROVIDER_NOT_FOUND, FWP_E_SUBLAYER_NOT_FOUND}) \<and>
    (wo_state o2 = ShWfpLeaked \<and> wo_state o1 \<noteq> ShWfpLeaked \<longrightarrow> wo_lastStatus o2 \<noteq> STATUS_SUCCESS) \<and>
    wo_state o2 \<in> {wo_state o1, ShWfpDeleted, ShWfpLeaked} \<and>
    wo_key o2 = wo_key o1 \<and> wo_name o2 = wo_name o1"
proof -
  have "o2 = o1 \<and> w' = w" if "wo_state o1 = ShWfpLeaked"
    using assms tracking_run_leaked [OF that, of ShOps slp cs w] by simp
  then show ?thesis
    using tracking_run_tracked [OF assms] unfolding tracked_run_def confirms_def by blast
qed

theorem tracking_sound_witness:
  "let o1 = ShWfpObjectMark ShWfpRegistered (ShWfpObjectInit ''c'' 7 9 None);
       (o2, w') = tracking_run script_ops id [UnregisterById None 1, DeleteFilterById 4] o1
         [STATUS_DEVICE_BUSY, STATUS_DEVICE_BUSY, STATUS_SUCCESS]
   in wo_state o2 = ShWfpLeaked \<and> wo_lastStatus o2 \<noteq> STATUS_SUCCESS \<and> w' = [STATUS_SUCCESS]"
proof -
  let ?o = "ShWfpObjectMark ShWfpRegistered (ShWfpObjectInit ''c'' 7 9 None)"
  have run: "tracking_run script_ops id [UnregisterById None 1, DeleteFilterById 4] ?o
      [STATUS_DEVICE_BUSY, STATUS_DEVICE_BUSY, STATUS_SUCCESS] =
      (?o\<lparr>wo_state := ShWfpLeaked, wo_busyRetries := 2, wo_lastStatus := STATUS_DEVICE_BUSY\<rparr>,
       [STATUS_SUCCESS])"
    by code_simp
  show ?thesis
    using tracking_sound [OF run] run by (simp add: ShWfpObjectMark_def ShWfpObjectInit_def)
qed

end
