(* ===== verification/FlowContext.thy ===== *)
theory FlowContext
  imports EventQueue
begin

text \<open>
  packet/flow_context.c: the table of flow contexts, their reference counts, and the calls to
  WFP that associate and remove a context.

  Contexts are blocks of the non-paged pool, a map from addresses to contents; \<open>None\<close> as a
  result is an invalid access (a dereference or a free of an address that holds no block).
  A context's list link is in one of two lists: the table \<open>g_SkFlowList\<close>, or the list on the
  stack of \<open>SkFlowRemoveAll\<close>. The second is a field of the state too, because a concurrent
  \<open>SkFlowAttach\<close> that fails unlinks its context from whichever list holds it; there is one
  \<open>SkFlowRemoveAll\<close> at a time (its only caller holds the manager's install mutex).

  The two WFP calls are parameters. They run on the whole state: what the other threads do
  between two lock sections is part of what the call does.
\<close>

record flow_ctx =
  f_ref :: u32
  f_flowId :: u64
  f_layerId :: u32
  f_calloutId :: u32
  f_packetsSeen :: u64
  f_linked :: bool

record flow = telemetry +
  p_flows :: "nat \<Rightarrow> flow_ctx option"
  g_SkFlowList :: "nat list"
  g_SkFlowEntries :: u32
  g_SkFlowInited :: bool
  flow_stale :: "nat list"

abbreviation (input) SkLayerFlowEstablishedV4 :: u32 where "SkLayerFlowEstablishedV4 \<equiv> 4"
abbreviation (input) SkLayerFlowEstablishedV6 :: u32 where "SkLayerFlowEstablishedV6 \<equiv> 5"

section \<open>Operations\<close>

definition skFlowWfpLayerId :: "u32 \<Rightarrow> u16" where
  "skFlowWfpLayerId layerId =
     (if layerId = SkLayerFlowEstablishedV4 then 52
      else if layerId = SkLayerFlowEstablishedV6 then 53
      else 0)"

definition SkFlowInit :: "'a flow_scheme \<Rightarrow> ntstatus \<times> 'a flow_scheme" where
  "SkFlowInit w =
     (if g_SkFlowInited w then (STATUS_SUCCESS, w)
      else (STATUS_SUCCESS, w\<lparr>g_SkFlowInited := True, g_SkFlowList := [], g_SkFlowEntries := 0\<rparr>))"

definition upd_flow :: "nat \<Rightarrow> (flow_ctx \<Rightarrow> flow_ctx) \<Rightarrow> 'a flow_scheme \<Rightarrow> 'a flow_scheme option" where
  "upd_flow p f w = do { c \<leftarrow> p_flows w p; Some (w\<lparr>p_flows := (p_flows w)(p \<mapsto> f c)\<rparr>) }"

definition free_flow :: "nat \<Rightarrow> 'a flow_scheme \<Rightarrow> 'a flow_scheme option" where
  "free_flow p w = do { c \<leftarrow> p_flows w p; Some (w\<lparr>p_flows := (p_flows w)(p := None)\<rparr>) }"

definition SkFlowAddRef :: "nat \<Rightarrow> 'a flow_scheme \<Rightarrow> 'a flow_scheme option" where
  "SkFlowAddRef p w = upd_flow p (\<lambda>c. c\<lparr>f_ref := f_ref c + 1\<rparr>) w"

definition SkFlowRelease :: "nat \<Rightarrow> 'a flow_scheme \<Rightarrow> 'a flow_scheme option" where
  "SkFlowRelease p w = do {
     c \<leftarrow> p_flows w p;
     w \<leftarrow> upd_flow p (\<lambda>c. c\<lparr>f_ref := f_ref c - 1\<rparr>) w;
     if f_ref c = 1 then free_flow p w else Some w
   }"

text \<open>The walk over the table by \<open>flowId\<close>: it dereferences every entry up to the hit.\<close>

fun skFlowFindLocked :: "u64 \<Rightarrow> nat list \<Rightarrow> 'a flow_scheme \<Rightarrow> nat option option" where
  "skFlowFindLocked flowId [] w = Some None"
| "skFlowFindLocked flowId (p # ps) w = do {
     c \<leftarrow> p_flows w p;
     if f_flowId c = flowId then Some (Some p) else skFlowFindLocked flowId ps w
   }"

text \<open>Unlinking through the entry's own pointers: it leaves the list it is in, and the count drops.\<close>

definition flow_unlink :: "nat \<Rightarrow> 'a flow_scheme \<Rightarrow> 'a flow_scheme option" where
  "flow_unlink p w = do {
     w \<leftarrow> upd_flow p (\<lambda>c. c\<lparr>f_linked := False\<rparr>) w;
     Some (w\<lparr>g_SkFlowList := remove1 p (g_SkFlowList w), flow_stale := remove1 p (flow_stale w),
             g_SkFlowEntries := g_SkFlowEntries w - 1\<rparr>)
   }"

definition flow_link :: "nat \<Rightarrow> 'a flow_scheme \<Rightarrow> 'a flow_scheme option" where
  "flow_link p w = do {
     w \<leftarrow> upd_flow p (\<lambda>c. c\<lparr>f_linked := True\<rparr>) w;
     Some (w\<lparr>g_SkFlowList := g_SkFlowList w @ [p], g_SkFlowEntries := g_SkFlowEntries w + 1\<rparr>)
   }"

definition new_flow :: "u64 \<Rightarrow> u32 \<Rightarrow> u32 \<Rightarrow> flow_ctx" where
  "new_flow flowId layerId calloutId =
     \<lparr>f_ref = 2, f_flowId = flowId, f_layerId = layerId, f_calloutId = calloutId,
      f_packetsSeen = 0, f_linked = False\<rparr>"

text \<open>
  \<open>SkFlowAttach\<close> up to its first unlock: \<open>Inl p\<close> is the reused context, \<open>Inr p\<close> the new one,
  now linked. \<open>AllocPool\<close> hands out the next address.
\<close>

definition attach_section ::
    "u64 \<Rightarrow> u32 \<Rightarrow> u32 \<Rightarrow> 'a flow_scheme \<Rightarrow> ((nat + nat) \<times> 'a flow_scheme) option" where
  "attach_section flowId layerId calloutId w = do {
     let p = p_next w;
     let w = w\<lparr>p_next := Suc p, p_flows := (p_flows w)(p \<mapsto> new_flow flowId layerId calloutId)\<rparr>;
     old \<leftarrow> skFlowFindLocked flowId (g_SkFlowList w) w;
     (case old of
        Some q \<Rightarrow> do {
          w \<leftarrow> SkFlowAddRef q w;
          w \<leftarrow> free_flow p w;
          Some (Inl q, w)
        }
      | None \<Rightarrow> do {
          w \<leftarrow> flow_link p w;
          Some (Inr p, w)
        })
   }"

text \<open>What follows a failed association.\<close>

definition attach_rollback :: "nat \<Rightarrow> 'a flow_scheme \<Rightarrow> 'a flow_scheme option" where
  "attach_rollback p w = do {
     c \<leftarrow> p_flows w p;
     if f_linked c
     then do {
       w \<leftarrow> flow_unlink p w;
       w \<leftarrow> SkFlowRelease p w;
       SkFlowRelease p w
     }
     else SkFlowRelease p w
   }"

definition SkFlowAttach ::
    "bool \<Rightarrow> (u64 \<Rightarrow> u16 \<Rightarrow> u32 \<Rightarrow> nat \<Rightarrow> 'a flow_scheme \<Rightarrow> ntstatus \<times> 'a flow_scheme)
     \<Rightarrow> u64 \<Rightarrow> u32 \<Rightarrow> u32 \<Rightarrow> 'a flow_scheme \<Rightarrow> (nat option \<times> 'a flow_scheme) option" where
  "SkFlowAttach alloc FwpsFlowAssociateContext0 flowId layerId calloutId w =
     (if flowId = 0 \<or> \<not> g_SkFlowInited w then Some (None, w)
      else if \<not> alloc then Some (None, w)
      else do {
        (r, w) \<leftarrow> attach_section flowId layerId calloutId w;
        (case r of
           Inl old \<Rightarrow> Some (Some old, w)
         | Inr p \<Rightarrow>
             let (st, w) = FwpsFlowAssociateContext0 flowId (skFlowWfpLayerId layerId) calloutId p w
             in if st \<noteq> STATUS_SUCCESS
                then do { w \<leftarrow> attach_rollback p w; Some (None, w) }
                else Some (Some p, w))
      })"

text \<open>\<open>ctx\<close> is \<open>None\<close> for NULL. The walk compares addresses; nothing is dereferenced before the hit.\<close>

definition SkFlowDeleteNotify :: "nat option \<Rightarrow> 'a flow_scheme \<Rightarrow> 'a flow_scheme option" where
  "SkFlowDeleteNotify ctx w =
     (case ctx of
        None \<Rightarrow> Some w
      | Some p \<Rightarrow>
          if \<not> g_SkFlowInited w then Some w
          else if p \<in> set (g_SkFlowList w)
          then do { w \<leftarrow> flow_unlink p w; SkFlowRelease p w }
          else Some w)"

text \<open>The first lock section of \<open>SkFlowRemoveAll\<close>: matching entries move to the local list.\<close>

fun collect_loop :: "u32 \<Rightarrow> nat list \<Rightarrow> 'a flow_scheme \<Rightarrow> 'a flow_scheme option" where
  "collect_loop calloutId [] w = Some w"
| "collect_loop calloutId (p # ps) w = do {
     c \<leftarrow> p_flows w p;
     if f_calloutId c = calloutId
     then collect_loop calloutId ps
            (w\<lparr>g_SkFlowList := remove1 p (g_SkFlowList w), g_SkFlowEntries := g_SkFlowEntries w - 1,
               flow_stale := flow_stale w @ [p]\<rparr>)
     else collect_loop calloutId ps w
   }"

definition remove_collect :: "u32 \<Rightarrow> 'a flow_scheme \<Rightarrow> 'a flow_scheme option" where
  "remove_collect calloutId w = collect_loop calloutId (g_SkFlowList w) (w\<lparr>flow_stale := []\<rparr>)"

text \<open>
  The second part. Every round takes one entry off the local list; the fuel is its length,
  which nothing but this loop and the unlinks of others change, and those only shorten it.
\<close>

fun remove_loop ::
    "(u64 \<Rightarrow> u16 \<Rightarrow> u32 \<Rightarrow> 'a flow_scheme \<Rightarrow> ntstatus \<times> 'a flow_scheme) \<Rightarrow> u32 \<Rightarrow> nat
     \<Rightarrow> 'a flow_scheme \<Rightarrow> 'a flow_scheme option" where
  "remove_loop FlowRemoveContext calloutId 0 w = Some w"
| "remove_loop FlowRemoveContext calloutId (Suc n) w =
     (case flow_stale w of
        [] \<Rightarrow> Some w
      | p # ps \<Rightarrow> do {
          w \<leftarrow> upd_flow p (\<lambda>c. c\<lparr>f_linked := False\<rparr>) (w\<lparr>flow_stale := ps\<rparr>);
          c \<leftarrow> p_flows w p;
          let (st, w) = FlowRemoveContext (f_flowId c) (skFlowWfpLayerId (f_layerId c)) calloutId w;
          w \<leftarrow> (if st = STATUS_SUCCESS then SkFlowRelease p w else flow_link p w);
          remove_loop FlowRemoveContext calloutId n w
        })"

definition SkFlowRemoveAll ::
    "(u64 \<Rightarrow> u16 \<Rightarrow> u32 \<Rightarrow> 'a flow_scheme \<Rightarrow> ntstatus \<times> 'a flow_scheme) \<Rightarrow> u32
     \<Rightarrow> 'a flow_scheme \<Rightarrow> 'a flow_scheme option" where
  "SkFlowRemoveAll FlowRemoveContext calloutId w =
     (if \<not> g_SkFlowInited w then Some w
      else do {
        w \<leftarrow> remove_collect calloutId w;
        remove_loop FlowRemoveContext calloutId (length (flow_stale w)) w
      })"

definition SkFlowCount :: "'a flow_scheme \<Rightarrow> u32" where
  "SkFlowCount w = (if \<not> g_SkFlowInited w then 0 else g_SkFlowEntries w)"

fun destroy_loop :: "nat list \<Rightarrow> 'a flow_scheme \<Rightarrow> 'a flow_scheme option" where
  "destroy_loop [] w = Some w"
| "destroy_loop (p # ps) w = do {
     w \<leftarrow> free_flow p (w\<lparr>g_SkFlowList := ps, g_SkFlowEntries := g_SkFlowEntries w - 1\<rparr>);
     destroy_loop ps w
   }"

definition SkFlowDestroy :: "'a flow_scheme \<Rightarrow> 'a flow_scheme option" where
  "SkFlowDestroy w =
     (if \<not> g_SkFlowInited w then Some w
      else do {
        w \<leftarrow> destroy_loop (g_SkFlowList w) w;
        Some (w\<lparr>g_SkFlowInited := False\<rparr>)
      })"

end
