(* ===== verification/FlowProtocol.thy ===== *)
theory FlowProtocol
  imports FlowContext
begin

text \<open>
  Any number of threads on the flow table: attachers waiting for WFP's answer, holders of a
  context, WFP's flow-delete callbacks and one \<open>SkFlowRemoveAll\<close>, interleaved lock section by
  lock section. The steps are the sections of \<open>FlowContext\<close>.
\<close>

record flowsys =
  fs_w :: flow
  fs_held :: "nat multiset"        \<comment> \<open>references callers hold\<close>
  fs_pending :: "nat multiset"     \<comment> \<open>contexts of attachers that wait for the association\<close>
  fs_hand :: "nat option"          \<comment> \<open>the entry \<open>SkFlowRemoveAll\<close> has taken off its local list\<close>
  fs_removing :: bool

abbreviation caller_refs :: "flowsys \<Rightarrow> nat multiset" where
  "caller_refs s \<equiv> fs_held s + fs_pending s"

inductive flow_step :: "flowsys \<Rightarrow> flowsys \<Rightarrow> bool" where
  attach_new: "g_SkFlowInited (fs_w s) \<Longrightarrow> size (caller_refs s) < 0x7FFFFFFF \<Longrightarrow>
    attach_section flowId layerId calloutId (fs_w s) = Some (Inr p, w) \<Longrightarrow>
    flow_step s (s\<lparr>fs_w := w, fs_pending := add_mset p (fs_pending s)\<rparr>)"
| attach_old: "g_SkFlowInited (fs_w s) \<Longrightarrow> size (caller_refs s) < 0x7FFFFFFF \<Longrightarrow>
    attach_section flowId layerId calloutId (fs_w s) = Some (Inl p, w) \<Longrightarrow>
    flow_step s (s\<lparr>fs_w := w, fs_held := add_mset p (fs_held s)\<rparr>)"
| associated: "fs_pending s = add_mset p M \<Longrightarrow>
    flow_step s (s\<lparr>fs_pending := M, fs_held := add_mset p (fs_held s)\<rparr>)"
| not_associated: "fs_pending s = add_mset p M \<Longrightarrow> attach_rollback p (fs_w s) = Some w \<Longrightarrow>
    flow_step s (s\<lparr>fs_w := w, fs_pending := M\<rparr>)"
| caller_release: "fs_held s = add_mset p M \<Longrightarrow> SkFlowRelease p (fs_w s) = Some w \<Longrightarrow>
    flow_step s (s\<lparr>fs_w := w, fs_held := M\<rparr>)"
| flow_deleted: "SkFlowDeleteNotify ctx (fs_w s) = Some w \<Longrightarrow> flow_step s (s\<lparr>fs_w := w\<rparr>)"
| remove_begin: "\<not> fs_removing s \<Longrightarrow> remove_collect calloutId (fs_w s) = Some w \<Longrightarrow>
    flow_step s (s\<lparr>fs_w := w, fs_removing := True\<rparr>)"
| remove_take: "fs_removing s \<Longrightarrow> fs_hand s = None \<Longrightarrow> flow_stale (fs_w s) = p # ps \<Longrightarrow>
    upd_flow p (\<lambda>c. c\<lparr>f_linked := False\<rparr>) ((fs_w s)\<lparr>flow_stale := ps\<rparr>) = Some w \<Longrightarrow>
    flow_step s (s\<lparr>fs_w := w, fs_hand := Some p\<rparr>)"
| remove_done: "fs_hand s = Some p \<Longrightarrow> SkFlowRelease p (fs_w s) = Some w \<Longrightarrow>
    flow_step s (s\<lparr>fs_w := w, fs_hand := None\<rparr>)"
| remove_again: "fs_hand s = Some p \<Longrightarrow> flow_link p (fs_w s) = Some w \<Longrightarrow>
    flow_step s (s\<lparr>fs_w := w, fs_hand := None\<rparr>)"
| remove_end: "fs_removing s \<Longrightarrow> fs_hand s = None \<Longrightarrow> flow_stale (fs_w s) = [] \<Longrightarrow>
    flow_step s (s\<lparr>fs_removing := False\<rparr>)"

section \<open>The invariant\<close>

text \<open>The references to a context: one of the table (or of the remover), and the callers'.\<close>

definition owned :: "flowsys \<Rightarrow> nat list" where
  "owned s = g_SkFlowList (fs_w s) @ flow_stale (fs_w s) @ (case fs_hand s of None \<Rightarrow> [] | Some p \<Rightarrow> [p])"

definition flow_refs :: "flowsys \<Rightarrow> nat \<Rightarrow> nat" where
  "flow_refs s p = (if p \<in> set (owned s) then 1 else 0) + count (caller_refs s) p"

definition listed :: "flowsys \<Rightarrow> nat set" where
  "listed s = set (g_SkFlowList (fs_w s)) \<union> set (flow_stale (fs_w s))"

definition ctx_ok :: "flowsys \<Rightarrow> nat \<Rightarrow> bool" where
  "ctx_ok s p \<longleftrightarrow>
     (case p_flows (fs_w s) p of
        None \<Rightarrow> flow_refs s p = 0
      | Some c \<Rightarrow> 0 < flow_refs s p \<and> unat (f_ref c) = flow_refs s p \<and>
          (f_linked c \<longleftrightarrow> p \<in> listed s))"

definition flow_inv :: "flowsys \<Rightarrow> bool" where
  "flow_inv s \<longleftrightarrow>
     distinct (owned s) \<and> (\<forall>p. ctx_ok s p) \<and> (\<forall>p \<ge> p_next (fs_w s). p_flows (fs_w s) p = None) \<and>
     size (caller_refs s) \<le> 0x7FFFFFFF \<and>
     (\<not> fs_removing s \<longrightarrow> flow_stale (fs_w s) = [] \<and> fs_hand s = None)"

lemma flow_refs_bound: "flow_inv s \<Longrightarrow> flow_refs s p \<le> 0x80000000"
  using count_le_size [of "caller_refs s" p] by (simp add: flow_inv_def flow_refs_def)

lemma ctx_okD:
  assumes "flow_inv s"
  shows "flow_refs s p \<noteq> 0 \<Longrightarrow> \<exists>c. p_flows (fs_w s) p = Some c \<and> unat (f_ref c) = flow_refs s p \<and>
    (f_linked c \<longleftrightarrow> p \<in> listed s)"
  using assms by (auto simp: flow_inv_def ctx_ok_def split: option.splits dest: spec [of _ p])

lemma word_pred:
  fixes r :: u32
  assumes "unat r = Suc n"
  shows "r - 1 = of_nat n" and "unat (r - 1) = n" and "r = 1 \<longleftrightarrow> n = 0"
proof -
  have r: "r = of_nat (Suc n)" using assms by (metis of_nat_unat ucast_id)
  then show "r - 1 = of_nat n" by simp
  moreover have "Suc n < 2 ^ 32" using assms unat_u32_less [of r] by simp
  ultimately show "unat (r - 1) = n" by (simp add: unat_of_nat take_bit_nat_eq_self)
  show "r = 1 \<longleftrightarrow> n = 0" using assms by (metis One_nat_def nat.inject unat_1 word_unat_eq_iff)
qed

text \<open>A release with \<open>Suc n\<close> references left.\<close>

lemma release_eq:
  assumes "p_flows w p = Some c" and "unat (f_ref c) = Suc n"
  shows "SkFlowRelease p w =
    Some (w\<lparr>p_flows := (p_flows w)(p := if n = 0 then None else Some (c\<lparr>f_ref := of_nat n\<rparr>))\<rparr>)"
  using assms(1) word_pred [OF assms(2)] by (simp add: SkFlowRelease_def upd_flow_def free_flow_def)


text \<open>A step that changes what is known of one context.\<close>

lemma inv_intro:
  assumes "flow_inv s" and "distinct (owned t)" and "size (caller_refs t) \<le> 0x7FFFFFFF"
    and "fs_removing t \<or> flow_stale (fs_w t) = [] \<and> fs_hand t = None"
    and "p_next (fs_w s) \<le> p_next (fs_w t)" and "p < p_next (fs_w t) \<or> p_flows (fs_w t) p = None"
    and "\<And>q. q \<noteq> p \<Longrightarrow> p_flows (fs_w t) q = p_flows (fs_w s) q \<and> flow_refs t q = flow_refs s q \<and>
           (q \<in> listed t \<longleftrightarrow> q \<in> listed s)"
    and "ctx_ok t p"
  shows "flow_inv t"
proof -
  have "ctx_ok t q" for q
  proof (cases "q = p")
    case False
    moreover have "ctx_ok s q" using assms(1) by (simp add: flow_inv_def)
    ultimately show ?thesis
      using assms(7) [OF False] by (cases "p_flows (fs_w s) q") (simp_all add: ctx_ok_def)
  qed (simp add: assms(8))
  moreover have "p_flows (fs_w t) q = None" if "p_next (fs_w t) \<le> q" for q
    using assms(1,5,6,7) that by (cases "q = p") (auto simp: flow_inv_def)
  ultimately show ?thesis using assms(2-4) by (auto simp: flow_inv_def)
qed

lemma pool_below:
  assumes "flow_inv s" and "p_flows (fs_w s) p = Some c"
  shows "p < p_next (fs_w s)"
  using assms by (auto simp: flow_inv_def linorder_not_le [symmetric])

text \<open>One reference to \<open>p\<close> less.\<close>

lemma inv_release:
  assumes inv: "flow_inv s" and rel: "SkFlowRelease p (fs_w u) = Some w"
    and u: "p_flows (fs_w u) = p_flows (fs_w s)" "p_next (fs_w u) = p_next (fs_w s)" "owned u = owned s"
      "caller_refs u = caller_refs s" "listed u = listed s"
    and t: "fs_w t = w" "distinct (owned t)" "size (caller_refs t) \<le> size (caller_refs s)"
      "fs_removing t \<or> flow_stale w = [] \<and> fs_hand t = None"
      "\<And>q. q \<noteq> p \<Longrightarrow> flow_refs t q = flow_refs s q" "Suc (flow_refs t p) = flow_refs s p"
  shows "flow_inv t"
proof -
  from t(6) obtain c where c: "p_flows (fs_w s) p = Some c" "unat (f_ref c) = flow_refs s p"
      "f_linked c \<longleftrightarrow> p \<in> listed s"
    using ctx_okD [OF inv, of p] by auto
  have w: "w = (fs_w u)\<lparr>p_flows := (p_flows (fs_w u))
      (p := if flow_refs t p = 0 then None else Some (c\<lparr>f_ref := of_nat (flow_refs t p)\<rparr>))\<rparr>"
    using rel release_eq [of "fs_w u" p c "flow_refs t p"] c u(1) t(6) by simp
  have listed: "listed t = listed s" using u(5) by (simp add: listed_def t(1) w)
  have "flow_refs t p \<le> 0x80000000" using flow_refs_bound [OF inv, of p] t(6) by simp
  then have "unat (of_nat (flow_refs t p) :: u32) = flow_refs t p"
    by (simp add: unat_of_nat take_bit_nat_eq_self)
  then have "ctx_ok t p" using c(3) listed by (auto simp: ctx_ok_def t(1) w)
  moreover have "p < p_next w" using pool_below [OF inv c(1)] u(2) by (simp add: w)
  moreover have "size (caller_refs t) \<le> 0x7FFFFFFF" using t(3) inv by (simp add: flow_inv_def)
  ultimately show ?thesis
    using t(2,4,5) u(1,2) listed by (intro inv_intro [OF inv, of t p]) (simp_all add: t(1) w)
qed


section \<open>The steps keep it\<close>

lemma find_result:
  assumes "\<And>q. q \<in> set ps \<Longrightarrow> p_flows w q \<noteq> None"
  shows "\<exists>r. skFlowFindLocked flowId ps w = Some r \<and> (\<forall>q. r = Some q \<longrightarrow> q \<in> set ps)"
  using assms by (induction ps) fastforce+

lemma owned_in_pool: "flow_inv s \<Longrightarrow> q \<in> set (owned s) \<Longrightarrow> \<exists>c. p_flows (fs_w s) q = Some c"
  using ctx_okD [of s q] by (auto simp: flow_refs_def)

lemma attach_section_cases:
  assumes inv: "flow_inv s"
  shows "(\<exists>q c. q \<in> set (g_SkFlowList (fs_w s)) \<and> p_flows (fs_w s) q = Some c \<and>
      attach_section flowId layerId calloutId (fs_w s) =
        Some (Inl q, (fs_w s)\<lparr>p_next := Suc (p_next (fs_w s)),
          p_flows := (p_flows (fs_w s))(q \<mapsto> c\<lparr>f_ref := f_ref c + 1\<rparr>)\<rparr>)) \<or>
    attach_section flowId layerId calloutId (fs_w s) =
      Some (Inr (p_next (fs_w s)), (fs_w s)\<lparr>p_next := Suc (p_next (fs_w s)),
        p_flows := (p_flows (fs_w s))(p_next (fs_w s) \<mapsto> (new_flow flowId layerId calloutId)\<lparr>f_linked := True\<rparr>),
        g_SkFlowList := g_SkFlowList (fs_w s) @ [p_next (fs_w s)],
        g_SkFlowEntries := g_SkFlowEntries (fs_w s) + 1\<rparr>)"
proof -
  let ?w = "fs_w s" and ?p = "p_next (fs_w s)"
  let ?w1 = "?w\<lparr>p_next := Suc ?p, p_flows := (p_flows ?w)(?p \<mapsto> new_flow flowId layerId calloutId)\<rparr>"
  have fresh: "p_flows ?w ?p = None" using inv by (simp add: flow_inv_def)
  have dom: "p_flows ?w1 q \<noteq> None" if "q \<in> set (g_SkFlowList ?w)" for q
    using owned_in_pool [OF inv, of q] that by (auto simp: owned_def)
  obtain r where r: "skFlowFindLocked flowId (g_SkFlowList ?w) ?w1 = Some r"
      "\<And>q. r = Some q \<Longrightarrow> q \<in> set (g_SkFlowList ?w)"
    using find_result [of "g_SkFlowList ?w" ?w1 flowId] dom by auto
  show ?thesis
  proof (cases r)
    case None
    with r(1) show ?thesis
      by (simp add: attach_section_def flow_link_def upd_flow_def Let_def)
  next
    case (Some q)
    then have q: "q \<in> set (g_SkFlowList ?w)" by (rule r(2))
    then obtain c where c: "p_flows ?w q = Some c" using owned_in_pool [OF inv, of q] by (auto simp: owned_def)
    with fresh have neq: "q \<noteq> ?p" by auto
    have "(p_flows ?w)(?p := None, q \<mapsto> c\<lparr>f_ref := f_ref c + 1\<rparr>) = (p_flows ?w)(q \<mapsto> c\<lparr>f_ref := f_ref c + 1\<rparr>)"
      using fresh by (simp add: fun_upd_idem)
    with Some r(1) q c neq show ?thesis
      by (auto simp: attach_section_def SkFlowAddRef_def upd_flow_def free_flow_def fun_upd_twist Let_def)
  qed
qed

lemma inv_attach_old:
  assumes inv: "flow_inv s" and "size (caller_refs s) < 0x7FFFFFFF"
    and att: "attach_section flowId layerId calloutId (fs_w s) = Some (Inl p, w)"
  shows "flow_inv (s\<lparr>fs_w := w, fs_held := add_mset p (fs_held s)\<rparr>)" (is "flow_inv ?t")
proof -
  from attach_section_cases [OF inv, of flowId layerId calloutId] att obtain c where
    c: "p \<in> set (g_SkFlowList (fs_w s))" "p_flows (fs_w s) p = Some c" and
    w: "w = (fs_w s)\<lparr>p_next := Suc (p_next (fs_w s)),
          p_flows := (p_flows (fs_w s))(p \<mapsto> c\<lparr>f_ref := f_ref c + 1\<rparr>)\<rparr>"
    by auto
  have same: "owned ?t = owned s" "listed ?t = listed s"
    by (simp_all add: owned_def listed_def w)
  have refs: "flow_refs ?t q = flow_refs s q + (if q = p then 1 else 0)" for q
    by (simp add: flow_refs_def same)
  have "0 < flow_refs s p \<and> unat (f_ref c) = flow_refs s p \<and> (f_linked c \<longleftrightarrow> p \<in> listed s)"
    using inv c(2) by (auto simp: flow_inv_def ctx_ok_def dest!: spec [of _ p])
  moreover have "flow_refs s p \<le> 0x80000000" using flow_refs_bound [OF inv] .
  moreover have "p_flows (fs_w ?t) p = Some (c\<lparr>f_ref := f_ref c + 1\<rparr>)" by (simp add: w)
  ultimately have "ctx_ok ?t p"
    unfolding ctx_ok_def same refs by (simp add: unat_word_ariths)
  then show ?thesis
    using inv assms(2) same refs pool_below [OF inv c(2)]
    by (intro inv_intro [OF inv, of ?t p]) (auto simp: flow_inv_def w)
qed

lemma inv_attach_new:
  assumes inv: "flow_inv s" and "size (caller_refs s) < 0x7FFFFFFF"
    and att: "attach_section flowId layerId calloutId (fs_w s) = Some (Inr p, w)"
  shows "flow_inv (s\<lparr>fs_w := w, fs_pending := add_mset p (fs_pending s)\<rparr>)" (is "flow_inv ?t")
proof -
  from attach_section_cases [OF inv, of flowId layerId calloutId] att have
    p: "p = p_next (fs_w s)" and
    w: "w = (fs_w s)\<lparr>p_next := Suc p,
        p_flows := (p_flows (fs_w s))(p \<mapsto> (new_flow flowId layerId calloutId)\<lparr>f_linked := True\<rparr>),
        g_SkFlowList := g_SkFlowList (fs_w s) @ [p],
        g_SkFlowEntries := g_SkFlowEntries (fs_w s) + 1\<rparr>"
    by auto
  have fresh: "flow_refs s p = 0"
    using inv p by (auto simp: flow_inv_def ctx_ok_def dest!: spec [of _ p])
  then have new: "p \<notin> set (owned s)" "count (caller_refs s) p = 0"
    by (auto simp: flow_refs_def split: if_splits)
  have owned: "set (owned ?t) = insert p (set (owned s))" "distinct (owned ?t)"
    using new(1) inv by (auto simp: owned_def w flow_inv_def split: option.splits)
  have "listed ?t = insert p (listed s)" by (auto simp: listed_def w)
  moreover have refs: "flow_refs ?t q = (if q = p then 2 else flow_refs s q)" for q
    using new by (auto simp: flow_refs_def owned(1) simp del: set_append)
  moreover have "p_flows (fs_w ?t) p = Some ((new_flow flowId layerId calloutId)\<lparr>f_linked := True\<rparr>)"
    by (simp add: w)
  moreover from calculation have "ctx_ok ?t p"
    unfolding ctx_ok_def by (simp add: new_flow_def)
  ultimately show ?thesis
    using inv assms(2) owned(2) p by (intro inv_intro [OF inv, of ?t p]) (auto simp: flow_inv_def w)
qed


lemma ctx_of:
  assumes "flow_inv s" and "0 < flow_refs s p"
  obtains c where "p_flows (fs_w s) p = Some c" "unat (f_ref c) = flow_refs s p" "f_linked c \<longleftrightarrow> p \<in> listed s"
  using ctx_okD [OF assms(1), of p] assms(2) by auto

lemma inv_unlinked:
  assumes inv: "flow_inv s" and p: "p \<in> listed s" "p_flows (fs_w s) p = Some c"
    and t: "fs_w t = (fs_w s)\<lparr>p_flows := (p_flows (fs_w s))
          (p := if n = 0 then None else Some (c\<lparr>f_linked := False, f_ref := of_nat n\<rparr>)),
        g_SkFlowList := remove1 p (g_SkFlowList (fs_w s)), flow_stale := remove1 p (flow_stale (fs_w s)),
        g_SkFlowEntries := e\<rparr>"
      "fs_hand t = fs_hand s" "fs_removing t = fs_removing s" "size (caller_refs t) \<le> size (caller_refs s)"
      "\<And>q. q \<noteq> p \<Longrightarrow> count (caller_refs t) q = count (caller_refs s) q" "n = count (caller_refs t) p"
  shows "flow_inv t"
proof -
  have dist: "distinct (owned s)" using inv by (simp add: flow_inv_def)
  then have owned: "set (owned t) = set (owned s) - {p}" "distinct (owned t)"
    using p(1) by (auto simp: owned_def t(1,2) listed_def split: option.splits)
  have listed: "listed t = listed s - {p}"
    using dist by (auto simp: listed_def owned_def t(1))
  have "count (caller_refs t) p \<le> 0x7FFFFFFF"
    using count_le_size [of "caller_refs t" p] t(4) inv by (simp add: flow_inv_def)
  then have "n \<le> 0x7FFFFFFF" by (simp only: t(6))
  then have "unat (of_nat n :: u32) = n" by (simp add: unat_of_nat take_bit_nat_eq_self)
  moreover have refs: "flow_refs t q = (if q = p then n else flow_refs s q)" for q
    using t(5) by (simp add: flow_refs_def owned(1) t(6))
  moreover have "p_flows (fs_w t) p = (if n = 0 then None else Some (c\<lparr>f_linked := False, f_ref := of_nat n\<rparr>))"
    by (simp add: t(1))
  ultimately have "ctx_ok t p" unfolding ctx_ok_def listed by simp
  moreover have "fs_removing t \<or> flow_stale (fs_w t) = [] \<and> fs_hand t = None"
    using inv by (auto simp: t(1-3) flow_inv_def)
  ultimately show ?thesis
    using inv owned(2) t(4) listed refs pool_below [OF inv p(2)]
    by (intro inv_intro [OF inv, of t p]) (auto simp: flow_inv_def t(1))
qed

lemma unlink_release_eq:
  assumes "p_flows w p = Some c" and "unat (f_ref c) = Suc n"
  shows "do { w \<leftarrow> flow_unlink p w; SkFlowRelease p w } =
    Some (w\<lparr>p_flows := (p_flows w)(p := if n = 0 then None else Some (c\<lparr>f_linked := False, f_ref := of_nat n\<rparr>)),
        g_SkFlowList := remove1 p (g_SkFlowList w), flow_stale := remove1 p (flow_stale w),
        g_SkFlowEntries := g_SkFlowEntries w - 1\<rparr>)"
proof -
  let ?u = "w\<lparr>p_flows := (p_flows w)(p \<mapsto> c\<lparr>f_linked := False\<rparr>),
      g_SkFlowList := remove1 p (g_SkFlowList w), flow_stale := remove1 p (flow_stale w),
      g_SkFlowEntries := g_SkFlowEntries w - 1\<rparr>"
  have "SkFlowRelease p ?u = Some (?u\<lparr>p_flows := (p_flows ?u)
      (p := if n = 0 then None else Some (c\<lparr>f_linked := False, f_ref := of_nat n\<rparr>))\<rparr>)"
    using release_eq [of ?u p "c\<lparr>f_linked := False\<rparr>" n] assms(2) by simp
  with assms(1) show ?thesis by (simp add: flow_unlink_def upd_flow_def)
qed

lemma inv_flow_deleted:
  assumes inv: "flow_inv s" and del: "SkFlowDeleteNotify ctx (fs_w s) = Some w"
  shows "flow_inv (s\<lparr>fs_w := w\<rparr>)"
proof (cases "\<exists>p. ctx = Some p \<and> g_SkFlowInited (fs_w s) \<and> p \<in> set (g_SkFlowList (fs_w s))")
  case True
  then obtain p where p: "ctx = Some p" "g_SkFlowInited (fs_w s)" "p \<in> set (g_SkFlowList (fs_w s))" by auto
  define n where "n = count (caller_refs s) p"
  have refs: "flow_refs s p = Suc n" using p(3) by (simp add: flow_refs_def owned_def n_def)
  then obtain c where c: "p_flows (fs_w s) p = Some c" "unat (f_ref c) = Suc n"
    using ctx_of [OF inv, of p] by auto
  have "w = (fs_w s)\<lparr>p_flows := (p_flows (fs_w s))
      (p := if n = 0 then None else Some (c\<lparr>f_linked := False, f_ref := of_nat n\<rparr>)),
      g_SkFlowList := remove1 p (g_SkFlowList (fs_w s)), flow_stale := remove1 p (flow_stale (fs_w s)),
      g_SkFlowEntries := g_SkFlowEntries (fs_w s) - 1\<rparr>"
    using del p unlink_release_eq [OF c] by (simp add: SkFlowDeleteNotify_def)
  with p(3) show ?thesis
    by (intro inv_unlinked [OF inv _ c(1), where n = n and e = "g_SkFlowEntries (fs_w s) - 1"])
      (simp_all add: listed_def n_def)
next
  case False
  then have "w = fs_w s" using del by (auto simp: SkFlowDeleteNotify_def split: option.splits if_splits)
  with inv show ?thesis by simp
qed

text \<open>A release changes nothing but the pool.\<close>

lemma release_frame:
  assumes "SkFlowRelease p w = Some w'"
  shows "g_SkFlowList w' = g_SkFlowList w" and "flow_stale w' = flow_stale w" and "p_next w' = p_next w"
  using assms by (auto simp: SkFlowRelease_def upd_flow_def free_flow_def split: bind_splits if_splits)

text \<open>A step that moves references around but changes no context.\<close>

lemma inv_same:
  assumes inv: "flow_inv s" and "distinct (owned t)" and "set (owned t) = set (owned s)"
    and "listed t = listed s" and "caller_refs t = caller_refs s"
    and "p_flows (fs_w t) = p_flows (fs_w s)" and "p_next (fs_w t) = p_next (fs_w s)"
    and "fs_removing t \<or> flow_stale (fs_w t) = [] \<and> fs_hand t = None"
  shows "flow_inv t"
proof -
  have "flow_refs t q = flow_refs s q" for q by (simp add: flow_refs_def assms(3,5))
  then have "ctx_ok t q = ctx_ok s q" for q
    by (simp add: ctx_ok_def assms(4,6) split: option.split)
  with inv have "\<forall>q. ctx_ok t q" by (simp add: flow_inv_def)
  then show ?thesis using assms unfolding flow_inv_def by simp blast
qed

lemma inv_rollback:
  assumes inv: "flow_inv s" and pend: "fs_pending s = add_mset p M"
    and rb: "attach_rollback p (fs_w s) = Some w"
  shows "flow_inv (s\<lparr>fs_w := w, fs_pending := M\<rparr>)" (is "flow_inv ?t")
proof (cases "p \<in> listed s")
  case True
  define n where "n = count (fs_held s + M) p"
  have "flow_refs s p = Suc (Suc n)"
    using True pend by (auto simp: flow_refs_def owned_def listed_def n_def)
  then obtain c where c: "p_flows (fs_w s) p = Some c" "unat (f_ref c) = Suc (Suc n)" "f_linked c"
    using ctx_of [OF inv, of p] True by auto
  note u = unlink_release_eq [OF c(1,2)]
  obtain v where v: "flow_unlink p (fs_w s) \<bind> SkFlowRelease p = Some v" "p_flows v p =
      Some (c\<lparr>f_linked := False, f_ref := of_nat (Suc n)\<rparr>)"
      "v = (fs_w s)\<lparr>p_flows := (p_flows (fs_w s))(p \<mapsto> c\<lparr>f_linked := False, f_ref := of_nat (Suc n)\<rparr>),
        g_SkFlowList := remove1 p (g_SkFlowList (fs_w s)), flow_stale := remove1 p (flow_stale (fs_w s)),
        g_SkFlowEntries := g_SkFlowEntries (fs_w s) - 1\<rparr>"
    using u by auto
  have "Suc n \<le> 0x80000000"
    using count_le_size [of "fs_held s + M" p] inv pend by (simp add: flow_inv_def n_def)
  then have "unat (of_nat (Suc n) :: u32) = Suc n"
    by (simp add: unat_of_nat take_bit_nat_eq_self del: of_nat_Suc)
  then have "SkFlowRelease p v = Some (v\<lparr>p_flows := (p_flows v)
      (p := if n = 0 then None else Some (c\<lparr>f_linked := False, f_ref := of_nat n\<rparr>))\<rparr>)"
    using release_eq [OF v(2), of n] by simp
  moreover obtain y where "flow_unlink p (fs_w s) = Some y" "SkFlowRelease p y = Some v"
    using v(1) by (auto simp: bind_eq_Some_conv)
  then have "attach_rollback p (fs_w s) = SkFlowRelease p v"
    using c(1,3) by (simp add: attach_rollback_def)
  ultimately have "w = (fs_w s)\<lparr>p_flows := (p_flows (fs_w s))
      (p := if n = 0 then None else Some (c\<lparr>f_linked := False, f_ref := of_nat n\<rparr>)),
      g_SkFlowList := remove1 p (g_SkFlowList (fs_w s)), flow_stale := remove1 p (flow_stale (fs_w s)),
      g_SkFlowEntries := g_SkFlowEntries (fs_w s) - 1\<rparr>"
    using rb v(3) by simp
  with pend show ?thesis by (intro inv_unlinked [OF inv True c(1), where t = ?t and n = n and e = "g_SkFlowEntries (fs_w s) - 1"])
      (simp_all add: n_def)
next
  case False
  have "0 < flow_refs s p" using pend by (simp add: flow_refs_def)
  then obtain c where "p_flows (fs_w s) p = Some c" "\<not> f_linked c" using ctx_of [OF inv] False by metis
  with rb have rel: "SkFlowRelease p (fs_w s) = Some w" by (simp add: attach_rollback_def)
  note w = release_frame [OF rel]
  have "owned ?t = owned s" by (simp add: owned_def w)
  then show ?thesis
    using inv pend w(2)
    by (intro inv_release [OF inv rel]) (auto simp: flow_inv_def flow_refs_def)
qed


text \<open>The first section of \<open>SkFlowRemoveAll\<close> only moves entries from one list to the other.\<close>

lemma collect_result:
  assumes "\<And>q. q \<in> set ps \<Longrightarrow> p_flows w q \<noteq> None" and "set ps \<subseteq> set (g_SkFlowList w)" and "distinct ps"
  shows "\<exists>v. collect_loop calloutId ps w = Some v \<and> p_flows v = p_flows w \<and> p_next v = p_next w \<and>
    mset (g_SkFlowList v) + mset (flow_stale v) = mset (g_SkFlowList w) + mset (flow_stale w)"
  using assms
proof (induction ps arbitrary: w)
  case Nil
  then show ?case by simp
next
  case (Cons p ps)
  obtain c where c: "p_flows w p = Some c" using Cons.prems(1) [of p] by auto
  show ?case
  proof (cases "f_calloutId c = calloutId")
    case True
    let ?w = "w\<lparr>g_SkFlowList := remove1 p (g_SkFlowList w), g_SkFlowEntries := g_SkFlowEntries w - 1,
        flow_stale := flow_stale w @ [p]\<rparr>"
    have "set ps \<subseteq> set (remove1 p (g_SkFlowList w))"
      using Cons.prems(2,3) by (auto simp: subset_iff) (metis in_set_remove1)
    then have "\<exists>v. collect_loop calloutId ps ?w = Some v \<and> p_flows v = p_flows ?w \<and> p_next v = p_next ?w \<and>
        mset (g_SkFlowList v) + mset (flow_stale v) = mset (g_SkFlowList ?w) + mset (flow_stale ?w)"
      by (intro Cons.IH) (use Cons.prems(1,3) in simp_all)
    then obtain v where v: "collect_loop calloutId ps ?w = Some v" "p_flows v = p_flows w" "p_next v = p_next w"
        "mset (g_SkFlowList v) + mset (flow_stale v) = mset (g_SkFlowList ?w) + mset (flow_stale ?w)"
      by auto
    have "mset (g_SkFlowList ?w) + mset (flow_stale ?w) = mset (g_SkFlowList w) + mset (flow_stale w)"
      using Cons.prems(2) by simp
    with v c True show ?thesis by (intro exI [of _ v]) simp
  next
    case False
    then show ?thesis using Cons c by simp
  qed
qed

lemma inv_remove_begin:
  assumes inv: "flow_inv s" and idle: "\<not> fs_removing s" and col: "remove_collect calloutId (fs_w s) = Some w"
  shows "flow_inv (s\<lparr>fs_w := w, fs_removing := True\<rparr>)" (is "flow_inv ?t")
proof -
  have empty: "flow_stale (fs_w s) = []" "fs_hand s = None" using inv idle by (auto simp: flow_inv_def)
  have "distinct (g_SkFlowList (fs_w s))" using inv by (auto simp: flow_inv_def owned_def)
  moreover have "p_flows (fs_w s) q \<noteq> None" if "q \<in> set (g_SkFlowList (fs_w s))" for q
    using owned_in_pool [OF inv, of q] that by (auto simp: owned_def)
  ultimately have w: "p_flows w = p_flows (fs_w s)" "p_next w = p_next (fs_w s)" and
    m: "mset (g_SkFlowList w @ flow_stale w) = mset (g_SkFlowList (fs_w s))"
    using collect_result [of "g_SkFlowList (fs_w s)" "(fs_w s)\<lparr>flow_stale := []\<rparr>" calloutId] col
    by (auto simp: remove_collect_def)
  have owned: "owned ?t = g_SkFlowList w @ flow_stale w" "owned s = g_SkFlowList (fs_w s)"
    using empty by (simp_all add: owned_def)
  have "distinct (owned ?t)" "set (owned ?t) = set (owned s)"
    using inv mset_eq_imp_distinct_iff [OF m] mset_eq_setD [OF m] by (simp_all only: owned flow_inv_def)
  moreover from this have "listed ?t = listed s" by (simp add: owned empty listed_def)
  ultimately show ?thesis by (intro inv_same [OF inv]) (simp_all add: w)
qed

lemma inv_remove_take:
  assumes inv: "flow_inv s" and rem: "fs_removing s" "fs_hand s = None" "flow_stale (fs_w s) = p # ps"
    and upd: "upd_flow p (\<lambda>c. c\<lparr>f_linked := False\<rparr>) ((fs_w s)\<lparr>flow_stale := ps\<rparr>) = Some w"
  shows "flow_inv (s\<lparr>fs_w := w, fs_hand := Some p\<rparr>)" (is "flow_inv ?t")
proof -
  have "p \<in> set (owned s)" using rem by (simp add: owned_def)
  then have "0 < flow_refs s p" by (simp add: flow_refs_def)
  then obtain c where c: "p_flows (fs_w s) p = Some c" "unat (f_ref c) = flow_refs s p"
    using ctx_of [OF inv, of p] by auto
  have w: "w = (fs_w s)\<lparr>flow_stale := ps, p_flows := (p_flows (fs_w s))(p \<mapsto> c\<lparr>f_linked := False\<rparr>)\<rparr>"
    using upd c(1) by (simp add: upd_flow_def)
  have dist: "distinct (owned s)" using inv by (simp add: flow_inv_def)
  have owned: "set (owned ?t) = set (owned s)" "distinct (owned ?t)"
    using dist rem by (auto simp: owned_def w)
  have refs: "flow_refs ?t q = flow_refs s q" for q by (simp add: flow_refs_def owned(1))
  have listed: "listed ?t = listed s - {p}" using dist rem by (auto simp: listed_def owned_def w)
  have "ctx_ok ?t p"
    using c(2) \<open>0 < flow_refs s p\<close> unfolding ctx_ok_def refs listed by (simp add: w)
  then show ?thesis
    using inv owned(2) refs listed pool_below [OF inv c(1)] rem(1)
    by (intro inv_intro [OF inv, of ?t p]) (auto simp: flow_inv_def w)
qed

lemma inv_remove_again:
  assumes inv: "flow_inv s" and rem: "fs_hand s = Some p" and link: "flow_link p (fs_w s) = Some w"
  shows "flow_inv (s\<lparr>fs_w := w, fs_hand := None\<rparr>)" (is "flow_inv ?t")
proof -
  have "p \<in> set (owned s)" using rem by (simp add: owned_def)
  then have "0 < flow_refs s p" by (simp add: flow_refs_def)
  then obtain c where c: "p_flows (fs_w s) p = Some c" "unat (f_ref c) = flow_refs s p"
    using ctx_of [OF inv, of p] by auto
  have w: "w = (fs_w s)\<lparr>p_flows := (p_flows (fs_w s))(p \<mapsto> c\<lparr>f_linked := True\<rparr>),
      g_SkFlowList := g_SkFlowList (fs_w s) @ [p], g_SkFlowEntries := g_SkFlowEntries (fs_w s) + 1\<rparr>"
    using link c(1) by (simp add: flow_link_def upd_flow_def)
  have dist: "distinct (owned s)" using inv by (simp add: flow_inv_def)
  have owned: "set (owned ?t) = set (owned s)" "distinct (owned ?t)"
    using dist rem by (auto simp: owned_def w)
  have refs: "flow_refs ?t q = flow_refs s q" for q by (simp add: flow_refs_def owned(1))
  have listed: "listed ?t = insert p (listed s)" by (auto simp: listed_def w)
  have "ctx_ok ?t p"
    using c(2) \<open>0 < flow_refs s p\<close> unfolding ctx_ok_def refs listed by (simp add: w)
  then show ?thesis
    using inv owned(2) refs listed pool_below [OF inv c(1)] rem
    by (intro inv_intro [OF inv, of ?t p]) (auto simp: flow_inv_def w)
qed

lemma inv_caller_release:
  assumes inv: "flow_inv s" and held: "fs_held s = add_mset p M" and rel: "SkFlowRelease p (fs_w s) = Some w"
  shows "flow_inv (s\<lparr>fs_w := w, fs_held := M\<rparr>)" (is "flow_inv ?t")
proof -
  note w = release_frame [OF rel]
  have "owned ?t = owned s" by (simp add: owned_def w)
  then show ?thesis
    using inv held w(2) by (intro inv_release [OF inv rel]) (auto simp: flow_inv_def flow_refs_def)
qed

lemma inv_remove_done:
  assumes inv: "flow_inv s" and hand: "fs_hand s = Some p" and rel: "SkFlowRelease p (fs_w s) = Some w"
  shows "flow_inv (s\<lparr>fs_w := w, fs_hand := None\<rparr>)" (is "flow_inv ?t")
proof -
  note w = release_frame [OF rel]
  have dist: "distinct (owned s)" using inv by (simp add: flow_inv_def)
  have owned: "owned s = owned ?t @ [p]" by (simp add: owned_def hand w)
  with dist have "distinct (owned ?t)" "p \<notin> set (owned ?t)" by auto
  then show ?thesis
    using inv hand w(2) owned by (intro inv_release [OF inv rel]) (auto simp: flow_inv_def flow_refs_def)
qed

lemma flow_step_inv:
  assumes "flow_inv s" and "flow_step s t"
  shows "flow_inv t"
  using assms(2)
proof (cases rule: flow_step.cases)
  case (associated p M)
  with assms(1) show ?thesis
    by (intro inv_same [OF assms(1)]) (auto simp: owned_def listed_def flow_inv_def)
next
  case remove_end
  with assms(1) show ?thesis
    by (intro inv_same [OF assms(1)]) (auto simp: owned_def listed_def flow_inv_def)
qed (simp_all add: assms(1) inv_attach_new inv_attach_old inv_rollback inv_caller_release inv_flow_deleted
    inv_remove_begin inv_remove_take inv_remove_done inv_remove_again)

interpretation flows: inductive_invariant flow_step flow_inv
  by unfold_locales (rule flow_step_inv)


section \<open>Exact reference counts\<close>

text \<open>The loaded image after \<open>SkFlowInit\<close>.\<close>

definition image_flow :: flow where
  "image_flow = telemetry.extend image_telemetry
     \<lparr>p_flows = (\<lambda>_. None), g_SkFlowList = [], g_SkFlowEntries = 0, g_SkFlowInited = False, flow_stale = []\<rparr>"

definition flow_start :: flowsys where
  "flow_start = \<lparr>fs_w = snd (SkFlowInit image_flow), fs_held = {#}, fs_pending = {#}, fs_hand = None,
     fs_removing = False\<rparr>"

lemma flow_start_simps [simp]:
  "p_flows (fs_w flow_start) = (\<lambda>_. None)" "g_SkFlowList (fs_w flow_start) = []"
  "flow_stale (fs_w flow_start) = []" "g_SkFlowInited (fs_w flow_start)"
  "fs_held flow_start = {#}" "fs_pending flow_start = {#}" "fs_hand flow_start = None"
  "\<not> fs_removing flow_start"
  by (simp_all add: flow_start_def image_flow_def telemetry.defs SkFlowInit_def)

lemma flow_start_inv: "flow_inv flow_start"
  by (simp add: flow_inv_def owned_def ctx_ok_def flow_refs_def)

lemma release_some: "p_flows w p \<noteq> None \<Longrightarrow> SkFlowRelease p w \<noteq> None"
  by (auto simp: SkFlowRelease_def upd_flow_def free_flow_def)

lemma in_pool: "flow_inv s \<Longrightarrow> 0 < flow_refs s p \<Longrightarrow> p_flows (fs_w s) p \<noteq> None"
  using ctx_of [of s p] by blast

lemma delete_notify_some:
  assumes inv: "flow_inv s"
  shows "SkFlowDeleteNotify ctx (fs_w s) \<noteq> None"
proof -
  have "flow_unlink p (fs_w s) \<bind> SkFlowRelease p \<noteq> None" if "p \<in> set (g_SkFlowList (fs_w s))" for p
  proof -
    have "p \<in> set (owned s)" using that by (simp add: owned_def)
    then obtain c where "p_flows (fs_w s) p = Some c" using owned_in_pool [OF inv] by blast
    then show ?thesis by (simp add: flow_unlink_def upd_flow_def SkFlowRelease_def free_flow_def)
  qed
  then show ?thesis by (simp add: SkFlowDeleteNotify_def split: option.splits)
qed

lemma rollback_some:
  assumes inv: "flow_inv s" and p: "p \<in># fs_pending s"
  shows "attach_rollback p (fs_w s) \<noteq> None"
proof -
  have refs: "0 < flow_refs s p" using p by (simp add: flow_refs_def)
  then obtain c where c: "p_flows (fs_w s) p = Some c" "unat (f_ref c) = flow_refs s p" "f_linked c \<longleftrightarrow> p \<in> listed s"
    using ctx_of [OF inv] by metis
  show ?thesis
  proof (cases "f_linked c")
    case True
    then have "p \<in> set (owned s)" using c(3) by (auto simp: listed_def owned_def)
    moreover have "0 < count (caller_refs s) p" using p by simp
    ultimately have "1 < flow_refs s p" by (simp add: flow_refs_def)
    then have "f_ref c \<noteq> 1" using c(2) by auto
    with True c(1) show ?thesis
      by (simp add: attach_rollback_def flow_unlink_def upd_flow_def SkFlowRelease_def free_flow_def)
  next
    case False
    with c(1) release_some [of "fs_w s" p] show ?thesis by (simp add: attach_rollback_def)
  qed
qed


text \<open>A run: a flow is attached and associated.\<close>

definition attached_flow :: flowsys where
  "attached_flow = \<lparr>fs_w = snd (the (attach_section 7 4 9 (fs_w flow_start))),
     fs_held = {#p_next (fs_w flow_start)#}, fs_pending = {#}, fs_hand = None, fs_removing = False\<rparr>"

lemma attached_flow_reachable: "flow_step\<^sup>*\<^sup>* flow_start attached_flow"
proof -
  let ?p = "p_next (fs_w flow_start)" and ?w = "snd (the (attach_section 7 4 9 (fs_w flow_start)))"
  have sec: "attach_section 7 4 9 (fs_w flow_start) = Some (Inr ?p, ?w)"
    using attach_section_cases [OF flow_start_inv, of 7 4 9] by auto
  let ?s1 = "flow_start\<lparr>fs_w := ?w, fs_pending := {#?p#}\<rparr>"
  have "flow_step flow_start ?s1"
    using attach_new [of flow_start, OF _ _ sec] by simp
  moreover have "flow_step ?s1 attached_flow"
    using associated [of ?s1 ?p "{#}"] by (simp add: attached_flow_def flow_start_def)
  ultimately show ?thesis by (meson converse_rtranclp_into_rtranclp rtranclp.rtrancl_refl)
qed


section \<open>A failed association during a removal\<close>

text \<open>The two things the remover can do while an attacher waits for the association.\<close>

definition remover_collects :: "u32 \<Rightarrow> flow \<Rightarrow> flow" where
  "remover_collects calloutId w = the (remove_collect calloutId w)"

definition remover_takes :: "u32 \<Rightarrow> nat \<Rightarrow> flow \<Rightarrow> flow" where
  "remover_takes calloutId p w =
     the (upd_flow p (\<lambda>c. c\<lparr>f_linked := False\<rparr>) ((remover_collects calloutId w)\<lparr>flow_stale := []\<rparr>))"

text \<open>Two races of \<open>SkFlowAttach\<close> with \<open>SkFlowRemoveAll\<close> when the association fails. If the
  remover has moved the new entry to its local list, the attacher unlinks it from there and lowers
  the entry count a second time: the table is empty and \<open>SkFlowCount\<close> is 2^32 - 1. If the remover
  has taken the entry off that list, the attacher only drops its own reference; when WFP then
  refuses to remove the association that never existed, the remover links the entry again: it stays
  in the table, with the table's reference, although it was never associated.\<close>

theorem attach_remove_race:
  "(case SkFlowAttach True (\<lambda>flowId layerId calloutId p w. (STATUS_UNSUCCESSFUL, remover_collects calloutId w))
      7 4 9 (fs_w flow_start) of
    Some (r, w) \<Rightarrow> r = None \<and> g_SkFlowList w = [] \<and> flow_stale w = [] \<and> SkFlowCount w = 0xFFFFFFFF
  | None \<Rightarrow> False) \<and>
   (case SkFlowAttach True (\<lambda>flowId layerId calloutId p w. (STATUS_UNSUCCESSFUL, remover_takes calloutId p w))
      7 4 9 (fs_w flow_start) of
    Some (r, w) \<Rightarrow> r = None \<and>
      (\<exists>v. flow_link (p_next (fs_w flow_start)) w = Some v \<and>
         g_SkFlowList v = [p_next (fs_w flow_start)] \<and>
         map_option f_ref (p_flows v (p_next (fs_w flow_start))) = Some 1)
  | None \<Rightarrow> False)"
  by (simp add: SkFlowAttach_def attach_section_def flow_link_def upd_flow_def Let_def new_flow_def
      remover_collects_def remover_takes_def remove_collect_def attach_rollback_def flow_unlink_def
      SkFlowRelease_def free_flow_def SkFlowCount_def flow_start_def image_flow_def telemetry.defs SkFlowInit_def)

end
