(* ===== verification/WfpObjects.thy ===== *)
theory WfpObjects
  imports WfpTracking FlowContext
begin

text \<open>
  wfp/wfp_objects.c with the layer table of wfp/wfp_callouts.c and the keys of
  wfp/wfp_guids.h: the state machine of one WFP object, from its creation to its removal.

  As in \<open>WfpTracking\<close>, an object is passed and returned by value and the kernel is a
  parameter; the creating calls of WFP are the record \<open>api\<close>. The transient state QUIESCING
  of an unregister is visible in the loop's object only.
\<close>

section \<open>Keys and the layer table\<close>

definition g_SkProviderKey :: guid where
  "g_SkProviderKey = GUID 0x471b9041 0x60c8 0x4000 [0x89, 0xab, 0x0f, 0x99, 0xb7, 0x04, 0x95, 0xbe]"

definition g_SkSubLayerKey :: guid where
  "g_SkSubLayerKey = GUID 0xa0ee102a 0x514e 0x48ca [0xa4, 0x35, 0x22, 0x5a, 0x4d, 0x30, 0x3c, 0xb0]"

definition zero_guid :: guid where
  "zero_guid = GUID 0 0 0 [0, 0, 0, 0, 0, 0, 0, 0]"

text \<open>The callbacks of a card are known by its layer; here is only whether there is a flow-delete one.\<close>

record callout_def =
  cd_layerId :: u32
  cd_layerKey :: guid
  cd_calloutKey :: guid
  cd_filterKey :: guid
  cd_name :: string
  cd_flowDelete :: bool
  cd_hardBlockAllowed :: u32

abbreviation SK_LAYER_COUNT :: nat where "SK_LAYER_COUNT \<equiv> 6"

definition g_SkCalloutDefs :: "callout_def list" where
  "g_SkCalloutDefs =
    [\<lparr>cd_layerId = 0,
      cd_layerKey = GUID 0xc38d57d1 0x05a7 0x4c33 [0x90, 0x4f, 0x7f, 0xbc, 0xee, 0xe6, 0x0e, 0x82],
      cd_calloutKey = GUID 0x9087874c 0x8fa9 0x4f56 [0xb4, 0x26, 0x45, 0x74, 0xe1, 0x17, 0xbd, 0x1f],
      cd_filterKey = GUID 0x947cc9ea 0x2435 0x45e9 [0xbd, 0x6b, 0x41, 0xec, 0x15, 0xd8, 0x23, 0x55],
      cd_name = ''SkAleAuthConnectV4'', cd_flowDelete = False, cd_hardBlockAllowed = 1\<rparr>,
     \<lparr>cd_layerId = 1,
      cd_layerKey = GUID 0x4a72393b 0x319f 0x44bc [0x84, 0xc3, 0xba, 0x54, 0xdc, 0xb3, 0xb6, 0xb4],
      cd_calloutKey = GUID 0x9679cb37 0xab39 0x4ad6 [0xb8, 0x12, 0xb8, 0x63, 0xc4, 0x3b, 0xa8, 0xa0],
      cd_filterKey = GUID 0xaa02a16f 0xffdb 0x4154 [0xb8, 0x60, 0x03, 0x99, 0x9d, 0x03, 0x2c, 0xa5],
      cd_name = ''SkAleAuthConnectV6'', cd_flowDelete = False, cd_hardBlockAllowed = 1\<rparr>,
     \<lparr>cd_layerId = 2,
      cd_layerKey = GUID 0xe1cd9fe7 0xf4b5 0x4273 [0x96, 0xc0, 0x59, 0x2e, 0x48, 0x7b, 0x86, 0x50],
      cd_calloutKey = GUID 0x1b8647f8 0x9e64 0x45ec [0x89, 0xf6, 0xf2, 0x4b, 0x71, 0x70, 0x7b, 0x51],
      cd_filterKey = GUID 0x27fcf1b3 0xcf86 0x4532 [0xaa, 0xe6, 0x87, 0xe9, 0x88, 0x42, 0xe4, 0x00],
      cd_name = ''SkAleRecvAcceptV4'', cd_flowDelete = False, cd_hardBlockAllowed = 1\<rparr>,
     \<lparr>cd_layerId = 3,
      cd_layerKey = GUID 0xa3b42c97 0x9f04 0x4672 [0xb8, 0x7e, 0xce, 0xe9, 0xc4, 0x83, 0x25, 0x7f],
      cd_calloutKey = GUID 0x1db4282c 0xa9ab 0x4e2b [0xb2, 0xcd, 0x35, 0x36, 0x39, 0xc1, 0x43, 0xbd],
      cd_filterKey = GUID 0xd622f799 0x5d79 0x411f [0x93, 0x31, 0xfd, 0x3c, 0xf4, 0x5f, 0xcd, 0xf0],
      cd_name = ''SkAleRecvAcceptV6'', cd_flowDelete = False, cd_hardBlockAllowed = 1\<rparr>,
     \<lparr>cd_layerId = 4,
      cd_layerKey = GUID 0xaf80470a 0x5596 0x4c13 [0x99, 0x92, 0x53, 0x9e, 0x6f, 0xe5, 0x79, 0x67],
      cd_calloutKey = GUID 0xe5fb640f 0x6ffc 0x42df [0xa0, 0xa3, 0xe0, 0xa9, 0x53, 0x5c, 0x10, 0xf8],
      cd_filterKey = GUID 0x474719f0 0x8148 0x43ec [0x91, 0x11, 0x2b, 0x7b, 0xe6, 0xba, 0x67, 0x9e],
      cd_name = ''SkFlowEstablishedV4'', cd_flowDelete = True, cd_hardBlockAllowed = 0\<rparr>,
     \<lparr>cd_layerId = 5,
      cd_layerKey = GUID 0x7021d2b3 0xdfa4 0x406e [0xaf, 0xeb, 0x6a, 0xfa, 0xf7, 0xe7, 0x0e, 0xfd],
      cd_calloutKey = GUID 0x350e9656 0xb326 0x43e4 [0x8b, 0x6e, 0x59, 0x03, 0x91, 0x92, 0xd4, 0x00],
      cd_filterKey = GUID 0xb5667965 0xa574 0x436f [0x93, 0x58, 0x22, 0xcd, 0x55, 0x11, 0x72, 0x19],
      cd_name = ''SkFlowEstablishedV6'', cd_flowDelete = True, cd_hardBlockAllowed = 0\<rparr>]"

definition SkCalloutDefById :: "u32 \<Rightarrow> callout_def option" where
  "SkCalloutDefById layerId =
     (if of_nat SK_LAYER_COUNT \<le> layerId then None else Some (g_SkCalloutDefs ! unat layerId))"

section \<open>Objects\<close>

datatype sk_object_state =
    SkWfpStateUninitialized
  | SkWfpStatePrepared
  | SkWfpStateRegistered
  | SkWfpStateActive
  | SkWfpStateQuiescing
  | SkWfpStateDeleted
  | SkWfpStateFailed
  | SkWfpStateLeaked

datatype sk_phase =
    SkWfpPhaseNone
  | SkWfpPhaseEngineOpen
  | SkWfpPhaseProviderAdd
  | SkWfpPhaseSubLayerAdd
  | SkWfpPhaseCalloutRegister
  | SkWfpPhaseCalloutAdd
  | SkWfpPhaseFilterAdd
  | SkWfpPhaseTeardown

record sk_object =
  so_name :: string
  so_key :: guid
  so_calloutRuntimeId :: u32
  so_calloutId :: u32
  so_filterId :: u64
  so_state :: sk_object_state
  so_phase :: sk_phase
  so_lastStatus :: ntstatus
  so_busyRetries :: u32

text \<open>\<open>live\<close>: the states in which the manager takes an object for registered.\<close>

definition live :: "sk_object \<Rightarrow> bool" where
  "live obj \<longleftrightarrow> so_state obj = SkWfpStateRegistered \<or> so_state obj = SkWfpStateActive"

text \<open>What \<open>FwpmFilterAdd0\<close> is told: no conditions, a terminating callout as the action.\<close>

record filter_spec =
  fl_filterKey :: guid
  fl_layerKey :: guid
  fl_weight :: u64
  fl_calloutKey :: guid

record 'w api =
  fw_EngineOpen :: "u32 \<Rightarrow> 'w \<Rightarrow> ntstatus \<times> handle \<times> 'w"
  fw_TransactionBegin :: "handle \<Rightarrow> 'w \<Rightarrow> ntstatus \<times> 'w"
  fw_ProviderAdd :: "handle \<Rightarrow> guid \<Rightarrow> 'w \<Rightarrow> ntstatus \<times> 'w"
  fw_SubLayerAdd :: "handle \<Rightarrow> guid \<Rightarrow> guid \<Rightarrow> u16 \<Rightarrow> 'w \<Rightarrow> ntstatus \<times> 'w"
  fw_CalloutRegister :: "handle \<Rightarrow> callout_def \<Rightarrow> 'w \<Rightarrow> ntstatus \<times> u32 \<times> 'w"
  fw_CalloutAdd :: "handle \<Rightarrow> guid \<Rightarrow> guid \<Rightarrow> guid \<Rightarrow> 'w \<Rightarrow> ntstatus \<times> u32 \<times> 'w"
  fw_FilterAdd :: "handle \<Rightarrow> filter_spec \<Rightarrow> 'w \<Rightarrow> ntstatus \<times> u64 \<times> 'w"
  fw_TransactionCommit :: "handle \<Rightarrow> 'w \<Rightarrow> ntstatus \<times> 'w"
  fw_TransactionAbort :: "handle \<Rightarrow> 'w \<Rightarrow> ntstatus \<times> 'w"

definition SkWfpObjectReset :: "string \<Rightarrow> sk_object" where
  "SkWfpObjectReset name =
     \<lparr>so_name = name, so_key = zero_guid, so_calloutRuntimeId = 0, so_calloutId = 0, so_filterId = 0,
      so_state = SkWfpStateUninitialized, so_phase = SkWfpPhaseNone, so_lastStatus = STATUS_SUCCESS,
      so_busyRetries = 0\<rparr>"

definition skWfpDefByCalloutKey :: "guid \<Rightarrow> callout_def option" where
  "skWfpDefByCalloutKey key = find (\<lambda>d. cd_calloutKey d = key) g_SkCalloutDefs"

definition SkWfpObjectRegisterCallout ::
    "'w api \<Rightarrow> handle \<Rightarrow> callout_def \<Rightarrow> sk_object \<Rightarrow> 'w \<Rightarrow> ntstatus \<times> sk_object \<times> 'w" where
  "SkWfpObjectRegisterCallout fw device callout obj w =
     (let obj = obj\<lparr>so_phase := SkWfpPhaseCalloutRegister\<rparr>;
          (st, runtimeId, w) = fw_CalloutRegister fw device callout w;
          obj = obj\<lparr>so_lastStatus := st\<rparr>
      in if NT_SUCCESS st
         then (st, obj\<lparr>so_calloutRuntimeId := runtimeId, so_state := SkWfpStateRegistered\<rparr>, w)
         else (st, obj\<lparr>so_calloutRuntimeId := 0, so_state := SkWfpStateFailed\<rparr>, w))"

definition SkWfpObjectAddCallout ::
    "'w api \<Rightarrow> handle \<Rightarrow> sk_object \<Rightarrow> 'w \<Rightarrow> ntstatus \<times> sk_object \<times> 'w" where
  "SkWfpObjectAddCallout fw engine obj w =
     (case skWfpDefByCalloutKey (so_key obj) of
        None \<Rightarrow> (STATUS_INVALID_PARAMETER,
                  obj\<lparr>so_lastStatus := STATUS_INVALID_PARAMETER, so_state := SkWfpStateFailed\<rparr>, w)
      | Some def \<Rightarrow>
          let obj = obj\<lparr>so_phase := SkWfpPhaseCalloutAdd\<rparr>;
              (st, calloutId, w) =
                fw_CalloutAdd fw engine (so_key obj) g_SkProviderKey (cd_layerKey def) w;
              obj = obj\<lparr>so_lastStatus := st\<rparr>
          in if \<not> NT_SUCCESS st
             then (st, obj\<lparr>so_calloutId := 0, so_state := SkWfpStateFailed\<rparr>, w)
             else (st, obj\<lparr>so_calloutId := calloutId\<rparr>, w))"

definition SkWfpObjectAddFilter ::
    "'w api \<Rightarrow> handle \<Rightarrow> guid option \<Rightarrow> u32 \<Rightarrow> sk_object \<Rightarrow> 'w \<Rightarrow> ntstatus \<times> sk_object \<times> 'w" where
  "SkWfpObjectAddFilter fw engine layerKey layerId obj w =
     (case (SkCalloutDefById layerId, layerKey) of
        (Some def, Some layerKey) \<Rightarrow>
          let f = \<lparr>fl_filterKey = cd_filterKey def, fl_layerKey = layerKey,
                   fl_weight = 0x0000FFFFFFFFFFFF, fl_calloutKey = cd_calloutKey def\<rparr>;
              obj = obj\<lparr>so_phase := SkWfpPhaseFilterAdd\<rparr>;
              (st, filterId, w) = fw_FilterAdd fw engine f w;
              obj = obj\<lparr>so_lastStatus := st\<rparr>
          in if NT_SUCCESS st
             then (st, obj\<lparr>so_filterId := filterId, so_state := SkWfpStateRegistered\<rparr>, w)
             else (st, obj\<lparr>so_filterId := 0, so_state := SkWfpStateFailed\<rparr>, w)
      | _ \<Rightarrow> (STATUS_INVALID_PARAMETER,
               obj\<lparr>so_lastStatus := STATUS_INVALID_PARAMETER, so_state := SkWfpStateFailed\<rparr>, w))"

text \<open>
  The bounded unregister loop. The first counter is \<open>maxBusyRetries - attempt\<close>. Between two
  rounds the cleanup callback runs; it is partial, because it works on the flow table.
\<close>

fun unregister_loop ::
    "('w \<Rightarrow> ntstatus \<times> 'w) \<Rightarrow> ('w \<Rightarrow> 'w option) \<Rightarrow> nat \<Rightarrow> u32 \<Rightarrow> sk_object \<Rightarrow> 'w
     \<Rightarrow> (ntstatus \<times> sk_object \<times> 'w) option" where
  "unregister_loop call between 0 attempt obj w =
     (let (st, w) = call w;
          obj = obj\<lparr>so_lastStatus := st\<rparr>
      in if st = STATUS_SUCCESS \<or> st = FWP_E_CALLOUT_NOT_FOUND
         then Some (st, obj\<lparr>so_state := SkWfpStateDeleted, so_busyRetries := attempt\<rparr>, w)
         else if st \<noteq> STATUS_DEVICE_BUSY
         then Some (st, obj\<lparr>so_busyRetries := attempt, so_state := SkWfpStateLeaked\<rparr>, w)
         else Some (st, obj\<lparr>so_busyRetries := attempt + 1, so_state := SkWfpStateLeaked\<rparr>, w))"
| "unregister_loop call between (Suc n) attempt obj w =
     (let (st, w) = call w;
          obj = obj\<lparr>so_lastStatus := st\<rparr>
      in if st = STATUS_SUCCESS \<or> st = FWP_E_CALLOUT_NOT_FOUND
         then Some (st, obj\<lparr>so_state := SkWfpStateDeleted, so_busyRetries := attempt\<rparr>, w)
         else if st \<noteq> STATUS_DEVICE_BUSY
         then Some (st, obj\<lparr>so_busyRetries := attempt, so_state := SkWfpStateLeaked\<rparr>, w)
         else do {
           w \<leftarrow> between w;
           unregister_loop call between n (attempt + 1) obj w
         })"

definition SkWfpObjectUnregister ::
    "'w ops \<Rightarrow> ('w \<Rightarrow> 'w) \<Rightarrow> ('w \<Rightarrow> 'w option) option \<Rightarrow> nat \<Rightarrow> sk_object \<Rightarrow> 'w
     \<Rightarrow> (ntstatus \<times> sk_object \<times> 'w) option" where
  "SkWfpObjectUnregister ShOps slp busyCleanup maxBusyRetries obj w =
     (if so_state obj = SkWfpStateDeleted \<or> so_state obj = SkWfpStateUninitialized
      then Some (STATUS_SUCCESS, obj, w)
      else if so_state obj = SkWfpStateLeaked then Some (STATUS_DEVICE_BUSY, obj, w)
      else unregister_loop (op_UnregisterCalloutById ShOps (so_calloutRuntimeId obj))
             (\<lambda>w. do { w \<leftarrow> (case busyCleanup of None \<Rightarrow> Some w | Some f \<Rightarrow> f w); Some (slp w) })
             maxBusyRetries 0 (obj\<lparr>so_state := SkWfpStateQuiescing\<rparr>) w)"

definition SkWfpObjectDelete ::
    "'w ops \<Rightarrow> handle \<Rightarrow> sk_object \<Rightarrow> 'w \<Rightarrow> ntstatus \<times> sk_object \<times> 'w" where
  "SkWfpObjectDelete ShOps engine obj w =
     (if so_state obj = SkWfpStateLeaked then (STATUS_DEVICE_BUSY, obj, w)
      else if so_filterId obj \<noteq> 0
      then let (st, w) = op_FilterDeleteById ShOps engine (so_filterId obj) w;
               obj = obj\<lparr>so_lastStatus := st\<rparr>
           in if st = STATUS_SUCCESS \<or> st = FWP_E_FILTER_NOT_FOUND
              then (st, obj\<lparr>so_filterId := 0, so_state := SkWfpStateDeleted\<rparr>, w)
              else (st, obj\<lparr>so_state := SkWfpStateLeaked\<rparr>, w)
      else if so_calloutId obj \<noteq> 0
      then let (st, w) = op_CalloutDeleteById ShOps engine (so_calloutId obj) w;
               obj = obj\<lparr>so_lastStatus := st\<rparr>
           in if st = STATUS_SUCCESS \<or> st = FWP_E_CALLOUT_NOT_FOUND
              then (st, obj\<lparr>so_calloutId := 0, so_state := SkWfpStateDeleted\<rparr>, w)
              else (st, obj\<lparr>so_state := SkWfpStateLeaked\<rparr>, w)
      else (STATUS_SUCCESS, obj, w))"

end
