(* ===== verification/WfpManager.thy ===== *)
theory WfpManager
  imports WfpObjects
begin

text \<open>
  wfp/wfp_manager.c: installing, rolling back and tearing down the driver's WFP objects.

  \<open>g_WfpManager\<close> is a field of the driver's state. The install mutex is \<open>g_WfpLocked\<close>: an
  operation takes it after the wait and gives it back on every path. A result \<open>None\<close> is an
  invalid access in the flow table (\<open>SkFlowRemoveAll\<close> is called between two BUSY rounds).
\<close>

record manager =
  m_engine :: handle
  m_engineObj :: sk_object
  m_provider :: sk_object
  m_sublayer :: sk_object
  m_callouts :: "sk_object list"
  m_filters :: "sk_object list"
  m_installed :: bool

record wfp = flow +
  g_WfpManager :: manager
  g_WfpMutexReady :: bool
  g_WfpLocked :: bool

abbreviation SK_WFP_BUSY_RETRIES :: nat where "SK_WFP_BUSY_RETRIES \<equiv> 8"

section \<open>Access to the manager\<close>

definition upd_manager :: "(manager \<Rightarrow> manager) \<Rightarrow> 'a wfp_scheme \<Rightarrow> 'a wfp_scheme" where
  "upd_manager f w = w\<lparr>g_WfpManager := f (g_WfpManager w)\<rparr>"

definition set_callout :: "nat \<Rightarrow> sk_object \<Rightarrow> 'a wfp_scheme \<Rightarrow> 'a wfp_scheme" where
  "set_callout i obj = upd_manager (\<lambda>m. m\<lparr>m_callouts := (m_callouts m)[i := obj]\<rparr>)"

definition set_filter :: "nat \<Rightarrow> sk_object \<Rightarrow> 'a wfp_scheme \<Rightarrow> 'a wfp_scheme" where
  "set_filter i obj = upd_manager (\<lambda>m. m\<lparr>m_filters := (m_filters m)[i := obj]\<rparr>)"

abbreviation callout_at :: "nat \<Rightarrow> 'a wfp_scheme \<Rightarrow> sk_object" where
  "callout_at i w \<equiv> m_callouts (g_WfpManager w) ! i"

abbreviation filter_at :: "nat \<Rightarrow> 'a wfp_scheme \<Rightarrow> sk_object" where
  "filter_at i w \<equiv> m_filters (g_WfpManager w) ! i"

abbreviation engine_of :: "'a wfp_scheme \<Rightarrow> handle" where
  "engine_of w \<equiv> m_engine (g_WfpManager w)"

definition SkWfpManagerInitMutex :: "'a wfp_scheme \<Rightarrow> 'a wfp_scheme" where
  "SkWfpManagerInitMutex w =
     (if g_WfpMutexReady w then w else w\<lparr>g_WfpMutexReady := True, g_WfpLocked := False\<rparr>)"

definition skWfpLock :: "'a wfp_scheme \<Rightarrow> 'a wfp_scheme" where
  "skWfpLock w = w\<lparr>g_WfpLocked := True\<rparr>"

definition skWfpUnlock :: "'a wfp_scheme \<Rightarrow> 'a wfp_scheme" where
  "skWfpUnlock w = w\<lparr>g_WfpLocked := False\<rparr>"

section \<open>Removal\<close>

definition skWfpBusyCleanup ::
    "'a wfp_scheme ops \<Rightarrow> u32 \<Rightarrow> 'a wfp_scheme \<Rightarrow> 'a wfp_scheme option" where
  "skWfpBusyCleanup ShOps layerId w =
     (if layerId < of_nat SK_LAYER_COUNT
      then SkFlowRemoveAll (op_FlowRemoveContext ShOps) (so_calloutRuntimeId (callout_at (unat layerId) w)) w
      else Some w)"

definition skWfpDeleteByKey ::
    "'w ops \<Rightarrow> handle \<Rightarrow> bool \<Rightarrow> sk_object \<Rightarrow> 'w \<Rightarrow> bool \<times> sk_object \<times> 'w" where
  "skWfpDeleteByKey ShOps engine isSubLayer obj w =
     (let notFound = (if isSubLayer then FWP_E_SUBLAYER_NOT_FOUND else FWP_E_PROVIDER_NOT_FOUND)
      in if \<not> live obj then (True, obj, w)
         else let (st, w) = (if isSubLayer then op_SubLayerDeleteByKey ShOps engine g_SkSubLayerKey w
                             else op_ProviderDeleteByKey ShOps engine g_SkProviderKey w);
                  obj = obj\<lparr>so_lastStatus := st\<rparr>
              in if st = STATUS_SUCCESS \<or> st = notFound
                 then (True, obj\<lparr>so_state := SkWfpStateDeleted\<rparr>, w)
                 else (False, obj\<lparr>so_state := SkWfpStateLeaked\<rparr>, w))"

definition delete_sublayer :: "'a wfp_scheme ops \<Rightarrow> 'a wfp_scheme \<Rightarrow> bool \<times> 'a wfp_scheme" where
  "delete_sublayer ShOps w =
     (let (ok, obj, w) = skWfpDeleteByKey ShOps (engine_of w) True (m_sublayer (g_WfpManager w)) w
      in (ok, upd_manager (\<lambda>m. m\<lparr>m_sublayer := obj\<rparr>) w))"

definition delete_provider :: "'a wfp_scheme ops \<Rightarrow> 'a wfp_scheme \<Rightarrow> bool \<times> 'a wfp_scheme" where
  "delete_provider ShOps w =
     (let (ok, obj, w) = skWfpDeleteByKey ShOps (engine_of w) False (m_provider (g_WfpManager w)) w
      in (ok, upd_manager (\<lambda>m. m\<lparr>m_provider := obj\<rparr>) w))"

definition close_engine :: "'a wfp_scheme ops \<Rightarrow> 'a wfp_scheme \<Rightarrow> bool \<times> 'a wfp_scheme" where
  "close_engine ShOps w =
     (let (st, w) = op_EngineClose ShOps (engine_of w) w;
          w = upd_manager (\<lambda>m. m\<lparr>m_engineObj := (m_engineObj m)\<lparr>so_lastStatus := st\<rparr>\<rparr>) w
      in if st = STATUS_SUCCESS
         then (True, upd_manager (\<lambda>m. m\<lparr>m_engineObj := (m_engineObj m)\<lparr>so_state := SkWfpStateDeleted\<rparr>,
                                         m_engine := NULL\<rparr>) w)
         else (False, upd_manager (\<lambda>m. m\<lparr>m_engineObj := (m_engineObj m)\<lparr>so_state := SkWfpStateLeaked\<rparr>\<rparr>) w))"

section \<open>Rollback of a failed install\<close>

definition rollback_filter :: "'a wfp_scheme ops \<Rightarrow> nat \<Rightarrow> bool \<Rightarrow> 'a wfp_scheme \<Rightarrow> bool \<times> 'a wfp_scheme" where
  "rollback_filter ShOps i clean w =
     (let fi = filter_at i w
      in if live fi
         then let (st, fi, w) = SkWfpObjectDelete ShOps (engine_of w) fi w
              in (if so_state fi = SkWfpStateLeaked then False else clean, set_filter i fi w)
         else (clean, w))"

definition rollback_callout ::
    "'a wfp_scheme ops \<Rightarrow> ('a wfp_scheme \<Rightarrow> 'a wfp_scheme) \<Rightarrow> nat \<Rightarrow> bool \<Rightarrow> 'a wfp_scheme
     \<Rightarrow> (bool \<times> 'a wfp_scheme) option" where
  "rollback_callout ShOps slp i clean w =
     (let co = callout_at i w
      in if live co
         then do {
           (st, co, w) \<leftarrow> SkWfpObjectUnregister ShOps slp None SK_WFP_BUSY_RETRIES co w;
           Some (if so_state co = SkWfpStateLeaked then (False, set_callout i co w)
                 else if so_calloutId co \<noteq> 0
                 then let (st, co, w) = SkWfpObjectDelete ShOps (engine_of w) co w
                      in (if so_state co = SkWfpStateLeaked then False else clean, set_callout i co w)
                 else (clean, set_callout i co w))
         }
         else Some (clean, w))"

text \<open>The layers from the last to the first: the argument is the number of layers left.\<close>

fun rollback_layers ::
    "'a wfp_scheme ops \<Rightarrow> ('a wfp_scheme \<Rightarrow> 'a wfp_scheme) \<Rightarrow> nat \<Rightarrow> bool \<Rightarrow> 'a wfp_scheme
     \<Rightarrow> (bool \<times> 'a wfp_scheme) option" where
  "rollback_layers ShOps slp 0 clean w = Some (clean, w)"
| "rollback_layers ShOps slp (Suc i) clean w =
     (let (clean, w) = rollback_filter ShOps i clean w
      in do {
        (clean, w) \<leftarrow> rollback_callout ShOps slp i clean w;
        rollback_layers ShOps slp i clean w
      })"

definition skWfpRollbackLocked ::
    "'a wfp_scheme ops \<Rightarrow> ('a wfp_scheme \<Rightarrow> 'a wfp_scheme) \<Rightarrow> 'a wfp_scheme
     \<Rightarrow> (bool \<times> 'a wfp_scheme) option" where
  "skWfpRollbackLocked ShOps slp w = do {
     (clean, w) \<leftarrow> rollback_layers ShOps slp SK_LAYER_COUNT True w;
     let (ok, w) = delete_sublayer ShOps w;
     let clean = (clean \<and> ok);
     let (ok, w) = delete_provider ShOps w;
     let clean = (clean \<and> ok);
     Some (if engine_of w \<noteq> NULL
           then let (ok, w) = close_engine ShOps w in (clean \<and> ok, w)
           else (clean, w))
   }"

section \<open>Install\<close>

definition leaked :: "sk_object \<Rightarrow> bool" where
  "leaked obj \<longleftrightarrow> so_state obj = SkWfpStateLeaked"

definition any_leaked :: "manager \<Rightarrow> bool" where
  "any_leaked m \<longleftrightarrow> leaked (m_engineObj m) \<or> leaked (m_provider m) \<or> leaked (m_sublayer m) \<or>
     list_ex (\<lambda>i. leaked (m_callouts m ! i) \<or> leaked (m_filters m ! i)) [0..<SK_LAYER_COUNT]"

definition fresh_manager :: "manager \<Rightarrow> manager" where
  "fresh_manager m = m\<lparr>
     m_engineObj := SkWfpObjectReset ''wfpEngine'',
     m_provider := SkWfpObjectReset ''wfpProvider'',
     m_sublayer := SkWfpObjectReset ''wfpSublayer'',
     m_callouts := map (\<lambda>d. (SkWfpObjectReset (cd_name d))\<lparr>so_key := cd_calloutKey d\<rparr>) g_SkCalloutDefs,
     m_filters := map (\<lambda>d. SkWfpObjectReset (cd_name d)) g_SkCalloutDefs,
     m_engine := NULL\<rparr>"

text \<open>The three steps of the object creations: a failing status, or go on.\<close>

definition add_provider :: "'a wfp_scheme api \<Rightarrow> 'a wfp_scheme \<Rightarrow> ntstatus option \<times> 'a wfp_scheme" where
  "add_provider fw w =
     (let w = upd_manager (\<lambda>m. m\<lparr>m_provider := (m_provider m)
                \<lparr>so_phase := SkWfpPhaseProviderAdd, so_key := g_SkProviderKey\<rparr>\<rparr>) w;
          (st, w) = fw_ProviderAdd fw (engine_of w) g_SkProviderKey w;
          w = upd_manager (\<lambda>m. m\<lparr>m_provider := (m_provider m)\<lparr>so_lastStatus := st\<rparr>\<rparr>) w
      in if \<not> NT_SUCCESS st
         then (Some st, upd_manager (\<lambda>m. m\<lparr>m_provider := (m_provider m)\<lparr>so_state := SkWfpStateFailed\<rparr>\<rparr>) w)
         else (None, upd_manager (\<lambda>m. m\<lparr>m_provider := (m_provider m)\<lparr>so_state := SkWfpStateRegistered\<rparr>\<rparr>) w))"

definition add_sublayer :: "'a wfp_scheme api \<Rightarrow> 'a wfp_scheme \<Rightarrow> ntstatus option \<times> 'a wfp_scheme" where
  "add_sublayer fw w =
     (let w = upd_manager (\<lambda>m. m\<lparr>m_sublayer := (m_sublayer m)
                \<lparr>so_phase := SkWfpPhaseSubLayerAdd, so_key := g_SkSubLayerKey\<rparr>\<rparr>) w;
          (st, w) = fw_SubLayerAdd fw (engine_of w) g_SkSubLayerKey g_SkProviderKey 0x100 w;
          w = upd_manager (\<lambda>m. m\<lparr>m_sublayer := (m_sublayer m)\<lparr>so_lastStatus := st\<rparr>\<rparr>) w
      in if \<not> NT_SUCCESS st
         then (Some st, upd_manager (\<lambda>m. m\<lparr>m_sublayer := (m_sublayer m)\<lparr>so_state := SkWfpStateFailed\<rparr>\<rparr>) w)
         else (None, upd_manager (\<lambda>m. m\<lparr>m_sublayer := (m_sublayer m)\<lparr>so_state := SkWfpStateRegistered\<rparr>\<rparr>) w))"

definition install_layer ::
    "'a wfp_scheme api \<Rightarrow> handle \<Rightarrow> nat \<Rightarrow> 'a wfp_scheme \<Rightarrow> ntstatus option \<times> 'a wfp_scheme" where
  "install_layer fw device i w =
     (let def = g_SkCalloutDefs ! i;
          (st, co, w) = SkWfpObjectRegisterCallout fw device def (callout_at i w) w;
          w = set_callout i co w
      in if \<not> NT_SUCCESS st then (Some st, w)
         else
           let (st, co, w) = SkWfpObjectAddCallout fw (engine_of w) co w;
               w = set_callout i co w
           in if \<not> NT_SUCCESS st then (Some st, w)
              else
                let (st, fi, w) = SkWfpObjectAddFilter fw (engine_of w) (Some (cd_layerKey def))
                                    (cd_layerId def) (filter_at i w) w;
                    w = set_filter i fi w
                in if \<not> NT_SUCCESS st then (Some st, w)
                   else (None, set_callout i (co\<lparr>so_state := SkWfpStateActive\<rparr>) w))"

fun install_layers ::
    "'a wfp_scheme api \<Rightarrow> handle \<Rightarrow> nat list \<Rightarrow> 'a wfp_scheme \<Rightarrow> ntstatus option \<times> 'a wfp_scheme" where
  "install_layers fw device [] w = (None, w)"
| "install_layers fw device (i # is) w =
     (case install_layer fw device i w of
        (Some st, w) \<Rightarrow> (Some st, w)
      | (None, w) \<Rightarrow> install_layers fw device is w)"

text \<open>From the transaction to the commit: \<open>txnBegun\<close>, and the failing status if any.\<close>

definition install_transaction ::
    "'a wfp_scheme api \<Rightarrow> handle \<Rightarrow> 'a wfp_scheme \<Rightarrow> bool \<times> ntstatus option \<times> 'a wfp_scheme" where
  "install_transaction fw device w =
     (let (st, w) = fw_TransactionBegin fw (engine_of w) w
      in if \<not> NT_SUCCESS st then (False, Some st, w)
         else case add_provider fw w of
           (Some st, w) \<Rightarrow> (True, Some st, w)
         | (None, w) \<Rightarrow>
           (case add_sublayer fw w of
             (Some st, w) \<Rightarrow> (True, Some st, w)
           | (None, w) \<Rightarrow>
             (case install_layers fw device [0..<SK_LAYER_COUNT] w of
               (Some st, w) \<Rightarrow> (True, Some st, w)
             | (None, w) \<Rightarrow>
               let (st, w) = fw_TransactionCommit fw (engine_of w) w
               in if \<not> NT_SUCCESS st then (True, Some st, w) else (True, None, w))))"

definition SkWfpManagerInstall ::
    "'a wfp_scheme api \<Rightarrow> 'a wfp_scheme ops \<Rightarrow> ('a wfp_scheme \<Rightarrow> 'a wfp_scheme) \<Rightarrow> handle \<Rightarrow> 'a wfp_scheme
     \<Rightarrow> (ntstatus \<times> 'a wfp_scheme) option" where
  "SkWfpManagerInstall fw ShOps slp device w =
     (let w = skWfpLock w in
      if m_installed (g_WfpManager w) then Some (STATUS_SUCCESS, skWfpUnlock w)
      else if any_leaked (g_WfpManager w) then Some (STATUS_DEVICE_BUSY, skWfpUnlock w)
      else
        let w = upd_manager fresh_manager w;
            w = upd_manager (\<lambda>m. m\<lparr>m_engineObj := (m_engineObj m)\<lparr>so_phase := SkWfpPhaseEngineOpen\<rparr>\<rparr>) w;
            (st, engine, w) = fw_EngineOpen fw 1 w;
            w = upd_manager (\<lambda>m. m\<lparr>m_engine := engine,
                  m_engineObj := (m_engineObj m)\<lparr>so_lastStatus := st\<rparr>\<rparr>) w
        in if \<not> NT_SUCCESS st
           then Some (st, skWfpUnlock (upd_manager (\<lambda>m. m\<lparr>m_engineObj := (m_engineObj m)
                  \<lparr>so_state := SkWfpStateFailed\<rparr>, m_engine := NULL\<rparr>) w))
           else
             let w = upd_manager (\<lambda>m. m\<lparr>m_engineObj := (m_engineObj m)\<lparr>so_state := SkWfpStateRegistered\<rparr>\<rparr>) w
             in case install_transaction fw device w of
                  (_, None, w) \<Rightarrow>
                    Some (STATUS_SUCCESS, skWfpUnlock (upd_manager (\<lambda>m. m\<lparr>m_installed := True\<rparr>) w))
                | (txnBegun, Some stFail, w) \<Rightarrow> do {
                    let w = (if txnBegun then snd (fw_TransactionAbort fw (engine_of w) w) else w);
                    (clean, w) \<leftarrow> skWfpRollbackLocked ShOps slp w;
                    let w = (if clean then w else ShRuntimeRecordBlock ShinkenBlockEngineClose w);
                    Some (stFail, skWfpUnlock w)
                  })"

section \<open>Teardown\<close>

text \<open>The first loop: unregister; the second: delete what is installed.\<close>

definition unregister_layer ::
    "'a wfp_scheme ops \<Rightarrow> ('a wfp_scheme \<Rightarrow> 'a wfp_scheme) \<Rightarrow> nat \<Rightarrow> bool \<Rightarrow> 'a wfp_scheme
     \<Rightarrow> (bool \<times> 'a wfp_scheme) option" where
  "unregister_layer ShOps slp i ok w =
     (let co = callout_at i w
      in if live co
         then do {
           (st, co, w) \<leftarrow> SkWfpObjectUnregister ShOps slp (Some (skWfpBusyCleanup ShOps (of_nat i)))
             SK_WFP_BUSY_RETRIES co w;
           let w = set_callout i co w;
           Some (if leaked co then (False, ShRuntimeRecordBlock ShinkenBlockSensorCalloutBusy w) else (ok, w))
         }
         else Some (ok, w))"

definition delete_filter ::
    "'a wfp_scheme ops \<Rightarrow> nat \<Rightarrow> bool \<Rightarrow> 'a wfp_scheme \<Rightarrow> bool \<times> 'a wfp_scheme" where
  "delete_filter ShOps i ok w =
     (if so_filterId (filter_at i w) \<noteq> 0
      then let (st, fi, w) = SkWfpObjectDelete ShOps (engine_of w) (filter_at i w) w;
               w = set_filter i fi w
           in if leaked fi then (False, ShRuntimeRecordBlock ShinkenBlockEngineClose w) else (ok, w)
      else (ok, w))"

definition delete_callout ::
    "'a wfp_scheme ops \<Rightarrow> nat \<Rightarrow> bool \<Rightarrow> 'a wfp_scheme \<Rightarrow> bool \<times> 'a wfp_scheme" where
  "delete_callout ShOps i ok w =
     (let co = callout_at i w
      in if so_calloutId co \<noteq> 0 \<and> \<not> leaked co
         then let (st, co, w) = SkWfpObjectDelete ShOps (engine_of w) co w;
                  w = set_callout i co w
              in if leaked co then (False, ShRuntimeRecordBlock ShinkenBlockEngineClose w) else (ok, w)
         else (ok, w))"

definition delete_layer ::
    "'a wfp_scheme ops \<Rightarrow> nat \<Rightarrow> bool \<Rightarrow> 'a wfp_scheme \<Rightarrow> bool \<times> 'a wfp_scheme" where
  "delete_layer ShOps i ok w =
     (let (ok, w) = delete_filter ShOps i ok w in delete_callout ShOps i ok w)"

fun unregister_layers ::
    "'a wfp_scheme ops \<Rightarrow> ('a wfp_scheme \<Rightarrow> 'a wfp_scheme) \<Rightarrow> nat list \<Rightarrow> bool \<Rightarrow> 'a wfp_scheme
     \<Rightarrow> (bool \<times> 'a wfp_scheme) option" where
  "unregister_layers ShOps slp [] ok w = Some (ok, w)"
| "unregister_layers ShOps slp (i # is) ok w = do {
     (ok, w) \<leftarrow> unregister_layer ShOps slp i ok w;
     unregister_layers ShOps slp is ok w
   }"

fun delete_layers ::
    "'a wfp_scheme ops \<Rightarrow> nat list \<Rightarrow> bool \<Rightarrow> 'a wfp_scheme \<Rightarrow> bool \<times> 'a wfp_scheme" where
  "delete_layers ShOps [] ok w = (ok, w)"
| "delete_layers ShOps (i # is) ok w =
     (let (ok, w) = delete_layer ShOps i ok w in delete_layers ShOps is ok w)"

definition record_failure :: "bool \<times> 'a wfp_scheme \<Rightarrow> bool \<Rightarrow> bool \<times> 'a wfp_scheme" where
  "record_failure r ok =
     (let (done, w) = r
      in if done then (ok, w) else (False, ShRuntimeRecordBlock ShinkenBlockEngineClose w))"

text \<open>The parts 1 to 3 of the teardown: everything but the engine.\<close>

definition delete_objects ::
    "'a wfp_scheme ops \<Rightarrow> ('a wfp_scheme \<Rightarrow> 'a wfp_scheme) \<Rightarrow> 'a wfp_scheme
     \<Rightarrow> (bool \<times> 'a wfp_scheme) option" where
  "delete_objects ShOps slp w = do {
     (ok, w) \<leftarrow> unregister_layers ShOps slp [0..<SK_LAYER_COUNT] True w;
     let (ok, w) = delete_layers ShOps [0..<SK_LAYER_COUNT] ok w;
     let (ok, w) = record_failure (delete_sublayer ShOps w) ok;
     Some (record_failure (delete_provider ShOps w) ok)
   }"

definition SkWfpManagerTeardown ::
    "'a wfp_scheme ops \<Rightarrow> ('a wfp_scheme \<Rightarrow> 'a wfp_scheme) \<Rightarrow> 'a wfp_scheme
     \<Rightarrow> (bool \<times> 'a wfp_scheme) option" where
  "SkWfpManagerTeardown ShOps slp w =
     (let w = skWfpLock w in
      if \<not> m_installed (g_WfpManager w) \<and> engine_of w = NULL then Some (True, skWfpUnlock w)
      else do {
        (ok, w) \<leftarrow> delete_objects ShOps slp w;
        let (ok, w) = (if engine_of w \<noteq> NULL \<and> ok then record_failure (close_engine ShOps w) ok else (ok, w));
        let w = (if ok then upd_manager (\<lambda>m. m\<lparr>m_installed := False\<rparr>) w else w);
        Some (ok, skWfpUnlock w)
      })"

end
