(* ===== verification/WfpTeardown.thy ===== *)
theory WfpTeardown
  imports WfpManager
begin

text \<open>
  What the teardown and the install of the WFP manager guarantee, for every kernel that
  respects the install mutex: no call of the kernel and no other thread changes the manager
  while an operation holds the mutex, and none forgets a recorded block reason.
\<close>

section \<open>The kernel\<close>

definition preserves :: "('a wfp_scheme \<Rightarrow> bool) \<Rightarrow> 'a wfp_scheme \<Rightarrow> 'a wfp_scheme \<Rightarrow> bool" where
  "preserves I w v \<longleftrightarrow> I v \<and> g_WfpManager v = g_WfpManager w \<and> g_WfpLocked v = g_WfpLocked w \<and>
     (g_BlockReason w \<noteq> ShinkenBlockNone \<longrightarrow> g_BlockReason v \<noteq> ShinkenBlockNone)"

text \<open>
  \<open>I\<close> is what the environment keeps of the rest of the driver's state; in it the flow table
  is sound, so that \<open>SkFlowRemoveAll\<close> does not fault (\<open>FlowProtocol\<close>).
\<close>

definition kernel_ok ::
    "('a wfp_scheme \<Rightarrow> bool) \<Rightarrow> 'a wfp_scheme ops \<Rightarrow> ('a wfp_scheme \<Rightarrow> 'a wfp_scheme) \<Rightarrow> bool" where
  "kernel_ok I ShOps slp \<longleftrightarrow> (\<forall>w. I w \<longrightarrow>
     (\<forall>i. preserves I w (snd (op_UnregisterCalloutById ShOps i w))) \<and>
     (\<forall>h i. preserves I w (snd (op_FilterDeleteById ShOps h i w))) \<and>
     (\<forall>h i. preserves I w (snd (op_CalloutDeleteById ShOps h i w))) \<and>
     (\<forall>h k. preserves I w (snd (op_SubLayerDeleteByKey ShOps h k w))) \<and>
     (\<forall>h k. preserves I w (snd (op_ProviderDeleteByKey ShOps h k w))) \<and>
     (\<forall>h. preserves I w (snd (op_EngineClose ShOps h w))) \<and>
     preserves I w (slp w) \<and>
     (\<forall>i. \<exists>v. SkFlowRemoveAll (op_FlowRemoveContext ShOps) i w = Some v \<and> preserves I w v) \<and>
     (\<forall>m. I (w\<lparr>g_WfpManager := m\<rparr>)) \<and> (\<forall>b. I (w\<lparr>g_WfpLocked := b\<rparr>)) \<and>
     (\<forall>why. I (ShRuntimeRecordBlock why w)))"

lemma kernel_okD:
  assumes "kernel_ok I ShOps slp" and "I w"
  shows "preserves I w (snd (op_UnregisterCalloutById ShOps i w))"
    and "preserves I w (snd (op_FilterDeleteById ShOps h f w))"
    and "preserves I w (snd (op_CalloutDeleteById ShOps h i w))"
    and "preserves I w (snd (op_SubLayerDeleteByKey ShOps h k w))"
    and "preserves I w (snd (op_ProviderDeleteByKey ShOps h k w))"
    and "preserves I w (snd (op_EngineClose ShOps h w))"
    and "preserves I w (slp w)"
    and "\<exists>v. SkFlowRemoveAll (op_FlowRemoveContext ShOps) i w = Some v \<and> preserves I w v"
    and "I (w\<lparr>g_WfpManager := m\<rparr>)" and "I (w\<lparr>g_WfpLocked := b\<rparr>)" and "I (ShRuntimeRecordBlock why w)"
  using assms(1) [unfolded kernel_ok_def, THEN spec, THEN mp, OF assms(2)] by simp_all

lemma preserves_refl: "I w \<Longrightarrow> preserves I w w"
  by (simp add: preserves_def)

lemma preserves_trans: "preserves I u v \<Longrightarrow> preserves I v w \<Longrightarrow> preserves I u w"
  by (simp add: preserves_def)

lemma preserves_inv: "preserves I w v \<Longrightarrow> I v"
  by (simp add: preserves_def)

lemma record_block_wfp [simp]:
  "g_WfpManager (ShRuntimeRecordBlock why w) = g_WfpManager w"
  "g_WfpLocked (ShRuntimeRecordBlock why w) = g_WfpLocked w"
  by (simp_all add: ShRuntimeRecordBlock_def Let_def)

lemma record_block_some:
  "why \<noteq> ShinkenBlockNone \<Longrightarrow> g_BlockReason (ShRuntimeRecordBlock why w) \<noteq> ShinkenBlockNone"
  by (simp add: record_block_reason)

section \<open>What an operation does to the objects\<close>

text \<open>
  \<open>obj_rel ok a b\<close>: from \<open>a\<close> to \<open>b\<close> nothing comes to life, no id comes back, a leaked object
  stays leaked, and if \<open>ok\<close>, none is newly leaked.
\<close>

definition obj_rel :: "bool \<Rightarrow> sk_object \<Rightarrow> sk_object \<Rightarrow> bool" where
  "obj_rel ok a b \<longleftrightarrow> (live b \<longrightarrow> live a) \<and> (so_calloutId a = 0 \<longrightarrow> so_calloutId b = 0) \<and>
     (so_filterId a = 0 \<longrightarrow> so_filterId b = 0) \<and> (leaked a \<longrightarrow> leaked b) \<and> (ok \<longrightarrow> leaked b \<longrightarrow> leaked a)"

lemma obj_rel_refl [simp]: "obj_rel ok a a"
  by (simp add: obj_rel_def)

lemma obj_rel_trans: "obj_rel ok a b \<Longrightarrow> obj_rel ok' b c \<Longrightarrow> (ok' \<Longrightarrow> ok) \<Longrightarrow> obj_rel ok' a c"
  unfolding obj_rel_def by blast

definition mgr_rel :: "bool \<Rightarrow> manager \<Rightarrow> manager \<Rightarrow> bool" where
  "mgr_rel ok m n \<longleftrightarrow> m_engine n = m_engine m \<and> m_engineObj n = m_engineObj m \<and> m_installed n = m_installed m \<and>
     length (m_callouts n) = length (m_callouts m) \<and> length (m_filters n) = length (m_filters m) \<and>
     (\<forall>i < SK_LAYER_COUNT. obj_rel ok (m_callouts m ! i) (m_callouts n ! i) \<and>
        obj_rel ok (m_filters m ! i) (m_filters n ! i)) \<and>
     obj_rel ok (m_sublayer m) (m_sublayer n) \<and> obj_rel ok (m_provider m) (m_provider n)"

lemma mgr_rel_refl [simp]: "mgr_rel ok m m"
  by (simp add: mgr_rel_def)

lemma mgr_rel_trans: "mgr_rel ok l m \<Longrightarrow> mgr_rel ok' m n \<Longrightarrow> (ok' \<Longrightarrow> ok) \<Longrightarrow> mgr_rel ok' l n"
  by (simp add: mgr_rel_def) (blast intro: obj_rel_trans)

lemma mgr_rel_weaken: "mgr_rel ok m n \<Longrightarrow> mgr_rel False m n"
  by (simp add: mgr_rel_def obj_rel_def)

definition manager_ok :: "manager \<Rightarrow> bool" where
  "manager_ok m \<longleftrightarrow> length (m_callouts m) = SK_LAYER_COUNT \<and> length (m_filters m) = SK_LAYER_COUNT \<and>
     (\<forall>i < SK_LAYER_COUNT. so_filterId (m_callouts m ! i) = 0)"

lemma mgr_rel_ok: "mgr_rel ok m n \<Longrightarrow> manager_ok m \<Longrightarrow> manager_ok n"
  by (simp add: mgr_rel_def manager_ok_def obj_rel_def)

text \<open>The relation of two stages of a removal: the flag so far, and the state.\<close>

definition removal :: "('a wfp_scheme \<Rightarrow> bool) \<Rightarrow> bool \<times> 'a wfp_scheme \<Rightarrow> bool \<times> 'a wfp_scheme \<Rightarrow> bool" where
  "removal I r s \<longleftrightarrow> (fst s \<longrightarrow> fst r) \<and> I (snd s) \<and> g_WfpLocked (snd s) = g_WfpLocked (snd r) \<and>
     (g_BlockReason (snd r) \<noteq> ShinkenBlockNone \<longrightarrow> g_BlockReason (snd s) \<noteq> ShinkenBlockNone) \<and>
     mgr_rel (fst s) (g_WfpManager (snd r)) (g_WfpManager (snd s))"

lemma removal_refl: "I w \<Longrightarrow> removal I (ok, w) (ok, w)"
  by (simp add: removal_def)

lemma removal_trans: "removal I r s \<Longrightarrow> removal I s t \<Longrightarrow> removal I r t"
  using mgr_rel_trans [of "fst s" "g_WfpManager (snd r)" "g_WfpManager (snd s)" "fst t" "g_WfpManager (snd t)"]
  by (simp add: removal_def)

lemma removal_record:
  assumes "removal I r (ok, w)" and "kernel_ok I ShOps slp"
  shows "removal I r (False, ShRuntimeRecordBlock why w)"
proof -
  have "mgr_rel False (g_WfpManager (snd r)) (g_WfpManager w)"
    using assms(1) by (auto simp: removal_def intro: mgr_rel_weaken)
  moreover have "I w" using assms(1) by (simp add: removal_def)
  then have "I (ShRuntimeRecordBlock why w)" by (rule kernel_okD(11) [OF assms(2)])
  ultimately show ?thesis using assms(1) by (simp add: removal_def record_block_reason)
qed

text \<open>A stage that replaces one object after calls that keep the rest.\<close>

lemma removal_set_callout:
  assumes "kernel_ok I ShOps slp" and "preserves I w v" and "obj_rel ok' (callout_at i w) co"
    and "ok' \<Longrightarrow> ok"
  shows "removal I (ok, w) (ok', set_callout i co v)"
proof -
  have "obj_rel ok' (callout_at j w) ((m_callouts (g_WfpManager w))[i := co] ! j)" for j
    using assms(3) by (cases "i < length (m_callouts (g_WfpManager w))"; cases "i = j") (simp_all add: nth_list_update list_update_beyond)
  moreover have "I (v\<lparr>g_WfpManager := m\<rparr>)" for m
    using assms(1,2) kernel_okD(9) preserves_inv by blast
  ultimately show ?thesis
    using assms(2,4) by (auto simp: removal_def set_callout_def upd_manager_def mgr_rel_def preserves_def)
qed

lemma removal_set_filter:
  assumes "kernel_ok I ShOps slp" and "preserves I w v" and "obj_rel ok' (filter_at i w) fi"
    and "ok' \<Longrightarrow> ok"
  shows "removal I (ok, w) (ok', set_filter i fi v)"
proof -
  have "obj_rel ok' (filter_at j w) ((m_filters (g_WfpManager w))[i := fi] ! j)" for j
    using assms(3) by (cases "i < length (m_filters (g_WfpManager w))"; cases "i = j") (simp_all add: nth_list_update list_update_beyond)
  moreover have "I (v\<lparr>g_WfpManager := m\<rparr>)" for m
    using assms(1,2) kernel_okD(9) preserves_inv by blast
  ultimately show ?thesis
    using assms(2,4) by (auto simp: removal_def set_filter_def upd_manager_def mgr_rel_def preserves_def)
qed


section \<open>One object\<close>

lemma delete_object:
  assumes k: "kernel_ok I ShOps slp" and I: "I w" and del: "SkWfpObjectDelete ShOps e obj w = (st, obj', v)"
  shows "preserves I w v" and "obj_rel (\<not> leaked obj') obj obj'"
    and "so_filterId obj \<noteq> 0 \<Longrightarrow> \<not> leaked obj' \<Longrightarrow> so_filterId obj' = 0"
    and "so_filterId obj = 0 \<Longrightarrow> \<not> leaked obj' \<Longrightarrow> so_calloutId obj' = 0"
    and "so_calloutId obj \<noteq> 0 \<or> so_filterId obj \<noteq> 0 \<Longrightarrow> \<not> live obj'"
proof -
  have "v = w \<or> (\<exists>i. v = snd (op_FilterDeleteById ShOps e i w)) \<or> (\<exists>i. v = snd (op_CalloutDeleteById ShOps e i w))"
    using del by (auto simp: SkWfpObjectDelete_def Let_def case_prod_unfold split: if_splits)
  then show "preserves I w v" using kernel_okD(2,3) [OF k I] preserves_refl [of I, OF I] by auto
qed (use del in \<open>auto simp: SkWfpObjectDelete_def obj_rel_def leaked_def live_def Let_def case_prod_unfold
       split: if_splits\<close>)

lemma unregister_loop_result:
  assumes "\<And>w. I w \<Longrightarrow> preserves I w (snd (call w))" and "\<And>w. I w \<Longrightarrow> \<exists>v. between w = Some v \<and> preserves I w v"
    and "I w"
  shows "\<exists>st obj' v. unregister_loop call between n a obj w = Some (st, obj', v) \<and> preserves I w v \<and>
    so_state obj' \<in> {SkWfpStateDeleted, SkWfpStateLeaked} \<and>
    so_calloutId obj' = so_calloutId obj \<and> so_filterId obj' = so_filterId obj"
  using assms(3)
proof (induction n arbitrary: a obj w)
  case 0
  then show ?case using assms(1) [OF 0] by (simp add: case_prod_unfold Let_def)
next
  case (Suc n)
  let ?w = "snd (call w)"
  have w: "preserves I w ?w" using assms(1) [OF Suc.prems] .
  show ?case
  proof (cases "fst (call w) = STATUS_DEVICE_BUSY")
    case True
    obtain v where v: "between ?w = Some v" "preserves I ?w v" using assms(2) preserves_inv [OF w] by blast
    have "preserves I w v" using preserves_trans [OF w v(2)] .
    moreover note Suc.IH [of v "a + 1" "obj\<lparr>so_lastStatus := STATUS_DEVICE_BUSY\<rparr>", OF preserves_inv [OF v(2)]]
    ultimately show ?thesis using True v(1) by (auto simp: case_prod_unfold Let_def intro: preserves_trans)
  next
    case False
    then show ?thesis using w by (simp add: case_prod_unfold Let_def)
  qed
qed

definition cleanup_ok :: "'a wfp_scheme ops \<Rightarrow> ('a wfp_scheme \<Rightarrow> 'a wfp_scheme option) option \<Rightarrow> bool" where
  "cleanup_ok ShOps f \<longleftrightarrow> f = None \<or> (\<exists>i. f = Some (skWfpBusyCleanup ShOps i))"

lemma busy_cleanup_preserves:
  assumes k: "kernel_ok I ShOps slp" and I: "I w"
  shows "\<exists>v. skWfpBusyCleanup ShOps i w = Some v \<and> preserves I w v"
  using kernel_okD(8) [OF k I] preserves_refl [of I, OF I]
  by (cases "i < of_nat SK_LAYER_COUNT") (simp_all add: skWfpBusyCleanup_def)

lemma unregister_object:
  assumes k: "kernel_ok I ShOps slp" and I: "I w" and f: "cleanup_ok ShOps f" and obj: "live obj"
  shows "\<exists>st obj' v. SkWfpObjectUnregister ShOps slp f n obj w = Some (st, obj', v) \<and> preserves I w v \<and>
    obj_rel (\<not> leaked obj') obj obj' \<and> \<not> live obj' \<and> so_filterId obj' = so_filterId obj"
proof -
  let ?between = "\<lambda>w. do { w \<leftarrow> (case f of None \<Rightarrow> Some w | Some f \<Rightarrow> f w); Some (slp w) }"
  have "\<exists>v. ?between w = Some v \<and> preserves I w v" if w: "I w" for w
  proof -
    have "\<exists>v. (case f of None \<Rightarrow> Some w | Some f \<Rightarrow> f w) = Some v \<and> preserves I w v"
    proof (cases f)
      case None
      then show ?thesis using preserves_refl [of I, OF w] by simp
    next
      case (Some g)
      then obtain i where "g = skWfpBusyCleanup ShOps i" using f by (auto simp: cleanup_ok_def)
      then show ?thesis using Some busy_cleanup_preserves [OF k w, of i] by simp
    qed
    then obtain v where v: "(case f of None \<Rightarrow> Some w | Some f \<Rightarrow> f w) = Some v" "preserves I w v"
      by blast
    then have "preserves I w (slp v)" by (intro preserves_trans [OF v(2)] kernel_okD(7) [OF k] preserves_inv)
    with v(1) show ?thesis by simp
  qed
  then have "\<exists>st obj' v. unregister_loop (op_UnregisterCalloutById ShOps (so_calloutRuntimeId obj)) ?between n 0
      (obj\<lparr>so_state := SkWfpStateQuiescing\<rparr>) w = Some (st, obj', v) \<and> preserves I w v \<and>
    so_state obj' \<in> {SkWfpStateDeleted, SkWfpStateLeaked} \<and>
    so_calloutId obj' = so_calloutId obj \<and> so_filterId obj' = so_filterId obj"
    using unregister_loop_result [of I "op_UnregisterCalloutById ShOps (so_calloutRuntimeId obj)" ?between w n 0
        "obj\<lparr>so_state := SkWfpStateQuiescing\<rparr>"] kernel_okD(1) [OF k] I by simp
  then show ?thesis
    using obj by (auto simp: SkWfpObjectUnregister_def live_def leaked_def obj_rel_def)
qed

lemma delete_key_object:
  assumes k: "kernel_ok I ShOps slp" and I: "I w" and del: "skWfpDeleteByKey ShOps e sub obj w = (ok, obj', v)"
  shows "preserves I w v" and "obj_rel ok obj obj'" and "\<not> live obj'"
proof -
  have "v = w \<or> (\<exists>k. v = snd (op_SubLayerDeleteByKey ShOps e k w)) \<or> (\<exists>k. v = snd (op_ProviderDeleteByKey ShOps e k w))"
    using del by (auto simp: skWfpDeleteByKey_def Let_def case_prod_unfold split: if_splits)
  then show "preserves I w v" using kernel_okD(4,5) [OF k I] preserves_refl [of I, OF I] by auto
qed (use del in \<open>auto simp: skWfpDeleteByKey_def obj_rel_def leaked_def live_def Let_def case_prod_unfold
       split: if_splits\<close>)


section \<open>One layer\<close>

text \<open>A stage that fails has recorded a reason.\<close>

definition recorded :: "bool \<times> 'a wfp_scheme \<Rightarrow> bool" where
  "recorded r \<longleftrightarrow> fst r \<or> g_BlockReason (snd r) \<noteq> ShinkenBlockNone"

lemma recorded_record [simp]: "why \<noteq> ShinkenBlockNone \<Longrightarrow> recorded (ok, ShRuntimeRecordBlock why w)"
  by (simp add: recorded_def record_block_some)

lemma removal_recorded: "removal I r s \<Longrightarrow> fst s = fst r \<Longrightarrow> recorded r \<Longrightarrow> recorded s"
  by (auto simp: removal_def recorded_def)

lemma set_callout_at [simp]: "i < length (m_callouts (g_WfpManager w)) \<Longrightarrow> callout_at i (set_callout i co w) = co"
  by (simp add: set_callout_def upd_manager_def)

lemma set_filter_at [simp]: "i < length (m_filters (g_WfpManager w)) \<Longrightarrow> filter_at i (set_filter i fi w) = fi"
  by (simp add: set_filter_def upd_manager_def)

lemma set_other [simp]:
  "callout_at i (set_filter j fi w) = callout_at i w" "filter_at i (set_callout j co w) = filter_at i w"
  "m_filters (g_WfpManager (set_callout j co w)) = m_filters (g_WfpManager w)"
  "m_callouts (g_WfpManager (set_filter j fi w)) = m_callouts (g_WfpManager w)"
  "engine_of (set_filter j fi w) = engine_of w" "engine_of (set_callout j co w) = engine_of w"
  by (simp_all add: set_callout_def set_filter_def upd_manager_def)

lemma unregister_layer_removal:
  assumes k: "kernel_ok I ShOps slp" and I: "I w" and m: "manager_ok (g_WfpManager w)" and i: "i < SK_LAYER_COUNT"
    and rec: "recorded (ok, w)"
  shows "\<exists>s. unregister_layer ShOps slp i ok w = Some s \<and> removal I (ok, w) s \<and> recorded s \<and>
    \<not> live (callout_at i (snd s))"
proof (cases "live (callout_at i w)")
  case True
  have "cleanup_ok ShOps (Some (skWfpBusyCleanup ShOps (of_nat i)))" by (auto simp: cleanup_ok_def)
  then obtain st co v where v: "SkWfpObjectUnregister ShOps slp (Some (skWfpBusyCleanup ShOps (of_nat i)))
      SK_WFP_BUSY_RETRIES (callout_at i w) w = Some (st, co, v)" "preserves I w v"
      "obj_rel (\<not> leaked co) (callout_at i w) co" "\<not> live co"
    using unregister_object [OF k I _ True] by blast
  let ?ok = "ok \<and> \<not> leaked co"
  have "obj_rel ?ok (callout_at i w) co" using v(3) by (simp add: obj_rel_def)
  then have r: "removal I (ok, w) (?ok, set_callout i co v)"
    using removal_set_callout [OF k v(2), of ?ok i co ok] by simp
  have "\<not> live (callout_at i (set_callout i co v))"
    using v(2,4) m i by (simp add: preserves_def manager_ok_def)
  then show ?thesis
    using True v(1) r rec removal_record [OF r k] removal_recorded [OF r]
    by (cases "leaked co") (simp_all add: unregister_layer_def)
next
  case False
  then show ?thesis using rec removal_refl [of I, OF I] by (simp add: unregister_layer_def)
qed

lemma delete_filter_removal:
  assumes k: "kernel_ok I ShOps slp" and I: "I w" and m: "manager_ok (g_WfpManager w)" and i: "i < SK_LAYER_COUNT"
    and rec: "recorded (ok, w)"
  defines "s \<equiv> delete_filter ShOps i ok w"
  shows "removal I (ok, w) s \<and> recorded s \<and> (fst s \<longrightarrow> so_filterId (filter_at i (snd s)) = 0)"
proof (cases "so_filterId (filter_at i w) = 0")
  case True
  then show ?thesis using rec removal_refl [of I, OF I] by (simp add: s_def delete_filter_def)
next
  case False
  obtain st fi v where d: "SkWfpObjectDelete ShOps (engine_of w) (filter_at i w) w = (st, fi, v)"
    by (rule prod_cases3)
  note d' = delete_object [OF k I d]
  let ?ok = "ok \<and> \<not> leaked fi"
  have "obj_rel ?ok (filter_at i w) fi" using d'(2) by (simp add: obj_rel_def)
  then have q: "removal I (ok, w) (?ok, set_filter i fi v)"
    using removal_set_filter [OF k d'(1), of ?ok i fi ok] by simp
  have "filter_at i (set_filter i fi v) = fi" using d'(1) m i by (simp add: preserves_def manager_ok_def)
  then show ?thesis
    using False d d'(3) q rec removal_record [OF q k] removal_recorded [OF q]
    by (cases "leaked fi") (simp_all add: s_def delete_filter_def)
qed

lemma delete_callout_removal:
  assumes k: "kernel_ok I ShOps slp" and I: "I w" and m: "manager_ok (g_WfpManager w)" and i: "i < SK_LAYER_COUNT"
    and rec: "recorded (ok, w)"
  defines "s \<equiv> delete_callout ShOps i ok w"
  shows "removal I (ok, w) s \<and> recorded s \<and>
    (fst s \<longrightarrow> leaked (callout_at i (snd s)) \<or> so_calloutId (callout_at i (snd s)) = 0)"
proof (cases "so_calloutId (callout_at i w) \<noteq> 0 \<and> \<not> leaked (callout_at i w)")
  case False
  then show ?thesis using rec removal_refl [of I, OF I] by (auto simp: s_def delete_callout_def)
next
  case True
  obtain st co v where d: "SkWfpObjectDelete ShOps (engine_of w) (callout_at i w) w = (st, co, v)"
    by (rule prod_cases3)
  note d' = delete_object [OF k I d]
  let ?ok = "ok \<and> \<not> leaked co"
  have "obj_rel ?ok (callout_at i w) co" using d'(2) by (simp add: obj_rel_def)
  then have q: "removal I (ok, w) (?ok, set_callout i co v)"
    using removal_set_callout [OF k d'(1), of ?ok i co ok] by simp
  have "callout_at i (set_callout i co v) = co" "so_filterId (callout_at i w) = 0"
    using d'(1) m i by (simp_all add: preserves_def manager_ok_def)
  then show ?thesis
    using True d d'(4) q rec removal_record [OF q k] removal_recorded [OF q]
    by (cases "leaked co") (simp_all add: s_def delete_callout_def)
qed

lemma removal_state:
  assumes "removal I r s" and "manager_ok (g_WfpManager (snd r))"
  shows "I (snd s)" and "manager_ok (g_WfpManager (snd s))"
  using assms mgr_rel_ok by (auto simp: removal_def)

text \<open>What holds of a layer stays so in the later stages.\<close>

lemma removal_stable:
  assumes "removal I r s" and "i < SK_LAYER_COUNT"
  shows "\<not> live (callout_at i (snd r)) \<Longrightarrow> \<not> live (callout_at i (snd s))"
    and "\<not> live (filter_at i (snd r)) \<Longrightarrow> \<not> live (filter_at i (snd s))"
    and "so_filterId (filter_at i (snd r)) = 0 \<Longrightarrow> so_filterId (filter_at i (snd s)) = 0"
    and "so_calloutId (callout_at i (snd r)) = 0 \<Longrightarrow> so_calloutId (callout_at i (snd s)) = 0"
    and "leaked (callout_at i (snd r)) \<Longrightarrow> leaked (callout_at i (snd s))"
proof -
  have "obj_rel (fst s) (callout_at i (snd r)) (callout_at i (snd s))"
      "obj_rel (fst s) (filter_at i (snd r)) (filter_at i (snd s))"
    using assms by (simp_all add: removal_def mgr_rel_def)
  then show "\<not> live (callout_at i (snd r)) \<Longrightarrow> \<not> live (callout_at i (snd s))"
      "\<not> live (filter_at i (snd r)) \<Longrightarrow> \<not> live (filter_at i (snd s))"
      "so_filterId (filter_at i (snd r)) = 0 \<Longrightarrow> so_filterId (filter_at i (snd s)) = 0"
      "so_calloutId (callout_at i (snd r)) = 0 \<Longrightarrow> so_calloutId (callout_at i (snd s)) = 0"
      "leaked (callout_at i (snd r)) \<Longrightarrow> leaked (callout_at i (snd s))"
    by (simp_all only: obj_rel_def) blast+
qed

lemma delete_layer_removal:
  assumes k: "kernel_ok I ShOps slp" and I: "I w" and m: "manager_ok (g_WfpManager w)" and i: "i < SK_LAYER_COUNT"
    and rec: "recorded (ok, w)"
  defines "s \<equiv> delete_layer ShOps i ok w"
  shows "removal I (ok, w) s \<and> recorded s \<and>
    (fst s \<longrightarrow> so_filterId (filter_at i (snd s)) = 0 \<and>
       (leaked (callout_at i (snd s)) \<or> so_calloutId (callout_at i (snd s)) = 0))"
proof -
  obtain ok1 w1 where r: "delete_filter ShOps i ok w = (ok1, w1)" by fastforce
  note f = delete_filter_removal [OF k I m i rec, unfolded r]
  then have w1: "I w1" "manager_ok (g_WfpManager w1)" "recorded (ok1, w1)"
    using removal_state [of I "(ok, w)" "(ok1, w1)"] m by simp_all
  note c = delete_callout_removal [OF k w1(1,2) i w1(3)]
  have "s = delete_callout ShOps i ok1 w1" by (simp add: s_def delete_layer_def r)
  moreover have "removal I (ok, w) (delete_callout ShOps i ok1 w1)" using f c removal_trans by blast
  moreover have "so_filterId (filter_at i (snd s)) = 0" if "fst s"
    using f c that removal_stable(3) [OF conjunct1 [OF c] i] calculation(1)
    by (simp add: removal_def)
  ultimately show ?thesis using c by simp
qed


section \<open>All layers\<close>

lemma unregister_layers_removal:
  assumes k: "kernel_ok I ShOps slp"
  shows "I w \<Longrightarrow> manager_ok (g_WfpManager w) \<Longrightarrow> recorded (ok, w) \<Longrightarrow> \<forall>i \<in> set is. i < SK_LAYER_COUNT \<Longrightarrow>
    \<exists>s. unregister_layers ShOps slp is ok w = Some s \<and> removal I (ok, w) s \<and> recorded s \<and>
      (\<forall>i \<in> set is. \<not> live (callout_at i (snd s)))"
proof (induction "is" arbitrary: ok w)
  case Nil
  then show ?case using removal_refl [of I w] by simp
next
  case (Cons i "is")
  have i: "i < SK_LAYER_COUNT" using Cons.prems(4) by simp
  obtain ok1 w1 where r: "unregister_layer ShOps slp i ok w = Some (ok1, w1)" "removal I (ok, w) (ok1, w1)"
      "recorded (ok1, w1)" "\<not> live (callout_at i w1)"
    using unregister_layer_removal [OF k Cons.prems(1,2) i Cons.prems(3)] by auto
  note w1 = removal_state [OF r(2)]
  obtain s where s: "unregister_layers ShOps slp is ok1 w1 = Some s" "removal I (ok1, w1) s" "recorded s"
      "\<forall>j \<in> set is. \<not> live (callout_at j (snd s))"
    using Cons.IH [of w1 ok1] w1 r(3) Cons.prems by auto
  have "removal I (ok, w) s" using removal_trans [OF r(2) s(2)] .
  moreover have "\<not> live (callout_at i (snd s))" using removal_stable(1) [OF s(2) i] r(4) by simp
  ultimately show ?case using r(1) s by simp
qed

lemma delete_layers_removal:
  assumes k: "kernel_ok I ShOps slp"
  shows "I w \<Longrightarrow> manager_ok (g_WfpManager w) \<Longrightarrow> recorded (ok, w) \<Longrightarrow> \<forall>i \<in> set is. i < SK_LAYER_COUNT \<Longrightarrow>
    removal I (ok, w) (delete_layers ShOps is ok w) \<and> recorded (delete_layers ShOps is ok w) \<and>
    (fst (delete_layers ShOps is ok w) \<longrightarrow>
      (\<forall>i \<in> set is. so_filterId (filter_at i (snd (delete_layers ShOps is ok w))) = 0 \<and>
         (leaked (callout_at i (snd (delete_layers ShOps is ok w))) \<or>
          so_calloutId (callout_at i (snd (delete_layers ShOps is ok w))) = 0)))"
proof (induction "is" arbitrary: ok w)
  case Nil
  then show ?case using removal_refl [of I w] by simp
next
  case (Cons i "is")
  have i: "i < SK_LAYER_COUNT" using Cons.prems(4) by simp
  obtain ok1 w1 where r: "delete_layer ShOps i ok w = (ok1, w1)" by fastforce
  note d = delete_layer_removal [OF k Cons.prems(1,2) i Cons.prems(3), unfolded r fst_conv snd_conv]
  have w1: "I w1" "manager_ok (g_WfpManager w1)" using removal_state [OF conjunct1 [OF d]] Cons.prems(2) by simp_all
  define s where "s = delete_layers ShOps is ok1 w1"
  have s: "removal I (ok1, w1) s \<and> recorded s \<and> (fst s \<longrightarrow>
      (\<forall>i \<in> set is. so_filterId (filter_at i (snd s)) = 0 \<and>
         (leaked (callout_at i (snd s)) \<or> so_calloutId (callout_at i (snd s)) = 0)))"
    using Cons.IH [of w1 ok1] w1 d Cons.prems(4) by (simp add: s_def)
  have "removal I (ok, w) s" using d s removal_trans by blast
  moreover have "so_filterId (filter_at i (snd s)) = 0 \<and>
      (leaked (callout_at i (snd s)) \<or> so_calloutId (callout_at i (snd s)) = 0)" if "fst s"
  proof -
    have "ok1" using s that by (simp add: removal_def)
    then show ?thesis using d removal_stable(3-5) [OF conjunct1 [OF s] i] by auto
  qed
  moreover have "delete_layers ShOps (i # is) ok w = s" by (simp add: r s_def)
  ultimately show ?case using s by simp
qed

section \<open>Sublayer and provider\<close>

lemma delete_sublayer_removal:
  assumes k: "kernel_ok I ShOps slp" and I: "I w"
  shows "removal I (ok, w) (ok \<and> fst (delete_sublayer ShOps w), snd (delete_sublayer ShOps w)) \<and>
    \<not> live (m_sublayer (g_WfpManager (snd (delete_sublayer ShOps w))))"
proof -
  obtain d obj v where d: "skWfpDeleteByKey ShOps (engine_of w) True (m_sublayer (g_WfpManager w)) w = (d, obj, v)"
    by (rule prod_cases3)
  note d' = delete_key_object [OF k I d]
  have "obj_rel (ok \<and> d) (m_sublayer (g_WfpManager w)) obj" using d'(2) by (simp add: obj_rel_def)
  moreover have "I (v\<lparr>g_WfpManager := m\<rparr>)" for m using kernel_okD(9) [OF k preserves_inv [OF d'(1)]] .
  ultimately show ?thesis
    using d' by (simp add: delete_sublayer_def d removal_def mgr_rel_def upd_manager_def preserves_def)
qed

lemma delete_provider_removal:
  assumes k: "kernel_ok I ShOps slp" and I: "I w"
  shows "removal I (ok, w) (ok \<and> fst (delete_provider ShOps w), snd (delete_provider ShOps w)) \<and>
    \<not> live (m_provider (g_WfpManager (snd (delete_provider ShOps w))))"
proof -
  obtain d obj v where d: "skWfpDeleteByKey ShOps (engine_of w) False (m_provider (g_WfpManager w)) w = (d, obj, v)"
    by (rule prod_cases3)
  note d' = delete_key_object [OF k I d]
  have "obj_rel (ok \<and> d) (m_provider (g_WfpManager w)) obj" using d'(2) by (simp add: obj_rel_def)
  moreover have "I (v\<lparr>g_WfpManager := m\<rparr>)" for m using kernel_okD(9) [OF k preserves_inv [OF d'(1)]] .
  ultimately show ?thesis
    using d' by (simp add: delete_provider_def d removal_def mgr_rel_def upd_manager_def preserves_def)
qed

lemma removal_live_keys:
  assumes "removal I r s"
  shows "\<not> live (m_sublayer (g_WfpManager (snd r))) \<Longrightarrow> \<not> live (m_sublayer (g_WfpManager (snd s)))"
    and "\<not> live (m_provider (g_WfpManager (snd r))) \<Longrightarrow> \<not> live (m_provider (g_WfpManager (snd s)))"
  using assms by (auto simp: removal_def mgr_rel_def obj_rel_def)

lemma record_failure_removal:
  assumes k: "kernel_ok I ShOps slp" and r: "removal I (ok, w) (ok \<and> fst r, snd r)" and rec: "recorded (ok, w)"
  shows "removal I (ok, w) (record_failure r ok)" and "recorded (record_failure r ok)"
    and "g_WfpManager (snd (record_failure r ok)) = g_WfpManager (snd r)"
proof -
  show "removal I (ok, w) (record_failure r ok)"
    using r removal_record [OF r k] by (cases "fst r") (simp_all add: record_failure_def case_prod_unfold)
  show "recorded (record_failure r ok)"
    using removal_recorded [OF r _ rec] by (cases "fst r") (simp_all add: record_failure_def case_prod_unfold)
  show "g_WfpManager (snd (record_failure r ok)) = g_WfpManager (snd r)"
    by (simp add: record_failure_def case_prod_unfold)
qed


section \<open>Teardown\<close>

lemma list_all6: "(\<forall>i \<in> set [0..<SK_LAYER_COUNT]. P i) \<longleftrightarrow> (\<forall>i < SK_LAYER_COUNT. P i)"
  by (simp only: set_upt atLeastLessThan_iff Ball_def) simp

text \<open>The state after the deletions, before the engine is closed.\<close>

lemma delete_objects_result:
  assumes k: "kernel_ok I ShOps slp" and I: "I w" and m: "manager_ok (g_WfpManager w)"
  obtains ok v where
    "delete_objects ShOps slp w = Some (ok, v)"
    "removal I (True, w) (ok, v)" "recorded (ok, v)"
    "\<And>i. i < SK_LAYER_COUNT \<Longrightarrow> \<not> live (callout_at i v)"
    "\<And>i. i < SK_LAYER_COUNT \<Longrightarrow> ok \<Longrightarrow> so_filterId (filter_at i v) = 0 \<and>
       (leaked (callout_at i v) \<or> so_calloutId (callout_at i v) = 0)"
    "\<not> live (m_sublayer (g_WfpManager v))" "\<not> live (m_provider (g_WfpManager v))"
proof -
  let ?ls = "[0..<SK_LAYER_COUNT]"
  have ls: "\<forall>i \<in> set ?ls. i < SK_LAYER_COUNT" by simp
  have rec: "recorded (True, w)" by (simp add: recorded_def)
  obtain ok1 w1 where u: "unregister_layers ShOps slp ?ls True w = Some (ok1, w1)"
      "removal I (True, w) (ok1, w1)" "recorded (ok1, w1)" "\<forall>i \<in> set ?ls. \<not> live (callout_at i w1)"
    using unregister_layers_removal [OF k I m rec ls] by auto
  have w1: "I w1" "manager_ok (g_WfpManager w1)" using removal_state [OF u(2)] m by simp_all
  obtain ok2 w2 where d: "delete_layers ShOps ?ls ok1 w1 = (ok2, w2)" by fastforce
  have r2: "removal I (ok1, w1) (ok2, w2)" "recorded (ok2, w2)" and
    l2: "\<And>i. i \<in> set ?ls \<Longrightarrow> ok2 \<Longrightarrow> so_filterId (filter_at i w2) = 0 \<and>
      (leaked (callout_at i w2) \<or> so_calloutId (callout_at i w2) = 0)"
    using delete_layers_removal [OF k w1(1,2) u(3) ls] by (simp_all only: d fst_conv snd_conv)
  have w2: "I w2" using removal_state(1) [OF r2(1)] w1(2) by simp
  obtain ok3 w3 where s: "record_failure (delete_sublayer ShOps w2) ok2 = (ok3, w3)" by fastforce
  have r3: "removal I (ok2, w2) (ok3, w3)" "recorded (ok3, w3)" "\<not> live (m_sublayer (g_WfpManager w3))"
    using delete_sublayer_removal [OF k w2, of ok2] s
      record_failure_removal [OF k, of ok2 w2 "delete_sublayer ShOps w2"] r2(2) by (metis snd_conv)+
  have w3: "I w3" using r3(1) by (simp add: removal_def)
  obtain ok4 w4 where p: "record_failure (delete_provider ShOps w3) ok3 = (ok4, w4)" by fastforce
  have r4: "removal I (ok3, w3) (ok4, w4)" "recorded (ok4, w4)" "\<not> live (m_provider (g_WfpManager w4))"
    using delete_provider_removal [OF k w3, of ok3] p
      record_failure_removal [OF k, of ok3 w3 "delete_provider ShOps w3"] r3(2) by (metis snd_conv)+
  have r24: "removal I (ok2, w2) (ok4, w4)" using removal_trans [OF r3(1) r4(1)] .
  have r14: "removal I (ok1, w1) (ok4, w4)" using removal_trans [OF r2(1) r24] .
  show ?thesis
  proof (rule that)
    show "delete_objects ShOps slp w = Some (ok4, w4)"
      by (simp only: delete_objects_def u(1) Option.bind.bind_lunit prod.case Let_def d s p)
    show "removal I (True, w) (ok4, w4)" using removal_trans [OF u(2) r14] .
    show "\<not> live (callout_at i w4)" if "i < SK_LAYER_COUNT" for i
      using removal_stable(1) [OF r14 that] u(4) that by simp
    show "so_filterId (filter_at i w4) = 0 \<and> (leaked (callout_at i w4) \<or> so_calloutId (callout_at i w4) = 0)"
      if "i < SK_LAYER_COUNT" "ok4" for i
    proof -
      have "ok2" using r24 that(2) by (simp add: removal_def)
      then show ?thesis using l2 [of i] removal_stable(3-5) [OF r24 that(1)] that(1) by auto
    qed
    show "\<not> live (m_sublayer (g_WfpManager w4))" using removal_live_keys(1) [OF r4(1)] r3(3) by simp
  qed (fact r4)+
qed


lemma close_engine_result:
  assumes k: "kernel_ok I ShOps slp" and I: "I w"
  shows "I (snd (close_engine ShOps w))" and "g_WfpLocked (snd (close_engine ShOps w)) = g_WfpLocked w"
    and "g_BlockReason w \<noteq> ShinkenBlockNone \<Longrightarrow> g_BlockReason (snd (close_engine ShOps w)) \<noteq> ShinkenBlockNone"
    and "\<exists>e. g_WfpManager (snd (close_engine ShOps w)) = (g_WfpManager w)
      \<lparr>m_engineObj := e, m_engine := (if fst (close_engine ShOps w) then NULL else engine_of w)\<rparr> \<and>
      so_state e = (if fst (close_engine ShOps w) then SkWfpStateDeleted else SkWfpStateLeaked)"
proof -
  let ?v = "snd (op_EngineClose ShOps (engine_of w) w)"
  have v: "preserves I w ?v" using kernel_okD(6) [OF k I] .
  have "I (?v\<lparr>g_WfpManager := m\<rparr>)" for m using kernel_okD(9) [OF k preserves_inv [OF v]] .
  with v show "I (snd (close_engine ShOps w))" "g_WfpLocked (snd (close_engine ShOps w)) = g_WfpLocked w"
      "g_BlockReason w \<noteq> ShinkenBlockNone \<Longrightarrow> g_BlockReason (snd (close_engine ShOps w)) \<noteq> ShinkenBlockNone"
    by (simp_all add: close_engine_def case_prod_unfold Let_def upd_manager_def preserves_def)
  let ?st = "fst (op_EngineClose ShOps (engine_of w) w)"
  show "\<exists>e. g_WfpManager (snd (close_engine ShOps w)) = (g_WfpManager w)
        \<lparr>m_engineObj := e, m_engine := (if fst (close_engine ShOps w) then NULL else engine_of w)\<rparr> \<and>
        so_state e = (if fst (close_engine ShOps w) then SkWfpStateDeleted else SkWfpStateLeaked)"
    using v
    by (intro exI [of _ "(m_engineObj (g_WfpManager w))\<lparr>so_lastStatus := ?st,
          so_state := (if fst (close_engine ShOps w) then SkWfpStateDeleted else SkWfpStateLeaked)\<rparr>"])
      (simp add: close_engine_def case_prod_unfold Let_def upd_manager_def preserves_def)
qed

lemma any_leaked_iff:
  "any_leaked m \<longleftrightarrow> leaked (m_engineObj m) \<or> leaked (m_provider m) \<or> leaked (m_sublayer m) \<or>
     (\<exists>i < SK_LAYER_COUNT. leaked (m_callouts m ! i) \<or> leaked (m_filters m ! i))"
  by (simp only: any_leaked_def list_ex_iff Bex_def set_upt atLeastLessThan_iff) auto

lemma mgr_rel_leaked: "mgr_rel True m n \<Longrightarrow> \<not> any_leaked m \<Longrightarrow> \<not> any_leaked n"
  by (auto simp: any_leaked_iff mgr_rel_def obj_rel_def)

text \<open>The deletions, started with the mutex held.\<close>

lemma delete_objects_locked:
  assumes k: "kernel_ok I ShOps slp" and I: "I w" and m: "manager_ok (g_WfpManager w)"
  obtains ok u where "delete_objects ShOps slp (skWfpLock w) = Some (ok, u)" "I u" "recorded (ok, u)"
    "engine_of u = engine_of w"
    "ok \<Longrightarrow> \<not> any_leaked (g_WfpManager w) \<Longrightarrow> \<not> any_leaked (g_WfpManager u) \<and>
      (\<forall>i < SK_LAYER_COUNT. \<not> live (callout_at i u) \<and> so_calloutId (callout_at i u) = 0 \<and>
         so_filterId (filter_at i u) = 0) \<and>
      \<not> live (m_sublayer (g_WfpManager u)) \<and> \<not> live (m_provider (g_WfpManager u))"
proof -
  let ?w = "skWfpLock w"
  have w: "I ?w" "manager_ok (g_WfpManager ?w)" "g_WfpManager ?w = g_WfpManager w"
    using kernel_okD(10) [OF k I, of True] m by (simp_all add: skWfpLock_def)
  obtain ok u where d: "delete_objects ShOps slp ?w = Some (ok, u)" "removal I (True, ?w) (ok, u)"
      "recorded (ok, u)" "\<And>i. i < SK_LAYER_COUNT \<Longrightarrow> \<not> live (callout_at i u)"
      "\<And>i. i < SK_LAYER_COUNT \<Longrightarrow> ok \<Longrightarrow> so_filterId (filter_at i u) = 0 \<and>
         (leaked (callout_at i u) \<or> so_calloutId (callout_at i u) = 0)"
      "\<not> live (m_sublayer (g_WfpManager u))" "\<not> live (m_provider (g_WfpManager u))"
    using delete_objects_result [OF k w(1,2)] by metis
  have rel: "mgr_rel ok (g_WfpManager w) (g_WfpManager u)" using d(2) w(3) by (simp add: removal_def)
  have clean: "\<not> any_leaked (g_WfpManager u)" if "ok" "\<not> any_leaked (g_WfpManager w)"
    using mgr_rel_leaked [of "g_WfpManager w"] rel that by simp
  have "\<not> live (callout_at i u) \<and> so_calloutId (callout_at i u) = 0 \<and> so_filterId (filter_at i u) = 0"
    if "i < SK_LAYER_COUNT" "ok" "\<not> any_leaked (g_WfpManager w)" for i
    using d(4) [OF that(1)] d(5) [OF that(1,2)] clean [OF that(2,3)] that(1) by (auto simp: any_leaked_iff)
  moreover have "I u" using d(2) by (simp add: removal_def)
  moreover have "engine_of u = engine_of w" using rel by (simp add: mgr_rel_def)
  ultimately show ?thesis using that d(1,3,6,7) clean by blast
qed

text \<open>What the last part of the teardown does after the deletions.\<close>

lemma teardown_eq:
  assumes "m_installed (g_WfpManager w) \<or> engine_of w \<noteq> NULL" and "delete_objects ShOps slp (skWfpLock w) = Some (ok, u)"
  shows "SkWfpManagerTeardown ShOps slp w = Some
    (let (ok, w) = (if engine_of u \<noteq> NULL \<and> ok then record_failure (close_engine ShOps u) True else (ok, u))
     in (ok, skWfpUnlock (if ok then upd_manager (\<lambda>m. m\<lparr>m_installed := False\<rparr>) w else w)))"
  using assms by (auto simp: SkWfpManagerTeardown_def skWfpLock_def case_prod_unfold Let_def)


section \<open>A concrete kernel\<close>

text \<open>
  A kernel that keeps the runtime ids of the registered callouts. \<open>k_fail\<close>: the engine refuses
  to add a callout (1) or a filter (2); \<open>k_busy\<close>: every unregister answers BUSY.
\<close>

record kern = wfp +
  k_callouts :: "u32 list"
  k_next :: u32
  k_fail :: nat
  k_busy :: bool

definition kern_ops :: "kern ops" where
  "kern_ops =
     \<lparr>op_UnregisterCalloutById = (\<lambda>i w.
        if k_busy w then (STATUS_DEVICE_BUSY, w)
        else if i \<in> set (k_callouts w) then (STATUS_SUCCESS, w\<lparr>k_callouts := remove1 i (k_callouts w)\<rparr>)
        else (FWP_E_CALLOUT_NOT_FOUND, w)),
      op_UnregisterCalloutByKey = (\<lambda>_ w. (FWP_E_CALLOUT_NOT_FOUND, w)),
      op_FilterDeleteById = (\<lambda>_ _ w. (STATUS_SUCCESS, w)), op_FilterDeleteByKey = (\<lambda>_ _ w. (STATUS_SUCCESS, w)),
      op_CalloutDeleteById = (\<lambda>_ _ w. (STATUS_SUCCESS, w)), op_CalloutDeleteByKey = (\<lambda>_ _ w. (STATUS_SUCCESS, w)),
      op_ProviderDeleteByKey = (\<lambda>_ _ w. (STATUS_SUCCESS, w)), op_SubLayerDeleteByKey = (\<lambda>_ _ w. (STATUS_SUCCESS, w)),
      op_EngineClose = (\<lambda>_ w. (STATUS_SUCCESS, w)), op_InjectionHandleDestroy = (\<lambda>_ w. (STATUS_SUCCESS, w)),
      op_FlowRemoveContext = (\<lambda>_ _ _ w. (STATUS_SUCCESS, w)), op_BfeUnsubscribe = (\<lambda>_ w. (STATUS_SUCCESS, w))\<rparr>"

definition kern_api :: "kern api" where
  "kern_api =
     \<lparr>fw_EngineOpen = (\<lambda>_ w. (STATUS_SUCCESS, 3, w)),
      fw_TransactionBegin = (\<lambda>_ w. (STATUS_SUCCESS, w)),
      fw_ProviderAdd = (\<lambda>_ _ w. (STATUS_SUCCESS, w)),
      fw_SubLayerAdd = (\<lambda>_ _ _ _ w. (STATUS_SUCCESS, w)),
      fw_CalloutRegister = (\<lambda>_ _ w.
        (STATUS_SUCCESS, k_next w, w\<lparr>k_callouts := k_next w # k_callouts w, k_next := k_next w + 1\<rparr>)),
      fw_CalloutAdd = (\<lambda>_ _ _ _ w. if k_fail w = 1 then (STATUS_UNSUCCESSFUL, 0, w) else (STATUS_SUCCESS, 7, w)),
      fw_FilterAdd = (\<lambda>_ _ w. if k_fail w = 2 then (STATUS_UNSUCCESSFUL, 0, w) else (STATUS_SUCCESS, 9, w)),
      fw_TransactionCommit = (\<lambda>_ w. (STATUS_SUCCESS, w)),
      fw_TransactionAbort = (\<lambda>_ w. (STATUS_SUCCESS, w))\<rparr>"

text \<open>The loaded image: the manager is zeroed memory.\<close>

definition image_manager :: manager where
  "image_manager = \<lparr>m_engine = NULL, m_engineObj = SkWfpObjectReset [], m_provider = SkWfpObjectReset [],
     m_sublayer = SkWfpObjectReset [], m_callouts = replicate SK_LAYER_COUNT (SkWfpObjectReset []),
     m_filters = replicate SK_LAYER_COUNT (SkWfpObjectReset []), m_installed = False\<rparr>"

definition image_flows :: flow where
  "image_flows = telemetry.extend image_telemetry
     \<lparr>p_flows = (\<lambda>_. None), g_SkFlowList = [], g_SkFlowEntries = 0, g_SkFlowInited = False, flow_stale = []\<rparr>"

definition image_wfp :: wfp where
  "image_wfp = flow.extend image_flows
     \<lparr>g_WfpManager = image_manager, g_WfpMutexReady = False, g_WfpLocked = False\<rparr>"

definition kern_start :: "nat \<Rightarrow> bool \<Rightarrow> kern" where
  "kern_start fail busy = wfp.extend (SkWfpManagerInitMutex image_wfp)
     \<lparr>k_callouts = [], k_next = 1, k_fail = fail, k_busy = busy\<rparr>"

lemma kern_ok: "kernel_ok (\<lambda>w. \<not> g_SkFlowInited w) kern_ops id"
  by (auto simp: kernel_ok_def preserves_def kern_ops_def SkFlowRemoveAll_def ShRuntimeRecordBlock_def Let_def)

text \<open>A manager with one layer installed.\<close>

definition one_layer :: manager where
  "one_layer = image_manager\<lparr>m_engine := 3, m_installed := True,
     m_engineObj := (SkWfpObjectReset [])\<lparr>so_state := SkWfpStateRegistered\<rparr>,
     m_sublayer := (SkWfpObjectReset [])\<lparr>so_state := SkWfpStateRegistered\<rparr>,
     m_callouts := (SkWfpObjectReset [])\<lparr>so_state := SkWfpStateActive, so_calloutRuntimeId := 1, so_calloutId := 7\<rparr>
       # replicate 5 (SkWfpObjectReset []),
     m_filters := (SkWfpObjectReset [])\<lparr>so_state := SkWfpStateRegistered, so_filterId := 9\<rparr>
       # replicate 5 (SkWfpObjectReset [])\<rparr>"

definition kern_installed :: "bool \<Rightarrow> kern" where
  "kern_installed busy = (kern_start 0 busy)\<lparr>g_WfpManager := one_layer, k_callouts := [1]\<rparr>"

lemma kern_installed_state:
  "\<not> g_SkFlowInited (kern_installed busy)" "manager_ok (g_WfpManager (kern_installed busy))"
  "m_installed (g_WfpManager (kern_installed busy))" "\<not> any_leaked (g_WfpManager (kern_installed busy))"
  by (simp_all add: kern_installed_def kern_start_def image_wfp_def image_flows_def wfp.defs flow.defs telemetry.defs
      SkWfpManagerInitMutex_def manager_ok_def any_leaked_iff one_layer_def image_manager_def SkWfpObjectReset_def
      leaked_def nth_Cons' numeral_eq_Suc)

lemmas kern_eval =
  SkWfpManagerTeardown_def delete_objects_def unregister_layer_def delete_layer_def delete_filter_def
  delete_callout_def SkWfpObjectUnregister_def SkWfpObjectDelete_def delete_sublayer_def delete_provider_def
  skWfpDeleteByKey_def record_failure_def close_engine_def skWfpLock_def skWfpUnlock_def set_callout_def
  set_filter_def upd_manager_def live_def leaked_def

lemma six_layers: "[0..<SK_LAYER_COUNT] = [0, 1, 2, 3, 4, 5]" "replicate 5 x = [x, x, x, x, x]"
  by (simp_all add: upt_rec numeral_eq_Suc)

lemma unregister_loop_first:
  "unregister_loop call between SK_WFP_BUSY_RETRIES a obj w = (case call w of
     (st, v) \<Rightarrow> if st = STATUS_SUCCESS
       then Some (st, obj\<lparr>so_lastStatus := st, so_state := SkWfpStateDeleted, so_busyRetries := a\<rparr>, v)
       else unregister_loop call between SK_WFP_BUSY_RETRIES a obj w)"
proof -
  have "SK_WFP_BUSY_RETRIES = Suc 7" by simp
  then show ?thesis by (simp only: unregister_loop.simps(2) Let_def split: prod.split) simp
qed


end
