(* ===== verification/WfpInstall.thy ===== *)
theory WfpInstall
  imports WfpTeardown
begin

text \<open>
  The install of the WFP objects: what success means, what a failed install leaves behind
  after its rollback, and three ways in which a registered callout is forgotten.
\<close>

section \<open>Rollback\<close>

lemma rollback_filter_removal:
  fixes ok :: bool
  assumes k: "kernel_ok I ShOps slp" and I: "I w" and m: "manager_ok (g_WfpManager w)" and i: "i < SK_LAYER_COUNT"
  defines "s \<equiv> rollback_filter ShOps i ok w"
  shows "removal I (ok, w) s \<and> (live (filter_at i (snd s)) \<longrightarrow> so_filterId (filter_at i (snd s)) = 0)"
proof (cases "live (filter_at i w)")
  case False
  then show ?thesis using removal_refl [of I, OF I] by (simp add: s_def rollback_filter_def)
next
  case True
  obtain st fi v where d: "SkWfpObjectDelete ShOps (engine_of w) (filter_at i w) w = (st, fi, v)"
    by (rule prod_cases3)
  note d' = delete_object [OF k I d]
  let ?ok = "if leaked fi then False else ok"
  have "obj_rel ?ok (filter_at i w) fi" using d'(2) by (simp add: obj_rel_def)
  then have "removal I (ok, w) (?ok, set_filter i fi v)"
    using removal_set_filter [OF k d'(1), of ?ok i fi ok] by (simp split: if_splits)
  moreover have "filter_at i (set_filter i fi v) = fi" using d'(1) m i by (simp add: preserves_def manager_ok_def)
  moreover have "live fi \<longrightarrow> so_filterId fi = 0" using d'(2,5) by (auto simp: obj_rel_def)
  ultimately show ?thesis using True d by (simp add: s_def rollback_filter_def leaked_def)
qed

lemma rollback_callout_removal:
  assumes k: "kernel_ok I ShOps slp" and I: "I w" and m: "manager_ok (g_WfpManager w)" and i: "i < SK_LAYER_COUNT"
  shows "\<exists>s. rollback_callout ShOps slp i ok w = Some s \<and> removal I (ok, w) s \<and> \<not> live (callout_at i (snd s))"
proof (cases "live (callout_at i w)")
  case False
  then show ?thesis using removal_refl [of I, OF I] by (simp add: rollback_callout_def)
next
  case True
  have "cleanup_ok ShOps None" by (simp add: cleanup_ok_def)
  then obtain st co v where u: "SkWfpObjectUnregister ShOps slp None SK_WFP_BUSY_RETRIES (callout_at i w) w = Some (st, co, v)"
      "preserves I w v" "obj_rel (\<not> leaked co) (callout_at i w) co" "\<not> live co"
    using unregister_object [OF k I _ True] by blast
  have same: "g_WfpManager v = g_WfpManager w" using u(2) by (simp add: preserves_def)
  show ?thesis
  proof (cases "leaked co \<or> so_calloutId co = 0")
    case False
    obtain st' co' v' where d: "SkWfpObjectDelete ShOps (engine_of v) co v = (st', co', v')" by (rule prod_cases3)
    note d' = delete_object [OF k preserves_inv [OF u(2)] d]
    have v': "preserves I w v'" using preserves_trans [OF u(2) d'(1)] .
    let ?ok = "if leaked co' then False else ok"
    have "obj_rel ?ok (callout_at i w) co'"
      using u(3) d'(2) by (auto simp: obj_rel_def)
    then have "removal I (ok, w) (?ok, set_callout i co' v')"
      using removal_set_callout [OF k v', of ?ok i co' ok] by (simp split: if_splits)
    moreover have "\<not> live co'" using d'(2) u(4) by (auto simp: obj_rel_def)
    moreover have "callout_at i (set_callout i co' v') = co'" using v' m i by (simp add: preserves_def manager_ok_def)
    ultimately show ?thesis
      using True False u(1) d same by (simp add: rollback_callout_def leaked_def)
  next
    case True
    let ?ok = "if leaked co then False else ok"
    have "obj_rel ?ok (callout_at i w) co" using u(3) by (simp add: obj_rel_def)
    then have "removal I (ok, w) (?ok, set_callout i co v)"
      using removal_set_callout [OF k u(2), of ?ok i co ok] by (simp split: if_splits)
    moreover have "callout_at i (set_callout i co v) = co" using u(2) m i by (simp add: preserves_def manager_ok_def)
    ultimately show ?thesis
      using True \<open>live (callout_at i w)\<close> u(1,4) by (auto simp: rollback_callout_def leaked_def)
  qed
qed

lemma rollback_layers_removal:
  assumes k: "kernel_ok I ShOps slp"
  shows "I w \<Longrightarrow> manager_ok (g_WfpManager w) \<Longrightarrow> n \<le> SK_LAYER_COUNT \<Longrightarrow>
    \<exists>s. rollback_layers ShOps slp n ok w = Some s \<and> removal I (ok, w) s \<and>
      (\<forall>i < n. \<not> live (callout_at i (snd s)) \<and>
         (live (filter_at i (snd s)) \<longrightarrow> so_filterId (filter_at i (snd s)) = 0))"
proof (induction n arbitrary: ok w)
  case 0
  then show ?case using removal_refl [of I w] by simp
next
  case (Suc n)
  have n: "n < SK_LAYER_COUNT" using Suc.prems(3) by simp
  obtain ok1 w1 where f: "rollback_filter ShOps n ok w = (ok1, w1)" by fastforce
  note f' = rollback_filter_removal [OF k Suc.prems(1,2) n, of ok, unfolded f fst_conv snd_conv]
  have w1: "I w1" "manager_ok (g_WfpManager w1)" using removal_state [OF conjunct1 [OF f']] Suc.prems(2) by simp_all
  obtain ok2 w2 where c: "rollback_callout ShOps slp n ok1 w1 = Some (ok2, w2)" "removal I (ok1, w1) (ok2, w2)"
      "\<not> live (callout_at n w2)"
    using rollback_callout_removal [OF k w1 n, of ok1] by auto
  have w2: "I w2" "manager_ok (g_WfpManager w2)" using removal_state [OF c(2)] w1(2) by simp_all
  obtain s where s: "rollback_layers ShOps slp n ok2 w2 = Some s" "removal I (ok2, w2) s"
      "\<forall>i < n. \<not> live (callout_at i (snd s)) \<and>
         (live (filter_at i (snd s)) \<longrightarrow> so_filterId (filter_at i (snd s)) = 0)"
    using Suc.IH [OF w2, of ok2] Suc.prems(3) by auto
  have r1s: "removal I (ok1, w1) s" using removal_trans [OF c(2) s(2)] .
  have "removal I (ok, w) s" using removal_trans [OF conjunct1 [OF f'] r1s] .
  moreover have "\<not> live (callout_at n (snd s))" using removal_stable(1) [OF s(2) n] c(3) by simp
  moreover have "live (filter_at n (snd s)) \<longrightarrow> so_filterId (filter_at n (snd s)) = 0"
    using removal_stable(2,3) [OF r1s n] f' by auto
  ultimately show ?case using f c(1) s(1,3) by (auto simp: less_Suc_eq)
qed

text \<open>What a rollback leaves: nothing live (a filter without an id apart), the engine closed or leaked.\<close>

definition rolled_back :: "manager \<Rightarrow> bool" where
  "rolled_back m \<longleftrightarrow> (\<forall>i < SK_LAYER_COUNT. \<not> live (m_callouts m ! i) \<and>
       (live (m_filters m ! i) \<longrightarrow> so_filterId (m_filters m ! i) = 0)) \<and>
     \<not> live (m_sublayer m) \<and> \<not> live (m_provider m) \<and> (m_engine m = NULL \<or> leaked (m_engineObj m))"

lemma rollback_result:
  assumes k: "kernel_ok I ShOps slp" and I: "I w" and m: "manager_ok (g_WfpManager w)"
    and no_leak: "\<not> any_leaked (g_WfpManager w)"
  shows "\<exists>ok v. skWfpRollbackLocked ShOps slp w = Some (ok, v) \<and> I v \<and> g_WfpLocked v = g_WfpLocked w \<and>
    (g_BlockReason w \<noteq> ShinkenBlockNone \<longrightarrow> g_BlockReason v \<noteq> ShinkenBlockNone) \<and>
    m_installed (g_WfpManager v) = m_installed (g_WfpManager w) \<and> rolled_back (g_WfpManager v) \<and>
    (ok \<longrightarrow> \<not> any_leaked (g_WfpManager v))"
proof -
  obtain ok1 w1 where l: "rollback_layers ShOps slp SK_LAYER_COUNT True w = Some (ok1, w1)"
      "removal I (True, w) (ok1, w1)"
      "\<forall>i < SK_LAYER_COUNT. \<not> live (callout_at i w1) \<and> (live (filter_at i w1) \<longrightarrow> so_filterId (filter_at i w1) = 0)"
    using rollback_layers_removal [OF k I m, of SK_LAYER_COUNT True] by auto
  have w1: "I w1" using l(2) by (simp add: removal_def)
  obtain d2 w2 where s: "delete_sublayer ShOps w1 = (d2, w2)" by fastforce
  have s': "removal I (ok1, w1) (ok1 \<and> d2, w2)" "\<not> live (m_sublayer (g_WfpManager w2))"
    using delete_sublayer_removal [OF k w1, of ok1] by (simp_all add: s)
  have w2: "I w2" using s'(1) by (simp add: removal_def)
  obtain d3 w3 where p: "delete_provider ShOps w2 = (d3, w3)" by fastforce
  have p': "removal I (ok1 \<and> d2, w2) ((ok1 \<and> d2) \<and> d3, w3)" "\<not> live (m_provider (g_WfpManager w3))"
    using delete_provider_removal [OF k w2, of "ok1 \<and> d2"] by (simp_all add: p)
  define ok3 where "ok3 = ((ok1 \<and> d2) \<and> d3)"
  have r13: "removal I (ok1, w1) (ok3, w3)" using removal_trans [OF s'(1) p'(1)] by (simp add: ok3_def)
  have r: "removal I (True, w) (ok3, w3)" using removal_trans [OF l(2) r13] .
  have w3: "I w3" using r by (simp add: removal_def)
  have layers: "\<not> live (callout_at i w3) \<and> (live (filter_at i w3) \<longrightarrow> so_filterId (filter_at i w3) = 0)"
    if "i < SK_LAYER_COUNT" for i
    using removal_stable(1-3) [OF r13 that] l(3) that by auto
  have keys: "\<not> live (m_sublayer (g_WfpManager w3))" "\<not> live (m_provider (g_WfpManager w3))"
    using removal_live_keys(1) [OF p'(1)] s'(2) p'(2) by simp_all
  have clean: "\<not> any_leaked (g_WfpManager w3)" if ok3
    using mgr_rel_leaked [of "g_WfpManager w"] r no_leak that by (simp add: removal_def)
  have eq: "skWfpRollbackLocked ShOps slp w = Some (if engine_of w3 \<noteq> NULL
      then (ok3 \<and> fst (close_engine ShOps w3), snd (close_engine ShOps w3)) else (ok3, w3))"
    by (simp add: skWfpRollbackLocked_def l(1) s p ok3_def case_prod_unfold Let_def)
  show ?thesis
  proof (cases "engine_of w3 = NULL")
    case True
    then have "rolled_back (g_WfpManager w3)" using layers keys by (simp add: rolled_back_def)
    then show ?thesis using True eq clean r by (simp add: removal_def mgr_rel_def)
  next
    case False
    note c = close_engine_result(1-3) [OF k w3]
    obtain e where e: "g_WfpManager (snd (close_engine ShOps w3)) = (g_WfpManager w3)
        \<lparr>m_engineObj := e, m_engine := (if fst (close_engine ShOps w3) then NULL else engine_of w3)\<rparr>"
        "so_state e = (if fst (close_engine ShOps w3) then SkWfpStateDeleted else SkWfpStateLeaked)"
      using close_engine_result(4) [OF k w3] by blast
    have "rolled_back (g_WfpManager (snd (close_engine ShOps w3)))"
      using layers keys e by (simp add: rolled_back_def leaked_def)
    moreover have "\<not> any_leaked (g_WfpManager (snd (close_engine ShOps w3)))" if "ok3 \<and> fst (close_engine ShOps w3)"
      using clean e that by (simp add: any_leaked_iff leaked_def)
    ultimately show ?thesis using False eq c e(1) r by (simp add: removal_def mgr_rel_def)
  qed
qed


section \<open>Creation\<close>

definition api_ok :: "('a wfp_scheme \<Rightarrow> bool) \<Rightarrow> 'a wfp_scheme api \<Rightarrow> bool" where
  "api_ok I fw \<longleftrightarrow> (\<forall>w. I w \<longrightarrow>
     (\<forall>f. preserves I w (snd (snd (fw_EngineOpen fw f w)))) \<and>
     (\<forall>h. preserves I w (snd (fw_TransactionBegin fw h w))) \<and>
     (\<forall>h k. preserves I w (snd (fw_ProviderAdd fw h k w))) \<and>
     (\<forall>h k p n. preserves I w (snd (fw_SubLayerAdd fw h k p n w))) \<and>
     (\<forall>d c. preserves I w (snd (snd (fw_CalloutRegister fw d c w)))) \<and>
     (\<forall>h k p l. preserves I w (snd (snd (fw_CalloutAdd fw h k p l w)))) \<and>
     (\<forall>h f. preserves I w (snd (snd (fw_FilterAdd fw h f w)))) \<and>
     (\<forall>h. preserves I w (snd (fw_TransactionCommit fw h w))) \<and>
     (\<forall>h. preserves I w (snd (fw_TransactionAbort fw h w))))"

lemma api_okD:
  assumes "api_ok I fw" and "I w"
  shows "preserves I w (snd (snd (fw_EngineOpen fw f w)))"
    and "preserves I w (snd (fw_TransactionBegin fw h w))"
    and "preserves I w (snd (fw_ProviderAdd fw h k w))"
    and "preserves I w (snd (fw_SubLayerAdd fw h k p n w))"
    and "preserves I w (snd (snd (fw_CalloutRegister fw d c w)))"
    and "preserves I w (snd (snd (fw_CalloutAdd fw h k p l w)))"
    and "preserves I w (snd (snd (fw_FilterAdd fw h fs w)))"
    and "preserves I w (snd (fw_TransactionCommit fw h w))"
    and "preserves I w (snd (fw_TransactionAbort fw h w))"
  using assms(1) [unfolded api_ok_def, THEN spec, THEN mp, OF assms(2)] by simp_all

text \<open>One step of the construction: nothing leaks, and what is active stays active.\<close>

definition builds :: "('a wfp_scheme \<Rightarrow> bool) \<Rightarrow> 'a wfp_scheme \<Rightarrow> 'a wfp_scheme \<Rightarrow> bool" where
  "builds I w v \<longleftrightarrow> I v \<and> g_WfpLocked v = g_WfpLocked w \<and>
     (g_BlockReason w \<noteq> ShinkenBlockNone \<longrightarrow> g_BlockReason v \<noteq> ShinkenBlockNone) \<and>
     m_installed (g_WfpManager v) = m_installed (g_WfpManager w) \<and>
     m_engineObj (g_WfpManager v) = m_engineObj (g_WfpManager w) \<and>
     (manager_ok (g_WfpManager w) \<longrightarrow> manager_ok (g_WfpManager v)) \<and>
     (\<not> any_leaked (g_WfpManager w) \<longrightarrow> \<not> any_leaked (g_WfpManager v))"

lemma builds_trans: "builds I u v \<Longrightarrow> builds I v w \<Longrightarrow> builds I u w"
  by (simp add: builds_def)

lemma builds_preserves: "preserves I w v \<Longrightarrow> builds I w v"
  by (simp add: builds_def preserves_def)

lemma builds_inv: "builds I w v \<Longrightarrow> I v"
  by (simp add: builds_def)

text \<open>Writing an object that is not leaked.\<close>

lemma builds_set:
  assumes k: "kernel_ok I ShOps slp" and I: "I w" and obj: "\<not> leaked obj"
  shows "so_filterId obj = 0 \<Longrightarrow> builds I w (set_callout i obj w)"
    and "builds I w (set_filter i obj w)"
    and "builds I w (upd_manager (\<lambda>m. m\<lparr>m_provider := obj\<rparr>) w)"
    and "builds I w (upd_manager (\<lambda>m. m\<lparr>m_sublayer := obj\<rparr>) w)"
proof -
  have nth: "xs[i := x] ! j = (if j = i \<and> i < length xs then x else xs ! j)" for xs :: "sk_object list" and x j
    by (cases "i < length xs") (auto simp: nth_list_update list_update_beyond)
  have I': "I (w\<lparr>g_WfpManager := m\<rparr>)" for m using kernel_okD(9) [OF k I] .
  show "so_filterId obj = 0 \<Longrightarrow> builds I w (set_callout i obj w)" "builds I w (set_filter i obj w)"
      "builds I w (upd_manager (\<lambda>m. m\<lparr>m_provider := obj\<rparr>) w)"
      "builds I w (upd_manager (\<lambda>m. m\<lparr>m_sublayer := obj\<rparr>) w)"
    using I' obj
    by (simp_all add: builds_def set_callout_def set_filter_def upd_manager_def manager_ok_def any_leaked_iff nth)
qed

lemma register_object:
  assumes "api_ok I fw" and "I w" and "SkWfpObjectRegisterCallout fw dev def obj w = (st, obj', v)"
  shows "preserves I w v" and "so_filterId obj' = so_filterId obj" and "\<not> leaked obj'"
  using assms(3) api_okD(5) [OF assms(1,2), of dev def]
  by (auto simp: SkWfpObjectRegisterCallout_def Let_def case_prod_unfold leaked_def split: if_splits)

lemma add_callout_object:
  assumes "api_ok I fw" and "I w" and "SkWfpObjectAddCallout fw e obj w = (st, obj', v)" and "\<not> leaked obj"
  shows "preserves I w v" and "so_filterId obj' = so_filterId obj" and "\<not> leaked obj'"
  using assms(3,4) api_okD(6) [OF assms(1,2)] preserves_refl [of I, OF assms(2)]
  by (auto simp: SkWfpObjectAddCallout_def Let_def case_prod_unfold leaked_def split: if_splits option.splits)

lemma add_filter_object:
  assumes "api_ok I fw" and "I w" and "SkWfpObjectAddFilter fw e key l obj w = (st, obj', v)"
  shows "preserves I w v" and "\<not> leaked obj'" and "NT_SUCCESS st \<Longrightarrow> so_state obj' = SkWfpStateRegistered"
  using assms(3) api_okD(7) [OF assms(1,2)] preserves_refl [of I, OF assms(2)]
  by (auto simp: SkWfpObjectAddFilter_def Let_def case_prod_unfold leaked_def split: if_splits option.splits)

lemma add_provider_builds:
  assumes k: "kernel_ok I ShOps slp" and a: "api_ok I fw" and I: "I w"
  shows "builds I w (snd (add_provider fw w))"
    and "fst (add_provider fw w) = None \<Longrightarrow> so_state (m_provider (g_WfpManager (snd (add_provider fw w)))) = SkWfpStateRegistered"
    and "fst (add_provider fw w) = Some st \<Longrightarrow> \<not> NT_SUCCESS st"
proof -
  define w1 where "w1 = upd_manager (\<lambda>m. m\<lparr>m_provider := (m_provider m)
                \<lparr>so_phase := SkWfpPhaseProviderAdd, so_key := g_SkProviderKey\<rparr>\<rparr>) w"
  have I1: "I w1" using kernel_okD(9) [OF k I] by (simp add: w1_def upd_manager_def)
  define v where "v = snd (fw_ProviderAdd fw (engine_of w1) g_SkProviderKey w1)"
  have v: "preserves I w1 v" using api_okD(3) [OF a I1] by (simp add: v_def)
  have Iv: "I (v\<lparr>g_WfpManager := m\<rparr>)" for m using kernel_okD(9) [OF k preserves_inv [OF v]] .
  have "g_WfpLocked w1 = g_WfpLocked w" "g_BlockReason w1 = g_BlockReason w" by (simp_all add: w1_def upd_manager_def)
  then show "builds I w (snd (add_provider fw w))"
    using v Iv by (simp add: add_provider_def Let_def case_prod_unfold flip: w1_def v_def)
      (auto simp: builds_def preserves_def upd_manager_def w1_def manager_ok_def any_leaked_iff leaked_def)
  show "fst (add_provider fw w) = None \<Longrightarrow> so_state (m_provider (g_WfpManager (snd (add_provider fw w)))) = SkWfpStateRegistered"
      "fst (add_provider fw w) = Some st \<Longrightarrow> \<not> NT_SUCCESS st"
    by (auto simp: add_provider_def Let_def case_prod_unfold upd_manager_def split: if_splits)
qed

lemma add_sublayer_builds:
  assumes k: "kernel_ok I ShOps slp" and a: "api_ok I fw" and I: "I w"
  shows "builds I w (snd (add_sublayer fw w))"
    and "m_provider (g_WfpManager (snd (add_sublayer fw w))) = m_provider (g_WfpManager w)"
    and "fst (add_sublayer fw w) = None \<Longrightarrow> so_state (m_sublayer (g_WfpManager (snd (add_sublayer fw w)))) = SkWfpStateRegistered"
    and "fst (add_sublayer fw w) = Some st \<Longrightarrow> \<not> NT_SUCCESS st"
proof -
  define w1 where "w1 = upd_manager (\<lambda>m. m\<lparr>m_sublayer := (m_sublayer m)
                \<lparr>so_phase := SkWfpPhaseSubLayerAdd, so_key := g_SkSubLayerKey\<rparr>\<rparr>) w"
  have I1: "I w1" using kernel_okD(9) [OF k I] by (simp add: w1_def upd_manager_def)
  define v where "v = snd (fw_SubLayerAdd fw (engine_of w1) g_SkSubLayerKey g_SkProviderKey 0x100 w1)"
  have v: "preserves I w1 v" using api_okD(4) [OF a I1] by (simp add: v_def)
  have Iv: "I (v\<lparr>g_WfpManager := m\<rparr>)" for m using kernel_okD(9) [OF k preserves_inv [OF v]] .
  have "g_WfpLocked w1 = g_WfpLocked w" "g_BlockReason w1 = g_BlockReason w" by (simp_all add: w1_def upd_manager_def)
  then show "builds I w (snd (add_sublayer fw w))"
    using v Iv by (simp add: add_sublayer_def Let_def case_prod_unfold flip: w1_def v_def)
      (auto simp: builds_def preserves_def upd_manager_def w1_def manager_ok_def any_leaked_iff leaked_def)
  show "m_provider (g_WfpManager (snd (add_sublayer fw w))) = m_provider (g_WfpManager w)"
    using v by (simp add: add_sublayer_def Let_def case_prod_unfold flip: w1_def v_def)
      (simp add: preserves_def upd_manager_def w1_def)
  show "fst (add_sublayer fw w) = None \<Longrightarrow> so_state (m_sublayer (g_WfpManager (snd (add_sublayer fw w)))) = SkWfpStateRegistered"
      "fst (add_sublayer fw w) = Some st \<Longrightarrow> \<not> NT_SUCCESS st"
    by (auto simp: add_sublayer_def Let_def case_prod_unfold upd_manager_def split: if_splits)
qed


definition layer_active :: "manager \<Rightarrow> nat \<Rightarrow> bool" where
  "layer_active m i \<longleftrightarrow> so_state (m_callouts m ! i) = SkWfpStateActive \<and> so_state (m_filters m ! i) = SkWfpStateRegistered"

definition same_keys :: "manager \<Rightarrow> manager \<Rightarrow> bool" where
  "same_keys m n \<longleftrightarrow> m_provider n = m_provider m \<and> m_sublayer n = m_sublayer m"

lemma set_same_keys [simp]:
  "same_keys m (g_WfpManager (set_callout i co w)) = same_keys m (g_WfpManager w)"
  "same_keys m (g_WfpManager (set_filter i co w)) = same_keys m (g_WfpManager w)"
  by (simp_all add: same_keys_def set_callout_def set_filter_def upd_manager_def)

lemma install_layer_builds:
  fixes dev :: handle
  assumes k: "kernel_ok I ShOps slp" and a: "api_ok I fw" and I: "I w" and m: "manager_ok (g_WfpManager w)"
    and i: "i < SK_LAYER_COUNT" and nl: "\<not> leaked (callout_at i w)"
  defines "r \<equiv> install_layer fw dev i w"
  shows "builds I w (snd r)" and "same_keys (g_WfpManager w) (g_WfpManager (snd r))"
    and "fst r = Some st \<Longrightarrow> \<not> NT_SUCCESS st"
    and "fst r = None \<Longrightarrow> layer_active (g_WfpManager (snd r)) i \<and>
      (\<forall>j. layer_active (g_WfpManager w) j \<longrightarrow> layer_active (g_WfpManager (snd r)) j)"
proof -
  let ?def = "g_SkCalloutDefs ! i"
  obtain st1 co1 v1 where 1: "SkWfpObjectRegisterCallout fw dev ?def (callout_at i w) w = (st1, co1, v1)" by (rule prod_cases3)
  note o1 = register_object [OF a I 1]
  have id1: "so_filterId co1 = 0" using o1(2) m i by (simp add: manager_ok_def)
  let ?u1 = "set_callout i co1 v1"
  have b1: "builds I w ?u1"
    using builds_trans [OF builds_preserves [OF o1(1)] builds_set(1) [OF k preserves_inv [OF o1(1)] o1(3) id1]] .
  obtain st2 co2 v2 where 2: "SkWfpObjectAddCallout fw (engine_of ?u1) co1 ?u1 = (st2, co2, v2)" by (rule prod_cases3)
  note o2 = add_callout_object [OF a builds_inv [OF b1] 2 o1(3)]
  have id2: "so_filterId co2 = 0" using o2(2) id1 by simp
  let ?u2 = "set_callout i co2 v2"
  have b2: "builds I w ?u2"
    using builds_trans [OF b1 builds_trans [OF builds_preserves [OF o2(1)] builds_set(1) [OF k preserves_inv [OF o2(1)] o2(3) id2]]] .
  obtain st3 fi v3 where 3: "SkWfpObjectAddFilter fw (engine_of ?u2) (Some (cd_layerKey ?def)) (cd_layerId ?def)
      (filter_at i ?u2) ?u2 = (st3, fi, v3)" by (rule prod_cases3)
  note o3 = add_filter_object [OF a builds_inv [OF b2] 3]
  let ?u3 = "set_filter i fi v3"
  have b3: "builds I w ?u3"
    using builds_trans [OF b2 builds_trans [OF builds_preserves [OF o3(1)] builds_set(2) [OF k preserves_inv [OF o3(1)] o3(2)]]] .
  let ?co = "co2\<lparr>so_state := SkWfpStateActive\<rparr>"
  let ?u4 = "set_callout i ?co ?u3"
  have b4: "builds I w ?u4"
    using builds_trans [OF b3 builds_set(1) [OF k builds_inv [OF b3], of ?co i]] id2 by (simp add: leaked_def)
  have r: "r = (if \<not> NT_SUCCESS st1 then (Some st1, ?u1) else if \<not> NT_SUCCESS st2 then (Some st2, ?u2)
      else if \<not> NT_SUCCESS st3 then (Some st3, ?u3) else (None, ?u4))"
    using 1 2 3 by (simp add: r_def install_layer_def Let_def)
  show "builds I w (snd r)" using b1 b2 b3 b4 by (simp add: r)
  have m1: "g_WfpManager v1 = g_WfpManager w" "g_WfpManager v2 = g_WfpManager ?u1" "g_WfpManager v3 = g_WfpManager ?u2"
    using o1(1) o2(1) o3(1) by (simp_all add: preserves_def)
  then show "same_keys (g_WfpManager w) (g_WfpManager (snd r))"
    by (simp add: r same_keys_def set_callout_def set_filter_def upd_manager_def)
  show "fst r = Some st \<Longrightarrow> \<not> NT_SUCCESS st" by (auto simp: r split: if_splits)
  assume "fst r = None"
  then have eq: "snd r = ?u4" "NT_SUCCESS st3" by (simp_all add: r split: if_splits)
  have "g_WfpManager ?u4 = (g_WfpManager w)\<lparr>m_callouts := (m_callouts (g_WfpManager w))[i := ?co],
      m_filters := (m_filters (g_WfpManager w))[i := fi]\<rparr>"
    using m1 by (simp add: set_callout_def set_filter_def upd_manager_def)
  then show "layer_active (g_WfpManager (snd r)) i \<and>
      (\<forall>j. layer_active (g_WfpManager w) j \<longrightarrow> layer_active (g_WfpManager (snd r)) j)"
    using o3(3) [OF eq(2)] m i unfolding eq
    by (simp add: layer_active_def manager_ok_def nth_list_update)
qed

lemma install_layers_builds:
  assumes k: "kernel_ok I ShOps slp" and a: "api_ok I fw"
  shows "I w \<Longrightarrow> manager_ok (g_WfpManager w) \<Longrightarrow> \<not> any_leaked (g_WfpManager w) \<Longrightarrow>
    \<forall>i \<in> set is. i < SK_LAYER_COUNT \<Longrightarrow>
    builds I w (snd (install_layers fw dev is w)) \<and>
    same_keys (g_WfpManager w) (g_WfpManager (snd (install_layers fw dev is w))) \<and>
    (\<forall>st. fst (install_layers fw dev is w) = Some st \<longrightarrow> \<not> NT_SUCCESS st) \<and>
    (fst (install_layers fw dev is w) = None \<longrightarrow>
      (\<forall>i \<in> set is. layer_active (g_WfpManager (snd (install_layers fw dev is w))) i) \<and>
      (\<forall>j. layer_active (g_WfpManager w) j \<longrightarrow> layer_active (g_WfpManager (snd (install_layers fw dev is w))) j))"
proof (induction "is" arbitrary: w)
  case Nil
  then show ?case using builds_preserves [OF preserves_refl [of I w]] by (simp add: same_keys_def)
next
  case (Cons i "is")
  have i: "i < SK_LAYER_COUNT" using Cons.prems(4) by simp
  have nl: "\<not> leaked (callout_at i w)" using Cons.prems(3) i by (simp add: any_leaked_iff)
  obtain r v where r: "install_layer fw dev i w = (r, v)" by fastforce
  note l = install_layer_builds [OF k a Cons.prems(1,2) i nl, of dev, unfolded r fst_conv snd_conv]
  show ?case
  proof (cases r)
    case (Some st)
    then show ?thesis using l by (simp add: r)
  next
    case None
    have v: "I v" "manager_ok (g_WfpManager v)" "\<not> any_leaked (g_WfpManager v)"
      using l(1) Cons.prems by (simp_all add: builds_def)
    define t where "t = install_layers fw dev is v"
    have IH: "builds I v (snd t) \<and> same_keys (g_WfpManager v) (g_WfpManager (snd t)) \<and>
      (\<forall>st. fst t = Some st \<longrightarrow> \<not> NT_SUCCESS st) \<and>
      (fst t = None \<longrightarrow> (\<forall>i \<in> set is. layer_active (g_WfpManager (snd t)) i) \<and>
        (\<forall>j. layer_active (g_WfpManager v) j \<longrightarrow> layer_active (g_WfpManager (snd t)) j))"
      using Cons.IH [OF v] Cons.prems(4) by (simp add: t_def)
    moreover have "builds I w (snd t)" using builds_trans [OF l(1)] IH by blast
    moreover have "install_layers fw dev (i # is) w = t" by (simp add: r None t_def)
    ultimately show ?thesis using l(2,4) None by (simp add: same_keys_def)
  qed
qed


definition install_complete :: "manager \<Rightarrow> bool" where
  "install_complete m \<longleftrightarrow> (\<forall>i < SK_LAYER_COUNT. layer_active m i) \<and>
     so_state (m_provider m) = SkWfpStateRegistered \<and> so_state (m_sublayer m) = SkWfpStateRegistered"

lemma install_transaction_builds:
  assumes k: "kernel_ok I ShOps slp" and a: "api_ok I fw" and I: "I w" and m: "manager_ok (g_WfpManager w)"
    and nl: "\<not> any_leaked (g_WfpManager w)" and t: "install_transaction fw dev w = (b, r, v)"
  shows "builds I w v" and "r = Some st \<Longrightarrow> \<not> NT_SUCCESS st" and "r = None \<Longrightarrow> install_complete (g_WfpManager v)"
proof -
  obtain st1 w1 where 1: "fw_TransactionBegin fw (engine_of w) w = (st1, w1)" by fastforce
  have b1: "builds I w w1" using builds_preserves [OF api_okD(2) [OF a I, of "engine_of w"]] by (simp add: 1)
  obtain r2 w2 where 2: "add_provider fw w1 = (r2, w2)" by fastforce
  note p = add_provider_builds [OF k a builds_inv [OF b1], unfolded 2 fst_conv snd_conv]
  have b2: "builds I w w2" using builds_trans [OF b1 p(1)] .
  obtain r3 w3 where 3: "add_sublayer fw w2 = (r3, w3)" by fastforce
  note s = add_sublayer_builds [OF k a builds_inv [OF b2], unfolded 3 fst_conv snd_conv]
  have b3: "builds I w w3" using builds_trans [OF b2 s(1)] .
  then have w3: "I w3" "manager_ok (g_WfpManager w3)" "\<not> any_leaked (g_WfpManager w3)"
    using m nl by (simp_all add: builds_def)
  obtain r4 w4 where 4: "install_layers fw dev [0..<SK_LAYER_COUNT] w3 = (r4, w4)" by fastforce
  have l: "builds I w3 w4" "same_keys (g_WfpManager w3) (g_WfpManager w4)" "\<And>st. r4 = Some st \<Longrightarrow> \<not> NT_SUCCESS st"
      "r4 = None \<Longrightarrow> \<forall>i \<in> set [0..<SK_LAYER_COUNT]. layer_active (g_WfpManager w4) i"
    using install_layers_builds [OF k a w3, of "[0..<SK_LAYER_COUNT]" dev] by (simp_all add: 4)
  have b4: "builds I w w4" using builds_trans [OF b3 l(1)] .
  obtain st5 w5 where 5: "fw_TransactionCommit fw (engine_of w4) w4 = (st5, w5)" by fastforce
  have w5: "preserves I w4 w5" using api_okD(8) [OF a builds_inv [OF b4], of "engine_of w4"] by (simp add: 5)
  have b5: "builds I w w5" using builds_trans [OF b4 builds_preserves [OF w5]] .
  have tr: "(b, r, v) = (if \<not> NT_SUCCESS st1 then (False, Some st1, w1) else if r2 \<noteq> None then (True, r2, w2)
      else if r3 \<noteq> None then (True, r3, w3) else if r4 \<noteq> None then (True, r4, w4)
      else if \<not> NT_SUCCESS st5 then (True, Some st5, w5) else (True, None, w5))"
    using t by (auto simp: install_transaction_def 1 2 3 4 5 split: option.splits)
  show "builds I w v" using tr b1 b2 b3 b4 b5 by (simp split: if_splits)
  show "r = Some st \<Longrightarrow> \<not> NT_SUCCESS st" using tr p(3) s(4) l(3) by (auto split: if_splits)
  assume "r = None"
  then have "v = w5" "r2 = None" "r3 = None" "r4 = None" using tr by (simp_all split: if_splits)
  then show "install_complete (g_WfpManager v)"
    using p(2) s(2,3) l(2) l(4) [unfolded list_all6] w5
    by (simp add: install_complete_def same_keys_def preserves_def)
qed

section \<open>Install\<close>

lemma callout_defs_length [simp]: "length g_SkCalloutDefs = SK_LAYER_COUNT"
  by (simp add: g_SkCalloutDefs_def)

lemma fresh_manager_simps:
  "manager_ok (fresh_manager m)" "\<not> any_leaked (fresh_manager m)" "m_installed (fresh_manager m) = m_installed m"
  by (simp_all add: fresh_manager_def manager_ok_def any_leaked_iff leaked_def SkWfpObjectReset_def)

text \<open>What follows the engine open.\<close>

definition install_rest ::
    "'a wfp_scheme api \<Rightarrow> 'a wfp_scheme ops \<Rightarrow> ('a wfp_scheme \<Rightarrow> 'a wfp_scheme) \<Rightarrow> handle \<Rightarrow> 'a wfp_scheme
     \<Rightarrow> (ntstatus \<times> 'a wfp_scheme) option" where
  "install_rest fw ShOps slp device w =
     (case install_transaction fw device w of
        (_, None, w) \<Rightarrow> Some (STATUS_SUCCESS, upd_manager (\<lambda>m. m\<lparr>m_installed := True\<rparr>) w)
      | (txnBegun, Some stFail, w) \<Rightarrow> map_option (\<lambda>(clean, w).
          (stFail, if clean then w else ShRuntimeRecordBlock ShinkenBlockEngineClose w))
          (skWfpRollbackLocked ShOps slp (if txnBegun then snd (fw_TransactionAbort fw (engine_of w) w) else w)))"

definition opened :: "handle \<Rightarrow> ntstatus \<Rightarrow> sk_object_state \<Rightarrow> 'a wfp_scheme \<Rightarrow> 'a wfp_scheme" where
  "opened e st s = upd_manager (\<lambda>m. m\<lparr>m_engine := e, m_engineObj := (m_engineObj m)\<lparr>so_lastStatus := st, so_state := s\<rparr>\<rparr>)"

lemma engine_commute:
  fixes m :: manager
  shows "m\<lparr>m_engineObj := o', m_engine := e\<rparr> = m\<lparr>m_engine := e, m_engineObj := o'\<rparr>"
  by simp

lemma install_eq:
  assumes "\<not> m_installed (g_WfpManager w)" "\<not> any_leaked (g_WfpManager w)"
    and "fw_EngineOpen fw 1 (upd_manager (\<lambda>m. m\<lparr>m_engineObj := (m_engineObj m)\<lparr>so_phase := SkWfpPhaseEngineOpen\<rparr>\<rparr>)
        (upd_manager fresh_manager (skWfpLock w))) = (st, e, u)"
  shows "SkWfpManagerInstall fw ShOps slp device w =
    (if NT_SUCCESS st
     then map_option (apsnd skWfpUnlock) (install_rest fw ShOps slp device (opened e st SkWfpStateRegistered u))
     else Some (st, skWfpUnlock (opened NULL st SkWfpStateFailed u)))"
proof -
  have "g_WfpManager (skWfpLock w) = g_WfpManager w" by (simp add: skWfpLock_def)
  then show ?thesis
    using assms by (simp add: SkWfpManagerInstall_def install_rest_def opened_def engine_commute Let_def upd_manager_def
        case_prod_unfold map_option_case split: prod.split option.split)
qed

lemma install_rest_result:
  assumes k: "kernel_ok I ShOps slp" and a: "api_ok I fw" and I: "I w" and m: "manager_ok (g_WfpManager w)"
    and m2: "\<not> any_leaked (g_WfpManager w)" "\<not> m_installed (g_WfpManager w)"
  shows "\<exists>st v. install_rest fw ShOps slp device w = Some (st, v) \<and>
    (NT_SUCCESS st \<longrightarrow> m_installed (g_WfpManager v) \<and> install_complete (g_WfpManager v) \<and> \<not> any_leaked (g_WfpManager v)) \<and>
    (\<not> NT_SUCCESS st \<longrightarrow> \<not> m_installed (g_WfpManager v) \<and> rolled_back (g_WfpManager v) \<and>
       (any_leaked (g_WfpManager v) \<longrightarrow> g_BlockReason v \<noteq> ShinkenBlockNone))"
proof -
  obtain b r v where t: "install_transaction fw device w = (b, r, v)" by (rule prod_cases3)
  note tr = install_transaction_builds [OF k a I m m2(1) t]
  have v: "I v" "manager_ok (g_WfpManager v)" "\<not> any_leaked (g_WfpManager v)" "\<not> m_installed (g_WfpManager v)"
    using tr(1) m m2 by (simp_all add: builds_def)
  show ?thesis
  proof (cases r)
    case None
    then show ?thesis
      using tr(3) [OF None] v(3) t
      by (simp add: install_rest_def upd_manager_def install_complete_def layer_active_def any_leaked_iff)
  next
    case (Some stFail)
    let ?v = "if b then snd (fw_TransactionAbort fw (engine_of v) v) else v"
    have v': "preserves I v ?v" using api_okD(9) [OF a v(1)] preserves_refl [of I, OF v(1)] by simp
    have m': "g_WfpManager ?v = g_WfpManager v" using v' by (simp add: preserves_def)
    obtain ok x where x: "skWfpRollbackLocked ShOps slp ?v = Some (ok, x)"
        "\<not> m_installed (g_WfpManager x)" "rolled_back (g_WfpManager x)" "ok \<longrightarrow> \<not> any_leaked (g_WfpManager x)"
      using rollback_result [OF k preserves_inv [OF v']] v(2-4) by (auto simp: m')
    then have "install_rest fw ShOps slp device w =
        Some (stFail, if ok then x else ShRuntimeRecordBlock ShinkenBlockEngineClose x)"
      using t Some by (simp add: install_rest_def)
    then show ?thesis using tr(2) [OF Some] x(2-4) by (simp add: record_block_some)
  qed
qed

lemma opened_simps:
  assumes "g_WfpManager u = (fresh_manager m)\<lparr>m_engineObj := o'\<rparr>" and "s = SkWfpStateRegistered \<or> s = SkWfpStateFailed"
  shows "manager_ok (g_WfpManager (opened e st s u))" "\<not> any_leaked (g_WfpManager (opened e st s u))"
    "m_installed (g_WfpManager (opened e st s u)) = m_installed m"
    "s = SkWfpStateFailed \<Longrightarrow> e = NULL \<Longrightarrow> rolled_back (g_WfpManager (opened e st s u))"
  using assms by (auto simp: opened_def upd_manager_def fresh_manager_def manager_ok_def any_leaked_iff leaked_def
      rolled_back_def live_def SkWfpObjectReset_def)

text \<open>C25: the install of the WFP objects, for every kernel that respects the install mutex. It always
  returns, with the mutex released. Success on a manager that is not installed: all six callouts
  are ACTIVE with a registered filter, provider and sublayer are registered, nothing is leaked.
  Failure on a manager without a leaked object: it is not installed, the rollback has left no
  callout, sublayer, provider or filter (with an id) in a registered state, the engine is closed
  or leaked; and if something leaked in the rollback, a block reason is recorded.\<close>

theorem install_correct:
  assumes k: "kernel_ok I ShOps slp" and a: "api_ok I fw" and I: "I w"
  shows "\<exists>st v. SkWfpManagerInstall fw ShOps slp device w = Some (st, v) \<and> \<not> g_WfpLocked v \<and>
    (NT_SUCCESS st \<longrightarrow> m_installed (g_WfpManager v) \<and>
       (\<not> m_installed (g_WfpManager w) \<longrightarrow>
          install_complete (g_WfpManager v) \<and> \<not> any_leaked (g_WfpManager v))) \<and>
    (\<not> NT_SUCCESS st \<and> \<not> any_leaked (g_WfpManager w) \<longrightarrow>
       \<not> m_installed (g_WfpManager v) \<and> rolled_back (g_WfpManager v) \<and>
       (any_leaked (g_WfpManager v) \<longrightarrow> g_BlockReason v \<noteq> ShinkenBlockNone))"
proof (cases "m_installed (g_WfpManager w) \<or> any_leaked (g_WfpManager w)")
  case True
  then show ?thesis
    by (cases "m_installed (g_WfpManager w)")
      (simp_all add: SkWfpManagerInstall_def Let_def skWfpUnlock_def skWfpLock_def NT_SUCCESS_def word_sle_eq)
next
  case False
  let ?u = "upd_manager (\<lambda>m. m\<lparr>m_engineObj := (m_engineObj m)\<lparr>so_phase := SkWfpPhaseEngineOpen\<rparr>\<rparr>)
      (upd_manager fresh_manager (skWfpLock w))"
  have I': "I ?u"
    using kernel_okD(9) [OF k kernel_okD(10) [OF k I]] by (simp add: upd_manager_def skWfpLock_def)
  obtain st e u where o: "fw_EngineOpen fw 1 ?u = (st, e, u)" by (rule prod_cases3)
  have u: "preserves I ?u u" using api_okD(1) [OF a I', of 1] by (simp add: o)
  then have g: "g_WfpManager u = (fresh_manager (g_WfpManager w))\<lparr>m_engineObj :=
      (m_engineObj (fresh_manager (g_WfpManager w)))\<lparr>so_phase := SkWfpPhaseEngineOpen\<rparr>\<rparr>"
    by (simp add: preserves_def upd_manager_def skWfpLock_def)
  note eq = install_eq [OF _ _ o] and s = opened_simps [OF g]
  show ?thesis
  proof (cases "NT_SUCCESS st")
    case bad: False
    then show ?thesis using False s [of SkWfpStateFailed NULL st] by (simp add: eq skWfpUnlock_def)
  next
    case good: True
    have "I (opened e st SkWfpStateRegistered u)"
      using kernel_okD(9) [OF k preserves_inv [OF u]] by (simp add: opened_def upd_manager_def)
    from install_rest_result [OF k a this, of device] s [of SkWfpStateRegistered e st] False good
    show ?thesis by (auto simp: eq skWfpUnlock_def)
  qed
qed


lemma kern_api_ok: "api_ok (\<lambda>w. \<not> g_SkFlowInited w) kern_api"
  by (simp add: api_ok_def preserves_def kern_api_def)

lemmas kern_start_eval =
  kern_start_def image_wfp_def image_flows_def wfp.defs flow.defs telemetry.defs evq.defs store.defs engine.defs
  image_telemetry_def image_evq_def image_store_def image_engine_def image_runtime_def
  SkWfpManagerInitMutex_def image_manager_def SkWfpObjectReset_def

lemma kern_start_flow: "\<not> g_SkFlowInited (kern_start n busy)"
  by (simp add: kern_start_eval)

section \<open>A callout the engine refuses\<close>

lemma kern_api_simps [simp]:
  "fw_EngineOpen kern_api f w = (STATUS_SUCCESS, 3, w)"
  "fw_TransactionBegin kern_api h w = (STATUS_SUCCESS, w)"
  "fw_ProviderAdd kern_api h k w = (STATUS_SUCCESS, w)"
  "fw_SubLayerAdd kern_api h k p n w = (STATUS_SUCCESS, w)"
  "fw_CalloutRegister kern_api dev c w =
     (STATUS_SUCCESS, k_next w, w\<lparr>k_callouts := k_next w # k_callouts w, k_next := k_next w + 1\<rparr>)"
  "fw_CalloutAdd kern_api h k p l w = (if k_fail w = 1 then (STATUS_UNSUCCESSFUL, 0, w) else (STATUS_SUCCESS, 7, w))"
  "fw_FilterAdd kern_api h fs w = (if k_fail w = 2 then (STATUS_UNSUCCESSFUL, 0, w) else (STATUS_SUCCESS, 9, w))"
  "fw_TransactionCommit kern_api h w = (STATUS_SUCCESS, w)"
  "fw_TransactionAbort kern_api h w = (STATUS_SUCCESS, w)"
  by (simp_all add: kern_api_def)

lemma kern_ops_simps [simp]:
  "op_UnregisterCalloutById kern_ops i w =
     (if k_busy w then (STATUS_DEVICE_BUSY, w)
      else if i \<in> set (k_callouts w) then (STATUS_SUCCESS, w\<lparr>k_callouts := remove1 i (k_callouts w)\<rparr>)
      else (FWP_E_CALLOUT_NOT_FOUND, w))"
  "op_FilterDeleteById kern_ops h f w = (STATUS_SUCCESS, w)"
  "op_CalloutDeleteById kern_ops h i w = (STATUS_SUCCESS, w)"
  "op_ProviderDeleteByKey kern_ops h k w = (STATUS_SUCCESS, w)"
  "op_SubLayerDeleteByKey kern_ops h k w = (STATUS_SUCCESS, w)"
  "op_EngineClose kern_ops h w = (STATUS_SUCCESS, w)"
  by (simp_all add: kern_ops_def)

lemma NT_SUCCESS_unsuccessful: "\<not> NT_SUCCESS STATUS_UNSUCCESSFUL"
  by (simp add: NT_SUCCESS_def word_sle_eq)

lemma first_def: "skWfpDefByCalloutKey (cd_calloutKey (g_SkCalloutDefs ! 0)) = Some (g_SkCalloutDefs ! 0)"
  by (simp add: skWfpDefByCalloutKey_def g_SkCalloutDefs_def)

lemma refused_layers:
  assumes "k_fail w = 1" and "so_key (callout_at 0 w) = cd_calloutKey (g_SkCalloutDefs ! 0)"
  shows "\<exists>co. install_layers kern_api d [0..<SK_LAYER_COUNT] w = (Some STATUS_UNSUCCESSFUL,
      set_callout 0 co (w\<lparr>k_callouts := k_next w # k_callouts w, k_next := k_next w + 1\<rparr>)) \<and>
    so_state co = SkWfpStateFailed"
proof -
  have upt: "[0..<SK_LAYER_COUNT] = 0 # [1..<SK_LAYER_COUNT]" by (simp add: upt_rec)
  show ?thesis
    using assms first_def
    by (intro exI [of _ "(callout_at 0 w)\<lparr>so_calloutRuntimeId := k_next w, so_phase := SkWfpPhaseCalloutAdd,
        so_lastStatus := STATUS_UNSUCCESSFUL, so_calloutId := 0, so_state := SkWfpStateFailed\<rparr>"])
      (simp add: NT_SUCCESS_unsuccessful upt install_layer_def SkWfpObjectRegisterCallout_def SkWfpObjectAddCallout_def set_callout_def
        upd_manager_def Let_def del: upt_rec_numeral)
qed

lemma rollback_idle:
  assumes "\<And>i. i < n \<Longrightarrow> \<not> live (callout_at i w) \<and> \<not> live (filter_at i w)"
  shows "rollback_layers ShOps slp n c w = Some (c, w)"
  using assms by (induction n) (simp_all add: rollback_filter_def rollback_callout_def)


lemma refused_install:
  assumes "k_fail w = 1" and "\<not> m_installed (g_WfpManager w)" and "\<not> any_leaked (g_WfpManager w)"
  shows "\<exists>v. SkWfpManagerInstall kern_api kern_ops id d w = Some (STATUS_UNSUCCESSFUL, v) \<and>
    k_callouts v = k_next w # k_callouts w \<and> g_BlockReason v = g_BlockReason w \<and> g_State v = g_State w \<and>
    \<not> m_installed (g_WfpManager v) \<and> engine_of v = NULL"
proof -
  define u where "u = upd_manager (\<lambda>m. (fresh_manager m)\<lparr>
      m_engine := 3,
      m_engineObj := (SkWfpObjectReset ''wfpEngine'')\<lparr>so_phase := SkWfpPhaseEngineOpen,
        so_lastStatus := STATUS_SUCCESS, so_state := SkWfpStateRegistered\<rparr>,
      m_provider := (SkWfpObjectReset ''wfpProvider'')\<lparr>so_phase := SkWfpPhaseProviderAdd, so_key := g_SkProviderKey,
        so_lastStatus := STATUS_SUCCESS, so_state := SkWfpStateRegistered\<rparr>,
      m_sublayer := (SkWfpObjectReset ''wfpSublayer'')\<lparr>so_phase := SkWfpPhaseSubLayerAdd, so_key := g_SkSubLayerKey,
        so_lastStatus := STATUS_SUCCESS, so_state := SkWfpStateRegistered\<rparr>\<rparr>) (skWfpLock w)"
  have "so_key (callout_at 0 u) = cd_calloutKey (g_SkCalloutDefs ! 0)" and fail: "k_fail u = 1"
    by (simp_all add: u_def upd_manager_def fresh_manager_def skWfpLock_def assms(1))
  then obtain co where l: "install_layers kern_api d [0..<SK_LAYER_COUNT] u = (Some STATUS_UNSUCCESSFUL,
      set_callout 0 co (u\<lparr>k_callouts := k_next u # k_callouts u, k_next := k_next u + 1\<rparr>))"
      "so_state co = SkWfpStateFailed"
    using refused_layers by blast
  define x where "x = set_callout 0 co (u\<lparr>k_callouts := k_next u # k_callouts u, k_next := k_next u + 1\<rparr>)"
  have m: "g_WfpManager u = (g_WfpManager u)" ..
  have "\<not> live (callout_at i x) \<and> \<not> live (filter_at i x)" if "i < SK_LAYER_COUNT" for i
    using that l(2)
    by (cases "i = 0") (simp_all add: x_def u_def set_callout_def upd_manager_def fresh_manager_def live_def
      SkWfpObjectReset_def nth_list_update)
  then have r: "rollback_layers kern_ops id SK_LAYER_COUNT True x = Some (True, x)" by (rule rollback_idle)
  have "SkWfpManagerInstall kern_api kern_ops id d w =
      (case install_layers kern_api d [0..<SK_LAYER_COUNT] u of
         (None, w) \<Rightarrow> Some (STATUS_SUCCESS, skWfpUnlock (upd_manager (\<lambda>m. m\<lparr>m_installed := True\<rparr>) w))
       | (Some st, w) \<Rightarrow> do {
           (clean, w) \<leftarrow> skWfpRollbackLocked kern_ops id w;
           let w = (if clean then w else ShRuntimeRecordBlock ShinkenBlockEngineClose w);
           Some (st, skWfpUnlock w)
         })"
    using assms(2,3)
    by (simp add: SkWfpManagerInstall_def install_transaction_def add_provider_def add_sublayer_def Let_def
        u_def upd_manager_def fresh_manager_def skWfpLock_def split: prod.split option.split del: upt_rec_numeral)
  moreover have "\<exists>v. skWfpRollbackLocked kern_ops id x = Some (True, v) \<and> k_callouts v = k_callouts x \<and>
      g_BlockReason v = g_BlockReason x \<and> g_State v = g_State x \<and>
      m_installed (g_WfpManager v) = m_installed (g_WfpManager x) \<and> engine_of v = NULL"
    by (simp add: skWfpRollbackLocked_def r delete_sublayer_def delete_provider_def close_engine_def
        skWfpDeleteByKey_def upd_manager_def Let_def)
  moreover have "k_callouts x = k_next w # k_callouts w" "g_BlockReason x = g_BlockReason w" "g_State x = g_State w"
      "\<not> m_installed (g_WfpManager x)"
    using assms(2) by (simp_all add: x_def u_def set_callout_def upd_manager_def fresh_manager_def skWfpLock_def)
  ultimately show ?thesis using l(1) by (auto simp: x_def [symmetric] skWfpUnlock_def)
qed


theorem install_correct_witness:
  "\<exists>v. SkWfpManagerInstall kern_api kern_ops id 1 (kern_start 1 False) = Some (STATUS_UNSUCCESSFUL, v) \<and>
     \<not> g_WfpLocked v \<and> rolled_back (g_WfpManager v) \<and> \<not> m_installed (g_WfpManager v)"
proof -
  have "\<not> any_leaked (g_WfpManager (kern_start 1 False))" "\<not> m_installed (g_WfpManager (kern_start 1 False))"
      "k_fail (kern_start 1 False) = 1"
    by (simp_all add: kern_start_eval any_leaked_iff leaked_def nth_replicate)
  then show ?thesis
    using install_correct [OF kern_ok kern_api_ok kern_start_flow, of 1 1 False]
      refused_install [of "kern_start 1 False" 1] NT_SUCCESS_unsuccessful by auto
qed


section \<open>A second teardown\<close>

lemma unregister_loop_busy:
  assumes "call w = (STATUS_DEVICE_BUSY, w)" and "between w = Some w"
  shows "unregister_loop call between n a obj w = Some (STATUS_DEVICE_BUSY, obj\<lparr>so_lastStatus := STATUS_DEVICE_BUSY,
    so_state := SkWfpStateLeaked, so_busyRetries := a + of_nat (Suc n)\<rparr>, w)"
  using assms by (induction n arbitrary: a obj) (simp_all add: Let_def add.assoc)

lemma record_block_kern [simp]: "k_callouts (ShRuntimeRecordBlock why w) = k_callouts w"
  by (simp add: ShRuntimeRecordBlock_def Let_def)

lemma busy_cleanup_idle: "\<not> g_SkFlowInited w \<Longrightarrow> skWfpBusyCleanup ShOps i w = Some w"
  by (simp add: skWfpBusyCleanup_def SkFlowRemoveAll_def)

text \<open>A leaked callout is forgotten by a second teardown. When the unregister stays BUSY, the first
  teardown answers FALSE, with the callout LEAKED and the reason recorded. A second teardown skips
  the leaked callout in both loops, finds nothing else to do, closes the engine and answers TRUE,
  while the callout is still registered with the kernel.\<close>

theorem second_teardown_forgets:
  "case SkWfpManagerTeardown kern_ops id (kern_installed True) of
     Some (ok, v) \<Rightarrow> \<not> ok \<and> leaked (callout_at 0 v) \<and> g_BlockReason v = ShinkenBlockSensorCalloutBusy \<and>
       (case SkWfpManagerTeardown kern_ops id v of
          Some (ok, u) \<Rightarrow> ok \<and> leaked (callout_at 0 u) \<and> k_callouts u = [1] \<and> engine_of u = NULL
        | None \<Rightarrow> False)
   | None \<Rightarrow> False"
proof -
  define w where "w = kern_installed True"
  have w: "k_busy w" "\<not> g_SkFlowInited w" "k_callouts w = [1]" "g_BlockReason w = ShinkenBlockNone"
      "g_WfpManager w = one_layer"
    by (simp_all add: w_def kern_installed_def kern_start_eval)
  show ?thesis
    unfolding w_def [symmetric]
    by (simp add: w kern_eval six_layers one_layer_def image_manager_def SkWfpObjectReset_def Let_def
        unregister_loop_busy busy_cleanup_idle record_block_reason)
qed

end
