(* ===== verification/Wire.thy ===== *)
theory Wire
  imports RuleMatch "HOL-Library.Monad_Syntax"
begin

text \<open>
  The bytes of the control protocol (control/protocol.h) and the functions of control/ioctl.c
  that read them: \<open>skValidateWire\<close>, \<open>skConvertWire\<close> and the rule walk of
  \<open>skCmdReplaceRuleset\<close>. A structure is laid out with the natural alignment of its fields,
  little-endian. A read outside the bytes the function was given is a fault, \<open>None\<close>.
\<close>

section \<open>Little-endian integers\<close>

fun le_bytes :: "nat \<Rightarrow> nat \<Rightarrow> u8 list" where
  "le_bytes 0 x = []"
| "le_bytes (Suc n) x = of_nat (x mod 256) # le_bytes n (x div 256)"

fun le_val :: "u8 list \<Rightarrow> nat" where
  "le_val [] = 0"
| "le_val (b # bs) = unat b + 256 * le_val bs"

lemma length_le_bytes [simp]: "length (le_bytes n x) = n"
  by (induction n arbitrary: x) simp_all

lemma le_val_bytes: "x < 256 ^ n \<Longrightarrow> le_val (le_bytes n x) = x"
proof (induction n arbitrary: x)
  case (Suc n)
  then have "x div 256 < 256 ^ n" by (simp add: less_mult_imp_div_less mult.commute)
  with Suc.IH show ?case by (simp add: unsigned_of_nat take_bit_eq_mod)
qed simp

lemma le_val_bound: "le_val bs < 256 ^ length bs"
proof (induction bs)
  case (Cons b bs)
  have "unat b < 256" using unsigned_less [of b, where ?'a = nat] by simp
  with Cons show ?case by simp
qed simp

lemma le_val_unat [simp]:
  "of_nat (le_val (le_bytes 8 (unat a))) = (a :: u64)"
  "of_nat (le_val (le_bytes 4 (unat b))) = (b :: u32)"
  "of_nat (le_val (le_bytes 2 (unat c))) = (c :: u16)"
  using unsigned_less [of a, where ?'a = nat] unsigned_less [of b, where ?'a = nat] unsigned_less [of c, where ?'a = nat] by (simp_all add: le_val_bytes)

section \<open>Reading a buffer\<close>

definition bytes_at :: "nat \<Rightarrow> nat \<Rightarrow> u8 list \<Rightarrow> u8 list" where
  "bytes_at off n b = take n (drop off b)"

definition peek :: "nat \<Rightarrow> nat \<Rightarrow> u8 list \<Rightarrow> u8 list option" where
  "peek off n b = (if off + n \<le> length b then Some (bytes_at off n b) else None)"

definition get16 :: "nat \<Rightarrow> u8 list \<Rightarrow> u16 option" where
  "get16 off b = map_option (\<lambda>x. of_nat (le_val x)) (peek off 2 b)"

definition get32 :: "nat \<Rightarrow> u8 list \<Rightarrow> u32 option" where
  "get32 off b = map_option (\<lambda>x. of_nat (le_val x)) (peek off 4 b)"

definition get64 :: "nat \<Rightarrow> u8 list \<Rightarrow> u64 option" where
  "get64 off b = map_option (\<lambda>x. of_nat (le_val x)) (peek off 8 b)"

lemma at_here: "length x = n \<Longrightarrow> bytes_at 0 n (x @ ys) = x"
  by (simp add: bytes_at_def)

lemma at_skip: "length x \<le> off \<Longrightarrow> bytes_at off n (x @ ys) = bytes_at (off - length x) n ys"
  by (simp add: bytes_at_def)

lemma at_mid: "length xs = off \<Longrightarrow> length x = n \<Longrightarrow> bytes_at off n (xs @ x @ ys) = x"
  by (simp add: bytes_at_def)

lemma peek_take: "off + n \<le> m \<Longrightarrow> m \<le> length b \<Longrightarrow> peek off n (take m b) = peek off n b"
  by (simp add: peek_def bytes_at_def drop_take min_def)

lemma get_take:
  assumes "m \<le> length b"
  shows "off + 2 \<le> m \<Longrightarrow> get16 off (take m b) = get16 off b"
    "off + 4 \<le> m \<Longrightarrow> get32 off (take m b) = get32 off b"
    "off + 8 \<le> m \<Longrightarrow> get64 off (take m b) = get64 off b"
  using assms by (simp_all add: get16_def get32_def get64_def peek_take)

lemma get_some:
  "off + 2 \<le> length b \<Longrightarrow> \<exists>x. get16 off b = Some x"
  "off + 4 \<le> length b \<Longrightarrow> \<exists>y. get32 off b = Some y"
  "off + 8 \<le> length b \<Longrightarrow> \<exists>z. get64 off b = Some z"
  by (simp_all add: get16_def get32_def get64_def peek_def)

section \<open>\<open>SK_RULE\<close> as bytes\<close>

abbreviation (input) SIZEOF_RULE :: nat where "SIZEOF_RULE \<equiv> 176"
abbreviation (input) SIZEOF_WIRE :: nat where "SIZEOF_WIRE \<equiv> 184"
abbreviation (input) SIZEOF_WIRE32 :: u32 where "SIZEOF_WIRE32 \<equiv> 184"

definition field16 :: "nat \<Rightarrow> u8 list \<Rightarrow> u16" where "field16 off b = of_nat (le_val (bytes_at off 2 b))"
definition field32 :: "nat \<Rightarrow> u8 list \<Rightarrow> u32" where "field32 off b = of_nat (le_val (bytes_at off 4 b))"
definition field64 :: "nat \<Rightarrow> u8 list \<Rightarrow> u64" where "field64 off b = of_nat (le_val (bytes_at off 8 b))"
definition field8 :: "nat \<Rightarrow> u8 list \<Rightarrow> u8" where "field8 off b = of_nat (le_val (bytes_at off 1 b))"

text \<open>The assignment \<open>*out = w->rule\<close>.\<close>

definition rule_of_bytes :: "u8 list \<Rightarrow> rule" where
  "rule_of_bytes b = \<lparr>r_ruleId = field64 0 b, r_priority = field32 8 b, r_mask = field32 12 b,
     r_action = field32 16 b, r_enabled = field32 20 b, r_family = field32 24 b,
     r_direction = field32 28 b, r_protocol = field32 32 b, r_layerId = field32 36 b,
     r_ifIndex = field32 40 b, r_processId = field32 44 b, r_appId = field64 48 b,
     r_notBefore = field64 56 b, r_notAfter = field64 64 b,
     r_localPortMin = field32 72 b, r_localPortMax = field32 76 b,
     r_remotePortMin = field32 80 b, r_remotePortMax = field32 84 b,
     r_localAddr = bytes_at 88 16 b, r_remoteAddr = bytes_at 104 16 b,
     r_localPrefix = field8 120 b, r_remotePrefix = field8 121 b,
     r_sid = bytes_at 122 32 b, r_sidLength = field32 156 b,
     r_rateTokens = field32 160 b, r_rateIntervalMs = field32 164 b, r_burst = field32 168 b\<rparr>"

text \<open>
  The assignment in the other direction. \<open>pad\<close> gives the padding bytes (at 154, 155 and from
  172 on), whose values C leaves open.
\<close>

definition rule_bytes :: "(nat \<Rightarrow> u8) \<Rightarrow> rule \<Rightarrow> u8 list" where
  "rule_bytes pad r =
     le_bytes 8 (unat (r_ruleId r)) @ le_bytes 4 (unat (r_priority r)) @ le_bytes 4 (unat (r_mask r)) @
     le_bytes 4 (unat (r_action r)) @ le_bytes 4 (unat (r_enabled r)) @ le_bytes 4 (unat (r_family r)) @
     le_bytes 4 (unat (r_direction r)) @ le_bytes 4 (unat (r_protocol r)) @ le_bytes 4 (unat (r_layerId r)) @
     le_bytes 4 (unat (r_ifIndex r)) @ le_bytes 4 (unat (r_processId r)) @ le_bytes 8 (unat (r_appId r)) @
     le_bytes 8 (unat (r_notBefore r)) @ le_bytes 8 (unat (r_notAfter r)) @
     le_bytes 4 (unat (r_localPortMin r)) @ le_bytes 4 (unat (r_localPortMax r)) @
     le_bytes 4 (unat (r_remotePortMin r)) @ le_bytes 4 (unat (r_remotePortMax r)) @
     r_localAddr r @ r_remoteAddr r @ [r_localPrefix r] @ [r_remotePrefix r] @ r_sid r @ map pad [154, 155] @
     le_bytes 4 (unat (r_sidLength r)) @ le_bytes 4 (unat (r_rateTokens r)) @
     le_bytes 4 (unat (r_rateIntervalMs r)) @ le_bytes 4 (unat (r_burst r)) @ map pad [172, 173, 174, 175]"

lemma length_rule_bytes: "rule_shape r \<Longrightarrow> length (rule_bytes pad r) = SIZEOF_RULE"
  by (simp add: rule_bytes_def rule_shape_def)

lemma rule_of_rule_bytes: "rule_shape r \<Longrightarrow> rule_of_bytes (rule_bytes pad r @ rest) = r"
  by (simp only: rule_shape_def rule_of_bytes_def rule_bytes_def append_assoc field64_def field32_def field8_def)
    (simp add: at_skip at_here del: append_assoc append_Cons)

section \<open>The wire format of a rule\<close>

text \<open>
  \<open>cur\<close> is the memory from the wire on. The result of the validation is the status, or the
  value of \<open>*wireBytesOut\<close>.
\<close>

definition skValidateWire :: "u8 list \<Rightarrow> u32 \<Rightarrow> (ntstatus + u32) option" where
  "skValidateWire cur remaining =
     (if remaining < SIZEOF_WIRE32 then Some (Inl STATUS_INVALID_PARAMETER)
      else do {
        pathChars \<leftarrow> get32 176 cur;
        pathOffset \<leftarrow> get32 180 cur;
        if pathChars > SK_RULE_PATH_MAX_CHARS then Some (Inl STATUS_INVALID_PARAMETER)
        else if pathChars = 0 then
          (if pathOffset \<noteq> 0 then Some (Inl STATUS_INVALID_PARAMETER)
           else Some (Inr (SIZEOF_WIRE32)))
        else if pathOffset < SIZEOF_WIRE32 then Some (Inl STATUS_INVALID_PARAMETER)
        else if pathOffset mod 2 \<noteq> 0 then Some (Inl STATUS_INVALID_PARAMETER)
        else
          let need = ucast pathOffset + ucast pathChars * 2 :: u64
          in if need > ucast remaining then Some (Inl STATUS_INVALID_PARAMETER)
             else Some (Inr (ucast need))
      })"

text \<open>The \<open>WCHAR\<close> array the hash reads.\<close>

definition path_at :: "nat \<Rightarrow> nat \<Rightarrow> u8 list \<Rightarrow> u16 list option" where
  "path_at off n cur =
     (if off + 2 * n \<le> length cur then Some (map (\<lambda>i. field16 (off + 2 * i) cur) [0..<n]) else None)"

definition skConvertWire :: "u8 list \<Rightarrow> rule option" where
  "skConvertWire cur = do {
     b \<leftarrow> peek 0 SIZEOF_RULE cur;
     let out = rule_of_bytes b;
     pathChars \<leftarrow> get32 176 cur;
     if pathChars = 0 then Some (out\<lparr>r_appId := 0, r_mask := r_mask out AND NOT SK_RULE_M_APPID\<rparr>)
     else do {
       pathOffset \<leftarrow> get32 180 cur;
       path \<leftarrow> path_at (unat pathOffset) (unat pathChars) cur;
       Some (out\<lparr>r_appId := SkRuleHashAppPath (Some path) pathChars,
                 r_mask := r_mask out OR SK_RULE_M_APPID\<rparr>)
     }
   }"

text \<open>
  The loop of \<open>skCmdReplaceRuleset\<close>: the first bad wire ends it, otherwise the rules and what
  remains of the rule area.
\<close>

fun parse_rules :: "nat \<Rightarrow> u8 list \<Rightarrow> u32 \<Rightarrow> (ntstatus + rule list \<times> u32) option" where
  "parse_rules 0 cur remaining = Some (Inr ([], remaining))"
| "parse_rules (Suc n) cur remaining = do {
     r \<leftarrow> skValidateWire cur remaining;
     (case r of
        Inl st \<Rightarrow> Some (Inl st)
      | Inr wireBytes \<Rightarrow> do {
          rule \<leftarrow> skConvertWire cur;
          rest \<leftarrow> parse_rules n (drop (unat wireBytes) cur) (remaining - wireBytes);
          Some (map_sum id (apfst (Cons rule)) rest)
        })
   }"

section \<open>No read outside the input\<close>

lemma rule_of_bytes_shape: "length b = SIZEOF_RULE \<Longrightarrow> rule_shape (rule_of_bytes b)"
  by (simp add: rule_shape_def rule_of_bytes_def bytes_at_def)

lemma unat_casts [simp]:
  "unat (ucast (x :: u32) :: u64) = unat x"
  "unat (ucast (y :: u64) :: u32) = unat y mod 2 ^ 32"
  "unat (ucast (z :: u16) :: u32) = unat z"
proof -
  show "unat (ucast x :: u64) = unat x"
    using unsigned_less [of x, where ?'a = nat] by (simp add: unsigned_ucast_eq unsigned_take_bit_eq take_bit_eq_mod)
  show "unat (ucast y :: u32) = unat y mod 2 ^ 32"
    by (simp add: unsigned_ucast_eq unsigned_take_bit_eq take_bit_eq_mod)
  show "unat (ucast z :: u32) = unat z"
    using unsigned_less [of z, where ?'a = nat] by (simp add: unsigned_ucast_eq unsigned_take_bit_eq take_bit_eq_mod)
qed

lemma wire_need:
  fixes off chars :: u32
  assumes "chars \<le> SK_RULE_PATH_MAX_CHARS" and "(ucast off + ucast chars * 2 :: u64) \<le> ucast (rem :: u32)"
  shows "unat (ucast (ucast off + ucast chars * 2 :: u64) :: u32) = unat off + 2 * unat chars"
    and "unat off + 2 * unat chars \<le> unat rem"
proof -
  have c: "unat chars \<le> 260" using assms(1) by (simp add: word_le_nat_alt)
  have r: "unat rem < 2 ^ 32" and o: "unat off < 2 ^ 32"
    using unsigned_less [of rem, where ?'a = nat] unsigned_less [of off, where ?'a = nat] by simp_all
  have sum: "unat (ucast off + ucast chars * 2 :: u64) = unat off + 2 * unat chars"
    using c o by (simp add: unat_word_ariths mult.commute)
  then show le: "unat off + 2 * unat chars \<le> unat rem"
    using assms(2) by (simp add: word_le_nat_alt)
  show "unat (ucast (ucast off + ucast chars * 2 :: u64) :: u32) = unat off + 2 * unat chars"
    using sum le r by simp
qed

lemma validate_wire_cases:
  assumes "unat remaining \<le> length cur"
  obtains (bad) "skValidateWire cur remaining = Some (Inl STATUS_INVALID_PARAMETER)"
    | (ok) n r where "skValidateWire cur remaining = Some (Inr n)" "SIZEOF_WIRE \<le> unat n" "n \<le> remaining"
      "skConvertWire cur = Some r" "rule_shape r"
proof (cases "remaining < SIZEOF_WIRE32")
  case True
  then show thesis using bad by (simp add: skValidateWire_def)
next
  case False
  then have len: "SIZEOF_WIRE \<le> unat remaining" by (simp add: word_less_nat_alt)
  then obtain ch off where g: "get32 176 cur = Some ch" "get32 180 cur = Some off"
    using get_some(2) [of 176 cur] get_some(2) [of 180 cur] assms by auto
  have b: "peek 0 SIZEOF_RULE cur = Some (take SIZEOF_RULE cur)" "length (take SIZEOF_RULE cur) = SIZEOF_RULE"
    using len assms by (simp_all add: peek_def bytes_at_def)
  let ?r = "rule_of_bytes (take SIZEOF_RULE cur)"
  note shape = rule_of_bytes_shape [OF b(2)]
  have bad_else: "skValidateWire cur remaining = Some (Inl STATUS_INVALID_PARAMETER)"
    if "ch = 0 \<Longrightarrow> off \<noteq> 0"
      "\<not> (ch \<noteq> 0 \<and> ch \<le> SK_RULE_PATH_MAX_CHARS \<and> SIZEOF_WIRE32 \<le> off \<and> off mod 2 = 0 \<and>
         (ucast off + ucast ch * 2 :: u64) \<le> ucast remaining)"
    using False that by (auto simp: skValidateWire_def g Let_def not_less dest: odd_iff_mod_2_eq_one [THEN iffD2])
  consider "ch = 0" "off = 0"
    | "ch \<noteq> 0" "ch \<le> SK_RULE_PATH_MAX_CHARS" "SIZEOF_WIRE32 \<le> off" "off mod 2 = 0"
      "(ucast off + ucast ch * 2 :: u64) \<le> ucast remaining"
    | "skValidateWire cur remaining = Some (Inl STATUS_INVALID_PARAMETER)"
    using bad_else by blast
  then show thesis
  proof cases
    case 1
    have "skValidateWire cur remaining = Some (Inr (SIZEOF_WIRE32))"
      using False 1 by (simp add: skValidateWire_def g)
    moreover have "skConvertWire cur = Some (?r\<lparr>r_appId := 0, r_mask := r_mask ?r AND NOT SK_RULE_M_APPID\<rparr>)"
      by (simp add: skConvertWire_def g 1 b Let_def)
    ultimately show thesis
      using shape len by (intro ok [of SIZEOF_WIRE32 "?r\<lparr>r_appId := 0, r_mask := r_mask ?r AND NOT SK_RULE_M_APPID\<rparr>"])
        (simp_all add: word_le_nat_alt rule_shape_def)
  next
    case 2
    let ?n = "ucast (ucast off + ucast ch * 2 :: u64) :: u32"
    note need = wire_need [OF 2(2,5)]
    have "skValidateWire cur remaining = Some (Inr ?n)" using False 2 by (simp add: skValidateWire_def g Let_def not_less)
    moreover have "SIZEOF_WIRE \<le> unat ?n" using need(1) 2(3) by (simp add: word_le_nat_alt)
    moreover have "?n \<le> remaining" using need by (simp add: word_le_nat_alt)
    moreover obtain p where "path_at (unat off) (unat ch) cur = Some p"
      using need(2) assms by (simp add: path_at_def)
    then have "skConvertWire cur = Some (?r\<lparr>r_appId := SkRuleHashAppPath (Some p) ch, r_mask := r_mask ?r OR SK_RULE_M_APPID\<rparr>)"
      using 2(1) by (simp add: skConvertWire_def g b Let_def)
    ultimately show thesis
      using shape by (intro ok [of ?n "?r\<lparr>r_appId := SkRuleHashAppPath (Some p) ch, r_mask := r_mask ?r OR SK_RULE_M_APPID\<rparr>"])
        (simp_all add: rule_shape_def)
  qed (rule bad)
qed

lemma parse_rules_cases:
  assumes "unat remaining \<le> length cur"
  obtains (bad) "parse_rules n cur remaining = Some (Inl STATUS_INVALID_PARAMETER)"
    | (ok) rs rest where "parse_rules n cur remaining = Some (Inr (rs, rest))" "length rs = n"
      "list_all rule_shape rs" "rest \<le> remaining"
  using assms
proof (induction n arbitrary: cur remaining thesis)
  case 0
  show ?case by (rule 0(2) [of "[]" remaining]) simp_all
next
  case (Suc n)
  from Suc.prems(3) show ?case
  proof (cases rule: validate_wire_cases)
    case bad
    then show ?thesis by (intro Suc.prems(1)) simp
  next
    case (ok m r)
    have sub: "unat (remaining - m) = unat remaining - unat m" by (rule unat_sub [OF ok(3)])
    then have rem: "unat (remaining - m) \<le> length (drop (unat m) cur)" using Suc.prems(3) by simp
    show ?thesis
    proof (rule Suc.IH [OF _ _ rem])
      assume "parse_rules n (drop (unat m) cur) (remaining - m) = Some (Inl STATUS_INVALID_PARAMETER)"
      then show ?thesis by (intro Suc.prems(1)) (simp add: ok)
    next
      fix rs rest
      assume *: "parse_rules n (drop (unat m) cur) (remaining - m) = Some (Inr (rs, rest))" "length rs = n"
        "list_all rule_shape rs" "rest \<le> remaining - m"
      then show ?thesis
        using sub by (intro Suc.prems(2) [of "r # rs" rest]) (simp_all add: ok word_le_nat_alt)
    qed
  qed
qed

section \<open>Writing and reading back\<close>

text \<open>
  A wire as a client writes it: the rule, and the path right behind the fixed part. The driver
  stores the condition on the path as its hash.
\<close>

definition path_bytes :: "u16 list \<Rightarrow> u8 list" where
  "path_bytes p = concat (map (\<lambda>c. le_bytes 2 (unat c)) p)"

definition wire_bytes :: "(nat \<Rightarrow> u8) \<Rightarrow> rule \<times> u16 list \<Rightarrow> u8 list" where
  "wire_bytes pad = (\<lambda>(r, p). rule_bytes pad r @ le_bytes 4 (length p) @
     le_bytes 4 (if p = [] then 0 else SIZEOF_WIRE) @ path_bytes p)"

definition wire_rule :: "rule \<times> u16 list \<Rightarrow> rule" where
  "wire_rule = (\<lambda>(r, p). if p = [] then r\<lparr>r_appId := 0, r_mask := r_mask r AND NOT SK_RULE_M_APPID\<rparr>
     else r\<lparr>r_appId := SkRuleHashAppPath (Some p) (of_nat (length p)), r_mask := r_mask r OR SK_RULE_M_APPID\<rparr>)"

definition wire_ok :: "rule \<times> u16 list \<Rightarrow> bool" where
  "wire_ok = (\<lambda>(r, p). rule_shape r \<and> length p \<le> 260)"

lemma length_path_bytes [simp]: "length (path_bytes p) = 2 * length p"
  by (induction p) (simp_all add: path_bytes_def)

lemma length_wire_bytes: "wire_ok w \<Longrightarrow> length (wire_bytes pad w) = SIZEOF_WIRE + 2 * length (snd w)"
  by (cases w) (simp add: wire_ok_def wire_bytes_def length_rule_bytes)

lemma path_read_back:
  "length xs = off \<Longrightarrow> map (\<lambda>i. field16 (off + 2 * i) (xs @ path_bytes p @ ys)) [0..<length p] = p"
proof (induction p arbitrary: xs off)
  case (Cons c p)
  let ?xs = "xs @ le_bytes 2 (unat c)"
  have "map (\<lambda>i. field16 (off + 2 * i) (xs @ path_bytes (c # p) @ ys)) [0..<length (c # p)] =
      field16 off (xs @ path_bytes (c # p) @ ys) #
      map (\<lambda>i. field16 ((off + 2) + 2 * i) (?xs @ path_bytes p @ ys)) [0..<length p]"
    by (simp add: upt_rec [of 0 "Suc _"] map_Suc_upt [symmetric] path_bytes_def comp_def del: upt_Suc)
  moreover have "field16 off (xs @ path_bytes (c # p) @ ys) = c"
    using Cons.prems at_mid [of xs off "le_bytes 2 (unat c)" 2 "path_bytes p @ ys"]
    by (simp add: field16_def path_bytes_def)
  ultimately show ?case using Cons.IH [of ?xs "off + 2"] Cons.prems by simp
qed simp

lemma wire_fields:
  assumes "wire_ok (r, p)"
  shows "peek 0 SIZEOF_RULE (wire_bytes pad (r, p) @ rest) = Some (rule_bytes pad r)"
    "get32 176 (wire_bytes pad (r, p) @ rest) = Some (of_nat (length p))"
    "get32 180 (wire_bytes pad (r, p) @ rest) = Some (if p = [] then 0 else SIZEOF_WIRE32)"
    "path_at SIZEOF_WIRE (length p) (wire_bytes pad (r, p) @ rest) = Some p"
proof -
  have len: "length (rule_bytes pad r) = 176" "length p \<le> 260" using assms by (simp_all add: wire_ok_def length_rule_bytes)
  show "peek 0 SIZEOF_RULE (wire_bytes pad (r, p) @ rest) = Some (rule_bytes pad r)"
    using len by (simp add: peek_def wire_bytes_def bytes_at_def)
  show "get32 176 (wire_bytes pad (r, p) @ rest) = Some (of_nat (length p))"
    "get32 180 (wire_bytes pad (r, p) @ rest) = Some (if p = [] then 0 else SIZEOF_WIRE32)"
    using len by (simp_all add: get32_def peek_def wire_bytes_def at_skip at_here le_val_bytes del: append_assoc)
      (simp_all add: at_skip at_here le_val_bytes)
  show "path_at SIZEOF_WIRE (length p) (wire_bytes pad (r, p) @ rest) = Some p"
    using len path_read_back [of "rule_bytes pad r @ le_bytes 4 (length p) @ le_bytes 4 (if p = [] then 0 else SIZEOF_WIRE)"
        SIZEOF_WIRE p rest]
    by (simp add: path_at_def wire_bytes_def)
qed

lemma wire_read_back:
  assumes w: "wire_ok w" and rem: "length (wire_bytes pad w) \<le> unat remaining"
  shows "skValidateWire (wire_bytes pad w @ rest) remaining = Some (Inr (of_nat (length (wire_bytes pad w))))"
    and "skConvertWire (wire_bytes pad w @ rest) = Some (wire_rule w)"
proof -
  obtain r p where rp: "w = (r, p)" by (cases w)
  have ok: "wire_ok (r, p)" "rule_shape r" "length p \<le> 260" using w by (simp_all add: rp wire_ok_def)
  have len: "length (wire_bytes pad w) = SIZEOF_WIRE + 2 * length p" using length_wire_bytes [OF w, of pad] by (simp add: rp)
  define n where "n = (of_nat (length p) :: u32)"
  have n: "unat n = length p" "(n = 0) = (p = [])" "n \<le> 260"
    using ok(3) by (simp_all add: n_def unat_of_nat word_le_nat_alt flip: unat_eq_0)
  note f = wire_fields [OF ok(1), of pad rest, folded n_def]
  have rem': "SIZEOF_WIRE32 \<le> remaining" using rem len by (simp add: word_le_nat_alt)
  have need: "unat (184 + ucast n * 2 :: u64) = SIZEOF_WIRE + 2 * length p"
    using n(1) ok(3) by (simp add: unat_word_ariths)
  then have nl: "((ucast remaining :: u64) < 184 + ucast n * 2) = False" using rem len by (simp add: word_less_nat_alt)
  moreover have "ucast (184 + ucast n * 2 :: u64) = (of_nat (length (wire_bytes pad w)) :: u32)"
    by (simp only: len need [symmetric] of_nat_unat)
  ultimately show "skValidateWire (wire_bytes pad w @ rest) remaining = Some (Inr (of_nat (length (wire_bytes pad w))))"
    using n rem' len by (simp add: skValidateWire_def rp f Let_def nl) (simp add: not_less)
  show "skConvertWire (wire_bytes pad w @ rest) = Some (wire_rule w)"
    using n f(4) rule_of_rule_bytes [OF ok(2), of pad "[]"]
    by (simp add: skConvertWire_def rp f wire_rule_def Let_def flip: n_def)
qed

definition area_bytes :: "(nat \<Rightarrow> u8) \<Rightarrow> (rule \<times> u16 list) list \<Rightarrow> u8 list" where
  "area_bytes pad ws = concat (map (wire_bytes pad) ws)"

lemma parse_area:
  "list_all wire_ok ws \<Longrightarrow> length (area_bytes pad ws) \<le> unat remaining \<Longrightarrow>
   parse_rules (length ws) (area_bytes pad ws @ rest) remaining =
     Some (Inr (map wire_rule ws, remaining - of_nat (length (area_bytes pad ws))))"
proof (induction ws arbitrary: remaining)
  case (Cons w ws)
  let ?n = "length (wire_bytes pad w)" and ?rem = "remaining - of_nat (length (wire_bytes pad w))"
  have le: "?n + length (area_bytes pad ws) \<le> unat remaining" using Cons.prems by (simp add: area_bytes_def)
  have w: "wire_ok w" "?n \<le> unat remaining" using Cons.prems le by simp_all
  have small: "unat (of_nat ?n :: u32) = ?n"
    using le unsigned_less [of remaining, where ?'a = nat] by (simp add: unat_of_nat)
  then have rem: "unat ?rem = unat remaining - ?n" using w(2) by (simp add: unat_sub word_le_nat_alt)
  have IH: "parse_rules (length ws) (area_bytes pad ws @ rest) ?rem =
      Some (Inr (map wire_rule ws, ?rem - of_nat (length (area_bytes pad ws))))"
    using Cons.IH [of ?rem] Cons.prems(1) le rem by simp
  show ?case
    using wire_read_back [OF w, of "area_bytes pad ws @ rest"] small IH
    by (simp add: area_bytes_def algebra_simps)
qed (simp add: area_bytes_def)

section \<open>Properties\<close>

text \<open>C38: no input makes the reading of a rule area fault: with the bytes of the area and nothing
  behind them, whatever they are, validation and conversion of any number of wires read inside
  the area. The outcome is INVALID_PARAMETER or exactly the announced number of rules, each
  with the array lengths of the C type.\<close>

theorem ruleset_parse_safe:
  assumes "length area = unat remaining"
  shows "parse_rules n area remaining = Some (Inl STATUS_INVALID_PARAMETER) \<or>
    (\<exists>rs rest. parse_rules n area remaining = Some (Inr (rs, rest)) \<and> length rs = n \<and>
       list_all rule_shape rs \<and> rest \<le> remaining)"
proof -
  have "unat remaining \<le> length area" using assms by simp
  then show ?thesis by (cases rule: parse_rules_cases [of _ _ n]) auto
qed

theorem ruleset_parse_safe_witness:
  "parse_rules 1 (replicate 180 0) 180 = Some (Inl STATUS_INVALID_PARAMETER)"
  using ruleset_parse_safe [of "replicate 180 0" 180 1] by (simp add: skValidateWire_def)

text \<open>C39: a rule area written by a client (every rule followed by its path) is read back as written:
  the rules in order, each with the condition on the application that its path gives (the hash
  of the path, or none), and the whole area consumed.\<close>

theorem ruleset_roundtrip:
  assumes "list_all wire_ok ws" and "length (area_bytes pad ws) = unat remaining"
  shows "parse_rules (length ws) (area_bytes pad ws) remaining = Some (Inr (map wire_rule ws, 0))"
proof -
  have "remaining = of_nat (length (area_bytes pad ws))" using assms(2) by simp
  then show ?thesis using parse_area [OF assms(1), of pad remaining "[]"] assms(2) by simp
qed

theorem ruleset_roundtrip_witness:
  "parse_rules (length [(zero_rule, [0x41 :: u16, 0x42])]) (area_bytes (\<lambda>_. 0) [(zero_rule, [0x41 :: u16, 0x42])]) 188 =
     Some (Inr (map wire_rule [(zero_rule, [0x41 :: u16, 0x42])], 0))"
proof (rule ruleset_roundtrip)
  show ok: "list_all wire_ok [(zero_rule, [0x41 :: u16, 0x42])]" by (simp add: wire_ok_def)
  then show "length (area_bytes (\<lambda>_. 0) [(zero_rule, [0x41 :: u16, 0x42])]) = unat (188 :: u32)"
    by (simp add: area_bytes_def length_wire_bytes)
qed

lemma has_clear_app: "has (m AND NOT SK_RULE_M_APPID) (field_bit f) \<longleftrightarrow> f \<noteq> AppId \<and> has m (field_bit f)"
  by (cases f) (simp_all add: has_def and.assoc)

lemma field_ok_app: "f \<noteq> AppId \<Longrightarrow> field_ok f (r\<lparr>r_appId := a, r_mask := m\<rparr>) (t\<lparr>t_appId := b\<rparr>) = field_ok f r t"
  by (cases f) simp_all

text \<open>An enumerated rule that a client sends back has lost its condition on the application.
  ENUM_RULES writes the rule with \<open>pathChars = 0\<close>, and the conversion of such a wire clears
  \<open>appId\<close> and its mask bit. The rule that comes back matches whatever the original matches, and,
  with any other application, everything it matches with one.\<close>

theorem enum_loses_app:
  assumes "rule_shape r"
  shows "\<exists>q. skConvertWire (wire_bytes pad (r, []) @ rest) = Some q \<and>
    (SkRuleMatch r t \<longrightarrow> SkRuleMatch q t) \<and> SkRuleMatch q (t\<lparr>t_appId := a\<rparr>) = SkRuleMatch q t \<and>
    (has (r_mask r) SK_RULE_M_APPID \<and> r_appId r \<noteq> 0 \<and> t_appId t \<noteq> r_appId r \<longrightarrow> \<not> SkRuleMatch r t)"
proof -
  let ?q = "r\<lparr>r_appId := 0, r_mask := r_mask r AND NOT SK_RULE_M_APPID\<rparr>"
  have "wire_ok (r, [])" using assms by (simp add: wire_ok_def)
  then have conv: "skConvertWire (wire_bytes pad (r, []) @ rest) = Some ?q"
    using wire_read_back(2) [of "(r, [])" pad "of_nat SIZEOF_WIRE" rest] by (simp add: wire_rule_def length_wire_bytes)
  have m: "SkRuleMatch ?q (t\<lparr>t_appId := b\<rparr>) \<longleftrightarrow>
      r_enabled r \<noteq> 0 \<and> (\<forall>f. f \<noteq> AppId \<and> has (r_mask r) (field_bit f) \<longrightarrow> field_ok f r t)" for b
    unfolding match_fields using field_ok_app [where r = r and t = t and a = 0 and b = b] by (auto simp: has_clear_app [simplified])
  from this [of "t_appId t"] have mt: "SkRuleMatch ?q t \<longleftrightarrow>
      r_enabled r \<noteq> 0 \<and> (\<forall>f. f \<noteq> AppId \<and> has (r_mask r) (field_bit f) \<longrightarrow> field_ok f r t)" by simp
  have r: "SkRuleMatch r t \<longleftrightarrow> SkRuleMatch ?q t \<and> (has (r_mask r) SK_RULE_M_APPID \<longrightarrow> r_appId r \<in> {0, t_appId t})"
    unfolding mt match_fields [of r t] by (metis field_bit.simps(7) field_ok.simps(7))
  show ?thesis using conv r m [of a] mt by (intro exI [of _ ?q]) auto
qed

theorem enum_loses_app_witness:
  "\<exists>q. skConvertWire (wire_bytes (\<lambda>_. 0) (zero_rule, [])) = Some q"
  using enum_loses_app [of zero_rule "\<lambda>_. 0" "[]"] by (auto simp: rule_shape_def zero_rule_def)

end
