(* ===== verification/Ioctl.thy ===== *)
theory Ioctl
  imports Wire StoreThreads WfpManager
begin

text \<open>
  control/ioctl.c: the dispatch of a control request. All requests are METHOD_BUFFERED, so the
  input and the output of a request are one system buffer, here a list of bytes that the
  handlers read and overwrite. A read outside the input or a write outside the buffer is a
  fault, \<open>None\<close>. What the framework answers to the calls that retrieve the buffers
  (WdfRequestRetrieveInputBuffer, WdfRequestRetrieveOutputBuffer, WdfRequestGetParameters,
  WdfRequestGetFileObject) is part of the request.
\<close>

section \<open>Requests\<close>

abbreviation (input) STATUS_DEVICE_NOT_READY :: ntstatus where "STATUS_DEVICE_NOT_READY \<equiv> 0xC00000A3"
abbreviation (input) STATUS_INVALID_DEVICE_REQUEST :: ntstatus where "STATUS_INVALID_DEVICE_REQUEST \<equiv> 0xC0000010"
abbreviation (input) STATUS_BUFFER_TOO_SMALL :: ntstatus where "STATUS_BUFFER_TOO_SMALL \<equiv> 0xC0000023"
abbreviation (input) STATUS_REVISION_MISMATCH :: ntstatus where "STATUS_REVISION_MISMATCH \<equiv> 0xC0000059"
abbreviation (input) STATUS_ACCESS_DENIED :: ntstatus where "STATUS_ACCESS_DENIED \<equiv> 0xC0000022"

abbreviation (input) SkCmdQueryCapabilities :: u16 where "SkCmdQueryCapabilities \<equiv> 0"
abbreviation (input) SkCmdGetRuleVersion :: u16 where "SkCmdGetRuleVersion \<equiv> 1"
abbreviation (input) SkCmdAddRule :: u16 where "SkCmdAddRule \<equiv> 2"
abbreviation (input) SkCmdUpdateRule :: u16 where "SkCmdUpdateRule \<equiv> 3"
abbreviation (input) SkCmdDeleteRule :: u16 where "SkCmdDeleteRule \<equiv> 4"
abbreviation (input) SkCmdEnumRules :: u16 where "SkCmdEnumRules \<equiv> 5"
abbreviation (input) SkCmdReplaceRuleset :: u16 where "SkCmdReplaceRuleset \<equiv> 6"
abbreviation (input) SkCmdClearRules :: u16 where "SkCmdClearRules \<equiv> 7"
abbreviation (input) SkCmdSetDefaultPolicy :: u16 where "SkCmdSetDefaultPolicy \<equiv> 8"
abbreviation (input) SkCmdGetStats :: u16 where "SkCmdGetStats \<equiv> 9"
abbreviation (input) SkCmdFlushEvents :: u16 where "SkCmdFlushEvents \<equiv> 10"
abbreviation (input) SkCmdMax :: u16 where "SkCmdMax \<equiv> 11"

abbreviation (input) SK_IOCTL_FUNCTION_BASE :: u32 where "SK_IOCTL_FUNCTION_BASE \<equiv> 0x800"
abbreviation (input) SIZEOF_HEADER :: nat where "SIZEOF_HEADER \<equiv> 24"
abbreviation (input) SK_EVENT_RECORD_SIZE :: u32 where "SK_EVENT_RECORD_SIZE \<equiv> 80"
abbreviation (input) SK_FLUSH_MAX_EVENTS :: u32 where "SK_FLUSH_MAX_EVENTS \<equiv> 1024"

text \<open>The per-handle context of a file object.\<close>

record ioctl_context =
  x_privileged :: bool
  x_counted :: bool

text \<open>
  The state of the control plane. \<open>p_files\<close> holds the contexts of the open file objects,
  \<open>g_SkDequeueDoorbell\<close> and \<open>g_SkDequeueStopEvent\<close> whether the events are signalled.
\<close>

record control = wfp +
  g_ControlGateOpen :: bool
  g_ControlReady :: bool
  g_SkDequeueThread :: "nat option"
  g_SkDequeueStop :: u32
  g_SkDequeueDoorbell :: bool
  g_SkDequeueStopEvent :: bool
  p_files :: "nat \<Rightarrow> ioctl_context option"

text \<open>
  A request: its file object if it has one, the IOCTL code of its parameters, the answers of the
  two retrieve calls (status and length; \<open>rq_out\<close>: the output pointer is not NULL) and the
  system buffer.
\<close>

record request =
  rq_file :: "nat option"
  rq_code :: u32
  rq_inStatus :: ntstatus
  rq_inLen :: u64
  rq_outStatus :: ntstatus
  rq_out :: bool
  rq_outLen :: u64
  rq_buf :: "u8 list"

text \<open>What the caller of the request gets: one call of \<open>skComplete\<close>, and the buffer at that time.\<close>

record completion =
  k_status :: ntstatus
  k_information :: u64
  k_buf :: "u8 list"

definition skComplete :: "ntstatus \<Rightarrow> u64 \<Rightarrow> u8 list \<Rightarrow> completion" where
  "skComplete status information b = \<lparr>k_status = status, k_information = information, k_buf = b\<rparr>"

text \<open>
  \<open>SK_IOCTL_CALL\<close>: header and output are the buffer, the payload is the part of the input behind
  the header. \<open>c_temp\<close> counts the live blocks the call has taken from the pool.
\<close>

record ioctl_call =
  c_buf :: "u8 list"
  c_payloadLen :: u32
  c_out :: bool
  c_outLen :: u32
  c_information :: u64
  c_temp :: nat

definition payload :: "ioctl_call \<Rightarrow> u8 list" where
  "payload c = take (unat (c_payloadLen c)) (drop SIZEOF_HEADER (c_buf c))"

definition poke :: "nat \<Rightarrow> u8 list \<Rightarrow> u8 list \<Rightarrow> u8 list option" where
  "poke off x b = (if off + length x \<le> length b then Some (take off b @ x @ drop (off + length x) b) else None)"

section \<open>Headers of the output\<close>

definition skIsModifyCommand :: "u16 \<Rightarrow> bool" where
  "skIsModifyCommand cmd \<longleftrightarrow>
     cmd \<in> {SkCmdAddRule, SkCmdUpdateRule, SkCmdDeleteRule, SkCmdReplaceRuleset, SkCmdClearRules,
       SkCmdSetDefaultPolicy}"

text \<open>The header is read from the place it is written to.\<close>

definition skEchoHeader :: "u32 \<Rightarrow> ioctl_call \<Rightarrow> ioctl_call option" where
  "skEchoHeader totalBytes c = do {
     b \<leftarrow> poke 0 (le_bytes 4 (unat totalBytes)) (c_buf c);
     b \<leftarrow> poke 4 (le_bytes 2 1) b;
     cmd \<leftarrow> get16 6 b;
     b \<leftarrow> poke 6 (le_bytes 2 (unat cmd)) b;
     b \<leftarrow> poke 8 (le_bytes 4 0) b;
     requestId \<leftarrow> get64 16 b;
     b \<leftarrow> poke 16 (le_bytes 8 (unat requestId)) b;
     Some (c\<lparr>c_buf := b\<rparr>)
   }"

definition skEchoIfRoom :: "ioctl_call \<Rightarrow> (u64 \<times> ioctl_call) option" where
  "skEchoIfRoom c =
     (if c_out c \<and> c_outLen c \<ge> of_nat SIZEOF_HEADER
      then do { c \<leftarrow> skEchoHeader (of_nat SIZEOF_HEADER) c; Some (of_nat SIZEOF_HEADER, c) }
      else Some (0, c))"

definition put :: "nat \<Rightarrow> u8 list \<Rightarrow> ioctl_call \<Rightarrow> ioctl_call option" where
  "put off x c = do { b \<leftarrow> poke off x (c_buf c); Some (c\<lparr>c_buf := b\<rparr>) }"

text \<open>The answer of a command whose output does not fit: the size it needs.\<close>

definition too_small :: "u32 \<Rightarrow> ioctl_call \<Rightarrow> 's \<Rightarrow> (ntstatus \<times> ioctl_call \<times> 's) option" where
  "too_small need c w = Some (STATUS_BUFFER_TOO_SMALL, c\<lparr>c_information := ucast need\<rparr>, w)"

type_synonym 's handler = "ioctl_call \<Rightarrow> 's \<Rightarrow> (ntstatus \<times> ioctl_call \<times> 's) option"

section \<open>Queries\<close>

definition skCmdQueryCapabilities :: "'s handler" where
  "skCmdQueryCapabilities c w =
     (if \<not> c_out c \<or> c_outLen c < 40 then too_small 40 c w
      else do {
        c \<leftarrow> skEchoHeader 40 c;
        c \<leftarrow> put 24 (le_bytes 4 (unat SK_RULE_MAX)) c;
        c \<leftarrow> put 28 (le_bytes 4 (unat SK_REPLACE_MAX_BYTES)) c;
        c \<leftarrow> put 32 (le_bytes 4 0xF) c;
        c \<leftarrow> put 36 (le_bytes 4 1) c;
        Some (STATUS_SUCCESS, c\<lparr>c_information := 40\<rparr>, w)
      })"

definition skEnumCountCb :: "rule \<Rightarrow> u32 \<Rightarrow> bool \<times> u32" where
  "skEnumCountCb rule cnt = (True, cnt + 1)"

definition skCmdGetRuleVersion :: "('a control_scheme \<Rightarrow> 'a control_scheme) \<Rightarrow> 'a control_scheme handler" where
  "skCmdGetRuleVersion slp c w =
     (if \<not> c_out c \<or> c_outLen c < 40 then too_small 40 c w
      else do {
        (status, cnt, w) \<leftarrow> SkRuleStoreEnum slp (Some skEnumCountCb) 0 w;
        if \<not> NT_SUCCESS status then Some (status, c, w)
        else do {
          c \<leftarrow> skEchoHeader 40 c;
          version \<leftarrow> SkRuleStoreVersion w;
          c \<leftarrow> put 24 (le_bytes 8 (unat version)) c;
          c \<leftarrow> put 32 (le_bytes 4 (unat cnt)) c;
          policy \<leftarrow> SkRuleStoreDefaultPolicy w;
          c \<leftarrow> put 36 (le_bytes 4 (unat policy)) c;
          Some (STATUS_SUCCESS, c\<lparr>c_information := 40\<rparr>, w)
        }
      })"

text \<open>\<open>SK_ENUM_FILL\<close>; \<open>f_buf\<close> is the output, \<open>None\<close> after a write outside it.\<close>

record enum_fill =
  f_buf :: "u8 list option"
  f_cursor :: nat
  f_remaining :: u32
  f_count :: u32
  f_overflow :: bool

definition skEnumFillCb :: "(nat \<Rightarrow> u8) \<Rightarrow> rule \<Rightarrow> enum_fill \<Rightarrow> bool \<times> enum_fill" where
  "skEnumFillCb pad rule f =
     (if f_remaining f < of_nat SIZEOF_WIRE then (False, f\<lparr>f_overflow := True\<rparr>)
      else (True, f\<lparr>f_buf := Option.bind (f_buf f) (poke (f_cursor f) (rule_bytes pad rule @ le_bytes 4 0 @ le_bytes 4 0)),
              f_cursor := f_cursor f + SIZEOF_WIRE, f_remaining := f_remaining f - of_nat SIZEOF_WIRE,
              f_count := f_count f + 1\<rparr>))"

definition skCmdEnumRules ::
    "(nat \<Rightarrow> u8) \<Rightarrow> ('a control_scheme \<Rightarrow> 'a control_scheme) \<Rightarrow> 'a control_scheme handler" where
  "skCmdEnumRules pad slp c w = do {
     (status, cnt, w) \<leftarrow> SkRuleStoreEnum slp (Some skEnumCountCb) 0 w;
     if \<not> NT_SUCCESS status then Some (status, c, w)
     else
       let total = 24 + 16 + cnt * of_nat SIZEOF_WIRE
       in if \<not> c_out c \<or> c_outLen c < total then too_small total c w
          else do {
            (status, fill, w) \<leftarrow> SkRuleStoreEnum slp (Some (skEnumFillCb pad))
              \<lparr>f_buf = Some (c_buf c), f_cursor = 40, f_remaining = c_outLen c - 24 - 16, f_count = 0,
                f_overflow = False\<rparr> w;
            b \<leftarrow> f_buf fill;
            let c = c\<lparr>c_buf := b\<rparr>;
            if \<not> NT_SUCCESS status then Some (status, c, w)
            else if f_overflow fill then Some (STATUS_BUFFER_TOO_SMALL, c\<lparr>c_information := 0\<rparr>, w)
            else do {
              let total = 24 + 16 + f_count fill * of_nat SIZEOF_WIRE;
              c \<leftarrow> skEchoHeader total c;
              c \<leftarrow> put 24 (le_bytes 4 (unat (f_count fill))) c;
              version \<leftarrow> SkRuleStoreVersion w;
              c \<leftarrow> put 32 (le_bytes 8 (unat version)) c;
              Some (STATUS_SUCCESS, c\<lparr>c_information := ucast total\<rparr>, w)
            }
          }
   }"

definition stats_bytes :: "rule_stats \<Rightarrow> u8 list" where
  "stats_bytes s = concat (map (\<lambda>x. le_bytes 8 (unat x))
     [classifyCalls s, verdictPermit s, verdictBlock s, verdictAudit s, rateLimited s, ruleHits s,
      defaultHits s, matchNsTotal s, matchNsMax s, matchNsSamples s])"

definition skCmdGetStats :: "'a control_scheme handler" where
  "skCmdGetStats c w =
     (if \<not> c_out c \<or> c_outLen c < 136 then too_small 136 c w
      else do {
        c \<leftarrow> skEchoHeader 136 c;
        c \<leftarrow> put 24 (stats_bytes (g_SkRuleStats w)) c;
        let (posted, consumed, dropped, overflow) = SkTelemetryStats w;
        c \<leftarrow> put 104 (le_bytes 8 (unat posted) @ le_bytes 8 (unat consumed) @
               le_bytes 8 (unat dropped) @ le_bytes 8 (unat overflow)) c;
        Some (STATUS_SUCCESS, c\<lparr>c_information := 136\<rparr>, w)
      })"

definition skCmdFlushEvents :: "'a control_scheme handler" where
  "skCmdFlushEvents c w =
     (if \<not> c_out c \<or> c_outLen c < 32 then too_small 32 c w
      else do {
        let cap = (c_outLen c - 32) div SK_EVENT_RECORD_SIZE;
        let cap = (if cap > SK_FLUSH_MAX_EVENTS then SK_FLUSH_MAX_EVENTS else cap);
        let (cnt, records) = SkTelemetryFlush True cap SK_EVENT_RECORD_SIZE w;
        c \<leftarrow> put 32 (concat records) c;
        c \<leftarrow> skEchoHeader (32 + cnt * SK_EVENT_RECORD_SIZE) c;
        c \<leftarrow> put 24 (le_bytes 4 (unat cnt)) c;
        c \<leftarrow> put 28 (le_bytes 4 (unat SK_EVENT_RECORD_SIZE)) c;
        Some (STATUS_SUCCESS, c\<lparr>c_information := ucast (32 + cnt * SK_EVENT_RECORD_SIZE)\<rparr>, w)
      })"

section \<open>Rule commands\<close>

definition skCmdAddOrUpdateRule ::
    "(nat \<Rightarrow> bool) \<Rightarrow> ('a control_scheme \<Rightarrow> 'a control_scheme) \<Rightarrow> bool \<Rightarrow> 'a control_scheme handler" where
  "skCmdAddOrUpdateRule ok slp isUpdate c w = do {
     r \<leftarrow> skValidateWire (payload c) (c_payloadLen c);
     (case r of
        Inl status \<Rightarrow> Some (status, c, w)
      | Inr wireBytes \<Rightarrow>
          if wireBytes \<noteq> c_payloadLen c then Some (STATUS_INVALID_PARAMETER, c, w)
          else do {
            rule \<leftarrow> skConvertWire (payload c);
            (status, w) \<leftarrow> (if isUpdate then SkRuleStoreUpdate ok slp (Some rule) w
                             else SkRuleStoreAdd ok slp (Some rule) w);
            Some (status, c, w)
          })
   }"

definition skCmdDeleteRule ::
    "(nat \<Rightarrow> bool) \<Rightarrow> ('a control_scheme \<Rightarrow> 'a control_scheme) \<Rightarrow> 'a control_scheme handler" where
  "skCmdDeleteRule ok slp c w =
     (if c_payloadLen c \<noteq> 8 then Some (STATUS_INVALID_PARAMETER, c, w)
      else do {
        ruleId \<leftarrow> get64 0 (payload c);
        (status, w) \<leftarrow> SkRuleStoreDelete ok slp ruleId w;
        Some (status, c, w)
      })"

text \<open>
  The temporary array of \<open>skCmdReplaceRuleset\<close>. Its contents are the list the parser returns;
  the pool decides by \<open>ok\<close> whether the allocation succeeds.
\<close>

definition AllocTemp :: "(nat \<Rightarrow> bool) \<Rightarrow> ioctl_call \<Rightarrow> 'a store_scheme \<Rightarrow> bool \<times> ioctl_call \<times> 'a store_scheme" where
  "AllocTemp ok c w =
     (let k = p_next w; w = w\<lparr>p_next := Suc k\<rparr>
      in if ok k then (True, c\<lparr>c_temp := c_temp c + 1\<rparr>, w) else (False, c, w))"

definition FreeTemp :: "bool \<Rightarrow> ioctl_call \<Rightarrow> ioctl_call option" where
  "FreeTemp rules c =
     (if \<not> rules then Some c else if c_temp c = 0 then None else Some (c\<lparr>c_temp := c_temp c - 1\<rparr>))"

text \<open>From the parse loop on; \<open>rules\<close>: the array was allocated.\<close>

definition replace_parsed ::
    "(nat \<Rightarrow> bool) \<Rightarrow> ('a control_scheme \<Rightarrow> 'a control_scheme) \<Rightarrow> bool \<Rightarrow> u32 \<Rightarrow> u32 \<Rightarrow> u64 \<Rightarrow>
     'a control_scheme handler" where
  "replace_parsed ok slp rules cnt rulesBytes expectedVersion c w = do {
     parsed \<leftarrow> parse_rules (unat cnt) (drop 16 (payload c)) rulesBytes;
     (status, w) \<leftarrow> (case parsed of
        Inl status \<Rightarrow> Some (status, w)
      | Inr (rs, remaining) \<Rightarrow>
          if remaining \<noteq> 0 then Some (STATUS_INVALID_PARAMETER, w)
          else SkRuleStoreReplace ok slp (if rules then Some rs else None) cnt expectedVersion w);
     c \<leftarrow> FreeTemp rules c;
     Some (status, c, w)
   }"

definition skCmdReplaceRuleset ::
    "(nat \<Rightarrow> bool) \<Rightarrow> ('a control_scheme \<Rightarrow> 'a control_scheme) \<Rightarrow> 'a control_scheme handler" where
  "skCmdReplaceRuleset ok slp c w =
     (if c_payloadLen c < 16 then Some (STATUS_INVALID_PARAMETER, c, w)
      else do {
        cnt \<leftarrow> get32 0 (payload c);
        rulesBytes \<leftarrow> get32 4 (payload c);
        expectedVersion \<leftarrow> get64 8 (payload c);
        if cnt > SK_RULE_MAX then Some (STATUS_INVALID_PARAMETER, c, w)
        else if rulesBytes > SK_REPLACE_MAX_BYTES then Some (STATUS_INVALID_PARAMETER, c, w)
        else if 16 + ucast rulesBytes \<noteq> (ucast (c_payloadLen c) :: u64) then Some (STATUS_INVALID_PARAMETER, c, w)
        else if cnt \<noteq> 0 then
          (if (ucast cnt :: u64) * of_nat SIZEOF_WIRE > ucast rulesBytes
           then Some (STATUS_INVALID_PARAMETER, c, w)
           else case AllocTemp ok c w of
             (False, c, w) \<Rightarrow> Some (STATUS_INSUFFICIENT_RESOURCES, c, w)
           | (True, c, w) \<Rightarrow> replace_parsed ok slp True cnt rulesBytes expectedVersion c w)
        else replace_parsed ok slp False cnt rulesBytes expectedVersion c w
      })"

definition skCmdSetDefaultPolicy ::
    "(nat \<Rightarrow> bool) \<Rightarrow> ('a control_scheme \<Rightarrow> 'a control_scheme) \<Rightarrow> 'a control_scheme handler" where
  "skCmdSetDefaultPolicy ok slp c w =
     (if c_payloadLen c \<noteq> 4 then Some (STATUS_INVALID_PARAMETER, c, w)
      else do {
        policy \<leftarrow> get32 0 (payload c);
        if policy \<noteq> SkVerdictPermit \<and> policy \<noteq> SkVerdictBlock then Some (STATUS_INVALID_PARAMETER, c, w)
        else do {
          (status, w) \<leftarrow> SkRuleStoreSetDefaultPolicy ok slp policy w;
          Some (status, c, w)
        }
      })"

section \<open>Dispatch\<close>

text \<open>The \<open>switch\<close> over the commands.\<close>

definition run_command ::
    "(nat \<Rightarrow> bool) \<Rightarrow> (nat \<Rightarrow> u8) \<Rightarrow> ('a control_scheme \<Rightarrow> 'a control_scheme) \<Rightarrow> u16 \<Rightarrow> 'a control_scheme handler" where
  "run_command ok pad slp cmd c w =
     (if cmd = SkCmdQueryCapabilities then skCmdQueryCapabilities c w
      else if cmd = SkCmdGetRuleVersion then skCmdGetRuleVersion slp c w
      else if cmd = SkCmdAddRule then skCmdAddOrUpdateRule ok slp False c w
      else if cmd = SkCmdUpdateRule then skCmdAddOrUpdateRule ok slp True c w
      else if cmd = SkCmdDeleteRule then skCmdDeleteRule ok slp c w
      else if cmd = SkCmdEnumRules then skCmdEnumRules pad slp c w
      else if cmd = SkCmdReplaceRuleset then skCmdReplaceRuleset ok slp c w
      else if cmd = SkCmdClearRules then do { (status, w) \<leftarrow> SkRuleStoreClear ok slp w; Some (status, c, w) }
      else if cmd = SkCmdSetDefaultPolicy then skCmdSetDefaultPolicy ok slp c w
      else if cmd = SkCmdGetStats then skCmdGetStats c w
      else if cmd = SkCmdFlushEvents then skCmdFlushEvents c w
      else Some (STATUS_INVALID_DEVICE_REQUEST, c, w))"

text \<open>The switch and what follows it, on a call that has passed the checks.\<close>

definition run_call ::
    "(nat \<Rightarrow> bool) \<Rightarrow> (nat \<Rightarrow> u8) \<Rightarrow> ('a control_scheme \<Rightarrow> 'a control_scheme) \<Rightarrow> u16 \<Rightarrow> ioctl_call
     \<Rightarrow> 'a control_scheme \<Rightarrow> (completion \<times> 'a control_scheme) option" where
  "run_call ok pad slp cmd c w = do {
     (status, c, w) \<leftarrow> run_command ok pad slp cmd c w;
     (information, c) \<leftarrow> (if NT_SUCCESS status \<and> c_information c = 0 then skEchoIfRoom c
                          else Some (c_information c, c));
     Some (skComplete status information (c_buf c), w)
   }"

definition request_privileged :: "request \<Rightarrow> 'a control_scheme \<Rightarrow> bool" where
  "request_privileged rq w = (case Option.bind (rq_file rq) (p_files w) of None \<Rightarrow> False | Some ctx \<Rightarrow> x_privileged ctx)"

text \<open>Checks 2) to 6) on the header of the input: the status of the first that fails.\<close>

definition check_header ::
    "u32 \<Rightarrow> request \<Rightarrow> 'a control_scheme \<Rightarrow> (ntstatus + u16) option" where
  "check_header ioControlCode rq w = do {
     size \<leftarrow> get32 0 (rq_buf rq);
     version \<leftarrow> get16 4 (rq_buf rq);
     flags \<leftarrow> get32 8 (rq_buf rq);
     command \<leftarrow> get16 6 (rq_buf rq);
     let func = drop_bit 2 ioControlCode AND 0xFFF;
     Some (if (ucast size :: u64) \<noteq> rq_inLen rq then Inl STATUS_INVALID_PARAMETER
           else if version \<noteq> 1 then Inl STATUS_REVISION_MISMATCH
           else if flags \<noteq> 0 then Inl STATUS_INVALID_PARAMETER
           else if command \<ge> SkCmdMax then Inl STATUS_INVALID_DEVICE_REQUEST
           else if func \<noteq> SK_IOCTL_FUNCTION_BASE + ucast command then Inl STATUS_INVALID_DEVICE_REQUEST
           else if skIsModifyCommand command \<and> \<not> request_privileged rq w then Inl STATUS_ACCESS_DENIED
           else Inr command)
   }"

definition SkIoctlEvtDeviceControl ::
    "(nat \<Rightarrow> bool) \<Rightarrow> (nat \<Rightarrow> u8) \<Rightarrow> ('a control_scheme \<Rightarrow> 'a control_scheme) \<Rightarrow> request \<Rightarrow> u64 \<Rightarrow> u32
     \<Rightarrow> 'a control_scheme \<Rightarrow> (completion \<times> 'a control_scheme) option" where
  "SkIoctlEvtDeviceControl ok pad slp rq outLen ioControlCode w =
     (let refuse = \<lambda>status. Some (skComplete status 0 (rq_buf rq), w) in
      if \<not> g_ControlGateOpen w \<or> \<not> ShRuntimeIsActive w then refuse STATUS_DEVICE_NOT_READY
      else if rq_code rq \<noteq> ioControlCode then refuse STATUS_INVALID_DEVICE_REQUEST
      else if \<not> NT_SUCCESS (rq_inStatus rq) then refuse (rq_inStatus rq)
      else if rq_inLen rq < of_nat SIZEOF_HEADER \<or> rq_inLen rq > 0xFFFFFFFF then refuse STATUS_BUFFER_TOO_SMALL
      else do {
        r \<leftarrow> check_header ioControlCode rq w;
        (case r of
           Inl status \<Rightarrow> refuse status
         | Inr command \<Rightarrow>
             if outLen > 0 \<and> (\<not> NT_SUCCESS (rq_outStatus rq) \<or> \<not> rq_out rq)
             then refuse (if NT_SUCCESS (rq_outStatus rq) then STATUS_INVALID_PARAMETER else rq_outStatus rq)
             else
               let realOutLen = (if outLen = 0 then 0 else if rq_outLen rq > 0xFFFFFFFF then 0xFFFFFFFF else rq_outLen rq)
               in run_call ok pad slp command
                    \<lparr>c_buf = rq_buf rq, c_payloadLen = ucast (rq_inLen rq) - of_nat SIZEOF_HEADER,
                      c_out = (outLen > 0), c_outLen = ucast realOutLen, c_information = 0, c_temp = 0\<rparr> w)
      })"

end
