(* ===== verification/IoctlDispatch.thy ===== *)
theory IoctlDispatch
  imports Ioctl WfpTeardown StoreProperties
begin

text \<open>
  What the dispatch of a control request promises: no input makes it read or write outside the
  system buffer, the reported length fits the caller's buffer, queries and refused requests
  change nothing, and the modify commands are the operations of the rule store.
\<close>

section \<open>Writing the buffer\<close>

definition poked :: "nat \<Rightarrow> u8 list \<Rightarrow> u8 list \<Rightarrow> u8 list" where
  "poked off x b = take off b @ x @ drop (off + length x) b"

lemma poke_in: "off + length x \<le> length b \<Longrightarrow> poke off x b = Some (poked off x b)"
  by (simp add: poke_def poked_def)

lemma put_in: "off + length x \<le> length (c_buf c) \<Longrightarrow> put off x c = Some (c\<lparr>c_buf := poked off x (c_buf c)\<rparr>)"
  by (simp add: put_def poke_in)

lemma length_poked [simp]: "off + length x \<le> length b \<Longrightarrow> length (poked off x b) = length b"
  by (simp add: poked_def)

lemma poked_same: "off + length x \<le> length b \<Longrightarrow> n = length x \<Longrightarrow> bytes_at off n (poked off x b) = x"
  by (simp add: poked_def bytes_at_def)

lemma poked_below: "o' + n \<le> off \<Longrightarrow> off \<le> length b \<Longrightarrow> bytes_at o' n (poked off x b) = bytes_at o' n b"
  by (auto simp: poked_def bytes_at_def drop_take min_def)

lemma poked_above:
  "off + length x \<le> o' \<Longrightarrow> off + length x \<le> length b \<Longrightarrow> bytes_at o' n (poked off x b) = bytes_at o' n b"
  by (simp add: poked_def bytes_at_def)

lemma poked_append: "off + length (x @ y) \<le> length b \<Longrightarrow> poked (off + length x) y (poked off x b) = poked off (x @ y) b"
  by (simp add: poked_def add_ac)

definition echoed :: "u32 \<Rightarrow> u8 list \<Rightarrow> u8 list" where
  "echoed n b = poked 16 (bytes_at 16 8 b) (poked 8 (le_bytes 4 0) (poked 6 (bytes_at 6 2 b)
     (poked 4 (le_bytes 2 1) (poked 0 (le_bytes 4 (unat n)) b))))"

lemma le_bytes_val: "length x = n \<Longrightarrow> le_bytes n (le_val x) = x"
proof (induction x arbitrary: n)
  case (Cons b bs)
  have "unat b < 256" using unsigned_less [of b, where ?'a = nat] by simp
  with Cons show ?case by (cases n) auto
qed simp

lemma le_bytes_word:
  "length x = 2 \<Longrightarrow> le_bytes 2 (unat (of_nat (le_val x) :: u16)) = x"
  "length x = 8 \<Longrightarrow> le_bytes 8 (unat (of_nat (le_val x) :: u64)) = x"
  using le_val_bound [of x] by (simp_all add: unat_of_nat le_bytes_val)

lemma length_bytes_at: "off + n \<le> length b \<Longrightarrow> length (bytes_at off n b) = n"
  by (simp add: bytes_at_def)

lemma length_echoed [simp]: "SIZEOF_HEADER \<le> length b \<Longrightarrow> length (echoed n b) = length b"
  using length_bytes_at [of 16 8 b] length_bytes_at [of 6 2 b] by (simp add: echoed_def)

lemma echo_in:
  assumes "SIZEOF_HEADER \<le> length (c_buf c)"
  shows "skEchoHeader n c = Some (c\<lparr>c_buf := echoed n (c_buf c)\<rparr>)"
proof -
  note len = length_bytes_at [of 16 8 "c_buf c"] length_bytes_at [of 6 2 "c_buf c"]
  have w: "le_bytes 2 (unat (of_nat (le_val (bytes_at 6 2 (c_buf c))) :: u16)) = bytes_at 6 2 (c_buf c)"
    "le_bytes 8 (unat (of_nat (le_val (bytes_at 16 8 (c_buf c))) :: u64)) = bytes_at 16 8 (c_buf c)"
    using assms len by (simp_all add: le_bytes_word)
  show "skEchoHeader n c = Some (c\<lparr>c_buf := echoed n (c_buf c)\<rparr>)"
    using assms len
    by (simp add: skEchoHeader_def poke_in get16_def get64_def peek_def poked_above echoed_def w del: le_bytes.simps)
qed

lemma echoed_above:
  "SIZEOF_HEADER \<le> o' \<Longrightarrow> SIZEOF_HEADER \<le> length b \<Longrightarrow> bytes_at o' k (echoed n b) = bytes_at o' k b"
  using length_bytes_at [of 16 8 b] length_bytes_at [of 6 2 b] by (simp add: echoed_def poked_above)

section \<open>Queries leave the state alone\<close>

definition control_ok :: "'a control_scheme \<Rightarrow> bool" where
  "control_ok w \<longleftrightarrow> (\<exists>H. store_inv {} {} H w) \<and> g_WriterBusy w = 0 \<and>
     (\<forall>A. abs_store w = Some A \<longrightarrow> list_all rule_shape (a_rules A))"

lemma busy_same: "g_WriterBusy w = 0 \<Longrightarrow> SkStoreUnlock (w\<lparr>g_WriterBusy := 1\<rparr>) = w"
  by (cases w) (simp add: SkStoreUnlock_def)

lemma enum_result:
  fixes w :: "'a store_scheme"
  assumes inv: "store_inv {} {} H w" and free: "g_WriterBusy w = 0"
  shows "SkRuleStoreEnum slp (Some f) c w = (case abs_store w of
      None \<Rightarrow> Some (STATUS_INVALID_DEVICE_STATE, c, w)
    | Some A \<Rightarrow> Some (STATUS_SUCCESS, enum_loop f (a_rules A) c, w))"
proof (cases "g_Current w")
  case None
  then have "abs_store w = None" by (simp add: abs_store_def)
  then show ?thesis using None by (simp add: SkRuleStoreEnum_def lock_free [OF free] busy_same [OF free])
next
  case (Some p)
  have ini: "g_StoreInited w" using store_invD(4) [OF inv] Some by (auto simp: flags_ok_def)
  from abs_store_open [OF inv Some] obtain s rs A where s: "p_snaps w p = Some s" "snap_rules w s = Some rs"
    "abs_store w = Some A" "a_rules A = rs" by blast
  then show ?thesis using ini Some by (simp add: SkRuleStoreEnum_def lock_free [OF free] busy_same [OF free])
qed

lemma version_result:
  assumes "store_inv {} {} H w" and "abs_store w = Some A"
  shows "SkRuleStoreVersion w = Some (a_version A)" "SkRuleStoreDefaultPolicy w = Some (a_policy A)"
proof -
  obtain p where p: "g_Current w = Some p" using assms(2) by (auto simp: abs_store_def split: option.splits)
  from abs_store_open [OF assms(1) p] assms(2) obtain s where "p_snaps w p = Some s"
    "a_version A = s_version s" "a_policy A = s_defaultPolicy s" by auto
  then show "SkRuleStoreVersion w = Some (a_version A)" "SkRuleStoreDefaultPolicy w = Some (a_policy A)"
    by (simp_all add: SkRuleStoreVersion_def SkRuleStoreDefaultPolicy_def p)
qed

lemma enum_count: "enum_loop skEnumCountCb rs n = n + of_nat (length rs)"
  by (induction rs arbitrary: n) (simp_all add: skEnumCountCb_def)

text \<open>The fill pass, with room for all rules.\<close>

abbreviation enum_wires :: "rule list \<Rightarrow> (rule \<times> u16 list) list" where
  "enum_wires rs \<equiv> map (\<lambda>r. (r, [])) rs"

lemma enum_wire_bytes: "rule_bytes pad r @ le_bytes 4 0 @ le_bytes 4 0 = wire_bytes pad (r, [])"
  by (simp add: wire_bytes_def path_bytes_def)

lemma length_enum_area: "list_all rule_shape rs \<Longrightarrow> length (area_bytes pad (enum_wires rs)) = SIZEOF_WIRE * length rs"
  by (induction rs) (simp_all add: area_bytes_def length_wire_bytes wire_ok_def)

lemma enum_fill:
  "list_all rule_shape rs \<Longrightarrow> f_buf f = Some b \<Longrightarrow> f_cursor f + SIZEOF_WIRE * length rs \<le> length b \<Longrightarrow>
   SIZEOF_WIRE * length rs \<le> unat (f_remaining f) \<Longrightarrow>
   enum_loop (skEnumFillCb pad) rs f = f\<lparr>f_buf := Some (poked (f_cursor f) (area_bytes pad (enum_wires rs)) b),
     f_cursor := f_cursor f + SIZEOF_WIRE * length rs, f_remaining := f_remaining f - of_nat (SIZEOF_WIRE * length rs),
     f_count := f_count f + of_nat (length rs)\<rparr>"
proof (induction rs arbitrary: f b)
  case Nil
  have "poked (f_cursor f) [] b = b" by (simp add: poked_def)
  then show ?case using Nil by (cases f) (simp add: area_bytes_def)
next
  case (Cons r rs)
  let ?w = "wire_bytes pad (r, [])"
  have w: "length ?w = SIZEOF_WIRE" using Cons.prems(1) by (simp add: length_wire_bytes wire_ok_def)
  have rem: "of_nat SIZEOF_WIRE \<le> f_remaining f" using Cons.prems(4) by (simp add: word_le_nat_alt)
  define g where "g = f\<lparr>f_buf := Some (poked (f_cursor f) ?w b), f_cursor := f_cursor f + SIZEOF_WIRE,
      f_remaining := f_remaining f - of_nat SIZEOF_WIRE, f_count := f_count f + 1\<rparr>"
  have step: "skEnumFillCb pad r f = (True, g)"
    using rem Cons.prems(2,3) w by (simp add: skEnumFillCb_def enum_wire_bytes poke_in g_def not_less)
  have IH: "enum_loop (skEnumFillCb pad) rs g = g\<lparr>
     f_buf := Some (poked (f_cursor g) (area_bytes pad (enum_wires rs)) (poked (f_cursor f) ?w b)),
     f_cursor := f_cursor g + SIZEOF_WIRE * length rs, f_remaining := f_remaining g - of_nat (SIZEOF_WIRE * length rs),
     f_count := f_count g + of_nat (length rs)\<rparr>"
    using Cons.prems w rem by (intro Cons.IH) (simp_all add: g_def unat_sub)
  have area: "area_bytes pad ((r, []) # ws) = ?w @ area_bytes pad ws" for ws by (simp add: area_bytes_def)
  have "poked (f_cursor f + SIZEOF_WIRE) (area_bytes pad (enum_wires rs)) (poked (f_cursor f) ?w b) =
      poked (f_cursor f) (area_bytes pad (enum_wires (r # rs))) b"
    using poked_append [of "f_cursor f" ?w "area_bytes pad (enum_wires rs)" b] Cons.prems(1,3) w
    by (simp add: area length_enum_area)
  then show ?case by (simp add: step IH) (simp add: g_def algebra_simps)
qed

section \<open>Every command answers within the buffer\<close>

definition call_ok :: "ioctl_call \<Rightarrow> bool" where
  "call_ok c \<longleftrightarrow> c_temp c = 0 \<and> c_information c = 0 \<and> SIZEOF_HEADER + unat (c_payloadLen c) \<le> length (c_buf c) \<and>
     (c_out c \<longrightarrow> unat (c_outLen c) \<le> length (c_buf c))"

definition answers :: "ioctl_call \<Rightarrow> ntstatus \<Rightarrow> ioctl_call \<Rightarrow> bool" where
  "answers c st c' \<longleftrightarrow> c_temp c' = 0 \<and> c_out c' = c_out c \<and> c_outLen c' = c_outLen c \<and>
     length (c_buf c') = length (c_buf c) \<and>
     (NT_SUCCESS st \<longrightarrow> c_information c' = 0 \<or> c_out c \<and> c_information c' \<le> ucast (c_outLen c))"

lemma status_consts [simp]:
  "\<not> NT_SUCCESS STATUS_DEVICE_NOT_READY" "\<not> NT_SUCCESS STATUS_INVALID_DEVICE_REQUEST"
  "\<not> NT_SUCCESS STATUS_BUFFER_TOO_SMALL" "\<not> NT_SUCCESS STATUS_REVISION_MISMATCH" "\<not> NT_SUCCESS STATUS_ACCESS_DENIED"
  by (simp_all add: NT_SUCCESS_def word_sle_eq)

lemma answers_same: "call_ok c \<Longrightarrow> answers c st c"
  by (simp add: answers_def call_ok_def)

lemma too_small_answers: "call_ok c \<Longrightarrow> \<exists>c'. too_small n c w = Some (STATUS_BUFFER_TOO_SMALL, c', w) \<and>
    answers c STATUS_BUFFER_TOO_SMALL c'"
  by (simp add: too_small_def answers_def call_ok_def)

lemma word_le_ucast: "(n :: u32) \<le> m \<Longrightarrow> (ucast n :: u64) \<le> ucast m"
  by (simp add: word_le_nat_alt)

lemma query_capabilities_answers:
  assumes c: "call_ok c"
  shows "\<exists>st c'. skCmdQueryCapabilities c w = Some (st, c', w) \<and> answers c st c'"
proof (cases "\<not> c_out c \<or> c_outLen c < 40")
  case True
  then show ?thesis using too_small_answers [OF c, of 40 w] by (auto simp: skCmdQueryCapabilities_def)
next
  case False
  then have room: "40 \<le> length (c_buf c)" "40 \<le> c_outLen c"
    using c by (auto simp: call_ok_def word_less_nat_alt word_le_nat_alt)
  then show ?thesis
    using False c word_le_ucast [OF room(2)]
    by (simp add: skCmdQueryCapabilities_def echo_in put_in answers_def call_ok_def)
qed

lemma get_rule_version_answers:
  fixes w :: "'a control_scheme"
  assumes c: "call_ok c" and inv: "store_inv {} {} H w" and free: "g_WriterBusy w = 0"
  shows "\<exists>st c'. skCmdGetRuleVersion slp c w = Some (st, c', w) \<and> answers c st c'"
proof (cases "\<not> c_out c \<or> c_outLen c < 40")
  case True
  then show ?thesis using too_small_answers [OF c, of 40 w] by (auto simp: skCmdGetRuleVersion_def)
next
  case False
  then have room: "40 \<le> length (c_buf c)" "40 \<le> c_outLen c"
    using c by (auto simp: call_ok_def word_less_nat_alt word_le_nat_alt)
  show ?thesis
  proof (cases "abs_store w")
    case None
    then show ?thesis
      using False answers_same [OF c] by (simp add: skCmdGetRuleVersion_def enum_result [OF inv free])
  next
    case (Some A)
    then show ?thesis
      using False c room word_le_ucast [OF room(2)] version_result [OF inv Some]
      by (simp add: skCmdGetRuleVersion_def enum_result [OF inv free] echo_in put_in answers_def call_ok_def)
  qed
qed

definition enum_total :: "astore \<Rightarrow> u32" where
  "enum_total A = 24 + 16 + of_nat (length (a_rules A)) * of_nat SIZEOF_WIRE"

lemma enum_total_nat:
  assumes "store_inv {} {} H w" and "abs_store w = Some A"
  shows "unat (enum_total A) = 40 + SIZEOF_WIRE * length (a_rules A)"
proof -
  have "length (a_rules A) \<le> 4096"
    using abs_store_ok [OF assms] by (simp add: astore_ok_def content_ok_def)
  then show ?thesis by (simp add: enum_total_def unat_word_ariths unat_of_nat mult.commute)
qed

text \<open>The buffer after a successful ENUM_RULES.\<close>

definition enum_output :: "(nat \<Rightarrow> u8) \<Rightarrow> astore \<Rightarrow> u8 list \<Rightarrow> u8 list" where
  "enum_output pad A b = poked 32 (le_bytes 8 (unat (a_version A)))
     (poked 24 (le_bytes 4 (unat (of_nat (length (a_rules A)) :: u32)))
       (echoed (enum_total A) (poked 40 (area_bytes pad (enum_wires (a_rules A))) b)))"

lemma enum_rules_result:
  fixes w :: "'a control_scheme"
  assumes c: "call_ok c" and inv: "store_inv {} {} H w" and free: "g_WriterBusy w = 0"
    and A: "abs_store w = Some A" and shape: "list_all rule_shape (a_rules A)"
  shows "skCmdEnumRules pad slp c w =
    (if \<not> c_out c \<or> c_outLen c < enum_total A then too_small (enum_total A) c w
     else Some (STATUS_SUCCESS, c\<lparr>c_buf := enum_output pad A (c_buf c), c_information := ucast (enum_total A)\<rparr>, w))"
proof (cases "\<not> c_out c \<or> c_outLen c < enum_total A")
  case True
  then show ?thesis by (simp add: skCmdEnumRules_def enum_result [OF inv free] A enum_count enum_total_def Let_def)
next
  case False
  let ?rs = "a_rules A" and ?area = "area_bytes pad (enum_wires (a_rules A))"
  let ?f = "\<lparr>f_buf = Some (c_buf c), f_cursor = 40, f_remaining = c_outLen c - 40, f_count = 0, f_overflow = False\<rparr>"
  note total = enum_total_nat [OF inv A]
  have room: "40 + SIZEOF_WIRE * length ?rs \<le> unat (c_outLen c)" "unat (c_outLen c) \<le> length (c_buf c)"
    using False c total by (auto simp: word_less_nat_alt call_ok_def)
  have rem: "unat (c_outLen c - 40) = unat (c_outLen c) - 40"
    using room(1) by (simp add: unat_sub word_le_nat_alt)
  have loop: "enum_loop (skEnumFillCb pad) ?rs ?f = ?f\<lparr>f_buf := Some (poked 40 ?area (c_buf c)),
      f_cursor := 40 + SIZEOF_WIRE * length ?rs, f_remaining := c_outLen c - 40 - of_nat (SIZEOF_WIRE * length ?rs),
      f_count := of_nat (length ?rs)\<rparr>"
    using enum_fill [OF shape, of ?f "c_buf c" pad] room rem by simp
  have len: "length (poked 40 ?area (c_buf c)) = length (c_buf c)" using room by (simp add: length_enum_area [OF shape])
  show ?thesis
    using False room len version_result [OF inv A]
    by (simp add: skCmdEnumRules_def enum_result [OF inv free] A enum_count loop echo_in put_in enum_output_def
        enum_total_def Let_def)
qed

lemma length_enum_output:
  assumes "store_inv {} {} H w" and "abs_store w = Some A" and "list_all rule_shape (a_rules A)"
    and "unat (enum_total A) \<le> length b"
  shows "length (enum_output pad A b) = length b"
proof -
  have len: "length (poked 40 (area_bytes pad (enum_wires (a_rules A))) b) = length b" "40 \<le> length b"
    using assms(4) enum_total_nat [OF assms(1,2)] by (simp_all add: length_enum_area [OF assms(3)])
  then show ?thesis by (simp add: enum_output_def)
qed

lemma enum_rules_answers:
  fixes w :: "'a control_scheme"
  assumes c: "call_ok c" and w: "control_ok w"
  shows "\<exists>st c'. skCmdEnumRules pad slp c w = Some (st, c', w) \<and> answers c st c'"
proof -
  obtain H where inv: "store_inv {} {} H w" and free: "g_WriterBusy w = 0" using w by (auto simp: control_ok_def)
  show ?thesis
  proof (cases "abs_store w")
    case None
    then show ?thesis using answers_same [OF c] by (simp add: skCmdEnumRules_def enum_result [OF inv free])
  next
    case (Some A)
    then have shape: "list_all rule_shape (a_rules A)" using w by (simp add: control_ok_def)
    note result = enum_rules_result [OF c inv free Some shape, of pad slp]
    show ?thesis
    proof (cases "\<not> c_out c \<or> c_outLen c < enum_total A")
      case True
      then show ?thesis using result too_small_answers [OF c, of "enum_total A" w] by auto
    next
      case False
      then have le: "enum_total A \<le> c_outLen c" "unat (enum_total A) \<le> length (c_buf c)"
        using c by (auto simp: call_ok_def word_less_nat_alt word_le_nat_alt)
      then show ?thesis
        using result False length_enum_output [OF inv Some shape le(2)] c word_le_ucast [OF le(1)]
        by (simp add: answers_def call_ok_def)
    qed
  qed
qed

lemma get_stats_answers:
  assumes c: "call_ok c"
  shows "\<exists>st c'. skCmdGetStats c w = Some (st, c', w) \<and> answers c st c'"
proof (cases "\<not> c_out c \<or> c_outLen c < 136")
  case True
  then show ?thesis using too_small_answers [OF c, of 136 w] by (auto simp: skCmdGetStats_def)
next
  case False
  then have room: "136 \<le> length (c_buf c)" "136 \<le> c_outLen c"
    using c by (auto simp: call_ok_def word_less_nat_alt word_le_nat_alt)
  have "length (stats_bytes s) = 80" for s by (simp add: stats_bytes_def)
  then show ?thesis
    using False room c word_le_ucast [OF room(2)]
    by (simp add: skCmdGetStats_def SkTelemetryStats_def echo_in put_in answers_def call_ok_def)
qed

text \<open>The ring of the telemetry, as far as the flush relies on it.\<close>

definition ring_ok :: "'a telemetry_scheme \<Rightarrow> bool" where
  "ring_ok w \<longleftrightarrow> length (g_SkRing w) = 1024 \<and> (\<forall>b \<in> set (g_SkRing w). length b = 80)"

lemma flush_size:
  assumes "ring_ok w" and "cap \<le> 1024" and "SkTelemetryFlush True cap SK_EVENT_RECORD_SIZE w = (n, records)"
  shows "n \<le> cap" and "length (concat records) = 80 * unat n"
proof -
  define avail where "avail = (if g_SkRingTotal w < 1024 then ucast (g_SkRingTotal w) else SK_TELEMETRY_RING)"
  define m where "m = (if avail < cap then avail else cap)"
  define start where "start = (g_SkRingHead w + SK_TELEMETRY_RING - m) mod SK_TELEMETRY_RING"
  have "SkTelemetryFlush True cap SK_EVENT_RECORD_SIZE w =
      (m, map (\<lambda>i. take 80 (g_SkRing w ! unat ((start + of_nat i) mod SK_TELEMETRY_RING))) [0..<unat m])"
    unfolding SkTelemetryFlush_def Let_def start_def m_def avail_def by simp
  then have n: "n = m" and r: "records = map (\<lambda>i. take 80 (g_SkRing w ! unat ((start + of_nat i) mod SK_TELEMETRY_RING))) [0..<unat m]"
    using assms(3) by simp_all
  show "n \<le> cap" by (auto simp: n m_def not_less)
  have entry: "length (take 80 (g_SkRing w ! unat (x mod 1024))) = 80" for x :: u32
    using assms(1) by (simp add: ring_ok_def unat_mod)
  have "length (concat (map (\<lambda>i. take 80 (g_SkRing w ! unat ((start + of_nat i) mod 1024))) is)) = 80 * length is" for "is"
    by (induction "is") (simp_all add: entry del: length_take)
  then show "length (concat records) = 80 * unat n" by (simp add: r n)
qed

lemma flush_events_answers:
  assumes c: "call_ok c" and ring: "ring_ok w"
  shows "\<exists>st c'. skCmdFlushEvents c w = Some (st, c', w) \<and> answers c st c'"
proof (cases "\<not> c_out c \<or> c_outLen c < 32")
  case True
  then show ?thesis using too_small_answers [OF c, of 32 w] by (auto simp: skCmdFlushEvents_def)
next
  case False
  let ?q = "(c_outLen c - 32) div SK_EVENT_RECORD_SIZE"
  let ?cap = "if ?q > SK_FLUSH_MAX_EVENTS then SK_FLUSH_MAX_EVENTS else ?q"
  obtain n records where fl: "SkTelemetryFlush True ?cap SK_EVENT_RECORD_SIZE w = (n, records)" by fastforce
  have "?cap \<le> 1024" by (simp add: not_less)
  note size = flush_size [OF ring this fl]
  have out: "32 \<le> unat (c_outLen c)" "unat (c_outLen c) \<le> length (c_buf c)"
    using False c by (auto simp: call_ok_def word_less_nat_alt)
  have sub: "unat (c_outLen c - 32) = unat (c_outLen c) - 32" using out(1) by (simp add: unat_sub word_le_nat_alt)
  have "unat n \<le> unat ?cap" using size(1) by (simp add: word_le_nat_alt)
  also have "\<dots> \<le> unat ?q" by (auto simp: word_le_nat_alt word_less_nat_alt)
  also have "\<dots> = (unat (c_outLen c) - 32) div 80" by (simp add: unat_div sub)
  finally have n: "32 + 80 * unat n \<le> unat (c_outLen c)" using out(1) by auto
  have "unat (32 + n * 80) = 32 + 80 * unat n"
    using n unsigned_less [of "c_outLen c", where ?'a = nat] by (simp add: unat_word_ariths mult.commute)
  then have info: "32 + n * 80 \<le> c_outLen c" using n by (simp add: word_le_nat_alt)
  have room: "32 + length (concat records) \<le> length (c_buf c)" using n out(2) size(2) by simp
  then show ?thesis
    using False c word_le_ucast [OF info] out
    by (simp add: skCmdFlushEvents_def fl echo_in put_in answers_def call_ok_def Let_def)
qed

section \<open>Modify commands are store operations\<close>

definition op_rules :: "store_op \<Rightarrow> rule list" where
  "op_rules opn = (case opn of
      OpAdd r \<Rightarrow> (case r of None \<Rightarrow> [] | Some r \<Rightarrow> [r])
    | OpUpdate r \<Rightarrow> (case r of None \<Rightarrow> [] | Some r \<Rightarrow> [r])
    | OpReplace rs n v \<Rightarrow> replace_list rs n
    | _ \<Rightarrow> [])"

definition client_op :: "store_op \<Rightarrow> bool" where
  "client_op opn \<longleftrightarrow> readable opn \<and> opn \<noteq> OpRollback \<and> list_all rule_shape (op_rules opn)"

text \<open>The operation runs after some allocations of the control plane.\<close>

definition does_op ::
    "(nat \<Rightarrow> bool) \<Rightarrow> ('a control_scheme \<Rightarrow> 'a control_scheme) \<Rightarrow> store_op \<Rightarrow> 'a control_scheme \<Rightarrow> ntstatus
     \<Rightarrow> 'a control_scheme \<Rightarrow> bool" where
  "does_op ok slp opn w st w' \<longleftrightarrow> client_op opn \<and>
     (\<exists>k \<ge> p_next w. run_op ok slp opn (w\<lparr>p_next := k\<rparr>) = Some (st, w'))"

definition does_nothing :: "'a control_scheme \<Rightarrow> ntstatus \<Rightarrow> 'a control_scheme \<Rightarrow> bool" where
  "does_nothing w st w' \<longleftrightarrow> \<not> NT_SUCCESS st \<and> (\<exists>k \<ge> p_next w. w' = w\<lparr>p_next := k\<rparr>)"

lemma bump_same: "w\<lparr>p_next := p_next w\<rparr> = (w :: 'a store_scheme)"
  by (cases w) simp

lemma does_nothing_same: "\<not> NT_SUCCESS st \<Longrightarrow> does_nothing w st w"
  by (auto simp: does_nothing_def bump_same intro!: exI [of _ "p_next w"])

lemma bump_inv:
  assumes "store_inv {} {} H w" and "p_next w \<le> k"
  shows "store_inv {} {} H (w\<lparr>p_next := k\<rparr>)" "abs_store (w\<lparr>p_next := k\<rparr>) = abs_store w"
proof -
  show "store_inv {} {} H (w\<lparr>p_next := k\<rparr>)"
    by (rule store_inv_cong [OF assms(1)]) (use assms store_invD(5) [OF assms(1)] in simp_all)
  have "keeps w (w\<lparr>p_next := k\<rparr>)" by (rule keeps_cong) simp_all
  then show "abs_store (w\<lparr>p_next := k\<rparr>) = abs_store w" by (rule keeps_abs)
qed

lemma control_okE:
  assumes "control_ok w"
  obtains H where "store_inv {} {} H w" "g_WriterBusy w = 0"
  using assms by (auto simp: control_ok_def)

lemma client_op_total:
  assumes w: "control_ok w" and opn: "client_op opn"
  shows "\<exists>st w'. run_op ok (others sched) opn w = Some (st, w') \<and> does_op ok (others sched) opn w st w'"
proof -
  obtain H where inv: "store_inv {} {} H w" and free: "g_WriterBusy w = 0" by (rule control_okE [OF w])
  have "readable opn" using opn by (simp add: client_op_def)
  from threads.run_op_implements [OF inv free this, of ok sched] obtain st w' where
    "run_op ok (others sched) opn w = Some (st, w')" by blast
  then show ?thesis using opn by (auto simp: does_op_def bump_same intro!: exI [of _ "p_next w"])
qed

lemma bump_ok: "control_ok w \<Longrightarrow> p_next w \<le> k \<Longrightarrow> control_ok (w\<lparr>p_next := k\<rparr>)"
  using bump_inv by (fastforce simp: control_ok_def)

text \<open>The rules a client operation stores have the C type's shape.\<close>

lemma step_shape:
  assumes "client_op opn" and "op_check opn = STATUS_SUCCESS" and "op_step opn A = Inr A'"
    and "list_all rule_shape (a_rules A)"
  shows "list_all rule_shape (a_rules A')"
proof -
  have sorted: "list_all rule_shape (sort_key verdict_key rs) \<longleftrightarrow> list_all rule_shape rs" for rs by (simp add: list_all_iff)
  have enable: "list_all rule_shape (with_rule i (\<lambda>r. r\<lparr>r_enabled := e\<rparr>) rs) \<longleftrightarrow> list_all rule_shape rs" for i e rs
    by (induction rs) (simp_all add: with_rule_def rule_shape_def)
  have set: "list_all rule_shape (with_rule i (\<lambda>_. r) rs)" if "rule_shape r" "list_all rule_shape rs" for i r rs
    using that by (auto simp: list_all_iff with_rule_def)
  have keep: "list_all rule_shape (filter P rs)" if "list_all rule_shape rs" for P rs using that by (auto simp: list_all_iff)
  show ?thesis
    using assms
    by (cases opn) (auto simp: client_op_def op_rules_def published_def sorted enable set keep Let_def
        validate_success split: if_splits option.splits)
qed

text \<open>A writer that changes the abstract store has committed its step.\<close>

lemma implements_step:
  assumes "implements ok opn w st w'" and "abs_store w' \<noteq> abs_store w"
  shows "\<exists>A A'. st = STATUS_SUCCESS \<and> op_check opn = STATUS_SUCCESS \<and> abs_store w = Some A \<and>
    op_step opn A = Inr A' \<and> abs_store w' = Some A'"
proof -
  have check: "op_check opn = STATUS_SUCCESS" "SkRuleStoreWritable w" and
      "\<exists>A. abs_store w = Some A \<and> (case op_step opn A of Inl e \<Rightarrow> st = e \<and> abs_store w' = abs_store w
        | Inr A' \<Rightarrow> commits ok w st w' A')"
    using assms by (auto simp: implements_def split: if_splits sum.splits)
  then obtain A where A: "abs_store w = Some A" "case op_step opn A of Inl e \<Rightarrow> st = e \<and> abs_store w' = abs_store w
      | Inr A' \<Rightarrow> commits ok w st w' A'" by blast
  show ?thesis
  proof (cases "op_step opn A")
    case (Inl e)
    then show ?thesis using A assms(2) by simp
  next
    case (Inr A')
    then show ?thesis using A assms(2) check by (auto simp: commits_def)
  qed
qed

lemma does_op_ok:
  assumes w: "control_ok w" and d: "does_op ok (others sched) opn w st w'"
  shows "control_ok w'"
proof -
  obtain k where k: "p_next w \<le> k" "run_op ok (others sched) opn (w\<lparr>p_next := k\<rparr>) = Some (st, w')" and opn: "client_op opn"
    using d by (auto simp: does_op_def)
  let ?w = "w\<lparr>p_next := k\<rparr>"
  have ok: "control_ok ?w" by (rule bump_ok [OF w k(1)])
  obtain H where inv: "store_inv {} {} H ?w" and free: "g_WriterBusy ?w = 0" by (rule control_okE [OF ok])
  have "readable opn" using opn by (simp add: client_op_def)
  from threads.run_op_implements [OF inv free this, of ok sched] k(2) obtain H' where
    r: "store_inv {} {} H' w'" "g_WriterBusy w' = 0" "implements ok opn ?w st w'" by auto
  have shape: "list_all rule_shape (a_rules A)" if "abs_store ?w = Some A" for A
    using that ok by (simp add: control_ok_def)
  have "list_all rule_shape (a_rules B)" if B: "abs_store w' = Some B" for B
  proof (cases "abs_store w' = abs_store ?w")
    case True
    then show ?thesis using B shape by simp
  next
    case False
    from implements_step [OF r(3) this] obtain A A' where "op_check opn = STATUS_SUCCESS" "abs_store ?w = Some A"
      "op_step opn A = Inr A'" "abs_store w' = Some A'" by blast
    then show ?thesis using step_shape [OF opn] shape B by auto
  qed
  then show ?thesis using r(1,2) by (auto simp: control_ok_def)
qed

definition modifies ::
    "(nat \<Rightarrow> bool) \<Rightarrow> ('a control_scheme \<Rightarrow> 'a control_scheme) \<Rightarrow> ioctl_call \<Rightarrow> 'a control_scheme
     \<Rightarrow> (ntstatus \<times> ioctl_call \<times> 'a control_scheme) option \<Rightarrow> bool" where
  "modifies ok slp c w res \<longleftrightarrow> (\<exists>st w'. res = Some (st, c, w') \<and>
     (does_nothing w st w' \<or> (\<exists>opn. does_op ok slp opn w st w')))"

lemma modifies_refused: "\<not> NT_SUCCESS st \<Longrightarrow> modifies ok slp c w (Some (st, c, w))"
  by (auto simp: modifies_def does_nothing_same)

lemma modifies_op:
  assumes "control_ok w" and "client_op opn"
  shows "modifies ok (others sched) c w (do { (st, w) \<leftarrow> run_op ok (others sched) opn w; Some (st, c, w) })"
  using client_op_total [OF assms, of ok sched] by (auto simp: modifies_def)

lemma length_payload: "call_ok c \<Longrightarrow> length (payload c) = unat (c_payloadLen c)"
  by (auto simp: payload_def call_ok_def)

lemma add_or_update_modifies:
  assumes w: "control_ok w" and c: "call_ok c"
  shows "modifies ok (others sched) c w (skCmdAddOrUpdateRule ok (others sched) isUpdate c w)"
proof -
  have "unat (c_payloadLen c) \<le> length (payload c)" using length_payload [OF c] by simp
  then show ?thesis
  proof (cases rule: validate_wire_cases)
    case bad
    then show ?thesis by (simp add: skCmdAddOrUpdateRule_def modifies_refused)
  next
    case (ok n r)
    let ?op = "if isUpdate then OpUpdate (Some r) else OpAdd (Some r)"
    have "client_op ?op" using ok(5) by (simp add: client_op_def op_rules_def)
    note op = modifies_op [OF w this, of ok sched c]
    show ?thesis
    proof (cases "n = c_payloadLen c")
      case True
      then show ?thesis using ok op by (cases isUpdate) (simp_all add: skCmdAddOrUpdateRule_def)
    next
      case False
      then show ?thesis using ok by (simp add: skCmdAddOrUpdateRule_def modifies_refused)
    qed
  qed
qed

lemma delete_modifies:
  assumes w: "control_ok w" and c: "call_ok c"
  shows "modifies ok (others sched) c w (skCmdDeleteRule ok (others sched) c w)"
proof (cases "c_payloadLen c = 8")
  case True
  then obtain i where i: "get64 0 (payload c) = Some i" using get_some(3) [of 0 "payload c"] length_payload [OF c] by auto
  have "client_op (OpDelete i)" by (simp add: client_op_def op_rules_def)
  then show ?thesis using True i modifies_op [OF w, of "OpDelete i" ok sched c] by (simp add: skCmdDeleteRule_def)
qed (simp add: skCmdDeleteRule_def modifies_refused)

lemma clear_modifies:
  assumes w: "control_ok w"
  shows "modifies ok (others sched) c w (do { (st, w) \<leftarrow> SkRuleStoreClear ok (others sched) w; Some (st, c, w) })"
  using modifies_op [OF w, of OpClear ok sched c] by (simp add: client_op_def op_rules_def)

lemma set_policy_modifies:
  assumes w: "control_ok w" and c: "call_ok c"
  shows "modifies ok (others sched) c w (skCmdSetDefaultPolicy ok (others sched) c w)"
proof (cases "c_payloadLen c = 4")
  case True
  then obtain p where p: "get32 0 (payload c) = Some p" using get_some(2) [of 0 "payload c"] length_payload [OF c] by auto
  have "client_op (OpSetDefaultPolicy p)" by (simp add: client_op_def op_rules_def)
  then show ?thesis
    using True p modifies_op [OF w, of "OpSetDefaultPolicy p" ok sched c]
    by (simp add: skCmdSetDefaultPolicy_def modifies_refused)
qed (simp add: skCmdSetDefaultPolicy_def modifies_refused)

lemma replace_parsed_modifies:
  assumes w: "control_ok w" and k: "p_next w \<le> k" and len: "unat bytes \<le> length (drop 16 (payload c))"
    and temp: "c_temp c = 0" and cnt: "rules \<longleftrightarrow> cnt \<noteq> 0" "cnt \<le> SK_RULE_MAX"
  shows "modifies ok (others sched) c w
    (replace_parsed ok (others sched) rules cnt bytes v (c\<lparr>c_temp := (if rules then 1 else 0)\<rparr>) (w\<lparr>p_next := k\<rparr>))"
proof -
  let ?c = "c\<lparr>c_temp := (if rules then 1 else 0)\<rparr>" and ?w = "w\<lparr>p_next := k\<rparr>"
  have p: "payload ?c = payload c" by (simp add: payload_def)
  have c: "c\<lparr>c_temp := 0\<rparr> = c" using temp by (cases c) simp
  have free: "FreeTemp rules ?c = Some c" using c by (simp add: FreeTemp_def)
  have idle: "does_nothing w STATUS_INVALID_PARAMETER ?w" using k by (auto simp: does_nothing_def)
  from len show ?thesis
  proof (cases rule: parse_rules_cases [of _ _ "unat cnt"])
    case bad
    then have "replace_parsed ok (others sched) rules cnt bytes v ?c ?w = Some (STATUS_INVALID_PARAMETER, c, ?w)"
      by (simp add: replace_parsed_def p free)
    with idle show ?thesis unfolding modifies_def by blast
  next
    case (ok rs rest)
    let ?op = "OpReplace (if rules then Some rs else None) cnt v"
    have client: "client_op ?op"
      using ok(2,3) by (auto simp: client_op_def op_rules_def replace_list_def)
    from client_op_total [OF bump_ok [OF w k] client, of ok sched] obtain st w' where
      run: "run_op ok (others sched) ?op ?w = Some (st, w')" by blast
    then have "does_op ok (others sched) ?op w st w'" using client k by (auto simp: does_op_def)
    then show ?thesis
      using ok run idle by (cases "rest = 0") (auto simp: replace_parsed_def p free modifies_def)
  qed
qed

lemma replace_modifies:
  assumes w: "control_ok w" and c: "call_ok c"
  shows "modifies ok (others sched) c w (skCmdReplaceRuleset ok (others sched) c w)"
proof (cases "c_payloadLen c < 16")
  case True
  then show ?thesis by (simp add: skCmdReplaceRuleset_def modifies_refused)
next
  case False
  have len: "16 \<le> length (payload c)" using False length_payload [OF c] by (simp add: word_less_nat_alt)
  then obtain n bytes v where g: "get32 0 (payload c) = Some n" "get32 4 (payload c) = Some bytes" "get64 8 (payload c) = Some v"
    using get_some(2) [of 0 "payload c"] get_some(2) [of 4 "payload c"] get_some(3) [of 8 "payload c"] by auto
  let ?r = "skCmdReplaceRuleset ok (others sched) c w"
  consider (refuse) "?r = Some (STATUS_INVALID_PARAMETER, c, w)"
    | (nomem) "?r = Some (STATUS_INSUFFICIENT_RESOURCES, c, w\<lparr>p_next := Suc (p_next w)\<rparr>)"
    | (parse) k where "p_next w \<le> k" "n \<le> SK_RULE_MAX" "16 + ucast bytes = (ucast (c_payloadLen c) :: u64)"
      "?r = replace_parsed ok (others sched) (n \<noteq> 0) n bytes v (c\<lparr>c_temp := (if n \<noteq> 0 then 1 else 0)\<rparr>) (w\<lparr>p_next := k\<rparr>)"
  proof -
    have c0: "c\<lparr>c_temp := 0\<rparr> = c" "c_temp c = 0" using c by (cases c; simp add: call_ok_def)+
    show thesis
    proof (cases "n > SK_RULE_MAX \<or> bytes > SK_REPLACE_MAX_BYTES \<or> 16 + ucast bytes \<noteq> (ucast (c_payloadLen c) :: u64) \<or>
        n \<noteq> 0 \<and> (ucast n :: u64) * of_nat SIZEOF_WIRE > ucast bytes")
      case True
      then show thesis using False g by (intro refuse) (auto simp: skCmdReplaceRuleset_def)
    next
      case ok: False
      then have cond: "n \<le> SK_RULE_MAX" "16 + ucast bytes = (ucast (c_payloadLen c) :: u64)" by auto
      show thesis
      proof (cases "n = 0")
        case True
        then show thesis using False g ok cond c0 bump_same [of w]
          by (intro parse [of "p_next w"]) (simp_all add: skCmdReplaceRuleset_def c0(1))
      next
        case n: False
        show thesis
        proof (cases "ok (p_next w)")
          case True
          then show thesis using False g ok cond c0 n
            by (intro parse [of "Suc (p_next w)"]) (simp_all add: skCmdReplaceRuleset_def AllocTemp_def)
        next
          case nomem: False
          then show thesis using False g ok cond c0 n that(2)
            by (simp add: skCmdReplaceRuleset_def AllocTemp_def)
        qed
      qed
    qed
  qed
  then show ?thesis
  proof cases
    case refuse
    then show ?thesis by (simp add: modifies_refused)
  next
    case nomem
    then show ?thesis by (auto simp: modifies_def does_nothing_def intro!: exI [of _ "Suc (p_next w)"])
  next
    case (parse k)
    have "16 + unat bytes = unat (c_payloadLen c)"
    proof -
      have "unat (16 + ucast bytes :: u64) = 16 + unat bytes"
        using unsigned_less [of bytes, where ?'a = nat] by (simp add: unat_word_ariths)
      then show ?thesis using parse(3) by (metis unat_casts(1))
    qed
    then have "unat bytes \<le> length (drop 16 (payload c))" using length_payload [OF c] by simp
    from replace_parsed_modifies [OF w parse(1) this _ refl parse(2), of ok sched v] parse(4) c
    show ?thesis by (simp add: call_ok_def)
  qed
qed

section \<open>The dispatch\<close>

text \<open>What a command may do to the state.\<close>

definition effect ::
    "(nat \<Rightarrow> bool) \<Rightarrow> ('a control_scheme \<Rightarrow> 'a control_scheme) \<Rightarrow> u16 \<Rightarrow> 'a control_scheme \<Rightarrow> ntstatus
     \<Rightarrow> 'a control_scheme \<Rightarrow> bool" where
  "effect ok slp cmd w st w' \<longleftrightarrow>
     (if skIsModifyCommand cmd then does_nothing w st w' \<or> (\<exists>opn. does_op ok slp opn w st w') else w' = w)"

lemma run_command_result:
  fixes w :: "'a control_scheme"
  assumes w: "control_ok w" and c: "call_ok c" and ring: "ring_ok w"
  shows "\<exists>st c' w'. run_command ok pad (others sched) cmd c w = Some (st, c', w') \<and> answers c st c' \<and>
    effect ok (others sched) cmd w st w'"
proof -
  obtain H where inv: "store_inv {} {} H w" and free: "g_WriterBusy w = 0" by (rule control_okE [OF w])
  have query: ?thesis if "\<not> skIsModifyCommand cmd" "run_command ok pad (others sched) cmd c w = r"
      "\<exists>st c'. r = Some (st, c', w) \<and> answers c st c'" for r
    using that by (auto simp: effect_def)
  have modify: ?thesis if "skIsModifyCommand cmd" "run_command ok pad (others sched) cmd c w = r"
      "modifies ok (others sched) c w r" for r
    using that answers_same [OF c] by (auto simp: effect_def modifies_def)
  note defs = run_command_def skIsModifyCommand_def
  have none: "run_command ok pad (others sched) cmd c w = Some (STATUS_INVALID_DEVICE_REQUEST, c, w)" "\<not> skIsModifyCommand cmd"
    if "cmd \<notin> {SkCmdQueryCapabilities, SkCmdGetRuleVersion, SkCmdAddRule, SkCmdUpdateRule, SkCmdDeleteRule, SkCmdEnumRules,
      SkCmdReplaceRuleset, SkCmdClearRules, SkCmdSetDefaultPolicy, SkCmdGetStats, SkCmdFlushEvents}"
    using that by (simp_all add: defs)
  consider "cmd = SkCmdQueryCapabilities" | "cmd = SkCmdGetRuleVersion" | "cmd = SkCmdAddRule" | "cmd = SkCmdUpdateRule"
    | "cmd = SkCmdDeleteRule" | "cmd = SkCmdEnumRules" | "cmd = SkCmdReplaceRuleset" | "cmd = SkCmdClearRules"
    | "cmd = SkCmdSetDefaultPolicy" | "cmd = SkCmdGetStats" | "cmd = SkCmdFlushEvents"
    | (other) "run_command ok pad (others sched) cmd c w = Some (STATUS_INVALID_DEVICE_REQUEST, c, w)" "\<not> skIsModifyCommand cmd"
    using none by blast
  then show ?thesis
  proof cases
    case 1 then show ?thesis by (intro query [OF _ refl]) (simp_all add: defs query_capabilities_answers [OF c])
  next
    case 2 then show ?thesis by (intro query [OF _ refl]) (simp_all add: defs get_rule_version_answers [OF c inv free])
  next
    case 3 then show ?thesis by (intro modify [OF _ refl]) (simp_all add: defs add_or_update_modifies [OF w c])
  next
    case 4 then show ?thesis by (intro modify [OF _ refl]) (simp_all add: defs add_or_update_modifies [OF w c])
  next
    case 5 then show ?thesis by (intro modify [OF _ refl]) (simp_all add: defs delete_modifies [OF w c])
  next
    case 6 then show ?thesis by (intro query [OF _ refl]) (simp_all add: defs enum_rules_answers [OF c w])
  next
    case 7 then show ?thesis by (intro modify [OF _ refl]) (simp_all add: defs replace_modifies [OF w c])
  next
    case 8 then show ?thesis by (intro modify [OF _ refl]) (simp_all add: defs clear_modifies [OF w])
  next
    case 9 then show ?thesis by (intro modify [OF _ refl]) (simp_all add: defs set_policy_modifies [OF w c])
  next
    case 10 then show ?thesis by (intro query [OF _ refl]) (simp_all add: defs get_stats_answers [OF c])
  next
    case 11 then show ?thesis by (intro query [OF _ refl]) (simp_all add: defs flush_events_answers [OF c ring])
  next
    case other then show ?thesis using query [OF _ other(1)] answers_same [OF c] by simp
  qed
qed

lemma echo_if_room_result:
  assumes "call_ok d" and "c_out c = c_out d" "c_outLen c = c_outLen d" "length (c_buf c) = length (c_buf d)"
  shows "\<exists>i c'. skEchoIfRoom c = Some (i, c') \<and> length (c_buf c') = length (c_buf d) \<and>
    (i = 0 \<or> c_out d \<and> i \<le> ucast (c_outLen d))"
proof (cases "c_out c \<and> of_nat SIZEOF_HEADER \<le> c_outLen c")
  case True
  then have "SIZEOF_HEADER \<le> length (c_buf c)" using assms by (auto simp: call_ok_def word_le_nat_alt)
  moreover have "(24 :: u64) \<le> ucast (c_outLen d)" using True assms(3) word_le_ucast [of 24 "c_outLen d"] by simp
  ultimately show ?thesis using True assms by (simp add: skEchoIfRoom_def echo_in)
next
  case False
  then show ?thesis using assms by (auto simp: skEchoIfRoom_def)
qed

lemma run_call_result:
  fixes w :: "'a control_scheme"
  assumes w: "control_ok w" and c: "call_ok c" and ring: "ring_ok w"
  shows "\<exists>k w'. run_call ok pad (others sched) cmd c w = Some (k, w') \<and> length (k_buf k) = length (c_buf c) \<and>
    (NT_SUCCESS (k_status k) \<longrightarrow> k_information k = 0 \<or> c_out c \<and> k_information k \<le> ucast (c_outLen c)) \<and>
    effect ok (others sched) cmd w (k_status k) w'"
proof -
  from run_command_result [OF assms, of ok pad sched cmd] obtain st c' w' where
    r: "run_command ok pad (others sched) cmd c w = Some (st, c', w')" "answers c st c'" "effect ok (others sched) cmd w st w'"
    by blast
  obtain i c2 where e: "skEchoIfRoom c' = Some (i, c2)" "length (c_buf c2) = length (c_buf c)"
      "i = 0 \<or> c_out c \<and> i \<le> ucast (c_outLen c)"
    using echo_if_room_result [OF c, of c'] r(2) by (auto simp: answers_def)
  show ?thesis
    using r e by (auto simp: run_call_def skComplete_def answers_def)
qed

lemma effect_ok:
  "control_ok w \<Longrightarrow> effect ok (others sched) cmd w st w' \<Longrightarrow> control_ok w'"
  by (auto simp: effect_def does_nothing_def intro: bump_ok does_op_ok split: if_splits)

text \<open>The lengths the framework reports lie within the system buffer.\<close>

definition request_ok :: "request \<Rightarrow> bool" where
  "request_ok rq \<longleftrightarrow> (NT_SUCCESS (rq_inStatus rq) \<longrightarrow> unat (rq_inLen rq) \<le> length (rq_buf rq)) \<and>
     (NT_SUCCESS (rq_outStatus rq) \<and> rq_out rq \<longrightarrow> unat (rq_outLen rq) \<le> length (rq_buf rq))"

lemma check_header_result:
  assumes "SIZEOF_HEADER \<le> length (rq_buf rq)"
  obtains (refuse) st where "check_header code rq w = Some (Inl st)" "\<not> NT_SUCCESS st"
    | (command) cmd where "check_header code rq w = Some (Inr cmd)" "skIsModifyCommand cmd \<longrightarrow> request_privileged rq w"
proof -
  obtain a b c d where g: "get32 0 (rq_buf rq) = Some a" "get16 4 (rq_buf rq) = Some b" "get32 8 (rq_buf rq) = Some c"
      "get16 6 (rq_buf rq) = Some d"
    using assms get_some(2) [of 0 "rq_buf rq"] get_some(1) [of 4 "rq_buf rq"] get_some(2) [of 8 "rq_buf rq"]
      get_some(1) [of 6 "rq_buf rq"] by auto
  define r where "r = the (check_header code rq w)"
  have r: "check_header code rq w = Some r" by (simp add: r_def check_header_def g Let_def)
  have "(\<exists>st. r = Inl st \<and> \<not> NT_SUCCESS st) \<or> (\<exists>cmd. r = Inr cmd \<and> (skIsModifyCommand cmd \<longrightarrow> request_privileged rq w))"
    by (auto simp: r_def check_header_def g Let_def)
  then show thesis using that r by blast
qed

text \<open>The branches of the dispatch: a refusal, or the switch on a call that is in order.\<close>

lemma dispatch_cases:
  assumes rq: "request_ok rq"
  obtains (refuse) st where "SkIoctlEvtDeviceControl ok pad slp rq outLen code w = Some (skComplete st 0 (rq_buf rq), w)"
      "\<not> NT_SUCCESS st"
    | (call) cmd c where "SkIoctlEvtDeviceControl ok pad slp rq outLen code w = run_call ok pad slp cmd c w"
      "call_ok c" "c_buf c = rq_buf rq" "c_out c \<longleftrightarrow> outLen > 0" "outLen > 0 \<Longrightarrow> ucast (c_outLen c) \<le> rq_outLen rq"
      "check_header code rq w = Some (Inr cmd)" "g_ControlGateOpen w" "ShRuntimeIsActive w"
      "unat (c_payloadLen c) = unat (rq_inLen rq) - SIZEOF_HEADER"
proof -
  let ?r = "SkIoctlEvtDeviceControl ok pad slp rq outLen code w"
  consider (early) st where "?r = Some (skComplete st 0 (rq_buf rq), w)" "\<not> NT_SUCCESS st"
    | (passed) "g_ControlGateOpen w" "ShRuntimeIsActive w" "rq_code rq = code" "NT_SUCCESS (rq_inStatus rq)"
      "\<not> rq_inLen rq < of_nat SIZEOF_HEADER" "\<not> rq_inLen rq > 0xFFFFFFFF"
  proof -
    let ?st = "if \<not> g_ControlGateOpen w \<or> \<not> ShRuntimeIsActive w then STATUS_DEVICE_NOT_READY
      else if rq_code rq \<noteq> code then STATUS_INVALID_DEVICE_REQUEST
      else if \<not> NT_SUCCESS (rq_inStatus rq) then rq_inStatus rq else STATUS_BUFFER_TOO_SMALL"
    show thesis
    proof (cases "g_ControlGateOpen w \<and> ShRuntimeIsActive w \<and> rq_code rq = code \<and> NT_SUCCESS (rq_inStatus rq) \<and>
        \<not> rq_inLen rq < of_nat SIZEOF_HEADER \<and> \<not> rq_inLen rq > 0xFFFFFFFF")
      case True
      then show thesis by (intro passed) simp_all
    next
      case False
      then have "?r = Some (skComplete ?st 0 (rq_buf rq), w)" by (auto simp: SkIoctlEvtDeviceControl_def)
      then show thesis by (rule early) simp
    qed
  qed
  then show thesis
  proof cases
    case early
    then show thesis by (rule that(1))
  next
    case passed
    then have len: "24 \<le> unat (rq_inLen rq)" "unat (rq_inLen rq) \<le> length (rq_buf rq)"
      using rq by (auto simp: request_ok_def word_less_nat_alt)
    have "SIZEOF_HEADER \<le> length (rq_buf rq)" using len by simp
    then show thesis
    proof (cases rule: check_header_result [of _ code w])
      case (refuse st)
      then show thesis using passed that(1) [of st] by (simp add: SkIoctlEvtDeviceControl_def)
    next
      case (command cmd)
      show thesis
      proof (cases "outLen > 0 \<and> (\<not> NT_SUCCESS (rq_outStatus rq) \<or> \<not> rq_out rq)")
        case True
        then show thesis using passed command
          by (intro that(1) [of "if NT_SUCCESS (rq_outStatus rq) then STATUS_INVALID_PARAMETER else rq_outStatus rq"])
            (simp_all add: SkIoctlEvtDeviceControl_def)
      next
        case out: False
        define R where "R = (if outLen = 0 then 0 else if rq_outLen rq > 0xFFFFFFFF then 0xFFFFFFFF else rq_outLen rq)"
        let ?c = "\<lparr>c_buf = rq_buf rq, c_payloadLen = ucast (rq_inLen rq) - of_nat SIZEOF_HEADER,
            c_out = (outLen > 0), c_outLen = ucast R, c_information = 0, c_temp = 0\<rparr>"
        have run: "SkIoctlEvtDeviceControl ok pad slp rq outLen code w = run_call ok pad slp cmd ?c w"
          using passed command out by (auto simp: SkIoctlEvtDeviceControl_def Let_def R_def)
        have small: "unat (rq_inLen rq) < 2 ^ 32" using passed(6) by (simp add: word_less_nat_alt)
        have pay: "unat (ucast (rq_inLen rq) - 24 :: u32) = unat (rq_inLen rq) - 24"
          using len(1) small by (simp add: unat_sub word_le_nat_alt)
        have real: "unat (ucast R :: u32) = unat R" "outLen > 0 \<Longrightarrow> R \<le> rq_outLen rq"
          by (auto simp: R_def word_less_nat_alt word_le_nat_alt not_less)
        have "call_ok ?c"
          using len real out rq pay by (auto simp: call_ok_def request_ok_def word_le_nat_alt)
        moreover have "ucast (ucast R :: u32) = R" using real(1) by (simp add: word_unat_eq_iff)
        ultimately show thesis
          using run passed(1,2) command(1) real(2) pay by (intro that(2) [of cmd ?c]) simp_all
      qed
    qed
  qed
qed

section \<open>Properties\<close>

lemma dispatch_result:
  fixes w :: "'a control_scheme"
  assumes w: "control_ok w" and ring: "ring_ok w" and rq: "request_ok rq"
  shows "\<exists>k w'. SkIoctlEvtDeviceControl ok pad (others sched) rq outLen code w = Some (k, w') \<and> control_ok w' \<and>
    length (k_buf k) = length (rq_buf rq) \<and>
    (NT_SUCCESS (k_status k) \<longrightarrow> k_information k \<le> (if outLen = 0 then 0 else rq_outLen rq)) \<and>
    (\<not> request_privileged rq w \<or> \<not> g_ControlGateOpen w \<or> \<not> ShRuntimeIsActive w \<longrightarrow> w' = w) \<and>
    (w' = w \<or> does_nothing w (k_status k) w' \<or> (\<exists>opn. does_op ok (others sched) opn w (k_status k) w'))"
  using rq
proof (cases rule: dispatch_cases [of rq ok pad "others sched" outLen code w])
  case (refuse st)
  then show ?thesis using w by (simp add: skComplete_def)
next
  case (call cmd c)
  from run_call_result [OF w call(2) ring, of ok pad sched cmd] obtain k w' where
    r: "run_call ok pad (others sched) cmd c w = Some (k, w')" "length (k_buf k) = length (c_buf c)"
      "NT_SUCCESS (k_status k) \<longrightarrow> k_information k = 0 \<or> c_out c \<and> k_information k \<le> ucast (c_outLen c)"
      "effect ok (others sched) cmd w (k_status k) w'" by blast
  have priv: "skIsModifyCommand cmd \<longrightarrow> request_privileged rq w"
    using call(6) by (auto simp: check_header_def Let_def bind_eq_Some_conv split: if_splits)
  then have "(\<not> request_privileged rq w \<or> \<not> g_ControlGateOpen w \<or> \<not> ShRuntimeIsActive w \<longrightarrow> w' = w) \<and>
    (w' = w \<or> does_nothing w (k_status k) w' \<or> (\<exists>opn. does_op ok (others sched) opn w (k_status k) w'))"
    using r(4) call(7,8) by (auto simp: effect_def split: if_splits)
  moreover have "NT_SUCCESS (k_status k) \<longrightarrow> k_information k \<le> (if outLen = 0 then 0 else rq_outLen rq)"
    using r(3) call(4,5) by (auto intro: order_trans)
  ultimately show ?thesis using r(1,2) call(1,3) effect_ok [OF w r(4)] by auto
qed

section \<open>A concrete driver\<close>

text \<open>The store of one rule, an open gate, a privileged handle (0) and one without privilege (1).\<close>

definition demo_control :: control where
  "demo_control = wfp.extend (image_wfp\<lparr>g_State := ShinkenActive, p_next := 3, p_snaps := demo_snaps,
       p_arrays := [2 \<mapsto> [demo_rule]], g_Current := Some 1, g_RollbackSlot := Some 0, g_StoreInited := True\<rparr>)
     \<lparr>g_ControlGateOpen = True, g_ControlReady = True, g_SkDequeueThread = Some 0, g_SkDequeueStop = 0,
      g_SkDequeueDoorbell = False, g_SkDequeueStopEvent = False,
      p_files = [0 \<mapsto> \<lparr>x_privileged = True, x_counted = True\<rparr>, 1 \<mapsto> \<lparr>x_privileged = False, x_counted = True\<rparr>]\<rparr>"

lemma demo_control_sel [simp]:
  "p_next demo_control = 3" "p_snaps demo_control = demo_snaps" "p_arrays demo_control = [2 \<mapsto> [demo_rule]]"
  "g_Current demo_control = Some 1" "g_RollbackSlot demo_control = Some 0" "g_RetireList demo_control = []"
  "g_WriterBusy demo_control = 0" "g_StoreInited demo_control" "\<not> g_StoreClosed demo_control"
  "g_State demo_control = ShinkenActive" "g_RateTable demo_control = replicate SK_RATE_TABLE_SIZE zero_entry"
  "g_ControlGateOpen demo_control" "ShRuntimeIsActive demo_control" "p_files demo_control =
     [0 \<mapsto> \<lparr>x_privileged = True, x_counted = True\<rparr>, 1 \<mapsto> \<lparr>x_privileged = False, x_counted = True\<rparr>]"
  "ring_ok demo_control"
  by (simp_all add: demo_control_def image_wfp_def image_flows_def image_telemetry_def image_evq_def image_store_def
      image_engine_def wfp.defs flow.defs telemetry.defs evq.defs store.defs engine.defs ShRuntimeIsActive_def ring_ok_def)

lemma demo_control_abs: "abs_store demo_control = Some demo_abs"
  by (rule demo_part) simp_all

lemma demo_control_ok: "control_ok demo_control"
proof -
  have "store_inv {} {} (\<lambda>_. 0) demo_control" by (rule demo_part) simp_all
  moreover have "rule_shape demo_rule" by (simp add: demo_rule_def rule_shape_def zero_rule_def)
  ultimately show ?thesis by (auto simp: control_ok_def demo_control_abs demo_abs_def)
qed

definition blank_request :: "nat \<Rightarrow> request" where
  "blank_request file = \<lparr>rq_file = Some file, rq_code = 0, rq_inStatus = STATUS_SUCCESS, rq_inLen = 64,
     rq_outStatus = STATUS_SUCCESS, rq_out = True, rq_outLen = 48, rq_buf = replicate 64 0xFF\<rparr>"

lemma blank_request_ok: "request_ok (blank_request file)"
  by (simp add: blank_request_def request_ok_def)





end
