(* ===== verification/IoctlClient.thy ===== *)
theory IoctlClient
  imports IoctlDispatch
begin

text \<open>
  The control protocol end to end: what a client writes into a request (control/protocol.h) is
  the operation of the rule store the driver performs, and what ENUM_RULES answers are the
  rules of the store.
\<close>

section \<open>What a client sends\<close>

datatype client_command =
    ClientAdd "rule \<times> u16 list"
  | ClientUpdate "rule \<times> u16 list"
  | ClientDelete u64
  | ClientReplace "(rule \<times> u16 list) list" u64
  | ClientClear
  | ClientSetDefaultPolicy u32

text \<open>The macro \<open>SK_IOCTL_CODE\<close>: \<open>CTL_CODE\<close> of the device type, METHOD_BUFFERED, FILE_ANY_ACCESS.\<close>

definition SK_IOCTL_CODE :: "u16 \<Rightarrow> u32" where
  "SK_IOCTL_CODE cmd = push_bit 16 0x9C40 OR push_bit 14 0 OR push_bit 2 (SK_IOCTL_FUNCTION_BASE + ucast cmd) OR 0"

fun command_code :: "client_command \<Rightarrow> u16" where
  "command_code (ClientAdd _) = SkCmdAddRule"
| "command_code (ClientUpdate _) = SkCmdUpdateRule"
| "command_code (ClientDelete _) = SkCmdDeleteRule"
| "command_code (ClientReplace _ _) = SkCmdReplaceRuleset"
| "command_code ClientClear = SkCmdClearRules"
| "command_code (ClientSetDefaultPolicy _) = SkCmdSetDefaultPolicy"

fun command_payload :: "(nat \<Rightarrow> u8) \<Rightarrow> client_command \<Rightarrow> u8 list" where
  "command_payload pad (ClientAdd x) = wire_bytes pad x"
| "command_payload pad (ClientUpdate x) = wire_bytes pad x"
| "command_payload pad (ClientDelete i) = le_bytes 8 (unat i)"
| "command_payload pad (ClientReplace xs v) = le_bytes 4 (length xs) @ le_bytes 4 (length (area_bytes pad xs)) @
     le_bytes 8 (unat v) @ area_bytes pad xs"
| "command_payload pad ClientClear = []"
| "command_payload pad (ClientSetDefaultPolicy p) = le_bytes 4 (unat p)"

text \<open>What the command asks the store to do.\<close>

fun command_op :: "client_command \<Rightarrow> store_op" where
  "command_op (ClientAdd x) = OpAdd (Some (wire_rule x))"
| "command_op (ClientUpdate x) = OpUpdate (Some (wire_rule x))"
| "command_op (ClientDelete i) = OpDelete i"
| "command_op (ClientReplace xs v) = OpReplace (if xs = [] then None else Some (map wire_rule xs)) (of_nat (length xs)) v"
| "command_op ClientClear = OpClear"
| "command_op (ClientSetDefaultPolicy p) = OpSetDefaultPolicy p"

fun command_fits :: "(nat \<Rightarrow> u8) \<Rightarrow> client_command \<Rightarrow> bool" where
  "command_fits pad (ClientAdd x) = wire_ok x"
| "command_fits pad (ClientUpdate x) = wire_ok x"
| "command_fits pad (ClientReplace xs v) =
     (list_all wire_ok xs \<and> length xs \<le> 4096 \<and> length (area_bytes pad xs) \<le> 1048576)"
| "command_fits pad (ClientSetDefaultPolicy p) = (p = SkVerdictPermit \<or> p = SkVerdictBlock)"
| "command_fits pad _ = True"

text \<open>The request: header (\<open>gap\<close>: its padding), payload, and what else the system buffer holds.\<close>

definition client_header :: "u8 list \<Rightarrow> u64 \<Rightarrow> u16 \<Rightarrow> nat \<Rightarrow> u8 list" where
  "client_header gap requestId cmd n = le_bytes 4 n @ le_bytes 2 1 @ le_bytes 2 (unat cmd) @ le_bytes 4 0 @
     gap @ le_bytes 8 (unat requestId)"

definition client_request ::
    "(nat \<Rightarrow> u8) \<Rightarrow> u8 list \<Rightarrow> u64 \<Rightarrow> nat \<Rightarrow> client_command \<Rightarrow> u8 list \<Rightarrow> u64 \<Rightarrow> request" where
  "client_request pad gap requestId file m rest outLen =
     (let n = SIZEOF_HEADER + length (command_payload pad m)
      in \<lparr>rq_file = Some file, rq_code = SK_IOCTL_CODE (command_code m), rq_inStatus = STATUS_SUCCESS,
          rq_inLen = of_nat n, rq_outStatus = STATUS_SUCCESS, rq_out = True, rq_outLen = outLen,
          rq_buf = client_header gap requestId (command_code m) n @ command_payload pad m @ rest\<rparr>)"

section \<open>The driver reads it back\<close>

lemma length_client_header [simp]: "length gap = 4 \<Longrightarrow> length (client_header gap i cmd n) = SIZEOF_HEADER"
  by (simp add: client_header_def)

lemma header_fields:
  assumes "length gap = 4" and "n < 2 ^ 32"
  shows "get32 0 (client_header gap i cmd n @ xs) = Some (of_nat n)"
    "get16 4 (client_header gap i cmd n @ xs) = Some 1"
    "get16 6 (client_header gap i cmd n @ xs) = Some cmd"
    "get32 8 (client_header gap i cmd n @ xs) = Some 0"
  using assms by (simp_all add: client_header_def get32_def get16_def peek_def at_skip at_here le_val_bytes del: append_assoc le_bytes.simps)
    (simp_all add: at_skip at_here le_val_bytes del: le_bytes.simps)

lemma command_function: "drop_bit 2 (SK_IOCTL_CODE (command_code m)) AND 0xFFF = SK_IOCTL_FUNCTION_BASE + ucast (command_code m)"
  by (cases m; simp only: command_code.simps; code_simp)

lemma payload_length:
  assumes "command_fits pad m"
  shows "length (command_payload pad m) \<le> 1048592"
  using assms length_wire_bytes [of _ pad] by (cases m) (auto simp: wire_ok_def)

lemma client_check:
  assumes gap: "length gap = 4" and fits: "command_fits pad m" and priv: "request_privileged (client_request pad gap i file m rest outLen) w"
  shows "check_header (SK_IOCTL_CODE (command_code m)) (client_request pad gap i file m rest outLen) w = Some (Inr (command_code m))"
proof -
  have n: "24 + length (command_payload pad m) < 2 ^ 32" using payload_length [OF fits] by simp
  have "ucast (of_nat (24 + length (command_payload pad m)) :: u32) = (of_nat (24 + length (command_payload pad m)) :: u64)"
    using n by (simp add: word_unat_eq_iff unat_of_nat del: of_nat_add)
  moreover have "command_code m < SkCmdMax" by (cases m) simp_all
  moreover have "request_privileged (client_request pad gap i file m rest outLen) w" by (rule priv)
  ultimately show ?thesis
    using header_fields [OF gap n] command_function [of m]
    by (simp add: check_header_def client_request_def Let_def not_le del: of_nat_add)
qed

lemma wire_rule_shape: "wire_ok x \<Longrightarrow> rule_shape (wire_rule x)"
  by (cases x) (auto simp: wire_ok_def wire_rule_def rule_shape_def)

lemma command_op_client:
  assumes "command_fits pad m"
  shows "client_op (command_op m)"
proof (cases m)
  case (ClientReplace xs v)
  then have "unat (of_nat (length xs) :: u32) = length xs" using assms by (simp add: unat_of_nat)
  then show ?thesis
    using assms ClientReplace wire_rule_shape
    by (auto simp: client_op_def op_rules_def replace_list_def list_all_iff)
qed (use assms wire_rule_shape in \<open>auto simp: client_op_def op_rules_def\<close>)

text \<open>What a command has done: its operation, or nothing for want of memory.\<close>

definition performed ::
    "(nat \<Rightarrow> bool) \<Rightarrow> ('a control_scheme \<Rightarrow> 'a control_scheme) \<Rightarrow> store_op \<Rightarrow> 'a control_scheme \<Rightarrow> ntstatus
     \<Rightarrow> 'a control_scheme \<Rightarrow> bool" where
  "performed ok slp opn w st w' \<longleftrightarrow>
     (\<exists>n \<in> {p_next w, Suc (p_next w)}. run_op ok slp opn (w\<lparr>p_next := n\<rparr>) = Some (st, w')) \<or>
     st = STATUS_INSUFFICIENT_RESOURCES \<and> \<not> ok (p_next w) \<and> w' = w\<lparr>p_next := Suc (p_next w)\<rparr>"

lemma performed_run: "run_op ok slp opn w = Some (st, w') \<Longrightarrow> performed ok slp opn w st w'"
  by (simp add: performed_def bump_same)

lemma replace_fields:
  assumes "length a = 4" "length b = 4" "length v = 8"
  shows "get32 0 (a @ b @ v @ xs) = Some (of_nat (le_val a))" "get32 4 (a @ b @ v @ xs) = Some (of_nat (le_val b))"
    "get64 8 (a @ b @ v @ xs) = Some (of_nat (le_val v))" "drop 16 (a @ b @ v @ xs) = xs"
  using assms by (simp_all add: get32_def get64_def peek_def at_skip at_here)

lemma client_replace_runs:
  fixes w :: "'a control_scheme"
  assumes w: "control_ok w" and c: "call_ok c" and fits: "command_fits pad (ClientReplace xs v)"
    and pay: "payload c = command_payload pad (ClientReplace xs v)"
  shows "\<exists>st c' w'. skCmdReplaceRuleset ok (others sched) c w = Some (st, c', w') \<and>
    performed ok (others sched) (command_op (ClientReplace xs v)) w st w'"
proof -
  let ?n = "of_nat (length xs) :: u32" and ?b = "of_nat (length (area_bytes pad xs)) :: u32"
  have small: "length xs \<le> 4096" "length (area_bytes pad xs) \<le> 1048576" and ok: "list_all wire_ok xs" using fits by auto
  then have nat: "unat ?n = length xs" "unat ?b = length (area_bytes pad xs)" by (simp_all add: unat_of_nat)
  have f: "get32 0 (payload c) = Some ?n" "get32 4 (payload c) = Some ?b" "get64 8 (payload c) = Some v"
      "drop 16 (payload c) = area_bytes pad xs"
    using replace_fields [of "le_bytes 4 (length xs)" "le_bytes 4 (length (area_bytes pad xs))" "le_bytes 8 (unat v)"
        "area_bytes pad xs"] small
    by (simp_all add: pay le_val_bytes del: le_bytes.simps)
  have len: "unat (c_payloadLen c) = 16 + length (area_bytes pad xs)" using length_payload [OF c] by (simp add: pay)
  have area: "SIZEOF_WIRE * length xs \<le> length (area_bytes pad xs)"
    using ok by (induction xs) (auto simp: area_bytes_def length_wire_bytes)
  have parse: "parse_rules (unat ?n) (area_bytes pad xs) ?b = Some (Inr (map wire_rule xs, 0))"
    using parse_area [OF ok, of pad ?b "[]"] by (simp add: nat)
  have cond: "\<not> c_payloadLen c < 16" "\<not> SK_RULE_MAX < ?n" "\<not> SK_REPLACE_MAX_BYTES < ?b" "?n = 0 \<longleftrightarrow> xs = []"
    using len nat small by (simp_all add: word_less_nat_alt flip: unat_eq_0)
  have size: "16 + ucast ?b = (ucast (c_payloadLen c) :: u64)"
    using len nat(2) small by (simp add: word_unat_eq_iff unat_word_ariths)
  have "unat ((ucast ?n :: u64) * 184) = 184 * length xs" using small nat(1) by (simp add: unat_word_ariths mult.commute)
  then have fit: "\<not> (ucast ?b :: u64) < ucast ?n * 184" using area nat(2) by (simp add: word_less_nat_alt)
  let ?op = "command_op (ClientReplace xs v)"
  have p: "payload (c\<lparr>c_temp := t\<rparr>) = payload c" for t by (simp add: payload_def)
  have run: "\<exists>st c' w'. replace_parsed ok (others sched) (xs \<noteq> []) ?n ?b v (c\<lparr>c_temp := (if xs = [] then 0 else 1)\<rparr>) (w\<lparr>p_next := k\<rparr>) =
      Some (st, c', w') \<and> run_op ok (others sched) ?op (w\<lparr>p_next := k\<rparr>) = Some (st, w')" if "p_next w \<le> k" for k
    using client_op_total [OF bump_ok [OF w that] command_op_client [OF fits], of ok sched]
    by (auto simp: replace_parsed_def p f(4) parse FreeTemp_def)
  have c0: "c\<lparr>c_temp := 0\<rparr> = c" "c_temp c = 0" using c by (cases c; simp add: call_ok_def)+
  show ?thesis
  proof (cases "xs = []")
    case True
    then show ?thesis
      using run [of "p_next w"] cond size bump_same [of w] c0 f(1-3)
      by (auto simp: skCmdReplaceRuleset_def performed_def)
  next
    case False
    have "skCmdReplaceRuleset ok (others sched) c w = (if ok (p_next w)
        then replace_parsed ok (others sched) True ?n ?b v (c\<lparr>c_temp := 1\<rparr>) (w\<lparr>p_next := Suc (p_next w)\<rparr>)
        else Some (STATUS_INSUFFICIENT_RESOURCES, c, w\<lparr>p_next := Suc (p_next w)\<rparr>))"
      using False cond size fit c0 f(1-3) by (simp add: skCmdReplaceRuleset_def AllocTemp_def Let_def)
    then show ?thesis using run [of "Suc (p_next w)"] False by (cases "ok (p_next w)") (auto simp: performed_def)
  qed
qed

lemma client_runs:
  fixes w :: "'a control_scheme"
  assumes w: "control_ok w" and c: "call_ok c" and fits: "command_fits pad m" and pay: "payload c = command_payload pad m"
  shows "\<exists>st c' w'. run_command ok pad' (others sched) (command_code m) c w = Some (st, c', w') \<and>
    performed ok (others sched) (command_op m) w st w'"
proof -
  note len = length_payload [OF c]
  obtain st w' where run: "run_op ok (others sched) (command_op m) w = Some (st, w')"
    using client_op_total [OF w command_op_client [OF fits]] by blast
  note performed = performed_run [OF run]
  have wire: "skValidateWire (wire_bytes pad x) (c_payloadLen c) = Some (Inr (c_payloadLen c))"
      "skConvertWire (wire_bytes pad x) = Some (wire_rule x)"
    if "wire_ok x" "payload c = wire_bytes pad x" for x
    using wire_read_back [OF that(1), of pad "c_payloadLen c" "[]"] len that(2) by simp_all
  show ?thesis
  proof (cases m)
    case (ClientAdd x)
    then show ?thesis using run performed wire [of x] fits pay by (auto simp: run_command_def skCmdAddOrUpdateRule_def)
  next
    case (ClientUpdate x)
    then show ?thesis using run performed wire [of x] fits pay by (auto simp: run_command_def skCmdAddOrUpdateRule_def)
  next
    case (ClientDelete i)
    moreover have "c_payloadLen c = 8" using len pay ClientDelete by (simp add: word_unat_eq_iff)
    moreover have "get64 0 (le_bytes 8 (unat i)) = Some i"
      using at_here [of "le_bytes 8 (unat i)" 8 "[]"] by (simp add: get64_def peek_def del: le_bytes.simps)
    ultimately show ?thesis using run performed pay by (auto simp: run_command_def skCmdDeleteRule_def)
  next
    case (ClientReplace xs v)
    then show ?thesis
      using client_replace_runs [OF w c fits [unfolded ClientReplace] pay [unfolded ClientReplace], of ok sched]
      by (simp add: run_command_def)
  next
    case ClientClear
    then show ?thesis using run performed by (auto simp: run_command_def)
  next
    case (ClientSetDefaultPolicy p)
    moreover have "c_payloadLen c = 4" using len pay ClientSetDefaultPolicy by (simp add: word_unat_eq_iff)
    moreover have "get32 0 (le_bytes 4 (unat p)) = Some p"
      using at_here [of "le_bytes 4 (unat p)" 4 "[]"] by (simp add: get32_def peek_def del: le_bytes.simps)
    ultimately show ?thesis using run performed pay fits by (auto simp: run_command_def skCmdSetDefaultPolicy_def)
  qed
qed

text \<open>The call the dispatch builds for the request.\<close>

lemma client_dispatch:
  assumes gate: "g_ControlGateOpen w" "ShRuntimeIsActive w" and gap: "length gap = 4" and fits: "command_fits pad m"
    and priv: "p_files w file = Some ctx" "x_privileged ctx"
    and room: "unat outLen \<le> SIZEOF_HEADER + length (command_payload pad m @ rest)"
  obtains c where "call_ok c" "payload c = command_payload pad m"
    "SkIoctlEvtDeviceControl ok pad' slp (client_request pad gap i file m rest outLen) outLen (SK_IOCTL_CODE (command_code m)) w =
       run_call ok pad' slp (command_code m) c w"
proof -
  let ?rq = "client_request pad gap i file m rest outLen" and ?n = "SIZEOF_HEADER + length (command_payload pad m)"
  have n: "?n < 2 ^ 32" using payload_length [OF fits] by simp
  have u: "unat (of_nat ?n :: u64) = ?n" using n by (simp add: unat_of_nat del: of_nat_add)
  have "request_privileged ?rq w" using priv by (simp add: request_privileged_def client_request_def Let_def)
  note check = client_check [OF gap fits this]
  define R where "R = (if outLen = 0 then 0 else if outLen > 0xFFFFFFFF then 0xFFFFFFFF else outLen)"
  define c where "c = \<lparr>c_buf = rq_buf ?rq, c_payloadLen = ucast (of_nat ?n :: u64) - of_nat SIZEOF_HEADER,
      c_out = (outLen > 0), c_outLen = ucast R, c_information = 0, c_temp = 0\<rparr>"
  have pay: "unat (c_payloadLen c) = length (command_payload pad m)"
    using u n by (simp add: c_def unat_sub word_le_nat_alt del: of_nat_add)
  have real: "unat (ucast R :: u32) \<le> unat outLen"
    by (auto simp: R_def word_less_nat_alt not_less)
  have buf: "rq_buf ?rq = client_header gap i (command_code m) ?n @ command_payload pad m @ rest"
    by (simp add: client_request_def Let_def)
  have "call_ok c"
    using pay real room length_client_header [OF gap] unfolding call_ok_def
    by (simp add: c_def buf del: of_nat_add)
  moreover have "payload c = command_payload pad m"
    using length_client_header [OF gap] by (simp add: payload_def pay) (simp add: c_def buf)
  moreover have "SkIoctlEvtDeviceControl ok pad' slp ?rq outLen (SK_IOCTL_CODE (command_code m)) w =
      run_call ok pad' slp (command_code m) c w"
  proof -
    have "\<not> (of_nat ?n :: u64) < 24" "\<not> (0xFFFFFFFF :: u64) < of_nat ?n"
      using u n by (simp_all add: word_less_nat_alt del: of_nat_add)
    moreover have "rq_inLen ?rq = of_nat ?n" "rq_code ?rq = SK_IOCTL_CODE (command_code m)" "NT_SUCCESS (rq_inStatus ?rq)"
        "NT_SUCCESS (rq_outStatus ?rq)" "rq_out ?rq" "rq_outLen ?rq = outLen"
      by (simp_all add: client_request_def Let_def)
    ultimately show ?thesis
      using gate check by (simp add: SkIoctlEvtDeviceControl_def Let_def c_def R_def del: of_nat_add)
  qed
  ultimately show thesis by (rule that)
qed

section \<open>Properties\<close>



text \<open>C40: what ENUM_RULES answers, with room for it: the count, the version and every rule of the store in
  verdict order, each as a wire without a path. The four padding bytes behind the count are not
  written: they go back to the caller as the system buffer held them, also where the input has
  not reached (an input of 24 bytes ends before them).\<close>

theorem enum_rules_output:
  fixes w :: "'a control_scheme"
  assumes "control_ok w" and "abs_store w = Some A" and "call_ok c" and "c_out c" and "enum_total A \<le> c_outLen c"
  shows "\<exists>b. skCmdEnumRules pad slp c w = Some (STATUS_SUCCESS, c\<lparr>c_buf := b, c_information := ucast (enum_total A)\<rparr>, w) \<and>
    unat (enum_total A) = 40 + SIZEOF_WIRE * length (a_rules A) \<and>
    bytes_at 24 4 b = le_bytes 4 (length (a_rules A)) \<and> bytes_at 28 4 b = bytes_at 28 4 (c_buf c) \<and>
    bytes_at 32 8 b = le_bytes 8 (unat (a_version A)) \<and>
    bytes_at 40 (SIZEOF_WIRE * length (a_rules A)) b = area_bytes pad (enum_wires (a_rules A))"
proof -
  obtain H where inv: "store_inv {} {} H w" and free: "g_WriterBusy w = 0" by (rule control_okE [OF assms(1)])
  have shape: "list_all rule_shape (a_rules A)" using assms(1,2) by (simp add: control_ok_def)
  note total = enum_total_nat [OF inv assms(2)]
  have small: "length (a_rules A) \<le> 4096" using abs_store_ok [OF inv assms(2)] by (simp add: astore_ok_def content_ok_def)
  then have n: "unat (of_nat (length (a_rules A)) :: u32) = length (a_rules A)" by (simp add: unat_of_nat)
  have len: "40 + SIZEOF_WIRE * length (a_rules A) \<le> length (c_buf c)"
    using assms(3-5) total by (auto simp: call_ok_def word_le_nat_alt)
  have "\<not> c_outLen c < enum_total A" using assms(5) by simp
  then have "skCmdEnumRules pad slp c w =
      Some (STATUS_SUCCESS, c\<lparr>c_buf := enum_output pad A (c_buf c), c_information := ucast (enum_total A)\<rparr>, w)"
    using enum_rules_result [OF assms(3) inv free assms(2) shape, of pad slp] assms(4) by simp
  then show ?thesis
    using total len n length_enum_area [OF shape, of pad]
    by (intro exI [of _ "enum_output pad A (c_buf c)"])
      (simp add: enum_output_def poked_same poked_below poked_above echoed_above del: le_bytes.simps)
qed

theorem enum_rules_output_witness:
  "\<exists>c. skCmdEnumRules (\<lambda>_. 0) id \<lparr>c_buf = replicate 300 0xFF, c_payloadLen = 0, c_out = True, c_outLen = 300,
       c_information = 0, c_temp = 0\<rparr> demo_control = Some (STATUS_SUCCESS, c, demo_control) \<and>
     bytes_at 24 8 (c_buf c) = [1, 0, 0, 0, 0xFF, 0xFF, 0xFF, 0xFF]"
proof -
  let ?c = "\<lparr>c_buf = replicate 300 0xFF, c_payloadLen = 0, c_out = True, c_outLen = 300, c_information = 0, c_temp = 0\<rparr>"
  have "call_ok ?c" "enum_total demo_abs \<le> c_outLen ?c" by (simp_all add: call_ok_def enum_total_def demo_abs_def)
  from enum_rules_output [OF demo_control_ok demo_control_abs this(1) _ this(2), of "\<lambda>_. 0" id]
  obtain b where b: "skCmdEnumRules (\<lambda>_. 0) id ?c demo_control =
      Some (STATUS_SUCCESS, ?c\<lparr>c_buf := b, c_information := ucast (enum_total demo_abs)\<rparr>, demo_control)"
      "bytes_at 24 4 b = le_bytes 4 1" "bytes_at 28 4 b = bytes_at 28 4 (replicate 300 0xFF)"
    by (auto simp: demo_abs_def)
  have "bytes_at 24 8 b = bytes_at 24 4 b @ bytes_at 28 4 b"
    using take_add [of 4 4 "drop 24 b"] by (simp add: bytes_at_def add.commute)
  also have "\<dots> = [1, 0, 0, 0, 0xFF, 0xFF, 0xFF, 0xFF]"
    unfolding b(2,3) by code_simp
  finally show ?thesis using b(1) by simp
qed

end
