(* ===== verification/Device.thy ===== *)
theory Device
  imports Ioctl WfpTeardown
begin

text \<open>
  driver/device.c: the control device, its queue and its symbolic link. The framework (KMDF) is
  outside the repository: its calls are the record \<open>wdf\<close>, functions of the state they run in.
  A created device or queue is stored where the call's out-parameter points, also when the
  call fails. The configuration structures hold the callbacks of control/ioctl.c and constants;
  only the buffered I/O type they announce matters here, and it is built into \<open>Ioctl\<close>.
\<close>

record device = control +
  g_SkWdfDriver :: handle
  g_SkControlWdfDevice :: handle
  g_SkControlWdfQueue :: handle

record 'w wdf =
  wd_DriverCreate :: "'w \<Rightarrow> ntstatus \<times> handle \<times> 'w"
  wd_InitAllocate :: "handle \<Rightarrow> 'w \<Rightarrow> handle \<times> 'w"
  wd_AssignName :: "handle \<Rightarrow> 'w \<Rightarrow> ntstatus \<times> 'w"
  wd_InitFree :: "handle \<Rightarrow> 'w \<Rightarrow> 'w"
  wd_DeviceCreate :: "handle \<Rightarrow> 'w \<Rightarrow> ntstatus \<times> handle \<times> 'w"
  wd_QueueCreate :: "handle \<Rightarrow> 'w \<Rightarrow> ntstatus \<times> handle \<times> 'w"
  wd_SymbolicLink :: "handle \<Rightarrow> 'w \<Rightarrow> ntstatus \<times> 'w"
  wd_Finish :: "handle \<Rightarrow> 'w \<Rightarrow> 'w"
  wd_WdmObject :: "handle \<Rightarrow> 'w \<Rightarrow> handle"
  wd_ObjectDelete :: "handle \<Rightarrow> 'w \<Rightarrow> 'w"
  wd_ReadyNotify :: "handle \<Rightarrow> 'w \<Rightarrow> ntstatus \<times> 'w"
  wd_QueuePurge :: "handle \<Rightarrow> 'w \<Rightarrow> 'w"

definition SkDeviceDelete :: "'a device_scheme wdf \<Rightarrow> 'a device_scheme \<Rightarrow> 'a device_scheme" where
  "SkDeviceDelete W w =
     (if g_SkControlWdfDevice w \<noteq> NULL
      then (wd_ObjectDelete W (g_SkControlWdfDevice w) (w\<lparr>g_SkControlWdfQueue := NULL\<rparr>))
             \<lparr>g_SkControlWdfDevice := NULL\<rparr>
      else w)"

text \<open>After the device exists: queue, symbolic link, end of the initialisation.\<close>

definition finish_device ::
    "'a device_scheme wdf \<Rightarrow> 'a device_scheme \<Rightarrow> ntstatus \<times> handle \<times> 'a device_scheme" where
  "finish_device W w =
     (let (status, queue, w) = wd_QueueCreate W (g_SkControlWdfDevice w) w;
          w = w\<lparr>g_SkControlWdfQueue := queue\<rparr>
      in if status <s 0 then (status, NULL, SkDeviceDelete W w)
         else let (status, w) = wd_SymbolicLink W (g_SkControlWdfDevice w) w
              in if status <s 0 then (status, NULL, SkDeviceDelete W w)
                 else let w = wd_Finish W (g_SkControlWdfDevice w) w
                      in (STATUS_SUCCESS, wd_WdmObject W (g_SkControlWdfDevice w) w, w))"

text \<open>The result is the status and \<open>*wdmDeviceOut\<close>.\<close>

definition SkDeviceCreate ::
    "'a device_scheme wdf \<Rightarrow> 'a device_scheme \<Rightarrow> ntstatus \<times> handle \<times> 'a device_scheme" where
  "SkDeviceCreate W w =
     (let (deviceInit, w) = wd_InitAllocate W (g_SkWdfDriver w) w
      in if deviceInit = NULL then (STATUS_INSUFFICIENT_RESOURCES, NULL, w)
         else let (status, w) = wd_AssignName W deviceInit w
              in if status <s 0 then (status, NULL, wd_InitFree W deviceInit w)
                 else let (status, dev, w) = wd_DeviceCreate W deviceInit w;
                          w = w\<lparr>g_SkControlWdfDevice := dev\<rparr>
                      in if status <s 0 then (status, NULL, wd_InitFree W deviceInit w)
                         else finish_device W w)"

section \<open>What the framework holds\<close>

text \<open>
  \<open>ledger w\<close> are the device-inits and the devices that exist, \<open>globals\<close> what the driver stores of
  them. The documented behaviour of the framework: an allocation adds a new init; a creation
  that succeeds turns the init into a device, one that fails keeps the init and stores NULL; a
  free and a delete take theirs away; no call changes the driver's variables.
\<close>

type_synonym ledger = "handle set \<times> handle set"

definition globals :: "'a device_scheme \<Rightarrow> handle \<times> handle \<times> handle" where
  "globals w = (g_SkWdfDriver w, g_SkControlWdfDevice w, g_SkControlWdfQueue w)"

definition wdf_ok :: "('a device_scheme \<Rightarrow> ledger) \<Rightarrow> 'a device_scheme wdf \<Rightarrow> bool" where
  "wdf_ok ledger W \<longleftrightarrow>
     (\<forall>d w. let (h, v) = wd_InitAllocate W d w in globals v = globals w \<and> (h = NULL \<or> h \<notin> fst (ledger w)) \<and>
        ledger v = (if h = NULL then ledger w else apfst (insert h) (ledger w))) \<and>
     (\<forall>h w. let (st, v) = wd_AssignName W h w in globals v = globals w \<and> ledger v = ledger w) \<and>
     (\<forall>h w. globals (wd_InitFree W h w) = globals w \<and> ledger (wd_InitFree W h w) = apfst (\<lambda>s. s - {h}) (ledger w)) \<and>
     (\<forall>h w. let (st, d, v) = wd_DeviceCreate W h w in globals v = globals w \<and>
        (if st <s 0 then d = NULL \<and> ledger v = ledger w
         else d \<noteq> NULL \<and> d \<notin> snd (ledger w) \<and> ledger v = (fst (ledger w) - {h}, insert d (snd (ledger w))))) \<and>
     (\<forall>d w. let (st, q, v) = wd_QueueCreate W d w in globals v = globals w \<and> ledger v = ledger w) \<and>
     (\<forall>d w. let (st, v) = wd_SymbolicLink W d w in globals v = globals w \<and> ledger v = ledger w) \<and>
     (\<forall>d w. globals (wd_Finish W d w) = globals w \<and> ledger (wd_Finish W d w) = ledger w) \<and>
     (\<forall>d w. globals (wd_ObjectDelete W d w) = globals w \<and>
        ledger (wd_ObjectDelete W d w) = apsnd (\<lambda>s. s - {d}) (ledger w)) \<and>
     (\<forall>w h q. ledger (w\<lparr>g_SkControlWdfDevice := h\<rparr>) = ledger w \<and> ledger (w\<lparr>g_SkControlWdfQueue := q\<rparr>) = ledger w)"

lemma wdf_okD:
  assumes "wdf_ok ledger W"
  shows "wd_InitAllocate W d w = (h, v) \<Longrightarrow> globals v = globals w \<and> (h = NULL \<or> h \<notin> fst (ledger w)) \<and>
      ledger v = (if h = NULL then ledger w else apfst (insert h) (ledger w))"
    and "wd_AssignName W h w = (st, v) \<Longrightarrow> globals v = globals w \<and> ledger v = ledger w"
    and "globals (wd_InitFree W h w) = globals w \<and> ledger (wd_InitFree W h w) = apfst (\<lambda>s. s - {h}) (ledger w)"
    and "wd_DeviceCreate W h w = (st, d, v) \<Longrightarrow> globals v = globals w \<and>
      (if st <s 0 then d = NULL \<and> ledger v = ledger w
       else d \<noteq> NULL \<and> d \<notin> snd (ledger w) \<and> ledger v = (fst (ledger w) - {h}, insert d (snd (ledger w))))"
    and "wd_QueueCreate W d w = (st, q, v) \<Longrightarrow> globals v = globals w \<and> ledger v = ledger w"
    and "wd_SymbolicLink W d w = (st, v) \<Longrightarrow> globals v = globals w \<and> ledger v = ledger w"
    and "globals (wd_Finish W d w) = globals w \<and> ledger (wd_Finish W d w) = ledger w"
    and "globals (wd_ObjectDelete W d w) = globals w \<and> ledger (wd_ObjectDelete W d w) = apsnd (\<lambda>s. s - {d}) (ledger w)"
    and "ledger (w\<lparr>g_SkControlWdfDevice := h\<rparr>) = ledger w" and "ledger (w\<lparr>g_SkControlWdfQueue := q\<rparr>) = ledger w"
proof -
  note D = assms [unfolded wdf_ok_def]
  show "wd_InitAllocate W d w = (h, v) \<Longrightarrow> globals v = globals w \<and> (h = NULL \<or> h \<notin> fst (ledger w)) \<and>
      ledger v = (if h = NULL then ledger w else apfst (insert h) (ledger w))"
    using D [THEN conjunct1, THEN spec, of d, THEN spec, of w] by simp
  note D = D [THEN conjunct2]
  show "wd_AssignName W h w = (st, v) \<Longrightarrow> globals v = globals w \<and> ledger v = ledger w"
    using D [THEN conjunct1, THEN spec, of h, THEN spec, of w] by simp
  note D = D [THEN conjunct2]
  show "globals (wd_InitFree W h w) = globals w \<and> ledger (wd_InitFree W h w) = apfst (\<lambda>s. s - {h}) (ledger w)"
    using D by blast
  note D = D [THEN conjunct2]
  show "wd_DeviceCreate W h w = (st, d, v) \<Longrightarrow> globals v = globals w \<and>
      (if st <s 0 then d = NULL \<and> ledger v = ledger w
       else d \<noteq> NULL \<and> d \<notin> snd (ledger w) \<and> ledger v = (fst (ledger w) - {h}, insert d (snd (ledger w))))"
    using D [THEN conjunct1, THEN spec, of h, THEN spec, of w] by simp
  note D = D [THEN conjunct2]
  show "wd_QueueCreate W d w = (st, q, v) \<Longrightarrow> globals v = globals w \<and> ledger v = ledger w"
    using D [THEN conjunct1, THEN spec, of d, THEN spec, of w] by simp
  note D = D [THEN conjunct2]
  show "wd_SymbolicLink W d w = (st, v) \<Longrightarrow> globals v = globals w \<and> ledger v = ledger w"
    using D [THEN conjunct1, THEN spec, of d, THEN spec, of w] by simp
  note D = D [THEN conjunct2]
  show "globals (wd_Finish W d w) = globals w \<and> ledger (wd_Finish W d w) = ledger w" using D by blast
  show "globals (wd_ObjectDelete W d w) = globals w \<and> ledger (wd_ObjectDelete W d w) = apsnd (\<lambda>s. s - {d}) (ledger w)"
    using D by blast
  show "ledger (w\<lparr>g_SkControlWdfDevice := h\<rparr>) = ledger w" and "ledger (w\<lparr>g_SkControlWdfQueue := q\<rparr>) = ledger w"
    using D by blast+
qed

lemma globals_update [simp]:
  "globals (w\<lparr>g_SkControlWdfDevice := h\<rparr>) = (g_SkWdfDriver w, h, g_SkControlWdfQueue w)"
  "globals (w\<lparr>g_SkControlWdfQueue := q\<rparr>) = (g_SkWdfDriver w, g_SkControlWdfDevice w, q)"
  by (simp_all add: globals_def)

lemma globalsD:
  assumes "globals v = (d, h, q)"
  shows "g_SkWdfDriver v = d" "g_SkControlWdfDevice v = h" "g_SkControlWdfQueue v = q"
  using assms by (simp_all add: globals_def)

lemma device_delete:
  assumes "wdf_ok ledger W" and "g_SkControlWdfDevice w \<noteq> NULL"
  shows "globals (SkDeviceDelete W w) = (g_SkWdfDriver w, NULL, NULL)"
    and "ledger (SkDeviceDelete W w) = apsnd (\<lambda>s. s - {g_SkControlWdfDevice w}) (ledger w)"
proof -
  let ?v = "w\<lparr>g_SkControlWdfQueue := NULL\<rparr>"
  note d = wdf_okD(8) [OF assms(1), of "g_SkControlWdfDevice w" ?v]
  show "globals (SkDeviceDelete W w) = (g_SkWdfDriver w, NULL, NULL)"
    using d assms(2) by (simp add: SkDeviceDelete_def globals_def)
  show "ledger (SkDeviceDelete W w) = apsnd (\<lambda>s. s - {g_SkControlWdfDevice w}) (ledger w)"
    using d assms(2) wdf_okD(9,10) [OF assms(1)] by (simp add: SkDeviceDelete_def)
qed

lemma finish_device_result:
  assumes W: "wdf_ok ledger W" and dev: "g_SkControlWdfDevice w \<noteq> NULL"
    and run: "finish_device W w = (st, wdm, v)"
  shows "g_SkWdfDriver v = g_SkWdfDriver w \<and> (if st <s 0
    then wdm = NULL \<and> g_SkControlWdfDevice v = NULL \<and> g_SkControlWdfQueue v = NULL \<and>
      ledger v = apsnd (\<lambda>s. s - {g_SkControlWdfDevice w}) (ledger w)
    else g_SkControlWdfDevice v = g_SkControlWdfDevice w \<and> ledger v = ledger w)"
proof -
  obtain st1 q w1 where q: "wd_QueueCreate W (g_SkControlWdfDevice w) w = (st1, q, w1)" by (rule prod_cases3)
  let ?w1 = "w1\<lparr>g_SkControlWdfQueue := q\<rparr>"
  note q' = wdf_okD(5) [OF W q]
  have w1: "g_SkControlWdfDevice ?w1 = g_SkControlWdfDevice w" "g_SkWdfDriver ?w1 = g_SkWdfDriver w" "ledger ?w1 = ledger w"
    using q' wdf_okD(10) [OF W] by (simp_all add: globals_def)
  obtain st2 w2 where l: "wd_SymbolicLink W (g_SkControlWdfDevice w) ?w1 = (st2, w2)" by fastforce
  note l' = wdf_okD(6) [OF W l]
  have w2: "g_SkControlWdfDevice w2 = g_SkControlWdfDevice w" "g_SkWdfDriver w2 = g_SkWdfDriver w" "ledger w2 = ledger w"
    using l' w1 by (simp_all add: globals_def)
  have del: "g_SkWdfDriver (SkDeviceDelete W u) = g_SkWdfDriver w \<and> g_SkControlWdfDevice (SkDeviceDelete W u) = NULL \<and>
      g_SkControlWdfQueue (SkDeviceDelete W u) = NULL \<and>
      ledger (SkDeviceDelete W u) = apsnd (\<lambda>s. s - {g_SkControlWdfDevice w}) (ledger w)"
    if "g_SkControlWdfDevice u = g_SkControlWdfDevice w" "g_SkWdfDriver u = g_SkWdfDriver w" "ledger u = ledger w" for u
    using device_delete [OF W, of u] that dev globalsD [of "SkDeviceDelete W u"] by simp
  let ?f = "wd_Finish W (g_SkControlWdfDevice w) w2"
  have "finish_device W w = (if st1 <s 0 then (st1, NULL, SkDeviceDelete W ?w1)
      else if st2 <s 0 then (st2, NULL, SkDeviceDelete W w2)
      else (STATUS_SUCCESS, wd_WdmObject W (g_SkControlWdfDevice ?f) ?f, ?f))"
    using w1 w2 by (simp add: finish_device_def q l Let_def)
  then show ?thesis
    using run del [OF w1] del [OF w2] wdf_okD(7) [OF W, of "g_SkControlWdfDevice w" w2] w2
    by (auto simp: globals_def word_sless_alt split: if_splits)
qed

text \<open>The creation of the control device leaves nothing behind when it fails: whichever call of the
  framework refuses, the device-init and the device it has made are gone again (freed or
  deleted, exactly those), no WDM device is reported, and both globals are NULL. When it
  succeeds there is exactly one more device, the one the global holds, and no device-init is left.\<close>

theorem device_create_balanced:
  assumes "wdf_ok ledger W" and "g_SkControlWdfDevice w = NULL" and "g_SkControlWdfQueue w = NULL"
  shows "\<exists>st wdm v. SkDeviceCreate W w = (st, wdm, v) \<and>
    (st <s 0 \<longrightarrow> wdm = NULL \<and> g_SkControlWdfDevice v = NULL \<and> g_SkControlWdfQueue v = NULL \<and> ledger v = ledger w) \<and>
    (\<not> st <s 0 \<longrightarrow> g_SkControlWdfDevice v \<noteq> NULL \<and> g_SkControlWdfDevice v \<notin> snd (ledger w) \<and>
       ledger v = apsnd (insert (g_SkControlWdfDevice v)) (ledger w))"
proof -
  obtain i w1 where i: "wd_InitAllocate W (g_SkWdfDriver w) w = (i, w1)" by fastforce
  note i' = wdf_okD(1) [OF assms(1) i]
  obtain st2 w2 where n: "wd_AssignName W i w1 = (st2, w2)" by fastforce
  note n' = wdf_okD(2) [OF assms(1) n]
  obtain st3 d w3 where c: "wd_DeviceCreate W i w2 = (st3, d, w3)" by (rule prod_cases3)
  let ?w3 = "w3\<lparr>g_SkControlWdfDevice := d\<rparr>"
  note c' = wdf_okD(4) [OF assms(1) c]
  obtain st4 wdm v where f: "finish_device W ?w3 = (st4, wdm, v)" by (rule prod_cases3)
  have run: "SkDeviceCreate W w =
      (if i = NULL then (STATUS_INSUFFICIENT_RESOURCES, NULL, w1)
       else if st2 <s 0 then (st2, NULL, wd_InitFree W i w2)
       else if st3 <s 0 then (st3, NULL, wd_InitFree W i ?w3) else (st4, wdm, v))"
    by (simp add: SkDeviceCreate_def i n c f)
  have fresh: "apfst (\<lambda>s. s - {i}) (apfst (insert i) (ledger w)) = ledger w" if "i \<noteq> NULL" using that i' by (cases "ledger w") simp
  consider "i = NULL" | "i \<noteq> NULL" "st2 <s 0" | "i \<noteq> NULL" "\<not> st2 <s 0" "st3 <s 0"
    | "i \<noteq> NULL" "\<not> st2 <s 0" "\<not> st3 <s 0" by blast
  then show ?thesis
  proof cases
    case 1
    then show ?thesis using i' assms(2,3) by (simp add: run globals_def word_sless_alt)
  next
    case 2
    then show ?thesis
      using i' n' assms(2,3) wdf_okD(3) [OF assms(1), of i w2] fresh by (simp add: run globals_def)
  next
    case 3
    then show ?thesis
      using i' n' c' assms(2,3) wdf_okD(3) [OF assms(1), of i ?w3] wdf_okD(9) [OF assms(1)] fresh
      by (simp add: run globals_def)
  next
    case 4
    then have d: "d \<noteq> NULL" "d \<notin> snd (ledger w)" "ledger ?w3 = apsnd (insert d) (ledger w)"
      using i' n' c' fresh wdf_okD(9) [OF assms(1)] by (cases "ledger w"; simp)+
    then have "apsnd (\<lambda>s. s - {d}) (ledger ?w3) = ledger w" by (cases "ledger w") simp
    then show ?thesis
      using 4 d finish_device_result [OF assms(1) _ f] by (auto simp: run split: if_splits)
  qed
qed


section \<open>A concrete framework\<close>

text \<open>\<open>kd_fail\<close> is the call that fails: 1 the name, 2 the device, 3 the queue, 4 the link.\<close>

record kmdf = device +
  kd_inits :: "handle set"
  kd_devices :: "handle set"
  kd_fail :: nat

definition kmdf_status :: "nat \<Rightarrow> kmdf \<Rightarrow> ntstatus" where
  "kmdf_status n w = (if kd_fail w = n then STATUS_INSUFFICIENT_RESOURCES else STATUS_SUCCESS)"

definition kmdf_api :: "kmdf wdf" where
  "kmdf_api = \<lparr>wd_DriverCreate = (\<lambda>w. (STATUS_SUCCESS, 1, w)),
     wd_InitAllocate = (\<lambda>d w. if 2 \<in> kd_inits w then (NULL, w) else (2, w\<lparr>kd_inits := insert 2 (kd_inits w)\<rparr>)),
     wd_AssignName = (\<lambda>h w. (kmdf_status 1 w, w)),
     wd_InitFree = (\<lambda>h w. w\<lparr>kd_inits := kd_inits w - {h}\<rparr>),
     wd_DeviceCreate = (\<lambda>h w. if kd_fail w = 2 \<or> 3 \<in> kd_devices w then (STATUS_INSUFFICIENT_RESOURCES, NULL, w)
        else (STATUS_SUCCESS, 3, w\<lparr>kd_inits := kd_inits w - {h}, kd_devices := insert 3 (kd_devices w)\<rparr>)),
     wd_QueueCreate = (\<lambda>d w. (kmdf_status 3 w, if kd_fail w = 3 then NULL else 4, w)),
     wd_SymbolicLink = (\<lambda>d w. (kmdf_status 4 w, w)),
     wd_Finish = (\<lambda>d w. w), wd_WdmObject = (\<lambda>d w. 5),
     wd_ObjectDelete = (\<lambda>d w. w\<lparr>kd_devices := kd_devices w - {d}\<rparr>),
     wd_ReadyNotify = (\<lambda>q w. (STATUS_SUCCESS, w)), wd_QueuePurge = (\<lambda>q w. w)\<rparr>"

definition kmdf_ledger :: "kmdf \<Rightarrow> ledger" where
  "kmdf_ledger w = (kd_inits w, kd_devices w)"

lemma kmdf_ok: "wdf_ok kmdf_ledger kmdf_api"
  by (simp add: wdf_ok_def kmdf_api_def kmdf_ledger_def globals_def Let_def kmdf_status_def word_sless_alt)

definition image_device :: device where
  "image_device = wfp.extend image_wfp
     \<lparr>g_ControlGateOpen = False, g_ControlReady = False, g_SkDequeueThread = None, g_SkDequeueStop = 0,
      g_SkDequeueDoorbell = False, g_SkDequeueStopEvent = False, p_files = Map.empty,
      g_SkWdfDriver = 1, g_SkControlWdfDevice = NULL, g_SkControlWdfQueue = NULL\<rparr>"

definition kmdf_start :: "nat \<Rightarrow> kmdf" where
  "kmdf_start n = device.extend image_device \<lparr>kd_inits = {}, kd_devices = {}, kd_fail = n\<rparr>"

theorem device_create_balanced_witness:
  "let v = snd (snd (SkDeviceCreate kmdf_api (kmdf_start 4))) in kd_inits v = {} \<and> kd_devices v = {}"
proof -
  have "g_SkControlWdfDevice (kmdf_start 4) = NULL" "g_SkControlWdfQueue (kmdf_start 4) = NULL"
      "kmdf_ledger (kmdf_start 4) = ({}, {})"
    by (simp_all add: kmdf_start_def image_device_def device.defs wfp.defs kmdf_ledger_def)
  moreover have "fst (SkDeviceCreate kmdf_api (kmdf_start 4)) <s 0"
    by (simp add: SkDeviceCreate_def finish_device_def kmdf_api_def kmdf_start_def kmdf_status_def image_device_def device.defs wfp.defs
        Let_def word_sless_alt)
  ultimately show ?thesis
    using device_create_balanced [OF kmdf_ok, of "kmdf_start 4"] by (auto simp: kmdf_ledger_def)
qed

end
