(* ===== verification/ControlLife.thy ===== *)
theory ControlLife
  imports Device IoctlDispatch "HOL-Library.Multiset"
begin

text \<open>
  The rest of control/ioctl.c: the file objects with their privilege and their part in the handle
  count, the consumer thread of the manual queue, and the start and stop of the control plane.
  The consumer and the quiescing thread run concurrently: \<open>dq_step\<close> interleaves their steps with
  the arrival and cancellation of requests in the framework's queue.
\<close>

section \<open>File objects\<close>

text \<open>
  The privilege of the caller: process 4, or an administrator's primary token. The token calls of
  the kernel are parameters; no token means not privileged.
\<close>

definition SkIoctlQueryCallerPrivileged ::
    "u64 \<Rightarrow> ('w \<Rightarrow> handle \<times> 'w) \<Rightarrow> (handle \<Rightarrow> 'w \<Rightarrow> bool) \<Rightarrow> (handle \<Rightarrow> 'w \<Rightarrow> 'w) \<Rightarrow> 'w \<Rightarrow> bool \<times> 'w" where
  "SkIoctlQueryCallerPrivileged pid reference isAdmin dereference w =
     (if pid = 4 then (True, w)
      else let (token, w) = reference w
           in if token \<noteq> NULL then (isAdmin token w, dereference token w) else (False, w))"

definition SkIoctlEvtFileCreate ::
    "('a control_scheme \<Rightarrow> bool \<times> 'a control_scheme) \<Rightarrow> nat \<Rightarrow> 'a control_scheme \<Rightarrow> ntstatus \<times> 'a control_scheme" where
  "SkIoctlEvtFileCreate query file w =
     (case p_files w file of
        None \<Rightarrow> (STATUS_SUCCESS, w)
      | Some ctx \<Rightarrow>
          let (privileged, w) = query w
          in (STATUS_SUCCESS, ShHandleOpen (w\<lparr>p_files := (p_files w)(file \<mapsto>
                \<lparr>x_privileged = privileged, x_counted = True\<rparr>)\<rparr>)))"

definition SkIoctlEvtFileCleanup :: "nat \<Rightarrow> 'a control_scheme \<Rightarrow> 'a control_scheme" where
  "SkIoctlEvtFileCleanup file w = w"

definition SkIoctlEvtFileClose :: "nat \<Rightarrow> 'a control_scheme \<Rightarrow> 'a control_scheme" where
  "SkIoctlEvtFileClose file w = w"

definition SkIoctlEvtFileDestroy :: "nat \<Rightarrow> 'a control_scheme \<Rightarrow> 'a control_scheme" where
  "SkIoctlEvtFileDestroy file w =
     (case p_files w file of
        None \<Rightarrow> w
      | Some ctx \<Rightarrow>
          if x_counted ctx then ShHandleClose (w\<lparr>p_files := (p_files w)(file \<mapsto> ctx\<lparr>x_counted := False\<rparr>)\<rparr>) else w)"

text \<open>
  The life of file objects as the framework drives it: it zeroes the context before the create
  callback and frees it after the destroy callback. \<open>None\<close> is an event the framework does not cause.
\<close>

datatype file_callback =
    FileCreate nat bool
  | FileCleanup nat
  | FileClose nat
  | FileDestroy nat

fun file_event :: "file_callback \<Rightarrow> 'a control_scheme \<Rightarrow> 'a control_scheme option" where
  "file_event (FileCreate f privileged) w =
     (if p_files w f \<noteq> None then None
      else Some (snd (SkIoctlEvtFileCreate (Pair privileged) f
             (w\<lparr>p_files := (p_files w)(f \<mapsto> \<lparr>x_privileged = False, x_counted = False\<rparr>)\<rparr>))))"
| "file_event (FileCleanup f) w = (if p_files w f = None then None else Some (SkIoctlEvtFileCleanup f w))"
| "file_event (FileClose f) w = (if p_files w f = None then None else Some (SkIoctlEvtFileClose f w))"
| "file_event (FileDestroy f) w =
     (if p_files w f = None then None
      else let w = SkIoctlEvtFileDestroy f w in Some (w\<lparr>p_files := (p_files w)(f := None)\<rparr>))"

fun file_events :: "file_callback list \<Rightarrow> 'a control_scheme \<Rightarrow> 'a control_scheme option" where
  "file_events [] w = Some w"
| "file_events (e # es) w = do { w \<leftarrow> file_event e w; file_events es w }"

text \<open>Every open handle is counted, and the count is the number of open handles.\<close>

definition handles_ok :: "'a control_scheme \<Rightarrow> bool" where
  "handles_ok w \<longleftrightarrow> finite (dom (p_files w)) \<and> (\<forall>f ctx. p_files w f = Some ctx \<longrightarrow> x_counted ctx) \<and>
     g_HandlesOpen w = of_nat (card (dom (p_files w)))"

lemma file_event_handles:
  assumes "handles_ok w" and "file_event e w = Some v"
  shows "handles_ok v"
proof (cases e)
  case (FileCreate f p)
  then have f: "f \<notin> dom (p_files w)" and v: "p_files v = (p_files w)(f \<mapsto> \<lparr>x_privileged = p, x_counted = True\<rparr>)"
      "g_HandlesOpen v = g_HandlesOpen w + 1"
    using assms(2) by (auto simp: SkIoctlEvtFileCreate_def ShHandleOpen_def split: if_splits)
  then show ?thesis using assms(1) by (simp add: handles_ok_def)
next
  case (FileDestroy f)
  then obtain ctx where ctx: "p_files w f = Some ctx" using assms(2) by (auto split: if_splits)
  then have "x_counted ctx" using assms(1) by (auto simp: handles_ok_def)
  then have v: "p_files v = (p_files w)(f := None)" "g_HandlesOpen v = g_HandlesOpen w - 1"
    using assms(2) FileDestroy ctx by (auto simp: SkIoctlEvtFileDestroy_def ShHandleClose_def)
  have "f \<in> dom (p_files w)" using ctx by auto
  then have "card (dom (p_files w)) = Suc (card (dom (p_files w) - {f}))"
    using assms(1) card.remove [of "dom (p_files w)" f] by (simp add: handles_ok_def)
  then show ?thesis using assms(1) v by (auto simp: handles_ok_def)
qed (use assms in \<open>auto simp: SkIoctlEvtFileCleanup_def SkIoctlEvtFileClose_def split: if_splits\<close>)

lemma file_events_handles: "handles_ok w \<Longrightarrow> file_events es w = Some v \<Longrightarrow> handles_ok v"
proof (induction es arbitrary: w)
  case (Cons e es)
  then obtain u where "file_event e w = Some u" "file_events es u = Some v" by (auto simp: bind_eq_Some_conv)
  with Cons file_event_handles show ?case by blast
qed simp

lemma file_event_privilege:
  assumes "file_event e w = Some v" and "p_files w f = Some ctx" and "p_files v f = Some ctx'"
  shows "x_privileged ctx' = x_privileged ctx"
  using assms
  by (cases e) (auto simp: SkIoctlEvtFileCreate_def SkIoctlEvtFileCleanup_def SkIoctlEvtFileClose_def SkIoctlEvtFileDestroy_def
      ShHandleOpen_def ShHandleClose_def Let_def split: if_splits option.splits)

lemma file_events_privilege:
  "file_events es w = Some v \<Longrightarrow> p_files w f = Some ctx \<Longrightarrow> FileDestroy f \<notin> set es \<Longrightarrow>
    \<exists>ctx'. p_files v f = Some ctx' \<and> x_privileged ctx' = x_privileged ctx"
proof (induction es arbitrary: w ctx)
  case (Cons e es)
  then obtain u where u: "file_event e w = Some u" "file_events es u = Some v" by (auto simp: bind_eq_Some_conv)
  have "p_files u f \<noteq> None"
    using u(1) Cons.prems(2,3)
    by (cases e) (auto simp: SkIoctlEvtFileCreate_def SkIoctlEvtFileCleanup_def SkIoctlEvtFileClose_def SkIoctlEvtFileDestroy_def
      ShHandleOpen_def ShHandleClose_def Let_def split: if_splits option.splits)
  then obtain c where c: "p_files u f = Some c" by blast
  then show ?case using Cons.IH [OF u(2) c] Cons.prems(3) file_event_privilege [OF u(1) Cons.prems(2) c] by auto
qed simp

text \<open>C34: the handle count the unload waits for is exact: after any sequence of file-object callbacks it is
  the number of file objects that exist, so it is zero exactly when there is none (with fewer
  than \<open>2 ^ 64\<close> of them). The privilege of a handle is the one decided at its creation for as
  long as it lives.\<close>

theorem handle_count_exact:
  assumes "handles_ok w" and "file_events es w = Some v"
  shows "handles_ok v \<and> ShHandlesOpen v = of_nat (card (dom (p_files v))) \<and>
    (card (dom (p_files v)) < 2 ^ 64 \<longrightarrow> (ShHandlesOpen v = 0) = (dom (p_files v) = {})) \<and>
    (\<forall>f ctx. p_files w f = Some ctx \<and> FileDestroy f \<notin> set es \<longrightarrow>
       (\<exists>ctx'. p_files v f = Some ctx' \<and> x_privileged ctx' = x_privileged ctx))"
proof -
  have ok: "handles_ok v" using file_events_handles [OF assms] .
  have "(of_nat (card (dom (p_files v))) :: u64) = 0 \<longleftrightarrow> dom (p_files v) = {}" if "card (dom (p_files v)) < 2 ^ 64"
  proof -
    have "(of_nat (card (dom (p_files v))) :: u64) = 0 \<longleftrightarrow> card (dom (p_files v)) = 0"
      using that by (simp add: word_unat_eq_iff unat_of_nat)
    then show ?thesis using ok by (simp add: handles_ok_def)
  qed
  then show ?thesis using ok file_events_privilege [OF assms(2)] by (simp add: handles_ok_def ShHandlesOpen_def)
qed

lemma demo_handles: "handles_ok (ShHandleOpen (ShHandleOpen demo_control))"
proof -
  have "g_HandlesOpen demo_control = 0"
    by (simp add: demo_control_def image_wfp_def image_flows_def image_telemetry_def image_evq_def image_store_def
      image_engine_def image_runtime_def wfp.defs flow.defs telemetry.defs evq.defs store.defs engine.defs runtime.defs)
  then show ?thesis by (auto simp: handles_ok_def ShHandleOpen_def)
qed

theorem handle_count_exact_witness:
  "\<exists>v. file_events [FileCreate 2 False, FileCleanup 0, FileDestroy 0, FileDestroy 2]
       (ShHandleOpen (ShHandleOpen demo_control)) = Some v \<and> handles_ok v \<and>
     map_option x_privileged (p_files v 1) = Some False"
proof -
  let ?es = "[FileCreate 2 False, FileCleanup 0, FileDestroy 0, FileDestroy 2]" and ?w = "ShHandleOpen (ShHandleOpen demo_control)"
  obtain v where v: "file_events ?es ?w = Some v"
    by (simp add: SkIoctlEvtFileCreate_def SkIoctlEvtFileCleanup_def SkIoctlEvtFileDestroy_def ShHandleOpen_def
        ShHandleClose_def Let_def)
  have w: "p_files ?w 1 = Some \<lparr>x_privileged = False, x_counted = True\<rparr>" "FileDestroy 1 \<notin> set ?es"
    by (simp_all add: ShHandleOpen_def)
  from handle_count_exact [OF demo_handles v]
  have "handles_ok v" "\<exists>ctx. p_files v 1 = Some ctx \<and> x_privileged ctx = False"
    using w by (blast, metis ioctl_context.select_convs(1))
  with v show ?thesis by auto
qed

section \<open>The consumer of the queue\<close>

text \<open>
  The consumer thread \<open>skDequeueThreadBody\<close> and the first half of \<open>SkControlQuiesce\<close>, step by step.
  A request is a number. \<open>dq_queue\<close> is what the framework's queue owns, \<open>dq_done\<close> the completions in
  their order, \<open>dq_arrived\<close> all requests there have ever been. The two events are auto-reset.
\<close>

datatype dq_pc =
    DqRetrieve
  | DqRetrieved nat
  | DqDispatching nat
  | DqDrained
  | DqWaiting
  | DqExited

datatype quiesce_pc =
    QzIdle
  | QzStopping
  | QzJoining
  | QzJoined
  | QzPurged

datatype fate =
    FateDispatched
  | FateNotReady
  | FatePurged
  | FateCancelled

record dq_state =
  dq_queue :: "nat list"
  dq_doorbell :: bool
  dq_stopEvent :: bool
  dq_stop :: bool
  dq_pc :: dq_pc
  dq_quiesce :: quiesce_pc
  dq_done :: "(nat \<times> fate) list"
  dq_arrived :: "nat list"

definition dq_complete :: "nat \<Rightarrow> fate \<Rightarrow> dq_state \<Rightarrow> dq_state" where
  "dq_complete r f s = s\<lparr>dq_done := dq_done s @ [(r, f)]\<rparr>"

text \<open>One step of the consumer; \<open>None\<close> when it has exited or waits on events that are not signalled.\<close>

definition dq_consumer :: "dq_state \<Rightarrow> dq_state option" where
  "dq_consumer s =
     (case dq_pc s of
        DqRetrieve \<Rightarrow> Some (case dq_queue s of
            [] \<Rightarrow> s\<lparr>dq_pc := DqDrained\<rparr>
          | r # rs \<Rightarrow> s\<lparr>dq_queue := rs, dq_pc := DqRetrieved r\<rparr>)
      | DqRetrieved r \<Rightarrow> Some (if dq_stop s then dq_complete r FateNotReady (s\<lparr>dq_pc := DqRetrieve\<rparr>)
            else s\<lparr>dq_pc := DqDispatching r\<rparr>)
      | DqDispatching r \<Rightarrow> Some (dq_complete r FateDispatched (s\<lparr>dq_pc := DqRetrieve\<rparr>))
      | DqDrained \<Rightarrow> Some (if dq_stop s then s\<lparr>dq_pc := DqExited\<rparr> else s\<lparr>dq_pc := DqWaiting\<rparr>)
      | DqWaiting \<Rightarrow> (if dq_doorbell s then Some (s\<lparr>dq_doorbell := False, dq_pc := DqRetrieve\<rparr>)
            else if dq_stopEvent s then Some (s\<lparr>dq_stopEvent := False, dq_pc := DqRetrieve\<rparr>)
            else None)
      | DqExited \<Rightarrow> None)"

inductive dq_step :: "dq_state \<Rightarrow> dq_state \<Rightarrow> bool" where
  Dq_consume: "dq_consumer s = Some t \<Longrightarrow> dq_step s t"
| Dq_wake_stop: "dq_pc s = DqWaiting \<Longrightarrow> dq_stopEvent s \<Longrightarrow>
    dq_step s (s\<lparr>dq_stopEvent := False, dq_pc := DqRetrieve\<rparr>)"
| Dq_timeout: "dq_pc s = DqWaiting \<Longrightarrow> dq_step s (s\<lparr>dq_pc := DqRetrieve\<rparr>)"
| Dq_arrive: "r \<notin> set (dq_arrived s) \<Longrightarrow> dq_quiesce s \<noteq> QzPurged \<Longrightarrow>
    dq_step s (s\<lparr>dq_queue := dq_queue s @ [r], dq_doorbell := dq_doorbell s \<or> dq_queue s = [],
      dq_arrived := r # dq_arrived s\<rparr>)"
| Dq_refused: "r \<notin> set (dq_arrived s) \<Longrightarrow> dq_quiesce s = QzPurged \<Longrightarrow>
    dq_step s (dq_complete r FatePurged (s\<lparr>dq_arrived := r # dq_arrived s\<rparr>))"
| Dq_cancel: "r \<in> set (dq_queue s) \<Longrightarrow>
    dq_step s (dq_complete r FateCancelled (s\<lparr>dq_queue := remove1 r (dq_queue s)\<rparr>))"
| Qz_stop: "dq_quiesce s = QzIdle \<Longrightarrow> dq_step s (s\<lparr>dq_stop := True, dq_quiesce := QzStopping\<rparr>)"
| Qz_signal: "dq_quiesce s = QzStopping \<Longrightarrow> dq_step s (s\<lparr>dq_stopEvent := True, dq_quiesce := QzJoining\<rparr>)"
| Qz_join: "dq_quiesce s = QzJoining \<Longrightarrow> dq_pc s = DqExited \<Longrightarrow> dq_step s (s\<lparr>dq_quiesce := QzJoined\<rparr>)"
| Qz_purge: "dq_quiesce s = QzJoined \<Longrightarrow>
    dq_step s (s\<lparr>dq_done := dq_done s @ map (\<lambda>r. (r, FatePurged)) (dq_queue s), dq_queue := [],
      dq_quiesce := QzPurged\<rparr>)"

text \<open>After \<open>SkControlInit\<close>: the queue may hold requests that came before the events existed.\<close>

definition dq_init :: "nat list \<Rightarrow> dq_state" where
  "dq_init rs = \<lparr>dq_queue = rs, dq_doorbell = False, dq_stopEvent = False, dq_stop = False, dq_pc = DqRetrieve,
     dq_quiesce = QzIdle, dq_done = [], dq_arrived = rs\<rparr>"

definition in_hand :: "dq_state \<Rightarrow> nat list" where
  "in_hand s = (case dq_pc s of DqRetrieved r \<Rightarrow> [r] | DqDispatching r \<Rightarrow> [r] | _ \<Rightarrow> [])"

definition dq_inv :: "dq_state \<Rightarrow> bool" where
  "dq_inv s \<longleftrightarrow> distinct (dq_arrived s) \<and>
     mset (dq_queue s) + mset (in_hand s) + mset (map fst (dq_done s)) = mset (dq_arrived s) \<and>
     (dq_pc s \<in> {DqDrained, DqWaiting} \<and> dq_queue s \<noteq> [] \<longrightarrow> dq_doorbell s) \<and>
     (dq_pc s = DqWaiting \<and> dq_quiesce s \<noteq> QzIdle \<and> dq_quiesce s \<noteq> QzStopping \<longrightarrow> dq_stopEvent s) \<and>
     (dq_stop s = (dq_quiesce s \<noteq> QzIdle)) \<and>
     (dq_pc s = DqExited \<longrightarrow> dq_stop s) \<and>
     (dq_quiesce s \<in> {QzJoined, QzPurged} \<longrightarrow> dq_pc s = DqExited) \<and>
     (dq_quiesce s = QzPurged \<longrightarrow> dq_queue s = [])"

lemma dq_init_inv: "distinct rs \<Longrightarrow> dq_inv (dq_init rs)"
  by (simp add: dq_inv_def dq_init_def in_hand_def)

lemmas dq_inv_defs = dq_inv_def in_hand_def dq_complete_def

lemma dq_consumer_inv:
  assumes "dq_inv s" and "dq_consumer s = Some t"
  shows "dq_inv t"
proof (cases "dq_pc s")
  case DqRetrieve
  then show ?thesis using assms by (cases "dq_queue s") (simp_all add: dq_consumer_def dq_inv_defs, fastforce+)
next
  case (DqRetrieved r)
  then show ?thesis using assms by (cases "dq_stop s") (simp_all add: dq_consumer_def dq_inv_defs, fastforce+)
next
  case (DqDispatching r)
  then show ?thesis using assms by (simp add: dq_consumer_def dq_inv_defs) fastforce
next
  case DqDrained
  then show ?thesis using assms by (cases "dq_stop s") (simp_all add: dq_consumer_def dq_inv_defs, fastforce+)
next
  case DqWaiting
  then show ?thesis
    using assms by (cases "dq_doorbell s"; cases "dq_stopEvent s") (simp_all add: dq_consumer_def dq_inv_defs, fastforce+)
next
  case DqExited
  then show ?thesis using assms by (simp add: dq_consumer_def)
qed

lemma dq_step_inv:
  assumes "dq_step s t" and "dq_inv s"
  shows "dq_inv t"
  using assms(1)
proof cases
  case Dq_consume
  then show ?thesis using dq_consumer_inv assms(2) by blast
next
  case (Dq_cancel r)
  define M where "M = mset (remove1 r (dq_queue s))"
  have "mset (dq_queue s) = add_mset r M" "mset (remove1 r (dq_queue s)) = M"
    using Dq_cancel(2) by (simp_all add: M_def)
  then have "mset (remove1 r (dq_queue s)) + mset (in_hand s) + mset (map fst (dq_done s @ [(r, FateCancelled)])) =
      mset (dq_arrived s)"
    using assms(2) by (simp add: dq_inv_def del: mset_remove1)
  moreover have "in_hand t = in_hand s" using Dq_cancel(1) by (simp add: in_hand_def dq_complete_def)
  moreover have "dq_queue s \<noteq> []" using Dq_cancel(2) by auto
  ultimately show ?thesis
    using assms(2) unfolding Dq_cancel(1) dq_inv_def
    by (elim conjE) (intro conjI; simp add: dq_complete_def del: mset_remove1; fastforce?)
next
  case (Dq_arrive r)
  moreover have "in_hand t = in_hand s" using Dq_arrive(1) by (simp add: in_hand_def)
  ultimately show ?thesis using assms(2) by (auto simp: dq_inv_def)
next
  case (Dq_refused r)
  moreover have "in_hand t = in_hand s" using Dq_refused(1) by (simp add: in_hand_def dq_complete_def)
  ultimately show ?thesis using assms(2) by (auto simp: dq_inv_def dq_complete_def)
next
  case Qz_purge
  then have "dq_pc s = DqExited" using assms(2) by (simp add: dq_inv_def)
  then show ?thesis using assms(2) Qz_purge by (auto simp: dq_inv_def in_hand_def o_def add.commute)
qed (use assms(2) in \<open>simp_all add: dq_inv_defs\<close>)

definition dq_reach :: "nat list \<Rightarrow> dq_state \<Rightarrow> bool" where
  "dq_reach rs s \<longleftrightarrow> dq_step\<^sup>*\<^sup>* (dq_init rs) s"

lemma dq_reach_inv:
  assumes "dq_reach rs s" and "distinct rs"
  shows "dq_inv s"
  using assms(1) unfolding dq_reach_def
  by (induction rule: rtranclp_induct) (auto intro: dq_step_inv dq_init_inv [OF assms(2)])

text \<open>The consumer alone, for a number of steps.\<close>

fun dq_run :: "nat \<Rightarrow> dq_state \<Rightarrow> dq_state" where
  "dq_run 0 s = s"
| "dq_run (Suc n) s = (case dq_consumer s of None \<Rightarrow> s | Some t \<Rightarrow> dq_run n t)"

text \<open>A bound for its steps once the stop is signalled.\<close>

definition dq_left :: "dq_state \<Rightarrow> nat" where
  "dq_left s = 2 * length (dq_queue s) +
     (case dq_pc s of DqRetrieve \<Rightarrow> 2 | DqRetrieved _ \<Rightarrow> 3 | DqDispatching _ \<Rightarrow> 3 | DqDrained \<Rightarrow> 1 | DqWaiting \<Rightarrow> 3 | DqExited \<Rightarrow> 0)"

lemma dq_consumer_stops:
  assumes "dq_inv s" and "dq_quiesce s = QzJoining" and "dq_pc s \<noteq> DqExited"
  obtains t where "dq_consumer s = Some t" "dq_left t < dq_left s" "dq_quiesce t = QzJoining" "dq_inv t"
    "dq_arrived t = dq_arrived s"
proof -
  have stop: "dq_stop s" "dq_pc s = DqWaiting \<Longrightarrow> dq_stopEvent s" using assms by (simp_all add: dq_inv_def)
  have "\<exists>t. dq_consumer s = Some t \<and> dq_left t < dq_left s \<and> dq_quiesce t = QzJoining \<and> dq_arrived t = dq_arrived s"
  proof (cases "dq_pc s")
    case DqRetrieve
    then show ?thesis using assms by (cases "dq_queue s") (simp_all add: dq_consumer_def dq_left_def)
  next
    case DqWaiting
    then show ?thesis using assms stop by (cases "dq_doorbell s") (simp_all add: dq_consumer_def dq_left_def)
  qed (use assms stop in \<open>simp_all add: dq_consumer_def dq_left_def dq_complete_def\<close>)
  then obtain t where t: "dq_consumer s = Some t" "dq_left t < dq_left s" "dq_quiesce t = QzJoining"
      "dq_arrived t = dq_arrived s" by blast
  with dq_consumer_inv [OF assms(1) t(1)] show thesis by (intro that)
qed

lemma dq_run_stops:
  assumes "dq_inv s" and "dq_quiesce s = QzJoining" and "dq_left s \<le> n"
  shows "dq_pc (dq_run n s) = DqExited \<and> dq_inv (dq_run n s) \<and> dq_quiesce (dq_run n s) = QzJoining \<and>
    dq_arrived (dq_run n s) = dq_arrived s"
  using assms
proof (induction n arbitrary: s)
  case 0
  then show ?case by (auto simp: dq_left_def split: dq_pc.splits)
next
  case (Suc n)
  show ?case
  proof (cases "dq_pc s = DqExited")
    case True
    then have "dq_consumer s = None" by (simp add: dq_consumer_def)
    with True Suc.prems show ?thesis by simp
  next
    case False
    obtain t where t: "dq_consumer s = Some t" "dq_left t < dq_left s" "dq_quiesce t = QzJoining" "dq_inv t"
        "dq_arrived t = dq_arrived s"
      using dq_consumer_stops [OF Suc.prems(1,2) False] .
    then show ?thesis using Suc.IH [OF t(4,3)] Suc.prems(3) by simp
  qed
qed

lemma dq_run_reach: "dq_step\<^sup>*\<^sup>* s (dq_run n s)"
proof (induction n arbitrary: s)
  case (Suc n)
  then show ?case
    by (cases "dq_consumer s") (auto intro: converse_rtranclp_into_rtranclp Dq_consume)
qed simp

text \<open>C31: the consumer's queue, under every interleaving of arrivals, cancellations, the consumer and the
  quiescing thread. Every request that has arrived is in exactly one place: in the queue, in the
  consumer's hand, or completed, and none is completed twice. The consumer never sleeps through
  work: when it waits while a request is queued, or after the stop event was set, it can go on.
  Once it has been joined no dispatch is under way and none will be, and after the purge every
  request is completed.\<close>

theorem dequeue_exactly_once:
  assumes "dq_reach rs s" and "distinct rs"
  shows "mset (dq_queue s) + mset (in_hand s) + mset (map fst (dq_done s)) = mset (dq_arrived s) \<and>
    distinct (map fst (dq_done s)) \<and>
    (dq_pc s = DqWaiting \<and> (dq_queue s \<noteq> [] \<or> dq_quiesce s = QzJoining) \<longrightarrow> dq_consumer s \<noteq> None) \<and>
    (dq_quiesce s \<in> {QzJoined, QzPurged} \<longrightarrow> dq_consumer s = None \<and> in_hand s = []) \<and>
    (dq_quiesce s = QzPurged \<longrightarrow> mset (map fst (dq_done s)) = mset (dq_arrived s))"
proof -
  have inv: "dq_inv s" using dq_reach_inv [OF assms] .
  then have eq: "mset (dq_queue s @ in_hand s @ map fst (dq_done s)) = mset (dq_arrived s)" and "distinct (dq_arrived s)"
    by (simp_all add: dq_inv_def add.assoc)
  then have "distinct (dq_queue s @ in_hand s @ map fst (dq_done s))" by (metis mset_eq_imp_distinct_iff)
  then have "distinct (map fst (dq_done s))" by (simp only: distinct_append)
  then show ?thesis using inv by (auto simp: dq_inv_def dq_consumer_def in_hand_def)
qed

definition dq_demo :: dq_state where
  "dq_demo = \<lparr>dq_queue = [9], dq_doorbell = True, dq_stopEvent = False, dq_stop = False, dq_pc = DqWaiting,
     dq_quiesce = QzIdle, dq_done = [(7, FateDispatched)], dq_arrived = [9, 7]\<rparr>"

lemma dq_demo_reach: "dq_reach [7] dq_demo"
proof -
  let ?s = "dq_run 5 (dq_init [7])"
  have s: "?s = \<lparr>dq_queue = [], dq_doorbell = False, dq_stopEvent = False, dq_stop = False, dq_pc = DqWaiting,
     dq_quiesce = QzIdle, dq_done = [(7, FateDispatched)], dq_arrived = [7]\<rparr>"
    by (simp add: numeral_eq_Suc dq_init_def dq_consumer_def dq_complete_def)
  have "dq_step ?s dq_demo" using Dq_arrive [of 9 ?s] by (simp add: s dq_demo_def)
  then show ?thesis using dq_run_reach [of "dq_init [7]" 5] by (simp add: dq_reach_def)
qed

theorem dequeue_exactly_once_witness:
  "dq_consumer dq_demo \<noteq> None \<and> distinct (map fst (dq_done dq_demo))"
  using dequeue_exactly_once [OF dq_demo_reach] by (simp add: dq_demo_def)

text \<open>C32: the stop of the consumer completes. From every state in which the stop event has been set, the
  consumer alone reaches its exit within two steps for each queued request and three more, so
  that the join returns; then the purge leaves every request completed.\<close>

theorem quiesce_completes:
  assumes "dq_reach rs s" and "distinct rs" and "dq_quiesce s = QzJoining"
  shows "dq_pc (dq_run (2 * length (dq_queue s) + 3) s) = DqExited \<and>
    (\<exists>t. dq_step\<^sup>*\<^sup>* s t \<and> dq_quiesce t = QzPurged \<and> mset (map fst (dq_done t)) = mset (dq_arrived s))"
proof -
  let ?u = "dq_run (2 * length (dq_queue s) + 3) s"
  have inv: "dq_inv s" using dq_reach_inv [OF assms(1,2)] .
  have "dq_left s \<le> 2 * length (dq_queue s) + 3" by (simp add: dq_left_def split: dq_pc.split)
  from dq_run_stops [OF inv assms(3) this]
  have u: "dq_pc ?u = DqExited" "dq_inv ?u" "dq_quiesce ?u = QzJoining" "dq_arrived ?u = dq_arrived s" by simp_all
  let ?j = "?u\<lparr>dq_quiesce := QzJoined\<rparr>"
  let ?t = "?j\<lparr>dq_done := dq_done ?j @ map (\<lambda>r. (r, FatePurged)) (dq_queue ?j), dq_queue := [], dq_quiesce := QzPurged\<rparr>"
  have "dq_step ?u ?j" by (rule Qz_join [OF u(3,1)])
  moreover have "dq_step ?j ?t" by (rule Qz_purge) simp
  ultimately have "dq_step\<^sup>*\<^sup>* s ?t" using dq_run_reach by (meson rtranclp.rtrancl_into_rtrancl)
  moreover have "map (fst \<circ> (\<lambda>r. (r, FatePurged))) (dq_queue ?u) = dq_queue ?u" by (simp add: o_def)
  ultimately show ?thesis
    using u by (intro conjI exI [of _ ?t]) (auto simp: dq_inv_def in_hand_def add.commute simp del: dq_run.simps)
qed

theorem quiesce_completes_witness:
  "dq_pc (dq_run 5 (dq_demo\<lparr>dq_stop := True, dq_stopEvent := True, dq_quiesce := QzJoining\<rparr>)) = DqExited"
proof -
  let ?a = "dq_demo\<lparr>dq_stop := True, dq_quiesce := QzStopping\<rparr>" and
    ?b = "dq_demo\<lparr>dq_stop := True, dq_stopEvent := True, dq_quiesce := QzJoining\<rparr>"
  have "dq_step dq_demo ?a" by (rule Qz_stop) (simp add: dq_demo_def)
  moreover have "dq_step ?a ?b" using Qz_signal [of ?a] by (simp add: dq_demo_def)
  ultimately have "dq_reach [7] ?b" using dq_demo_reach unfolding dq_reach_def by (meson rtranclp.rtrancl_into_rtrancl)
  with quiesce_completes [OF this] show ?thesis by (simp add: dq_demo_def numeral_eq_Suc)
qed

end
