(* ===== verification/ControlPlane.thy ===== *)
theory ControlPlane
  imports ControlLife
begin

text \<open>
  control/ioctl.c: start, quiesce and destruction of the control plane. \<open>create\<close> and \<open>join\<close> are
  \<open>ThreadCreate\<close> and \<open>ThreadJoin\<close> of the consumer thread (\<open>ControlLife\<close>), \<open>slp\<close> is what the rest of
  the system does while the quiescing thread sleeps.
\<close>

abbreviation SK_CONTROL_DRAIN_RETRIES :: nat where "SK_CONTROL_DRAIN_RETRIES \<equiv> 200"

definition SkControlInit ::
    "'a device_scheme wdf \<Rightarrow> ('a device_scheme \<Rightarrow> ntstatus \<times> nat option \<times> 'a device_scheme) \<Rightarrow> 'a device_scheme
     \<Rightarrow> ntstatus \<times> 'a device_scheme" where
  "SkControlInit W create w =
     (if g_ControlReady w then (STATUS_SUCCESS, w)
      else
        let w = w\<lparr>g_ControlReady := True, g_SkDequeueDoorbell := False, g_SkDequeueStopEvent := False,
                  g_SkDequeueStop := 0\<rparr>;
            (st, w) = wd_ReadyNotify W (g_SkControlWdfQueue w) w
        in if st \<noteq> STATUS_SUCCESS then (st, w\<lparr>g_ControlReady := False\<rparr>)
           else let (st, thread, w) = create (w\<lparr>g_SkDequeueThread := None\<rparr>)
                in if st \<noteq> STATUS_SUCCESS
                   then (STATUS_INSUFFICIENT_RESOURCES, w\<lparr>g_SkDequeueThread := None, g_ControlReady := False\<rparr>)
                   else (STATUS_SUCCESS, w\<lparr>g_SkDequeueThread := thread, g_ControlGateOpen := True\<rparr>))"

text \<open>The bounded wait for the handles; the counter is the number of sleeps left.\<close>

fun drain_handles :: "('a runtime_scheme \<Rightarrow> 'a runtime_scheme) \<Rightarrow> nat \<Rightarrow> 'a runtime_scheme \<Rightarrow> bool \<times> 'a runtime_scheme" where
  "drain_handles slp 0 w =
     (if ShHandlesOpen w = 0 then (True, w) else (False, ShRuntimeRecordBlock ShinkenBlockHandleContextsOpen w))"
| "drain_handles slp (Suc n) w = (if ShHandlesOpen w = 0 then (True, w) else drain_handles slp n (slp w))"

text \<open>From the confirmed exit of the consumer on.\<close>

definition consumer_gone ::
    "'a device_scheme wdf \<Rightarrow> ('a device_scheme \<Rightarrow> 'a device_scheme) \<Rightarrow> 'a device_scheme \<Rightarrow> bool \<times> 'a device_scheme" where
  "consumer_gone W slp w =
     drain_handles slp SK_CONTROL_DRAIN_RETRIES
       (if g_SkControlWdfQueue w \<noteq> NULL then wd_QueuePurge W (g_SkControlWdfQueue w) w else w)"

definition SkControlQuiesce ::
    "'a device_scheme wdf \<Rightarrow> ('a device_scheme \<Rightarrow> 'a device_scheme)
     \<Rightarrow> (nat \<Rightarrow> 'a device_scheme \<Rightarrow> ntstatus \<times> 'a device_scheme) \<Rightarrow> 'a device_scheme \<Rightarrow> bool \<times> 'a device_scheme" where
  "SkControlQuiesce W slp join w =
     (let w = w\<lparr>g_ControlGateOpen := False, g_SkDequeueStop := g_SkDequeueStop w OR 1, g_SkDequeueStopEvent := True\<rparr>
      in case g_SkDequeueThread w of
           None \<Rightarrow> consumer_gone W slp w
         | Some t \<Rightarrow>
             let (jst, w) = join t w
             in if jst \<noteq> STATUS_SUCCESS then (False, ShRuntimeRecordBlock ShinkenBlockWorkerThreadDrain w)
                else consumer_gone W slp (w\<lparr>g_SkDequeueThread := None\<rparr>))"

definition SkControlDestroy :: "'a device_scheme wdf \<Rightarrow> 'a device_scheme \<Rightarrow> 'a device_scheme" where
  "SkControlDestroy W w =
     (let w = w\<lparr>g_ControlGateOpen := False\<rparr>
      in if g_ControlReady w then SkDeviceDelete W (w\<lparr>g_ControlReady := False\<rparr>) else w)"

section \<open>The quiesce\<close>

text \<open>
  Nothing but the control plane itself opens its gate, takes back the stop or makes a consumer, and
  a recorded block reason stays: what \<open>slp\<close>, \<open>join\<close> and the purge keep.
\<close>

definition keeps_stopped :: "'a device_scheme \<Rightarrow> 'a device_scheme \<Rightarrow> bool" where
  "keeps_stopped w v \<longleftrightarrow> (\<not> g_ControlGateOpen w \<longrightarrow> \<not> g_ControlGateOpen v) \<and>
     (g_SkDequeueStop w \<noteq> 0 \<longrightarrow> g_SkDequeueStop v \<noteq> 0) \<and> g_SkDequeueThread v = g_SkDequeueThread w \<and>
     (g_BlockReason w \<noteq> ShinkenBlockNone \<longrightarrow> g_BlockReason v \<noteq> ShinkenBlockNone)"

lemma keeps_stopped_refl: "keeps_stopped w w"
  by (simp add: keeps_stopped_def)

lemma keeps_stopped_trans: "keeps_stopped u v \<Longrightarrow> keeps_stopped v w \<Longrightarrow> keeps_stopped u w"
  by (simp add: keeps_stopped_def)

lemma record_block_control [simp]:
  "g_ControlGateOpen (ShRuntimeRecordBlock why w) = g_ControlGateOpen w"
  "g_SkDequeueStop (ShRuntimeRecordBlock why w) = g_SkDequeueStop w"
  "g_SkDequeueThread (ShRuntimeRecordBlock why w) = g_SkDequeueThread w"
  by (simp_all add: ShRuntimeRecordBlock_def Let_def)

lemma keeps_stopped_record: "keeps_stopped w (ShRuntimeRecordBlock why w)"
  by (simp add: keeps_stopped_def record_block_reason)

lemma drain_handles_result:
  assumes "\<And>w. keeps_stopped w (slp w)"
  shows "keeps_stopped w (snd (drain_handles slp n w)) \<and>
    (if fst (drain_handles slp n w) then ShHandlesOpen (snd (drain_handles slp n w)) = 0
     else g_BlockReason (snd (drain_handles slp n w)) \<noteq> ShinkenBlockNone)"
proof (induction n arbitrary: w)
  case 0
  then show ?case by (simp add: keeps_stopped_refl keeps_stopped_record record_block_some)
next
  case (Suc n)
  then show ?case using assms keeps_stopped_trans by (auto simp: keeps_stopped_refl) blast+
qed

lemma consumer_gone_result:
  assumes "\<And>w. keeps_stopped w (slp w)" and "\<And>q w. keeps_stopped w (wd_QueuePurge W q w)"
    and "consumer_gone W slp w = (ok, v)"
  shows "keeps_stopped w v" and "if ok then ShHandlesOpen v = 0 else g_BlockReason v \<noteq> ShinkenBlockNone"
proof -
  let ?u = "if g_SkControlWdfQueue w \<noteq> NULL then wd_QueuePurge W (g_SkControlWdfQueue w) w else w"
  have "keeps_stopped w ?u" using assms(2) by (simp add: keeps_stopped_refl)
  moreover have "drain_handles slp SK_CONTROL_DRAIN_RETRIES ?u = (ok, v)" using assms(3) by (simp only: consumer_gone_def)
  note r = drain_handles_result [OF assms(1), of ?u SK_CONTROL_DRAIN_RETRIES, unfolded this fst_conv snd_conv]
  ultimately show "keeps_stopped w v" and "if ok then ShHandlesOpen v = 0 else g_BlockReason v \<noteq> ShinkenBlockNone"
    using keeps_stopped_trans r by blast+
qed

text \<open>The quiesce of the control plane always returns, after at most 200 sleeps, with the gate closed
  and the stop flag set, so that every request dispatched from then on is refused with
  DEVICE_NOT_READY and touches nothing. TRUE: the consumer has been joined and no handle is
  open. FALSE: a block reason is recorded; if the join failed, the thread object is kept.\<close>

theorem control_quiesce_correct:
  assumes "\<And>w. keeps_stopped w (slp w)" and "\<And>q w. keeps_stopped w (wd_QueuePurge W q w)"
    and "\<And>t w. keeps_stopped w (snd (join t w))"
  shows "\<exists>ok v. SkControlQuiesce W slp join w = (ok, v) \<and> \<not> g_ControlGateOpen v \<and> g_SkDequeueStop v \<noteq> 0 \<and>
    (\<forall>oks pad slp' rq outLen code. SkIoctlEvtDeviceControl oks pad slp' rq outLen code v =
       Some (skComplete STATUS_DEVICE_NOT_READY 0 (rq_buf rq), v)) \<and>
    (ok \<longrightarrow> g_SkDequeueThread v = None \<and> ShHandlesOpen v = 0) \<and>
    (\<not> ok \<longrightarrow> g_BlockReason v \<noteq> ShinkenBlockNone \<and> g_SkDequeueThread v \<in> {None, g_SkDequeueThread w})"
proof -
  let ?w = "w\<lparr>g_ControlGateOpen := False, g_SkDequeueStop := g_SkDequeueStop w OR 1, g_SkDequeueStopEvent := True\<rparr>"
  have stop: "g_SkDequeueStop w OR 1 \<noteq> 0" by (metis one_neq_zero or_eq_0_iff)
  note gone = consumer_gone_result [OF assms(1,2)]
  obtain ok v where run: "SkControlQuiesce W slp join w = (ok, v)" by fastforce
  consider "g_SkDequeueThread w = None" "(ok, v) = consumer_gone W slp ?w"
    | t u where "g_SkDequeueThread w = Some t" "keeps_stopped ?w u" "(ok, v) = consumer_gone W slp (u\<lparr>g_SkDequeueThread := None\<rparr>)"
    | t u where "g_SkDequeueThread w = Some t" "keeps_stopped ?w u" "\<not> ok" "v = ShRuntimeRecordBlock ShinkenBlockWorkerThreadDrain u"
  proof (cases "g_SkDequeueThread w")
    case None
    then show ?thesis using run that(1) by (simp add: SkControlQuiesce_def)
  next
    case (Some t)
    obtain jst u where j: "join t ?w = (jst, u)" by fastforce
    then have "keeps_stopped ?w u" using assms(3) [of ?w t] by simp
    then show ?thesis
      using run that(2,3) Some j by (cases "jst = STATUS_SUCCESS") (auto simp: SkControlQuiesce_def Let_def)
  qed
  then have "\<not> g_ControlGateOpen v \<and> g_SkDequeueStop v \<noteq> 0 \<and>
    (ok \<longrightarrow> g_SkDequeueThread v = None \<and> ShHandlesOpen v = 0) \<and>
    (\<not> ok \<longrightarrow> g_BlockReason v \<noteq> ShinkenBlockNone \<and> g_SkDequeueThread v \<in> {None, g_SkDequeueThread w})"
  proof cases
    case 1
    then show ?thesis using gone [OF 1(2) [symmetric]] 1(1) stop by (auto simp: keeps_stopped_def)
  next
    case (2 t u)
    then show ?thesis using gone [OF 2(3) [symmetric]] 2(2) stop by (auto simp: keeps_stopped_def)
  next
    case (3 t u)
    then show ?thesis using stop by (auto simp: keeps_stopped_def record_block_some)
  qed
  then show ?thesis using run by (auto simp: SkIoctlEvtDeviceControl_def)
qed

theorem control_quiesce_correct_witness:
  "let v = snd (SkControlQuiesce kmdf_api ShHandleClose (\<lambda>_. Pair STATUS_SUCCESS)
       ((ShHandleOpen (kmdf_start 0))\<lparr>g_SkDequeueThread := Some 3\<rparr>))
   in \<not> g_ControlGateOpen v \<and> g_SkDequeueStop v \<noteq> 0 \<and> g_SkDequeueThread v \<in> {None, Some 3}"
proof -
  let ?w = "(ShHandleOpen (kmdf_start 0))\<lparr>g_SkDequeueThread := Some 3\<rparr>"
  have "\<exists>ok v. SkControlQuiesce kmdf_api ShHandleClose (\<lambda>_. Pair STATUS_SUCCESS) ?w = (ok, v) \<and>
      \<not> g_ControlGateOpen v \<and> g_SkDequeueStop v \<noteq> 0 \<and> g_SkDequeueThread v \<in> {None, Some 3}"
    using control_quiesce_correct [of ShHandleClose kmdf_api "\<lambda>_. Pair STATUS_SUCCESS" ?w]
    by (auto simp: ShHandleClose_def keeps_stopped_def kmdf_api_def)
  then show ?thesis by (auto simp: Let_def)
qed

end
