(* ===== verification/Injection.thy ===== *)
theory Injection
  imports ControlPlane
begin

text \<open>
  packet/injection.c: the injection handles and the packet pools, from their creation to their
  destruction. The calls that create and free them are the record \<open>ndis\<close>; the destruction of a
  handle goes through \<open>ShOps\<close> and the tracking of \<open>WfpTracking\<close>. An out-parameter receives what
  the call stores, also when the call fails.
\<close>

abbreviation (input) SK_INJECT_TAG :: u32 where "SK_INJECT_TAG \<equiv> 0x534B4A54"
abbreviation SK_INJECT_BUSY_RETRIES :: u32 where "SK_INJECT_BUSY_RETRIES \<equiv> 8"
abbreviation SK_INJECT_DRAIN_RETRIES :: nat where "SK_INJECT_DRAIN_RETRIES \<equiv> 100"

record inject = device +
  g_InjectionHandle :: "handle list"
  g_InjectionTrack :: "wfp_object list"
  g_SkNblPool :: handle
  g_SkNbPool :: handle
  g_SkInjectInited :: u32

record 'w ndis =
  nd_HandleCreate :: "u16 \<Rightarrow> 'w \<Rightarrow> ntstatus \<times> handle \<times> 'w"
  nd_AllocNblPool :: "'w \<Rightarrow> handle \<times> 'w"
  nd_AllocNbPool :: "'w \<Rightarrow> handle \<times> 'w"
  nd_FreeNblPool :: "handle \<Rightarrow> 'w \<Rightarrow> 'w"
  nd_FreeNbPool :: "handle \<Rightarrow> 'w \<Rightarrow> 'w"

definition set_handle :: "nat \<Rightarrow> handle \<Rightarrow> 'a inject_scheme \<Rightarrow> 'a inject_scheme" where
  "set_handle i h w = w\<lparr>g_InjectionHandle := (g_InjectionHandle w)[i := h]\<rparr>"

definition destroy_handle :: "'a inject_scheme ops \<Rightarrow> nat \<Rightarrow> 'a inject_scheme \<Rightarrow> 'a inject_scheme" where
  "destroy_handle ShOps i w = snd (op_InjectionHandleDestroy ShOps (g_InjectionHandle w ! i) w)"

definition init_failed :: "'a inject_scheme \<Rightarrow> 'a inject_scheme" where
  "init_failed w = set_handle 1 NULL (set_handle 0 NULL w)\<lparr>g_SkInjectInited := 0\<rparr>"

text \<open>The pools, once both handles exist.\<close>

definition inject_pools ::
    "'a inject_scheme ndis \<Rightarrow> 'a inject_scheme ops \<Rightarrow> 'a inject_scheme \<Rightarrow> ntstatus \<times> 'a inject_scheme" where
  "inject_pools N ShOps w =
     (let (nbl, w) = nd_AllocNblPool N w;
          w = w\<lparr>g_SkNblPool := nbl\<rparr>
      in if nbl = NULL
         then (STATUS_INSUFFICIENT_RESOURCES, init_failed (destroy_handle ShOps 0 (destroy_handle ShOps 1 w)))
         else let (nb, w) = nd_AllocNbPool N w;
                  w = w\<lparr>g_SkNbPool := nb\<rparr>
              in if nb = NULL
                 then let w = nd_FreeNblPool N (g_SkNblPool w) w;
                          w = w\<lparr>g_SkNblPool := NULL\<rparr>
                      in (STATUS_INSUFFICIENT_RESOURCES, init_failed (destroy_handle ShOps 0 (destroy_handle ShOps 1 w)))
                 else (STATUS_SUCCESS, w))"

definition SkInjectInit ::
    "'a inject_scheme ndis \<Rightarrow> 'a inject_scheme ops \<Rightarrow> 'a inject_scheme \<Rightarrow> ntstatus \<times> 'a inject_scheme" where
  "SkInjectInit N ShOps w =
     (if g_SkInjectInited w \<noteq> 0 then (STATUS_SUCCESS, w)
      else
        let w = w\<lparr>g_SkInjectInited := 1, g_InjectionTrack := [ShWfpObjectInit ''injectHandleV4'' 0 0 None,
                    ShWfpObjectInit ''injectHandleV6'' 0 0 None]\<rparr>;
            (st, h, w) = nd_HandleCreate N 2 w;
            w = set_handle 0 h w
        in if \<not> NT_SUCCESS st then (st, (set_handle 0 NULL w)\<lparr>g_SkInjectInited := 0\<rparr>)
           else let (st, h, w) = nd_HandleCreate N 23 w;
                    w = set_handle 1 h w
                in if \<not> NT_SUCCESS st
                   then let w = destroy_handle ShOps 0 (set_handle 1 NULL w)
                        in (st, (set_handle 0 NULL w)\<lparr>g_SkInjectInited := 0\<rparr>)
                   else inject_pools N ShOps w)"

fun destroy_tracked ::
    "'a inject_scheme ops \<Rightarrow> ('a inject_scheme \<Rightarrow> 'a inject_scheme) \<Rightarrow> nat list \<Rightarrow> 'a inject_scheme \<Rightarrow> bool \<times> 'a inject_scheme" where
  "destroy_tracked ShOps slp [] w = (True, w)"
| "destroy_tracked ShOps slp (i # js) w =
     (let (st, t, w) = ShInjectionDestroyTracked ShOps slp (g_InjectionHandle w ! i) SK_INJECT_BUSY_RETRIES
                         (g_InjectionTrack w ! i) w;
          w = w\<lparr>g_InjectionTrack := (g_InjectionTrack w)[i := t]\<rparr>
      in if wo_state t = ShWfpDeleted then destroy_tracked ShOps slp js (set_handle i NULL w)
         else if st \<noteq> STATUS_SUCCESS then (False, ShRuntimeRecordBlock ShinkenBlockInjectionDrain w)
         else destroy_tracked ShOps slp js w)"

definition SkInjectQuiesce ::
    "'a inject_scheme ops \<Rightarrow> ('a inject_scheme \<Rightarrow> 'a inject_scheme) \<Rightarrow> 'a inject_scheme \<Rightarrow> bool \<times> 'a inject_scheme" where
  "SkInjectQuiesce ShOps slp w =
     (if g_SkInjectInited w = 0 then (True, w)
      else let (st, w) = ShInjectionDrain slp SK_INJECT_DRAIN_RETRIES (ShInjectionGateStop w)
           in if st \<noteq> STATUS_SUCCESS then (False, ShRuntimeRecordBlock ShinkenBlockInjectionDrain w)
              else destroy_tracked ShOps slp [0, 1] w)"

definition SkInjectDestroy :: "'a inject_scheme ndis \<Rightarrow> 'a inject_scheme \<Rightarrow> 'a inject_scheme" where
  "SkInjectDestroy N w =
     (let w = (if g_SkNbPool w \<noteq> NULL then (nd_FreeNbPool N (g_SkNbPool w) w)\<lparr>g_SkNbPool := NULL\<rparr> else w)
      in if g_SkNblPool w \<noteq> NULL then (nd_FreeNblPool N (g_SkNblPool w) w)\<lparr>g_SkNblPool := NULL\<rparr> else w)"

definition SkInjectIsSelf :: "u64 \<Rightarrow> bool" where
  "SkInjectIsSelf injectionContext \<longleftrightarrow> (ucast (injectionContext AND 0xFFFFFFFF) :: u32) = SK_INJECT_TAG"

end
