(* ===== verification/InjectionProps.thy ===== *)
theory InjectionProps
  imports Injection
begin

text \<open>
  What the injection subsystem owes the kernel: the handles and pools it has created are destroyed
  and freed, or stay known as leaked.
\<close>

section \<open>The kernel's objects\<close>

text \<open>
  \<open>ledger w\<close>: the injection handles, NBL pools and NB pools that exist; \<open>inj_view\<close>: the variables of
  injection.c. The documented behaviour of the kernel: a creation that succeeds adds a new
  object, one that fails adds none; a free removes; a handle is gone exactly when its
  destruction answers SUCCESS; no call touches the driver's variables.
\<close>

type_synonym inj_ledger = "handle set \<times> handle set \<times> handle set"

definition inj_view :: "'a inject_scheme \<Rightarrow> handle list \<times> wfp_object list \<times> handle \<times> handle \<times> u32" where
  "inj_view w = (g_InjectionHandle w, g_InjectionTrack w, g_SkNblPool w, g_SkNbPool w, g_SkInjectInited w)"

definition ndis_ok :: "('a inject_scheme \<Rightarrow> inj_ledger) \<Rightarrow> 'a inject_scheme ndis \<Rightarrow> 'a inject_scheme ops \<Rightarrow> bool" where
  "ndis_ok ledger N ShOps \<longleftrightarrow> (\<forall>w.
     (\<forall>f. let (st, h, v) = nd_HandleCreate N f w in inj_view v = inj_view w \<and>
        (if NT_SUCCESS st then h \<noteq> NULL \<and> h \<notin> fst (ledger w) \<and> ledger v = apfst (insert h) (ledger w)
         else ledger v = ledger w)) \<and>
     (let (h, v) = nd_AllocNblPool N w in inj_view v = inj_view w \<and>
        (if h = NULL then ledger v = ledger w
         else h \<notin> fst (snd (ledger w)) \<and> ledger v = apsnd (apfst (insert h)) (ledger w))) \<and>
     (let (h, v) = nd_AllocNbPool N w in inj_view v = inj_view w \<and>
        (if h = NULL then ledger v = ledger w
         else h \<notin> snd (snd (ledger w)) \<and> ledger v = apsnd (apsnd (insert h)) (ledger w))) \<and>
     (\<forall>h. inj_view (nd_FreeNblPool N h w) = inj_view w \<and>
        ledger (nd_FreeNblPool N h w) = apsnd (apfst (\<lambda>s. s - {h})) (ledger w)) \<and>
     (\<forall>h. inj_view (nd_FreeNbPool N h w) = inj_view w \<and>
        ledger (nd_FreeNbPool N h w) = apsnd (apsnd (\<lambda>s. s - {h})) (ledger w)) \<and>
     (\<forall>h. let (st, v) = op_InjectionHandleDestroy ShOps h w in inj_view v = inj_view w \<and>
        ledger v = (if st = STATUS_SUCCESS then apfst (\<lambda>s. s - {h}) (ledger w) else ledger w)) \<and>
     (\<forall>hs ts p q i r why. ledger (w\<lparr>g_InjectionHandle := hs\<rparr>) = ledger w \<and> ledger (w\<lparr>g_InjectionTrack := ts\<rparr>) = ledger w \<and>
        ledger (w\<lparr>g_SkNblPool := p\<rparr>) = ledger w \<and> ledger (w\<lparr>g_SkNbPool := q\<rparr>) = ledger w \<and>
        ledger (w\<lparr>g_SkInjectInited := i\<rparr>) = ledger w \<and> ledger (w\<lparr>g_InjectionRundown := r\<rparr>) = ledger w \<and>
        ledger (ShRuntimeRecordBlock why w) = ledger w))"

lemma ndis_okD:
  assumes "ndis_ok ledger N ShOps"
  shows "nd_HandleCreate N f w = (st, h, v) \<Longrightarrow> inj_view v = inj_view w \<and>
      (if NT_SUCCESS st then h \<noteq> NULL \<and> h \<notin> fst (ledger w) \<and> ledger v = apfst (insert h) (ledger w)
       else ledger v = ledger w)"
    and "nd_AllocNblPool N w = (h, v) \<Longrightarrow> inj_view v = inj_view w \<and>
      (if h = NULL then ledger v = ledger w else h \<notin> fst (snd (ledger w)) \<and> ledger v = apsnd (apfst (insert h)) (ledger w))"
    and "nd_AllocNbPool N w = (h, v) \<Longrightarrow> inj_view v = inj_view w \<and>
      (if h = NULL then ledger v = ledger w else h \<notin> snd (snd (ledger w)) \<and> ledger v = apsnd (apsnd (insert h)) (ledger w))"
    and "inj_view (nd_FreeNblPool N h w) = inj_view w"
    and "ledger (nd_FreeNblPool N h w) = apsnd (apfst (\<lambda>s. s - {h})) (ledger w)"
    and "inj_view (nd_FreeNbPool N h w) = inj_view w"
    and "ledger (nd_FreeNbPool N h w) = apsnd (apsnd (\<lambda>s. s - {h})) (ledger w)"
    and "op_InjectionHandleDestroy ShOps h w = (st, v) \<Longrightarrow> inj_view v = inj_view w \<and>
      ledger v = (if st = STATUS_SUCCESS then apfst (\<lambda>s. s - {h}) (ledger w) else ledger w)"
  using assms [unfolded ndis_ok_def Let_def, THEN spec, of w] by (fastforce split: prod.splits)+

lemma ndis_ok_update:
  assumes "ndis_ok ledger N ShOps"
  shows "ledger (w\<lparr>g_InjectionHandle := hs\<rparr>) = ledger w" "ledger (w\<lparr>g_InjectionTrack := ts\<rparr>) = ledger w"
    "ledger (w\<lparr>g_SkNblPool := p\<rparr>) = ledger w" "ledger (w\<lparr>g_SkNbPool := q\<rparr>) = ledger w"
    "ledger (w\<lparr>g_SkInjectInited := i\<rparr>) = ledger w" "ledger (w\<lparr>g_InjectionRundown := r\<rparr>) = ledger w"
    "ledger (ShRuntimeRecordBlock why w) = ledger w"
  using assms [unfolded ndis_ok_def Let_def, THEN spec, of w] by blast+

lemma inj_viewD:
  assumes "inj_view v = (hs, ts, p, q, i)"
  shows "g_InjectionHandle v = hs" "g_InjectionTrack v = ts" "g_SkNblPool v = p" "g_SkNbPool v = q" "g_SkInjectInited v = i"
  using assms by (simp_all add: inj_view_def)

lemma inj_view_same:
  assumes "inj_view v = inj_view w"
  shows "g_InjectionHandle v = g_InjectionHandle w" "g_InjectionTrack v = g_InjectionTrack w"
    "g_SkNblPool v = g_SkNblPool w" "g_SkNbPool v = g_SkNbPool w" "g_SkInjectInited v = g_SkInjectInited w"
  using assms by (simp_all add: inj_view_def)

section \<open>Creation\<close>

text \<open>What destroying a handle in a rollback does: it is gone, unless the kernel refuses.\<close>

lemma destroy_handle_result:
  assumes "ndis_ok ledger N ShOps"
  shows "inj_view (destroy_handle ShOps i w) = inj_view w"
    and "fst (ledger w) - {g_InjectionHandle w ! i} \<subseteq> fst (ledger (destroy_handle ShOps i w))"
    and "snd (ledger (destroy_handle ShOps i w)) = snd (ledger w)"
    and "(\<And>h u. fst (op_InjectionHandleDestroy ShOps h u) = STATUS_SUCCESS) \<Longrightarrow>
      ledger (destroy_handle ShOps i w) = apfst (\<lambda>s. s - {g_InjectionHandle w ! i}) (ledger w)"
proof -
  obtain st v where d: "op_InjectionHandleDestroy ShOps (g_InjectionHandle w ! i) w = (st, v)" by fastforce
  note d' = ndis_okD(8) [OF assms d]
  show "inj_view (destroy_handle ShOps i w) = inj_view w"
    "fst (ledger w) - {g_InjectionHandle w ! i} \<subseteq> fst (ledger (destroy_handle ShOps i w))"
    "snd (ledger (destroy_handle ShOps i w)) = snd (ledger w)"
    using d d' by (auto simp: destroy_handle_def)
  assume "\<And>h u. fst (op_InjectionHandleDestroy ShOps h u) = STATUS_SUCCESS"
  from this [of "g_InjectionHandle w ! i" w]
  show "ledger (destroy_handle ShOps i w) = apfst (\<lambda>s. s - {g_InjectionHandle w ! i}) (ledger w)"
    using d d' by (simp add: destroy_handle_def)
qed

text \<open>\<open>kept L M ok\<close>: a rollback from the ledger \<open>L\<close> before the init has led to \<open>M\<close>.\<close>

definition kept :: "bool \<Rightarrow> inj_ledger \<Rightarrow> inj_ledger \<Rightarrow> bool" where
  "kept confirmed L M \<longleftrightarrow> snd M = snd L \<and> fst L \<subseteq> fst M \<and> (confirmed \<longrightarrow> M = L)"

definition init_clean :: "'a inject_scheme \<Rightarrow> bool" where
  "init_clean w \<longleftrightarrow> g_InjectionHandle w = [NULL, NULL] \<and> g_SkNblPool w = NULL \<and> g_SkNbPool w = NULL \<and> g_SkInjectInited w = 0"

lemma rollback_both:
  assumes N: "ndis_ok ledger N ShOps" and hs: "g_InjectionHandle w = [h0, h1]" "h0 \<noteq> h1"
    and pools: "g_SkNblPool w = NULL" "g_SkNbPool w = NULL"
    and led: "ledger w = apfst (insert h1) (apfst (insert h0) L)" "h0 \<notin> fst L" "h1 \<notin> fst L"
  defines "v \<equiv> init_failed (destroy_handle ShOps 0 (destroy_handle ShOps 1 w))"
  shows "init_clean v \<and> kept (\<forall>h u. fst (op_InjectionHandleDestroy ShOps h u) = STATUS_SUCCESS) L (ledger v)"
proof -
  let ?a = "destroy_handle ShOps 1 w" let ?b = "destroy_handle ShOps 0 ?a"
  note a = destroy_handle_result [OF N, where i = 1 and w = w] and b = destroy_handle_result [OF N, where i = 0 and w = ?a]
  have views: "inj_view ?b = inj_view w" "g_InjectionHandle ?a = [h0, h1]"
    using a(1) b(1) inj_view_same(1) [OF a(1)] hs by simp_all
  have "ledger v = ledger ?b" by (simp add: v_def init_failed_def set_handle_def ndis_ok_update [OF N])
  moreover have "init_clean v"
    using inj_view_same [OF views(1)] hs pools by (simp add: v_def init_failed_def set_handle_def init_clean_def)
  moreover have "kept (\<forall>h u. fst (op_InjectionHandleDestroy ShOps h u) = STATUS_SUCCESS) L (ledger ?b)"
    using a(2-4) b(2-4) views(2) hs led by (cases L) (auto simp: kept_def)
  ultimately show ?thesis by simp
qed

definition init_done :: "('a inject_scheme \<Rightarrow> inj_ledger) \<Rightarrow> inj_ledger \<Rightarrow> 'a inject_scheme \<Rightarrow> bool" where
  "init_done ledger L v \<longleftrightarrow> g_SkInjectInited v = 1 \<and> (\<exists>h0 h1. g_InjectionHandle v = [h0, h1] \<and> NULL \<notin> {h0, h1} \<and>
     h0 \<noteq> h1 \<and> h0 \<notin> fst L \<and> h1 \<notin> fst L \<and> g_SkNblPool v \<notin> insert NULL (fst (snd L)) \<and> g_SkNbPool v \<notin> insert NULL (snd (snd L)) \<and>
     ledger v = (insert h1 (insert h0 (fst L)), insert (g_SkNblPool v) (fst (snd L)), insert (g_SkNbPool v) (snd (snd L))))"

abbreviation destroys :: "'w ops \<Rightarrow> bool" where
  "destroys ShOps \<equiv> \<forall>h u. fst (op_InjectionHandleDestroy ShOps h u) = STATUS_SUCCESS"

lemma inject_pools_result:
  assumes N: "ndis_ok ledger N ShOps" and hs: "g_InjectionHandle w = [h0, h1]" "h0 \<noteq> h1" "NULL \<notin> {h0, h1}"
    and pools: "g_SkNblPool w = NULL" "g_SkNbPool w = NULL" and i: "g_SkInjectInited w = 1"
    and led: "ledger w = apfst (insert h1) (apfst (insert h0) L)" "h0 \<notin> fst L" "h1 \<notin> fst L"
    and run: "inject_pools N ShOps w = (st, v)"
  shows "if NT_SUCCESS st then init_done ledger L v else init_clean v \<and> kept (destroys ShOps) L (ledger v)"
proof -
  obtain nbl w1 where a: "nd_AllocNblPool N w = (nbl, w1)" by fastforce
  note a' = ndis_okD(2) [OF N a]
  let ?w1 = "w1\<lparr>g_SkNblPool := nbl\<rparr>"
  have v1: "g_InjectionHandle ?w1 = [h0, h1]" "g_SkNblPool ?w1 = nbl" "g_SkNbPool ?w1 = NULL" "g_SkInjectInited ?w1 = 1"
      "ledger ?w1 = ledger w1"
    using inj_view_same [OF a' [THEN conjunct1]] hs pools i ndis_ok_update(3) [OF N] by simp_all
  show ?thesis
  proof (cases "nbl = NULL")
    case True
    then show ?thesis
      using rollback_both [OF N v1(1) hs(2) _ v1(3) _ led(2,3)] v1 a' led run by (auto simp: inject_pools_def a)
  next
    case nbl: False
    obtain nb w2 where b: "nd_AllocNbPool N ?w1 = (nb, w2)" by fastforce
    note b' = ndis_okD(3) [OF N b]
    let ?w2 = "w2\<lparr>g_SkNbPool := nb\<rparr>"
    have v2: "g_InjectionHandle ?w2 = [h0, h1]" "g_SkNblPool ?w2 = nbl" "g_SkNbPool ?w2 = nb" "g_SkInjectInited ?w2 = 1"
        "ledger ?w2 = ledger w2"
      using inj_view_same [OF b' [THEN conjunct1]] v1 ndis_ok_update(4) [OF N] by simp_all
    show ?thesis
    proof (cases "nb = NULL")
      case False
      have "ledger w2 = (insert h1 (insert h0 (fst L)), insert nbl (fst (snd L)), insert nb (snd (snd L)))"
        "nbl \<notin> fst (snd L)" "nb \<notin> snd (snd L)"
        using a' b' nbl False led v1(5) by (cases L; simp)+
      then show ?thesis
        using v2 nbl False hs led run by (auto simp: inject_pools_def a b init_done_def)
    next
      case True
      let ?w3 = "(nd_FreeNblPool N nbl ?w2)\<lparr>g_SkNblPool := NULL\<rparr>"
      have v3: "g_InjectionHandle ?w3 = [h0, h1]" "g_SkNblPool ?w3 = NULL" "g_SkNbPool ?w3 = NULL"
        using inj_view_same [OF ndis_okD(4) [OF N, where w = ?w2]] v2 True by simp_all
      have "ledger ?w3 = apfst (insert h1) (apfst (insert h0) L)"
        using a' b' nbl True led v1(5) v2(5) ndis_ok_update(3) [OF N] ndis_okD(5) [OF N, where w = ?w2] by (cases L) auto
      from rollback_both [OF N v3(1) hs(2) v3(2,3) this led(2,3)] show ?thesis
        using nbl True v2(2) run by (auto simp: inject_pools_def a b)
    qed
  qed
qed

text \<open>The start of the injection subsystem takes everything or nothing. On success both handles and both
  pools exist, they are new, and the globals hold exactly them. On failure the globals are as
  before (NULL, not initialised), no pool is left, and no handle either if the kernel confirms
  the destruction of a handle that was never used; the code does not look at that answer.\<close>

theorem inject_init_balanced:
  assumes "ndis_ok ledger N ShOps" and "init_clean w"
  shows "\<exists>st v. SkInjectInit N ShOps w = (st, v) \<and>
    (NT_SUCCESS st \<longrightarrow> init_done ledger (ledger w) v) \<and>
    (\<not> NT_SUCCESS st \<longrightarrow> init_clean v \<and> snd (ledger v) = snd (ledger w) \<and> fst (ledger w) \<subseteq> fst (ledger v) \<and>
       ((\<forall>h u. fst (op_InjectionHandleDestroy ShOps h u) = STATUS_SUCCESS) \<longrightarrow> ledger v = ledger w))"
proof -
  let ?a = "w\<lparr>g_SkInjectInited := 1, g_InjectionTrack := [ShWfpObjectInit ''injectHandleV4'' 0 0 None,
      ShWfpObjectInit ''injectHandleV6'' 0 0 None]\<rparr>"
  have la: "ledger ?a = ledger w" by (simp add: ndis_ok_update [OF assms(1)])
  obtain st0 h0 w0 where c0: "nd_HandleCreate N 2 ?a = (st0, h0, w0)" by (rule prod_cases3)
  note c0' = ndis_okD(1) [OF assms(1) c0]
  have hs0: "g_InjectionHandle w0 = [NULL, NULL]"
    using inj_view_same(1) [OF c0' [THEN conjunct1]] assms(2) by (simp add: init_clean_def)
  let ?b = "set_handle 0 h0 w0"
  have vb: "g_InjectionHandle ?b = [h0, NULL]" "g_SkNblPool ?b = NULL" "g_SkNbPool ?b = NULL" "g_SkInjectInited ?b = 1"
      "ledger ?b = ledger w0"
    using inj_view_same [OF c0' [THEN conjunct1]] assms(2) ndis_ok_update(1) [OF assms(1)] by (simp_all add: set_handle_def init_clean_def)
  obtain st1 h1 w1 where c1: "nd_HandleCreate N 23 ?b = (st1, h1, w1)" by (rule prod_cases3)
  note c1' = ndis_okD(1) [OF assms(1) c1]
  let ?c = "set_handle 1 h1 w1"
  have vc: "g_InjectionHandle ?c = [h0, h1]" "g_SkNblPool ?c = NULL" "g_SkNbPool ?c = NULL" "g_SkInjectInited ?c = 1"
      "ledger ?c = ledger w1"
    using inj_view_same [OF c1' [THEN conjunct1]] vb ndis_ok_update(1) [OF assms(1)] by (simp_all add: set_handle_def)
  have i0: "g_SkInjectInited w = 0" using assms(2) by (simp add: init_clean_def)
  consider "\<not> NT_SUCCESS st0" | "NT_SUCCESS st0" "\<not> NT_SUCCESS st1" | "NT_SUCCESS st0" "NT_SUCCESS st1" by blast
  then show ?thesis
  proof cases
    case 1
    then have "SkInjectInit N ShOps w = (st0, (set_handle 0 NULL ?b)\<lparr>g_SkInjectInited := 0\<rparr>)"
      by (simp add: SkInjectInit_def i0 c0)
    moreover have "ledger ((set_handle 0 NULL ?b)\<lparr>g_SkInjectInited := 0\<rparr>) = ledger w"
      using 1 c0' la vb(5) ndis_ok_update [OF assms(1)] by (simp add: set_handle_def)
    ultimately show ?thesis using 1 vb hs0 by (simp add: init_clean_def set_handle_def)
  next
    case 2
    define d where "d = set_handle 1 NULL ?c"
    let ?e = "destroy_handle ShOps 0 d"
    have vd: "g_InjectionHandle d = [h0, NULL]" "ledger d = ledger w1" "g_SkNblPool d = NULL" "g_SkNbPool d = NULL"
      using vc ndis_ok_update(1) [OF assms(1)] by (simp_all add: set_handle_def d_def)
    note e = destroy_handle_result [OF assms(1), where i = 0 and w = d]
    have run: "SkInjectInit N ShOps w = (st1, (set_handle 0 NULL ?e)\<lparr>g_SkInjectInited := 0\<rparr>)"
      using 2 by (simp add: SkInjectInit_def i0 c0 c1 d_def)
    have "ledger ((set_handle 0 NULL ?e)\<lparr>g_SkInjectInited := 0\<rparr>) = ledger ?e"
      by (simp add: set_handle_def ndis_ok_update [OF assms(1)])
    moreover have "ledger w1 = apfst (insert h0) (ledger w)" "h0 \<notin> fst (ledger w)"
      using 2 c0' c1' la vb(5) by simp_all
    moreover have "init_clean ((set_handle 0 NULL ?e)\<lparr>g_SkInjectInited := 0\<rparr>)"
      using inj_view_same [OF e(1)] vd by (simp add: init_clean_def set_handle_def)
    ultimately show ?thesis using 2 run e(2-4) vd by (cases "ledger w") auto
  next
    case 3
    obtain st v where run: "inject_pools N ShOps ?c = (st, v)" by fastforce
    have "ledger ?c = apfst (insert h1) (apfst (insert h0) (ledger w))" "h0 \<notin> fst (ledger w)" "h1 \<notin> fst (ledger w)"
        "h0 \<noteq> h1" "NULL \<notin> {h0, h1}"
      using 3 c0' c1' la vb(5) vc(5) by auto
    from inject_pools_result [OF assms(1) vc(1) this(4,5) vc(2-4) this(1-3) run]
    have "if NT_SUCCESS st then init_done ledger (ledger w) v else init_clean v \<and> kept (destroys ShOps) (ledger w) (ledger v)" .
    moreover have "SkInjectInit N ShOps w = (st, v)" using 3 run by (simp add: SkInjectInit_def i0 c0 c1)
    ultimately show ?thesis by (simp add: kept_def split: if_splits)
  qed
qed

section \<open>Quiesce and destruction\<close>

text \<open>
  What other threads do while the quiescing thread sleeps or calls the kernel: once the gate is
  stopped, references are only given back (\<open>RundownProtocol\<close>), and a block reason stays.
\<close>

definition gate_keep :: "'a runtime_scheme \<Rightarrow> 'a runtime_scheme \<Rightarrow> bool" where
  "gate_keep w v \<longleftrightarrow>
     (\<forall>n. rd_rep (rd_count (g_InjectionRundown w)) True n \<longrightarrow> (\<exists>m \<le> n. rd_rep (rd_count (g_InjectionRundown v)) True m)) \<and>
     (g_BlockReason w \<noteq> ShinkenBlockNone \<longrightarrow> g_BlockReason v \<noteq> ShinkenBlockNone)"

definition inj_keep :: "('a inject_scheme \<Rightarrow> inj_ledger) \<Rightarrow> 'a inject_scheme \<Rightarrow> 'a inject_scheme \<Rightarrow> bool" where
  "inj_keep ledger w v \<longleftrightarrow> gate_keep w v \<and> inj_view v = inj_view w \<and> ledger v = ledger w"

lemma gate_keep_refl: "gate_keep w w"
  by (auto simp: gate_keep_def)

lemma gate_keep_trans: "gate_keep u v \<Longrightarrow> gate_keep v w \<Longrightarrow> gate_keep u w"
  unfolding gate_keep_def by (meson le_trans)

lemma gate_keep_update [simp]:
  "gate_keep u (w\<lparr>g_InjectionHandle := hs\<rparr>) = gate_keep u w" "gate_keep u (w\<lparr>g_InjectionTrack := ts\<rparr>) = gate_keep u w"
  by (simp_all add: gate_keep_def)

lemma gate_keep_record: "gate_keep w (ShRuntimeRecordBlock why w)"
  by (auto simp: gate_keep_def record_block_reason)

definition env_ok :: "('a inject_scheme \<Rightarrow> inj_ledger) \<Rightarrow> 'a inject_scheme ops \<Rightarrow> ('a inject_scheme \<Rightarrow> 'a inject_scheme) \<Rightarrow> bool" where
  "env_ok ledger ShOps slp \<longleftrightarrow> (\<forall>w. inj_keep ledger w (slp w)) \<and>
     (\<forall>h w. gate_keep w (snd (op_InjectionHandleDestroy ShOps h w)))"

lemma drain_inj:
  assumes "\<And>w. inj_keep ledger w (slp w)" and "rd_rep (rd_count (g_InjectionRundown w)) True n"
    and "ShInjectionDrain slp k w = (st, v)"
  shows "inj_keep ledger w v \<and> (st = STATUS_SUCCESS \<longrightarrow> rd_rep (rd_count (g_InjectionRundown v)) True 0) \<and>
    (\<exists>m. rd_rep (rd_count (g_InjectionRundown v)) True m)"
  using assms(2,3)
proof (induction k arbitrary: w n)
  case 0
  then show ?case
    using rd_rep_drained [OF 0(1)] rd_enc_inject [of n 0 True False]
    by (auto simp: inj_keep_def gate_keep_refl rd_rep_def Let_def split: if_splits)
next
  case (Suc k)
  show ?case
  proof (cases "rd_count (g_InjectionRundown w) = SHINKEN_RUNDOWN_STOP_BIT")
    case True
    then show ?thesis
      using Suc.prems rd_rep_drained [OF Suc.prems(1)] by (auto simp: inj_keep_def gate_keep_refl)
  next
    case False
    have "rd_count (g_InjectionRundown w) \<noteq> 0" using Suc.prems(1) rd_enc_inject [of n 0 True False] by (auto simp: rd_rep_def)
    then have run: "ShInjectionDrain slp k (slp w) = (st, v)" using False Suc.prems(2) by simp
    have s: "inj_keep ledger w (slp w)" by (rule assms(1))
    then obtain m where "rd_rep (rd_count (g_InjectionRundown (slp w))) True m"
      using Suc.prems(1) unfolding inj_keep_def gate_keep_def by blast
    note IH = Suc.IH [OF this run]
    then have "inj_keep ledger w v" using s gate_keep_trans [of w "slp w" v] by (simp add: inj_keep_def)
    with IH show ?thesis by blast
  qed
qed

text \<open>One handle: destroyed and its ledger entry gone, or the entry stays.\<close>

lemma destroy_retry:
  assumes N: "ndis_ok ledger N ShOps" and env: "env_ok ledger ShOps slp"
    and run: "busy_retry (op_InjectionHandleDestroy ShOps h) (\<lambda>st. st = STATUS_SUCCESS) slp k a w = (st, c, b, v)"
  shows "gate_keep w v \<and> inj_view v = inj_view w \<and> c = (st = STATUS_SUCCESS) \<and>
    ledger v = (if c then apfst (\<lambda>s. s - {h}) (ledger w) else ledger w)"
  using run
proof (induction k arbitrary: a w)
  case 0
  obtain st' u where d: "op_InjectionHandleDestroy ShOps h w = (st', u)" by fastforce
  have "gate_keep w u" using env d unfolding env_ok_def by (metis snd_conv)
  then show ?case using 0 d ndis_okD(8) [OF N d] by (auto split: if_splits)
next
  case (Suc k)
  obtain st' u where d: "op_InjectionHandleDestroy ShOps h w = (st', u)" by fastforce
  have u: "gate_keep w u" using env d unfolding env_ok_def by (metis snd_conv)
  note d' = ndis_okD(8) [OF N d]
  show ?case
  proof (cases "st' = STATUS_DEVICE_BUSY")
    case False
    then show ?thesis using Suc.prems d d' u by (auto split: if_splits)
  next
    case True
    then have run: "busy_retry (op_InjectionHandleDestroy ShOps h) (\<lambda>st. st = STATUS_SUCCESS) slp k (a + 1) (slp u) = (st, c, b, v)"
      using Suc.prems d by simp
    have "inj_keep ledger u (slp u)" using env by (simp add: env_ok_def)
    then have "gate_keep w (slp u)" "inj_view (slp u) = inj_view w" "ledger (slp u) = ledger w"
      using gate_keep_trans [OF u] d' True by (simp_all add: inj_keep_def)
    with Suc.IH [OF run] gate_keep_trans [of w "slp u" v] show ?thesis by simp
  qed
qed

lemma destroy_tracked_step:
  assumes N: "ndis_ok ledger N ShOps" and env: "env_ok ledger ShOps slp"
    and i: "i < length (g_InjectionHandle w)" "i < length (g_InjectionTrack w)"
    and t: "(g_InjectionHandle w ! i = NULL) = (wo_state (g_InjectionTrack w ! i) = ShWfpDeleted)"
  shows "\<exists>ok v. destroy_tracked ShOps slp (i # js) w =
      (if ok then destroy_tracked ShOps slp js v else (False, ShRuntimeRecordBlock ShinkenBlockInjectionDrain v)) \<and>
    gate_keep w v \<and> snd (ledger v) = snd (ledger w) \<and>
    (ok \<longrightarrow> (\<exists>t. inj_view v = ((g_InjectionHandle w)[i := NULL], (g_InjectionTrack w)[i := t], g_SkNblPool w, g_SkNbPool w,
          g_SkInjectInited w)) \<and>
       ledger v = (if g_InjectionHandle w ! i = NULL then ledger w else apfst (\<lambda>s. s - {g_InjectionHandle w ! i}) (ledger w)))"
proof -
  let ?h = "g_InjectionHandle w ! i" and ?t = "g_InjectionTrack w ! i"
  note upd = ndis_ok_update [OF N]
  consider "?h = NULL" | "?h \<noteq> NULL" "wo_state ?t = ShWfpLeaked" | "?h \<noteq> NULL" "wo_state ?t \<noteq> ShWfpLeaked" by blast
  then show ?thesis
  proof cases
    case 1
    then have "destroy_tracked ShOps slp (i # js) w = destroy_tracked ShOps slp js (set_handle i NULL (w\<lparr>g_InjectionTrack := (g_InjectionTrack w)[i := ?t]\<rparr>))"
      using t by (simp add: ShInjectionDestroyTracked_def)
    then show ?thesis
      using 1 by (intro exI [of _ True] exI [of _ "set_handle i NULL (w\<lparr>g_InjectionTrack := (g_InjectionTrack w)[i := ?t]\<rparr>)"])
        (simp add: set_handle_def inj_view_def upd gate_keep_refl, metis list_update_id)
  next
    case 2
    then show ?thesis
      by (intro exI [of _ False] exI [of _ "w\<lparr>g_InjectionTrack := (g_InjectionTrack w)[i := ?t]\<rparr>"])
        (simp add: ShInjectionDestroyTracked_def upd gate_keep_refl)
  next
    case 3
    obtain st c b v where r: "busy_retry (op_InjectionHandleDestroy ShOps ?h) (\<lambda>st. st = STATUS_SUCCESS) slp
        (unat SK_INJECT_BUSY_RETRIES) 0 w = (st, c, b, v)" by (metis prod_cases4)
    note r' = destroy_retry [OF N env r]
    let ?n = "?t\<lparr>wo_lastStatus := st, wo_busyRetries := b, wo_state := if c then ShWfpDeleted else ShWfpLeaked\<rparr>"
    let ?u = "v\<lparr>g_InjectionTrack := (g_InjectionTrack v)[i := ?n]\<rparr>"
    have run: "ShInjectionDestroyTracked ShOps slp ?h SK_INJECT_BUSY_RETRIES ?t w = (st, ?n, v)"
      using 3 t r by (simp add: ShInjectionDestroyTracked_def retry_outcome_def)
    have eq: "destroy_tracked ShOps slp (i # js) w = (if c then destroy_tracked ShOps slp js (set_handle i NULL ?u)
        else (False, ShRuntimeRecordBlock ShinkenBlockInjectionDrain ?u))"
      using r' run by simp
    show ?thesis
    proof (cases c)
      case True
      then have "inj_view (set_handle i NULL ?u) = ((g_InjectionHandle w)[i := NULL], (g_InjectionTrack w)[i := ?n],
          g_SkNblPool w, g_SkNbPool w, g_SkInjectInited w)"
        using r' by (simp add: set_handle_def inj_view_def)
      then show ?thesis
        using 3 eq r' True by (intro exI [of _ True] exI [of _ "set_handle i NULL ?u"]) (auto simp: set_handle_def upd)
    next
      case False
      then show ?thesis using eq r' by (intro exI [of _ False] exI [of _ ?u]) (simp add: upd)
    qed
  qed
qed

text \<open>The state between init and the end of the quiesce.\<close>

definition inj_up :: "'a inject_scheme \<Rightarrow> bool" where
  "inj_up w \<longleftrightarrow> g_SkInjectInited w \<noteq> 0 \<and> length (g_InjectionHandle w) = 2 \<and> length (g_InjectionTrack w) = 2 \<and>
     (\<forall>i < 2. (g_InjectionHandle w ! i = NULL) = (wo_state (g_InjectionTrack w ! i) = ShWfpDeleted)) \<and>
     g_InjectionHandle w ! 0 \<noteq> g_InjectionHandle w ! 1"

lemma begin_refused: "rd_rep (rd_count (g_InjectionRundown v)) True m \<Longrightarrow> \<not> fst (ShInjectionBegin v)"
  by (simp add: ShInjectionBegin_def acquire_stopped)

lemma gate_keep_stopped:
  "gate_keep w v \<Longrightarrow> rd_rep (rd_count (g_InjectionRundown w)) True 0 \<Longrightarrow> rd_rep (rd_count (g_InjectionRundown v)) True 0"
  unfolding gate_keep_def by (metis le_zero_eq)

lemma destroy_both:
  assumes N: "ndis_ok ledger N ShOps" and env: "env_ok ledger ShOps slp" and up: "inj_up w"
    and run: "destroy_tracked ShOps slp [0, 1] w = (ok, v)"
  shows "gate_keep w v \<and> snd (ledger v) = snd (ledger w) \<and>
    (ok \<longrightarrow> g_InjectionHandle v = [NULL, NULL] \<and> g_SkNblPool v = g_SkNblPool w \<and> g_SkNbPool v = g_SkNbPool w \<and>
       fst (ledger v) = fst (ledger w) - (set (g_InjectionHandle w) - {NULL})) \<and>
    (\<not> ok \<longrightarrow> g_BlockReason v \<noteq> ShinkenBlockNone)"
proof -
  obtain h0 h1 where hs: "g_InjectionHandle w = [h0, h1]" "h0 \<noteq> h1"
    using up by (auto simp: inj_up_def numeral_2_eq_2 length_Suc_conv)
  obtain t0 t1 where ts: "g_InjectionTrack w = [t0, t1]"
    using up by (auto simp: inj_up_def numeral_2_eq_2 length_Suc_conv)
  have t: "(h0 = NULL) = (wo_state t0 = ShWfpDeleted)" "(h1 = NULL) = (wo_state t1 = ShWfpDeleted)"
    using up hs ts by (auto simp: inj_up_def numeral_2_eq_2 less_Suc_eq)
  have "0 < length (g_InjectionHandle w)" "0 < length (g_InjectionTrack w)"
      "(g_InjectionHandle w ! 0 = NULL) = (wo_state (g_InjectionTrack w ! 0) = ShWfpDeleted)" using hs ts t by simp_all
  from destroy_tracked_step [OF N env this, of "[1]"] obtain ok0 u t0' where
    u: "destroy_tracked ShOps slp [0, 1] w =
        (if ok0 then destroy_tracked ShOps slp [1] u else (False, ShRuntimeRecordBlock ShinkenBlockInjectionDrain u))"
      "gate_keep w u" "snd (ledger u) = snd (ledger w)"
      "ok0 \<Longrightarrow> inj_view u = ([NULL, h1], [t0', t1], g_SkNblPool w, g_SkNbPool w, g_SkInjectInited w)"
      "ok0 \<Longrightarrow> ledger u = (if h0 = NULL then ledger w else apfst (\<lambda>s. s - {h0}) (ledger w))"
    unfolding hs ts by auto
  show ?thesis
  proof (cases ok0)
    case False
    then show ?thesis using run u(1-3) gate_keep_trans [OF u(2) gate_keep_record] ndis_ok_update(7) [OF N] by (auto simp: record_block_some simp del: destroy_tracked.simps(2))
  next
    case True
    note uv = inj_viewD [OF u(4) [OF True]]
    have "1 < length (g_InjectionHandle u)" "1 < length (g_InjectionTrack u)"
        "(g_InjectionHandle u ! 1 = NULL) = (wo_state (g_InjectionTrack u ! 1) = ShWfpDeleted)" using uv t by simp_all
    from destroy_tracked_step [OF N env this, of "[]"] obtain ok1 x t1' where
      x: "destroy_tracked ShOps slp [1] u =
          (if ok1 then destroy_tracked ShOps slp [] x else (False, ShRuntimeRecordBlock ShinkenBlockInjectionDrain x))"
        "gate_keep u x" "snd (ledger x) = snd (ledger u)"
        "ok1 \<Longrightarrow> inj_view x = ([NULL, NULL], [t0', t1'], g_SkNblPool w, g_SkNbPool w, g_SkInjectInited w)"
        "ok1 \<Longrightarrow> ledger x = (if h1 = NULL then ledger u else apfst (\<lambda>s. s - {h1}) (ledger u))"
      unfolding uv by auto
    have wx: "gate_keep w x" using gate_keep_trans [OF u(2) x(2)] .
    show ?thesis
    proof (cases ok1)
      case False
      then show ?thesis using True run u(1,3) x(1,3) gate_keep_trans [OF wx gate_keep_record] ndis_ok_update(7) [OF N] by (auto simp: record_block_some simp del: destroy_tracked.simps(2))
    next
      case ok1: True
      have "v = x" "ok" using True ok1 run u(1) x(1) by (simp_all del: destroy_tracked.simps(2))
      moreover have "fst (ledger x) = fst (ledger w) - ({h0, h1} - {NULL})"
        using x(5) [OF ok1] u(5) [OF True] by auto
      ultimately show ?thesis using wx x(3) u(3) inj_viewD [OF x(4) [OF ok1]] hs by simp
    qed
  qed
qed

text \<open>C33: the end of the injection subsystem. The quiesce returns with the gate closed: no injection can begin
  any more. TRUE: no injection is in flight, the kernel has confirmed the destruction of both
  handles, exactly these two are gone, and the destruction that follows frees exactly the two
  pools. FALSE: a block reason is recorded and both pools are still there, because completions
  may still touch them.\<close>

theorem inject_quiesce_correct:
  assumes "ndis_ok ledger N ShOps" and "env_ok ledger ShOps slp" and "inj_up w"
    and "rd_rep (rd_count (g_InjectionRundown w)) s n"
  shows "\<exists>ok v. SkInjectQuiesce ShOps slp w = (ok, v) \<and> \<not> fst (ShInjectionBegin v) \<and> snd (ledger v) = snd (ledger w) \<and>
    (ok \<longrightarrow> ShRundownActiveCount (g_InjectionRundown v) = - 1 \<and> g_InjectionHandle v = [NULL, NULL] \<and>
       fst (ledger v) = fst (ledger w) - (set (g_InjectionHandle w) - {NULL}) \<and>
       snd (ledger (SkInjectDestroy N v)) =
         (fst (snd (ledger w)) - ({g_SkNblPool w} - {NULL}), snd (snd (ledger w)) - ({g_SkNbPool w} - {NULL}))) \<and>
    (\<not> ok \<longrightarrow> g_BlockReason v \<noteq> ShinkenBlockNone)"
proof -
  let ?g = "ShInjectionGateStop w"
  have g: "rd_rep (rd_count (g_InjectionRundown ?g)) True n" "ledger ?g = ledger w" "inj_view ?g = inj_view w"
    using begin_stop_rep [OF assms(4)] ndis_ok_update(6) [OF assms(1)] by (simp_all add: ShInjectionGateStop_def inj_view_def)
  obtain st u where d: "ShInjectionDrain slp SK_INJECT_DRAIN_RETRIES ?g = (st, u)" by fastforce
  have "\<And>w. inj_keep ledger w (slp w)" using assms(2) by (simp add: env_ok_def)
  from drain_inj [OF this g(1) d] obtain m where u: "inj_keep ledger ?g u" "rd_rep (rd_count (g_InjectionRundown u)) True m"
      "st = STATUS_SUCCESS \<Longrightarrow> rd_rep (rd_count (g_InjectionRundown u)) True 0" by blast
  then have lu: "ledger u = ledger w" "inj_view u = inj_view w" using g by (simp_all add: inj_keep_def)
  have init: "g_SkInjectInited w \<noteq> 0" using assms(3) by (simp add: inj_up_def)
  show ?thesis
  proof (cases "st = STATUS_SUCCESS")
    case False
    then have "SkInjectQuiesce ShOps slp w = (False, ShRuntimeRecordBlock ShinkenBlockInjectionDrain u)"
      using init d by (simp add: SkInjectQuiesce_def)
    then show ?thesis
      using begin_refused [of "ShRuntimeRecordBlock ShinkenBlockInjectionDrain u" m] u(2) lu ndis_ok_update(7) [OF assms(1)]
      by (auto simp: record_block_some)
  next
    case True
    obtain ok v where r: "destroy_tracked ShOps slp [0, 1] u = (ok, v)" by fastforce
    have run: "SkInjectQuiesce ShOps slp w = (ok, v)" using True init d r by (simp add: SkInjectQuiesce_def)
    have "inj_up u" using assms(3) inj_view_same [OF lu(2)] by (simp add: inj_up_def)
    note b = destroy_both [OF assms(1,2) this r]
    have rep: "rd_rep (rd_count (g_InjectionRundown v)) True 0" using gate_keep_stopped b u(3) [OF True] by blast
    then have "ShRundownActiveCount (g_InjectionRundown v) = - 1" by (simp add: active_count_rep)
    moreover have "snd (ledger (SkInjectDestroy N v)) =
        (fst (snd (ledger v)) - ({g_SkNblPool v} - {NULL}), snd (snd (ledger v)) - ({g_SkNbPool v} - {NULL}))"
      using ndis_okD(4-7) [OF assms(1)] ndis_ok_update(3,4) [OF assms(1)]
      by (cases "ledger v") (auto simp: SkInjectDestroy_def Let_def inj_view_def)
    ultimately show ?thesis using run b begin_refused [OF rep] lu inj_view_same [OF lu(2)] by auto
  qed
qed

section \<open>A concrete kernel\<close>

text \<open>Handles are numbered by their address family; \<open>ik_pools\<close>: the NB pool can be allocated.\<close>

record inj_kernel = inject +
  ik_handles :: "handle set"
  ik_nbl :: "handle set"
  ik_nb :: "handle set"
  ik_pools :: bool

definition ik_ndis :: "inj_kernel ndis" where
  "ik_ndis = \<lparr>nd_HandleCreate = (\<lambda>f w. let h = ucast f in
        if h = 0 \<or> h \<in> ik_handles w then (STATUS_INSUFFICIENT_RESOURCES, NULL, w)
        else (STATUS_SUCCESS, h, w\<lparr>ik_handles := insert h (ik_handles w)\<rparr>)),
     nd_AllocNblPool = (\<lambda>w. if 5 \<in> ik_nbl w then (NULL, w) else (5, w\<lparr>ik_nbl := insert 5 (ik_nbl w)\<rparr>)),
     nd_AllocNbPool = (\<lambda>w. if 6 \<in> ik_nb w \<or> \<not> ik_pools w then (NULL, w) else (6, w\<lparr>ik_nb := insert 6 (ik_nb w)\<rparr>)),
     nd_FreeNblPool = (\<lambda>h w. w\<lparr>ik_nbl := ik_nbl w - {h}\<rparr>),
     nd_FreeNbPool = (\<lambda>h w. w\<lparr>ik_nb := ik_nb w - {h}\<rparr>)\<rparr>"

definition ik_ops :: "inj_kernel ops" where
  "ik_ops = \<lparr>op_UnregisterCalloutById = \<lambda>i. Pair STATUS_SUCCESS, op_UnregisterCalloutByKey = \<lambda>k. Pair STATUS_SUCCESS,
     op_FilterDeleteById = \<lambda>h i. Pair STATUS_SUCCESS, op_FilterDeleteByKey = \<lambda>h k. Pair STATUS_SUCCESS,
     op_CalloutDeleteById = \<lambda>h i. Pair STATUS_SUCCESS, op_CalloutDeleteByKey = \<lambda>h k. Pair STATUS_SUCCESS,
     op_ProviderDeleteByKey = \<lambda>h k. Pair STATUS_SUCCESS, op_SubLayerDeleteByKey = \<lambda>h k. Pair STATUS_SUCCESS,
     op_EngineClose = \<lambda>h. Pair STATUS_SUCCESS,
     op_InjectionHandleDestroy = \<lambda>h w. (STATUS_SUCCESS, w\<lparr>ik_handles := ik_handles w - {h}\<rparr>),
     op_FlowRemoveContext = \<lambda>f l c. Pair STATUS_SUCCESS, op_BfeUnsubscribe = \<lambda>h. Pair STATUS_SUCCESS\<rparr>"

definition ik_ledger :: "inj_kernel \<Rightarrow> inj_ledger" where
  "ik_ledger w = (ik_handles w, ik_nbl w, ik_nb w)"

lemma ik_ok: "ndis_ok ik_ledger ik_ndis ik_ops"
proof -
  have "ik_ledger (ShRuntimeRecordBlock why w) = ik_ledger w" for why w
    by (simp add: ik_ledger_def ShRuntimeRecordBlock_def Let_def)
  then show ?thesis
    by (simp add: ndis_ok_def ik_ndis_def ik_ops_def inj_view_def Let_def NT_SUCCESS_def word_sle_eq)
      (simp add: ik_ledger_def)
qed

lemma ik_env: "env_ok ik_ledger ik_ops id"
  by (simp add: env_ok_def inj_keep_def gate_keep_refl ik_ops_def) (simp add: gate_keep_def, blast)

definition image_inject :: inject where
  "image_inject = device.extend image_device
     \<lparr>g_InjectionHandle = [NULL, NULL], g_InjectionTrack = [], g_SkNblPool = NULL, g_SkNbPool = NULL, g_SkInjectInited = 0\<rparr>"

definition ik_start :: "bool \<Rightarrow> inj_kernel" where
  "ik_start pools = inject.extend image_inject \<lparr>ik_handles = {}, ik_nbl = {}, ik_nb = {}, ik_pools = pools\<rparr>"

lemmas ik_eval = ik_start_def image_inject_def inject.defs device.defs

lemma drain_stopped:
  "rd_count (g_InjectionRundown w) = SHINKEN_RUNDOWN_STOP_BIT \<Longrightarrow> ShInjectionDrain slp n w = (STATUS_SUCCESS, w)"
  by (cases n) simp_all

lemma busy_retry_first: "call w = (st, v) \<Longrightarrow> gone st \<Longrightarrow> busy_retry call gone between n a w = (st, True, a, v)"
  by (cases n) simp_all

theorem inject_init_balanced_witness:
  "let (st, v) = SkInjectInit ik_ndis ik_ops (ik_start False) in \<not> NT_SUCCESS st \<and> ik_ledger v = ({}, {}, {})"
proof -
  have "init_clean (ik_start False)" by (simp add: init_clean_def ik_eval)
  moreover have "\<not> NT_SUCCESS (fst (SkInjectInit ik_ndis ik_ops (ik_start False)))"
    by (simp add: SkInjectInit_def inject_pools_def ik_ndis_def ik_eval Let_def NT_SUCCESS_def word_sle_eq set_handle_def)
  moreover have "ik_ledger (ik_start False) = ({}, {}, {})" by (simp add: ik_ledger_def ik_eval)
  moreover have "fst (op_InjectionHandleDestroy ik_ops h u) = STATUS_SUCCESS" for h u by (simp add: ik_ops_def)
  ultimately show ?thesis using inject_init_balanced [OF ik_ok, of "ik_start False"] by auto
qed

theorem inject_quiesce_correct_witness:
  "let (ok, v) = SkInjectQuiesce ik_ops id ((ik_start True)\<lparr>g_SkInjectInited := 1, g_InjectionHandle := [2, 23],
       g_InjectionTrack := replicate 2 (ShWfpObjectInit ''h'' 0 0 None), ik_handles := {2, 23}\<rparr>)
   in ok \<and> ik_handles v = {} \<and> \<not> fst (ShInjectionBegin v)"
proof -
  let ?w = "(ik_start True)\<lparr>g_SkInjectInited := 1, g_InjectionHandle := [2, 23],
       g_InjectionTrack := replicate 2 (ShWfpObjectInit ''h'' 0 0 None), ik_handles := {2, 23}\<rparr>"
  have cnt: "rd_count (g_InjectionRundown ?w) = 0"
    by (simp add: ik_eval image_device_def wfp.defs image_wfp_def image_flows_def image_telemetry_def image_evq_def image_store_def
        image_engine_def image_runtime_def flow.defs telemetry.defs evq.defs store.defs engine.defs runtime.defs zero_rundown_def)
  then have rep: "rd_rep (rd_count (g_InjectionRundown ?w)) False 0" by (simp add: rd_rep_def)
  have "inj_up ?w" by (auto simp: inj_up_def ShWfpObjectInit_def dest!: less_2_cases)
  from inject_quiesce_correct [OF ik_ok ik_env this rep] obtain ok v where
    v: "SkInjectQuiesce ik_ops id ?w = (ok, v)" "\<not> fst (ShInjectionBegin v)"
      "ok \<Longrightarrow> fst (ik_ledger v) = fst (ik_ledger ?w) - (set (g_InjectionHandle ?w) - {NULL})" by blast
  have "fst (SkInjectQuiesce ik_ops id ?w)"
    using cnt by (simp add: SkInjectQuiesce_def ShInjectionGateStop_def ShRundownBeginStop_def drain_stopped busy_retry_first
        ShInjectionDestroyTracked_def ik_ops_def retry_outcome_def ShWfpObjectInit_def set_handle_def)
  then show ?thesis using v by (simp add: ik_ledger_def)
qed

end
