(* ===== verification/Classify.thy ===== *)
theory Classify
  imports Injection
begin

text \<open>
  packet/classify.c: the callbacks WFP calls for every connection and flow. The build that is
  modelled is the one for the kernel (the branches without \<open>SHINKEN_HOST_SHIM\<close>).

  WFP's inputs are values: the array of field values with its count, the metadata with one
  boolean for each of the three bits of \<open>currentMetadataValues\<close> the code tests, and the part
  of \<open>FWPS_CLASSIFY_OUT0\<close> the code writes. A pointer that may be NULL is an option. A read
  behind the end of an array is \<open>None\<close> as the result of the operation, like every invalid
  access.

  What the callbacks take from the kernel is the record \<open>classify_env\<close>: the clock readings,
  whether an allocation succeeds, what other threads do while a telemetry post is under way,
  and the call that associates a flow context.
\<close>

abbreviation (input) FWP_ACTION_BLOCK :: u32 where "FWP_ACTION_BLOCK \<equiv> 0x1001"
abbreviation (input) FWP_ACTION_PERMIT :: u32 where "FWP_ACTION_PERMIT \<equiv> 0x1002"
abbreviation (input) FWPS_RIGHT_ACTION_WRITE :: u64 where "FWPS_RIGHT_ACTION_WRITE \<equiv> 1"

abbreviation (input) SK_F_LOCAL_ADDR :: u32 where "SK_F_LOCAL_ADDR \<equiv> 2"
abbreviation (input) SK_F_LOCAL_PORT :: u32 where "SK_F_LOCAL_PORT \<equiv> 4"
abbreviation (input) SK_F_PROTOCOL :: u32 where "SK_F_PROTOCOL \<equiv> 5"
abbreviation (input) SK_F_REMOTE_ADDR :: u32 where "SK_F_REMOTE_ADDR \<equiv> 6"
abbreviation (input) SK_F_REMOTE_PORT :: u32 where "SK_F_REMOTE_PORT \<equiv> 7"

abbreviation (input) SK_EVT_VERDICT_AUDIT :: u32 where "SK_EVT_VERDICT_AUDIT \<equiv> 1"
abbreviation (input) SK_EVT_RATE_LIMITED :: u32 where "SK_EVT_RATE_LIMITED \<equiv> 3"

abbreviation (input) SkLayerAleAuthConnectV4 :: u32 where "SkLayerAleAuthConnectV4 \<equiv> 0"
abbreviation (input) SkLayerAleAuthConnectV6 :: u32 where "SkLayerAleAuthConnectV6 \<equiv> 1"
abbreviation (input) SkLayerAleRecvAcceptV4 :: u32 where "SkLayerAleRecvAcceptV4 \<equiv> 2"
abbreviation (input) SkLayerAleRecvAcceptV6 :: u32 where "SkLayerAleRecvAcceptV6 \<equiv> 3"

section \<open>Inputs\<close>

text \<open>The union of a field value: its eight bytes, and the array its pointer member leads to.\<close>

record fwp_value =
  fv_bits :: u64
  fv_byteArray16 :: "u8 list option"

record incoming_values =
  in_valueCount :: u32
  in_incomingValue :: "fwp_value list option"

record byte_blob =
  bb_size :: u32
  bb_data :: "u8 list option"

record metadata =
  md_hasProcessId :: bool
  md_hasProcessPath :: bool
  md_hasFlowHandle :: bool
  md_processId :: u64
  md_processPath :: "byte_blob option"
  md_flowHandle :: u64

record classify_out =
  co_actionType :: u32
  co_rights :: u64

record 'w classify_env =
  ce_now :: u64
  ce_freq :: u64
  ce_start :: u64
  ce_bucket :: u64
  ce_end :: u64
  ce_event_alloc :: bool
  ce_barrier :: "'w \<Rightarrow> 'w"
  ce_flow_alloc :: bool
  ce_FlowAssociateContext :: "u64 \<Rightarrow> u16 \<Rightarrow> u32 \<Rightarrow> nat \<Rightarrow> 'w \<Rightarrow> ntstatus \<times> 'w"

section \<open>Field reads\<close>

definition skClassifySelfInjected :: "u64 \<Rightarrow> bool" where
  "skClassifySelfInjected flowContext = SkInjectIsSelf flowContext"

definition value_at :: "incoming_values \<Rightarrow> u32 \<Rightarrow> fwp_value option" where
  "value_at inn idx = do {
     vs \<leftarrow> in_incomingValue inn;
     if unat idx < length vs then Some (vs ! unat idx) else None
   }"

definition skFieldU8 :: "incoming_values \<Rightarrow> u32 \<Rightarrow> u8 option" where
  "skFieldU8 inn idx =
     (if in_valueCount inn > idx then do { v \<leftarrow> value_at inn idx; Some (ucast (fv_bits v)) }
      else Some 0)"

definition skFieldU16 :: "incoming_values \<Rightarrow> u32 \<Rightarrow> u16 option" where
  "skFieldU16 inn idx =
     (if in_valueCount inn > idx then do { v \<leftarrow> value_at inn idx; Some (ucast (fv_bits v)) }
      else Some 0)"

definition skFieldAddr :: "incoming_values \<Rightarrow> u32 \<Rightarrow> u32 \<Rightarrow> u8 list \<Rightarrow> u8 list option" where
  "skFieldAddr inn idx family out =
     (if in_valueCount inn \<le> idx then Some out
      else do {
        f \<leftarrow> value_at inn idx;
        if family = AF_INET
        then let v = ucast (fv_bits f) :: u32 in
          Some (out[0 := ucast (drop_bit 24 v), 1 := ucast (drop_bit 16 v),
                    2 := ucast (drop_bit 8 v), 3 := ucast v])
        else (case fv_byteArray16 f of
            None \<Rightarrow> Some out
          | Some a \<Rightarrow> if 16 \<le> length a then Some (take 16 a @ drop 16 out) else None)
      })"

definition skLayerFamily :: "u32 \<Rightarrow> u32" where
  "skLayerFamily layerId =
     (if layerId = SkLayerAleAuthConnectV4 \<or> layerId = SkLayerAleRecvAcceptV4 \<or>
         layerId = SkLayerFlowEstablishedV4
      then AF_INET else AF_INET6)"

section \<open>The tuple\<close>

definition default_direction :: "u32 \<Rightarrow> u32" where
  "default_direction layerId =
     (if layerId = SkLayerAleAuthConnectV4 \<or> layerId = SkLayerAleAuthConnectV6
      then SK_RULE_DIR_OUT
      else if layerId = SkLayerAleRecvAcceptV4 \<or> layerId = SkLayerAleRecvAcceptV6
      then SK_RULE_DIR_IN else 0)"

definition tuple_fields :: "incoming_values option \<Rightarrow> tuple \<Rightarrow> tuple option" where
  "tuple_fields inFixed out =
     (case inFixed of
        None \<Rightarrow> Some out
      | Some inn \<Rightarrow>
          if in_incomingValue inn = None then Some out
          else do {
            proto \<leftarrow> skFieldU8 inn SK_F_PROTOCOL;
            la \<leftarrow> skFieldAddr inn SK_F_LOCAL_ADDR (t_family out) (t_localAddr out);
            ra \<leftarrow> skFieldAddr inn SK_F_REMOTE_ADDR (t_family out) (t_remoteAddr out);
            lp \<leftarrow> skFieldU16 inn SK_F_LOCAL_PORT;
            rp \<leftarrow> skFieldU16 inn SK_F_REMOTE_PORT;
            Some (out\<lparr>t_protocol := ucast proto, t_localAddr := la, t_remoteAddr := ra,
                      t_localPort := ucast lp, t_remotePort := ucast rp\<rparr>)
          })"

text \<open>The image path: \<open>size / sizeof(WCHAR)\<close> characters at \<open>data\<close>; no hash without them.\<close>

definition path_hash :: "byte_blob \<Rightarrow> u64 option option" where
  "path_hash blob =
     (case bb_data blob of
        None \<Rightarrow> Some None
      | Some data \<Rightarrow>
          if bb_size blob < 2 then Some None
          else do {
            path \<leftarrow> path_at 0 (unat (bb_size blob div 2)) data;
            Some (Some (SkRuleHashAppPath (Some path) (bb_size blob div 2)))
          })"

definition tuple_metadata :: "metadata option \<Rightarrow> tuple \<Rightarrow> tuple option" where
  "tuple_metadata meta out =
     (case meta of
        None \<Rightarrow> Some out
      | Some m \<Rightarrow>
          let out = (if md_hasProcessId m \<and> md_processId m \<noteq> 0
                     then out\<lparr>t_processId := ucast (md_processId m)\<rparr> else out)
          in (case (if md_hasProcessPath m then md_processPath m else None) of
                None \<Rightarrow> Some out
              | Some blob \<Rightarrow> do {
                  h \<leftarrow> path_hash blob;
                  Some (case h of None \<Rightarrow> out | Some a \<Rightarrow> out\<lparr>t_appId := a\<rparr>)
                }))"

definition SkClassifyBuildTuple ::
    "u64 \<Rightarrow> u32 \<Rightarrow> incoming_values option \<Rightarrow> metadata option \<Rightarrow> tuple option" where
  "SkClassifyBuildTuple now layerId inFixed meta = do {
     let out = zero_tuple\<lparr>t_layerId := layerId, t_family := skLayerFamily layerId,
                          t_direction := default_direction layerId\<rparr>;
     out \<leftarrow> tuple_fields inFixed out;
     out \<leftarrow> tuple_metadata meta out;
     Some (out\<lparr>t_nowUtc100ns := now\<rparr>)
   }"

section \<open>Telemetry\<close>

text \<open>\<open>SK_EVENT_RECORD\<close> as its 80 bytes.\<close>

definition event_record :: "u32 \<Rightarrow> u64 \<Rightarrow> tuple \<Rightarrow> u8 list" where
  "event_record ty ruleId t =
     le_bytes 8 (unat (t_nowUtc100ns t)) @ le_bytes 8 (unat ruleId) @ le_bytes 4 (unat ty) @
     le_bytes 4 (unat (t_family t)) @ le_bytes 4 (unat (t_protocol t)) @
     le_bytes 4 (unat (t_direction t)) @ le_bytes 4 (unat (t_processId t)) @
     le_bytes 4 (unat (t_localPort t)) @ le_bytes 4 (unat (t_remotePort t)) @ le_bytes 4 0 @
     take 16 (t_localAddr t) @ take 16 (t_remoteAddr t)"

definition skClassifyPostEvent ::
    "'a wfp_scheme classify_env \<Rightarrow> u32 \<Rightarrow> u64 \<Rightarrow> tuple \<Rightarrow> 'a wfp_scheme \<Rightarrow> 'a wfp_scheme" where
  "skClassifyPostEvent env ty ruleId t w =
     snd (SkTelemetryPostRecord (ce_event_alloc env) (ce_barrier env) ty
       (Some (event_record ty ruleId t)) SK_EVENT_RECORD_SIZE w)"

definition post_verdict ::
    "'a wfp_scheme classify_env \<Rightarrow> verdict \<Rightarrow> tuple \<Rightarrow> 'a wfp_scheme \<Rightarrow> 'a wfp_scheme" where
  "post_verdict env v t w =
     (if v_rateLimited v \<noteq> 0 then skClassifyPostEvent env SK_EVT_RATE_LIMITED (v_ruleId v) t w
      else if v_action v = SkVerdictAudit
      then skClassifyPostEvent env SK_EVT_VERDICT_AUDIT (v_ruleId v) t w
      else w)"

section \<open>The verdict\<close>

definition may_write :: "classify_out \<Rightarrow> bool" where
  "may_write co \<longleftrightarrow> co_rights co AND FWPS_RIGHT_ACTION_WRITE \<noteq> 0"

definition write_action :: "u32 \<Rightarrow> classify_out \<Rightarrow> classify_out" where
  "write_action action co =
     co\<lparr>co_actionType := action, co_rights := co_rights co AND NOT FWPS_RIGHT_ACTION_WRITE\<rparr>"

definition write_verdict :: "u32 \<Rightarrow> verdict \<Rightarrow> classify_out \<Rightarrow> classify_out" where
  "write_verdict layerId v co =
     (if v_action v = SkVerdictBlock \<and>
         (case SkCalloutDefById layerId of None \<Rightarrow> False | Some def \<Rightarrow> cd_hardBlockAllowed def \<noteq> 0)
      then write_action FWP_ACTION_BLOCK co
      else write_action FWP_ACTION_PERMIT co)"

definition SkClassifyApplyVerdict ::
    "'a wfp_scheme classify_env \<Rightarrow> u32 \<Rightarrow> tuple option \<Rightarrow> classify_out option \<Rightarrow> 'a wfp_scheme
     \<Rightarrow> (classify_out option \<times> 'a wfp_scheme) option" where
  "SkClassifyApplyVerdict env layerId tuple classifyOut w =
     (case tuple of
        None \<Rightarrow> Some (classifyOut, w)
      | Some t \<Rightarrow> do {
          (snap, w) \<leftarrow> SkRuleStoreAcquire w;
          (v, w) \<leftarrow> SkRuleEvaluate (ce_freq env) (ce_start env) (ce_bucket env) (ce_end env) snap t w;
          w \<leftarrow> SkRuleStoreRelease snap w;
          let w = post_verdict env v t w;
          Some (case classifyOut of
              None \<Rightarrow> (classifyOut, w)
            | Some co \<Rightarrow> if may_write co then (Some (write_verdict layerId v co), w)
                else (classifyOut, w))
        })"

section \<open>The callbacks\<close>

definition skClassifyAleCommon ::
    "'a wfp_scheme classify_env \<Rightarrow> u32 \<Rightarrow> incoming_values option \<Rightarrow> metadata option \<Rightarrow> u64
     \<Rightarrow> classify_out option \<Rightarrow> 'a wfp_scheme \<Rightarrow> (classify_out option \<times> 'a wfp_scheme) option" where
  "skClassifyAleCommon env layerId inFixed meta flowContext classifyOut w =
     (case classifyOut of
        None \<Rightarrow> Some (None, w)
      | Some co \<Rightarrow>
          if skClassifySelfInjected flowContext
          then Some (Some (if may_write co then write_action FWP_ACTION_PERMIT co else co), w)
          else do {
            t \<leftarrow> SkClassifyBuildTuple (ce_now env) layerId inFixed meta;
            SkClassifyApplyVerdict env layerId (Some t) classifyOut w
          })"

definition attach_flow ::
    "'a wfp_scheme classify_env \<Rightarrow> u32 \<Rightarrow> u64 \<Rightarrow> 'a wfp_scheme \<Rightarrow> 'a wfp_scheme option" where
  "attach_flow env layerId flowHandle w =
     (let runtimeId = so_calloutRuntimeId (callout_at (unat layerId) w)
      in if runtimeId = 0 then Some w
         else do {
           (ctx, w) \<leftarrow> SkFlowAttach (ce_flow_alloc env) (ce_FlowAssociateContext env) flowHandle layerId runtimeId w;
           (case ctx of
              None \<Rightarrow> Some w
            | Some p \<Rightarrow> do {
                w \<leftarrow> upd_flow p (\<lambda>c. c\<lparr>f_packetsSeen := f_packetsSeen c + 1\<rparr>) w;
                SkFlowRelease p w
              })
         })"

definition skClassifyFlowCommon ::
    "'a wfp_scheme classify_env \<Rightarrow> u32 \<Rightarrow> metadata option \<Rightarrow> u64
     \<Rightarrow> classify_out option \<Rightarrow> 'a wfp_scheme \<Rightarrow> (classify_out option \<times> 'a wfp_scheme) option" where
  "skClassifyFlowCommon env layerId meta flowContext classifyOut w =
     (case classifyOut of
        None \<Rightarrow> Some (None, w)
      | Some co \<Rightarrow>
          let co = (if may_write co then write_action FWP_ACTION_PERMIT co else co)
          in if skClassifySelfInjected flowContext then Some (Some co, w)
             else (case meta of
                 None \<Rightarrow> Some (Some co, w)
               | Some m \<Rightarrow>
                   if \<not> md_hasFlowHandle m \<or> md_flowHandle m = 0 then Some (Some co, w)
                   else do { w \<leftarrow> attach_flow env layerId (md_flowHandle m) w; Some (Some co, w) }))"

definition SkClassifyAleAuthConnectV4 where
  "SkClassifyAleAuthConnectV4 env = skClassifyAleCommon env SkLayerAleAuthConnectV4"

definition SkClassifyAleAuthConnectV6 where
  "SkClassifyAleAuthConnectV6 env = skClassifyAleCommon env SkLayerAleAuthConnectV6"

definition SkClassifyAleRecvAcceptV4 where
  "SkClassifyAleRecvAcceptV4 env = skClassifyAleCommon env SkLayerAleRecvAcceptV4"

definition SkClassifyAleRecvAcceptV6 where
  "SkClassifyAleRecvAcceptV6 env = skClassifyAleCommon env SkLayerAleRecvAcceptV6"

definition SkClassifyFlowEstablishedV4 where
  "SkClassifyFlowEstablishedV4 env (inFixed :: incoming_values option) =
     skClassifyFlowCommon env SkLayerFlowEstablishedV4"

definition SkClassifyFlowEstablishedV6 where
  "SkClassifyFlowEstablishedV6 env (inFixed :: incoming_values option) =
     skClassifyFlowCommon env SkLayerFlowEstablishedV6"

end
