(* ===== verification/ClassifyProps.thy ===== *)
theory ClassifyProps
  imports Classify SnapshotProtocol StoreProperties
begin

text \<open>
  What the callbacks of packet/classify.c guarantee: the tuple they build from WFP's arrays,
  the verdict they write and when, the audit records, and the flow table after a
  FLOW_ESTABLISHED callback.
\<close>

section \<open>The tuple\<close>

text \<open>What WFP promises: the arrays are as long as their counts say.\<close>

definition values_ok :: "incoming_values \<Rightarrow> bool" where
  "values_ok inn \<longleftrightarrow> (case in_incomingValue inn of None \<Rightarrow> True
     | Some vs \<Rightarrow> unat (in_valueCount inn) \<le> length vs \<and>
         list_all (\<lambda>v. case fv_byteArray16 v of None \<Rightarrow> True | Some a \<Rightarrow> length a = 16) vs)"

definition metadata_ok :: "metadata \<Rightarrow> bool" where
  "metadata_ok m \<longleftrightarrow> (case md_processPath m of None \<Rightarrow> True
     | Some blob \<Rightarrow> (case bb_data blob of None \<Rightarrow> True | Some d \<Rightarrow> unat (bb_size blob) \<le> length d))"

definition wfp_ok :: "incoming_values option \<Rightarrow> metadata option \<Rightarrow> bool" where
  "wfp_ok inFixed meta \<longleftrightarrow> pred_option values_ok inFixed \<and> pred_option metadata_ok meta"

text \<open>The value of a field: \<open>None\<close> when it is missing.\<close>

definition field_of :: "incoming_values option \<Rightarrow> u32 \<Rightarrow> fwp_value option" where
  "field_of inFixed idx = do {
     inn \<leftarrow> inFixed;
     vs \<leftarrow> in_incomingValue inn;
     if idx < in_valueCount inn then Some (vs ! unat idx) else None
   }"

definition num_field :: "incoming_values option \<Rightarrow> u32 \<Rightarrow> u64" where
  "num_field inFixed idx = (case field_of inFixed idx of None \<Rightarrow> 0 | Some v \<Rightarrow> fv_bits v)"

text \<open>An IPv4 address comes as a number whose most significant byte is the first octet.\<close>

definition v4_bytes :: "u32 \<Rightarrow> u8 list" where
  "v4_bytes a = map (\<lambda>i. word_of_nat (unat a div 256 ^ (3 - i))) [0, 1, 2, 3]"

definition addr_field :: "u32 \<Rightarrow> incoming_values option \<Rightarrow> u32 \<Rightarrow> u8 list" where
  "addr_field family inFixed idx =
     (case field_of inFixed idx of
        None \<Rightarrow> replicate 16 0
      | Some v \<Rightarrow> if family = AF_INET then v4_bytes (ucast (fv_bits v)) @ replicate 12 0
          else (case fv_byteArray16 v of None \<Rightarrow> replicate 16 0 | Some a \<Rightarrow> a))"

definition path_of :: "metadata option \<Rightarrow> (u16 list \<times> u32) option" where
  "path_of meta = do {
     m \<leftarrow> meta;
     blob \<leftarrow> (if md_hasProcessPath m then md_processPath m else None);
     d \<leftarrow> bb_data blob;
     if 2 \<le> bb_size blob
     then Some (map (\<lambda>i. field16 (2 * i) d) [0..<unat (bb_size blob) div 2], bb_size blob div 2)
     else None
   }"

definition pid_of :: "metadata option \<Rightarrow> u32" where
  "pid_of meta = (case meta of None \<Rightarrow> 0 | Some m \<Rightarrow> if md_hasProcessId m then ucast (md_processId m) else 0)"

lemma value_at_ok:
  assumes "values_ok inn" and "in_incomingValue inn = Some vs" and "idx < in_valueCount inn"
  shows "value_at inn idx = Some (vs ! unat idx)" and "unat idx < length vs"
proof -
  show "unat idx < length vs" using assms by (simp add: values_ok_def word_less_nat_alt)
  then show "value_at inn idx = Some (vs ! unat idx)" using assms(2) by (simp add: value_at_def)
qed

lemma field_u16_ok:
  assumes "values_ok inn" and "in_incomingValue inn = Some vs"
  shows "skFieldU16 inn idx = Some (ucast (num_field (Some inn) idx))"
  using value_at_ok [OF assms] assms(2) by (simp add: skFieldU16_def num_field_def field_of_def)

lemma field_u8_ok:
  assumes "values_ok inn" and "in_incomingValue inn = Some vs"
  shows "skFieldU8 inn idx = Some (ucast (num_field (Some inn) idx))"
  using value_at_ok [OF assms] assms(2) by (simp add: skFieldU8_def num_field_def field_of_def)

lemma ucast_drop_bit: "(ucast (drop_bit n (a :: u32)) :: u8) = word_of_nat (unat a div 2 ^ n)"
proof -
  have "unat (drop_bit n a) = unat a div 2 ^ n"
    by (simp only: unat_drop_bit_eq) (simp only: drop_bit_eq_div)
  then show ?thesis by (metis of_nat_unat)
qed

lemma v4_store:
  "(replicate 16 0)[0 := ucast (drop_bit 24 a), 1 := ucast (drop_bit 16 a),
     2 := ucast (drop_bit 8 a), 3 := ucast a] = v4_bytes a @ replicate 12 0"
proof -
  have zeros: "replicate 16 (0 :: u8) = 0 # 0 # 0 # 0 # replicate 12 0" by code_simp
  have upd: "(0 # 0 # 0 # 0 # zs)[0 := b, 1 := c, 2 := d, 3 := e] = b # c # d # e # zs"
    for b c d e :: u8 and zs
    by (simp add: numeral_2_eq_2 numeral_3_eq_3)
  have "(ucast a :: u8) = word_of_nat (unat a)" by simp
  then show ?thesis unfolding zeros upd v4_bytes_def
    using ucast_drop_bit [of 24 a] ucast_drop_bit [of 16 a] ucast_drop_bit [of 8 a] by simp
qed

lemma field_addr_ok:
  assumes "values_ok inn" and "in_incomingValue inn = Some vs"
  shows "skFieldAddr inn idx family (replicate 16 0) = Some (addr_field family (Some inn) idx)"
proof (cases "idx < in_valueCount inn")
  case False
  then have "in_valueCount inn \<le> idx" by simp
  with assms(2) False show ?thesis by (simp add: skFieldAddr_def addr_field_def field_of_def)
next
  case True
  note v = value_at_ok [OF assms True]
  have "\<forall>a. fv_byteArray16 (vs ! unat idx) = Some a \<longrightarrow> length a = 16"
    using assms v(2) by (auto simp: values_ok_def list_all_length split: option.splits)
  moreover have present: "(in_valueCount inn \<le> idx) = False" using True by simp
  ultimately show ?thesis
    using v assms(2) v4_store [of "ucast (fv_bits (vs ! unat idx))"]
    by (simp add: skFieldAddr_def addr_field_def field_of_def True present split: option.split)
qed

lemma tuple_fields_ok:
  assumes "pred_option values_ok inFixed" and "t_localAddr out = replicate 16 0"
    and "t_remoteAddr out = replicate 16 0" and "t_protocol out = 0"
    and "t_localPort out = 0" and "t_remotePort out = 0"
  shows "tuple_fields inFixed out = Some (out\<lparr>
    t_protocol := ucast (ucast (num_field inFixed SK_F_PROTOCOL) :: u8),
    t_localAddr := addr_field (t_family out) inFixed SK_F_LOCAL_ADDR,
    t_remoteAddr := addr_field (t_family out) inFixed SK_F_REMOTE_ADDR,
    t_localPort := ucast (ucast (num_field inFixed SK_F_LOCAL_PORT) :: u16),
    t_remotePort := ucast (ucast (num_field inFixed SK_F_REMOTE_PORT) :: u16)\<rparr>)"
proof (cases inFixed)
  case None
  then show ?thesis
    using assms(2-) by (cases out) (simp add: tuple_fields_def num_field_def addr_field_def field_of_def)
next
  case (Some inn)
  show ?thesis
  proof (cases "in_incomingValue inn")
    case None
    with Some show ?thesis
      using assms(2-) by (cases out) (simp add: tuple_fields_def num_field_def addr_field_def field_of_def)
  next
    case (Some vs)
    have ok: "values_ok inn" using assms(1) \<open>inFixed = Some inn\<close> by simp
    show ?thesis
      by (simp add: tuple_fields_def \<open>inFixed = Some inn\<close> Some assms(2,3) field_u8_ok [OF ok Some]
          field_u16_ok [OF ok Some] field_addr_ok [OF ok Some])
  qed
qed

lemma tuple_metadata_ok:
  assumes "pred_option metadata_ok meta" and "t_processId out = 0" and "t_appId out = 0"
  shows "tuple_metadata meta out = Some (out\<lparr>t_processId := pid_of meta,
    t_appId := (case path_of meta of None \<Rightarrow> 0 | Some (p, n) \<Rightarrow> SkRuleHashAppPath (Some p) n)\<rparr>)"
proof (cases meta)
  case None
  then show ?thesis using assms(2,3) by (cases out) (simp add: tuple_metadata_def pid_of_def path_of_def)
next
  case (Some m)
  have half: "unat (n div 2) = unat n div 2" for n :: u32 by (simp add: unat_div)
  have "path_at 0 (unat (bb_size blob) div 2) d = Some (map (\<lambda>i. field16 (2 * i) d) [0..<unat (bb_size blob) div 2])"
    if "md_processPath m = Some blob" "bb_data blob = Some d" for blob d
    using assms(1) that Some by (simp add: path_at_def metadata_ok_def)
  then show ?thesis
    using Some assms(2,3)
    by (cases out)
      (auto simp: tuple_metadata_def pid_of_def path_of_def path_hash_def half not_less Let_def split: option.split)
qed

lemma addr_field_length:
  assumes "pred_option values_ok inFixed"
  shows "length (addr_field family inFixed idx) = 16"
proof (cases "field_of inFixed idx")
  case None
  then show ?thesis by (simp add: addr_field_def)
next
  case (Some v)
  then obtain inn vs where i: "inFixed = Some inn" "in_incomingValue inn = Some vs" "idx < in_valueCount inn"
    and v: "v = vs ! unat idx"
    by (auto simp: field_of_def bind_eq_Some_conv split: if_splits)
  have ok: "values_ok inn" using assms i(1) by simp
  have "\<forall>a. fv_byteArray16 v = Some a \<longrightarrow> length a = 16"
    using ok i(2) value_at_ok(2) [OF ok i(2,3)] v
    by (auto simp: values_ok_def list_all_length split: option.splits)
  with Some show ?thesis by (simp add: addr_field_def v4_bytes_def split: option.split)
qed

lemma layer_direction:
  "default_direction layerId =
    (if layerId < 2 then SK_RULE_DIR_OUT else if layerId < 4 then SK_RULE_DIR_IN else 0)"
proof -
  have two: "layerId < 2 \<longleftrightarrow> layerId = 0 \<or> layerId = 1"
    and four: "layerId < 4 \<longleftrightarrow> layerId = 0 \<or> layerId = 1 \<or> layerId = 2 \<or> layerId = 3"
    by (auto simp: word_less_nat_alt word_unat_eq_iff)
  show ?thesis unfolding default_direction_def two four by simp
qed

text \<open>A condition on a field that is not filled.\<close>

lemma unfilled_no_match:
  shows "t_ifIndex t = 0 \<Longrightarrow> has (r_mask r) SK_RULE_M_IFINDEX \<Longrightarrow> r_ifIndex r \<noteq> 0 \<Longrightarrow> \<not> SkRuleMatch r t"
    and "t_userId t = None \<Longrightarrow> has (r_mask r) SK_RULE_M_SID \<Longrightarrow> \<not> SkRuleMatch r t"
    and "t_processId t = 0 \<Longrightarrow> has (r_mask r) SK_RULE_M_PID \<Longrightarrow> r_processId r \<noteq> 0 \<Longrightarrow> \<not> SkRuleMatch r t"
    and "t_appId t = 0 \<Longrightarrow> has (r_mask r) SK_RULE_M_APPID \<Longrightarrow> r_appId r \<noteq> 0 \<Longrightarrow> \<not> SkRuleMatch r t"
  by (simp_all add: SkRuleMatch_def Let_def)

lemma built_tuple:
  assumes "wfp_ok inFixed meta"
  shows "SkClassifyBuildTuple now layerId inFixed meta = Some
    \<lparr>t_family = skLayerFamily layerId, t_direction = default_direction layerId,
     t_protocol = ucast (ucast (num_field inFixed SK_F_PROTOCOL) :: u8), t_layerId = layerId,
     t_ifIndex = 0, t_processId = pid_of meta,
     t_appId = (case path_of meta of None \<Rightarrow> 0 | Some (p, n) \<Rightarrow> SkRuleHashAppPath (Some p) n),
     t_localPort = ucast (ucast (num_field inFixed SK_F_LOCAL_PORT) :: u16),
     t_remotePort = ucast (ucast (num_field inFixed SK_F_REMOTE_PORT) :: u16),
     t_localAddr = addr_field (skLayerFamily layerId) inFixed SK_F_LOCAL_ADDR,
     t_remoteAddr = addr_field (skLayerFamily layerId) inFixed SK_F_REMOTE_ADDR,
     t_userId = None, t_userIdLength = 0, t_nowUtc100ns = now\<rparr>"
proof -
  have vals: "pred_option values_ok inFixed" and meta: "pred_option metadata_ok meta"
    using assms by (simp_all add: wfp_ok_def)
  let ?z = "zero_tuple\<lparr>t_layerId := layerId, t_family := skLayerFamily layerId,
    t_direction := default_direction layerId\<rparr>"
  have z: "t_localAddr ?z = replicate 16 0" "t_remoteAddr ?z = replicate 16 0" "t_protocol ?z = 0"
    "t_localPort ?z = 0" "t_remotePort ?z = 0" "t_processId ?z = 0" "t_appId ?z = 0"
    unfolding zero_tuple_def by (simp_all only: tuple.simps)
  show ?thesis
    unfolding SkClassifyBuildTuple_def Let_def tuple_fields_ok [OF vals z(1-5)]
    by (simp add: tuple_metadata_ok [OF meta] zero_tuple_def)
qed

text \<open>C11: the tuple the rules see. With arrays as long as WFP's counts say, the callback reads no
  element behind their end, whatever the counts are, and every field of the tuple is the WFP field
  it is named after: protocol, ports and process id at their width, an IPv4 address as its four
  octets in network order with twelve zeroes, an IPv6 address as its sixteen bytes, the hash of the
  image path, and 0 for whatever is missing. The direction is that of the layer. The interface and
  the user are never filled, so a rule with an interface or SID condition matches no connection, and
  one with a process or application condition matches none that comes without metadata.\<close>

theorem build_tuple_correct:
  assumes "wfp_ok inFixed meta"
  shows "\<exists>t. SkClassifyBuildTuple now layerId inFixed meta = Some t \<and>
    t = \<lparr>t_family = (if layerId \<in> {0, 2, 4} then AF_INET else AF_INET6),
         t_direction = (if layerId < 2 then SK_RULE_DIR_OUT else if layerId < 4 then SK_RULE_DIR_IN else 0),
         t_protocol = ucast (ucast (num_field inFixed SK_F_PROTOCOL) :: u8), t_layerId = layerId,
         t_ifIndex = 0, t_processId = pid_of meta,
         t_appId = (case path_of meta of None \<Rightarrow> 0 | Some (p, n) \<Rightarrow> SkRuleHashAppPath (Some p) n),
         t_localPort = ucast (ucast (num_field inFixed SK_F_LOCAL_PORT) :: u16),
         t_remotePort = ucast (ucast (num_field inFixed SK_F_REMOTE_PORT) :: u16),
         t_localAddr = addr_field (skLayerFamily layerId) inFixed SK_F_LOCAL_ADDR,
         t_remoteAddr = addr_field (skLayerFamily layerId) inFixed SK_F_REMOTE_ADDR,
         t_userId = None, t_userIdLength = 0, t_nowUtc100ns = now\<rparr> \<and>
    length (t_localAddr t) = 16 \<and> length (t_remoteAddr t) = 16 \<and>
    (\<forall>r. has (r_mask r) SK_RULE_M_IFINDEX \<and> r_ifIndex r \<noteq> 0 \<or> has (r_mask r) SK_RULE_M_SID \<or>
        meta = None \<and> (has (r_mask r) SK_RULE_M_PID \<and> r_processId r \<noteq> 0 \<or>
          has (r_mask r) SK_RULE_M_APPID \<and> r_appId r \<noteq> 0) \<longrightarrow> \<not> SkRuleMatch r t)"
proof -
  have vals: "pred_option values_ok inFixed" using assms by (simp add: wfp_ok_def)
  have fam: "skLayerFamily layerId = (if layerId \<in> {0, 2, 4} then AF_INET else AF_INET6)"
    by (simp add: skLayerFamily_def)
  have none: "pid_of None = 0" "path_of None = None" by (simp_all add: pid_of_def path_of_def)
  show ?thesis
    unfolding built_tuple [OF assms] fam [symmetric] layer_direction [symmetric]
    by (intro exI conjI refl allI impI) (auto simp: addr_field_length [OF vals] none unfilled_no_match)
qed

theorem build_tuple_correct_witness:
  "\<exists>t. SkClassifyBuildTuple 9 0 (Some \<lparr>in_valueCount = 8, in_incomingValue =
        Some (replicate 8 \<lparr>fv_bits = 0x0A000001, fv_byteArray16 = None\<rparr>)\<rparr>) None = Some t \<and>
     t_remoteAddr t = [10, 0, 0, 1, 0, 0, 0, 0, 0, 0, 0, 0, 0, 0, 0, 0] \<and> t_remotePort t = 1 \<and>
     \<not> SkRuleMatch (zero_rule\<lparr>r_enabled := 1, r_mask := SK_RULE_M_IFINDEX, r_ifIndex := 3\<rparr>) t"
proof -
  let ?i = "\<lparr>in_valueCount = 8, in_incomingValue =
    Some (replicate 8 \<lparr>fv_bits = 0x0A000001, fv_byteArray16 = None\<rparr>)\<rparr>"
  let ?r = "zero_rule\<lparr>r_enabled := 1, r_mask := SK_RULE_M_IFINDEX, r_ifIndex := 3\<rparr>"
  have ok: "wfp_ok (Some ?i) None" by (simp add: wfp_ok_def values_ok_def list_all_iff)
  have zeros: "replicate 12 (0 :: u8) = [0, 0, 0, 0, 0, 0, 0, 0, 0, 0, 0, 0]" by code_simp
  have field: "field_of (Some ?i) SK_F_REMOTE_ADDR = Some \<lparr>fv_bits = 0x0A000001, fv_byteArray16 = None\<rparr>"
    "field_of (Some ?i) SK_F_REMOTE_PORT = Some \<lparr>fv_bits = 0x0A000001, fv_byteArray16 = None\<rparr>"
    by (simp_all add: field_of_def)
  have addr: "addr_field (skLayerFamily 0) (Some ?i) SK_F_REMOTE_ADDR =
      [10, 0, 0, 1, 0, 0, 0, 0, 0, 0, 0, 0, 0, 0, 0, 0]"
    by (simp add: addr_field_def field skLayerFamily_def v4_bytes_def zeros)
  have port: "(ucast (ucast (num_field (Some ?i) SK_F_REMOTE_PORT) :: u16) :: u32) = 1"
    by (simp add: num_field_def field)
  have cond: "has (r_mask ?r) SK_RULE_M_IFINDEX \<and> r_ifIndex ?r \<noteq> 0" by code_simp
  from build_tuple_correct [OF ok, of 9 0] obtain t where
    t: "SkClassifyBuildTuple 9 0 (Some ?i) None = Some t"
    and no: "has (r_mask ?r) SK_RULE_M_IFINDEX \<and> r_ifIndex ?r \<noteq> 0 \<longrightarrow> \<not> SkRuleMatch ?r t" by meson
  have "t_remoteAddr t = addr_field (skLayerFamily 0) (Some ?i) SK_F_REMOTE_ADDR"
    "t_remotePort t = ucast (ucast (num_field (Some ?i) SK_F_REMOTE_PORT) :: u16)"
    using t unfolding built_tuple [OF ok] by auto
  with t no cond show ?thesis unfolding addr port by blast
qed

section \<open>The store under a callback\<close>

text \<open>The fields of the store's invariant.\<close>

definition store_part where
  "store_part w = (p_next w, p_snaps w, p_arrays w, g_Current w, g_RollbackSlot w, g_RetireList w,
     g_StoreInited w, g_StoreClosed w, g_WriterBusy w, g_RateTable w, g_State w)"

lemma store_part_inv:
  fixes w w' :: "'a store_scheme"
  assumes part: "store_part w' = store_part w" and inv: "store_inv Xs Xa H w"
  shows "store_inv Xs Xa H w'" and "same_core w w'"
proof -
  have eqs: "p_next w' = p_next w" "p_snaps w' = p_snaps w" "p_arrays w' = p_arrays w"
    "g_Current w' = g_Current w" "g_RollbackSlot w' = g_RollbackSlot w" "g_RetireList w' = g_RetireList w"
    "g_StoreInited w' = g_StoreInited w" "g_StoreClosed w' = g_StoreClosed w"
    "g_WriterBusy w' = g_WriterBusy w" "g_RateTable w' = g_RateTable w" "g_State w' = g_State w"
    using part by (simp_all add: store_part_def)
  show "store_inv Xs Xa H w'"
    by (rule store_inv_cong [OF inv]) (simp_all add: eqs store_invD(5) [OF inv])
  show "same_core w w'" by (simp add: same_core_def eqs)
qed

text \<open>What other threads may do to the store while a telemetry post is under way: what readers do.\<close>

definition barrier_ok :: "('a store_scheme \<Rightarrow> 'a store_scheme) \<Rightarrow> bool" where
  "barrier_ok B \<longleftrightarrow> (\<forall>w H. store_inv {} {} H w \<longrightarrow> (\<exists>H'. store_inv {} {} H' (B w)) \<and> same_core w (B w))"

lemma post_record_part:
  "\<exists>u. store_part u = store_part w \<and>
    (store_part (snd (SkTelemetryPostRecord alloc B ty rcd sz w)) = store_part u \<or>
     store_part (snd (SkTelemetryPostRecord alloc B ty rcd sz w)) = store_part (B u))"
proof -
  have part [simp]:
    "store_part (w\<lparr>q_dropped := x\<rparr>) = store_part w" "store_part (w\<lparr>q_producers := n\<rparr>) = store_part w"
    "store_part (w\<lparr>q_overflowDropped := x\<rparr>) = store_part w" "store_part (w\<lparr>q_posted := x\<rparr>) = store_part w"
    "store_part (w\<lparr>q_doorbell := b\<rparr>) = store_part w" "store_part (w\<lparr>q_head := h\<rparr>) = store_part w"
    "store_part (w\<lparr>q_pending := n\<rparr>) = store_part w" for w :: "'a telemetry_scheme" and x n b h
    by (simp_all add: store_part_def)
  let ?u = "w\<lparr>q_producers := q_producers w + 1\<rparr>"
  have "store_part (snd (SkTelemetryPostRecord alloc B ty rcd sz w)) = store_part w \<or>
    store_part (snd (SkTelemetryPostRecord alloc B ty rcd sz w)) = store_part (B ?u)"
    by (simp add: SkTelemetryPostRecord_def ShEventPostRecord_def shEventProducerEnter_def
        shEventProducerLeave_def insert_node_def Let_def split: option.split)
  moreover have "store_part ?u = store_part w" by simp
  ultimately show ?thesis by metis
qed

lemma post_verdict_inv:
  assumes inv: "store_inv {} {} H w" and B: "barrier_ok (ce_barrier env)"
  shows "\<exists>H'. store_inv {} {} H' (post_verdict env v t w) \<and> same_core w (post_verdict env v t w)"
proof -
  have post: "\<exists>H'. store_inv {} {} H' (skClassifyPostEvent env ty i t w) \<and>
      same_core w (skClassifyPostEvent env ty i t w)" for ty i
  proof -
    obtain u where u: "store_part u = store_part w"
      and r: "store_part (skClassifyPostEvent env ty i t w) = store_part u \<or>
        store_part (skClassifyPostEvent env ty i t w) = store_part (ce_barrier env u)"
      using post_record_part unfolding skClassifyPostEvent_def by metis
    note iu = store_part_inv [OF u inv]
    from B iu(1) obtain H' where b: "store_inv {} {} H' (ce_barrier env u)" "same_core u (ce_barrier env u)"
      unfolding barrier_ok_def by blast
    from r show ?thesis
      using store_part_inv [OF _ iu(1)] store_part_inv [OF _ b(1)] iu(2) b(2) same_core_trans by metis
  qed
  show ?thesis using post inv by (auto simp: post_verdict_def)
qed

text \<open>The verdict of a set of published rules for a tuple, in the documented order.\<close>

definition judged :: "rule list \<Rightarrow> u32 \<Rightarrow> tuple \<Rightarrow> verdict \<Rightarrow> bool" where
  "judged rs pol t v \<longleftrightarrow>
     (\<forall>r\<in>set rs. \<not> SkRuleMatch r t) \<and> v = fallback SkVerdictReasonNoMatch pol \<or>
     (\<exists>h\<in>set rs. \<exists>allowed. SkRuleMatch h t \<and>
        (\<forall>r\<in>set rs. SkRuleMatch r t \<and> r \<noteq> h \<longrightarrow> SkRulePrecedes h r) \<and> v = decide h allowed)"

definition store_verdict :: "'a store_scheme \<Rightarrow> tuple \<Rightarrow> verdict \<Rightarrow> bool" where
  "store_verdict w t v \<longleftrightarrow>
     (case abs_store w of
        None \<Rightarrow> v = fallback SkVerdictReasonSnapshotUnavailable SkVerdictPermit
      | Some A \<Rightarrow> judged (a_rules A) (a_policy A) t v)"

text \<open>The operations of the store and the engine leave what lies behind the store's fields alone.\<close>

lemma acquire_more: "SkRuleStoreAcquire w = Some (r, w') \<Longrightarrow> store.more w' = store.more w"
  by (cases "g_Current w"; cases "g_StoreClosed w")
    (auto simp: SkRuleStoreAcquire_def upd_snap_def bind_eq_Some_conv split_beta)

lemma evaluate_more:
  assumes "engine_only w w'"
  shows "store.more w' = store.more (w :: 'a store_scheme)"
  using assms by (auto simp: engine_only_def)

lemma runtime_more:
  fixes w w' :: "'a store_scheme"
  assumes "runtime.more w' = runtime.more w"
  shows "store.more w' = store.more w"
  using assms by (cases w; cases w') simp

lemma release_more:
  fixes w :: "'a store_scheme"
  assumes "SkRuleStoreRelease r w = Some w'"
  shows "store.more w' = store.more w"
proof -
  have rep: "store.more (snd (ShRuntimeReportUnderflow q w)) = store.more w" for q
    by (rule runtime_more) (simp add: ShRuntimeReportUnderflow_def Let_def)
  have "store.more (snd (ShRundownRelease q w)) = store.more w" for q
    by (simp add: ShRundownRelease_def Let_def rep)
  then show ?thesis
    using assms
    by (cases r) (auto simp: SkRuleStoreRelease_def upd_snap_def bind_eq_Some_conv split_beta)
qed

text \<open>Evaluation against the acquired reference, as the callback does it.\<close>

lemma evaluate_published:
  assumes inv: "store_inv {} {} H w" and room: "\<And>p. g_Current w = Some p \<Longrightarrow> H p < 0x40000000"
  obtains snap w1 v w2 w3 H' where "SkRuleStoreAcquire w = Some (snap, w1)"
    and "SkRuleEvaluate freq t0 t1 t2 snap t w1 = Some (v, w2)" and "SkRuleStoreRelease snap w2 = Some w3"
    and "store_inv {} {} H' w3" and "same_core w w3" and "store_verdict w t v"
    and "store.more w3 = store.more w"
proof -
  from acquire_inv [OF inv] obtain snap w1 H1 where acq: "SkRuleStoreAcquire w = Some (snap, w1)"
    and inv1: "store_inv {} {} H1 w1" and core1: "same_core w w1"
    and r: "case snap of
       None \<Rightarrow> H1 = H \<and> (g_Current w = None \<or> (\<exists>p. g_Current w = Some p \<and> H p = 0x40000000))
     | Some p \<Rightarrow> g_Current w = Some p \<and> H1 = H(p := Suc (H p))"
    by blast
  show thesis
  proof (cases snap)
    case None
    with r room have "g_Current w = None" by fastforce
    then have verd: "store_verdict w t (fallback SkVerdictReasonSnapshotUnavailable SkVerdictPermit)"
      by (simp add: store_verdict_def abs_store_def)
    from evaluate_closed [of freq t0 t1 t2 t w1] obtain w2 where
      ev: "SkRuleEvaluate freq t0 t1 t2 None t w1 =
        Some (fallback SkVerdictReasonSnapshotUnavailable SkVerdictPermit, w2)"
      and only: "engine_only w1 w2" and tab: "g_RateTable w2 = g_RateTable w1" by blast
    have rate: "rate_ok (g_RateTable w2)" using store_invD(5) [OF inv1] tab by simp
    note inv2 = engine_only_inv [OF only inv1 rate]
    show thesis
      by (rule that [OF acq ev [folded None] _ inv2(1) same_core_trans [OF core1 inv2(2)] verd])
        (simp_all add: None SkRuleStoreRelease_def acquire_more [OF acq] evaluate_more [OF only])
  next
    case (Some p)
    with r have cur: "g_Current w = Some p" and held: "0 < H1 p" by simp_all
    from held_view [OF inv1 held] obtain rs ver pol where view: "snap_view w1 p = Some (rs, ver, pol)"
      and content: "content_ok rs" by blast
    have "snap_view w p = Some (rs, ver, pol)" using view same_core_view [OF core1] by simp
    then have abs: "\<exists>A. abs_store w = Some A \<and> a_rules A = rs \<and> a_policy A = pol"
      using cur by (simp add: abs_store_def)
    from evaluate_snapshot [OF inv1 view content, of freq t0 t1 t2 t] obtain v w2 where
      ev: "SkRuleEvaluate freq t0 t1 t2 (Some p) t w1 = Some (v, w2)"
      and only: "engine_only w1 w2" and rate: "rate_ok (g_RateTable w2)"
      and res: "case find (\<lambda>r. SkRuleMatch r t) rs of
           None \<Rightarrow> v = fallback SkVerdictReasonNoMatch pol
         | Some h \<Rightarrow> \<exists>a. v = decide h a" by (fastforce split: option.splits)
    have "judged rs pol t v"
    proof (cases "find (\<lambda>r. SkRuleMatch r t) rs")
      case None
      then have "\<forall>r\<in>set rs. \<not> SkRuleMatch r t" by (simp add: verdict.find_none)
      moreover have "v = fallback SkVerdictReasonNoMatch pol" using res None by simp
      ultimately show ?thesis by (simp add: judged_def)
    next
      case (Some h)
      then show ?thesis using res find_winner [OF content Some] by (auto simp: judged_def)
    qed
    then have verd: "store_verdict w t v" using abs by (auto simp: store_verdict_def)
    note inv2 = engine_only_inv [OF only inv1 rate]
    from release_inv [OF inv2(1) held] obtain w3 where rel: "SkRuleStoreRelease (Some p) w2 = Some w3"
      and inv3: "store_inv {} {} (H1(p := H1 p - 1)) w3" and core3: "same_core w2 w3" by blast
    show thesis
      by (rule that [OF acq ev [folded Some] rel [folded Some] inv3
            same_core_trans [OF core1 same_core_trans [OF inv2(2) core3]] verd])
        (simp add: release_more [OF rel] evaluate_more [OF only] acquire_more [OF acq])
  qed
qed

text \<open>Up to the telemetry post.\<close>

lemma apply_verdict_post:
  assumes inv: "store_inv {} {} H w" and room: "\<And>p. g_Current w = Some p \<Longrightarrow> H p < 0x40000000"
  shows "\<exists>v w3 H'. SkClassifyApplyVerdict env layerId (Some t) co w =
      Some (map_option (\<lambda>c. if may_write c then write_verdict layerId v c else c) co, post_verdict env v t w3) \<and>
    store_inv {} {} H' w3 \<and> same_core w w3 \<and> store_verdict w t v \<and> store.more w3 = store.more w"
proof -
  obtain snap w1 v w2 w3 H' where acq: "SkRuleStoreAcquire w = Some (snap, w1)"
    and ev: "SkRuleEvaluate (ce_freq env) (ce_start env) (ce_bucket env) (ce_end env) snap t w1 = Some (v, w2)"
    and rel: "SkRuleStoreRelease snap w2 = Some w3"
    and keep: "store_inv {} {} H' w3" "same_core w w3" "store_verdict w t v" "store.more w3 = store.more w"
    by (rule evaluate_published [OF inv room])
  have "SkClassifyApplyVerdict env layerId (Some t) co w =
      Some (map_option (\<lambda>c. if may_write c then write_verdict layerId v c else c) co, post_verdict env v t w3)"
    by (simp add: SkClassifyApplyVerdict_def acq ev rel Let_def split: option.split)
  with keep show ?thesis by blast
qed

lemma apply_verdict:
  assumes inv: "store_inv {} {} H w" and room: "\<And>p. g_Current w = Some p \<Longrightarrow> H p < 0x40000000"
    and B: "barrier_ok (ce_barrier env)"
  shows "\<exists>v w' H'. SkClassifyApplyVerdict env layerId (Some t) co w =
      Some (map_option (\<lambda>c. if may_write c then write_verdict layerId v c else c) co, w') \<and>
    store_inv {} {} H' w' \<and> same_core w w' \<and> store_verdict w t v"
proof -
  from apply_verdict_post [OF inv room] obtain v w3 H' where
    run: "SkClassifyApplyVerdict env layerId (Some t) co w =
      Some (map_option (\<lambda>c. if may_write c then write_verdict layerId v c else c) co, post_verdict env v t w3)"
    and inv3: "store_inv {} {} H' w3" and core: "same_core w w3" and verd: "store_verdict w t v" by blast
  from post_verdict_inv [OF inv3 B] obtain H4 where
    "store_inv {} {} H4 (post_verdict env v t w3)" "same_core w3 (post_verdict env v t w3)" by blast
  with run verd same_core_trans [OF core] show ?thesis by blast
qed

lemma hard_block_layers:
  "layerId < 4 \<Longrightarrow> write_verdict layerId v co =
    write_action (if v_action v = SkVerdictBlock then FWP_ACTION_BLOCK else FWP_ACTION_PERMIT) co"
proof -
  assume "layerId < 4"
  then have "layerId = 0 \<or> layerId = 1 \<or> layerId = 2 \<or> layerId = 3"
    by (auto simp: word_less_nat_alt word_unat_eq_iff)
  then show ?thesis
    by (elim disjE) (simp_all add: write_verdict_def SkCalloutDefById_def g_SkCalloutDefs_def word_le_nat_alt)
qed


text \<open>A callback on the demonstration store: one rule that blocks everything.\<close>

definition demo_env :: "control classify_env" where
  "demo_env = \<lparr>ce_now = 5, ce_freq = 1000, ce_start = 5, ce_bucket = 5, ce_end = 5, ce_event_alloc = True,
     ce_barrier = id, ce_flow_alloc = True, ce_FlowAssociateContext = (\<lambda>_ _ _ _ w. (STATUS_SUCCESS, w))\<rparr>"

lemma id_barrier: "barrier_ok id"
  by (auto simp: barrier_ok_def)

lemma demo_matches: "SkRuleMatch demo_rule t"
  by (simp add: SkRuleMatch_def demo_rule_def zero_rule_def has_def Let_def)

lemma demo_store_verdict:
  "store_verdict demo_control t v \<Longrightarrow> v_action v = SkVerdictBlock \<and> v_rateLimited v = 0"
  by (auto simp: store_verdict_def demo_control_abs demo_abs_def judged_def demo_matches)
    (simp_all add: decide_def demo_rule_def Let_def)


section \<open>Audit records\<close>

lemma queue_more:
  fixes w w' :: "'a telemetry_scheme"
  assumes "store.more w' = store.more w"
  shows "running ns w' \<longleftrightarrow> running ns w" and "q_head w' = q_head w" and "q_dropped w' = q_dropped w"
  using assms by (cases w; cases w'; simp add: running_def)+

text \<open>The record as a client of \<open>FLUSH_EVENTS\<close> reads it.\<close>

definition record_fields_ok :: "u8 list \<Rightarrow> u32 \<Rightarrow> u64 \<Rightarrow> tuple \<Rightarrow> bool" where
  "record_fields_ok b ty i t \<longleftrightarrow> length b = 80 \<and> field64 0 b = t_nowUtc100ns t \<and> field64 8 b = i \<and>
     field32 16 b = ty \<and> field32 20 b = t_family t \<and> field32 24 b = t_protocol t \<and>
     field32 28 b = t_direction t \<and> field32 32 b = t_processId t \<and> field32 36 b = t_localPort t \<and>
     field32 40 b = t_remotePort t \<and> bytes_at 48 16 b = t_localAddr t \<and> bytes_at 64 16 b = t_remoteAddr t"

lemma event_record_fields:
  assumes "length (t_localAddr t) = 16" and "length (t_remoteAddr t) = 16"
  shows "record_fields_ok (event_record ty i t) ty i t"
  using assms
  by (simp only: record_fields_ok_def event_record_def append_assoc field64_def field32_def)
    (simp add: at_skip at_here at_here [where ys = "[]", simplified] del: append_assoc append_Cons)


definition audit_rule :: rule where
  "audit_rule = zero_rule\<lparr>r_ruleId := 7, r_action := SkRuleActionAudit, r_enabled := 1\<rparr>"

definition audit_control :: control where
  "audit_control = SkTelemetryInit (demo_control\<lparr>p_arrays := [2 \<mapsto> [audit_rule]]\<rparr>)"


section \<open>Flow contexts\<close>

text \<open>The table between two callbacks: every entry has the table's reference and no other.\<close>

definition flow_entry :: "'a flow_scheme \<Rightarrow> nat \<Rightarrow> u64 \<times> u64" where
  "flow_entry w p = (case p_flows w p of None \<Rightarrow> (0, 0) | Some c \<Rightarrow> (f_flowId c, f_packetsSeen c))"

definition flows_of :: "'a flow_scheme \<Rightarrow> (u64 \<times> u64) list" where
  "flows_of w = map (flow_entry w) (g_SkFlowList w)"

definition table_ok :: "'a flow_scheme \<Rightarrow> bool" where
  "table_ok w \<longleftrightarrow> distinct (g_SkFlowList w) \<and> distinct (map fst (flows_of w)) \<and>
     (\<forall>p\<in>set (g_SkFlowList w). \<exists>c. p_flows w p = Some c \<and> f_linked c \<and> f_ref c = 1) \<and>
     (\<forall>p \<ge> p_next w. p_flows w p = None) \<and> flow_stale w = []"

text \<open>One more packet on the flow \<open>h\<close>.\<close>

definition seen :: "u64 \<Rightarrow> u64 \<times> u64 \<Rightarrow> u64 \<times> u64" where
  "seen h e = (if fst e = h then (h, snd e + 1) else e)"

lemma fst_seen [simp]: "fst (seen h e) = fst e"
  by (simp add: seen_def)

lemma find_flow:
  assumes "\<And>p. p \<in> set ps \<Longrightarrow> p_flows w p \<noteq> None"
  shows "skFlowFindLocked h ps w = Some (find (\<lambda>p. fst (flow_entry w p) = h) ps)"
  using assms
proof (induction ps)
  case (Cons p ps)
  then obtain c where "p_flows w p = Some c" by fastforce
  with Cons show ?case by (simp add: flow_entry_def)
qed simp

text \<open>The two outcomes of the first lock section on such a table.\<close>

lemma attach_new_flow:
  assumes ok: "table_ok w" and new: "h \<notin> fst ` set (flows_of w)"
  shows "attach_section h l c w = Some (Inr (p_next w), w\<lparr>p_next := Suc (p_next w),
    p_flows := (p_flows w)(p_next w \<mapsto> (new_flow h l c)\<lparr>f_linked := True\<rparr>),
    g_SkFlowList := g_SkFlowList w @ [p_next w], g_SkFlowEntries := g_SkFlowEntries w + 1\<rparr>)"
proof -
  let ?w = "w\<lparr>p_next := Suc (p_next w), p_flows := (p_flows w)(p_next w \<mapsto> new_flow h l c)\<rparr>"
  have fresh: "p_next w \<notin> set (g_SkFlowList w)" using ok by (auto simp: table_ok_def)
  have "p_flows ?w p \<noteq> None" if "p \<in> set (g_SkFlowList w)" for p using ok that by (auto simp: table_ok_def)
  note f = find_flow [of "g_SkFlowList w" ?w h, OF this]
  have "fst (flow_entry ?w p) \<noteq> h" if "p \<in> set (g_SkFlowList w)" for p
  proof -
    have "p \<noteq> p_next w" using fresh that by auto
    then have "flow_entry ?w p = flow_entry w p" by (simp add: flow_entry_def)
    then show ?thesis using new that by (auto simp: flows_of_def)
  qed
  then have "find (\<lambda>p. fst (flow_entry ?w p) = h) (g_SkFlowList w) = None" by (auto simp: find_None_iff)
  with f show ?thesis by (simp add: attach_section_def flow_link_def upd_flow_def Let_def)
qed

lemma attach_old_flow:
  assumes ok: "table_ok w" and p: "p \<in> set (g_SkFlowList w)" "fst (flow_entry w p) = h"
  shows "\<exists>d. p_flows w p = Some d \<and> f_ref d = 1 \<and> f_linked d \<and>
    attach_section h l c w = Some (Inl p, w\<lparr>p_next := Suc (p_next w),
      p_flows := (p_flows w)(p \<mapsto> d\<lparr>f_ref := 2\<rparr>)\<rparr>)"
proof -
  let ?w = "w\<lparr>p_next := Suc (p_next w), p_flows := (p_flows w)(p_next w \<mapsto> new_flow h l c)\<rparr>"
  obtain d where d: "p_flows w p = Some d" "f_ref d = 1" "f_linked d" using ok p(1) by (auto simp: table_ok_def)
  have fresh: "p_next w \<notin> set (g_SkFlowList w)" "p_flows w (p_next w) = None" using ok by (auto simp: table_ok_def)
  then have neq: "p \<noteq> p_next w" using p(1) by auto
  have "p_flows ?w q \<noteq> None" if "q \<in> set (g_SkFlowList w)" for q using ok that by (auto simp: table_ok_def)
  note f = find_flow [of "g_SkFlowList w" ?w h, OF this]
  have same: "flow_entry ?w q = flow_entry w q" if "q \<in> set (g_SkFlowList w)" for q
    using fresh that by (auto simp: flow_entry_def)
  have inj: "inj_on (\<lambda>q. fst (flow_entry w q)) (set (g_SkFlowList w))"
    using ok by (simp add: table_ok_def flows_of_def distinct_map comp_def)
  have "find (\<lambda>q. fst (flow_entry ?w q) = h) (g_SkFlowList w) = Some p"
  proof (cases "find (\<lambda>q. fst (flow_entry ?w q) = h) (g_SkFlowList w)")
    case None
    then show ?thesis using p same by (auto simp: find_None_iff)
  next
    case (Some q)
    then have "q \<in> set (g_SkFlowList w)" "fst (flow_entry ?w q) = h" by (auto simp: find_Some_iff)
    then have "q = p" using inj p same by (auto simp: inj_on_def)
    with Some show ?thesis by simp
  qed
  moreover have "((p_flows w)(p_next w \<mapsto> new_flow h l c, p \<mapsto> x))(p_next w := None) = (p_flows w)(p \<mapsto> x)" for x
    using fresh(2) neq by (auto simp: fun_eq_iff)
  ultimately show ?thesis using d f neq
    by (auto simp: attach_section_def SkFlowAddRef_def upd_flow_def free_flow_def Let_def)
qed

text \<open>Nothing but the table and the pool changes.\<close>

definition flow_only :: "'a flow_scheme \<Rightarrow> 'a flow_scheme \<Rightarrow> bool" where
  "flow_only w v \<longleftrightarrow> (\<exists>n m l k. v = w\<lparr>p_next := n, p_flows := m, g_SkFlowList := l, g_SkFlowEntries := k\<rparr>)"

lemma flow_onlyI: "v = w\<lparr>p_next := n, p_flows := m, g_SkFlowList := l, g_SkFlowEntries := k\<rparr> \<Longrightarrow> flow_only w v"
  unfolding flow_only_def by blast

text \<open>The flows after a callback for \<open>h\<close>: counted, added, or (when WFP refuses) as before.\<close>

definition flows_after :: "ntstatus \<Rightarrow> u64 \<Rightarrow> (u64 \<times> u64) list \<Rightarrow> (u64 \<times> u64) list" where
  "flows_after ans h fl =
     (if h \<in> fst ` set fl then map (seen h) fl else if ans = STATUS_SUCCESS then fl @ [(h, 1)] else fl)"

lemma attach_known:
  assumes ok: "table_ok w" and p: "p \<in> set (g_SkFlowList w)" "fst (flow_entry w p) = h"
    and d: "p_flows w p = Some d"
  defines "v \<equiv> w\<lparr>p_next := Suc (p_next w), p_flows := (p_flows w)(p \<mapsto> d\<lparr>f_packetsSeen := f_packetsSeen d + 1, f_ref := 1\<rparr>)\<rparr>"
  shows "table_ok v \<and> flow_only w v \<and> flows_of v = map (seen h) (flows_of w)"
proof -
  have e: "flow_entry w p = (h, f_packetsSeen d)" "f_flowId d = h" using p(2) d by (simp_all add: flow_entry_def)
  have "flow_entry v q = seen h (flow_entry w q)" if q: "q \<in> set (g_SkFlowList w)" for q
  proof (cases "q = p")
    case True
    then show ?thesis using e by (simp add: v_def flow_entry_def seen_def)
  next
    case False
    have "inj_on (\<lambda>q. fst (flow_entry w q)) (set (g_SkFlowList w))"
      using ok by (simp add: table_ok_def flows_of_def distinct_map comp_def)
    then have "fst (flow_entry w q) \<noteq> h" using False p q by (auto simp: inj_on_def)
    moreover have "flow_entry v q = flow_entry w q" using False by (simp add: v_def flow_entry_def)
    ultimately show ?thesis by (simp add: seen_def)
  qed
  then have fl: "flows_of v = map (seen h) (flows_of w)" by (simp add: flows_of_def v_def)
  have "map fst (flows_of v) = map fst (flows_of w)" unfolding fl by simp
  then have "table_ok v"
    using ok d p(1) by (auto simp: table_ok_def v_def)
  moreover have "flow_only w v" unfolding v_def by (rule flow_onlyI [where l = "g_SkFlowList w" and k = "g_SkFlowEntries w"]) simp
  ultimately show ?thesis using fl by blast
qed

lemma attach_added:
  fixes l c :: u32
  assumes ok: "table_ok w" and new: "h \<notin> fst ` set (flows_of w)"
  defines "v \<equiv> w\<lparr>p_next := Suc (p_next w), p_flows := (p_flows w)(p_next w \<mapsto>
      (new_flow h l c)\<lparr>f_linked := True, f_ref := 1, f_packetsSeen := 1\<rparr>),
    g_SkFlowList := g_SkFlowList w @ [p_next w], g_SkFlowEntries := g_SkFlowEntries w + 1\<rparr>"
  shows "table_ok v \<and> flow_only w v \<and> flows_of v = flows_of w @ [(h, 1)]"
proof -
  have fresh: "p_next w \<notin> set (g_SkFlowList w)" using ok by (auto simp: table_ok_def)
  have "flow_entry v q = flow_entry w q" if "q \<in> set (g_SkFlowList w)" for q
    using fresh that by (auto simp: v_def flow_entry_def)
  moreover have "flow_entry v (p_next w) = (h, 1)" by (simp add: v_def flow_entry_def new_flow_def)
  ultimately have fl: "flows_of v = flows_of w @ [(h, 1)]" by (simp add: flows_of_def v_def)
  have "distinct (map fst (flows_of v))" unfolding fl using ok new by (simp add: table_ok_def)
  then have "table_ok v" using ok fresh by (auto simp: table_ok_def v_def)
  moreover have "flow_only w v" unfolding v_def by (rule flow_onlyI) simp
  ultimately show ?thesis using fl by blast
qed

lemma attach_refused:
  assumes ok: "table_ok w"
  shows "table_ok (w\<lparr>p_next := Suc (p_next w)\<rparr>) \<and> flow_only w (w\<lparr>p_next := Suc (p_next w)\<rparr>) \<and>
    flows_of (w\<lparr>p_next := Suc (p_next w)\<rparr>) = flows_of w"
proof -
  have fl: "flows_of (w\<lparr>p_next := Suc (p_next w)\<rparr>) = flows_of w" by (simp add: flows_of_def flow_entry_def)
  have "table_ok (w\<lparr>p_next := Suc (p_next w)\<rparr>)" using ok unfolding table_ok_def fl by simp
  moreover have "flow_only w (w\<lparr>p_next := Suc (p_next w)\<rparr>)"
    by (rule flow_onlyI [where m = "p_flows w" and l = "g_SkFlowList w" and k = "g_SkFlowEntries w"]) simp
  ultimately show ?thesis using fl by blast
qed

lemma attach_flow_result:
  assumes ok: "table_ok w" and call: "\<And>h l c p w. ce_FlowAssociateContext env h l c p w = (ans, w)" and h: "h \<noteq> 0"
    and active: "so_calloutRuntimeId (callout_at (unat l) w) \<noteq> 0" "g_SkFlowInited w" "ce_flow_alloc env"
  shows "\<exists>v. attach_flow env l h w = Some v \<and> table_ok v \<and> flow_only w v \<and> flows_of v = flows_after ans h (flows_of w)"
proof (cases "h \<in> fst ` set (flows_of w)")
  case True
  then obtain p where p: "p \<in> set (g_SkFlowList w)" "fst (flow_entry w p) = h" by (auto simp: flows_of_def)
  from attach_old_flow [OF ok p, of l "so_calloutRuntimeId (callout_at (unat l) w)"] obtain d where
    d: "p_flows w p = Some d" "f_ref d = 1" and sec: "attach_section h l (so_calloutRuntimeId (callout_at (unat l) w)) w =
      Some (Inl p, w\<lparr>p_next := Suc (p_next w), p_flows := (p_flows w)(p \<mapsto> d\<lparr>f_ref := 2\<rparr>)\<rparr>)" by blast
  have "attach_flow env l h w = Some (w\<lparr>p_next := Suc (p_next w),
      p_flows := (p_flows w)(p \<mapsto> d\<lparr>f_packetsSeen := f_packetsSeen d + 1, f_ref := 1\<rparr>)\<rparr>)"
    using active h sec by (simp add: attach_flow_def SkFlowAttach_def upd_flow_def SkFlowRelease_def)
  with attach_known [OF ok p d(1)] True show ?thesis by (simp add: flows_after_def)
next
  case False
  note sec = attach_new_flow [OF ok False, of l "so_calloutRuntimeId (callout_at (unat l) w)"]
  have fresh: "p_next w \<notin> set (g_SkFlowList w)" "p_flows w (p_next w) = None" "flow_stale w = []"
    using ok by (auto simp: table_ok_def)
  show ?thesis
  proof (cases "ans = STATUS_SUCCESS")
    case True
    have "attach_flow env l h w = Some (w\<lparr>p_next := Suc (p_next w), p_flows := (p_flows w)(p_next w \<mapsto>
        (new_flow h l (so_calloutRuntimeId (callout_at (unat l) w)))\<lparr>f_linked := True, f_ref := 1, f_packetsSeen := 1\<rparr>),
      g_SkFlowList := g_SkFlowList w @ [p_next w], g_SkFlowEntries := g_SkFlowEntries w + 1\<rparr>)"
      using active h sec True
      by (simp add: attach_flow_def SkFlowAttach_def upd_flow_def SkFlowRelease_def call new_flow_def)
    with attach_added [OF ok False] False True show ?thesis by (auto simp: flows_after_def)
  next
    case refused: False
    have "attach_flow env l h w = Some (w\<lparr>p_next := Suc (p_next w)\<rparr>)"
      using active h sec refused fresh
      by (simp add: attach_flow_def SkFlowAttach_def upd_flow_def SkFlowRelease_def call new_flow_def
          attach_rollback_def flow_unlink_def free_flow_def remove1_append fun_upd_idem)
    with attach_refused [OF ok] False refused show ?thesis by (simp add: flows_after_def)
  qed
qed

text \<open>C12: the FLOW_ESTABLISHED layers only ever permit. The answer is PERMIT, with the WRITE right given up
  and the others kept, or nothing without that right; no rule is evaluated, and store, statistics
  and queue stay as they are. A flow with a handle, on an active callout, is entered in the table
  once: a new one with one packet if WFP accepts the association, a known one with one packet more;
  if WFP or the pool refuses, the table is as before and the permit stands. After the callback the
  table again holds the only reference to each entry, so no callback leaks a context.\<close>

theorem flow_layer_permits:
  assumes "table_ok w" and "\<And>h l c p w. ce_FlowAssociateContext env h l c p w = (ans, w)"
  shows "\<exists>v. skClassifyFlowCommon env layerId meta flowContext (Some co) w =
      Some (Some (if may_write co then write_action FWP_ACTION_PERMIT co else co), v) \<and>
    table_ok v \<and> flow_only w v \<and>
    flows_of v = (case meta of None \<Rightarrow> flows_of w | Some m \<Rightarrow>
      if \<not> SkInjectIsSelf flowContext \<and> md_hasFlowHandle m \<and> md_flowHandle m \<noteq> 0 \<and> g_SkFlowInited w \<and>
         ce_flow_alloc env \<and> so_calloutRuntimeId (callout_at (unat layerId) w) \<noteq> 0
      then flows_after ans (md_flowHandle m) (flows_of w) else flows_of w)"
proof -
  have refl: "flow_only w w"
    by (rule flow_onlyI [where n = "p_next w" and m = "p_flows w" and l = "g_SkFlowList w" and k = "g_SkFlowEntries w"]) simp
  show ?thesis
  proof (cases "\<exists>m. meta = Some m \<and> \<not> SkInjectIsSelf flowContext \<and> md_hasFlowHandle m \<and> md_flowHandle m \<noteq> 0 \<and>
      g_SkFlowInited w \<and> ce_flow_alloc env \<and> so_calloutRuntimeId (callout_at (unat layerId) w) \<noteq> 0")
    case True
    then obtain m where m: "meta = Some m" "\<not> SkInjectIsSelf flowContext" "md_hasFlowHandle m" "md_flowHandle m \<noteq> 0"
      "g_SkFlowInited w" "ce_flow_alloc env" "so_calloutRuntimeId (callout_at (unat layerId) w) \<noteq> 0" by blast
    from attach_flow_result [OF assms m(4,7,5,6)] obtain v where
      "attach_flow env layerId (md_flowHandle m) w = Some v" "table_ok v" "flow_only w v"
      "flows_of v = flows_after ans (md_flowHandle m) (flows_of w)" by blast
    with m show ?thesis by (simp add: skClassifyFlowCommon_def skClassifySelfInjected_def Let_def)
  next
    case False
    then have "skClassifyFlowCommon env layerId meta flowContext (Some co) w =
        Some (Some (if may_write co then write_action FWP_ACTION_PERMIT co else co), w)"
      by (cases meta) (auto simp: skClassifyFlowCommon_def skClassifySelfInjected_def attach_flow_def SkFlowAttach_def Let_def)
    with assms(1) refl False show ?thesis by (cases meta) auto
  qed
qed

definition demo_flow_control :: control where
  "demo_flow_control = set_callout 4 ((callout_at 4 demo_control)\<lparr>so_calloutRuntimeId := 9\<rparr>) (snd (SkFlowInit demo_control))"

lemma demo_flow_control_sel:
  "g_SkFlowList demo_flow_control = []" "flow_stale demo_flow_control = []" "p_flows demo_flow_control = (\<lambda>_. None)"
  "g_SkFlowInited demo_flow_control" "so_calloutRuntimeId (callout_at 4 demo_flow_control) = 9"
  by (simp_all add: demo_flow_control_def set_callout_def upd_manager_def SkFlowInit_def demo_control_def image_wfp_def
      image_flows_def image_manager_def wfp.defs flow.defs telemetry.defs)

theorem flow_layer_permits_witness:
  "\<exists>v. skClassifyFlowCommon demo_env 4 (Some \<lparr>md_hasProcessId = False, md_hasProcessPath = False,
      md_hasFlowHandle = True, md_processId = 0, md_processPath = None, md_flowHandle = 77\<rparr>) 0
      (Some \<lparr>co_actionType = 0, co_rights = 1\<rparr>) demo_flow_control =
    Some (Some \<lparr>co_actionType = FWP_ACTION_PERMIT, co_rights = 0\<rparr>, v) \<and> table_ok v \<and> flows_of v = [(77, 1)]"
proof -
  have tab: "table_ok demo_flow_control" "flows_of demo_flow_control = []"
    by (simp_all add: table_ok_def flows_of_def demo_flow_control_sel)
  from flow_layer_permits [OF tab(1), of demo_env STATUS_SUCCESS 4 "Some \<lparr>md_hasProcessId = False, md_hasProcessPath = False,
      md_hasFlowHandle = True, md_processId = 0, md_processPath = None, md_flowHandle = 77\<rparr>" 0
      "\<lparr>co_actionType = 0, co_rights = 1\<rparr>"]
  show ?thesis
    by (auto simp: demo_env_def may_write_def write_action_def demo_flow_control_sel tab(2) flows_after_def SkInjectIsSelf_def)
qed

end
