(* ===== verification/Lifecycle.thy ===== *)
theory Lifecycle
  imports Injection
begin

text \<open>
  runtime/lifecycle.c and driver/driver.c: the orchestration of all subsystems, from
  \<open>DriverEntry\<close> to the unload callback. The record \<open>driver\<close> completes the state of the whole
  driver. Everything the kernel does is the record \<open>platform\<close>: the function tables of the
  earlier theories, the sleeps (with what other threads do meanwhile), the threads and the BFE
  calls.

  \<open>None\<close> is "does not return": an invalid access in the store or the flow table, a lock that is
  never given back, or the resident wait.
\<close>

abbreviation SK_LIFECYCLE_DRAIN_RETRIES :: nat where "SK_LIFECYCLE_DRAIN_RETRIES \<equiv> 100"

abbreviation (input) SK_STEP_RULES :: u32 where "SK_STEP_RULES \<equiv> 0x01"
abbreviation (input) SK_STEP_EVENTQ :: u32 where "SK_STEP_EVENTQ \<equiv> 0x02"
abbreviation (input) SK_STEP_CONTROL :: u32 where "SK_STEP_CONTROL \<equiv> 0x04"
abbreviation (input) SK_STEP_INJECT :: u32 where "SK_STEP_INJECT \<equiv> 0x08"
abbreviation (input) SK_STEP_BFE :: u32 where "SK_STEP_BFE \<equiv> 0x10"
abbreviation (input) SK_STEP_WFP :: u32 where "SK_STEP_WFP \<equiv> 0x20"
abbreviation (input) SK_STEP_FLOW :: u32 where "SK_STEP_FLOW \<equiv> 0x40"
abbreviation (input) SK_STEP_DEVICE :: u32 where "SK_STEP_DEVICE \<equiv> 0x80"

record driver = inject +
  g_SkSteps :: u32
  g_SkDevice :: handle
  g_SkWfpDeferred :: bool
  g_SkBfeChangeHandle :: handle

record 'w platform =
  pf_ops :: "'w ops"
  pf_fw :: "'w api"
  pf_wdf :: "'w wdf"
  pf_ndis :: "'w ndis"
  pf_sleep :: "'w \<Rightarrow> 'w"
  pf_alloc :: "nat \<Rightarrow> bool"
  pf_EventThread :: "'w \<Rightarrow> ntstatus \<times> nat option \<times> 'w"
  pf_EventJoin :: "nat \<Rightarrow> 'w \<Rightarrow> ntstatus \<times> 'w"
  pf_ControlThread :: "'w \<Rightarrow> ntstatus \<times> nat option \<times> 'w"
  pf_ControlJoin :: "nat \<Rightarrow> 'w \<Rightarrow> ntstatus \<times> 'w"
  pf_BfeSubscribe :: "handle \<Rightarrow> 'w \<Rightarrow> ntstatus \<times> handle \<times> 'w"
  pf_BfeRunning :: "'w \<Rightarrow> bool \<times> 'w"

section \<open>Block reasons\<close>

definition skRecordIfNone :: "block_reason \<Rightarrow> 'a runtime_scheme \<Rightarrow> 'a runtime_scheme" where
  "skRecordIfNone why w = (if g_BlockReason w = ShinkenBlockNone then ShRuntimeRecordBlock why w else w)"

text \<open>The \<open>if (!...) { skRecordIfNone(why); ok = FALSE; }\<close> of every step.\<close>

definition checked :: "block_reason \<Rightarrow> bool \<times> 'a runtime_scheme \<Rightarrow> bool \<times> 'a runtime_scheme" where
  "checked why r = (fst r, if fst r then snd r else skRecordIfNone why (snd r))"

section \<open>The BFE callback\<close>

definition SkBfeStateChangeCallback ::
    "'a driver_scheme platform \<Rightarrow> bool \<Rightarrow> 'a driver_scheme \<Rightarrow> 'a driver_scheme option" where
  "SkBfeStateChangeCallback P bfeRunning w =
     (let (entered, r) = ShRundownAcquire (ShRundownBfe w);
          w = w\<lparr>ShRundownBfe := r\<rparr>
      in if \<not> entered then Some w
         else do {
           w \<leftarrow> (if bfeRunning \<and> ShRuntimeIsActive w \<and> g_SkDevice w \<noteq> NULL
                 then do {
                   (st, w) \<leftarrow> SkWfpManagerInstall (pf_fw P) (pf_ops P) (pf_sleep P) (g_SkDevice w) w;
                   Some (w\<lparr>g_SkWfpDeferred := \<not> NT_SUCCESS st\<rparr>)
                 }
                 else Some w);
           let (r, w) = ShRundownRelease (ShRundownBfe w) w;
           Some (w\<lparr>ShRundownBfe := r\<rparr>)
         })"

section \<open>Quiesce\<close>

definition drain_bfe :: "'a driver_scheme platform \<Rightarrow> 'a driver_scheme \<Rightarrow> bool \<times> 'a driver_scheme" where
  "drain_bfe P w =
     (let (st, w) = ShRundownDrain (\<lambda>w. rd_count (ShRundownBfe w)) (pf_sleep P) SK_LIFECYCLE_DRAIN_RETRIES
                      (w\<lparr>ShRundownBfe := ShRundownBeginStop (ShRundownBfe w)\<rparr>)
      in checked ShinkenBlockBfeCallbackActive (st = STATUS_SUCCESS, w))"

definition skBfeQuiesce :: "'a driver_scheme platform \<Rightarrow> 'a driver_scheme \<Rightarrow> bool \<times> 'a driver_scheme" where
  "skBfeQuiesce P w =
     (if g_SkBfeChangeHandle w \<noteq> NULL
      then let (st, w) = op_BfeUnsubscribe (pf_ops P) (g_SkBfeChangeHandle w) w
           in if st \<noteq> STATUS_SUCCESS then (False, skRecordIfNone ShinkenBlockBfeUnsubscribe w)
              else drain_bfe P (w\<lparr>g_SkBfeChangeHandle := NULL\<rparr>)
      else drain_bfe P w)"

definition skEventQuiesce ::
    "'a driver_scheme platform \<Rightarrow> 'a driver_scheme \<Rightarrow> (bool \<times> 'a driver_scheme) option" where
  "skEventQuiesce P w = do {
     (st, w) \<leftarrow> ShEventThreadStop (Some shTelemetrySink) (pf_sleep P) (pf_EventJoin P) w;
     Some (checked ShinkenBlockEventThreadDrain (st = STATUS_SUCCESS, w))
   }"

definition drain_work_items :: "'a driver_scheme platform \<Rightarrow> 'a driver_scheme \<Rightarrow> bool \<times> 'a driver_scheme" where
  "drain_work_items P w =
     (let (st, w) = ShRundownDrain (\<lambda>w. rd_count (ShRundownWorkItem w)) (pf_sleep P) SK_LIFECYCLE_DRAIN_RETRIES
                      (w\<lparr>ShRundownWorkItem := ShRundownBeginStop (ShRundownWorkItem w)\<rparr>)
      in checked ShinkenBlockWorkItemDrain (st = STATUS_SUCCESS, w))"

definition SkLifecycleQuiesce ::
    "'a driver_scheme platform \<Rightarrow> 'a driver_scheme \<Rightarrow> (bool \<times> 'a driver_scheme) option" where
  "SkLifecycleQuiesce P w = do {
     let (ok1, w) = checked ShinkenBlockHandleContextsOpen (SkControlQuiesce (pf_wdf P) (pf_sleep P) (pf_ControlJoin P) w);
     let (ok2, w) = checked ShinkenBlockRundownStuck (\<not> SkRuleStoreWritable w, w);
     (ok3, w) \<leftarrow> skEventQuiesce P w;
     let (ok4, w) = checked ShinkenBlockInjectionDrain (SkInjectQuiesce (pf_ops P) (pf_sleep P) w);
     let (ok5, w) = skBfeQuiesce P w;
     r \<leftarrow> SkWfpManagerTeardown (pf_ops P) (pf_sleep P) w;
     let (ok6, w) = checked ShinkenBlockEngineClose r;
     let (ok7, w) = drain_work_items P w;
     let (ok8, w) = checked ShinkenBlockEventThreadDrain (\<not> ShEventThreadRunning w, w);
     Some (ok1 \<and> ok2 \<and> ok3 \<and> ok4 \<and> ok5 \<and> ok6 \<and> ok7 \<and> ok8, w)
   }"

section \<open>Destruction\<close>

definition SkLifecycleDestroy ::
    "'a driver_scheme platform \<Rightarrow> 'a driver_scheme \<Rightarrow> 'a driver_scheme option" where
  "SkLifecycleDestroy P w =
     (if \<not> ShRuntimeDestroyAllowed w then Some w
      else do {
        let w = SkInjectDestroy (pf_ndis P) w;
        w \<leftarrow> SkFlowDestroy w;
        (ok, w) \<leftarrow> SkRuleStoreShutdown (pf_sleep P) w;
        if \<not> ok then Some (ShRuntimeEnterUnloadBlocked ShinkenBlockRundownStuck w)
        else let w = SkDeviceDelete (pf_wdf P) (SkControlDestroy (pf_wdf P) w)
             in Some (w\<lparr>g_SkSteps := 0, g_SkDevice := NULL\<rparr>)
      })"

section \<open>Start and rollback\<close>

definition stepped :: "u32 \<Rightarrow> 'a driver_scheme \<Rightarrow> bool" where
  "stepped s w \<longleftrightarrow> g_SkSteps w AND s \<noteq> 0"

definition add_step :: "u32 \<Rightarrow> 'a driver_scheme \<Rightarrow> 'a driver_scheme" where
  "add_step s w = w\<lparr>g_SkSteps := g_SkSteps w OR s\<rparr>"

text \<open>The part of the rollback behind the check that every quiesce has succeeded.\<close>

definition rollback_destroy ::
    "'a driver_scheme platform \<Rightarrow> 'a driver_scheme \<Rightarrow> (bool \<times> 'a driver_scheme) option" where
  "rollback_destroy P w = do {
     let w = (if stepped SK_STEP_INJECT w then SkInjectDestroy (pf_ndis P) w else w);
     w \<leftarrow> (if stepped SK_STEP_FLOW w then SkFlowDestroy w else Some w);
     (ok, w) \<leftarrow> (if stepped SK_STEP_RULES w then SkRuleStoreShutdown (pf_sleep P) w else Some (True, w));
     if \<not> ok then Some (False, w)
     else let w = (if stepped SK_STEP_CONTROL w then SkControlDestroy (pf_wdf P) w else w);
              w = (if stepped SK_STEP_DEVICE w then SkDeviceDelete (pf_wdf P) w else w)
          in Some (True, w\<lparr>g_SkSteps := 0, g_SkDevice := NULL\<rparr>)
   }"

definition skLifecycleRollback ::
    "'a driver_scheme platform \<Rightarrow> 'a driver_scheme \<Rightarrow> (bool \<times> 'a driver_scheme) option" where
  "skLifecycleRollback P w = do {
     let w = snd (ShRuntimeBeginTeardown w);
     r \<leftarrow> SkWfpManagerTeardown (pf_ops P) (pf_sleep P) w;
     let (ok1, w) = checked ShinkenBlockEngineClose r;
     let (ok2, w) = (if stepped SK_STEP_BFE w then skBfeQuiesce P w else (True, w));
     let (ok3, w) = (if stepped SK_STEP_INJECT w
                     then checked ShinkenBlockInjectionDrain (SkInjectQuiesce (pf_ops P) (pf_sleep P) w) else (True, w));
     let (ok4, w) = (if stepped SK_STEP_CONTROL w
                     then checked ShinkenBlockHandleContextsOpen
                            (SkControlQuiesce (pf_wdf P) (pf_sleep P) (pf_ControlJoin P) w) else (True, w));
     (ok5, w) \<leftarrow> (if stepped SK_STEP_EVENTQ w then skEventQuiesce P w else Some (True, w));
     if \<not> (ok1 \<and> ok2 \<and> ok3 \<and> ok4 \<and> ok5) then Some (False, w) else rollback_destroy P w
   }"

definition start_failed ::
    "'a driver_scheme platform \<Rightarrow> ntstatus \<Rightarrow> 'a driver_scheme \<Rightarrow> (ntstatus \<times> 'a driver_scheme) option" where
  "start_failed P status w = do {
     (ok, w) \<leftarrow> skLifecycleRollback P w;
     Some (if \<not> ok then (STATUS_DEVICE_BUSY, ShRuntimeEnterUnloadBlocked (g_BlockReason w) w) else (status, w))
   }"

text \<open>A step: on a negative status the rollback, otherwise the rest of the start.\<close>

definition start_step ::
    "'a driver_scheme platform \<Rightarrow> u32 \<Rightarrow> ntstatus \<times> 'a driver_scheme
     \<Rightarrow> ('a driver_scheme \<Rightarrow> (ntstatus \<times> 'a driver_scheme) option) \<Rightarrow> (ntstatus \<times> 'a driver_scheme) option" where
  "start_step P s r rest =
     (if fst r <s 0 then start_failed P (fst r) (snd r) else rest (add_step s (snd r)))"

definition start_wfp ::
    "'a driver_scheme platform \<Rightarrow> handle \<Rightarrow> 'a driver_scheme \<Rightarrow> (ntstatus \<times> 'a driver_scheme) option" where
  "start_wfp P wdmDevice w =
     (let (bfeRunning, w) = pf_BfeRunning P w
      in if bfeRunning
         then do {
           r \<leftarrow> SkWfpManagerInstall (pf_fw P) (pf_ops P) (pf_sleep P) wdmDevice w;
           start_step P SK_STEP_WFP r (\<lambda>w. Some (STATUS_SUCCESS, w))
         }
         else Some (STATUS_SUCCESS, w\<lparr>g_SkWfpDeferred := True\<rparr>))"

text \<open>\<open>*handle\<close> is written by the call; a failed subscription clears it.\<close>

definition subscribe_bfe ::
    "'a driver_scheme platform \<Rightarrow> handle \<Rightarrow> 'a driver_scheme \<Rightarrow> ntstatus \<times> 'a driver_scheme" where
  "subscribe_bfe P wdmDevice w =
     (let (status, h, w) = pf_BfeSubscribe P wdmDevice w
      in (status, w\<lparr>g_SkBfeChangeHandle := (if status <s 0 then NULL else h)\<rparr>))"

definition SkLifecycleStart ::
    "'a driver_scheme platform \<Rightarrow> handle \<Rightarrow> 'a driver_scheme \<Rightarrow> (ntstatus \<times> 'a driver_scheme) option" where
  "SkLifecycleStart P wdmDevice w = do {
     let w = SkWfpManagerInitMutex
               (w\<lparr>g_SkSteps := SK_STEP_DEVICE, g_SkDevice := wdmDevice, g_SkWfpDeferred := False\<rparr>);
     r \<leftarrow> SkRuleStoreInit (pf_alloc P) (pf_sleep P) w;
     start_step P SK_STEP_RULES r (\<lambda>w. do {
     r \<leftarrow> SkTelemetryStart (pf_sleep P) (pf_EventThread P) (SkTelemetryInit w);
     start_step P SK_STEP_EVENTQ r (\<lambda>w.
     start_step P SK_STEP_CONTROL (SkControlInit (pf_wdf P) (pf_ControlThread P) w) (\<lambda>w.
     start_step P SK_STEP_INJECT (SkInjectInit (pf_ndis P) (pf_ops P) w) (\<lambda>w.
     start_step P SK_STEP_FLOW (SkFlowInit w) (\<lambda>w.
     start_step P SK_STEP_BFE (subscribe_bfe P wdmDevice w) (start_wfp P wdmDevice)))))
     })
   }"

section \<open>The entry points\<close>

definition SkEvtDriverUnload ::
    "(u32 \<Rightarrow> bool) option \<Rightarrow> 'a driver_scheme platform \<Rightarrow> 'a driver_scheme \<Rightarrow> 'a driver_scheme option" where
  "SkEvtDriverUnload hook P w =
     map_option snd (ShRuntimeRunUnload hook (Some (SkLifecycleQuiesce P)) None (Some (SkLifecycleDestroy P)) None w)"

definition DriverEntry ::
    "(u32 \<Rightarrow> bool) option \<Rightarrow> 'a driver_scheme platform \<Rightarrow> 'a driver_scheme \<Rightarrow> (ntstatus \<times> 'a driver_scheme) option" where
  "DriverEntry hook P w =
     (let w = ShRuntimeInit w;
          (status, drv, w) = wd_DriverCreate (pf_wdf P) w;
          w = w\<lparr>g_SkWdfDriver := drv\<rparr>
      in if status <s 0 then Some (status, w)
         else let (status, wdmDevice, w) = SkDeviceCreate (pf_wdf P) w
              in if status <s 0 then Some (status, w)
                 else do {
                   (status, w) \<leftarrow> SkLifecycleStart P wdmDevice w;
                   if status <s 0
                   then (if g_State w = ShinkenUnloadBlocked
                         then map_option (\<lambda>_. (status, w)) (ShRuntimeBlockUnloadForever hook 0)
                         else Some (status, w))
                   else Some (STATUS_SUCCESS, ShRuntimeActivate w)
                 })"

end
