(* ===== verification/LifecycleProps.thy ===== *)
theory LifecycleProps
  imports Lifecycle InjectionProps StoreOps
begin

text \<open>
  What the unload guarantees: the callback returns only when everything has been stopped and
  destroyed. Every stop establishes a fact and keeps the facts of the stops before it. The last part
  unloads a driver on a concrete platform.
\<close>

section \<open>What stays stopped\<close>

text \<open>
  The facts the stops establish, one after the other. Once true, they stay true: this is what the
  protocols of the subsystems guarantee (\<open>RundownProtocol\<close>, \<open>EventProtocol\<close>, \<open>ControlLife\<close>), and it
  is the only thing the properties assume of other threads and of the kernel. The step bitmap is a
  static variable of the orchestration.
\<close>

definition facts :: "('a driver_scheme \<Rightarrow> bool) list" where
  "facts =
    [\<lambda>w. g_State w = ShinkenTeardown \<or> g_State w = ShinkenUnloadBlocked,
     \<lambda>w. g_State w = ShinkenUnloadBlocked,
     \<lambda>w. \<not> g_ControlGateOpen w,
     \<lambda>w. g_SkDequeueStop w \<noteq> 0,
     \<lambda>w. g_SkDequeueStop w \<noteq> 0 \<and> g_SkDequeueThread w = None,
     \<lambda>w. \<not> g_ControlGateOpen w \<and> ShHandlesOpen w = 0,
     \<lambda>w. q_stopping w \<noteq> 0,
     \<lambda>w. q_stopping w \<noteq> 0 \<and> q_threadObject w = None,
     \<lambda>w. rd_count (g_InjectionRundown w) <s 0,
     \<lambda>w. rd_count (g_InjectionRundown w) = SHINKEN_RUNDOWN_STOP_BIT,
     \<lambda>w. g_InjectionHandle w ! 0 = NULL,
     \<lambda>w. g_InjectionHandle w ! 1 = NULL,
     \<lambda>w. length (g_InjectionHandle w) = 2,
     \<lambda>w. g_SkInjectInited w \<noteq> 0,
     \<lambda>w. g_SkBfeChangeHandle w = NULL,
     \<lambda>w. rd_count (ShRundownBfe w) = SHINKEN_RUNDOWN_STOP_BIT,
     \<lambda>w. rd_count (ShRundownWorkItem w) = SHINKEN_RUNDOWN_STOP_BIT,
     \<lambda>w. \<not> m_installed (g_WfpManager w),
     \<lambda>w. engine_of w = NULL,
     \<lambda>w. q_head w \<noteq> None]"

definition still :: "'a driver_scheme \<Rightarrow> 'a driver_scheme \<Rightarrow> bool" where
  "still w v \<longleftrightarrow> list_all (\<lambda>F. F w \<longrightarrow> F v) facts \<and> g_SkSteps v = g_SkSteps w"

lemma still_refl [simp]: "still w w"
  by (simp add: still_def list_all_iff)

lemma still_trans: "still u v \<Longrightarrow> still v w \<Longrightarrow> still u w"
  unfolding still_def list_all_iff by (metis (mono_tags))

lemma stillD:
  assumes "still w v"
  shows "g_State w = ShinkenTeardown \<or> g_State w = ShinkenUnloadBlocked \<Longrightarrow> g_State v = ShinkenTeardown \<or> g_State v = ShinkenUnloadBlocked"
    and "g_State w = ShinkenUnloadBlocked \<Longrightarrow> g_State v = ShinkenUnloadBlocked"
    and "\<not> g_ControlGateOpen w \<Longrightarrow> \<not> g_ControlGateOpen v" and "g_SkDequeueStop w \<noteq> 0 \<Longrightarrow> g_SkDequeueStop v \<noteq> 0"
    and "g_SkDequeueStop w \<noteq> 0 \<Longrightarrow> g_SkDequeueThread w = None \<Longrightarrow> g_SkDequeueThread v = None"
    and "\<not> g_ControlGateOpen w \<Longrightarrow> ShHandlesOpen w = 0 \<Longrightarrow> ShHandlesOpen v = 0"
    and "q_stopping w \<noteq> 0 \<Longrightarrow> q_stopping v \<noteq> 0"
    and "q_stopping w \<noteq> 0 \<Longrightarrow> q_threadObject w = None \<Longrightarrow> q_threadObject v = None"
    and "rd_count (g_InjectionRundown w) <s 0 \<Longrightarrow> rd_count (g_InjectionRundown v) <s 0"
    and "rd_count (g_InjectionRundown w) = SHINKEN_RUNDOWN_STOP_BIT \<Longrightarrow> rd_count (g_InjectionRundown v) = SHINKEN_RUNDOWN_STOP_BIT"
    and "g_InjectionHandle w ! 0 = NULL \<Longrightarrow> g_InjectionHandle v ! 0 = NULL"
    and "g_InjectionHandle w ! 1 = NULL \<Longrightarrow> g_InjectionHandle v ! 1 = NULL"
    and "length (g_InjectionHandle w) = 2 \<Longrightarrow> length (g_InjectionHandle v) = 2"
    and "g_SkInjectInited w \<noteq> 0 \<Longrightarrow> g_SkInjectInited v \<noteq> 0"
    and "g_SkBfeChangeHandle w = NULL \<Longrightarrow> g_SkBfeChangeHandle v = NULL"
    and "rd_count (ShRundownBfe w) = SHINKEN_RUNDOWN_STOP_BIT \<Longrightarrow> rd_count (ShRundownBfe v) = SHINKEN_RUNDOWN_STOP_BIT"
    and "rd_count (ShRundownWorkItem w) = SHINKEN_RUNDOWN_STOP_BIT \<Longrightarrow> rd_count (ShRundownWorkItem v) = SHINKEN_RUNDOWN_STOP_BIT"
    and "\<not> m_installed (g_WfpManager w) \<Longrightarrow> \<not> m_installed (g_WfpManager v)" and "engine_of w = NULL \<Longrightarrow> engine_of v = NULL"
    and "q_head w \<noteq> None \<Longrightarrow> q_head v \<noteq> None" and "g_SkSteps v = g_SkSteps w"
  using assms unfolding still_def facts_def by simp_all

text \<open>The kernel and the other threads.\<close>

definition platform_still :: "'a driver_scheme platform \<Rightarrow> bool" where
  "platform_still P \<longleftrightarrow> (\<forall>w.
     still w (pf_sleep P w) \<and> (\<forall>t. still w (snd (pf_ControlJoin P t w))) \<and> (\<forall>t. still w (snd (pf_EventJoin P t w))) \<and>
     (\<forall>q. still w (wd_QueuePurge (pf_wdf P) q w)) \<and>
     (\<forall>h. still w (snd (op_InjectionHandleDestroy (pf_ops P) h w))) \<and>
     (\<forall>h. still w (snd (op_BfeUnsubscribe (pf_ops P) h w))) \<and>
     (\<forall>i. still w (snd (op_UnregisterCalloutById (pf_ops P) i w))) \<and>
     (\<forall>h i. still w (snd (op_FilterDeleteById (pf_ops P) h i w))) \<and>
     (\<forall>h i. still w (snd (op_CalloutDeleteById (pf_ops P) h i w))) \<and>
     (\<forall>h k. still w (snd (op_ProviderDeleteByKey (pf_ops P) h k w))) \<and>
     (\<forall>h k. still w (snd (op_SubLayerDeleteByKey (pf_ops P) h k w))) \<and>
     (\<forall>h. still w (snd (op_EngineClose (pf_ops P) h w))) \<and>
     (\<forall>f l c. still w (snd (op_FlowRemoveContext (pf_ops P) f l c w))))"

lemma platform_stillD:
  assumes "platform_still P"
  shows "still w (pf_sleep P w)" and "pf_ControlJoin P t w = (st, v) \<Longrightarrow> still w v"
    and "pf_EventJoin P t w = (st, v) \<Longrightarrow> still w v" and "still w (wd_QueuePurge (pf_wdf P) q w)"
    and "op_InjectionHandleDestroy (pf_ops P) h w = (st, v) \<Longrightarrow> still w v"
    and "op_BfeUnsubscribe (pf_ops P) h w = (st, v) \<Longrightarrow> still w v"
    and "op_UnregisterCalloutById (pf_ops P) i w = (st, v) \<Longrightarrow> still w v"
    and "op_FilterDeleteById (pf_ops P) h f w = (st, v) \<Longrightarrow> still w v"
    and "op_CalloutDeleteById (pf_ops P) h i w = (st, v) \<Longrightarrow> still w v"
    and "op_ProviderDeleteByKey (pf_ops P) h k w = (st, v) \<Longrightarrow> still w v"
    and "op_SubLayerDeleteByKey (pf_ops P) h k w = (st, v) \<Longrightarrow> still w v"
    and "op_EngineClose (pf_ops P) h w = (st, v) \<Longrightarrow> still w v"
    and "op_FlowRemoveContext (pf_ops P) f l c w = (st, v) \<Longrightarrow> still w v"
  using assms unfolding platform_still_def by (metis snd_conv)+

section \<open>The driver's own updates\<close>

lemma still_record [simp]: "still w (ShRuntimeRecordBlock why w)"
  by (simp add: still_def facts_def ShRuntimeRecordBlock_def ShHandlesOpen_def Let_def)

lemma still_record_if [simp]: "still w (skRecordIfNone why w)"
  by (simp add: skRecordIfNone_def)

lemma still_checked [simp]: "still (snd r) (snd (checked why r))" "fst (checked why r) = fst r"
  by (simp_all add: checked_def)

lemma checked_true: "checked why r = (True, v) \<Longrightarrow> r = (True, v)"
  by (cases r) (auto simp: checked_def split: if_splits)

text \<open>The updates the stops make. None of them takes back a fact.\<close>

lemmas still_simps = still_def facts_def ShHandlesOpen_def

lemma still_control [simp]:
  "still w (w\<lparr>g_ControlGateOpen := False, g_SkDequeueStop := g_SkDequeueStop w OR 1, g_SkDequeueStopEvent := True\<rparr>)"
  "still w (w\<lparr>g_SkDequeueThread := None\<rparr>)"
proof -
  have "n OR 1 \<noteq> 0" for n :: u32 by (metis one_neq_zero or_eq_0_iff)
  then show "still w (w\<lparr>g_ControlGateOpen := False, g_SkDequeueStop := g_SkDequeueStop w OR 1, g_SkDequeueStopEvent := True\<rparr>)"
    by (simp add: still_simps)
  show "still w (w\<lparr>g_SkDequeueThread := None\<rparr>)" by (simp add: still_simps)
qed

lemma still_event [simp]:
  "still w (w\<lparr>q_startLock := n\<rparr>)" "still w (w\<lparr>q_stopping := 1\<rparr>)" "still w (w\<lparr>q_threadObject := None, q_startLock := n\<rparr>)"
  "still w (w\<lparr>q_doorbell := b\<rparr>)" "still w (w\<lparr>q_consumed := c\<rparr>)" "still w (w\<lparr>p_counters := d\<rparr>)"
  "still w (w\<lparr>q_head := Some ns, q_pending := m\<rparr>)"
  "still w (w\<lparr>g_SkRing := r, g_SkRingSize := rs, g_SkRingHead := rh, g_SkRingTotal := rt\<rparr>)"
  by (simp_all add: still_simps)

lemma begin_stop_negative: "rd_count (ShRundownBeginStop r) <s 0"
proof -
  have "bit (rd_count r OR SHINKEN_RUNDOWN_STOP_BIT) 31" by (simp add: bit_simps)
  then have "sint (rd_count r OR SHINKEN_RUNDOWN_STOP_BIT) < 0"
    using bit_last_iff [of "rd_count r OR SHINKEN_RUNDOWN_STOP_BIT"] by simp
  then show ?thesis by (simp add: ShRundownBeginStop_def word_sless_alt)
qed

lemma begin_stop_drained: "rd_count r = SHINKEN_RUNDOWN_STOP_BIT \<Longrightarrow> rd_count (ShRundownBeginStop r) = SHINKEN_RUNDOWN_STOP_BIT"
  by (simp add: ShRundownBeginStop_def)

lemma still_stops [simp]:
  "still w (ShInjectionGateStop w)"
  "still w (w\<lparr>ShRundownBfe := ShRundownBeginStop (ShRundownBfe w)\<rparr>)"
  "still w (w\<lparr>ShRundownWorkItem := ShRundownBeginStop (ShRundownWorkItem w)\<rparr>)"
  "still w (w\<lparr>g_SkBfeChangeHandle := NULL\<rparr>)"
  by (simp_all add: still_simps ShInjectionGateStop_def begin_stop_drained begin_stop_negative)

lemma update_keeps_nth: "xs ! j = x \<Longrightarrow> xs[i := x] ! j = x"
  by (cases "i = j"; cases "i < length xs") auto

lemma still_inject [simp]:
  "still w (w\<lparr>g_InjectionTrack := ts\<rparr>)" "still w (set_handle i NULL w)"
  by (simp_all add: still_simps set_handle_def update_keeps_nth)

lemma still_wfp [simp]:
  "still w (set_callout i co w)" "still w (set_filter i co w)" "still w (skWfpLock w)" "still w (skWfpUnlock w)"
  "still w (upd_manager (\<lambda>m. m\<lparr>m_sublayer := co\<rparr>) w)" "still w (upd_manager (\<lambda>m. m\<lparr>m_provider := co\<rparr>) w)"
  "still w (upd_manager (\<lambda>m. m\<lparr>m_engineObj := f m\<rparr>) w)"
  "still w (upd_manager (\<lambda>m. m\<lparr>m_engineObj := f m, m_engine := NULL\<rparr>) w)"
  "still w (upd_manager (\<lambda>m. m\<lparr>m_installed := False\<rparr>) w)"
  by (simp_all add: still_simps set_callout_def set_filter_def upd_manager_def skWfpLock_def skWfpUnlock_def)

lemma still_flow [simp]:
  "still w (w\<lparr>flow_stale := l\<rparr>)" "still w (w\<lparr>p_flows := m\<rparr>)"
  "still w (w\<lparr>g_SkFlowList := l, g_SkFlowEntries := n\<rparr>)"
  "still w (w\<lparr>g_SkFlowList := l, g_SkFlowEntries := n, flow_stale := k\<rparr>)"
  by (simp_all add: still_simps)

section \<open>The control plane\<close>

lemma drain_handles_still:
  assumes "\<And>w. still w (slp w)"
  shows "still w (snd (drain_handles slp n w)) \<and>
    (fst (drain_handles slp n w) \<longrightarrow> ShHandlesOpen (snd (drain_handles slp n w)) = 0)"
proof (induction n arbitrary: w)
  case (Suc n)
  show ?case using Suc.IH [of "slp w"] still_trans [OF assms] by auto
qed simp

lemma consumer_gone_still:
  assumes P: "platform_still P"
  shows "still w (snd (consumer_gone (pf_wdf P) (pf_sleep P) w)) \<and>
    (fst (consumer_gone (pf_wdf P) (pf_sleep P) w) \<longrightarrow> ShHandlesOpen (snd (consumer_gone (pf_wdf P) (pf_sleep P) w)) = 0)"
proof -
  let ?u = "if g_SkControlWdfQueue w \<noteq> NULL then wd_QueuePurge (pf_wdf P) (g_SkControlWdfQueue w) w else w"
  have "still w ?u" using platform_stillD(4) [OF P] by simp
  with drain_handles_still [OF platform_stillD(1) [OF P], of ?u SK_CONTROL_DRAIN_RETRIES] still_trans
  show ?thesis unfolding consumer_gone_def by blast
qed

definition control_off :: "'a driver_scheme \<Rightarrow> bool" where
  "control_off w \<longleftrightarrow> \<not> g_ControlGateOpen w \<and> g_SkDequeueStop w \<noteq> 0 \<and> g_SkDequeueThread w = None \<and> ShHandlesOpen w = 0"

lemma control_stops:
  assumes P: "platform_still P" and run: "SkControlQuiesce (pf_wdf P) (pf_sleep P) (pf_ControlJoin P) w = (ok, v)"
  shows "still w v" and "ok \<Longrightarrow> control_off v"
proof -
  let ?w = "w\<lparr>g_ControlGateOpen := False, g_SkDequeueStop := g_SkDequeueStop w OR 1, g_SkDequeueStopEvent := True\<rparr>"
  have base: "still w ?w" "\<not> g_ControlGateOpen ?w" "g_SkDequeueStop ?w \<noteq> 0"
    using still_control by (simp_all, metis one_neq_zero or_eq_0_iff)
  consider (none) "g_SkDequeueThread w = None" "consumer_gone (pf_wdf P) (pf_sleep P) ?w = (ok, v)"
    | (joined) u where "still ?w u" "consumer_gone (pf_wdf P) (pf_sleep P) (u\<lparr>g_SkDequeueThread := None\<rparr>) = (ok, v)"
    | (stuck) u where "still ?w u" "\<not> ok" "v = ShRuntimeRecordBlock ShinkenBlockWorkerThreadDrain u"
  proof (cases "g_SkDequeueThread w")
    case None
    then show ?thesis using run none by (simp add: SkControlQuiesce_def)
  next
    case (Some t)
    obtain jst u where j: "pf_ControlJoin P t ?w = (jst, u)" by fastforce
    then have "still ?w u" by (rule platform_stillD(2) [OF P])
    then show ?thesis
      using run joined stuck Some j by (cases "jst = STATUS_SUCCESS") (auto simp: SkControlQuiesce_def Let_def)
  qed
  then have "still w v \<and> (ok \<longrightarrow> control_off v)"
  proof cases
    case none
    have "still ?w v" "ok \<longrightarrow> ShHandlesOpen v = 0"
      using consumer_gone_still [OF P, of ?w] none(2) by simp_all
    then show ?thesis using base still_trans [OF base(1)] stillD(3-5) [of ?w v] none(1) by (simp add: control_off_def)
  next
    case (joined u)
    let ?u = "u\<lparr>g_SkDequeueThread := None\<rparr>"
    have "still ?u v" "ok \<longrightarrow> ShHandlesOpen v = 0"
      using consumer_gone_still [OF P, of ?u] joined(2) by simp_all
    moreover have "\<not> g_ControlGateOpen ?u" "g_SkDequeueStop ?u \<noteq> 0" "g_SkDequeueThread ?u = None"
      using stillD(3,4) [OF joined(1)] base by simp_all
    moreover have "still w ?u" using still_trans [OF still_trans [OF base(1) joined(1)] still_control(2)] .
    ultimately show ?thesis using still_trans [of w ?u v] stillD(3-5) [of ?u v] by (simp add: control_off_def)
  next
    case (stuck u)
    then show ?thesis using still_trans [OF still_trans [OF base(1) stuck(1)] still_record] by simp
  qed
  then show "still w v" and "ok \<Longrightarrow> control_off v" by simp_all
qed

section \<open>The event thread\<close>

lemma start_lock_still:
  assumes "start_lock slp w = Some v" and "\<And>w. still w (slp w)"
  shows "still w v"
proof -
  have "(\<forall>w. still w (slp w)) \<longrightarrow> still w v"
  proof (rule start_lock.raw_induct [OF _ assms(1), where P = "\<lambda>slp w v. (\<forall>w. still w (slp w)) \<longrightarrow> still w v"])
    fix lock slp w and v :: "'a driver_scheme"
    assume IH: "\<And>slp w v. lock slp w = Some v \<Longrightarrow> (\<forall>w. still w (slp w)) \<longrightarrow> still w v"
      and run: "(if q_startLock w = 0 then Some (w\<lparr>q_startLock := 1\<rparr>) else lock slp (slp w)) = Some v"
    show "(\<forall>w. still w (slp w)) \<longrightarrow> still w v"
    proof
      assume slp: "\<forall>w. still w (slp w)"
      show "still w v"
        using run IH slp still_trans [OF slp [THEN spec]] by (cases "q_startLock w = 0") auto
    qed
  qed
  then show ?thesis using assms(2) by blast
qed

lemma wait_producers_still:
  assumes slp: "\<And>w. still w (slp w)"
  shows "still w (snd (wait_producers slp n w))"
  by (induction n arbitrary: w) (use still_trans [OF slp] in auto)

lemma telemetry_sink_still: "still w (shTelemetrySink n w)"
  by (simp add: shTelemetrySink_def Let_def)

lemma consume_still: "still w (shEventNodeConsume (Some shTelemetrySink) n w)"
proof -
  have "still w (dec_counter (n_counter n) w)" by (cases "n_counter n") (simp_all add: dec_counter_def)
  then have "still w (shTelemetrySink n (dec_counter (n_counter n) w))" by (rule still_trans [OF _ telemetry_sink_still])
  then show ?thesis
    unfolding shEventNodeConsume_def call_sink_def Let_def option.case by (rule still_trans [OF _ still_event(5)])
qed

lemma pop_still: "shEventPopLocked w = (r, v) \<Longrightarrow> still w v"
  by (auto simp: shEventPopLocked_def Let_def split: option.splits list.splits)

lemma drain_loop_still:
  assumes "drain_loop (Some shTelemetrySink) w = Some v"
  shows "still w v"
proof -
  have "sink = Some shTelemetrySink \<longrightarrow> still w v" if "drain_loop sink w = Some v" for sink
  proof (rule drain_loop.raw_induct [OF _ that, where P = "\<lambda>sink w v. sink = Some shTelemetrySink \<longrightarrow> still w v"], rule impI)
    fix loop sink w and v :: "'a driver_scheme"
    assume IH: "\<And>sink w v. loop sink w = Some v \<Longrightarrow> sink = Some shTelemetrySink \<longrightarrow> still w v"
      and run: "(case shEventPopLocked w of (None, w) \<Rightarrow> Some w
        | (Some n, w) \<Rightarrow> loop sink (shEventNodeConsume sink n w)) = Some v"
      and sink: "sink = Some shTelemetrySink"
    obtain r u where p: "shEventPopLocked w = (r, u)" by fastforce
    then have u: "still w u" by (rule pop_still)
    show "still w v"
      using run p u IH [of sink] sink by (cases r) (auto intro: still_trans [OF u still_trans [OF consume_still]])
  qed
  then show ?thesis using assms by blast
qed

lemma event_stops:
  assumes P: "platform_still P" and head: "q_head w \<noteq> None" and run: "skEventQuiesce P w = Some (ok, v)"
  shows "still w v" and "q_stopping v \<noteq> 0 \<and> q_threadObject v = None"
proof -
  obtain w1 where lock: "start_lock (pf_sleep P) w = Some w1"
    using run head by (auto simp: skEventQuiesce_def ShEventThreadStop_def bind_eq_Some_conv)
  let ?w2 = "w1\<lparr>q_stopping := 1\<rparr>" let ?w3 = "?w2\<lparr>q_threadObject := None, q_startLock := 0\<rparr>"
  obtain gone w4 where wait: "wait_producers (pf_sleep P) SH_EVENT_PRODUCER_WAIT_RETRIES ?w3 = (gone, w4)" by fastforce
  have s4: "still ?w3 w4" using wait_producers_still [OF platform_stillD(1) [OF P], of ?w3] wait by (metis snd_conv)
  have s3: "still w ?w3"
    by (rule still_trans [OF start_lock_still [OF lock platform_stillD(1) [OF P]] still_trans [OF still_event(2) still_event(3)]])
  let ?w5 = "w4\<lparr>q_doorbell := True\<rparr>"
  obtain st w6 where join: "(case q_threadObject ?w2 of None \<Rightarrow> (STATUS_SUCCESS, ?w5) | Some t \<Rightarrow> pf_EventJoin P t ?w5) = (st, w6)"
    by fastforce
  have s6: "still ?w3 w6"
  proof (cases "q_threadObject ?w2")
    case None
    then show ?thesis using join still_trans [OF s4 still_event(4) [of w4 True]] by simp
  next
    case (Some t)
    then have "still ?w5 w6" using join platform_stillD(3) [OF P] by simp
    then show ?thesis using still_trans [OF still_trans [OF s4 still_event(4)]] by blast
  qed
  have "\<exists>s u. ShEventThreadStop (Some shTelemetrySink) (pf_sleep P) (pf_EventJoin P) w = Some (s, u) \<and>
      (ok, v) = checked ShinkenBlockEventThreadDrain (s = STATUS_SUCCESS, u)"
    using run by (auto simp: skEventQuiesce_def bind_eq_Some_conv)
  then obtain s u where stop: "ShEventThreadStop (Some shTelemetrySink) (pf_sleep P) (pf_EventJoin P) w = Some (s, u)"
    and v: "(ok, v) = checked ShinkenBlockEventThreadDrain (s = STATUS_SUCCESS, u)" by blast
  have "ShEventThreadStop (Some shTelemetrySink) (pf_sleep P) (pf_EventJoin P) w =
      (if \<not> gone then Some (SHINKEN_STATUS_TIMEOUT, w4) else if st \<noteq> STATUS_SUCCESS then Some (st, w6)
       else do { w \<leftarrow> ShEventDrain (Some shTelemetrySink) w6;
                 if q_pending w \<noteq> 0 then Some (SHINKEN_STATUS_TIMEOUT, w) else Some (st, w) })"
    using head wait join by (cases "st = STATUS_SUCCESS"; cases gone) (auto simp: ShEventThreadStop_def lock)
  then have "u = w4 \<or> u = w6 \<or> ShEventDrain (Some shTelemetrySink) w6 = Some u"
    using stop by (cases "ShEventDrain (Some shTelemetrySink) w6") (auto split: if_splits)
  then have "u = w4 \<or> still w6 u"
    using drain_loop_still by (auto simp: ShEventDrain_def split: if_splits)
  then have "still ?w3 u" using s4 still_trans [OF s6] by blast
  moreover have "still u v" using still_checked(1) [of "(s = STATUS_SUCCESS, u)"] v by (metis snd_conv)
  ultimately have "still ?w3 v" by (rule still_trans)
  then show "still w v" and "q_stopping v \<noteq> 0 \<and> q_threadObject v = None"
    using still_trans [OF s3] stillD(7,8) [of ?w3 v] by simp_all
qed

section \<open>Injection\<close>

lemma injection_drain_still:
  assumes slp: "\<And>w. still w (slp w)" and neg: "rd_count (g_InjectionRundown w) <s 0"
    and run: "ShInjectionDrain slp n w = (st, v)"
  shows "still w v \<and> (st = STATUS_SUCCESS \<longrightarrow> rd_count (g_InjectionRundown v) = SHINKEN_RUNDOWN_STOP_BIT)"
  using neg run
proof (induction n arbitrary: w)
  case 0
  then show ?case by (auto simp: Let_def split: if_splits)
next
  case (Suc n)
  let ?c = "rd_count (g_InjectionRundown w)"
  show ?case
  proof (cases "?c = SHINKEN_RUNDOWN_STOP_BIT \<or> ?c = 0")
    case True
    then show ?thesis using Suc.prems by auto
  next
    case False
    have "rd_count (g_InjectionRundown (slp w)) <s 0" using stillD(9) [OF slp] Suc.prems(1) by blast
    moreover have "ShInjectionDrain slp n (slp w) = (st, v)" using Suc.prems(2) False by simp
    ultimately show ?thesis using Suc.IH still_trans [OF slp [of w]] by blast
  qed
qed

lemma busy_retry_still:
  assumes "\<And>w. still w (snd (call w))" and "\<And>w. still w (between w)"
    and "busy_retry call gone between n a w = (st, confirmed, busy, v)"
  shows "still w v \<and> (confirmed \<longleftrightarrow> gone st)"
  using assms(3)
proof (induction n arbitrary: a w)
  case 0
  then show ?case using assms(1) [of w] by (auto simp: case_prod_unfold Let_def split: if_splits)
next
  case (Suc n)
  obtain s u where c: "call w = (s, u)" by fastforce
  then have u: "still w u" "still w (between u)"
    using assms(1) [of w] still_trans [OF _ assms(2)] by (metis snd_conv)+
  show ?case
  proof (cases "gone s \<or> s \<noteq> STATUS_DEVICE_BUSY")
    case True
    then show ?thesis using Suc.prems c u(1) by (auto split: if_splits)
  next
    case False
    then have "busy_retry call gone between n (a + 1) (between u) = (st, confirmed, busy, v)"
      using Suc.prems c by (auto split: if_splits)
    then show ?thesis using Suc.IH still_trans [OF u(2)] by blast
  qed
qed

lemma destroy_tracked_still:
  assumes P: "platform_still P"
  shows "length (g_InjectionHandle w) = 2 \<Longrightarrow> \<forall>i \<in> set is. i < 2 \<Longrightarrow>
    destroy_tracked (pf_ops P) (pf_sleep P) is w = (ok, v) \<Longrightarrow>
    still w v \<and> (ok \<longrightarrow> (\<forall>i \<in> set is. g_InjectionHandle v ! i = NULL))"
proof (induction "is" arbitrary: w)
  case (Cons i js)
  let ?h = "g_InjectionHandle w ! i" and ?t = "g_InjectionTrack w ! i"
  obtain st t u where d: "ShInjectionDestroyTracked (pf_ops P) (pf_sleep P) ?h SK_INJECT_BUSY_RETRIES ?t w = (st, t, u)"
    by (rule prod_cases3)
  have u: "still w u \<and> (wo_state t = ShWfpDeleted \<or> st \<noteq> STATUS_SUCCESS \<or> ?h = NULL)"
  proof (cases "?h = NULL \<or> wo_state ?t = ShWfpDeleted \<or> wo_state ?t = ShWfpLeaked")
    case True
    then show ?thesis using d by (auto simp: ShInjectionDestroyTracked_def split: if_splits)
  next
    case False
    obtain s confirmed busy x where r: "busy_retry (op_InjectionHandleDestroy (pf_ops P) ?h) (\<lambda>st. st = STATUS_SUCCESS)
        (pf_sleep P) (unat SK_INJECT_BUSY_RETRIES) 0 w = (s, confirmed, busy, x)" by (rule prod_cases4)
    have "still v (snd (op_InjectionHandleDestroy (pf_ops P) ?h v))" for v
      using platform_stillD(5) [OF P] by (metis prod.collapse)
    then have "still w x \<and> (confirmed \<longleftrightarrow> s = STATUS_SUCCESS)"
      by (rule busy_retry_still [OF _ platform_stillD(1) [OF P] r])
    then show ?thesis using d r False by (auto simp: ShInjectionDestroyTracked_def retry_outcome_def)
  qed
  let ?u = "u\<lparr>g_InjectionTrack := (g_InjectionTrack u)[i := t]\<rparr>"
  let ?w = "if wo_state t = ShWfpDeleted then set_handle i NULL ?u else ?u"
  have i: "i = 0 \<or> i = 1" using Cons.prems(2) by auto
  have wu: "still w ?u" by (rule still_trans [OF conjunct1 [OF u] still_inject(1)])
  have w: "still w ?w" using wu still_trans [OF wu still_inject(2)] by (cases "wo_state t = ShWfpDeleted") simp_all
  then have len: "length (g_InjectionHandle ?w) = 2" using stillD(13) Cons.prems(1) by blast
  show ?case
  proof (cases "wo_state t = ShWfpDeleted \<or> st = STATUS_SUCCESS")
    case False
    then have "v = ShRuntimeRecordBlock ShinkenBlockInjectionDrain ?u" "\<not> ok" using Cons.prems(3) d by auto
    then show ?thesis using w False still_trans [OF _ still_record] by auto
  next
    case True
    have "destroy_tracked (pf_ops P) (pf_sleep P) js ?w = (ok, v)"
      using Cons.prems(3) d True by (cases "wo_state t = ShWfpDeleted") auto
    then have IH: "still ?w v \<and> (ok \<longrightarrow> (\<forall>i \<in> set js. g_InjectionHandle v ! i = NULL))"
      using Cons.IH [OF len] Cons.prems(2) by simp
    have "g_InjectionHandle ?w ! i = NULL"
    proof (cases "wo_state t = ShWfpDeleted")
      case True
      then show ?thesis using len i by (auto simp: set_handle_def)
    next
      case False
      then have "?h = NULL" using u True by blast
      then have "g_InjectionHandle u ! i = NULL" using i u stillD(11,12) [of w u] by auto
      then show ?thesis using False by simp
    qed
    then have "g_InjectionHandle v ! i = NULL" using i IH stillD(11,12) [of ?w v] by auto
    then show ?thesis using IH still_trans [OF w] by simp
  qed
qed simp

lemma injection_stops:
  assumes P: "platform_still P" and inited: "g_SkInjectInited w \<noteq> 0" and len: "length (g_InjectionHandle w) = 2"
    and run: "SkInjectQuiesce (pf_ops P) (pf_sleep P) w = (ok, v)"
  shows "still w v" and "ok \<Longrightarrow> rd_count (g_InjectionRundown v) = SHINKEN_RUNDOWN_STOP_BIT \<and>
    g_InjectionHandle v ! 0 = NULL \<and> g_InjectionHandle v ! 1 = NULL"
proof -
  let ?w = "ShInjectionGateStop w"
  obtain st u where d: "ShInjectionDrain (pf_sleep P) SK_INJECT_DRAIN_RETRIES ?w = (st, u)" by fastforce
  have "rd_count (g_InjectionRundown ?w) <s 0" by (simp add: ShInjectionGateStop_def begin_stop_negative)
  then have u: "still ?w u \<and> (st = STATUS_SUCCESS \<longrightarrow> rd_count (g_InjectionRundown u) = SHINKEN_RUNDOWN_STOP_BIT)"
    by (rule injection_drain_still [OF platform_stillD(1) [OF P] _ d])
  then have wu: "still w u" using still_trans [OF still_stops(1)] by blast
  have len': "length (g_InjectionHandle u) = 2" using stillD(13) [OF wu len] .
  have "still w v \<and> (ok \<longrightarrow> rd_count (g_InjectionRundown v) = SHINKEN_RUNDOWN_STOP_BIT \<and>
      g_InjectionHandle v ! 0 = NULL \<and> g_InjectionHandle v ! 1 = NULL)"
  proof (cases "st = STATUS_SUCCESS")
    case False
    then have "\<not> ok" "v = ShRuntimeRecordBlock ShinkenBlockInjectionDrain u"
      using run d inited by (auto simp: SkInjectQuiesce_def)
    then show ?thesis using still_trans [OF wu still_record] by simp
  next
    case True
    then have "destroy_tracked (pf_ops P) (pf_sleep P) [0, 1] u = (ok, v)"
      using run d inited by (simp add: SkInjectQuiesce_def)
    from destroy_tracked_still [OF P len' _ this]
    have "still u v \<and> (ok \<longrightarrow> g_InjectionHandle v ! 0 = NULL \<and> g_InjectionHandle v ! 1 = NULL)" by simp
    then show ?thesis using still_trans [OF wu] stillD(10) [of u v] u True by blast
  qed
  then show "still w v" and "ok \<Longrightarrow> rd_count (g_InjectionRundown v) = SHINKEN_RUNDOWN_STOP_BIT \<and>
    g_InjectionHandle v ! 0 = NULL \<and> g_InjectionHandle v ! 1 = NULL" by simp_all
qed

section \<open>The rundowns\<close>

lemma drain_still:
  assumes slp: "\<And>w. still w (slp w)" and run: "ShRundownDrain cnt slp n w = (st, u)"
  shows "still w u" and "st = STATUS_SUCCESS \<Longrightarrow> cnt u = SHINKEN_RUNDOWN_STOP_BIT"
proof -
  have "still w (snd (ShRundownDrain cnt slp n w))"
    by (rule drain_keeps [where P = "still w"]) (blast intro: still_trans slp, rule still_refl)
  then show "still w u" using run by simp
  show "cnt u = SHINKEN_RUNDOWN_STOP_BIT" if "st = STATUS_SUCCESS"
    using drain_success_count [of cnt slp n w u] run that by simp
qed

lemma checked_step:
  assumes "checked why (ok', u) = (ok, v)" and "still w u"
  shows "still w v"
  using assms(1) still_trans [OF assms(2) still_record_if] assms(2) by (auto simp: checked_def split: if_splits)

lemma checked_ok: "checked why (ok', u) = (ok, v) \<Longrightarrow> ok \<Longrightarrow> ok' \<and> v = u"
  by (auto simp: checked_def)

lemma work_items_stop:
  assumes P: "platform_still P" and run: "drain_work_items P w = (ok, v)"
  shows "still w v" and "ok \<Longrightarrow> rd_count (ShRundownWorkItem v) = SHINKEN_RUNDOWN_STOP_BIT"
proof -
  let ?w = "w\<lparr>ShRundownWorkItem := ShRundownBeginStop (ShRundownWorkItem w)\<rparr>"
  obtain st u where d: "ShRundownDrain (\<lambda>w. rd_count (ShRundownWorkItem w)) (pf_sleep P) SK_LIFECYCLE_DRAIN_RETRIES ?w = (st, u)"
    by fastforce
  note u = drain_still [OF platform_stillD(1) [OF P] d]
  have v: "checked ShinkenBlockWorkItemDrain (st = STATUS_SUCCESS, u) = (ok, v)" using run d by (simp add: drain_work_items_def)
  have "still w u" by (rule still_trans [OF still_stops(3) u(1)])
  then show "still w v" by (rule checked_step [OF v])
  show "rd_count (ShRundownWorkItem v) = SHINKEN_RUNDOWN_STOP_BIT" if ok using checked_ok [OF v that] u(2) by simp
qed

lemma bfe_drains:
  assumes P: "platform_still P" and run: "drain_bfe P w = (ok, v)"
  shows "still w v" and "ok \<Longrightarrow> rd_count (ShRundownBfe v) = SHINKEN_RUNDOWN_STOP_BIT"
proof -
  let ?w = "w\<lparr>ShRundownBfe := ShRundownBeginStop (ShRundownBfe w)\<rparr>"
  obtain st u where d: "ShRundownDrain (\<lambda>w. rd_count (ShRundownBfe w)) (pf_sleep P) SK_LIFECYCLE_DRAIN_RETRIES ?w = (st, u)"
    by fastforce
  note u = drain_still [OF platform_stillD(1) [OF P] d]
  have v: "checked ShinkenBlockBfeCallbackActive (st = STATUS_SUCCESS, u) = (ok, v)" using run d by (simp add: drain_bfe_def)
  have "still w u" by (rule still_trans [OF still_stops(2) u(1)])
  then show "still w v" by (rule checked_step [OF v])
  show "rd_count (ShRundownBfe v) = SHINKEN_RUNDOWN_STOP_BIT" if ok using checked_ok [OF v that] u(2) by simp
qed

lemma bfe_stops:
  assumes P: "platform_still P" and run: "skBfeQuiesce P w = (ok, v)"
  shows "still w v" and "ok \<Longrightarrow> g_SkBfeChangeHandle v = NULL \<and> rd_count (ShRundownBfe v) = SHINKEN_RUNDOWN_STOP_BIT"
proof -
  have "still w v \<and> (ok \<longrightarrow> g_SkBfeChangeHandle v = NULL \<and> rd_count (ShRundownBfe v) = SHINKEN_RUNDOWN_STOP_BIT)"
  proof (cases "g_SkBfeChangeHandle w = NULL")
    case True
    then have "drain_bfe P w = (ok, v)" using run by (simp add: skBfeQuiesce_def)
    from bfe_drains [OF P this] show ?thesis using True stillD(15) by blast
  next
    case False
    obtain st u where un: "op_BfeUnsubscribe (pf_ops P) (g_SkBfeChangeHandle w) w = (st, u)" by fastforce
    note u = platform_stillD(6) [OF P un]
    let ?u = "u\<lparr>g_SkBfeChangeHandle := NULL\<rparr>"
    show ?thesis
    proof (cases "st = STATUS_SUCCESS")
      case True
      then have "drain_bfe P ?u = (ok, v)" using run un False by (simp add: skBfeQuiesce_def)
      note d = bfe_drains [OF P this]
      have "still w ?u" by (rule still_trans [OF u still_stops(4)])
      then show ?thesis using d stillD(15) [OF d(1)] still_trans by simp blast
    next
      case st: False
      then have "\<not> ok" "v = skRecordIfNone ShinkenBlockBfeUnsubscribe u" using run un False by (simp_all add: skBfeQuiesce_def)
      then show ?thesis using still_trans [OF u still_record_if] by simp
    qed
  qed
  then show "still w v" and "ok \<Longrightarrow> g_SkBfeChangeHandle v = NULL \<and> rd_count (ShRundownBfe v) = SHINKEN_RUNDOWN_STOP_BIT"
    by simp_all
qed

section \<open>The flow table and the WFP manager\<close>

lemma upd_flow_still: "upd_flow p f w = Some v \<Longrightarrow> still w v"
  by (auto simp: upd_flow_def bind_eq_Some_conv)

lemma flow_release_still: "SkFlowRelease p w = Some v \<Longrightarrow> still w v"
  by (auto simp: SkFlowRelease_def free_flow_def bind_eq_Some_conv split: if_splits
      intro: still_trans [OF upd_flow_still] upd_flow_still)

lemma flow_link_still: "flow_link p w = Some v \<Longrightarrow> still w v"
  by (auto simp: flow_link_def bind_eq_Some_conv intro: still_trans [OF upd_flow_still])

lemma collect_loop_still: "collect_loop c ps w = Some v \<Longrightarrow> still w v"
proof (induction ps arbitrary: w)
  case (Cons p ps)
  then show ?case by (auto simp: bind_eq_Some_conv split: if_splits intro: still_trans [OF still_flow(4)])
qed simp

lemma remove_loop_still:
  assumes P: "platform_still P"
  shows "remove_loop (op_FlowRemoveContext (pf_ops P)) c n w = Some v \<Longrightarrow> still w v"
proof (induction n arbitrary: w)
  case (Suc n)
  show ?case
  proof (cases "flow_stale w")
    case Nil
    then show ?thesis using Suc.prems by simp
  next
    case (Cons p ps)
    then obtain w1 and f :: flow_ctx and st w2 w3 where
      u: "upd_flow p (\<lambda>c. c\<lparr>f_linked := False\<rparr>) (w\<lparr>flow_stale := ps\<rparr>) = Some w1"
      and r: "op_FlowRemoveContext (pf_ops P) (f_flowId f) (skFlowWfpLayerId (f_layerId f)) c w1 = (st, w2)"
      and l: "(if st = STATUS_SUCCESS then SkFlowRelease p w2 else flow_link p w2) = Some w3"
      and rest: "remove_loop (op_FlowRemoveContext (pf_ops P)) c n w3 = Some v"
      using Suc.prems by (auto simp: bind_eq_Some_conv case_prod_unfold Let_def) (metis prod.collapse)
    have "still w2 w3" using l flow_release_still flow_link_still by (metis (no_types))
    then have "still w w3"
      using still_trans [OF still_trans [OF still_trans [OF still_flow(1) upd_flow_still [OF u]] platform_stillD(13) [OF P r]]]
      by blast
    then show ?thesis using still_trans Suc.IH [OF rest] by blast
  qed
qed simp

lemma flow_remove_all_still:
  assumes P: "platform_still P" and run: "SkFlowRemoveAll (op_FlowRemoveContext (pf_ops P)) c w = Some v"
  shows "still w v"
proof (cases "g_SkFlowInited w")
  case True
  then obtain u where "remove_collect c w = Some u" and r: "remove_loop (op_FlowRemoveContext (pf_ops P)) c (length (flow_stale u)) u = Some v"
    using run by (auto simp: SkFlowRemoveAll_def bind_eq_Some_conv)
  then have "still w u" using still_trans [OF still_flow(1) collect_loop_still] by (simp add: remove_collect_def)
  then show ?thesis using still_trans remove_loop_still [OF P r] by blast
qed (use run in \<open>simp add: SkFlowRemoveAll_def\<close>)

lemma unregister_loop_still:
  assumes "\<And>w. still w (snd (call w))" and "\<And>w u. between w = Some u \<Longrightarrow> still w u"
  shows "unregister_loop call between n a obj w = Some (st, obj', v) \<Longrightarrow> still w v"
proof (induction n arbitrary: a obj w)
  case 0
  then show ?case using assms(1) [of w] by (auto simp: case_prod_unfold Let_def split: if_splits)
next
  case (Suc n)
  obtain s u where c: "call w = (s, u)" by fastforce
  then have u: "still w u" using assms(1) [of w] by simp
  show ?case
  proof (cases "s = STATUS_DEVICE_BUSY")
    case True
    then obtain x where x: "between u = Some x"
        "unregister_loop call between n (a + 1) (obj\<lparr>so_lastStatus := s\<rparr>) x = Some (st, obj', v)"
      using Suc.prems c by (auto simp: bind_eq_Some_conv)
    then show ?thesis using still_trans [OF still_trans [OF u assms(2) [OF x(1)]]] Suc.IH by blast
  next
    case False
    then show ?thesis using Suc.prems c u by (auto simp: Let_def split: if_splits)
  qed
qed

lemma unregister_object_still:
  assumes P: "platform_still P"
    and run: "SkWfpObjectUnregister (pf_ops P) (pf_sleep P) (Some (skWfpBusyCleanup (pf_ops P) i)) n obj w = Some (st, obj', v)"
  shows "still w v"
proof -
  have call: "still u (snd (op_UnregisterCalloutById (pf_ops P) k u))" for k u
    using platform_stillD(7) [OF P] by (metis prod.collapse)
  have between: "still u x" if "do { w \<leftarrow> skWfpBusyCleanup (pf_ops P) i u; Some (pf_sleep P w) } = Some x" for u x
    using that flow_remove_all_still [OF P] still_trans [OF _ platform_stillD(1) [OF P]] platform_stillD(1) [OF P]
    by (auto simp: skWfpBusyCleanup_def bind_eq_Some_conv split: if_splits)
  show ?thesis
    using run unregister_loop_still [OF call between] by (auto simp: SkWfpObjectUnregister_def split: if_splits)
qed

lemma delete_object_still:
  assumes P: "platform_still P" and run: "SkWfpObjectDelete (pf_ops P) e obj w = (st, obj', v)"
  shows "still w v"
  using run platform_stillD(8,9) [OF P]
  by (auto simp: SkWfpObjectDelete_def Let_def split: if_splits prod.splits)

lemma unregister_layers_still:
  assumes P: "platform_still P"
  shows "unregister_layers (pf_ops P) (pf_sleep P) is ok w = Some (ok', v) \<Longrightarrow> still w v"
proof (induction "is" arbitrary: ok w)
  case (Cons i js)
  then obtain ok1 u where r: "unregister_layer (pf_ops P) (pf_sleep P) i ok w = Some (ok1, u)"
      "unregister_layers (pf_ops P) (pf_sleep P) js ok1 u = Some (ok', v)"
    by (auto simp: bind_eq_Some_conv)
  have "still w u"
  proof (cases "live (callout_at i w)")
    case True
    then obtain st co x where x: "SkWfpObjectUnregister (pf_ops P) (pf_sleep P) (Some (skWfpBusyCleanup (pf_ops P) (of_nat i)))
        SK_WFP_BUSY_RETRIES (callout_at i w) w = Some (st, co, x)"
        "u = set_callout i co x \<or> u = ShRuntimeRecordBlock ShinkenBlockSensorCalloutBusy (set_callout i co x)"
      using r(1) by (auto simp: unregister_layer_def bind_eq_Some_conv Let_def split: if_splits)
    have "still w (set_callout i co x)" by (rule still_trans [OF unregister_object_still [OF P x(1)] still_wfp(1)])
    then show ?thesis using x(2) still_trans [OF _ still_record] by blast
  qed (use r(1) in \<open>simp add: unregister_layer_def\<close>)
  then show ?case using still_trans Cons.IH [OF r(2)] by blast
qed simp

lemma delete_layer_still:
  assumes P: "platform_still P"
  shows "still w (snd (delete_layer (pf_ops P) i ok w))"
proof -
  have f: "still u (snd (delete_filter (pf_ops P) i ok u))" for u ok
  proof -
    obtain st fi x where d: "SkWfpObjectDelete (pf_ops P) (engine_of u) (filter_at i u) u = (st, fi, x)"
      by (rule prod_cases3)
    have "still u (set_filter i fi x)" by (rule still_trans [OF delete_object_still [OF P d] still_wfp(2)])
    then show ?thesis using d still_trans [OF _ still_record, of u "set_filter i fi x"] by (simp add: delete_filter_def Let_def)
  qed
  have c: "still u (snd (delete_callout (pf_ops P) i ok u))" for u ok
  proof -
    obtain st co x where d: "SkWfpObjectDelete (pf_ops P) (engine_of u) (callout_at i u) u = (st, co, x)"
      by (rule prod_cases3)
    have "still u (set_callout i co x)" by (rule still_trans [OF delete_object_still [OF P d] still_wfp(1)])
    then show ?thesis using d still_trans [OF _ still_record, of u "set_callout i co x"] by (simp add: delete_callout_def Let_def)
  qed
  obtain ok1 w1 where d: "delete_filter (pf_ops P) i ok w = (ok1, w1)" by fastforce
  show ?thesis using still_trans [OF f [of w ok] c [of _ ok1]] d by (simp add: delete_layer_def)
qed

lemma delete_layers_still:
  assumes P: "platform_still P"
  shows "still w (snd (delete_layers (pf_ops P) is ok w))"
proof (induction "is" arbitrary: ok w)
  case (Cons i js)
  obtain ok1 w1 where d: "delete_layer (pf_ops P) i ok w = (ok1, w1)" by fastforce
  then show ?case using still_trans [OF delete_layer_still [OF P, of w i ok] Cons.IH [of _ ok1]] by simp
qed simp

lemma record_failure_still: "still w (snd r) \<Longrightarrow> still w (snd (record_failure r ok))"
  using still_trans [OF _ still_record, of w "snd r"] by (simp add: record_failure_def case_prod_unfold)

lemma delete_key_still:
  assumes P: "platform_still P"
  shows "still w (snd (delete_sublayer (pf_ops P) w))" and "still w (snd (delete_provider (pf_ops P) w))"
proof -
  have call: "still w v" if "skWfpDeleteByKey (pf_ops P) e sub obj w = (d, obj', v)" for e sub obj d obj' v
    using that platform_stillD(10,11) [OF P] by (auto simp: skWfpDeleteByKey_def Let_def split: if_splits prod.splits)
  obtain d obj' v where k: "skWfpDeleteByKey (pf_ops P) (engine_of w) True (m_sublayer (g_WfpManager w)) w = (d, obj', v)"
    by (rule prod_cases3)
  show "still w (snd (delete_sublayer (pf_ops P) w))"
    using still_trans [OF call [OF k] still_wfp(5)] by (simp add: delete_sublayer_def k)
  obtain d obj' v where k: "skWfpDeleteByKey (pf_ops P) (engine_of w) False (m_provider (g_WfpManager w)) w = (d, obj', v)"
    by (rule prod_cases3)
  show "still w (snd (delete_provider (pf_ops P) w))"
    using still_trans [OF call [OF k] still_wfp(6)] by (simp add: delete_provider_def k)
qed

lemma delete_objects_still:
  assumes P: "platform_still P" and run: "delete_objects (pf_ops P) (pf_sleep P) w = Some (ok, v)"
  shows "still w v"
proof -
  obtain ok1 w1 where u: "unregister_layers (pf_ops P) (pf_sleep P) [0..<SK_LAYER_COUNT] True w = Some (ok1, w1)"
    using run by (auto simp: delete_objects_def bind_eq_Some_conv)
  obtain ok2 w2 where l: "delete_layers (pf_ops P) [0..<SK_LAYER_COUNT] ok1 w1 = (ok2, w2)" by fastforce
  obtain ok3 w3 where s: "record_failure (delete_sublayer (pf_ops P) w2) ok2 = (ok3, w3)" by fastforce
  have v: "record_failure (delete_provider (pf_ops P) w3) ok3 = (ok, v)"
    using run u l s by (simp add: delete_objects_def del: upt.simps)
  have "still w1 w2" using delete_layers_still [OF P, of w1 "[0..<SK_LAYER_COUNT]" ok1] l by simp
  then have "still w w2" by (rule still_trans [OF unregister_layers_still [OF P u]])
  moreover have "still w2 w3" using record_failure_still [OF delete_key_still(1) [OF P], of w2 ok2] s by simp
  moreover have "still w3 v" using record_failure_still [OF delete_key_still(2) [OF P], of w3 ok3] v by simp
  ultimately show ?thesis using still_trans by blast
qed

lemma wfp_stops:
  assumes P: "platform_still P" and run: "SkWfpManagerTeardown (pf_ops P) (pf_sleep P) w = Some (ok, v)"
  shows "still w v" and "ok \<Longrightarrow> \<not> m_installed (g_WfpManager v) \<and> engine_of v = NULL"
proof -
  let ?w = "skWfpLock w"
  have "still w v \<and> (ok \<longrightarrow> \<not> m_installed (g_WfpManager v) \<and> engine_of v = NULL)"
  proof (cases "\<not> m_installed (g_WfpManager ?w) \<and> engine_of ?w = NULL")
    case True
    then have "v = skWfpUnlock ?w" using run by (simp add: SkWfpManagerTeardown_def)
    then show ?thesis using True still_trans [OF still_wfp(3,4)] by (simp add: skWfpUnlock_def)
  next
    case False
    obtain ok1 u where d: "delete_objects (pf_ops P) (pf_sleep P) ?w = Some (ok1, u)"
      using run False by (auto simp: SkWfpManagerTeardown_def bind_eq_Some_conv)
    have u: "still w u" by (rule still_trans [OF still_wfp(3) delete_objects_still [OF P d]])
    obtain st x where e: "op_EngineClose (pf_ops P) (engine_of u) u = (st, x)" by fastforce
    have x: "still w x" by (rule still_trans [OF u platform_stillD(12) [OF P e]])
    let ?y = "upd_manager (\<lambda>m. m\<lparr>m_engineObj := (m_engineObj m)\<lparr>so_lastStatus := st\<rparr>\<rparr>) x"
    have y: "still w ?y" by (rule still_trans [OF x still_wfp(7)])
    let ?closed = "upd_manager (\<lambda>m. m\<lparr>m_engineObj := (m_engineObj m)\<lparr>so_state := SkWfpStateDeleted\<rparr>, m_engine := NULL\<rparr>) ?y"
    let ?leaked = "upd_manager (\<lambda>m. m\<lparr>m_engineObj := (m_engineObj m)\<lparr>so_state := SkWfpStateLeaked\<rparr>\<rparr>) ?y"
    have c: "close_engine (pf_ops P) u = (if st = STATUS_SUCCESS then (True, ?closed) else (False, ?leaked))"
      by (simp add: close_engine_def e)
    define r where "r = (if engine_of u \<noteq> NULL \<and> ok1 then record_failure (close_engine (pf_ops P) u) ok1 else (ok1, u))"
    have r: "still w (snd r) \<and> (fst r \<longrightarrow> engine_of (snd r) = NULL)"
      using u still_trans [OF y still_wfp(8)] still_trans [OF still_trans [OF y still_wfp(7)] still_record]
      by (auto simp: r_def c record_failure_def upd_manager_def)
    have v: "ok = fst r" "v = skWfpUnlock (if fst r then upd_manager (\<lambda>m. m\<lparr>m_installed := False\<rparr>) (snd r) else snd r)"
      using run False d unfolding r_def
      by (auto simp: SkWfpManagerTeardown_def case_prod_unfold Let_def)
    have "still w v"
    proof (cases "fst r")
      case True
      show ?thesis
        unfolding v(2) using True still_trans [OF still_trans [OF conjunct1 [OF r] still_wfp(9)] still_wfp(4)] by simp
    next
      case False
      show ?thesis unfolding v(2) using False still_trans [OF conjunct1 [OF r] still_wfp(4)] by simp
    qed
    then show ?thesis using r v by (simp add: skWfpUnlock_def upd_manager_def)
  qed
  then show "still w v" and "ok \<Longrightarrow> \<not> m_installed (g_WfpManager v) \<and> engine_of v = NULL" by simp_all
qed

section \<open>Quiesce and unload\<close>

text \<open>Everything a destroyed subsystem could still be reached through.\<close>

definition all_stopped :: "'a driver_scheme \<Rightarrow> bool" where
  "all_stopped w \<longleftrightarrow> control_off w \<and> \<not> SkRuleStoreWritable w \<and> q_stopping w \<noteq> 0 \<and> \<not> ShEventThreadRunning w \<and>
     rd_count (g_InjectionRundown w) = SHINKEN_RUNDOWN_STOP_BIT \<and>
     g_InjectionHandle w ! 0 = NULL \<and> g_InjectionHandle w ! 1 = NULL \<and>
     g_SkBfeChangeHandle w = NULL \<and> rd_count (ShRundownBfe w) = SHINKEN_RUNDOWN_STOP_BIT \<and>
     \<not> m_installed (g_WfpManager w) \<and> engine_of w = NULL \<and>
     rd_count (ShRundownWorkItem w) = SHINKEN_RUNDOWN_STOP_BIT"

definition started :: "'a driver_scheme \<Rightarrow> bool" where
  "started w \<longleftrightarrow> q_head w \<noteq> None \<and> g_SkInjectInited w \<noteq> 0 \<and> length (g_InjectionHandle w) = 2"

lemma still_started: "still w v \<Longrightarrow> started w \<Longrightarrow> started v"
  using stillD(13,14,20) [of w v] by (simp add: started_def)

lemma not_writable: "g_State w = ShinkenTeardown \<or> g_State w = ShinkenUnloadBlocked \<Longrightarrow> \<not> SkRuleStoreWritable w"
  by (auto simp: SkRuleStoreWritable_def SkStoreWritableNoLock_def ShRuntimeIsActive_def)

lemma checked_pair:
  assumes "checked why r = (ok, v)"
  obtains ok' u where "r = (ok', u)" and "still u v" and "ok \<longrightarrow> ok'"
proof (cases r)
  case (Pair ok' u)
  show thesis using that [OF Pair] checked_step [OF assms [unfolded Pair] still_refl] checked_ok [OF assms [unfolded Pair]] by blast
qed

text \<open>The eight steps of a quiesce that returns.\<close>

lemma quiesce_steps:
  assumes "SkLifecycleQuiesce P w = Some (ok, v)"
  obtains k1 u1 w1 w2 ok3 w3 k4 u4 w4 ok5 w5 k6 u6 w6 ok7 w7 where
    "SkControlQuiesce (pf_wdf P) (pf_sleep P) (pf_ControlJoin P) w = (k1, u1)" "still u1 w1" "still w1 w2"
    "skEventQuiesce P w2 = Some (ok3, w3)" "SkInjectQuiesce (pf_ops P) (pf_sleep P) w3 = (k4, u4)" "still u4 w4"
    "skBfeQuiesce P w4 = (ok5, w5)" "SkWfpManagerTeardown (pf_ops P) (pf_sleep P) w5 = Some (k6, u6)" "still u6 w6"
    "drain_work_items P w6 = (ok7, w7)" "still w7 v" "ok \<longrightarrow> k1 \<and> ok3 \<and> k4 \<and> ok5 \<and> k6 \<and> ok7"
proof -
  obtain ok1 w1 where c1: "checked ShinkenBlockHandleContextsOpen
      (SkControlQuiesce (pf_wdf P) (pf_sleep P) (pf_ControlJoin P) w) = (ok1, w1)" by fastforce
  obtain ok2 w2 where c2: "checked ShinkenBlockRundownStuck (\<not> SkRuleStoreWritable w1, w1) = (ok2, w2)" by fastforce
  obtain ok3 w3 where c3: "skEventQuiesce P w2 = Some (ok3, w3)"
    using assms c1 c2 by (auto simp: SkLifecycleQuiesce_def bind_eq_Some_conv)
  obtain ok4 w4 where c4: "checked ShinkenBlockInjectionDrain (SkInjectQuiesce (pf_ops P) (pf_sleep P) w3) = (ok4, w4)" by fastforce
  obtain ok5 w5 where c5: "skBfeQuiesce P w4 = (ok5, w5)" by fastforce
  obtain r where t: "SkWfpManagerTeardown (pf_ops P) (pf_sleep P) w5 = Some r"
    using assms c1 c2 c3 c4 c5 by (auto simp: SkLifecycleQuiesce_def bind_eq_Some_conv)
  obtain ok6 w6 where c6: "checked ShinkenBlockEngineClose r = (ok6, w6)" by fastforce
  obtain ok7 w7 where c7: "drain_work_items P w6 = (ok7, w7)" by fastforce
  obtain ok8 w8 where c8: "checked ShinkenBlockEventThreadDrain (\<not> ShEventThreadRunning w7, w7) = (ok8, w8)" by fastforce
  have v: "v = w8" "ok \<longleftrightarrow> ok1 \<and> ok2 \<and> ok3 \<and> ok4 \<and> ok5 \<and> ok6 \<and> ok7 \<and> ok8"
    using assms c1 c2 c3 c4 c5 t c6 c7 c8 by (auto simp: SkLifecycleQuiesce_def)
  obtain k1 u1 where q1: "SkControlQuiesce (pf_wdf P) (pf_sleep P) (pf_ControlJoin P) w = (k1, u1)" "still u1 w1" "ok1 \<longrightarrow> k1"
    by (rule checked_pair [OF c1])
  obtain k4 u4 where q4: "SkInjectQuiesce (pf_ops P) (pf_sleep P) w3 = (k4, u4)" "still u4 w4" "ok4 \<longrightarrow> k4"
    by (rule checked_pair [OF c4])
  obtain k6 u6 where q6: "r = (k6, u6)" "still u6 w6" "ok6 \<longrightarrow> k6" by (rule checked_pair [OF c6])
  have "ok \<longrightarrow> k1 \<and> ok3 \<and> k4 \<and> ok5 \<and> k6 \<and> ok7" using v(2) q1(3) q4(3) q6(3) by blast
  with that [OF q1(1,2) checked_step [OF c2 still_refl] c3 q4(1,2) c5 t [unfolded q6(1)] q6(2) c7] show thesis
    using checked_step [OF c8 still_refl] v(1) by blast
qed

lemma quiesce_stops:
  assumes P: "platform_still P" and td: "g_State w = ShinkenTeardown" and st: "started w"
    and run: "SkLifecycleQuiesce P w = Some (ok, v)"
  shows "still w v" and "ok \<Longrightarrow> all_stopped v"
proof -
  obtain k1 u1 w1 w2 ok3 w3 k4 u4 w4 ok5 w5 k6 u6 w6 ok7 w7 where
    c: "SkControlQuiesce (pf_wdf P) (pf_sleep P) (pf_ControlJoin P) w = (k1, u1)" "still u1 w1" "still w1 w2" and
    e: "skEventQuiesce P w2 = Some (ok3, w3)" and
    i: "SkInjectQuiesce (pf_ops P) (pf_sleep P) w3 = (k4, u4)" "still u4 w4" and
    b: "skBfeQuiesce P w4 = (ok5, w5)" and
    m: "SkWfpManagerTeardown (pf_ops P) (pf_sleep P) w5 = Some (k6, u6)" "still u6 w6" and
    x: "drain_work_items P w6 = (ok7, w7)" "still w7 v" and oks: "ok \<longrightarrow> k1 \<and> ok3 \<and> k4 \<and> ok5 \<and> k6 \<and> ok7"
    by (rule quiesce_steps [OF run])
  note cs = control_stops [OF P c(1)] and bs = bfe_stops [OF P b] and ms = wfp_stops [OF P m(1)] and xs = work_items_stop [OF P x(1)]
  note f2 = still_trans [OF cs(1) still_trans [OF c(2,3)]]
  have st2: "started w2" using still_started [OF f2 st] .
  then have "q_head w2 \<noteq> None" by (simp add: started_def)
  note es = event_stops [OF P this e]
  have st3: "g_SkInjectInited w3 \<noteq> 0" "length (g_InjectionHandle w3) = 2"
    using still_started [OF es(1) st2] by (simp_all add: started_def)
  note "is" = injection_stops [OF P st3 i(1)]
  note r6 = still_trans [OF m(2) still_trans [OF xs(1) x(2)]]
  note r4 = still_trans [OF i(2) still_trans [OF bs(1) still_trans [OF ms(1) r6]]]
  note r3 = still_trans [OF "is"(1) r4]
  show all: "still w v" by (rule still_trans [OF f2 still_trans [OF es(1) r3]])
  assume ok
  with oks have oks: k1 ok3 k4 ok5 k6 ok7 by simp_all
  have "control_off v"
    using cs(2) [OF oks(1)] stillD(3-6) [OF still_trans [OF still_trans [OF c(2,3)] still_trans [OF es(1) r3]]]
    by (simp add: control_off_def)
  moreover have "\<not> SkRuleStoreWritable v" using not_writable stillD(1) [OF all] td by blast
  moreover have "q_stopping v \<noteq> 0 \<and> \<not> ShEventThreadRunning v"
    using es(2) stillD(7,8) [OF r3] by (simp add: ShEventThreadRunning_def)
  moreover have "rd_count (g_InjectionRundown v) = SHINKEN_RUNDOWN_STOP_BIT \<and>
      g_InjectionHandle v ! 0 = NULL \<and> g_InjectionHandle v ! 1 = NULL"
    using "is"(2) [OF oks(3)] stillD(10-12) [OF r4] by simp
  moreover have "g_SkBfeChangeHandle v = NULL \<and> rd_count (ShRundownBfe v) = SHINKEN_RUNDOWN_STOP_BIT"
    using bs(2) [OF oks(4)] stillD(15,16) [OF still_trans [OF ms(1) r6]] by simp
  moreover have "\<not> m_installed (g_WfpManager v) \<and> engine_of v = NULL"
    using ms(2) [OF oks(5)] stillD(18,19) [OF r6] by simp
  moreover have "rd_count (ShRundownWorkItem v) = SHINKEN_RUNDOWN_STOP_BIT"
    using xs(2) [OF oks(6)] stillD(17) [OF x(2)] by simp
  ultimately show "all_stopped v" by (simp add: all_stopped_def)
qed

text \<open>What a destroy that returns unblocked has done.\<close>

lemma delete_device_done: "g_SkControlWdfDevice (SkDeviceDelete W w) = NULL"
  by (simp add: SkDeviceDelete_def)

lemma destroy_done:
  assumes "SkLifecycleDestroy P w = Some v" and "ShRuntimeDestroyAllowed w" and "g_State v \<noteq> ShinkenUnloadBlocked"
  shows "g_SkSteps v = 0 \<and> g_SkDevice v = NULL \<and> g_SkControlWdfDevice v = NULL"
proof -
  obtain w1 ok w2 where "SkFlowDestroy (SkInjectDestroy (pf_ndis P) w) = Some w1"
    and "SkRuleStoreShutdown (pf_sleep P) w1 = Some (ok, w2)"
    and v: "v = (if \<not> ok then ShRuntimeEnterUnloadBlocked ShinkenBlockRundownStuck w2
      else SkDeviceDelete (pf_wdf P) (SkControlDestroy (pf_wdf P) w2)\<lparr>g_SkSteps := 0, g_SkDevice := NULL\<rparr>)"
    using assms(1,2) by (auto simp: SkLifecycleDestroy_def bind_eq_Some_conv Let_def split: if_splits)
  then have ok using assms(3) by (cases ok) simp_all
  then show ?thesis using v delete_device_done by simp
qed


section \<open>A concrete platform\<close>

text \<open>Every call succeeds at once and no other thread runs; \<open>bfe\<close>: the filter engine is running.\<close>

definition calm_ops :: "driver ops" where
  "calm_ops = \<lparr>op_UnregisterCalloutById = \<lambda>i. Pair STATUS_SUCCESS, op_UnregisterCalloutByKey = \<lambda>k. Pair STATUS_SUCCESS,
     op_FilterDeleteById = \<lambda>h i. Pair STATUS_SUCCESS, op_FilterDeleteByKey = \<lambda>h k. Pair STATUS_SUCCESS,
     op_CalloutDeleteById = \<lambda>h i. Pair STATUS_SUCCESS, op_CalloutDeleteByKey = \<lambda>h k. Pair STATUS_SUCCESS,
     op_ProviderDeleteByKey = \<lambda>h k. Pair STATUS_SUCCESS, op_SubLayerDeleteByKey = \<lambda>h k. Pair STATUS_SUCCESS,
     op_EngineClose = \<lambda>h. Pair STATUS_SUCCESS, op_InjectionHandleDestroy = \<lambda>h. Pair STATUS_SUCCESS,
     op_FlowRemoveContext = \<lambda>f l c. Pair STATUS_SUCCESS, op_BfeUnsubscribe = \<lambda>h. Pair STATUS_SUCCESS\<rparr>"

definition calm_fw :: "driver api" where
  "calm_fw = \<lparr>fw_EngineOpen = \<lambda>p w. (STATUS_SUCCESS, 3, w), fw_TransactionBegin = \<lambda>h. Pair STATUS_SUCCESS,
     fw_ProviderAdd = \<lambda>h k. Pair STATUS_SUCCESS, fw_SubLayerAdd = \<lambda>h k p n. Pair STATUS_SUCCESS,
     fw_CalloutRegister = \<lambda>d c w. (STATUS_SUCCESS, 1, w), fw_CalloutAdd = \<lambda>h k l p w. (STATUS_SUCCESS, 7, w),
     fw_FilterAdd = \<lambda>h s w. (STATUS_SUCCESS, 9, w), fw_TransactionCommit = \<lambda>h. Pair STATUS_SUCCESS,
     fw_TransactionAbort = \<lambda>h. Pair STATUS_SUCCESS\<rparr>"

definition calm_wdf :: "driver wdf" where
  "calm_wdf = \<lparr>wd_DriverCreate = \<lambda>w. (STATUS_SUCCESS, 1, w), wd_InitAllocate = \<lambda>d w. (2, w),
     wd_AssignName = \<lambda>h. Pair STATUS_SUCCESS, wd_InitFree = \<lambda>h w. w, wd_DeviceCreate = \<lambda>h w. (STATUS_SUCCESS, 3, w),
     wd_QueueCreate = \<lambda>d w. (STATUS_SUCCESS, 4, w), wd_SymbolicLink = \<lambda>d. Pair STATUS_SUCCESS, wd_Finish = \<lambda>d w. w,
     wd_WdmObject = \<lambda>d w. 5, wd_ObjectDelete = \<lambda>d w. w, wd_ReadyNotify = \<lambda>q. Pair STATUS_SUCCESS,
     wd_QueuePurge = \<lambda>q w. w\<rparr>"

definition calm_ndis :: "driver ndis" where
  "calm_ndis = \<lparr>nd_HandleCreate = \<lambda>f w. (STATUS_SUCCESS, ucast f, w), nd_AllocNblPool = \<lambda>w. (5, w),
     nd_AllocNbPool = \<lambda>w. (6, w), nd_FreeNblPool = \<lambda>h w. w, nd_FreeNbPool = \<lambda>h w. w\<rparr>"

definition calm :: "bool \<Rightarrow> driver platform" where
  "calm bfe = \<lparr>pf_ops = calm_ops, pf_fw = calm_fw, pf_wdf = calm_wdf, pf_ndis = calm_ndis, pf_sleep = \<lambda>w. w,
     pf_alloc = \<lambda>n. True, pf_EventThread = \<lambda>w. (STATUS_SUCCESS, Some 11, w), pf_EventJoin = \<lambda>t. Pair STATUS_SUCCESS,
     pf_ControlThread = \<lambda>w. (STATUS_SUCCESS, Some 12, w), pf_ControlJoin = \<lambda>t. Pair STATUS_SUCCESS,
     pf_BfeSubscribe = \<lambda>d w. (STATUS_SUCCESS, 13, w), pf_BfeRunning = \<lambda>w. (bfe, w)\<rparr>"

lemma calm_simps [simp]:
  "pf_ops (calm bfe) = calm_ops" "pf_fw (calm bfe) = calm_fw" "pf_wdf (calm bfe) = calm_wdf" "pf_ndis (calm bfe) = calm_ndis"
  "pf_sleep (calm bfe) w = w" "pf_EventJoin (calm bfe) t w = (STATUS_SUCCESS, w)"
  "pf_ControlJoin (calm bfe) t w = (STATUS_SUCCESS, w)" "pf_BfeRunning (calm bfe) w = (bfe, w)"
  "pf_BfeSubscribe (calm bfe) h w = (STATUS_SUCCESS, 13, w)"
  by (simp_all add: calm_def)

lemma calm_still: "platform_still (calm bfe)"
  by (simp add: platform_still_def calm_ops_def calm_wdf_def)

text \<open>A driver at work: threads, handles and the engine are there, WFP is installed.\<close>

definition at_work :: driver where
  "at_work = (inject.extend image_inject \<lparr>g_SkSteps = 0xFF, g_SkDevice = 5, g_SkWfpDeferred = False, g_SkBfeChangeHandle = 13\<rparr>)
     \<lparr>g_State := ShinkenActive, q_head := Some [], q_threadObject := Some 11, g_SkDequeueThread := Some 12,
      g_ControlGateOpen := True, g_ControlReady := True, g_SkControlWdfDevice := 3, g_SkControlWdfQueue := 4,
      g_SkInjectInited := 1, g_InjectionHandle := [2, 23], g_InjectionTrack := replicate 2 (ShWfpObjectInit ''h'' 0 0 None),
      g_SkNblPool := 5, g_SkNbPool := 6, g_WfpManager := image_manager\<lparr>m_engine := 3, m_installed := True\<rparr>\<rparr>"

lemma at_work_state:
  "g_State at_work = ShinkenActive" "q_head at_work = Some []" "q_threadObject at_work = Some 11" "g_SkDequeueThread at_work = Some 12"
  "g_SkControlWdfDevice at_work = 3" "g_SkControlWdfQueue at_work = 4" "g_SkInjectInited at_work = 1"
  "g_InjectionHandle at_work = [2, 23]" "g_InjectionTrack at_work = replicate 2 (ShWfpObjectInit ''h'' 0 0 None)"
  "g_WfpManager at_work = image_manager\<lparr>m_engine := 3, m_installed := True\<rparr>" "g_SkBfeChangeHandle at_work = 13"
  "q_startLock at_work = 0" "q_producers at_work = 0" "q_pending at_work = 0" "g_HandlesOpen at_work = 0"
  "rd_count (g_InjectionRundown at_work) = 0" "rd_count (ShRundownBfe at_work) = 0" "rd_count (ShRundownWorkItem at_work) = 0"
  "\<not> g_SkFlowInited at_work" "\<not> g_StoreInited at_work" "g_WriterBusy at_work = 0" "g_BlockReason at_work = ShinkenBlockNone"
  by (simp_all add: at_work_def image_inject_def image_device_def image_wfp_def image_flows_def image_telemetry_def image_evq_def
      image_store_def image_engine_def image_runtime_def inject.defs device.defs wfp.defs flow.defs telemetry.defs evq.defs store.defs
      engine.defs runtime.defs zero_rundown_def)

lemma drain_first: "cnt w = SHINKEN_RUNDOWN_STOP_BIT \<Longrightarrow> ShRundownDrain cnt slp n w = (STATUS_SUCCESS, w)"
  by (cases n) simp_all

lemma handles_first: "ShHandlesOpen w = 0 \<Longrightarrow> drain_handles slp n w = (True, w)"
  by (cases n) simp_all

lemma calm_delete: "g_State (SkDeviceDelete calm_wdf w) = g_State w"
  by (simp add: SkDeviceDelete_def calm_wdf_def)

lemma quiesce_intro:
  assumes "SkControlQuiesce (pf_wdf P) (pf_sleep P) (pf_ControlJoin P) w = (True, w1)" and "skEventQuiesce P w1 = Some (True, w2)"
    and "SkInjectQuiesce (pf_ops P) (pf_sleep P) w2 = (True, w3)" and "skBfeQuiesce P w3 = (True, w4)"
    and "SkWfpManagerTeardown (pf_ops P) (pf_sleep P) w4 = Some (True, w5)" and "drain_work_items P w5 = (True, v)"
    and "\<not> SkRuleStoreWritable w1" and "\<not> ShEventThreadRunning v"
  shows "SkLifecycleQuiesce P w = Some (True, v)"
  using assms by (simp add: SkLifecycleQuiesce_def checked_def)

lemma producers_first: "q_producers w = 0 \<Longrightarrow> wait_producers slp n w = (True, w)"
  by (cases n) simp_all

lemma calm_control:
  assumes "g_SkDequeueThread w = Some t" and "g_HandlesOpen w = 0"
  shows "SkControlQuiesce calm_wdf (pf_sleep (calm bfe)) (pf_ControlJoin (calm bfe)) w =
    (True, w\<lparr>g_ControlGateOpen := False, g_SkDequeueStop := g_SkDequeueStop w OR 1, g_SkDequeueStopEvent := True,
       g_SkDequeueThread := None\<rparr>)"
  using assms by (simp add: SkControlQuiesce_def consumer_gone_def calm_wdf_def ShHandlesOpen_def handles_first Let_def)

lemma calm_event:
  assumes "q_head w = Some []" and "q_startLock w = 0" and "q_producers w = 0" and "q_pending w = 0" and "q_threadObject w = Some t"
  shows "skEventQuiesce (calm bfe) w =
    Some (True, w\<lparr>q_startLock := 0, q_stopping := 1, q_threadObject := None, q_doorbell := True\<rparr>)"
  using assms by (simp add: skEventQuiesce_def ShEventThreadStop_def start_lock.simps checked_def ShEventDrain_def
      drain_loop.simps shEventPopLocked_def producers_first)

lemma at_work_quiesce:
  "\<exists>u. SkLifecycleQuiesce (calm True) (at_work\<lparr>g_State := ShinkenTeardown\<rparr>) = Some (True, u) \<and> g_State u = ShinkenTeardown \<and>
     \<not> g_SkFlowInited u \<and> \<not> g_StoreInited u \<and> g_WriterBusy u = 0"
proof -
  let ?w0 = "at_work\<lparr>g_State := ShinkenTeardown\<rparr>"
  let ?w1 = "?w0\<lparr>g_ControlGateOpen := False, g_SkDequeueStop := g_SkDequeueStop ?w0 OR 1, g_SkDequeueStopEvent := True,
    g_SkDequeueThread := None\<rparr>"
  have s1: "SkControlQuiesce calm_wdf (pf_sleep (calm True)) (pf_ControlJoin (calm True)) ?w0 = (True, ?w1)"
    by (subst calm_control) (simp_all add: at_work_state)
  let ?w2 = "?w1\<lparr>q_startLock := 0, q_stopping := 1, q_threadObject := None, q_doorbell := True\<rparr>"
  have s2: "skEventQuiesce (calm True) ?w1 = Some (True, ?w2)"
    by (subst calm_event) (simp_all add: at_work_state)
  let ?w3 = "?w2\<lparr>g_InjectionRundown := ShRundownBeginStop (g_InjectionRundown ?w2)\<rparr>"
  obtain ts where s3: "SkInjectQuiesce calm_ops (pf_sleep (calm True)) ?w2 =
      (True, ?w3\<lparr>g_InjectionTrack := ts, g_InjectionHandle := [NULL, NULL]\<rparr>)"
    by (simp add: SkInjectQuiesce_def ShInjectionGateStop_def ShRundownBeginStop_def drain_stopped busy_retry_first at_work_state
        ShInjectionDestroyTracked_def calm_ops_def retry_outcome_def ShWfpObjectInit_def set_handle_def)
  let ?w4 = "?w3\<lparr>g_InjectionTrack := ts, g_InjectionHandle := [NULL, NULL]\<rparr>"
  let ?w5 = "?w4\<lparr>g_SkBfeChangeHandle := NULL, ShRundownBfe := ShRundownBeginStop (ShRundownBfe ?w4)\<rparr>"
  have s5: "skBfeQuiesce (calm True) ?w4 = (True, ?w5)"
    by (simp add: skBfeQuiesce_def drain_bfe_def drain_first at_work_state ShRundownBeginStop_def calm_ops_def checked_def)
  obtain m where s6: "SkWfpManagerTeardown calm_ops (pf_sleep (calm True)) ?w5 =
      Some (True, ?w5\<lparr>g_WfpManager := m, g_WfpLocked := False\<rparr>)"
    by (simp add: kern_eval six_layers image_manager_def SkWfpObjectReset_def calm_ops_def at_work_state)
  let ?w6 = "?w5\<lparr>g_WfpManager := m, g_WfpLocked := False\<rparr>"
  let ?w7 = "?w6\<lparr>ShRundownWorkItem := ShRundownBeginStop (ShRundownWorkItem ?w6)\<rparr>"
  have s7: "drain_work_items (calm True) ?w6 = (True, ?w7)"
    by (simp add: drain_work_items_def drain_first at_work_state ShRundownBeginStop_def checked_def)
  have "SkLifecycleQuiesce (calm True) ?w0 = Some (True, ?w7)"
  proof (rule quiesce_intro)
    show "SkControlQuiesce (pf_wdf (calm True)) (pf_sleep (calm True)) (pf_ControlJoin (calm True)) ?w0 = (True, ?w1)"
      using s1 by (simp only: calm_simps)
    show "SkInjectQuiesce (pf_ops (calm True)) (pf_sleep (calm True)) ?w2 = (True, ?w4)" using s3 by (simp only: calm_simps)
    show "SkWfpManagerTeardown (pf_ops (calm True)) (pf_sleep (calm True)) ?w5 = Some (True, ?w6)"
      using s6 by (simp only: calm_simps)
  qed (fact s2, fact s5, fact s7, simp_all add: ShEventThreadRunning_def not_writable)
  then show ?thesis by (simp add: at_work_state)
qed


end
