(* ===== verification/StartProps.thy ===== *)
theory StartProps
  imports LifecycleProps
begin

text \<open>
  The start of the driver: a failed start is rolled back completely or keeps the image resident,
  and what the BFE callback does in each state of the driver.
\<close>

section \<open>The rollback\<close>

text \<open>What a rollback has to have stopped, by the steps that were completed.\<close>

definition steps_stopped :: "u32 \<Rightarrow> 'a driver_scheme \<Rightarrow> bool" where
  "steps_stopped steps w \<longleftrightarrow> \<not> m_installed (g_WfpManager w) \<and> engine_of w = NULL \<and>
     (steps AND SK_STEP_BFE \<noteq> 0 \<longrightarrow> g_SkBfeChangeHandle w = NULL \<and> rd_count (ShRundownBfe w) = SHINKEN_RUNDOWN_STOP_BIT) \<and>
     (steps AND SK_STEP_INJECT \<noteq> 0 \<longrightarrow> rd_count (g_InjectionRundown w) = SHINKEN_RUNDOWN_STOP_BIT \<and>
        g_InjectionHandle w ! 0 = NULL \<and> g_InjectionHandle w ! 1 = NULL) \<and>
     (steps AND SK_STEP_CONTROL \<noteq> 0 \<longrightarrow> control_off w) \<and>
     (steps AND SK_STEP_EVENTQ \<noteq> 0 \<longrightarrow> q_stopping w \<noteq> 0 \<and> \<not> ShEventThreadRunning w)"

definition steps_ready :: "'a driver_scheme \<Rightarrow> bool" where
  "steps_ready w \<longleftrightarrow> (stepped SK_STEP_INJECT w \<longrightarrow> g_SkInjectInited w \<noteq> 0 \<and> length (g_InjectionHandle w) = 2) \<and>
     (stepped SK_STEP_EVENTQ w \<longrightarrow> q_head w \<noteq> None)"

lemma still_stepped: "still w v \<Longrightarrow> stepped s v = stepped s w"
  using stillD(21) [of w v] by (simp add: stepped_def)

lemma still_ready: "still w v \<Longrightarrow> steps_ready w \<Longrightarrow> steps_ready v"
  using stillD(13,14,20) [of w v] still_stepped [of w v] by (simp add: steps_ready_def)

lemma begin_teardown_still: "still w (snd (ShRuntimeBeginTeardown w))"
  by (simp add: still_simps ShRuntimeBeginTeardown_def)

lemma rollback_steps:
  assumes "skLifecycleRollback P w = Some (True, v)"
  obtains w0 k1 w1 w2 w3 w4 u where
    "w0 = snd (ShRuntimeBeginTeardown w)" "SkWfpManagerTeardown (pf_ops P) (pf_sleep P) w0 = Some (True, w1)"
    "(if stepped SK_STEP_BFE w1 then skBfeQuiesce P w1 else (True, w1)) = (True, w2)"
    "(if stepped SK_STEP_INJECT w2 then SkInjectQuiesce (pf_ops P) (pf_sleep P) w2 else (True, w2)) = (True, w3)"
    "(if stepped SK_STEP_CONTROL w3 then SkControlQuiesce (pf_wdf P) (pf_sleep P) (pf_ControlJoin P) w3 else (True, w3)) = (True, w4)"
    "(if stepped SK_STEP_EVENTQ w4 then skEventQuiesce P w4 else Some (True, w4)) = Some (True, u)"
    "rollback_destroy P u = Some (True, v)"
proof -
  let ?w0 = "snd (ShRuntimeBeginTeardown w)"
  obtain r where t: "SkWfpManagerTeardown (pf_ops P) (pf_sleep P) ?w0 = Some r"
    using assms by (auto simp: skLifecycleRollback_def bind_eq_Some_conv Let_def)
  obtain ok1 w1 where c1: "checked ShinkenBlockEngineClose r = (ok1, w1)" by fastforce
  obtain ok2 w2 where c2: "(if stepped SK_STEP_BFE w1 then skBfeQuiesce P w1 else (True, w1)) = (ok2, w2)" by fastforce
  obtain ok3 w3 where c3: "(if stepped SK_STEP_INJECT w2
      then checked ShinkenBlockInjectionDrain (SkInjectQuiesce (pf_ops P) (pf_sleep P) w2) else (True, w2)) = (ok3, w3)" by fastforce
  obtain ok4 w4 where c4: "(if stepped SK_STEP_CONTROL w3
      then checked ShinkenBlockHandleContextsOpen (SkControlQuiesce (pf_wdf P) (pf_sleep P) (pf_ControlJoin P) w3)
      else (True, w3)) = (ok4, w4)" by fastforce
  obtain ok5 u where c5: "(if stepped SK_STEP_EVENTQ w4 then skEventQuiesce P w4 else Some (True, w4)) = Some (ok5, u)"
    using assms t c1 c2 c3 c4 by (auto simp: skLifecycleRollback_def bind_eq_Some_conv)
  have all: "ok1 \<and> ok2 \<and> ok3 \<and> ok4 \<and> ok5 \<and> rollback_destroy P u = Some (True, v)"
    using assms t c1 c2 c3 c4 c5 by (auto simp: skLifecycleRollback_def split: if_splits)
  then have "r = (True, w1)" using checked_true c1 by simp
  moreover have "(if stepped SK_STEP_INJECT w2 then SkInjectQuiesce (pf_ops P) (pf_sleep P) w2 else (True, w2)) = (True, w3)"
    using c3 all by (auto dest: checked_true split: if_splits)
  moreover have "(if stepped SK_STEP_CONTROL w3 then SkControlQuiesce (pf_wdf P) (pf_sleep P) (pf_ControlJoin P) w3
      else (True, w3)) = (True, w4)"
    using c4 all by (auto dest: checked_true split: if_splits)
  ultimately show thesis using that [OF refl, of w1 w2 w3 w4 u] t c2 c5 all by simp
qed

lemma rollback_destroy_done:
  assumes "rollback_destroy P w = Some (True, v)"
  shows "g_SkSteps v = 0 \<and> g_SkDevice v = NULL"
  using assms by (auto simp: rollback_destroy_def bind_eq_Some_conv Let_def split: if_splits)


section \<open>The start\<close>

text \<open>
  How a start ends: successfully; rolled back, with the status of the failing step; or blocked. \<open>rolled P st v\<close>: the
  rollback has run to its end.
\<close>

definition rolled :: "'a driver_scheme platform \<Rightarrow> 'a driver_scheme \<Rightarrow> bool" where
  "rolled P v \<longleftrightarrow> (\<exists>u. skLifecycleRollback P u = Some (True, v)) \<and> g_SkSteps v = 0 \<and> g_SkDevice v = NULL"

definition start_end :: "'a driver_scheme platform \<Rightarrow> ntstatus \<times> 'a driver_scheme \<Rightarrow> bool" where
  "start_end P r \<longleftrightarrow> fst r = STATUS_SUCCESS \<or> fst r <s 0 \<and> rolled P (snd r) \<or>
     fst r = STATUS_DEVICE_BUSY \<and> g_State (snd r) = ShinkenUnloadBlocked"

lemma rollback_done: "skLifecycleRollback P w = Some (True, v) \<Longrightarrow> rolled P v"
  unfolding rolled_def by (rule conjI, blast, rule rollback_steps, assumption, rule rollback_destroy_done)

lemma start_failed_end:
  assumes "start_failed P status w = Some r" and "status <s 0"
  shows "start_end P r"
proof -
  obtain ok v where r: "skLifecycleRollback P w = Some (ok, v)"
      "r = (if \<not> ok then (STATUS_DEVICE_BUSY, ShRuntimeEnterUnloadBlocked (g_BlockReason v) v) else (status, v))"
    using assms(1) by (auto simp: start_failed_def bind_eq_Some_conv)
  then show ?thesis using assms(2) rollback_done by (cases ok) (auto simp: start_end_def)
qed

lemma start_step_end:
  assumes "start_step P s r rest = Some x" and "\<And>w. rest w = Some x \<Longrightarrow> start_end P x"
  shows "start_end P x"
  using assms start_failed_end [of P "fst r" "snd r" x] by (auto simp: start_step_def split: if_splits)

lemma start_success: "start_end P (STATUS_SUCCESS, w)"
  by (simp add: start_end_def)

lemma start_wfp_end: "start_wfp P d w = Some x \<Longrightarrow> start_end P x"
  by (auto simp: start_wfp_def bind_eq_Some_conv split: prod.splits if_splits intro: start_success elim!: start_step_end)

lemma start_ends: "SkLifecycleStart P d w = Some x \<Longrightarrow> start_end P x"
  unfolding SkLifecycleStart_def Let_def
  by (auto simp: bind_eq_Some_conv intro: start_wfp_end elim!: start_step_end)

text \<open>The failures before any subsystem is started: no driver object, or no control device.\<close>

definition never_started :: "'a driver_scheme platform \<Rightarrow> 'a driver_scheme \<Rightarrow> ntstatus \<times> 'a driver_scheme \<Rightarrow> bool" where
  "never_started P w r \<longleftrightarrow>
     (let (st1, drv, w1) = wd_DriverCreate (pf_wdf P) (ShRuntimeInit w);
          w1 = w1\<lparr>g_SkWdfDriver := drv\<rparr>;
          (st2, d, w2) = SkDeviceCreate (pf_wdf P) w1
      in st1 <s 0 \<and> r = (st1, w1) \<or> st2 <s 0 \<and> r = (st2, w2))"


section \<open>The BFE callback\<close>

lemma bfe_callback_stopped:
  assumes "rd_rep (rd_count (ShRundownBfe w)) True n"
  shows "SkBfeStateChangeCallback P bfe w = Some w"
  using acquire_stopped [OF assms] by (simp add: SkBfeStateChangeCallback_def)

lemma bfe_callback_idle:
  assumes "rd_rep (rd_count (ShRundownBfe w)) False n" and "n < 0x40000000"
    and "\<not> (bfe \<and> ShRuntimeIsActive w \<and> g_SkDevice w \<noteq> NULL)"
  shows "SkBfeStateChangeCallback P bfe w = Some w"
proof -
  let ?r = "(ShRundownBfe w)\<lparr>rd_count := rd_enc False (Suc n)\<rparr>"
  have acq: "ShRundownAcquire (ShRundownBfe w) = (True, ?r)" by (rule acquire_open [OF assms(1,2)])
  have rel: "ShRundownRelease ?r v = (ShRundownBfe w, v)" for v :: "'a driver_scheme"
    using release_held [of ?r False n v] assms(1,2) by (simp add: rd_rep_def)
  have "\<not> (bfe \<and> ShRuntimeIsActive (w\<lparr>ShRundownBfe := ?r\<rparr>) \<and> g_SkDevice w \<noteq> NULL)"
    using assms(3) by (simp add: ShRuntimeIsActive_def)
  then show ?thesis by (auto simp: SkBfeStateChangeCallback_def acq rel Let_def)
qed

lemma install_again: "m_installed (g_WfpManager w) \<Longrightarrow> \<not> g_WfpLocked w \<Longrightarrow>
    SkWfpManagerInstall fw ShOps slp d w = Some (STATUS_SUCCESS, w)"
  by (simp add: SkWfpManagerInstall_def skWfpLock_def skWfpUnlock_def)

lemma bfe_callback_installs:
  assumes cnt: "rd_rep (rd_count (ShRundownBfe w)) False n" "n < 0x40000000"
    and act: "ShRuntimeIsActive w" "g_SkDevice w \<noteq> NULL"
  shows "SkBfeStateChangeCallback P True w = do {
      (st, v) \<leftarrow> SkWfpManagerInstall (pf_fw P) (pf_ops P) (pf_sleep P) (g_SkDevice w)
        (w\<lparr>ShRundownBfe := (ShRundownBfe w)\<lparr>rd_count := rd_enc False (Suc n)\<rparr>\<rparr>);
      let v = v\<lparr>g_SkWfpDeferred := \<not> NT_SUCCESS st\<rparr>;
      let (r, v) = ShRundownRelease (ShRundownBfe v) v;
      Some (v\<lparr>ShRundownBfe := r\<rparr>)
    }"
  using acquire_open [OF cnt] act
  by (simp add: SkBfeStateChangeCallback_def ShRuntimeIsActive_def Let_def case_prod_unfold)

text \<open>C7: the BFE callback. Once the unload or a rollback has stopped its rundown it does nothing; in a driver
  that is not active, for another state than RUNNING, and without a device it does nothing either. In an
  active driver with WFP installed it only clears the deferred flag: after a restart of the engine
  nothing is installed again. In an active driver without WFP it installs, inside the rundown, and
  the deferred flag records whether that failed.\<close>

theorem bfe_callback_correct:
  fixes bfe stopped :: bool
  assumes cnt: "rd_rep (rd_count (ShRundownBfe w)) stopped n" and n: "n < 0x40000000" and lock: "\<not> g_WfpLocked w"
  defines "acts \<equiv> \<not> stopped \<and> bfe \<and> ShRuntimeIsActive w \<and> g_SkDevice w \<noteq> NULL"
  shows "(\<not> acts \<longrightarrow> SkBfeStateChangeCallback P bfe w = Some w) \<and>
    (acts \<and> m_installed (g_WfpManager w) \<longrightarrow> SkBfeStateChangeCallback P bfe w = Some (w\<lparr>g_SkWfpDeferred := False\<rparr>)) \<and>
    (acts \<longrightarrow> SkBfeStateChangeCallback P bfe w = do {
      (st, v) \<leftarrow> SkWfpManagerInstall (pf_fw P) (pf_ops P) (pf_sleep P) (g_SkDevice w)
        (w\<lparr>ShRundownBfe := (ShRundownBfe w)\<lparr>rd_count := rd_enc False (Suc n)\<rparr>\<rparr>);
      let v = v\<lparr>g_SkWfpDeferred := \<not> NT_SUCCESS st\<rparr>;
      let (r, v) = ShRundownRelease (ShRundownBfe v) v;
      Some (v\<lparr>ShRundownBfe := r\<rparr>)
    })"
proof (cases acts)
  case False
  then have "SkBfeStateChangeCallback P bfe w = Some w"
    using bfe_callback_stopped [of w n] bfe_callback_idle [of w n bfe] cnt n by (cases stopped) (auto simp: acts_def)
  with False show ?thesis by simp
next
  case True
  then have s: "\<not> stopped" "bfe" "ShRuntimeIsActive w" "g_SkDevice w \<noteq> NULL" by (simp_all add: acts_def)
  let ?r = "(ShRundownBfe w)\<lparr>rd_count := rd_enc False (Suc n)\<rparr>"
  note run = bfe_callback_installs [of w n P, OF _ n s(3,4)]
  have rel: "ShRundownRelease ?r v = (ShRundownBfe w, v)" for v :: "'a driver_scheme"
    using release_held [of ?r False n v] cnt n s(1) by (simp add: rd_rep_def)
  have "SkBfeStateChangeCallback P True w = Some (w\<lparr>g_SkWfpDeferred := False\<rparr>)" if inst: "m_installed (g_WfpManager w)"
  proof -
    have "SkWfpManagerInstall (pf_fw P) (pf_ops P) (pf_sleep P) (g_SkDevice w) (w\<lparr>ShRundownBfe := ?r\<rparr>) =
        Some (STATUS_SUCCESS, w\<lparr>ShRundownBfe := ?r\<rparr>)"
      using inst lock by (intro install_again) simp_all
    then show ?thesis using run cnt s(1) by (simp add: rel NT_SUCCESS_def word_sle_eq)
  qed
  then show ?thesis using True run cnt s(1,2) by simp
qed

text \<open>C8: the window between the BFE subscription and the activation. A RUNNING that arrives after the start has
  seen the engine stopped and before the activation changes nothing, so WFP stays uninstalled until the
  next transition of the engine. And the activation resets the rundowns: a callback that has already
  entered loses its reference. A drain of the unload then succeeds at once although the callback
  is still running, and the callback's own release is reported as an underflow.\<close>

theorem bfe_start_window:
  assumes st: "g_State w = ShinkenUninitialized" and cnt: "rd_rep (rd_count (ShRundownBfe w)) False n" and n: "n < 0x40000000"
  shows "SkBfeStateChangeCallback P True w = Some w \<and>
    (let (entered, r) = ShRundownAcquire (ShRundownBfe w);
         v = ShRuntimeActivate (w\<lparr>ShRundownBfe := r\<rparr>)
     in entered \<and> ShRuntimeIsActive v \<and> rd_count (ShRundownBfe v) = 0 \<and> fst (drain_bfe P v) \<and>
        g_BlockReason (snd (ShRundownRelease (ShRundownBfe v) v)) = ShinkenBlockRundownUnderflow)"
proof -
  have idle: "SkBfeStateChangeCallback P True w = Some w"
    using bfe_callback_idle [OF cnt n] st by (simp add: ShRuntimeIsActive_def)
  let ?v = "ShRuntimeActivate (w\<lparr>ShRundownBfe := (ShRundownBfe w)\<lparr>rd_count := rd_enc False (Suc n)\<rparr>\<rparr>)"
  have v: "g_State ?v = ShinkenActive" "rd_count (ShRundownBfe ?v) = 0" "g_BlockReason ?v = ShinkenBlockNone"
    using st by (simp_all add: ShRuntimeActivate_def ShRuntimeInit_def ShRundownInit_def)
  then have "fst (drain_bfe P ?v)"
    by (simp add: drain_bfe_def drain_first ShRundownBeginStop_def checked_def)
  moreover have "g_BlockReason (snd (ShRundownRelease (ShRundownBfe ?v) ?v)) = ShinkenBlockRundownUnderflow"
    using v by (simp add: ShRundownRelease_def ShRuntimeReportUnderflow_def record_block_reason)
  ultimately show ?thesis using idle v by (simp add: acquire_open [OF cnt n] ShRuntimeIsActive_def)
qed

section \<open>Concrete runs\<close>

theorem bfe_callback_correct_witness:
  "SkBfeStateChangeCallback (calm True) True at_work = Some (at_work\<lparr>g_SkWfpDeferred := False\<rparr>)"
proof -
  have "rd_rep (rd_count (ShRundownBfe at_work)) False 0" "\<not> g_WfpLocked at_work" "ShRuntimeIsActive at_work" "g_SkDevice at_work \<noteq> NULL"
      "m_installed (g_WfpManager at_work)"
    by (simp_all add: at_work_state rd_rep_def ShRuntimeIsActive_def)
      (simp_all add: at_work_def image_inject_def image_device_def image_wfp_def inject.defs device.defs wfp.defs flow.defs)
  then show ?thesis using bfe_callback_correct [of at_work False 0 True "calm True"] by simp
qed

theorem bfe_start_window_witness:
  "SkBfeStateChangeCallback (calm True) True (at_work\<lparr>g_State := ShinkenUninitialized\<rparr>) = Some (at_work\<lparr>g_State := ShinkenUninitialized\<rparr>)"
  using bfe_start_window [of "at_work\<lparr>g_State := ShinkenUninitialized\<rparr>" 0 "calm True"] by (simp add: at_work_state rd_rep_def)

text \<open>The loaded image on a platform without memory: the first step of the start fails.\<close>

definition image_driver :: driver where
  "image_driver = inject.extend image_inject \<lparr>g_SkSteps = 0, g_SkDevice = NULL, g_SkWfpDeferred = False, g_SkBfeChangeHandle = NULL\<rparr>"

definition no_memory :: "driver platform" where
  "no_memory = (calm True)\<lparr>pf_alloc := \<lambda>n. False\<rparr>"

lemma rollback_intro:
  assumes "SkWfpManagerTeardown (pf_ops P) (pf_sleep P) (snd (ShRuntimeBeginTeardown w)) = Some (True, w1)"
    and "(if stepped SK_STEP_BFE w1 then skBfeQuiesce P w1 else (True, w1)) = (True, w2)"
    and "(if stepped SK_STEP_INJECT w2 then SkInjectQuiesce (pf_ops P) (pf_sleep P) w2 else (True, w2)) = (True, w3)"
    and "(if stepped SK_STEP_CONTROL w3 then SkControlQuiesce (pf_wdf P) (pf_sleep P) (pf_ControlJoin P) w3 else (True, w3)) = (True, w4)"
    and "(if stepped SK_STEP_EVENTQ w4 then skEventQuiesce P w4 else Some (True, w4)) = Some (True, u)"
  shows "skLifecycleRollback P w = rollback_destroy P u"
proof -
  have chk: "(if c then checked why r else (True, x)) = (True, y)" if "(if c then r else (True, x)) = (True, y)"
    for c why r and x y :: "'a driver_scheme"
    using that by (cases c) (simp_all add: checked_def)
  have "checked ShinkenBlockEngineClose (True, w1) = (True, w1)" by (simp add: checked_def)
  then show ?thesis
    by (simp only: skLifecycleRollback_def assms(1,2,5) chk [OF assms(3)] chk [OF assms(4)] Let_def prod.case bind.bind_lunit) simp
qed

lemma teardown_nothing:
  "\<not> m_installed (g_WfpManager w) \<Longrightarrow> engine_of w = NULL \<Longrightarrow> SkWfpManagerTeardown ShOps slp w = Some (True, w\<lparr>g_WfpLocked := False\<rparr>)"
  by (simp add: SkWfpManagerTeardown_def skWfpLock_def skWfpUnlock_def)

lemma image_driver_state:
  "g_State image_driver = ShinkenUninitialized" "\<not> g_StoreInited image_driver" "g_WfpManager image_driver = image_manager"
  "g_SkControlWdfDevice image_driver = NULL"
  by (simp_all add: image_driver_def image_inject_def image_device_def image_wfp_def image_flows_def image_telemetry_def image_evq_def
      image_store_def image_engine_def image_runtime_def inject.defs device.defs wfp.defs flow.defs telemetry.defs evq.defs store.defs
      engine.defs runtime.defs)


text \<open>A start that has failed in \<open>SkInjectInit\<close>.\<close>

definition half_started :: driver where
  "half_started = at_work\<lparr>g_State := ShinkenUninitialized, g_SkSteps := 0x87, g_WfpManager := image_manager, g_SkBfeChangeHandle := NULL\<rparr>"


end
