(* ===== verification/ThreadFence.thy ===== *)
theory ThreadFence
  imports RuntimeState
begin

text \<open>
  runtime/runtime.c, the startup fence of system threads: \<open>ShThreadCreateFenced\<close> and the wrapper
  \<open>shkThreadFenceWrapper\<close>, which run in two threads and share the startup context. Every step is one
  access to the shared state or one kernel call. The status of a step of the creator is the answer
  of the kernel; a negative one in the first step stands for an allocation that returns NULL.

  An access to the context outside of its life, and a second free, are counted as faults.
\<close>

datatype startup_mem = Unallocated | Allocated | Freed

datatype creator_pc =
    CrStart
  | CrSpawn
  | CrReference
  | CrOpenGate
  | CrCloseHandle
  | CrAbortGate ntstatus
  | CrReap ntstatus
  | CrCloseReaped ntstatus
  | CrReturned ntstatus

text \<open>The flag of the wrapper's states says whether the startup event has ended its wait.\<close>

datatype wrapper_pc =
    WrNotSpawned
  | WrGate
  | WrGated bool
  | WrLoaded bool nat nat
  | WrReleased bool nat nat
  | WrBody
  | WrExited

record fence =
  sc_mem :: startup_mem
  sc_body :: nat
  sc_ctx :: nat
  sc_startup :: bool
  sc_abort :: bool
  fe_handle :: bool
  fe_thread :: bool
  fe_creator :: creator_pc
  fe_wrapper :: wrapper_pc
  fe_calls :: "(nat \<times> nat) list"
  fe_faults :: nat

definition fence_init :: fence where
  "fence_init = \<lparr>sc_mem = Unallocated, sc_body = 0, sc_ctx = 0, sc_startup = False, sc_abort = False, fe_handle = False,
     fe_thread = False, fe_creator = CrStart, fe_wrapper = WrNotSpawned, fe_calls = [], fe_faults = 0\<rparr>"

definition touch :: "fence \<Rightarrow> fence" where
  "touch s = (if sc_mem s = Allocated then s else s\<lparr>fe_faults := Suc (fe_faults s)\<rparr>)"

definition free_startup :: "fence \<Rightarrow> fence" where
  "free_startup s = (touch s)\<lparr>sc_mem := Freed\<rparr>"

definition creator_step :: "nat \<Rightarrow> nat \<Rightarrow> ntstatus \<Rightarrow> fence \<Rightarrow> fence option" where
  "creator_step body ctx st s =
     (case fe_creator s of
        CrStart \<Rightarrow>
          let s = s\<lparr>fe_thread := False\<rparr>
          in if st <s 0 then Some (s\<lparr>fe_creator := CrReturned STATUS_INSUFFICIENT_RESOURCES\<rparr>)
             else Some (s\<lparr>sc_mem := Allocated, sc_body := body, sc_ctx := ctx, sc_startup := False, sc_abort := False,
                          fe_creator := CrSpawn\<rparr>)
      | CrSpawn \<Rightarrow>
          if st <s 0 then Some ((free_startup s)\<lparr>fe_creator := CrReturned st\<rparr>)
          else Some (s\<lparr>fe_handle := True, fe_wrapper := WrGate, fe_creator := CrReference\<rparr>)
      | CrReference \<Rightarrow>
          if 0 \<le>s st then Some (s\<lparr>fe_thread := True, fe_creator := CrOpenGate\<rparr>)
          else Some (s\<lparr>fe_creator := CrAbortGate st\<rparr>)
      | CrOpenGate \<Rightarrow> Some ((touch s)\<lparr>sc_startup := True, fe_creator := CrCloseHandle\<rparr>)
      | CrCloseHandle \<Rightarrow> Some (s\<lparr>fe_handle := False, fe_creator := CrReturned STATUS_SUCCESS\<rparr>)
      | CrAbortGate e \<Rightarrow> Some ((touch s)\<lparr>sc_abort := True, fe_creator := CrReap e\<rparr>)
      | CrReap e \<Rightarrow> if fe_wrapper s = WrExited then Some (s\<lparr>fe_creator := CrCloseReaped e\<rparr>) else None
      | CrCloseReaped e \<Rightarrow> Some (s\<lparr>fe_handle := False, fe_thread := False, fe_creator := CrReturned e\<rparr>)
      | CrReturned e \<Rightarrow> None)"

text \<open>
  The wait for the two events returns the index of one that is signalled: the startup event's, if
  it is signalled and either the other is not or \<open>pick\<close> says so.
\<close>

definition wrapper_step :: "bool \<Rightarrow> fence \<Rightarrow> fence option" where
  "wrapper_step pick s =
     (case fe_wrapper s of
        WrNotSpawned \<Rightarrow> None
      | WrGate \<Rightarrow>
          if sc_startup s \<or> sc_abort s
          then Some ((touch s)\<lparr>fe_wrapper := WrGated (sc_startup s \<and> (pick \<or> \<not> sc_abort s))\<rparr>) else None
      | WrGated i \<Rightarrow> Some ((touch s)\<lparr>fe_wrapper := WrLoaded i (sc_body s) (sc_ctx s)\<rparr>)
      | WrLoaded i b c \<Rightarrow> Some ((free_startup s)\<lparr>fe_wrapper := WrReleased i b c\<rparr>)
      | WrReleased i b c \<Rightarrow>
          if i then Some (s\<lparr>fe_calls := fe_calls s @ [(b, c)], fe_wrapper := WrBody\<rparr>)
          else Some (s\<lparr>fe_wrapper := WrExited\<rparr>)
      | WrBody \<Rightarrow> Some (s\<lparr>fe_wrapper := WrExited\<rparr>)
      | WrExited \<Rightarrow> None)"

inductive fence_step :: "nat \<Rightarrow> nat \<Rightarrow> fence \<Rightarrow> fence \<Rightarrow> bool" for body ctx where
  creator: "creator_step body ctx st s = Some t \<Longrightarrow> fence_step body ctx s t"
| wrapper: "wrapper_step pick s = Some t \<Longrightarrow> fence_step body ctx s t"

inductive_cases fence_stepE: "fence_step body ctx s t"

abbreviation fence_reach :: "nat \<Rightarrow> nat \<Rightarrow> fence \<Rightarrow> bool" where
  "fence_reach body ctx s \<equiv> (fence_step body ctx)\<^sup>*\<^sup>* fence_init s"

section \<open>The invariant\<close>

text \<open>The wrapper behind an opened gate, with the body started or not; behind an aborted one.\<close>

definition wrapper_ok :: "bool \<Rightarrow> nat \<Rightarrow> nat \<Rightarrow> fence \<Rightarrow> bool" where
  "wrapper_ok go body ctx s \<longleftrightarrow> sc_startup s = go \<and> sc_abort s = (\<not> go) \<and>
     (case fe_wrapper s of
        WrNotSpawned \<Rightarrow> False
      | WrGate \<Rightarrow> sc_mem s = Allocated \<and> fe_calls s = []
      | WrGated i \<Rightarrow> i = go \<and> sc_mem s = Allocated \<and> fe_calls s = []
      | WrLoaded i b c \<Rightarrow> i = go \<and> b = body \<and> c = ctx \<and> sc_mem s = Allocated \<and> fe_calls s = []
      | WrReleased i b c \<Rightarrow> i = go \<and> b = body \<and> c = ctx \<and> sc_mem s = Freed \<and> fe_calls s = []
      | WrBody \<Rightarrow> go \<and> sc_mem s = Freed \<and> fe_calls s = [(body, ctx)]
      | WrExited \<Rightarrow> sc_mem s = Freed \<and> fe_calls s = (if go then [(body, ctx)] else []))"

definition gate_shut :: "fence \<Rightarrow> bool" where
  "gate_shut s \<longleftrightarrow> sc_mem s = Allocated \<and> \<not> sc_startup s \<and> \<not> sc_abort s \<and> fe_calls s = []"

definition fence_ok :: "nat \<Rightarrow> nat \<Rightarrow> fence \<Rightarrow> bool" where
  "fence_ok body ctx s \<longleftrightarrow> fe_faults s = 0 \<and> (sc_mem s = Allocated \<longrightarrow> sc_body s = body \<and> sc_ctx s = ctx) \<and>
     (case fe_creator s of
        CrStart \<Rightarrow> sc_mem s = Unallocated \<and> fe_wrapper s = WrNotSpawned \<and> \<not> fe_handle s \<and> \<not> fe_thread s \<and> fe_calls s = []
      | CrSpawn \<Rightarrow> gate_shut s \<and> fe_wrapper s = WrNotSpawned \<and> \<not> fe_handle s \<and> \<not> fe_thread s
      | CrReference \<Rightarrow> gate_shut s \<and> fe_wrapper s = WrGate \<and> fe_handle s \<and> \<not> fe_thread s
      | CrOpenGate \<Rightarrow> gate_shut s \<and> fe_wrapper s = WrGate \<and> fe_handle s \<and> fe_thread s
      | CrAbortGate e \<Rightarrow> e <s 0 \<and> gate_shut s \<and> fe_wrapper s = WrGate \<and> fe_handle s \<and> \<not> fe_thread s
      | CrCloseHandle \<Rightarrow> wrapper_ok True body ctx s \<and> fe_handle s \<and> fe_thread s
      | CrReap e \<Rightarrow> e <s 0 \<and> wrapper_ok False body ctx s \<and> fe_handle s \<and> \<not> fe_thread s
      | CrCloseReaped e \<Rightarrow> e <s 0 \<and> wrapper_ok False body ctx s \<and> fe_wrapper s = WrExited \<and> fe_handle s \<and> \<not> fe_thread s
      | CrReturned st \<Rightarrow> \<not> fe_handle s \<and>
          (st = STATUS_SUCCESS \<and> wrapper_ok True body ctx s \<and> fe_thread s \<or>
           st <s 0 \<and> \<not> fe_thread s \<and> fe_calls s = [] \<and> sc_mem s \<noteq> Allocated \<and> fe_wrapper s \<in> {WrNotSpawned, WrExited}))"

lemma creator_step_ok:
  assumes "fence_ok body ctx s" and "creator_step body ctx st s = Some t"
  shows "fence_ok body ctx t"
proof -
  have "STATUS_INSUFFICIENT_RESOURCES <s 0" by (simp add: word_sless_alt)
  moreover have "\<not> 0 \<le>s st \<longleftrightarrow> st <s 0" by (simp add: word_sless_alt word_sle_eq not_le)
  ultimately show ?thesis
    using assms
    by (cases "fe_creator s")
      (auto simp: creator_step_def fence_ok_def gate_shut_def wrapper_ok_def free_startup_def touch_def Let_def
        split: if_splits wrapper_pc.splits)
qed

lemma wrapper_step_ok:
  assumes "fence_ok body ctx s" and "wrapper_step pick s = Some t"
  shows "fence_ok body ctx t"
  using assms
  by (cases "fe_creator s"; cases "fe_wrapper s")
    (auto simp: wrapper_step_def fence_ok_def gate_shut_def wrapper_ok_def free_startup_def touch_def split: if_splits)

interpretation fences: inductive_invariant "fence_step body ctx" "fence_ok body ctx" for body ctx
  by unfold_locales (auto elim!: fence_stepE intro: creator_step_ok wrapper_step_ok)

lemma fence_init_ok: "fence_ok body ctx fence_init"
  by (simp add: fence_ok_def fence_init_def)

lemma fence_reach_ok: "fence_reach body ctx s \<Longrightarrow> fence_ok body ctx s"
  using fences.reach_inv [of body ctx fence_init s] fence_init_ok by simp

section \<open>The contract\<close>

text \<open>C22: the thread start is fenced. In every interleaving of the creator and the new thread, the startup
  context is never used outside of its life nor freed twice. The body runs at most once, with the
  context it was given, and only after the thread object has been published. When the creation returns,
  the handle is closed; on success the caller owns the thread object; on failure it gets none, the body
  has never run and never will, no thread is left, and the context is not left allocated.\<close>

theorem fence_contract:
  assumes "fence_reach body ctx s"
  shows "fe_faults s = 0 \<and> (fe_calls s \<noteq> [] \<longrightarrow> fe_calls s = [(body, ctx)] \<and> fe_thread s) \<and>
    (\<forall>st. fe_creator s = CrReturned st \<longrightarrow> \<not> fe_handle s \<and>
      (if st <s 0 then \<not> fe_thread s \<and> fe_calls s = [] \<and> fe_wrapper s \<in> {WrNotSpawned, WrExited} \<and> sc_mem s \<noteq> Allocated
       else st = STATUS_SUCCESS \<and> fe_thread s))"
  using fence_reach_ok [OF assms]
  by (cases "fe_creator s"; cases "fe_wrapper s") (auto simp: fence_ok_def gate_shut_def wrapper_ok_def split: if_splits)

text \<open>Both threads come to an end.\<close>

definition creator_left :: "creator_pc \<Rightarrow> nat" where
  "creator_left pc = (case pc of CrStart \<Rightarrow> 7 | CrSpawn \<Rightarrow> 6 | CrReference \<Rightarrow> 5 | CrOpenGate \<Rightarrow> 4 | CrAbortGate _ \<Rightarrow> 4
     | CrCloseHandle \<Rightarrow> 3 | CrReap _ \<Rightarrow> 3 | CrCloseReaped _ \<Rightarrow> 2 | CrReturned _ \<Rightarrow> 0)"

definition wrapper_left :: "wrapper_pc \<Rightarrow> nat" where
  "wrapper_left pc = (case pc of WrNotSpawned \<Rightarrow> 6 | WrGate \<Rightarrow> 5 | WrGated _ \<Rightarrow> 4 | WrLoaded _ _ _ \<Rightarrow> 3 | WrReleased _ _ _ \<Rightarrow> 2
     | WrBody \<Rightarrow> 1 | WrExited \<Rightarrow> 0)"

definition fence_left :: "fence \<Rightarrow> nat" where
  "fence_left s = creator_left (fe_creator s) + wrapper_left (fe_wrapper s)"

lemma touch_frame [simp]:
  "fe_creator (touch s) = fe_creator s" "fe_wrapper (touch s) = fe_wrapper s"
  "fe_creator (free_startup s) = fe_creator s" "fe_wrapper (free_startup s) = fe_wrapper s"
  by (simp_all add: touch_def free_startup_def)

lemma fence_step_less: "fence_ok body ctx s \<Longrightarrow> fence_step body ctx s t \<Longrightarrow> fence_left t < fence_left s"
proof (elim fence_stepE)
  fix st assume ok: "fence_ok body ctx s" and step: "creator_step body ctx st s = Some t"
  then show ?thesis
    by (cases "fe_creator s")
      (auto simp: creator_step_def fence_left_def creator_left_def wrapper_left_def fence_ok_def Let_def split: if_splits)
next
  fix pick assume "wrapper_step pick s = Some t"
  then show ?thesis
    by (cases "fe_wrapper s") (auto simp: wrapper_step_def fence_left_def wrapper_left_def split: if_splits)
qed

text \<open>C23: the fenced start ends. Every step of either thread brings the pair closer to its end, so that
  they take at most 13 steps; as long as the creation has not returned or a spawned thread has not
  exited some step is possible: neither waits for an event that never comes. In the end, after a
  success, the body has run once and the context is freed.\<close>

theorem fence_completes:
  assumes "fence_reach body ctx s"
  shows "(\<forall>t. fence_step body ctx s t \<longrightarrow> fence_left t < fence_left s) \<and>
    ((\<exists>t. fence_step body ctx s t) \<or>
     (\<exists>st. fe_creator s = CrReturned st \<and> sc_mem s \<noteq> Allocated \<and> fe_calls s = (if st = STATUS_SUCCESS then [(body, ctx)] else [])))"
proof -
  have ok: "fence_ok body ctx s" by (rule fence_reach_ok [OF assms])
  have "(\<exists>st. creator_step body ctx st s \<noteq> None) \<or> (\<exists>pick. wrapper_step pick s \<noteq> None) \<or>
     (\<exists>st. fe_creator s = CrReturned st \<and> sc_mem s \<noteq> Allocated \<and> fe_calls s = (if st = STATUS_SUCCESS then [(body, ctx)] else []))"
    using ok by (cases "fe_creator s"; cases "fe_wrapper s")
      (auto simp: creator_step_def wrapper_step_def fence_ok_def gate_shut_def wrapper_ok_def Let_def)
  then show ?thesis using fence_step_less [OF ok] fence_step.intros by blast
qed

section \<open>Runs\<close>

text \<open>A schedule: the steps of the two threads, with the answer of the kernel or the choice of the wait.\<close>

fun fence_run :: "(ntstatus + bool) list \<Rightarrow> nat \<Rightarrow> nat \<Rightarrow> fence \<Rightarrow> fence option" where
  "fence_run [] body ctx s = Some s"
| "fence_run (m # ms) body ctx s =
     (case (case m of Inl st \<Rightarrow> creator_step body ctx st s | Inr pick \<Rightarrow> wrapper_step pick s) of
        None \<Rightarrow> None | Some t \<Rightarrow> fence_run ms body ctx t)"

lemma fence_run_steps: "fence_run ms body ctx s = Some t \<Longrightarrow> (fence_step body ctx)\<^sup>*\<^sup>* s t"
proof (induction ms arbitrary: s)
  case (Cons m ms)
  then obtain u where u: "fence_step body ctx s u" "fence_run ms body ctx u = Some t"
    by (auto intro: fence_step.intros split: sum.splits option.splits)
  then show ?case using Cons.IH by (meson converse_rtranclp_into_rtranclp)
qed simp

lemmas fence_eval = fence_init_def creator_step_def wrapper_step_def touch_def free_startup_def

text \<open>The object reference fails: the spawned thread is aborted and reaped.\<close>

theorem fence_contract_witness:
  "\<exists>s. fence_run [Inl 0, Inl 0, Inl STATUS_UNSUCCESSFUL, Inl 0, Inr True, Inr True, Inr True, Inr True, Inl 0, Inl 0] 7 9 fence_init = Some s \<and>
     fe_creator s = CrReturned STATUS_UNSUCCESSFUL \<and> \<not> fe_thread s \<and> fe_calls s = [] \<and> sc_mem s \<noteq> Allocated"
proof -
  have neg: "\<not> 0 \<le>s STATUS_UNSUCCESSFUL" "STATUS_UNSUCCESSFUL <s 0" by (simp_all add: word_sless_alt word_sle_eq)
  obtain s where s: "fence_run [Inl 0, Inl 0, Inl STATUS_UNSUCCESSFUL, Inl 0, Inr True, Inr True, Inr True, Inr True, Inl 0, Inl 0]
      7 9 fence_init = Some s" "fe_creator s = CrReturned STATUS_UNSUCCESSFUL"
    by (simp add: fence_eval neg)
  show ?thesis using fence_contract [OF fence_run_steps [OF s(1)]] s neg(2) by auto
qed

text \<open>The success: the body runs.\<close>

theorem fence_completes_witness:
  "\<exists>s. fence_run [Inl 0, Inl 0, Inl 0, Inl 0, Inr True, Inl 0, Inr True, Inr True, Inr True, Inr True] 7 9 fence_init = Some s \<and>
     fe_calls s = [(7, 9)] \<and> sc_mem s = Freed"
proof -
  obtain s where s: "fence_run [Inl 0, Inl 0, Inl 0, Inl 0, Inr True, Inl 0, Inr True, Inr True, Inr True, Inr True] 7 9 fence_init = Some s"
      "fe_creator s = CrReturned STATUS_SUCCESS" "fe_wrapper s = WrExited" "sc_mem s = Freed"
    by (simp add: fence_eval)
  have "\<not> fence_step 7 9 s t" for t
    using s(2,3) by (auto elim!: fence_stepE simp: creator_step_def wrapper_step_def)
  then show ?thesis using fence_completes [OF fence_run_steps [OF s(1)]] s by auto
qed

end
