(* ===== verification/Spec2Isabelle.thy ===== *)
theory Spec2Isabelle
  imports PacketHelpers RundownProtocol SnapshotProtocol EventProtocol WfpTracking FlowProtocol WfpInstall IoctlClient InjectionProps ClassifyProps StartProps ThreadFence
begin

text \<open>
  A verification of SHINKEN-Sentinel, a Windows kernel driver that decides, connection by
  connection, what the Windows Filtering Platform (WFP) lets through. All paths below are relative
  to src/.

  \<^bold>\<open>The program.\<close> A client sends rules over a control device (control/ioctl.c). They are kept in a
  rule store of immutable snapshots (rules/rule_store.c). WFP calls the driver for every
  connection (packet/classify.c): the callback builds a tuple, takes a reference to the current
  snapshot, evaluates the rules (rules/rule_engine.c, rules/rule_match.c), writes the verdict, and
  posts an audit record to a queue (telemetry/event_queue.c) that the client flushes. Flows that
  the driver follows have a reference-counted context (packet/flow_context.c). The WFP objects are
  installed and removed by wfp/wfp_manager.c and wfp/wfp_objects.c. What has no other owner is
  counted by rundowns (runtime/rundown.c); runtime/runtime.c has the state machine and the unload
  gate; runtime/lifecycle.c and driver/driver.c start and stop everything. The point of the design
  is that the image must never be unloaded while something can still call into it: whatever
  cannot be stopped keeps the driver resident (UNLOAD_BLOCKED).

  \<^bold>\<open>The state.\<close> The globals of the driver are one record, extended theory by theory in the order of the
  imports: \<open>runtime\<close>, \<open>engine\<close> (rate table, statistics), \<open>store\<close>, \<open>evq\<close>, \<open>telemetry\<close>, \<open>flow\<close>,
  \<open>wfp\<close>, \<open>control\<close>, \<open>device\<close>, \<open>inject\<close>, \<open>driver\<close>. Every operation is a function on an extension of
  its record, so that each runs on the state of the whole driver and the orchestration composes
  them without lifting. Integers have the width of the C type. Pool memory is a map from addresses
  to contents; an invalid access, a double free, and a call that never returns are the value
  \<open>None\<close>. NTSTATUS values are 32-bit words; the comparisons the code makes (exact, \<open>< 0\<close>,
  \<open>NT_SUCCESS\<close>) are kept, because SHINKEN_STATUS_TIMEOUT is positive.

  \<^bold>\<open>The kernel\<close> is code outside of the repository. Its calls are records of functions that take and
  return the state: \<open>ops\<close> (the table \<open>ShOps\<close>), \<open>api\<close> (the creating calls of WFP), \<open>wdf\<close>, \<open>ndis\<close>,
  and \<open>platform\<close> for the whole driver. The parameters \<open>slp\<close>, \<open>join\<close> and \<open>wait\<close> are what other threads do
  while this one sleeps or waits. What a property relies on of them is a named hypothesis
  (\<open>kernel_ok\<close>, \<open>api_ok\<close>, \<open>wdf_ok\<close>, \<open>ndis_ok\<close>, \<open>env_ok\<close>, \<open>platform_still\<close>), each with a concrete
  instance in the witnesses.

  \<^bold>\<open>The theories.\<close>

  \<^item> \<open>SkPrelude\<close>: types, statuses, the locale \<open>inductive_invariant\<close>, generic lemmas. \<open>RuleTypes\<close>:
    rules/rule_types.h.
  \<^item> \<open>PacketHelpers\<close> (packet/packet_helpers.c), \<open>RuleMatch\<close> (rules/rule_match.c and \<open>SkRuleValidate\<close>),
    \<open>RuleOrder\<close> (the verdict order and the sort of rules/rule_store.c): the match equals a
    specification, the sort puts the rule of highest precedence first (locale \<open>first_match\<close>).
  \<^item> \<open>RateLimit\<close>, \<open>RuleEngine\<close> (rules/rule_engine.c): the token buckets with their bound on what passes in
    a time, locale \<open>bucket_table\<close> for the resets; the evaluation.
  \<^item> \<open>RuleStore\<close> (rules/rule_store.c); \<open>StoreInvariant\<close>, \<open>StoreThreads\<close> (what readers do while a writer
    sleeps, locale \<open>store_env\<close>), \<open>StoreSpec\<close> (the abstract store), \<open>StorePublish\<close>, \<open>StoreOps\<close>,
    \<open>StoreLife\<close>, \<open>StoreProperties\<close>: every writer refines the abstract store, under any
    schedule of readers. \<open>SnapshotProtocol\<close>: the same sections as an interleaved step relation.
  \<^item> \<open>Rundown\<close>, \<open>RundownProtocol\<close> (runtime/rundown.c); \<open>RuntimeState\<close> (runtime/runtime.c, state machine and
    unload gate); \<open>WfpTracking\<close> (runtime/runtime.c, the tracked removal of kernel objects);
    \<open>ThreadFence\<close> (runtime/runtime.c, the startup fence of threads as two interleaved threads).
  \<^item> \<open>EventQueue\<close>, \<open>EventProtocol\<close> (telemetry/event_queue.c): operations, ring, and the stop protocol.
  \<^item> \<open>FlowContext\<close>, \<open>FlowProtocol\<close> (packet/flow_context.c): operations and their interleavings.
  \<^item> \<open>WfpObjects\<close> (wfp/wfp_objects.c, wfp/wfp_callouts.c), \<open>WfpManager\<close> (wfp/wfp_manager.c), \<open>WfpTeardown\<close>,
    \<open>WfpInstall\<close>: what an install and a teardown leave behind.
  \<^item> \<open>Wire\<close>, \<open>Ioctl\<close>, \<open>IoctlDispatch\<close>, \<open>IoctlClient\<close>, \<open>ControlLife\<close>, \<open>ControlPlane\<close> (control/ioctl.c,
    control/protocol.h): the bytes of the protocol, memory safety of the dispatch on arbitrary
    input, the refinement of a client's request to an operation of the abstract store, the
    dequeue thread, the file objects, start and stop. \<open>Device\<close>: driver/device.c.
  \<^item> \<open>Injection\<close>, \<open>InjectionProps\<close> (packet/injection.c); \<open>Classify\<close>, \<open>ClassifyProps\<close> (packet/classify.c).
  \<^item> \<open>Lifecycle\<close> (runtime/lifecycle.c, driver/driver.c), \<open>LifecycleProps\<close> (the unload), \<open>StartProps\<close> (the start, its
    rollback, the BFE callback).

  \<^bold>\<open>The lemmas.\<close> The sequential theories give each operation its functional behaviour under an
  invariant; the protocol theories (\<open>rd_step\<close>, \<open>pstep\<close>, \<open>ev_step\<close>, \<open>flow_step\<close>, \<open>dq_step\<close>,
  \<open>fence_step\<close>) prove an inductive invariant of all interleavings of the same sections. The
  orchestration uses one relation, \<open>still\<close>: a fact that a stop has established stays true, whatever
  other threads do. From it follows what an unload that returns guarantees. Properties that
  show a defect are stated as such.

  \<^bold>\<open>Bounds.\<close> The retry loops carry their C bounds as a counter: 8 BUSY retries
  (\<open>SK_WFP_BUSY_RETRIES\<close>, \<open>SK_INJECT_BUSY_RETRIES\<close>), 50 and 1000 drain rounds in the store, 100 in the
  event queue, the lifecycle and the injection, 200 in the control plane. Loops without a bound
  (locks, drain of the queue, the resident wait) are partial functions, and where the
  code promises that they end this is proved. \<open>remove_loop\<close> has the length of its local list as fuel,
  which nothing else lengthens.

  \<^bold>\<open>Not modelled.\<close> shim/wdk_shim.h and runtime/sk_atomic.h (declarations for the host build and wrappers
  of compiler intrinsics: an interlocked operation is one step of the protocol models, and a
  fence is nothing in a model whose steps are atomic, so that weak memory is out of scope);
  the default table of kernel entry points in runtime.c; the name tables and the diagnostics
  (the debug output of ShOps, the trace helper of device.c); IRQL rules; wfp/wfp_guids.c, which only instantiates the
  keys; the branches of the preprocessor for the host tests.
\<close>

end
